(* ===== verification/Prelude.thy ===== *)
theory Prelude
  imports "HOL-Library.Word" "HOL-Library.Monad_Syntax" "HOL-Library.Signed_Division"
begin

text \<open>
  Shared vocabulary of the development.

  \<^item> Names for Rust's machine integers, as words of the same width.
  \<^item> The panic monad. The kernel is built by \<^verbatim>\<open>make_iso.sh\<close> with the debug profile and
    \<^verbatim>\<open>panic = "abort"\<close>, so an arithmetic overflow, an index out of bounds, a failed
    \<^verbatim>\<open>unwrap\<close> or an explicit \<^verbatim>\<open>panic!\<close> stops the kernel. A computation that may
    panic has type \<open>'a option\<close>: \<open>None\<close> is the panic, \<open>Some v\<close> is a normal return of
    \<open>v\<close>. A Rust \<^verbatim>\<open>Option\<close> that a function returns is a second, inner option.
  \<^item> Checked arithmetic and indexing in that monad, little-endian byte encodings, and the
    generic facts on bits and lists that the component theories share.
\<close>

unbundle bit_operations_syntax

named_theorems panic_simps \<open>evaluation rules for the panicking primitives\<close>
named_theorems bit_expand \<open>rules that evaluate a single bit of a bitwise expression\<close>

type_synonym u8 = "8 word"
type_synonym u16 = "16 word"
type_synonym u32 = "32 word"
type_synonym u64 = "64 word"
type_synonym u128 = "128 word"

section \<open>The panic monad\<close>

definition checked_add :: "'a::len word \<Rightarrow> 'a word \<Rightarrow> 'a word option" where
  "checked_add a b = (if a \<le> a + b then Some (a + b) else None)"

definition checked_sub :: "'a::len word \<Rightarrow> 'a word \<Rightarrow> 'a word option" where
  "checked_sub a b = (if b \<le> a then Some (a - b) else None)"

definition assert_that :: "bool \<Rightarrow> unit option" where
  "assert_that b = (if b then Some () else None)"

definition index :: "'a list \<Rightarrow> nat \<Rightarrow> 'a option" where
  "index xs i = (if i < length xs then Some (xs ! i) else None)"

definition index_set :: "'a list \<Rightarrow> nat \<Rightarrow> 'a \<Rightarrow> 'a list option" where
  "index_set xs i v = (if i < length xs then Some (xs[i := v]) else None)"

lemma bind_Some_map: "Option.bind x (\<lambda>y. Some (f y)) = map_option f x"
  by (cases x) simp_all

lemma assert_that_simps [simp]:
  "assert_that True = Some ()" "assert_that False = None"
  by (simp_all add: assert_that_def)

lemma index_Some [simp]: "i < length xs \<Longrightarrow> index xs i = Some (xs ! i)"
  by (simp add: index_def)

lemma index_None_iff [simp]: "index xs i = None \<longleftrightarrow> length xs \<le> i"
  by (simp add: index_def)

lemma index_eq_Some_iff: "index xs i = Some v \<longleftrightarrow> i < length xs \<and> xs ! i = v"
  by (auto simp: index_def)

lemma index_set_Some [simp]: "i < length xs \<Longrightarrow> index_set xs i v = Some (xs[i := v])"
  by (simp add: index_set_def)

lemma index_set_eq_Some_iff: "index_set xs i v = Some ys \<longleftrightarrow> i < length xs \<and> ys = xs[i := v]"
  by (auto simp: index_set_def)

definition checked_mul :: "'a::len word \<Rightarrow> 'a word \<Rightarrow> 'a word option" where
  "checked_mul a b = (if unat a * unat b < 2 ^ LENGTH('a) then Some (a * b) else None)"

definition checked_div :: "'a::len word \<Rightarrow> 'a word \<Rightarrow> 'a word option" where
  "checked_div a b = (if b = 0 then None else Some (a div b))"

definition checked_mod :: "'a::len word \<Rightarrow> 'a word \<Rightarrow> 'a word option" where
  "checked_mod a b = (if b = 0 then None else Some (a mod b))"

lemma checked_mul_eq_Some_iff:
  "checked_mul a b = Some c \<longleftrightarrow> unat a * unat b < 2 ^ LENGTH('a) \<and> c = a * b"
  for a b :: "'a::len word"
  by (auto simp: checked_mul_def)

lemma checked_mul_unat: "checked_mul a b = Some c \<Longrightarrow> unat c = unat a * unat b"
  by (auto simp: checked_mul_eq_Some_iff unat_word_ariths)

lemma checked_add_nat:
  "checked_add a b = (if unat a + unat b < 2 ^ LENGTH('a) then Some (a + b) else None)"
  for a b :: "'a::len word"
proof -
  have b: "unat b < 2 ^ LENGTH('a)" by (rule unsigned_less)
  have "unat (a + b) = (if unat a + unat b < 2 ^ LENGTH('a) then unat a + unat b
      else unat a + unat b - 2 ^ LENGTH('a))"
    by (rule unat_plus_if')
  with b have "a \<le> a + b \<longleftrightarrow> unat a + unat b < 2 ^ LENGTH('a)"
    unfolding word_le_nat_alt
    by (cases "unat a + unat b < 2 ^ LENGTH('a)") (auto simp del: unsigned_less)
  then show ?thesis by (simp add: checked_add_def)
qed

lemma checked_add_eq_Some_iff:
  "checked_add a b = Some c \<longleftrightarrow> unat a + unat b < 2 ^ LENGTH('a) \<and> c = a + b"
  for a b :: "'a::len word"
  by (auto simp: checked_add_nat)

lemma checked_add_unat:
  "checked_add a b = Some c \<Longrightarrow> unat c = unat a + unat b"
  by (auto simp: checked_add_eq_Some_iff unat_word_ariths)

lemma checked_sub_eq_Some_iff:
  "checked_sub a b = Some c \<longleftrightarrow> b \<le> a \<and> c = a - b"
  by (auto simp: checked_sub_def)

lemma checked_sub_unat:
  "checked_sub a b = Some c \<Longrightarrow> unat c = unat a - unat b"
  by (auto simp: checked_sub_eq_Some_iff unat_sub word_le_nat_alt)

text \<open>
  Adding a size back to a wrapped difference overflows exactly when the difference wrapped:
  this is what the program counter increment at the end of an emulated instruction does.
\<close>

lemma checked_add_after_sub:
  "checked_add (t - k) k = (if t < k then None else Some t)"
  for t k :: "'a::len word"
proof (cases "t < k")
  case True
  then have lt: "unat t < unat k" by (simp add: word_less_nat_alt)
  have kb: "unat k < 2 ^ LENGTH('a)" by (rule unsigned_less)
  have "unat (t - k) = unat t + 2 ^ LENGTH('a) - unat k"
    using lt by (simp add: unat_sub_if' word_le_nat_alt)
  with lt kb have "unat (t - k) + unat k = 2 ^ LENGTH('a) + unat t" by linarith
  with True show ?thesis by (simp add: checked_add_nat)
next
  case False
  then have "unat (t - k) + unat k = unat t"
    by (simp add: unat_sub word_le_nat_alt not_less)
  moreover have "unat t < 2 ^ LENGTH('a)" by (rule unsigned_less)
  ultimately show ?thesis using False by (simp add: checked_add_nat)
qed

lemma checked_add_wrapped:
  "checked_add a b = (if a + b < b then None else Some (a + b))"
  for a b :: "'a::len word"
  using checked_add_after_sub [of "a + b" b] by simp

section \<open>Vectors that keep the indices of their live entries\<close>

text \<open>
  The kernel keeps tables of \<^verbatim>\<open>Option\<close> entries whose index is an identifier (file
  descriptors, pipes, processes, signal queues) and shortens them with
  \<^verbatim>\<open>while v.last().map(|val| val.is_none()).unwrap_or(false) { v.pop(); }\<close>.
\<close>

definition drain_none :: "'a option list \<Rightarrow> 'a option list" where
  "drain_none xs = rev (dropWhile (\<lambda>x. x = None) (rev xs))"

definition lookup_slot :: "'a option list \<Rightarrow> nat \<Rightarrow> 'a option" where
  "lookup_slot xs i = (if i < length xs then xs ! i else None)"

lemma drain_none_Nil [simp]: "drain_none [] = []"
  by (simp add: drain_none_def)

lemma drain_none_snoc_None [simp]: "drain_none (xs @ [None]) = drain_none xs"
  by (simp add: drain_none_def)

lemma drain_none_snoc_Some [simp]: "drain_none (xs @ [Some x]) = xs @ [Some x]"
  by (simp add: drain_none_def)

lemma drain_none_ends_in_Some: "drain_none xs = [] \<or> last (drain_none xs) \<noteq> None"
  by (induction xs rule: rev_induct) (auto simp: drain_none_def)

lemma drain_none_id: "xs = [] \<or> last xs \<noteq> None \<Longrightarrow> drain_none xs = xs"
  by (cases xs rule: rev_cases) (auto simp: drain_none_def)

lemma lookup_slot_drain_none [simp]: "lookup_slot (drain_none xs) i = lookup_slot xs i"
proof (induction xs rule: rev_induct)
  case Nil
  then show ?case by simp
next
  case (snoc x xs)
  show ?case
  proof (cases x)
    case None
    with snoc show ?thesis by (auto simp: lookup_slot_def nth_append)
  next
    case (Some y)
    then show ?thesis by simp
  qed
qed

lemma length_drain_none: "length (drain_none xs) \<le> length xs"
  using length_dropWhile_le [of "\<lambda>x. x = None" "rev xs"] by (simp add: drain_none_def)

lemma drain_none_prefix: "\<exists>n. xs = drain_none xs @ replicate n None"
proof (induction xs rule: rev_induct)
  case Nil
  then show ?case by simp
next
  case (snoc x xs)
  show ?case
  proof (cases x)
    case None
    from snoc.IH obtain n where "xs = drain_none xs @ replicate n None" by blast
    then have "xs @ [None] = drain_none (xs @ [None]) @ replicate (Suc n) None"
      by (metis append.assoc drain_none_snoc_None replicate_Suc replicate_append_same)
    with None show ?thesis by blast
  next
    case (Some y)
    then show ?thesis by (intro exI [of _ 0]) simp
  qed
qed

lemma lookup_slot_update:
  "i < length xs \<Longrightarrow> lookup_slot (xs[i := v]) j = (if j = i then v else lookup_slot xs j)"
  by (auto simp: lookup_slot_def)

lemma lookup_slot_snoc:
  "lookup_slot (xs @ [v]) j = (if j = length xs then v else lookup_slot xs j)"
  by (auto simp: lookup_slot_def nth_append)

section \<open>Bits\<close>

lemma and_bit_nonzero_iff: "x AND push_bit n 1 \<noteq> 0 \<longleftrightarrow> bit x n" for x :: "'a::len word"
  by (simp add: and_exp_eq_0_iff_not_bit push_bit_eq_mult)

lemma sint_scast_up:
  assumes "LENGTH('t::len) \<le> LENGTH('u::len)"
  shows "sint (scast (v :: 't word) :: 'u word) = sint v"
proof -
  have "(2 :: int) ^ (LENGTH('t) - Suc 0) \<le> 2 ^ (LENGTH('u) - Suc 0)" using assms by simp
  with sint_less [of v] sint_greater_eq [of v] show ?thesis
    unfolding signed_scast_eq by (intro signed_take_bit_int_eq_self) linarith+
qed

lemma all_less_32:
  "(\<forall>n < 32. P n) \<longleftrightarrow>
     P 0 \<and> P 1 \<and> P 2 \<and> P 3 \<and> P 4 \<and> P 5 \<and> P 6 \<and> P 7 \<and> P 8 \<and> P 9 \<and> P 10 \<and> P 11 \<and> P 12 \<and>
     P 13 \<and> P 14 \<and> P 15 \<and> P 16 \<and> P 17 \<and> P 18 \<and> P 19 \<and> P 20 \<and> P 21 \<and> P 22 \<and> P 23 \<and> P 24 \<and>
     P 25 \<and> P 26 \<and> P 27 \<and> P 28 \<and> P 29 \<and> P 30 \<and> P (31 :: nat)"
proof -
  have "(\<forall>n < 32. P n) \<longleftrightarrow> list_all P [0 ..< 32]" by (auto simp: list_all_iff)
  then show ?thesis by (simp add: upt_conv_Cons numeral_2_eq_2 [symmetric])
qed

lemma bit_numeral_at_1 [bit_expand]:
  "bit (numeral k :: 'a::len word) 1 = bit (numeral k :: 'a word) (Suc 0)"
  "bit (numeral k :: int) 1 = bit (numeral k :: int) (Suc 0)"
  by simp_all

declare bit_1_iff [bit_expand]

lemma top_index_eq: "n < k \<Longrightarrow> k - Suc 0 \<le> n \<Longrightarrow> n = k - Suc 0"
  by simp

lemma all_less_8:
  "(\<forall>n < 8. P n) \<longleftrightarrow> P 0 \<and> P 1 \<and> P 2 \<and> P 3 \<and> P 4 \<and> P 5 \<and> P 6 \<and> P (7 :: nat)"
proof -
  have "(\<forall>n < 8. P n) \<longleftrightarrow> list_all P [0 ..< 8]" by (auto simp: list_all_iff)
  then show ?thesis by (simp add: upt_conv_Cons numeral_2_eq_2 [symmetric])
qed

lemma u8_eq_iff: "v = w \<longleftrightarrow> (\<forall>n < 8. bit v n = bit w n)" for v w :: u8
  by (auto intro: bit_word_eqI)

lemma u32_eq_iff: "v = w \<longleftrightarrow> (\<forall>n < 32. bit v n = bit w n)" for v w :: u32
  by (auto intro: bit_word_eqI)

section \<open>Little-endian byte encodings\<close>

fun from_le_bytes :: "u8 list \<Rightarrow> 'a::len word" where
  "from_le_bytes [] = 0"
| "from_le_bytes (b # bs) = ucast b OR push_bit 8 (from_le_bytes bs)"

definition to_le_bytes :: "'a::len word \<Rightarrow> u8 list" where
  "to_le_bytes w = map (\<lambda>i. ucast (drop_bit (8 * i) w)) [0 ..< LENGTH('a) div 8]"

lemma length_to_le_bytes [simp]: "length (to_le_bytes (w :: 'a::len word)) = LENGTH('a) div 8"
  by (simp add: to_le_bytes_def)

lemma nth_to_le_bytes:
  "i < LENGTH('a) div 8 \<Longrightarrow> to_le_bytes (w :: 'a::len word) ! i = ucast (drop_bit (8 * i) w)"
  by (simp add: to_le_bytes_def)

lemma bit_from_le_bytes:
  "bit (from_le_bytes bs :: 'a::len word) n \<longleftrightarrow>
     n < LENGTH('a) \<and> n < 8 * length bs \<and> bit (bs ! (n div 8)) (n mod 8)"
proof (induction bs arbitrary: n)
  case Nil
  then show ?case by simp
next
  case (Cons b bs)
  show ?case
  proof (cases "n < 8")
    case True
    then show ?thesis by (auto simp: bit_simps)
  next
    case False
    then obtain m where m: "n = m + 8" by (metis add.commute le_Suc_ex not_less)
    have d: "(m + 8) div 8 = Suc (m div 8)" by simp
    from m Cons.IH [of m] show ?thesis
      by (auto simp: bit_simps d dest: bit_imp_le_length simp del: div_add_self2)
  qed
qed

lemma from_to_le_bytes:
  assumes "8 dvd LENGTH('a)"
  shows "from_le_bytes (to_le_bytes w) = (w :: 'a::len word)"
proof (rule bit_word_eqI)
  fix n assume n: "n < LENGTH('a)"
  then have d: "n div 8 < LENGTH('a) div 8" using assms by (auto elim: dvdE)
  have "bit (drop_bit (8 * (n div 8)) w) (n mod 8) = bit w n"
    by (simp add: bit_drop_bit_eq)
  with n d show "bit (from_le_bytes (to_le_bytes w) :: 'a word) n = bit w n"
    using assms by (auto simp: bit_from_le_bytes nth_to_le_bytes bit_simps elim: dvdE)
qed

lemma to_from_le_bytes:
  assumes "8 * length bs = LENGTH('a)"
  shows "to_le_bytes (from_le_bytes bs :: 'a::len word) = bs"
proof (rule nth_equalityI)
  show len: "length (to_le_bytes (from_le_bytes bs :: 'a word)) = length bs"
    using assms [symmetric] by simp
  fix i assume "i < length (to_le_bytes (from_le_bytes bs :: 'a word))"
  with len have i: "i < length bs" by simp
  with assms have i': "i < LENGTH('a) div 8" by simp
  have "ucast (drop_bit (8 * i) (from_le_bytes bs :: 'a word)) = bs ! i"
  proof (rule bit_word_eqI)
    fix n assume n: "n < LENGTH(8)"
    with i assms show "bit (ucast (drop_bit (8 * i) (from_le_bytes bs :: 'a word)) :: u8) n = bit (bs ! i) n"
      by (auto simp: bit_simps bit_from_le_bytes)
  qed
  with i' show "to_le_bytes (from_le_bytes bs :: 'a word) ! i = bs ! i"
    by (simp add: nth_to_le_bytes)
qed

section \<open>Packed structs\<close>

text \<open>The fields of a packed struct follow each other without gaps: bytes cut by the field widths.\<close>

fun chop :: "nat list \<Rightarrow> u8 list \<Rightarrow> u8 list list" where
  "chop [] bs = []"
| "chop (n # ns) bs = take n bs # chop ns (drop n bs)"

lemma ucast_ucast_up:
  "LENGTH('a) \<le> LENGTH('b) \<Longrightarrow> ucast (ucast (x :: 'a::len word) :: 'b::len word) = x"
  by (simp add: unsigned_ucast_eq take_bit_word_eq_self)

end
