(* ===== verification/Printf_Spec.thy ===== *)
theory Printf_Spec
  imports Prelude
begin

text \<open>
  The conversion specifications of the C library's \<^verbatim>\<open>printf\<close> and \<^verbatim>\<open>scanf\<close>
  (\<^verbatim>\<open>src/rlibc/src/specifier_parsing.rs\<close>): the data the parsers build and the two parsers
  themselves, which are given the characters after a \<^verbatim>\<open>%\<close> one at a time.

  The library is built for the user programs by \<^verbatim>\<open>make_userland_toolchain.sh\<close> with
  \<^verbatim>\<open>--release\<close>, where an arithmetic overflow wraps around: \<open>+\<close> and \<open>*\<close> on words are used
  as they are. A Rust \<^verbatim>\<open>Result\<close> is a sum, \<open>Inl\<close> for \<^verbatim>\<open>Err\<close> and \<open>Inr\<close> for \<^verbatim>\<open>Ok\<close>. Each
  parser is a sequence of blocks that either return or fall through to the next block; a block is
  one definition with result \<open>Return\<close> or \<open>Fall\<close>.
\<close>

section \<open>Data\<close>

abbreviation (input) byte :: "char \<Rightarrow> u8" where
  "byte c \<equiv> of_char c"

type_synonym ConversionFlags = u8

definition LEFT_JUSTIFY :: ConversionFlags where "LEFT_JUSTIFY = push_bit 0 1"
definition ALWAYS_PRECEED_WITH_SIGN :: ConversionFlags where
  "ALWAYS_PRECEED_WITH_SIGN = push_bit 1 1"
definition PRECEED_WITH_BLANK_SPACE_IF_NO_SIGN :: ConversionFlags where
  "PRECEED_WITH_BLANK_SPACE_IF_NO_SIGN = push_bit 2 1"
definition PRECEED_WITH_BASE_MARKING :: ConversionFlags where
  "PRECEED_WITH_BASE_MARKING = push_bit 3 1"
definition LEFT_PAD_WITH_ZEROES :: ConversionFlags where "LEFT_PAD_WITH_ZEROES = push_bit 4 1"

definition ALL_FLAGS :: ConversionFlags where
  "ALL_FLAGS = LEFT_JUSTIFY OR ALWAYS_PRECEED_WITH_SIGN OR PRECEED_WITH_BLANK_SPACE_IF_NO_SIGN
     OR PRECEED_WITH_BASE_MARKING OR LEFT_PAD_WITH_ZEROES"

definition flag_of_byte :: "u8 \<Rightarrow> ConversionFlags option" where
  "flag_of_byte val =
     (if val = byte CHR ''-'' then Some LEFT_JUSTIFY
      else if val = byte CHR ''+'' then Some ALWAYS_PRECEED_WITH_SIGN
      else if val = byte CHR '' '' then Some PRECEED_WITH_BLANK_SPACE_IF_NO_SIGN
      else if val = byte CHR ''#'' then Some PRECEED_WITH_BASE_MARKING
      else if val = byte CHR ''0'' then Some LEFT_PAD_WITH_ZEROES
      else None)"

datatype ConversionSpecifier =
    SignedInteger | SignedDecimalInteger | UnsignedDecimalInteger | UnsignedOctalInteger
  | UnsignedHexIntegerLowerCase | UnsignedHexIntegerUpperCase
  | DecimalFloatLowerCase | DeicmalFloatUpperCase
  | ScientificNotationLowerCase | ScientificNotationUpperCase
  | ShortestFloatLowerCase | ShortestFloatUpperCase | HexFloatLowerCase | HexFloatUpperCase
  | Character | CString | Pointer | Escape | MetaSpecifier | Unparsed

definition specifier_of_byte :: "u8 \<Rightarrow> ConversionSpecifier option" where
  "specifier_of_byte val =
     (if val = byte CHR ''i'' then Some SignedInteger
      else if val = byte CHR ''d'' then Some SignedDecimalInteger
      else if val = byte CHR ''u'' then Some UnsignedDecimalInteger
      else if val = byte CHR ''o'' then Some UnsignedOctalInteger
      else if val = byte CHR ''x'' then Some UnsignedHexIntegerLowerCase
      else if val = byte CHR ''X'' then Some UnsignedHexIntegerUpperCase
      else if val = byte CHR ''f'' then Some DecimalFloatLowerCase
      else if val = byte CHR ''F'' then Some DeicmalFloatUpperCase
      else if val = byte CHR ''e'' then Some ScientificNotationLowerCase
      else if val = byte CHR ''E'' then Some ScientificNotationUpperCase
      else if val = byte CHR ''g'' then Some ShortestFloatLowerCase
      else if val = byte CHR ''G'' then Some ShortestFloatUpperCase
      else if val = byte CHR ''a'' then Some HexFloatLowerCase
      else if val = byte CHR ''A'' then Some HexFloatUpperCase
      else if val = byte CHR ''c'' then Some Character
      else if val = byte CHR ''s'' then Some CString
      else if val = byte CHR ''p'' then Some Pointer
      else if val = byte CHR ''%'' then Some Escape
      else if val = byte CHR ''n'' then Some MetaSpecifier
      else None)"

datatype PrintfConversionWidth = WidthNumber u64 | WidthMeta | WidthNone
datatype ScanfConversionWidth = ScanWidthNumber u64 | ScanWidthNone
datatype ConversionPrecision = PrecisionNumber u64 | PrecisionMeta | PrecisionNone
datatype ConversionLength =
    DoubleLength | MaxLengthForPointer | MaxLengthForSize | MaxLengthForInt
  | LongLong | Long | Half | Byte | NoLength

record PrintfConversionSpecification =
  p_flags :: ConversionFlags
  p_width :: PrintfConversionWidth
  p_precision :: ConversionPrecision
  p_length :: ConversionLength
  p_specifier :: ConversionSpecifier

record ScanfConversionSpecification =
  assignment_suppression :: bool
  s_width :: ScanfConversionWidth
  s_length :: ConversionLength
  s_specifier :: ConversionSpecifier

record UnfinishedPrintfConversionSpecification =
  p_conversion :: PrintfConversionSpecification
  p_parsing_width :: bool
  p_parsing_precision :: bool
  p_parsing_length :: bool

record UnfinishedScanfConversionSpecification =
  s_conversion :: ScanfConversionSpecification
  s_parsing_width :: bool
  s_parsing_length :: bool

definition default_printf :: UnfinishedPrintfConversionSpecification where
  "default_printf =
     \<lparr> p_conversion = \<lparr> p_flags = 0, p_width = WidthNone, p_precision = PrecisionNone,
         p_length = NoLength, p_specifier = Unparsed \<rparr>,
       p_parsing_width = False, p_parsing_precision = False, p_parsing_length = False \<rparr>"

definition default_scanf :: UnfinishedScanfConversionSpecification where
  "default_scanf =
     \<lparr> s_conversion = \<lparr> assignment_suppression = False, s_width = ScanWidthNone,
         s_length = NoLength, s_specifier = Unparsed \<rparr>,
       s_parsing_width = False, s_parsing_length = False \<rparr>"

section \<open>The parsers\<close>

datatype ('r, 's) flow = Return 'r | Fall 's

primrec fall_to :: "('r, 's) flow \<Rightarrow> ('s \<Rightarrow> ('r, 't) flow) \<Rightarrow> ('r, 't) flow" where
  "fall_to (Return r) k = Return r"
| "fall_to (Fall s) k = k s"

type_synonym printf_result =
  "UnfinishedPrintfConversionSpecification + PrintfConversionSpecification"
type_synonym printf_flow = "(printf_result, UnfinishedPrintfConversionSpecification) flow"
type_synonym scanf_result =
  "UnfinishedScanfConversionSpecification + ScanfConversionSpecification"
type_synonym scanf_flow = "(scanf_result, UnfinishedScanfConversionSpecification) flow"

definition is_digit :: "u8 \<Rightarrow> bool" where
  "is_digit c \<longleftrightarrow> byte CHR ''0'' \<le> c \<and> c \<le> byte CHR ''9''"

definition add_digit :: "u64 \<Rightarrow> u8 \<Rightarrow> u64" where
  "add_digit n c = n * 10 + ucast (c - byte CHR ''0'')"

text \<open>The blocks of \<^verbatim>\<open>add_char_to_printf_specification\<close>, in its order.\<close>

definition printf_in_width :: "u8 \<Rightarrow> UnfinishedPrintfConversionSpecification \<Rightarrow> printf_flow" where
  "printf_in_width c u =
     (if \<not> p_parsing_width u then Fall u
      else if is_digit c then
        (case p_width (p_conversion u) of
           WidthNumber cur_width \<Rightarrow>
             Return (Inl (u\<lparr>p_conversion := (p_conversion u)
               \<lparr>p_width := WidthNumber (add_digit cur_width c)\<rparr>\<rparr>))
         | _ \<Rightarrow>
             Return (Inl (u\<lparr>p_conversion := (p_conversion u)\<lparr>p_width := WidthNone\<rparr>,
               p_parsing_width := False\<rparr>)))
      else Fall (u\<lparr>p_parsing_width := False\<rparr>))"

definition printf_in_precision ::
  "u8 \<Rightarrow> UnfinishedPrintfConversionSpecification \<Rightarrow> printf_flow" where
  "printf_in_precision c u =
     (if \<not> p_parsing_precision u then Fall u
      else if is_digit c then
        (case p_precision (p_conversion u) of
           PrecisionNumber cur_precision \<Rightarrow>
             Return (Inl (u\<lparr>p_conversion := (p_conversion u)
               \<lparr>p_precision := PrecisionNumber (add_digit cur_precision c)\<rparr>\<rparr>))
         | _ \<Rightarrow>
             Return (Inl (u\<lparr>p_conversion := (p_conversion u)
               \<lparr>p_precision := PrecisionNumber (ucast (c - byte CHR ''0''))\<rparr>\<rparr>)))
      else if c = byte CHR ''*'' then
        Return (Inl (u\<lparr>p_conversion := (p_conversion u)\<lparr>p_precision := PrecisionMeta\<rparr>,
          p_parsing_precision := False\<rparr>))
      else Fall (u\<lparr>p_parsing_precision := False\<rparr>))"

definition printf_in_length ::
  "u8 \<Rightarrow> UnfinishedPrintfConversionSpecification \<Rightarrow> printf_flow" where
  "printf_in_length c u =
     (if \<not> p_parsing_length u then Fall u
      else let u = u\<lparr>p_parsing_length := False\<rparr> in
        if c = byte CHR ''l'' \<and> p_length (p_conversion u) = Long then
          Return (Inl (u\<lparr>p_conversion := (p_conversion u)\<lparr>p_length := LongLong\<rparr>\<rparr>))
        else if c = byte CHR ''h'' \<and> p_length (p_conversion u) = Half then
          Return (Inl (u\<lparr>p_conversion := (p_conversion u)\<lparr>p_length := Byte\<rparr>\<rparr>))
        else Fall u)"

definition printf_flags :: "u8 \<Rightarrow> UnfinishedPrintfConversionSpecification \<Rightarrow> printf_flow" where
  "printf_flags c u =
     (if p_flags (p_conversion u) \<noteq> ALL_FLAGS then
        (case flag_of_byte c of
           Some val \<Rightarrow> Return (Inl (u\<lparr>p_conversion := (p_conversion u)
             \<lparr>p_flags := p_flags (p_conversion u) OR val\<rparr>\<rparr>))
         | None \<Rightarrow> Fall u)
      else Fall u)"

definition printf_width :: "u8 \<Rightarrow> UnfinishedPrintfConversionSpecification \<Rightarrow> printf_flow" where
  "printf_width c u =
     (if p_width (p_conversion u) = WidthNone then
        if c = byte CHR ''*'' then
          Fall (u\<lparr>p_conversion := (p_conversion u)\<lparr>p_width := WidthMeta\<rparr>\<rparr>)
        else if is_digit c then
          Return (Inl (u\<lparr>p_conversion := (p_conversion u)
            \<lparr>p_width := WidthNumber (ucast (c - byte CHR ''0''))\<rparr>, p_parsing_width := True\<rparr>))
        else Fall u
      else Fall u)"

definition printf_precision ::
  "u8 \<Rightarrow> UnfinishedPrintfConversionSpecification \<Rightarrow> printf_flow" where
  "printf_precision c u =
     (if p_precision (p_conversion u) = PrecisionNone \<and> c = byte CHR ''.''
      then Return (Inl (u\<lparr>p_parsing_precision := True\<rparr>)) else Fall u)"

text \<open>The length modifiers: the length a character starts, and whether a second one may follow.\<close>

definition length_of_byte :: "u8 \<Rightarrow> (ConversionLength \<times> bool) option" where
  "length_of_byte c =
     (if c = byte CHR ''h'' then Some (Half, True)
      else if c = byte CHR ''l'' then Some (Long, True)
      else if c = byte CHR ''j'' then Some (MaxLengthForInt, False)
      else if c = byte CHR ''z'' then Some (MaxLengthForSize, False)
      else if c = byte CHR ''t'' then Some (MaxLengthForPointer, False)
      else if c = byte CHR ''L'' then Some (DoubleLength, False)
      else None)"

definition printf_length :: "u8 \<Rightarrow> UnfinishedPrintfConversionSpecification \<Rightarrow> printf_flow" where
  "printf_length c u =
     (if p_length (p_conversion u) = NoLength then
        (case length_of_byte c of
           Some (len, again) \<Rightarrow>
             Return (Inl (u\<lparr>p_conversion := (p_conversion u)\<lparr>p_length := len\<rparr>,
               p_parsing_length := (if again then True else p_parsing_length u)\<rparr>))
         | None \<Rightarrow> Fall u)
      else Fall u)"

definition printf_specifier ::
  "u8 \<Rightarrow> UnfinishedPrintfConversionSpecification \<Rightarrow> printf_flow" where
  "printf_specifier c u =
     (if p_specifier (p_conversion u) = Unparsed then
        (case specifier_of_byte c of
           Some val \<Rightarrow> Return (Inr ((p_conversion u)\<lparr>p_specifier := val\<rparr>))
         | None \<Rightarrow> Fall u)
      else Fall u)"

definition add_char_to_printf_specification ::
  "UnfinishedPrintfConversionSpecification \<Rightarrow> u8 \<Rightarrow> printf_result" where
  "add_char_to_printf_specification initial c =
     (case fall_to (printf_in_width c initial) (\<lambda>u.
           fall_to (printf_in_precision c u) (\<lambda>u.
           fall_to (printf_in_length c u) (\<lambda>u.
           fall_to (printf_flags c u) (\<lambda>u.
           fall_to (printf_width c u) (\<lambda>u.
           fall_to (printf_precision c u) (\<lambda>u.
           fall_to (printf_length c u) (\<lambda>u.
           printf_specifier c u))))))) of
        Return r \<Rightarrow> r
      | Fall u \<Rightarrow> Inl u)"

text \<open>The blocks of \<^verbatim>\<open>add_char_to_scanf_specification\<close>.\<close>

definition scanf_in_width :: "u8 \<Rightarrow> UnfinishedScanfConversionSpecification \<Rightarrow> scanf_flow" where
  "scanf_in_width c u =
     (if \<not> s_parsing_width u then Fall u
      else if is_digit c then
        (case s_width (s_conversion u) of
           ScanWidthNumber cur_width \<Rightarrow>
             Return (Inl (u\<lparr>s_conversion := (s_conversion u)
               \<lparr>s_width := ScanWidthNumber (add_digit cur_width c)\<rparr>\<rparr>))
         | ScanWidthNone \<Rightarrow>
             Return (Inl (u\<lparr>s_conversion := (s_conversion u)\<lparr>s_width := ScanWidthNone\<rparr>,
               s_parsing_width := False\<rparr>)))
      else Fall (u\<lparr>s_parsing_width := False\<rparr>))"

definition scanf_in_length :: "u8 \<Rightarrow> UnfinishedScanfConversionSpecification \<Rightarrow> scanf_flow" where
  "scanf_in_length c u =
     (if \<not> s_parsing_length u then Fall u
      else let u = u\<lparr>s_parsing_length := False\<rparr> in
        if c = byte CHR ''l'' \<and> s_length (s_conversion u) = Long then
          Return (Inl (u\<lparr>s_conversion := (s_conversion u)\<lparr>s_length := LongLong\<rparr>\<rparr>))
        else if c = byte CHR ''h'' \<and> s_length (s_conversion u) = Half then
          Return (Inl (u\<lparr>s_conversion := (s_conversion u)\<lparr>s_length := Byte\<rparr>\<rparr>))
        else Fall u)"

definition scanf_suppression :: "u8 \<Rightarrow> UnfinishedScanfConversionSpecification \<Rightarrow> scanf_flow" where
  "scanf_suppression c u =
     (if \<not> assignment_suppression (s_conversion u) \<and> c = byte CHR ''*''
      then Return (Inl (u\<lparr>s_conversion := (s_conversion u)\<lparr>assignment_suppression := True\<rparr>\<rparr>))
      else Fall u)"

definition scanf_width :: "u8 \<Rightarrow> UnfinishedScanfConversionSpecification \<Rightarrow> scanf_flow" where
  "scanf_width c u =
     (if s_width (s_conversion u) = ScanWidthNone \<and> is_digit c
      then Return (Inl (u\<lparr>s_conversion := (s_conversion u)
             \<lparr>s_width := ScanWidthNumber (ucast (c - byte CHR ''0''))\<rparr>, s_parsing_width := True\<rparr>))
      else Fall u)"

definition scanf_length :: "u8 \<Rightarrow> UnfinishedScanfConversionSpecification \<Rightarrow> scanf_flow" where
  "scanf_length c u =
     (if s_length (s_conversion u) = NoLength then
        (case length_of_byte c of
           Some (len, again) \<Rightarrow>
             Return (Inl (u\<lparr>s_conversion := (s_conversion u)\<lparr>s_length := len\<rparr>,
               s_parsing_length := (if again then True else s_parsing_length u)\<rparr>))
         | None \<Rightarrow> Fall u)
      else Fall u)"

definition scanf_specifier :: "u8 \<Rightarrow> UnfinishedScanfConversionSpecification \<Rightarrow> scanf_flow" where
  "scanf_specifier c u =
     (if s_specifier (s_conversion u) = Unparsed then
        (case specifier_of_byte c of
           Some val \<Rightarrow> Return (Inr ((s_conversion u)\<lparr>s_specifier := val\<rparr>))
         | None \<Rightarrow> Fall u)
      else Fall u)"

definition add_char_to_scanf_specification ::
  "UnfinishedScanfConversionSpecification \<Rightarrow> u8 \<Rightarrow> scanf_result" where
  "add_char_to_scanf_specification initial c =
     (case fall_to (scanf_in_width c initial) (\<lambda>u.
           fall_to (scanf_in_length c u) (\<lambda>u.
           fall_to (scanf_suppression c u) (\<lambda>u.
           fall_to (scanf_width c u) (\<lambda>u.
           fall_to (scanf_length c u) (\<lambda>u.
           scanf_specifier c u))))) of
        Return r \<Rightarrow> r
      | Fall u \<Rightarrow> Inl u)"

text \<open>
  The way \<^verbatim>\<open>vfprintf\<close> and \<^verbatim>\<open>vfscanf\<close> drive the parsers: characters are added until one
  finishes the specification; the characters that follow it are left.
\<close>

fun run_parser :: "('u \<Rightarrow> u8 \<Rightarrow> 'u + 's) \<Rightarrow> 'u \<Rightarrow> u8 list \<Rightarrow> 'u + ('s \<times> u8 list)" where
  "run_parser step u [] = Inl u"
| "run_parser step u (c # cs) =
     (case step u c of
        Inl u' \<Rightarrow> run_parser step u' cs
      | Inr spec \<Rightarrow> Inr (spec, cs))"

definition parse_printf :: "u8 list \<Rightarrow>
    UnfinishedPrintfConversionSpecification + (PrintfConversionSpecification \<times> u8 list)" where
  "parse_printf = run_parser add_char_to_printf_specification default_printf"

definition parse_scanf :: "u8 list \<Rightarrow>
    UnfinishedScanfConversionSpecification + (ScanfConversionSpecification \<times> u8 list)" where
  "parse_scanf = run_parser add_char_to_scanf_specification default_scanf"

section \<open>The contract of a parser\<close>

text \<open>
  What the two format functions rely on: the states between two characters are well formed, and a
  specification ends at the first conversion specifier character and at no other, whatever came
  before it, with that specifier.
\<close>

locale conversion_parser =
  fixes step :: "'u \<Rightarrow> u8 \<Rightarrow> 'u + 's"
    and start :: 'u
    and wf :: "'u \<Rightarrow> bool"
    and wf_spec :: "'s \<Rightarrow> bool"
    and specifier :: "'s \<Rightarrow> ConversionSpecifier"
  assumes wf_start: "wf start"
    and step_continues: "wf u \<Longrightarrow> step u c = Inl u' \<Longrightarrow> wf u' \<and> specifier_of_byte c = None"
    and step_finishes:
      "wf u \<Longrightarrow> step u c = Inr s \<Longrightarrow> wf_spec s \<and> specifier_of_byte c = Some (specifier s)"
begin

lemma step_cases:
  assumes "wf u"
  obtains u' where "step u c = Inl u'" "wf u'" "specifier_of_byte c = None"
    | s where "step u c = Inr s" "wf_spec s" "specifier_of_byte c = Some (specifier s)"
  using assms by (cases "step u c") (auto dest: step_continues step_finishes)

lemma run_unfinished:
  "wf u \<Longrightarrow> \<forall>c\<in>set cs. specifier_of_byte c = None
    \<Longrightarrow> \<exists>u'. run_parser step u cs = Inl u' \<and> wf u'"
proof (induction cs arbitrary: u)
  case (Cons c cs)
  from Cons.prems(1) show ?case by (cases rule: step_cases [of u c]) (use Cons in auto)
qed simp

lemma run_finished:
  "wf u \<Longrightarrow> \<forall>c\<in>set pre. specifier_of_byte c = None \<Longrightarrow> specifier_of_byte c = Some v
    \<Longrightarrow> \<exists>s. run_parser step u (pre @ c # rest) = Inr (s, rest) \<and> wf_spec s \<and> specifier s = v"
proof (induction pre arbitrary: u)
  case Nil
  from Nil(1) show ?case by (cases rule: step_cases [of u c]) (use Nil in auto)
next
  case (Cons b pre)
  from Cons.prems(1) show ?case by (cases rule: step_cases [of u b]) (use Cons in auto)
qed

end

lemma run_parser_append:
  "run_parser step u (xs @ ys) =
     (case run_parser step u xs of
        Inl u' \<Rightarrow> run_parser step u' ys
      | Inr (s, rest) \<Rightarrow> Inr (s, rest @ ys))"
  by (induction xs arbitrary: u) (auto split: sum.splits)

section \<open>Well-formed states\<close>

primrec is_width_number :: "PrintfConversionWidth \<Rightarrow> bool" where
  "is_width_number (WidthNumber n) = True"
| "is_width_number WidthMeta = False"
| "is_width_number WidthNone = False"

definition printf_spec_wf :: "PrintfConversionSpecification \<Rightarrow> bool" where
  "printf_spec_wf s \<longleftrightarrow> p_flags s AND NOT ALL_FLAGS = 0 \<and> p_specifier s \<noteq> Unparsed"

definition printf_wf :: "UnfinishedPrintfConversionSpecification \<Rightarrow> bool" where
  "printf_wf u \<longleftrightarrow>
     (p_parsing_width u \<longrightarrow> is_width_number (p_width (p_conversion u)))
   \<and> (p_parsing_precision u \<longrightarrow> p_precision (p_conversion u) \<noteq> PrecisionMeta)
   \<and> (p_parsing_length u \<longrightarrow> p_length (p_conversion u) \<in> {Half, Long})
   \<and> \<not> (p_parsing_width u \<and> p_parsing_precision u)
   \<and> \<not> (p_parsing_width u \<and> p_parsing_length u)
   \<and> \<not> (p_parsing_precision u \<and> p_parsing_length u)
   \<and> p_flags (p_conversion u) AND NOT ALL_FLAGS = 0
   \<and> p_specifier (p_conversion u) = Unparsed"

definition scanf_spec_wf :: "ScanfConversionSpecification \<Rightarrow> bool" where
  "scanf_spec_wf s \<longleftrightarrow> s_specifier s \<noteq> Unparsed"

definition scanf_wf :: "UnfinishedScanfConversionSpecification \<Rightarrow> bool" where
  "scanf_wf u \<longleftrightarrow>
     (s_parsing_width u \<longrightarrow> s_width (s_conversion u) \<noteq> ScanWidthNone)
   \<and> (s_parsing_length u \<longrightarrow> s_length (s_conversion u) \<in> {Half, Long})
   \<and> \<not> (s_parsing_width u \<and> s_parsing_length u)
   \<and> s_specifier (s_conversion u) = Unparsed"

lemmas printf_blocks = printf_in_width_def printf_in_precision_def printf_in_length_def
  printf_flags_def printf_width_def printf_precision_def printf_length_def printf_specifier_def

lemmas scanf_blocks = scanf_in_width_def scanf_in_length_def scanf_suppression_def
  scanf_width_def scanf_length_def scanf_specifier_def

text \<open>The classes of characters do not overlap.\<close>

lemma specifier_not_other:
  assumes "specifier_of_byte c = Some v"
  shows "\<not> is_digit c" "flag_of_byte c = None" "length_of_byte c = None"
    "c \<noteq> byte CHR ''*''" "c \<noteq> byte CHR ''.''" "c \<noteq> byte CHR ''l''" "c \<noteq> byte CHR ''h''"
  using assms
  by (auto simp: specifier_of_byte_def is_digit_def flag_of_byte_def length_of_byte_def
      split: if_splits)

lemma specifier_of_byte_parsed: "specifier_of_byte c = Some v \<Longrightarrow> v \<noteq> Unparsed"
  by (auto simp: specifier_of_byte_def split: if_splits)

text \<open>
  What a block owes: the state it falls through with satisfies a given predicate, a state it
  returns is well formed and then the character was no specifier, and a finished specification
  carries the specifier of the character.
\<close>

primrec result_ok :: "('u \<Rightarrow> bool) \<Rightarrow> ('s \<Rightarrow> bool) \<Rightarrow> ('s \<Rightarrow> ConversionSpecifier) \<Rightarrow> u8 \<Rightarrow> 'u + 's \<Rightarrow> bool"
  where
  "result_ok wfu wfs sp c (Inl u) \<longleftrightarrow> wfu u \<and> specifier_of_byte c = None"
| "result_ok wfu wfs sp c (Inr s) \<longleftrightarrow> wfs s \<and> specifier_of_byte c = Some (sp s)"

primrec flow_ok :: "('r \<Rightarrow> bool) \<Rightarrow> ('s \<Rightarrow> bool) \<Rightarrow> ('r, 's) flow \<Rightarrow> bool" where
  "flow_ok R P (Fall u) = P u"
| "flow_ok R P (Return r) = R r"

lemma flow_fall_to:
  "flow_ok R P f \<Longrightarrow> (\<And>u. P u \<Longrightarrow> flow_ok R Q (k u)) \<Longrightarrow> flow_ok R Q (fall_to f k)"
  by (cases f) auto

lemma flow_end: "flow_ok R (\<lambda>u. R (Inl u)) f \<Longrightarrow> R (case f of Return r \<Rightarrow> r | Fall u \<Rightarrow> Inl u)"
  by (cases f) auto

abbreviation printf_flow_ok ::
  "(UnfinishedPrintfConversionSpecification \<Rightarrow> bool) \<Rightarrow> u8 \<Rightarrow> printf_flow \<Rightarrow> bool" where
  "printf_flow_ok P c \<equiv> flow_ok (result_ok printf_wf printf_spec_wf p_specifier c) P"

abbreviation scanf_flow_ok ::
  "(UnfinishedScanfConversionSpecification \<Rightarrow> bool) \<Rightarrow> u8 \<Rightarrow> scanf_flow \<Rightarrow> bool" where
  "scanf_flow_ok P c \<equiv> flow_ok (result_ok scanf_wf scanf_spec_wf s_specifier c) P"

definition printf_idle :: "UnfinishedPrintfConversionSpecification \<Rightarrow> bool" where
  "printf_idle u \<longleftrightarrow> printf_wf u \<and> \<not> p_parsing_width u \<and> \<not> p_parsing_precision u
     \<and> \<not> p_parsing_length u"

lemma digit_no_specifier: "is_digit c \<Longrightarrow> specifier_of_byte c = None"
  using specifier_not_other(1) by (cases "specifier_of_byte c") auto

lemma flag_no_specifier: "flag_of_byte c = Some v \<Longrightarrow> specifier_of_byte c = None"
  using specifier_not_other(2) [of c] by (cases "specifier_of_byte c") auto

lemma length_no_specifier: "length_of_byte c = Some v \<Longrightarrow> specifier_of_byte c = None"
  using specifier_not_other(3) [of c] by (cases "specifier_of_byte c") auto

lemma flag_of_byte_known: "flag_of_byte c = Some v \<Longrightarrow> v AND NOT ALL_FLAGS = 0"
  by (auto simp: flag_of_byte_def ALL_FLAGS_def LEFT_JUSTIFY_def ALWAYS_PRECEED_WITH_SIGN_def
      PRECEED_WITH_BLANK_SPACE_IF_NO_SIGN_def PRECEED_WITH_BASE_MARKING_def
      LEFT_PAD_WITH_ZEROES_def split: if_splits)

lemma length_of_byte_again: "length_of_byte c = Some (len, True) \<Longrightarrow> len \<in> {Half, Long}"
  by (auto simp: length_of_byte_def split: if_splits)

text \<open>The bytes of \<^verbatim>\<open>*\<close>, \<^verbatim>\<open>.\<close>, \<^verbatim>\<open>l\<close> and \<^verbatim>\<open>h\<close>.\<close>

lemma special_no_specifier [simp]:
  "specifier_of_byte 42 = None" "specifier_of_byte 46 = None"
  "specifier_of_byte 108 = None" "specifier_of_byte 104 = None"
  by (simp_all add: specifier_of_byte_def)

lemma printf_in_width_ok:
  "printf_wf u \<Longrightarrow> printf_flow_ok (\<lambda>u. printf_wf u \<and> \<not> p_parsing_width u) c (printf_in_width c u)"
  by (auto simp: printf_in_width_def printf_wf_def digit_no_specifier
      split: PrintfConversionWidth.splits)

lemma printf_in_precision_ok:
  "printf_wf u \<and> \<not> p_parsing_width u \<Longrightarrow>
   printf_flow_ok (\<lambda>u. printf_wf u \<and> \<not> p_parsing_width u \<and> \<not> p_parsing_precision u) c
     (printf_in_precision c u)"
  by (auto simp: printf_in_precision_def printf_wf_def digit_no_specifier
      split: ConversionPrecision.splits)

lemma printf_in_length_ok:
  "printf_wf u \<and> \<not> p_parsing_width u \<and> \<not> p_parsing_precision u \<Longrightarrow>
   printf_flow_ok printf_idle c (printf_in_length c u)"
  by (auto simp: printf_in_length_def printf_wf_def printf_idle_def Let_def)

lemma printf_flags_ok: "printf_idle u \<Longrightarrow> printf_flow_ok printf_idle c (printf_flags c u)"
  by (auto simp: printf_flags_def printf_wf_def printf_idle_def flag_no_specifier
      flag_of_byte_known bit.conj_disj_distrib2 split: option.splits)

lemma printf_width_ok: "printf_idle u \<Longrightarrow> printf_flow_ok printf_idle c (printf_width c u)"
  by (auto simp: printf_width_def printf_wf_def printf_idle_def digit_no_specifier)

lemma printf_precision_ok: "printf_idle u \<Longrightarrow> printf_flow_ok printf_idle c (printf_precision c u)"
  by (auto simp: printf_precision_def printf_wf_def printf_idle_def)

lemma printf_length_ok: "printf_idle u \<Longrightarrow> printf_flow_ok printf_idle c (printf_length c u)"
  by (auto simp: printf_length_def printf_wf_def printf_idle_def length_no_specifier
      dest: length_of_byte_again split: option.splits)

lemma printf_specifier_ok:
  "printf_idle u \<Longrightarrow> printf_flow_ok (\<lambda>u. printf_wf u \<and> specifier_of_byte c = None) c
     (printf_specifier c u)"
  by (auto simp: printf_specifier_def printf_wf_def printf_spec_wf_def printf_idle_def
      dest: specifier_of_byte_parsed split: option.splits)

lemma add_char_to_printf_ok:
  "printf_wf u \<Longrightarrow>
   result_ok printf_wf printf_spec_wf p_specifier c (add_char_to_printf_specification u c)"
  unfolding add_char_to_printf_specification_def
  by (rule flow_end,
      intro flow_fall_to [OF printf_in_width_ok] flow_fall_to [OF printf_in_precision_ok]
        flow_fall_to [OF printf_in_length_ok] flow_fall_to [OF printf_flags_ok]
        flow_fall_to [OF printf_width_ok] flow_fall_to [OF printf_precision_ok]
        flow_fall_to [OF printf_length_ok])
    (simp_all add: printf_specifier_ok)

lemma printf_default_wf: "printf_wf default_printf"
  by (simp add: printf_wf_def default_printf_def)

interpretation printf_parser: conversion_parser
  add_char_to_printf_specification default_printf printf_wf printf_spec_wf p_specifier
proof (unfold_locales)
  show "printf_wf default_printf" by (rule printf_default_wf)
next
  fix u c u'
  assume "printf_wf u" "add_char_to_printf_specification u c = Inl u'"
  then show "printf_wf u' \<and> specifier_of_byte c = None"
    using add_char_to_printf_ok [of u c] by simp
next
  fix u c s
  assume "printf_wf u" "add_char_to_printf_specification u c = Inr s"
  then show "printf_spec_wf s \<and> specifier_of_byte c = Some (p_specifier s)"
    using add_char_to_printf_ok [of u c] by simp
qed

definition scanf_idle :: "UnfinishedScanfConversionSpecification \<Rightarrow> bool" where
  "scanf_idle u \<longleftrightarrow> scanf_wf u \<and> \<not> s_parsing_width u \<and> \<not> s_parsing_length u"

lemma scanf_in_width_ok:
  "scanf_wf u \<Longrightarrow> scanf_flow_ok (\<lambda>u. scanf_wf u \<and> \<not> s_parsing_width u) c (scanf_in_width c u)"
  by (auto simp: scanf_in_width_def scanf_wf_def digit_no_specifier
      split: ScanfConversionWidth.splits)

lemma scanf_in_length_ok:
  "scanf_wf u \<and> \<not> s_parsing_width u \<Longrightarrow> scanf_flow_ok scanf_idle c (scanf_in_length c u)"
  by (auto simp: scanf_in_length_def scanf_wf_def scanf_idle_def Let_def)

lemma scanf_suppression_ok: "scanf_idle u \<Longrightarrow> scanf_flow_ok scanf_idle c (scanf_suppression c u)"
  by (auto simp: scanf_suppression_def scanf_wf_def scanf_idle_def)

lemma scanf_width_ok: "scanf_idle u \<Longrightarrow> scanf_flow_ok scanf_idle c (scanf_width c u)"
  by (auto simp: scanf_width_def scanf_wf_def scanf_idle_def digit_no_specifier)

lemma scanf_length_ok: "scanf_idle u \<Longrightarrow> scanf_flow_ok scanf_idle c (scanf_length c u)"
  by (auto simp: scanf_length_def scanf_wf_def scanf_idle_def length_no_specifier
      dest: length_of_byte_again split: option.splits)

lemma scanf_specifier_ok:
  "scanf_idle u \<Longrightarrow> scanf_flow_ok (\<lambda>u. scanf_wf u \<and> specifier_of_byte c = None) c
     (scanf_specifier c u)"
  by (auto simp: scanf_specifier_def scanf_wf_def scanf_spec_wf_def scanf_idle_def
      dest: specifier_of_byte_parsed split: option.splits)

lemma add_char_to_scanf_ok:
  "scanf_wf u \<Longrightarrow>
   result_ok scanf_wf scanf_spec_wf s_specifier c (add_char_to_scanf_specification u c)"
  unfolding add_char_to_scanf_specification_def
  by (rule flow_end,
      intro flow_fall_to [OF scanf_in_width_ok] flow_fall_to [OF scanf_in_length_ok]
        flow_fall_to [OF scanf_suppression_ok] flow_fall_to [OF scanf_width_ok]
        flow_fall_to [OF scanf_length_ok])
    (simp_all add: scanf_specifier_ok)

interpretation scanf_parser: conversion_parser
  add_char_to_scanf_specification default_scanf scanf_wf scanf_spec_wf s_specifier
proof (unfold_locales)
  show "scanf_wf default_scanf" by (simp add: scanf_wf_def default_scanf_def)
next
  fix u c u'
  assume "scanf_wf u" "add_char_to_scanf_specification u c = Inl u'"
  then show "scanf_wf u' \<and> specifier_of_byte c = None"
    using add_char_to_scanf_ok [of u c] by simp
next
  fix u c s
  assume "scanf_wf u" "add_char_to_scanf_specification u c = Inr s"
  then show "scanf_spec_wf s \<and> specifier_of_byte c = Some (s_specifier s)"
    using add_char_to_scanf_ok [of u c] by simp
qed

section \<open>Writing a specification and parsing it back\<close>

definition flag_bytes :: "ConversionFlags \<Rightarrow> u8 list" where
  "flag_bytes f =
     (if bit f 0 then [byte CHR ''-''] else []) @ (if bit f 1 then [byte CHR ''+''] else [])
     @ (if bit f 2 then [byte CHR '' ''] else []) @ (if bit f 3 then [byte CHR ''#''] else [])
     @ (if bit f 4 then [byte CHR ''0''] else [])"

fun decimal :: "nat \<Rightarrow> u8 list" where
  "decimal n = (if n < 10 then [48 + of_nat n] else decimal (n div 10) @ [48 + of_nat (n mod 10)])"

declare decimal.simps [simp del]

primrec width_bytes :: "PrintfConversionWidth \<Rightarrow> u8 list" where
  "width_bytes (WidthNumber n) = decimal (unat n)"
| "width_bytes WidthMeta = [byte CHR ''*'']"
| "width_bytes WidthNone = []"

primrec precision_bytes :: "ConversionPrecision \<Rightarrow> u8 list" where
  "precision_bytes (PrecisionNumber n) = byte CHR ''.'' # decimal (unat n)"
| "precision_bytes PrecisionMeta = [byte CHR ''.'', byte CHR ''*'']"
| "precision_bytes PrecisionNone = []"

primrec length_bytes :: "ConversionLength \<Rightarrow> u8 list" where
  "length_bytes DoubleLength = [byte CHR ''L'']"
| "length_bytes MaxLengthForPointer = [byte CHR ''t'']"
| "length_bytes MaxLengthForSize = [byte CHR ''z'']"
| "length_bytes MaxLengthForInt = [byte CHR ''j'']"
| "length_bytes LongLong = [byte CHR ''l'', byte CHR ''l'']"
| "length_bytes Long = [byte CHR ''l'']"
| "length_bytes Half = [byte CHR ''h'']"
| "length_bytes Byte = [byte CHR ''h'', byte CHR ''h'']"
| "length_bytes NoLength = []"

primrec specifier_byte :: "ConversionSpecifier \<Rightarrow> u8" where
  "specifier_byte SignedInteger = byte CHR ''i''"
| "specifier_byte SignedDecimalInteger = byte CHR ''d''"
| "specifier_byte UnsignedDecimalInteger = byte CHR ''u''"
| "specifier_byte UnsignedOctalInteger = byte CHR ''o''"
| "specifier_byte UnsignedHexIntegerLowerCase = byte CHR ''x''"
| "specifier_byte UnsignedHexIntegerUpperCase = byte CHR ''X''"
| "specifier_byte DecimalFloatLowerCase = byte CHR ''f''"
| "specifier_byte DeicmalFloatUpperCase = byte CHR ''F''"
| "specifier_byte ScientificNotationLowerCase = byte CHR ''e''"
| "specifier_byte ScientificNotationUpperCase = byte CHR ''E''"
| "specifier_byte ShortestFloatLowerCase = byte CHR ''g''"
| "specifier_byte ShortestFloatUpperCase = byte CHR ''G''"
| "specifier_byte HexFloatLowerCase = byte CHR ''a''"
| "specifier_byte HexFloatUpperCase = byte CHR ''A''"
| "specifier_byte Character = byte CHR ''c''"
| "specifier_byte CString = byte CHR ''s''"
| "specifier_byte Pointer = byte CHR ''p''"
| "specifier_byte Escape = byte CHR ''%''"
| "specifier_byte MetaSpecifier = byte CHR ''n''"
| "specifier_byte Unparsed = 0"

definition render_printf :: "PrintfConversionSpecification \<Rightarrow> u8 list" where
  "render_printf s = flag_bytes (p_flags s) @ width_bytes (p_width s)
     @ precision_bytes (p_precision s) @ length_bytes (p_length s) @ [specifier_byte (p_specifier s)]"

text \<open>A state of the printf parser by its components.\<close>

definition pstate :: "ConversionFlags \<Rightarrow> PrintfConversionWidth \<Rightarrow> ConversionPrecision \<Rightarrow>
    ConversionLength \<Rightarrow> bool \<Rightarrow> bool \<Rightarrow> bool \<Rightarrow> UnfinishedPrintfConversionSpecification" where
  "pstate f w p l a b c =
     \<lparr> p_conversion = \<lparr> p_flags = f, p_width = w, p_precision = p, p_length = l,
         p_specifier = Unparsed \<rparr>,
       p_parsing_width = a, p_parsing_precision = b, p_parsing_length = c \<rparr>"

abbreviation "run_printf \<equiv> run_parser add_char_to_printf_specification"

lemma add_specifier_char:
  "p_specifier (p_conversion u) = Unparsed \<Longrightarrow> specifier_of_byte c = Some v \<Longrightarrow>
   add_char_to_printf_specification u c = Inr ((p_conversion u)\<lparr>p_specifier := v\<rparr>)"
  using specifier_not_other [of c v]
  by (simp add: add_char_to_printf_specification_def printf_blocks Let_def)

lemma specifier_byte_inverse: "v \<noteq> Unparsed \<Longrightarrow> specifier_of_byte (specifier_byte v) = Some v"
  by (cases v) (simp_all add: specifier_of_byte_def)

lemma run_flags:
  assumes "f AND NOT ALL_FLAGS = 0"
  shows "run_printf default_printf (flag_bytes f) =
    Inl (pstate f WidthNone PrecisionNone NoLength False False False)"
proof -
  have all: "list_all (\<lambda>k. run_printf default_printf (flag_bytes (word_of_nat k)) =
    Inl (pstate (word_of_nat k) WidthNone PrecisionNone NoLength False False False)) [0..<32]"
    by code_simp
  have "f = f AND ALL_FLAGS"
    using assms by (metis bit.conj_cancel_right bit.conj_disj_distrib bit.disj_cancel_right
        bit.conj_one_right or.right_neutral)
  then have "f = f AND mask 5"
    by (simp add: ALL_FLAGS_def LEFT_JUSTIFY_def ALWAYS_PRECEED_WITH_SIGN_def
        PRECEED_WITH_BLANK_SPACE_IF_NO_SIGN_def PRECEED_WITH_BASE_MARKING_def
        LEFT_PAD_WITH_ZEROES_def mask_numeral)
  then have "f = take_bit 5 f" by (simp add: take_bit_eq_mask)
  then have "unat f = take_bit 5 (unat f)" by (metis unsigned_take_bit_eq)
  then have "unat f < 32" using take_bit_nat_less_exp [of 5 "unat f"] by simp
  with all show ?thesis
    by (auto simp: list_all_iff dest!: bspec [of _ _ "unat f"])
qed

lemma digit_cases:
  assumes "d < 10"
  shows "d = 0 \<or> d = 1 \<or> d = 2 \<or> d = 3 \<or> d = 4 \<or> d = 5 \<or> d = 6 \<or> d = 7 \<or> d = 8 \<or> d = (9::nat)"
  using assms by presburger

lemma digit_byte:
  assumes "d < 10"
  shows "is_digit (48 + of_nat d)" "(of_nat d = (0::u8)) \<longleftrightarrow> d = 0"
    "ucast (of_nat d :: u8) = (of_nat d :: u64)"
  using digit_cases [OF assms] by (auto simp: is_digit_def)

lemma decimal_digits: "c \<in> set (decimal n) \<Longrightarrow> is_digit c"
proof (induction n rule: decimal.induct)
  case (1 n)
  then show ?case by (auto simp: decimal.simps [of n] digit_byte split: if_splits)
qed

lemma decimal_value: "foldl add_digit 0 (decimal n) = of_nat n"
proof (induction n rule: decimal.induct)
  case (1 n)
  show ?case
  proof (cases "n < 10")
    case True
    then show ?thesis by (simp add: decimal.simps [of n] add_digit_def digit_byte)
  next
    case False
    have "(of_nat (n div 10) * 10 + of_nat (n mod 10) :: u64) = of_nat n"
      by (metis div_mult_mod_eq of_nat_add of_nat_mult of_nat_numeral)
    with 1 False show ?thesis by (simp add: decimal.simps [of n] add_digit_def digit_byte)
  qed
qed

lemma decimal_first:
  "0 < n \<Longrightarrow> \<exists>c cs. decimal n = c # cs \<and> c \<noteq> 48"
proof (induction n rule: decimal.induct)
  case (1 n)
  show ?case
  proof (cases "n < 10")
    case True
    with 1 show ?thesis by (simp add: decimal.simps [of n] digit_byte)
  next
    case False
    then have "0 < n div 10" by simp
    with 1 False obtain c cs where "decimal (n div 10) = c # cs" "c \<noteq> 48" by auto
    with False show ?thesis by (simp add: decimal.simps [of n])
  qed
qed

lemma digit_not_other:
  assumes "is_digit c"
  shows "c \<noteq> 42" "c \<noteq> 46" "c \<noteq> 48 \<Longrightarrow> flag_of_byte c = None"
  using assms by (auto simp: is_digit_def flag_of_byte_def)

lemma run_width_digits:
  "\<forall>c\<in>set cs. is_digit c \<Longrightarrow>
   run_printf (pstate f (WidthNumber n) p l True b c') cs =
     Inl (pstate f (WidthNumber (foldl add_digit n cs)) p l True b c')"
  by (induction cs arbitrary: n)
    (auto simp: add_char_to_printf_specification_def printf_in_width_def pstate_def)

lemma run_precision_digits:
  "\<forall>c\<in>set cs. is_digit c \<Longrightarrow>
   run_printf (pstate f w (PrecisionNumber n) l False True c') cs =
     Inl (pstate f w (PrecisionNumber (foldl add_digit n cs)) l False True c')"
  by (induction cs arbitrary: n)
    (auto simp: add_char_to_printf_specification_def printf_in_width_def printf_in_precision_def
      pstate_def)

lemma run_width:
  assumes "w \<noteq> WidthNumber 0"
  shows "\<exists>a. run_printf (pstate f WidthNone PrecisionNone NoLength False False False) (width_bytes w)
    = Inl (pstate f w PrecisionNone NoLength a False False)"
proof (cases w)
  case (WidthNumber n)
  with assms have "0 < unat n" by (simp add: unat_gt_0)
  then obtain c cs where d: "decimal (unat n) = c # cs" "c \<noteq> 48"
    using decimal_first by blast
  have dig: "is_digit c" "\<forall>c\<in>set cs. is_digit c"
    using decimal_digits [of _ "unat n"] by (auto simp: d)
  have "foldl add_digit (ucast (c - 48)) cs = n"
    using decimal_value [of "unat n"] by (simp add: d add_digit_def)
  moreover have "add_char_to_printf_specification
      (pstate f WidthNone PrecisionNone NoLength False False False) c =
      Inl (pstate f (WidthNumber (ucast (c - 48))) PrecisionNone NoLength True False False)"
    using dig(1) d(2) digit_not_other [of c]
    by (simp add: add_char_to_printf_specification_def printf_blocks pstate_def)
  ultimately show ?thesis using WidthNumber dig(2) by (auto simp: d run_width_digits)
next
  case WidthMeta
  then show ?thesis
    by (auto simp: add_char_to_printf_specification_def printf_blocks pstate_def is_digit_def
        flag_of_byte_def length_of_byte_def)
qed (auto simp: pstate_def)

lemma run_precision:
  "\<exists>a' b. run_printf (pstate f w PrecisionNone NoLength a False False) (precision_bytes p)
    = Inl (pstate f w p NoLength a' b False)"
proof -
  have dot: "add_char_to_printf_specification (pstate f w PrecisionNone NoLength a False False) 46 =
      Inl (pstate f w PrecisionNone NoLength False True False)"
    by (simp add: add_char_to_printf_specification_def printf_blocks pstate_def is_digit_def
        flag_of_byte_def length_of_byte_def)
  show ?thesis
  proof (cases p)
    case (PrecisionNumber n)
    obtain c cs where d: "decimal (unat n) = c # cs"
      by (cases "decimal (unat n)") (auto simp: decimal.simps [of "unat n"] split: if_splits)
    have dig: "is_digit c" "\<forall>c\<in>set cs. is_digit c"
      using decimal_digits [of _ "unat n"] by (auto simp: d)
    have "foldl add_digit (ucast (c - 48)) cs = n"
      using decimal_value [of "unat n"] by (simp add: d add_digit_def)
    moreover have "add_char_to_printf_specification
        (pstate f w PrecisionNone NoLength False True False) c =
        Inl (pstate f w (PrecisionNumber (ucast (c - 48))) NoLength False True False)"
      using dig(1) by (simp add: add_char_to_printf_specification_def printf_blocks pstate_def)
    ultimately show ?thesis
      using PrecisionNumber dig(2) by (auto simp: d dot run_precision_digits)
  next
    case PrecisionMeta
    have "add_char_to_printf_specification (pstate f w PrecisionNone NoLength False True False) 42 =
      Inl (pstate f w PrecisionMeta NoLength False False False)"
      by (simp add: add_char_to_printf_specification_def printf_blocks pstate_def is_digit_def)
    with PrecisionMeta show ?thesis by (auto simp: dot)
  qed auto
qed

lemma run_length:
  "\<exists>a' b' c. run_printf (pstate f w p NoLength a b False) (length_bytes l)
    = Inl (pstate f w p l a' b' c)"
  by (cases l)
    (auto simp: add_char_to_printf_specification_def printf_blocks pstate_def is_digit_def
        flag_of_byte_def length_of_byte_def)

text \<open>
  (C26) Round trip of conversion specifications: a specification with known flags, a specifier and
  a width that is not the number zero, written in C's order as flags, width, precision, length
  and specifier, is parsed back exactly by \<^verbatim>\<open>add_char_to_printf_specification\<close>, whatever
  follows it in the format string. No width or precision of 64 bits is changed by the wrap-around.
\<close>

theorem printf_specification_round_trip:
  assumes "printf_spec_wf s" and "p_width s \<noteq> WidthNumber 0"
  shows "parse_printf (render_printf s @ rest) = Inr (s, rest)"
proof -
  from run_width [OF assms(2), of "p_flags s"] obtain a where w:
    "run_printf (pstate (p_flags s) WidthNone PrecisionNone NoLength False False False)
      (width_bytes (p_width s)) = Inl (pstate (p_flags s) (p_width s) PrecisionNone NoLength a False False)"
    by blast
  from run_precision [of "p_flags s" "p_width s" a "p_precision s"] obtain a' b where p:
    "run_printf (pstate (p_flags s) (p_width s) PrecisionNone NoLength a False False)
      (precision_bytes (p_precision s)) = Inl (pstate (p_flags s) (p_width s) (p_precision s) NoLength a' b False)"
    by blast
  from run_length [of "p_flags s" "p_width s" "p_precision s" a' b "p_length s"]
  obtain a'' b' c where l:
    "run_printf (pstate (p_flags s) (p_width s) (p_precision s) NoLength a' b False)
      (length_bytes (p_length s)) = Inl (pstate (p_flags s) (p_width s) (p_precision s) (p_length s) a'' b' c)"
    by blast
  have "add_char_to_printf_specification
      (pstate (p_flags s) (p_width s) (p_precision s) (p_length s) a'' b' c) (specifier_byte (p_specifier s)) = Inr s"
    using assms(1) specifier_byte_inverse [of "p_specifier s"]
    by (simp add: printf_spec_wf_def add_specifier_char pstate_def)
  with run_flags [of "p_flags s"] w p l assms(1) show ?thesis
    by (simp add: parse_printf_def render_printf_def run_parser_append printf_spec_wf_def)
qed

definition demo_spec :: PrintfConversionSpecification where
  "demo_spec = \<lparr> p_flags = LEFT_JUSTIFY OR PRECEED_WITH_BASE_MARKING, p_width = WidthNumber 120,
     p_precision = PrecisionMeta, p_length = LongLong, p_specifier = UnsignedHexIntegerLowerCase \<rparr>"

theorem printf_specification_round_trip_witness:
  "map of_char ''-#120.*llx'' = render_printf demo_spec
   \<and> parse_printf (render_printf demo_spec @ [10]) = Inr (demo_spec, [10])"
proof
  show "map of_char ''-#120.*llx'' = render_printf demo_spec" by code_simp
  show "parse_printf (render_printf demo_spec @ [10]) = Inr (demo_spec, [10])"
    by (rule printf_specification_round_trip) code_simp+
qed

text \<open>
  Where a specification ends: after any characters that are no conversion specifiers, valid
  or not, the printf parser is still unfinished and well formed (a width being parsed is a number,
  at most one part is being parsed, so the branch the code calls impossible is never taken), and
  the first specifier character ends it with that specifier, never with the
  \<^verbatim>\<open>Unparsed\<close> one that makes \<^verbatim>\<open>vfprintf\<close> panic, leaving the rest of the format string.
\<close>

theorem printf_specification_ends_at_specifier:
  assumes "\<forall>c\<in>set pre. specifier_of_byte c = None" and "specifier_of_byte c = Some v"
  shows "(\<exists>u. parse_printf pre = Inl u \<and> printf_wf u)
    \<and> (\<exists>s. parse_printf (pre @ c # rest) = Inr (s, rest) \<and> printf_spec_wf s \<and> p_specifier s = v)"
  unfolding parse_printf_def
  using printf_parser.run_unfinished [OF printf_default_wf assms(1)]
    printf_parser.run_finished [OF printf_default_wf assms]
  by auto

theorem printf_specification_ends_at_specifier_witness:
  "(\<exists>u. parse_printf (map of_char ''5l!*'') = Inl u \<and> printf_wf u)
   \<and> (\<exists>s. parse_printf (map of_char ''5l!*'' @ 100 # map of_char ''%d'') = Inr (s, map of_char ''%d'')
        \<and> printf_spec_wf s \<and> p_specifier s = SignedDecimalInteger)"
proof -
  have h: "\<forall>c\<in>set (map of_char ''5l!*''). specifier_of_byte c = None"
    "specifier_of_byte 100 = Some SignedDecimalInteger"
    by (simp_all add: specifier_of_byte_def)
  show ?thesis using printf_specification_ends_at_specifier [OF h] by blast
qed

end
