(* ===== verification/Rlibc_Mem.thy ===== *)
theory Rlibc_Mem
  imports Prelude
begin

text \<open>
  The memory functions of the C library (\<^verbatim>\<open>src/rlibc/src/mem.rs\<close>), which user programs run:
  \<^verbatim>\<open>memcpy\<close>, \<^verbatim>\<open>memcmp\<close>, \<^verbatim>\<open>memset\<close>, \<^verbatim>\<open>bcmp\<close>, \<^verbatim>\<open>memmove\<close> and
  \<^verbatim>\<open>memchr\<close>.

  A program's memory is a partial map from 64-bit addresses to bytes; \<open>None\<close> as the result of a
  function is an access to an address that is not mapped. The functions go through memory eight
  bytes at a time where they can: \<open>load_usize\<close> and \<open>store_usize\<close> are the little-endian accesses of
  the target. \<^verbatim>\<open>c_char\<close> is the signed \<^verbatim>\<open>i8\<close>, a byte read with \<open>scast\<close>. The library is
  built with \<^verbatim>\<open>--release\<close>: arithmetic wraps around.
\<close>

section \<open>Memory\<close>

type_synonym memory = "u64 \<Rightarrow> u8 option"

definition store_byte :: "memory \<Rightarrow> u64 \<Rightarrow> u8 \<Rightarrow> memory option" where
  "store_byte m p v = (if m p = None then None else Some (m(p \<mapsto> v)))"

abbreviation idx :: "u64 \<Rightarrow> nat \<Rightarrow> u64" where
  "idx p i \<equiv> p + of_nat i"

definition load_bytes :: "memory \<Rightarrow> u64 \<Rightarrow> nat \<Rightarrow> u8 list option" where
  "load_bytes m p n = those (map (\<lambda>i. m (idx p i)) [0..<n])"

definition load_usize :: "memory \<Rightarrow> u64 \<Rightarrow> u64 option" where
  "load_usize m p = map_option from_le_bytes (load_bytes m p 8)"

text \<open>A Rust \<^verbatim>\<open>for\<close> loop over a range of indices, and one that stops at the first hit.\<close>

primrec for_in :: "'i list \<Rightarrow> ('i \<Rightarrow> 's \<Rightarrow> 's option) \<Rightarrow> 's \<Rightarrow> 's option" where
  "for_in [] body s = Some s"
| "for_in (i # is) body s = do { s \<leftarrow> body i s; for_in is body s }"

primrec find_in :: "'i list \<Rightarrow> ('i \<Rightarrow> bool option) \<Rightarrow> 'i option option" where
  "find_in [] test = Some None"
| "find_in (i # is) test = do { hit \<leftarrow> test i; if hit then Some (Some i) else find_in is test }"

definition store_usize :: "memory \<Rightarrow> u64 \<Rightarrow> u64 \<Rightarrow> memory option" where
  "store_usize m p v = for_in [0..<8] (\<lambda>k m. store_byte m (p + of_nat k) (to_le_bytes v ! k)) m"

section \<open>The functions\<close>

definition copy_byte :: "u64 \<Rightarrow> u64 \<Rightarrow> nat \<Rightarrow> memory \<Rightarrow> memory option" where
  "copy_byte dest src i m = do { b \<leftarrow> m (idx src i); store_byte m (idx dest i) b }"

definition copy_usize :: "u64 \<Rightarrow> u64 \<Rightarrow> nat \<Rightarrow> memory \<Rightarrow> memory option" where
  "copy_usize dest src i m =
     do { w \<leftarrow> load_usize m (idx src (8 * i)); store_usize m (idx dest (8 * i)) w }"

definition memcpy :: "memory \<Rightarrow> u64 \<Rightarrow> u64 \<Rightarrow> u64 \<Rightarrow> (u64 \<times> memory) option" where
  "memcpy m dest src n =
     (if dest = src then Some (dest, m)
      else if n < 8 then do {
        m \<leftarrow> for_in [0..<unat n] (copy_byte dest src) m;
        Some (dest, m) }
      else do {
        let n_size = unat n div 8;
        m \<leftarrow> for_in [0..<n_size] (copy_usize dest src) m;
        m \<leftarrow> for_in [n_size * 8..<unat n] (copy_byte dest src) m;
        Some (dest, m) })"

definition bytes_differ :: "memory \<Rightarrow> u64 \<Rightarrow> u64 \<Rightarrow> nat \<Rightarrow> bool option" where
  "bytes_differ m ptr1 ptr2 i =
     do { a \<leftarrow> m (idx ptr1 i); b \<leftarrow> m (idx ptr2 i); Some (a \<noteq> b) }"

definition usizes_differ :: "memory \<Rightarrow> u64 \<Rightarrow> u64 \<Rightarrow> nat \<Rightarrow> bool option" where
  "usizes_differ m ptr1 ptr2 i =
     do { a \<leftarrow> load_usize m (idx ptr1 (8 * i)); b \<leftarrow> load_usize m (idx ptr2 (8 * i)); Some (a \<noteq> b) }"

definition memcmp :: "memory \<Rightarrow> u64 \<Rightarrow> u64 \<Rightarrow> u64 \<Rightarrow> u32 option" where
  "memcmp m ptr1 ptr2 n =
     (if ptr1 = ptr2 then Some 0
      else do {
        let n_size = unat n div 8;
        block \<leftarrow> find_in [0..<n_size] (usizes_differ m ptr1 ptr2);
        ineq_i \<leftarrow> (case block of
            None \<Rightarrow> Some None
          | Some i \<Rightarrow> find_in [i * 8..<(i + 1) * 8] (bytes_differ m ptr1 ptr2));
        ineq_i \<leftarrow> (case ineq_i of
            None \<Rightarrow> find_in [n_size * 8..<unat n] (bytes_differ m ptr1 ptr2)
          | Some i \<Rightarrow> Some (Some i));
        (case ineq_i of
            None \<Rightarrow> Some 0
          | Some i \<Rightarrow> do {
              a \<leftarrow> m (idx ptr1 i);
              b \<leftarrow> m (idx ptr2 i);
              Some (scast a - scast b) }) })"

definition repeat_byte :: "u8 \<Rightarrow> u64" where
  "repeat_byte c = foldl (\<lambda>c_size i. c_size OR push_bit (i * 8) (scast c)) 0 [0..<8]"

definition memset :: "memory \<Rightarrow> u64 \<Rightarrow> u32 \<Rightarrow> u64 \<Rightarrow> (u64 \<times> memory) option" where
  "memset m dest c n =
     (let c = ucast c in
      if n < 8 then do {
        m \<leftarrow> for_in [0..<unat n] (\<lambda>i m. store_byte m (idx dest i) c) m;
        Some (dest, m) }
      else do {
        let n_size = unat n div 8;
        m \<leftarrow> for_in [0..<n_size] (\<lambda>i m. store_usize m (idx dest (8 * i)) (repeat_byte c)) m;
        m \<leftarrow> for_in [n_size * 8..<unat n] (\<lambda>i m. store_byte m (idx dest i) c) m;
        Some (dest, m) })"

definition bcmp :: "memory \<Rightarrow> u64 \<Rightarrow> u64 \<Rightarrow> u64 \<Rightarrow> u32 option" where
  "bcmp m ptr1 ptr2 n = memcmp m ptr1 ptr2 n"

definition memmove :: "memory \<Rightarrow> u64 \<Rightarrow> u64 \<Rightarrow> u64 \<Rightarrow> (u64 \<times> memory) option" where
  "memmove m dest src n =
     (if dest = src \<or> n = 0 then Some (dest, m)
      else
        let in_src = (\<lambda>p. src \<le> p \<and> p \<le> src + (n - 1));
            has_overlap = (in_src dest \<or> in_src (dest + (n - 1)))
        in if \<not> has_overlap then do { (_, m) \<leftarrow> memcpy m dest src n; Some (dest, m) }
           else if dest < src then do {
             m \<leftarrow> for_in [0..<unat n] (copy_byte dest src) m;
             Some (dest, m) }
           else if dest > src then do {
             m \<leftarrow> for_in (rev [0..<unat n]) (copy_byte dest src) m;
             Some (dest, m) }
           else Some (dest, m))"

definition memchr :: "memory \<Rightarrow> u64 \<Rightarrow> u32 \<Rightarrow> u64 \<Rightarrow> u64 option" where
  "memchr m ptr ch cnt = do {
     hit \<leftarrow> find_in [0..<unat cnt] (\<lambda>i. do { b \<leftarrow> m (idx ptr i); Some (b = ucast ch) });
     (case hit of
        Some i \<Rightarrow> Some (idx ptr i)
      | None \<Rightarrow> Some 0) }"

section \<open>Memory contents\<close>

definition holds :: "memory \<Rightarrow> u64 \<Rightarrow> u8 list \<Rightarrow> bool" where
  "holds m p bs \<longleftrightarrow> (\<forall>i < length bs. m (idx p i) = Some (bs ! i))"

definition mapped :: "memory \<Rightarrow> u64 \<Rightarrow> nat \<Rightarrow> bool" where
  "mapped m p n \<longleftrightarrow> (\<forall>i < n. m (idx p i) \<noteq> None)"

definition overwrite :: "memory \<Rightarrow> u64 \<Rightarrow> u8 list \<Rightarrow> memory" where
  "overwrite m p bs = (\<lambda>a. if unat (a - p) < length bs then Some (bs ! unat (a - p)) else m a)"

lemma holds_code [code]:
  "holds m p bs \<longleftrightarrow> list_all (\<lambda>i. m (idx p i) = Some (bs ! i)) [0..<length bs]"
  by (auto simp: holds_def list_all_iff)

lemma mapped_code [code]: "mapped m p n \<longleftrightarrow> list_all (\<lambda>i. m (idx p i) \<noteq> None) [0..<n]"
  by (auto simp: mapped_def list_all_iff)

lemma unat_of_nat_u64: "i < 2 ^ 64 \<Longrightarrow> unat (of_nat i :: u64) = i"
  by (simp add: unsigned_of_nat take_bit_nat_eq_self)

lemma u64_diff_eq:
  fixes a p :: u64
  assumes "unat (a - p) = k"
  shows "a = idx p k"
proof -
  have "(of_nat k :: u64) = a - p" unfolding assms [symmetric] by simp
  then show ?thesis by simp
qed

lemma overwrite_Nil [simp]: "overwrite m p [] = m"
  by (simp add: overwrite_def)

lemma overwrite_holds [simp]: "holds m p bs \<Longrightarrow> overwrite m p bs = m"
  by (rule ext) (auto simp: overwrite_def holds_def dest: u64_diff_eq)

lemma holds_overwrite: "length bs \<le> 2 ^ 64 \<Longrightarrow> holds (overwrite m p bs) p bs"
  by (simp add: holds_def overwrite_def unat_of_nat_u64)

lemma holds_overwrite_other:
  "holds m q cs \<Longrightarrow> \<forall>i < length cs. length bs \<le> unat (idx q i - p) \<Longrightarrow> holds (overwrite m p bs) q cs"
  by (auto simp: holds_def overwrite_def not_less)

lemma mapped_overwrite: "mapped m q n \<Longrightarrow> mapped (overwrite m p bs) q n"
  by (auto simp: mapped_def overwrite_def)

lemma holds_mapped: "holds m p bs \<Longrightarrow> mapped m p (length bs)"
  by (simp add: holds_def mapped_def)

lemma store_byte_snoc:
  assumes "length bs < 2 ^ 64" and "m (idx p (length bs)) \<noteq> None"
  shows "store_byte (overwrite m p bs) (idx p (length bs)) b = Some (overwrite m p (bs @ [b]))"
proof -
  have u: "unat (of_nat (length bs) :: u64) = length bs"
    using assms(1) by (rule unat_of_nat_u64)
  have "(overwrite m p bs)(idx p (length bs) \<mapsto> b) = overwrite m p (bs @ [b])"
    by (rule ext) (auto simp: overwrite_def u nth_append not_less_eq less_Suc_eq dest: u64_diff_eq)
  with assms(2) show ?thesis by (simp add: store_byte_def overwrite_def u)
qed

lemma store_byte_cons:
  assumes "length bs < 2 ^ 64" and "m p \<noteq> None"
  shows "store_byte (overwrite m (p + 1) bs) p b = Some (overwrite m p (b # bs))"
proof -
  have "((overwrite m (p + 1) bs)(p \<mapsto> b)) a = overwrite m p (b # bs) a" for a
  proof (cases "a = p")
    case False
    then have nz: "a - p \<noteq> 0" by simp
    have e: "a - (p + 1) = (a - p) - 1" by (rule diff_diff_eq [symmetric])
    have "0 < unat (a - p)" using nz unat_gt_0 by blast
    then have "unat (a - p) = Suc (unat (a - (p + 1)))"
      unfolding e unat_minus_one [OF nz] by linarith
    with False show ?thesis by (simp add: overwrite_def)
  qed (simp add: overwrite_def)
  with assms(2) show ?thesis by (simp add: store_byte_def overwrite_def fun_eq_iff)
qed

section \<open>Loops\<close>

lemma for_in_append [simp]: "for_in (xs @ ys) body s = Option.bind (for_in xs body s) (for_in ys body)"
  by (induction xs arbitrary: s) (auto split: bind_splits)

lemma for_in_range:
  "a \<le> b \<Longrightarrow> (\<And>i. a \<le> i \<Longrightarrow> i < b \<Longrightarrow> body i (S i) = Some (S (Suc i)))
    \<Longrightarrow> for_in [a..<b] body (S a) = Some (S b)"
  by (induction b rule: dec_induct) auto

lemma for_in_rev_range:
  "(\<And>i. i < n \<Longrightarrow> body i (S (Suc i)) = Some (S i)) \<Longrightarrow> for_in (rev [0..<n]) body (S n) = Some (S 0)"
  by (induction n) auto

lemma find_in_total:
  "(\<And>i. i \<in> set is \<Longrightarrow> test i = Some (P i)) \<Longrightarrow> find_in is test = Some (find P is)"
  by (induction "is") auto

section \<open>Copying\<close>

text \<open>
  Copying forwards is right when no byte is read after it has been overwritten: this covers
  disjoint regions and a destination below the source.
\<close>

definition forward_safe :: "u64 \<Rightarrow> u64 \<Rightarrow> nat \<Rightarrow> bool" where
  "forward_safe dest src n \<longleftrightarrow> (\<forall>i < n. i \<le> unat (idx src i - dest))"

lemma forward_read:
  assumes "forward_safe dest src (length bs)" "holds m src bs" "j \<le> i" "i < length bs"
  shows "overwrite m dest (take j bs) (idx src i) = Some (bs ! i)"
  using assms by (auto simp: forward_safe_def holds_def overwrite_def)

lemma copy_byte_step:
  assumes "forward_safe dest src (length bs)" "holds m src bs" "mapped m dest (length bs)"
    and "length bs < 2 ^ 64" "i < length bs"
  shows "copy_byte dest src i (overwrite m dest (take i bs)) = Some (overwrite m dest (take (Suc i) bs))"
  using assms store_byte_snoc [of "take i bs" m dest "bs ! i"]
  by (simp add: copy_byte_def forward_read mapped_def take_Suc_conv_app_nth)

lemma those_map_Some: "(\<And>i. i \<in> set is \<Longrightarrow> f i = Some (g i)) \<Longrightarrow> those (map f is) = Some (map g is)"
  by (induction "is") auto

lemma load_usize_holds:
  assumes "\<And>k. k < 8 \<Longrightarrow> m (idx p k) = Some (bs ! k)" "length bs = 8"
  shows "load_usize m p = Some (from_le_bytes bs)"
proof -
  have "load_bytes m p 8 = Some (map ((!) bs) [0..<length bs])"
    unfolding load_bytes_def assms(2) by (rule those_map_Some) (simp add: assms(1))
  then show ?thesis by (simp add: load_usize_def map_nth del: upt_rec_numeral)
qed

lemma store_usize_append:
  assumes "length bs + 8 \<le> 2 ^ 64" and "\<And>k. k < 8 \<Longrightarrow> m (idx p (length bs + k)) \<noteq> None"
  shows "store_usize (overwrite m p bs) (idx p (length bs)) w
    = Some (overwrite m p (bs @ to_le_bytes w))"
proof -
  let ?S = "\<lambda>k. overwrite m p (bs @ take k (to_le_bytes w))"
  have "store_byte (?S k) (idx (idx p (length bs)) k) (to_le_bytes w ! k) = Some (?S (Suc k))"
    if "k < 8" for k
    using store_byte_snoc [of "bs @ take k (to_le_bytes w)" m p "to_le_bytes w ! k"] that assms
    by (simp add: take_Suc_conv_app_nth add.assoc)
  then have "for_in [0..<8] (\<lambda>k m. store_byte m (idx (idx p (length bs)) k) (to_le_bytes w ! k)) (?S 0)
      = Some (?S 8)"
    by (intro for_in_range) simp_all
  then show ?thesis by (simp add: store_usize_def del: upt_rec_numeral)
qed

lemma memcpy_forward:
  assumes "forward_safe dest src (length bs)" "holds m src bs" "mapped m dest (length bs)"
    and len: "length bs < 2 ^ 64"
  shows "memcpy m dest src (of_nat (length bs)) = Some (dest, overwrite m dest bs)"
proof -
  let ?S = "\<lambda>i. overwrite m dest (take i bs)"
  note step = copy_byte_step [OF assms]
  have bytes: "for_in [a..<length bs] (copy_byte dest src) (?S a) = Some (?S (length bs))"
    if "a \<le> length bs" for a
    by (rule for_in_range [OF that]) (simp add: step)
  have word: "copy_usize dest src i (?S (8 * i)) = Some (?S (8 * Suc i))"
    if i: "i < length bs div 8" for i
  proof -
    have i8: "8 * i + 8 \<le> length bs" using i by (simp add: less_eq_div_iff_mult_less_eq Suc_leI)
    let ?bs = "take 8 (drop (8 * i) bs)"
    have "load_usize (?S (8 * i)) (idx src (8 * i)) = Some (from_le_bytes ?bs)"
    proof (rule load_usize_holds)
      fix k :: nat assume k: "k < 8"
      then have "overwrite m dest (take (8 * i) bs) (idx src (8 * i + k)) = Some (bs ! (8 * i + k))"
        using assms(1,2) i8 by (intro forward_read) auto
      with k i8 show "overwrite m dest (take (8 * i) bs) (idx (idx src (8 * i)) k) = Some (?bs ! k)"
        by (simp add: add.assoc)
    qed (use i8 in simp)
    moreover have "store_usize (?S (8 * i)) (idx dest (8 * i)) (from_le_bytes ?bs) = Some (?S (8 * Suc i))"
    proof -
      have l: "length (take (8 * i) bs) = 8 * i" using i8 by simp
      have "to_le_bytes (from_le_bytes ?bs :: u64) = ?bs"
        by (rule to_from_le_bytes) (use i8 in simp)
      moreover have "take (8 * i) bs @ ?bs = take (8 * Suc i) bs"
        by (metis mult_Suc_right add.commute take_add)
      moreover have "m (idx dest (8 * i + k)) \<noteq> None" if "k < 8" for k
      proof -
        from that i8 have "8 * i + k < length bs" by linarith
        with assms(3) show ?thesis unfolding mapped_def by blast
      qed
      moreover have "8 * i + 8 \<le> 2 ^ 64" using i8 len by linarith
      ultimately show ?thesis
        using store_usize_append [of "take (8 * i) bs" m dest "from_le_bytes ?bs"]
        unfolding l by simp
    qed
    ultimately show ?thesis by (simp add: copy_usize_def)
  qed
  have words: "for_in [0..<length bs div 8] (copy_usize dest src) m = Some (?S (8 * (length bs div 8)))"
    using for_in_range [of 0 "length bs div 8" "copy_usize dest src" "\<lambda>i. ?S (8 * i)"] word by simp
  have n: "unat (of_nat (length bs) :: u64) = length bs" using len by (rule unat_of_nat_u64)
  have "8 * (length bs div 8) \<le> length bs" by simp
  from words bytes [of 0] bytes [OF this] n show ?thesis
    using assms(2) by (auto simp: memcpy_def Let_def mult.commute)
qed

lemma disjoint_forward_safe:
  "\<forall>i < n. n \<le> unat (idx src i - dest) \<Longrightarrow> forward_safe dest src n"
  by (force simp: forward_safe_def)

section \<open>Moving between overlapping regions\<close>

definition fits :: "u64 \<Rightarrow> nat \<Rightarrow> bool" where
  "fits p n \<longleftrightarrow> unat p + n \<le> 2 ^ 64"

lemma unat_idx: "fits p n \<Longrightarrow> i < n \<Longrightarrow> unat (idx p i) = unat p + i"
  by (simp add: fits_def unat_word_ariths unat_of_nat_u64)

lemma unat_diff_up: "p \<le> a \<Longrightarrow> unat (a - p) = unat a - unat p" for a p :: u64
  by (simp add: unat_sub word_le_nat_alt)

lemma unat_diff_down: "a < p \<Longrightarrow> unat (a - p) = 2 ^ 64 + unat a - unat p" for a p :: u64
  by (simp add: unat_sub_if' word_less_nat_alt word_le_nat_alt)

lemma forward_safe_below:
  assumes "fits src n" "dest < src"
  shows "forward_safe dest src n"
proof -
  have "i \<le> unat (idx src i - dest)" if "i < n" for i
  proof -
    have u: "unat (idx src i) = unat src + i" using assms(1) that by (rule unat_idx)
    have d: "unat dest < unat src" using assms(2) by (simp add: word_less_nat_alt)
    then have "dest \<le> idx src i" unfolding word_le_nat_alt u by linarith
    then have "unat (idx src i - dest) = unat src + i - unat dest" by (simp add: unat_diff_up u)
    with d show ?thesis by linarith
  qed
  then show ?thesis by (simp add: forward_safe_def)
qed

lemma backward_read:
  assumes "fits dest (length bs)" "holds m src bs" "src < dest" "i < length bs"
  shows "overwrite m (idx dest (Suc i)) (drop (Suc i) bs) (idx src i) = Some (bs ! i)"
proof -
  have d: "unat src < unat dest" using assms(3) by (simp add: word_less_nat_alt)
  have e: "idx src i - idx dest (Suc i) = src - (dest + 1)" by (simp add: algebra_simps)
  have "unat dest + 1 \<le> 2 ^ 64" "unat dest + length bs \<le> 2 ^ 64"
    using assms(1,4) by (simp_all add: fits_def)
  moreover have "unat (src - (dest + 1)) = 2 ^ 64 + unat src - (unat dest + 1)"
  proof (cases "unat dest + 1 < 2 ^ 64")
    case True
    then have u: "unat (dest + 1) = unat dest + 1" by (simp add: unat_word_ariths)
    have "src < dest + 1" unfolding word_less_nat_alt u using d by linarith
    then show ?thesis by (simp add: unat_diff_down u)
  next
    case False
    with \<open>unat dest + 1 \<le> 2 ^ 64\<close> have "unat dest + 1 = 2 ^ 64" by linarith
    then have "unat (dest + 1) = 0" by (simp add: unat_word_ariths)
    then have "dest + 1 = 0" by (simp only: unat_eq_0)
    with \<open>unat dest + 1 = 2 ^ 64\<close> show ?thesis by simp
  qed
  ultimately have "length (drop (Suc i) bs) \<le> unat (idx src i - idx dest (Suc i))"
    using d assms(4) unfolding e length_drop by linarith
  with assms(2,4) show ?thesis by (simp add: overwrite_def holds_def)
qed

lemma copy_backward:
  assumes "fits dest (length bs)" "holds m src bs" "mapped m dest (length bs)" "src < dest"
    and len: "length bs < 2 ^ 64"
  shows "for_in (rev [0..<length bs]) (copy_byte dest src) m = Some (overwrite m dest bs)"
proof -
  let ?S = "\<lambda>i. overwrite m (idx dest i) (drop i bs)"
  have "copy_byte dest src i (?S (Suc i)) = Some (?S i)" if i: "i < length bs" for i
  proof -
    have "m (idx dest i) \<noteq> None" using assms(3) i by (simp add: mapped_def)
    then have "store_byte (overwrite m (idx dest i + 1) (drop (Suc i) bs)) (idx dest i) (bs ! i)
        = Some (overwrite m (idx dest i) (bs ! i # drop (Suc i) bs))"
      using len by (intro store_byte_cons) auto
    with backward_read [OF assms(1,2,4) i] Cons_nth_drop_Suc [OF i] show ?thesis
      by (simp add: copy_byte_def add.commute add.left_commute)
  qed
  from for_in_rev_range [of "length bs" "copy_byte dest src" ?S, OF this] show ?thesis by simp
qed

lemma no_overlap_disjoint:
  assumes "fits dest n" "fits src n" "0 < n"
    and "\<not> (src \<le> dest \<and> dest \<le> idx src (n - 1))"
    and "\<not> (src \<le> idx dest (n - 1) \<and> idx dest (n - 1) \<le> idx src (n - 1))"
  shows "forward_safe dest src n"
proof (cases "dest < src")
  case True
  with assms(2) show ?thesis by (rule forward_safe_below)
next
  case False
  have s: "unat (idx src (n - 1)) = unat src + (n - 1)" using assms by (intro unat_idx) auto
  from False assms(4) have far: "unat src + n \<le> unat dest"
    unfolding word_le_nat_alt s by (simp add: word_less_nat_alt)
  have "i \<le> unat (idx src i - dest)" if "i < n" for i
  proof -
    have u: "unat (idx src i) = unat src + i" using assms(2) that by (rule unat_idx)
    have "idx src i < dest" unfolding word_less_nat_alt u using far that by linarith
    then have "unat (idx src i - dest) = 2 ^ 64 + (unat src + i) - unat dest"
      by (simp add: unat_diff_down u)
    moreover have "unat dest \<le> 2 ^ 64" using assms(1) by (simp add: fits_def)
    ultimately show ?thesis by linarith
  qed
  then show ?thesis by (simp add: forward_safe_def)
qed

text \<open>
  (C31) \<^verbatim>\<open>memmove\<close> moves: whether the regions overlap or not and whichever is lower, the
  destination afterwards holds the bytes the source held before, every other address is unchanged
  and the destination pointer is returned. This covers the block-wise copy of \<^verbatim>\<open>memcpy\<close> and
  both byte-wise directions.
\<close>

theorem memmove_correct:
  assumes "holds m src bs" and "mapped m dest (length bs)"
    and "fits src (length bs)" and "fits dest (length bs)" and "length bs < 2 ^ 64"
  shows "memmove m dest src (of_nat (length bs)) = Some (dest, overwrite m dest bs)"
proof (cases "dest = src \<or> bs = []")
  case True
  then show ?thesis using assms(1) by (auto simp: memmove_def)
next
  case False
  then have pos: "0 < length bs" and ne: "dest \<noteq> src" by auto
  have n: "unat (of_nat (length bs) :: u64) = length bs" using assms(5) by (rule unat_of_nat_u64)
  then have nz: "(of_nat (length bs) :: u64) \<noteq> 0" using pos by (metis unat_0 less_irrefl)
  have n1: "(of_nat (length bs) :: u64) - 1 = of_nat (length bs - 1)" using pos
    by (metis Suc_pred' add_diff_cancel_left' of_nat_Suc)
  have fwd: "for_in [0..<length bs] (copy_byte dest src) m = Some (overwrite m dest bs)"
    if "forward_safe dest src (length bs)"
    using for_in_range [of 0 "length bs" "copy_byte dest src" "\<lambda>i. overwrite m dest (take i bs)"]
      copy_byte_step [OF that assms(1,2,5)] by simp
  note below = fwd [OF forward_safe_below [OF assms(3)]]
  note above = copy_backward [OF assms(4,1,2) _ assms(5)]
  note apart = memcpy_forward [OF no_overlap_disjoint [OF assms(4,3) pos] assms(1,2,5)]
  show ?thesis
    using ne nz below above apart unfolding memmove_def n1 Let_def n
    by (auto simp: not_less_iff_gr_or_eq)
qed

definition demo_memory :: memory where
  "demo_memory = (\<lambda>a. if a < 64 then Some (ucast a) else None)"

theorem memmove_correct_witness:
  "memmove demo_memory 12 10 9 = Some (12, overwrite demo_memory 12 [10,11,12,13,14,15,16,17,18])
   \<and> memmove demo_memory 10 12 9 = Some (10, overwrite demo_memory 10 [12,13,14,15,16,17,18,19,20])"
proof -
  have "holds demo_memory 10 [10,11,12,13,14,15,16,17,18]"
    "holds demo_memory 12 [12,13,14,15,16,17,18,19,20]"
    "mapped demo_memory 10 9" "mapped demo_memory 12 9"
    by code_simp+
  moreover have "fits 10 9" "fits 12 9" by (simp_all add: fits_def)
  moreover have l: "length [10,11,12,13,14,15,16,17,18::u8] = 9" "length [12,13,14,15,16,17,18,19,20::u8] = 9"
    by simp_all
  ultimately show ?thesis
    using memmove_correct [of demo_memory 10 "[10,11,12,13,14,15,16,17,18]" 12]
      memmove_correct [of demo_memory 12 "[12,13,14,15,16,17,18,19,20]" 10]
    unfolding l of_nat_numeral by (simp del: fun_upd_apply)
qed

section \<open>Comparing\<close>

text \<open>The difference of the first two bytes that differ, as signed characters.\<close>

fun compare_bytes :: "u8 list \<Rightarrow> u8 list \<Rightarrow> u32" where
  "compare_bytes (a # as) (b # bs) = (if a \<noteq> b then scast a - scast b else compare_bytes as bs)"
| "compare_bytes _ _ = 0"

lemma find_append: "find P (xs @ ys) = (case find P xs of None \<Rightarrow> find P ys | Some x \<Rightarrow> Some x)"
  by (induction xs) auto

lemma find_upt_Some:
  "find P [0..<n] = Some i \<longleftrightarrow> i < n \<and> P i \<and> (\<forall>j < i. \<not> P j)"
  by (auto simp: find_Some_iff)

lemma compare_bytes_find:
  "length as = length bs \<Longrightarrow> compare_bytes as bs =
     (case find (\<lambda>i. as ! i \<noteq> bs ! i) [0..<length as] of
        None \<Rightarrow> 0
      | Some i \<Rightarrow> scast (as ! i) - scast (bs ! i))"
proof (induction as bs rule: list_induct2)
  case (Cons a as b bs)
  have "find P (map Suc is) = map_option Suc (find (\<lambda>i. P (Suc i)) is)" for P "is"
    by (induction "is") auto
  with Cons show ?case by (simp add: upt_conv_Cons map_Suc_upt [symmetric] del: upt_Suc split: option.split)
qed simp

lemma from_le_bytes_inject:
  assumes "length as = 8" "length bs = 8"
  shows "(from_le_bytes as :: u64) = from_le_bytes bs \<longleftrightarrow> as = bs"
proof -
  have "to_le_bytes (from_le_bytes cs :: u64) = cs" if "length cs = 8" for cs
    by (rule to_from_le_bytes) (simp add: that)
  from this [OF assms(1)] this [OF assms(2)] show ?thesis by metis
qed

lemma bytes_differ_holds:
  "holds m p as \<Longrightarrow> holds m q bs \<Longrightarrow> i < length as \<Longrightarrow> i < length bs \<Longrightarrow>
   bytes_differ m p q i = Some (as ! i \<noteq> bs ! i)"
  by (simp add: bytes_differ_def holds_def)

lemma usizes_differ_holds:
  assumes "holds m p as" "holds m q bs" "length as = length bs" "8 * i + 8 \<le> length as"
  shows "usizes_differ m p q i = Some (\<exists>k < 8. as ! (8 * i + k) \<noteq> bs ! (8 * i + k))"
proof -
  have load: "load_usize m (idx r (8 * i)) = Some (from_le_bytes (take 8 (drop (8 * i) cs)))"
    if "holds m r cs" "length cs = length as" for r cs
  proof (rule load_usize_holds)
    fix k :: nat assume k: "k < 8"
    with that(2) assms(4) have "8 * i + k < length cs" by linarith
    with that(1) have "m (idx r (8 * i + k)) = Some (cs ! (8 * i + k))"
      unfolding holds_def by blast
    with k that assms(4) show "m (idx (idx r (8 * i)) k) = Some (take 8 (drop (8 * i) cs) ! k)"
      by (simp add: add.assoc)
  qed (use that assms(4) in simp)
  have "take 8 (drop (8 * i) as) = take 8 (drop (8 * i) bs) \<longleftrightarrow>
      (\<forall>k < 8. as ! (8 * i + k) = bs ! (8 * i + k))"
    using assms(3,4) by (auto simp: list_eq_iff_nth_eq)
  with load [OF assms(1)] load [OF assms(2)] show ?thesis
    using assms(3,4) by (simp add: usizes_differ_def from_le_bytes_inject)
qed

lemma upt_split: "a \<le> b \<Longrightarrow> b \<le> c \<Longrightarrow> [a..<c] = [a..<b] @ [b..<c]"
  using upt_add_eq_append [of a b "c - b"] by simp

lemma no_hit_below_block:
  assumes "\<forall>i < b. \<forall>k < 8. \<not> D (8 * i + k)"
  shows "find D [0..<b * 8] = None"
proof -
  have "\<not> D j" if "j < b * 8" for j
  proof -
    have "j div 8 < b" using that by (simp add: less_mult_imp_div_less)
    moreover have "j mod 8 < 8" by simp
    ultimately have "\<not> D (8 * (j div 8) + j mod 8)" using assms by blast
    then show ?thesis by simp
  qed
  then show ?thesis by (auto simp: find_None_iff)
qed

lemma find_blocks:
  assumes "n_size = n div 8" and "D = (\<lambda>i. as ! i \<noteq> (bs ! i :: u8))"
    and "block = find (\<lambda>i. \<exists>k < 8. D (8 * i + k)) [0..<n_size]"
  shows "find D [0..<n] =
    (case (case block of None \<Rightarrow> None | Some i \<Rightarrow> find D [i * 8..<(i + 1) * 8]) of
       None \<Rightarrow> find D [n_size * 8..<n] | Some i \<Rightarrow> Some i)"
proof (cases block)
  case None
  then have "find (\<lambda>i. \<exists>k < 8. D (8 * i + k)) [0..<n_size] = None" using assms(3) by simp
  then have "find D [0..<n_size * 8] = None"
    by (intro no_hit_below_block) (auto simp: find_None_iff)
  moreover have "[0..<n] = [0..<n_size * 8] @ [n_size * 8..<n]"
    by (rule upt_split) (simp_all add: assms(1))
  ultimately show ?thesis using None by (simp add: find_append)
next
  case (Some i)
  have "find (\<lambda>i. \<exists>k < 8. D (8 * i + k)) [0..<n_size] = Some i" using Some assms(3) by simp
  then have i: "i < n_size" "\<exists>k < 8. D (8 * i + k)" "\<forall>i' < i. \<forall>k < 8. \<not> D (8 * i' + k)"
    unfolding find_upt_Some by auto
  have before: "find D [0..<i * 8] = None" using i(3) by (rule no_hit_below_block)
  from i(2) obtain k where k: "k < 8" "D (8 * i + k)" by blast
  then have "8 * i + k \<in> set [i * 8..<(i + 1) * 8]" by simp
  with k(2) have "find D [i * 8..<(i + 1) * 8] \<noteq> None" unfolding find_None_iff by blast
  then obtain j where hit: "find D [i * 8..<(i + 1) * 8] = Some j" by auto
  have "(i + 1) * 8 \<le> n" using i(1) assms(1) by (simp add: less_eq_div_iff_mult_less_eq Suc_leI)
  then have "[0..<n] = [0..<(i + 1) * 8] @ [(i + 1) * 8..<n]" by (intro upt_split) auto
  moreover have "[0..<(i + 1) * 8] = [0..<i * 8] @ [i * 8..<(i + 1) * 8]" by (intro upt_split) auto
  ultimately have "find D [0..<n] = Some j" using before hit by (simp only: find_append option.case)
  with Some hit show ?thesis by simp
qed

text \<open>
  (C32) \<^verbatim>\<open>memcmp\<close>, which compares eight bytes at a time and looks for the byte only in the first
  block that differs, returns the difference of the first two bytes that differ, and zero exactly
  when there are none, like the byte by byte comparison; the bytes are compared as signed
  characters.
\<close>

theorem memcmp_correct:
  assumes "holds m p as" and "holds m q bs" and "length as = length bs" and "length as < 2 ^ 64"
  shows "memcmp m p q (of_nat (length as)) = Some (compare_bytes as bs)"
proof (cases "p = q")
  case True
  with assms(1-3) have "as = bs" by (auto simp: holds_def intro: nth_equalityI)
  moreover have "compare_bytes bs bs = 0" by (induction bs) auto
  ultimately show ?thesis using True by (simp add: memcmp_def)
next
  case False
  let ?D = "\<lambda>i. as ! i \<noteq> bs ! i" and ?n = "length as"
  have n: "unat (of_nat ?n :: u64) = ?n" using assms(4) by (rule unat_of_nat_u64)
  have bytes: "find_in [a..<b] (bytes_differ m p q) = Some (find ?D [a..<b])" if "b \<le> ?n" for a b
    by (rule find_in_total) (use assms(1-3) that in \<open>simp add: bytes_differ_holds\<close>)
  have blocks: "find_in [0..<?n div 8] (usizes_differ m p q) =
      Some (find (\<lambda>i. \<exists>k < 8. ?D (8 * i + k)) [0..<?n div 8])"
  proof (rule find_in_total)
    fix i assume "i \<in> set [0..<?n div 8]"
    then have "8 * i + 8 \<le> ?n" by (simp add: less_eq_div_iff_mult_less_eq Suc_leI)
    with assms(1-3) show "usizes_differ m p q i = Some (\<exists>k < 8. ?D (8 * i + k))"
      by (rule usizes_differ_holds)
  qed
  have inner: "(i + 1) * 8 \<le> ?n" if "find (\<lambda>i. \<exists>k < 8. ?D (8 * i + k)) [0..<?n div 8] = Some i" for i
    using that by (auto simp: find_upt_Some less_eq_div_iff_mult_less_eq Suc_leI)
  have res: "i < ?n" if "find ?D [0..<?n] = Some i" for i
    using that by (simp add: find_upt_Some)
  have last: "(case find ?D [0..<?n] of None \<Rightarrow> Some 0
      | Some i \<Rightarrow> do { a \<leftarrow> m (idx p i); b \<leftarrow> m (idx q i); Some (scast a - scast b) })
    = Some (compare_bytes as bs)"
    using assms(1-3) res by (auto simp: compare_bytes_find holds_def split: option.split)
  note split = find_blocks [OF refl refl refl, where n = ?n and as = as and bs = bs]
  show ?thesis
  proof (cases "find (\<lambda>i. \<exists>k < 8. ?D (8 * i + k)) [0..<?n div 8]")
    case None
    with False blocks bytes [of ?n] last split show ?thesis
      by (simp add: memcmp_def Let_def n)
  next
    case (Some i)
    with False blocks bytes [of ?n] bytes [OF inner [OF Some]] last split show ?thesis
      by (auto simp: memcmp_def Let_def n split: option.splits)
  qed
qed

definition demo_copies :: memory where
  "demo_copies = (\<lambda>a. if a = 48 then Some 200 else if a < 64 then Some (ucast (a AND 31)) else None)"

theorem memcmp_correct_witness:
  "memcmp demo_copies 8 40 8 = Some 0 \<and> memcmp demo_copies 8 40 9 = Some (16 + 56)"
proof -
  have h: "holds demo_copies 8 [8,9,10,11,12,13,14,15,16]" "holds demo_copies 40 [8,9,10,11,12,13,14,15,200]"
    "holds demo_copies 8 [8,9,10,11,12,13,14,15]" "holds demo_copies 40 [8,9,10,11,12,13,14,15]"
    by code_simp+
  have l: "length [8,9,10,11,12,13,14,15,16::u8] = 9" "length [8,9,10,11,12,13,14,15,200::u8] = 9"
    "length [8,9,10,11,12,13,14,15::u8] = 8"
    by simp_all
  have "memcmp demo_copies 8 40 9 = Some (compare_bytes [8,9,10,11,12,13,14,15,16] [8,9,10,11,12,13,14,15,200])"
    using memcmp_correct [OF h(1,2)] unfolding l of_nat_numeral by simp
  moreover have "memcmp demo_copies 8 40 8 = Some (compare_bytes [8,9,10,11,12,13,14,15] [8,9,10,11,12,13,14,15])"
    using memcmp_correct [OF h(3,4)] unfolding l of_nat_numeral by simp
  moreover have "compare_bytes [8,9,10,11,12,13,14,15,16] [8,9,10,11,12,13,14,15,200] = 16 + 56"
    by code_simp
  ultimately show ?thesis by simp
qed

section \<open>Filling\<close>

text \<open>
  The block \<^verbatim>\<open>memset\<close> repeats: \<^verbatim>\<open>c as usize\<close> sign-extends the signed character, so the
  bytes above the lowest are all ones when the top bit of the character is set.
\<close>

lemma bit_repeat_byte:
  "bit (repeat_byte c) b \<longleftrightarrow> (\<exists>i < 8. i * 8 \<le> b \<and> b < 64 \<and> bit c (min (b - i * 8) 7))"
proof -
  have "bit (foldl (\<lambda>c_size i. c_size OR push_bit (i * 8) (scast c)) 0 [0..<n] :: u64) b \<longleftrightarrow>
      (\<exists>i < n. i * 8 \<le> b \<and> b < 64 \<and> bit c (min (b - i * 8) 7))" for n
    by (induction n) (auto simp: bit_simps less_Suc_eq min_def not_le)
  from this [of 8] show ?thesis unfolding repeat_byte_def .
qed

lemma repeat_byte_bytes:
  "to_le_bytes (repeat_byte c) = (if bit c 7 then c # replicate 7 255 else replicate 8 c)" (is "_ = ?bs")
proof (rule nth_equalityI)
  fix j assume "j < length (to_le_bytes (repeat_byte c))"
  then have j: "j < 8" by simp
  have full: "\<forall>k < 8. bit (255 :: u8) k" by (simp add: all_less_8)
  have "bit (to_le_bytes (repeat_byte c) ! j) k \<longleftrightarrow> bit (?bs ! j) k" if k: "k < 8" for k
  proof -
    have "bit (to_le_bytes (repeat_byte c) ! j) k \<longleftrightarrow> bit (repeat_byte c) (8 * j + k)"
      using j k by (simp add: nth_to_le_bytes bit_simps)
    also have "\<dots> \<longleftrightarrow> (\<exists>i \<le> j. bit c (min (8 * j + k - i * 8) 7))"
    proof -
      have "i * 8 \<le> 8 * j + k \<longleftrightarrow> i \<le> j" for i using k by linarith
      moreover have "8 * j + k < 64" using j k by linarith
      ultimately show ?thesis by (simp add: bit_repeat_byte) (meson j le_less_trans)
    qed
    also have "\<dots> \<longleftrightarrow> bit c k \<or> (0 < j \<and> bit c 7)"
    proof -
      have "min (8 * j + k - i * 8) 7 = (if i = j then k else 7)" if "i \<le> j" for i
        using that k by (auto simp: min_def)
      then have "(\<exists>i \<le> j. bit c (min (8 * j + k - i * 8) 7)) \<longleftrightarrow> (\<exists>i \<le> j. bit c (if i = j then k else 7))"
        by (intro ex_cong1 conj_cong) simp_all
      also have "\<dots> \<longleftrightarrow> bit c k \<or> (0 < j \<and> bit c 7)"
        by (cases "j = 0") (auto split: if_splits intro: exI [of _ 0] exI [of _ j])
      finally show ?thesis .
    qed
    also have "\<dots> \<longleftrightarrow> bit (?bs ! j) k"
      using j k full by (cases j) auto
    finally show ?thesis .
  qed
  then show "to_le_bytes (repeat_byte c) ! j = ?bs ! j" by (auto simp: u8_eq_iff)
qed simp

definition memset_block :: "u8 \<Rightarrow> nat \<Rightarrow> u8 list" where
  "memset_block c n = (if n < 8 then replicate n c
     else concat (replicate (n div 8) (to_le_bytes (repeat_byte c))) @ replicate (n mod 8) c)"

lemma length_concat_blocks: "length (concat (replicate k (to_le_bytes (w :: u64)))) = 8 * k"
  by (induction k) auto

lemma store_byte_loop:
  assumes "mapped m dest n" "a = length bs" "a \<le> n" "n < 2 ^ 64"
  shows "for_in [a..<n] (\<lambda>i m. store_byte m (idx dest i) c) (overwrite m dest bs)
    = Some (overwrite m dest (bs @ replicate (n - a) c))"
proof -
  have "for_in [a..<n] (\<lambda>i m. store_byte m (idx dest i) c) (overwrite m dest (bs @ replicate (a - a) c))
    = Some (overwrite m dest (bs @ replicate (n - a) c))"
  proof (rule for_in_range [OF assms(3), where S = "\<lambda>i. overwrite m dest (bs @ replicate (i - a) c)"])
    fix i assume i: "a \<le> i" "i < n"
    have "m (idx dest i) \<noteq> None" using assms(1) i by (simp add: mapped_def)
    then show "store_byte (overwrite m dest (bs @ replicate (i - a) c)) (idx dest i) c =
        Some (overwrite m dest (bs @ replicate (Suc i - a) c))"
      using store_byte_snoc [of "bs @ replicate (i - a) c" m dest c] i assms(2,4)
      by (simp add: Suc_diff_le replicate_append_same)
  qed
  then show ?thesis by simp
qed

lemma store_usize_loop:
  assumes "mapped m dest n" "8 * k \<le> n" "n < 2 ^ 64"
  shows "for_in [0..<k] (\<lambda>i m. store_usize m (idx dest (8 * i)) w) m
    = Some (overwrite m dest (concat (replicate k (to_le_bytes w))))"
proof -
  let ?S = "\<lambda>i. overwrite m dest (concat (replicate i (to_le_bytes w)))"
  have "for_in [0..<k] (\<lambda>i m. store_usize m (idx dest (8 * i)) w) (?S 0) = Some (?S k)"
  proof (rule for_in_range)
    fix i assume i: "i < k"
    have "m (idx dest (8 * i + j)) \<noteq> None" if "j < 8" for j
    proof -
      have "8 * i + j < n" using that i assms(2) by linarith
      with assms(1) show ?thesis unfolding mapped_def by blast
    qed
    moreover have "8 * i + 8 \<le> 2 ^ 64" using i assms(2,3) by linarith
    moreover have "concat (replicate i (to_le_bytes w)) @ to_le_bytes w = concat (replicate (Suc i) (to_le_bytes w))"
      by (simp add: replicate_append_same [symmetric] del: replicate_append_same)
    ultimately show "store_usize (?S i) (idx dest (8 * i)) w = Some (?S (Suc i))"
      using store_usize_append [of "concat (replicate i (to_le_bytes w))" m dest w]
      unfolding length_concat_blocks by simp
  qed simp
  then show ?thesis by simp
qed

lemma memset_writes_block:
  assumes "mapped m dest n" "n < 2 ^ 64"
  shows "memset m dest c (of_nat n) = Some (dest, overwrite m dest (memset_block (ucast c) n))"
proof -
  have n: "unat (of_nat n :: u64) = n" using assms(2) by (rule unat_of_nat_u64)
  then have lt: "(of_nat n :: u64) < 8 \<longleftrightarrow> n < 8" by (simp add: word_less_nat_alt)
  let ?bs = "concat (replicate (n div 8) (to_le_bytes (repeat_byte (ucast c))))"
  have "n - n div 8 * 8 = n mod 8" by (metis minus_div_mult_eq_mod)
  then have tail: "for_in [n div 8 * 8..<n] (\<lambda>i m. store_byte m (idx dest i) (ucast c)) (overwrite m dest ?bs)
      = Some (overwrite m dest (?bs @ replicate (n mod 8) (ucast c)))"
    using store_byte_loop [OF assms(1) _ _ assms(2), of "n div 8 * 8" ?bs "ucast c"]
    by (simp add: length_concat_blocks mult.commute)
  show ?thesis
  proof (cases "n < 8")
    case True
    then show ?thesis
      using store_byte_loop [OF assms(1) _ _ assms(2), of 0 "[]" "ucast c"]
      by (simp add: memset_def memset_block_def n lt)
  next
    case False
    then show ?thesis
      using store_usize_loop [OF assms(1) _ assms(2), of "n div 8" "repeat_byte (ucast c)"] tail
      by (simp add: memset_def memset_block_def n lt Let_def)
  qed
qed

text \<open>
  \<^verbatim>\<open>memset\<close> fills exactly the given bytes with a character below 128; with a character of
  128 or more and eight bytes or more it does not: of every block of eight only the first byte
  gets the value, the other seven become 255.
\<close>

theorem memset_correct:
  assumes "mapped m dest n" and "n < 2 ^ 64"
  shows "(\<not> bit c 7 \<longrightarrow> memset m dest (ucast c) (of_nat n) = Some (dest, overwrite m dest (replicate n c)))
    \<and> (bit c 7 \<and> n = 16 \<longrightarrow> memset m dest (ucast c) (of_nat n) =
        Some (dest, overwrite m dest ((c # replicate 7 255) @ (c # replicate 7 255))))"
proof -
  have cc: "ucast (ucast c :: u32) = (c :: u8)" by (simp add: unsigned_ucast_eq take_bit_word_eq_self)
  have "memset_block c n = replicate n c" if "\<not> bit c 7"
  proof -
    have "concat (replicate k (replicate 8 c)) = replicate (8 * k) c" for k
      by (induction k) (simp_all add: replicate_add)
    with that show ?thesis
      by (simp add: memset_block_def repeat_byte_bytes replicate_add [symmetric])
  qed
  moreover have "memset_block c 16 = (c # replicate 7 255) @ (c # replicate 7 255)" if "bit c 7"
    using that by (simp add: memset_block_def repeat_byte_bytes numeral_2_eq_2)
  ultimately show ?thesis using memset_writes_block [OF assms, of "ucast c"] by (auto simp: cc)
qed

theorem memset_correct_witness:
  "memset demo_memory 8 (ucast (65 :: u8)) 16 = Some (8, overwrite demo_memory 8 (replicate 16 65))
   \<and> memset demo_memory 8 (ucast (128 :: u8)) 16 =
      Some (8, overwrite demo_memory 8 ((128 # replicate 7 255) @ (128 # replicate 7 255)))"
proof -
  have "mapped demo_memory 8 16" by code_simp
  moreover have "\<not> bit (65 :: u8) 7" "bit (128 :: u8) 7" by simp_all
  ultimately show ?thesis
    using memset_correct [of demo_memory 8 16 65] memset_correct [of demo_memory 8 16 128]
    unfolding of_nat_numeral by simp
qed

text \<open>\<^verbatim>\<open>memchr\<close> finds the first occurrence of the low byte of the character.\<close>

lemma memchr_finds_first:
  assumes "holds m p bs" "length bs < 2 ^ 64"
  shows "memchr m p ch (of_nat (length bs)) =
    Some (case find (\<lambda>i. bs ! i = ucast ch) [0..<length bs] of Some i \<Rightarrow> idx p i | None \<Rightarrow> 0)"
proof -
  have "find_in [0..<length bs] (\<lambda>i. do { b \<leftarrow> m (idx p i); Some (b = ucast ch) }) =
      Some (find (\<lambda>i. bs ! i = ucast ch) [0..<length bs])"
    by (rule find_in_total) (use assms(1) in \<open>simp add: holds_def\<close>)
  then show ?thesis by (simp add: memchr_def unat_of_nat_u64 [OF assms(2)] split: option.split)
qed

end
