(* ===== verification/Rlibc_Str.thy ===== *)
theory Rlibc_Str
  imports Rlibc_Mem
begin

text \<open>
  The string functions of the C library (\<^verbatim>\<open>src/rlibc/src/cstr.rs\<close>) on the memory of
  \<^verbatim>\<open>Rlibc_Mem\<close>. \<^verbatim>\<open>strlen\<close> is a loop with no bound, \<open>partial_function\<close> in the option monad:
  \<open>None\<close> is a read outside the mapped memory or a loop that never ends. The global
  \<^verbatim>\<open>STRTOK_STR\<close> is passed and returned.
\<close>

section \<open>The functions\<close>

partial_function (option) strlen_from :: "memory \<Rightarrow> u64 \<Rightarrow> u64 \<Rightarrow> u64 option" where
  "strlen_from m str sz = do {
     c \<leftarrow> m (str + sz);
     if c \<noteq> 0 then strlen_from m str (sz + 1) else Some sz }"

declare strlen_from.simps [code]

definition strlen :: "memory \<Rightarrow> u64 \<Rightarrow> u64 option" where
  "strlen m str = strlen_from m str 0"

definition strchr :: "memory \<Rightarrow> u64 \<Rightarrow> u32 \<Rightarrow> u64 option" where
  "strchr m str ch = do {
     len \<leftarrow> strlen m str;
     hit \<leftarrow> find_in [0..<unat len + 1] (\<lambda>i. do { c \<leftarrow> m (idx str i); Some (c = ucast ch) });
     (case hit of
        Some i \<Rightarrow> Some (idx str i)
      | None \<Rightarrow> Some 0) }"

definition is_delim :: "memory \<Rightarrow> u64 \<Rightarrow> nat \<Rightarrow> u64 \<Rightarrow> bool option" where
  "is_delim m delim delim_len p = do {
     hit \<leftarrow> find_in [0..<delim_len] (\<lambda>j. do { c \<leftarrow> m p; d \<leftarrow> m (idx delim j); Some (c = d) });
     Some (hit \<noteq> None) }"

definition strtok ::
  "memory \<Rightarrow> u64 \<Rightarrow> u64 \<Rightarrow> u64 \<Rightarrow> (u64 \<times> memory \<times> u64) option" where
  "strtok m STRTOK_STR str delim =
     (if str = 0 \<and> STRTOK_STR = 0 then Some (0, m, STRTOK_STR)
      else do {
        let str = (if str = 0 then STRTOK_STR else str);
        str_len \<leftarrow> strlen m str;
        delim_len \<leftarrow> strlen m delim;
        token_start \<leftarrow> find_in [0..<unat str_len]
          (\<lambda>i. map_option Not (is_delim m delim (unat delim_len) (idx str i)));
        (case token_start of
           None \<Rightarrow> Some (0, m, STRTOK_STR)
         | Some token_start \<Rightarrow> do {
             token_end \<leftarrow> find_in [token_start..<unat str_len]
               (\<lambda>i. is_delim m delim (unat delim_len) (idx str i));
             (case token_end of
                None \<Rightarrow> Some (idx str token_start, m, 0)
              | Some token_end \<Rightarrow> do {
                  m \<leftarrow> store_byte m (idx str token_end) 0;
                  Some (idx str token_start, m, idx str (token_end + 1)) }) }) })"

definition strcmp :: "memory \<Rightarrow> u64 \<Rightarrow> u64 \<Rightarrow> u32 option" where
  "strcmp m str1 str2 = do {
     len_1 \<leftarrow> strlen m str1;
     len_2 \<leftarrow> strlen m str2;
     if len_1 = 0 \<and> len_2 \<noteq> 0 then Some (- 1)
     else if len_1 \<noteq> 0 \<and> len_2 = 0 then Some (- 1)
     else memcmp m str1 str2 (min len_1 len_2) }"

text \<open>
  The loop of \<^verbatim>\<open>strstr\<close> over the positions \<^verbatim>\<open>i\<close>; \<open>Some None\<close> is the \<^verbatim>\<open>break\<close> or the end of
  the range.
\<close>

primrec strstr_scan :: "nat list \<Rightarrow> memory \<Rightarrow> u64 \<Rightarrow> u64 \<Rightarrow> u64 \<Rightarrow> u64 \<Rightarrow> nat option option" where
  "strstr_scan [] m str str_len substr substr_len = Some None"
| "strstr_scan (i # is) m str str_len substr substr_len =
     (if of_nat i + substr_len - 1 \<ge> str_len then Some None
      else do {
        r \<leftarrow> memcmp m (idx str i) substr substr_len;
        if r = 0 then Some (Some i) else strstr_scan is m str str_len substr substr_len })"

definition strstr :: "memory \<Rightarrow> u64 \<Rightarrow> u64 \<Rightarrow> u64 option" where
  "strstr m str substr = do {
     str_len \<leftarrow> strlen m str;
     substr_len \<leftarrow> strlen m substr;
     hit \<leftarrow> strstr_scan [0..<unat str_len] m str str_len substr substr_len;
     (case hit of
        Some i \<Rightarrow> Some (idx str i)
      | None \<Rightarrow> Some 0) }"

definition strncpy :: "memory \<Rightarrow> u64 \<Rightarrow> u64 \<Rightarrow> u64 \<Rightarrow> (u64 \<times> memory) option" where
  "strncpy m dest src cnt = do {
     len \<leftarrow> strlen m src;
     let src_len = len + 1;
     if src_len \<ge> cnt then do {
       (_, m) \<leftarrow> memcpy m dest src cnt;
       Some (dest, m) }
     else do {
       (_, m) \<leftarrow> memcpy m dest src src_len;
       (_, m) \<leftarrow> memset m (dest + src_len) 0 (cnt - src_len);
       Some (dest, m) } }"

definition strcpy :: "memory \<Rightarrow> u64 \<Rightarrow> u64 \<Rightarrow> (u64 \<times> memory) option" where
  "strcpy m dest src = do {
     len \<leftarrow> strlen m src;
     memcpy m dest src (len + 1) }"

definition strcat :: "memory \<Rightarrow> u64 \<Rightarrow> u64 \<Rightarrow> (u64 \<times> memory) option" where
  "strcat m dest src = do {
     len \<leftarrow> strlen m dest;
     strcpy m (dest + len) src }"

definition isspace :: "u32 \<Rightarrow> u32" where
  "isspace ch = (if ch \<in> {0x20, 0x0c, 0x0a, 0x0d, 0x09, 0x0b} then 1 else 0)"

definition isdigit :: "u32 \<Rightarrow> u32" where
  "isdigit ch = (let c = ucast ch :: u8 in if 0x30 \<le> c \<and> c \<le> 0x39 then 1 else 0)"

section \<open>Strings in memory\<close>

definition cstring :: "memory \<Rightarrow> u64 \<Rightarrow> u8 list \<Rightarrow> bool" where
  "cstring m p s \<longleftrightarrow> holds m p (s @ [0]) \<and> 0 \<notin> set s"

lemma cstring_at:
  assumes "cstring m p s"
  shows "i < length s \<Longrightarrow> m (idx p i) = Some (s ! i)" "i < length s \<Longrightarrow> s ! i \<noteq> 0"
    "m (idx p (length s)) = Some 0"
  using assms by (auto simp: cstring_def holds_def nth_append less_Suc_eq in_set_conv_nth)

lemma cstring_length:
  assumes "cstring m p s"
  shows "length s < 2 ^ 64"
proof (rule ccontr)
  assume "\<not> ?thesis"
  then have le: "2 ^ 64 \<le> length s" by simp
  then obtain k where k: "length s = 2 ^ 64 + k" by (metis le_Suc_ex)
  have "(of_nat (length s) :: u64) = of_nat k" unfolding k by simp
  then have "m (idx p k) = Some 0" using cstring_at(3) [OF assms] by simp
  moreover have "k < length s" using k by simp
  ultimately show False using cstring_at(1,2) [OF assms, of k] by simp
qed

lemma strlen_from_cstring:
  assumes "cstring m p s" "i \<le> length s"
  shows "strlen_from m p (of_nat i) = Some (of_nat (length s))"
  using assms(2)
proof (induction i rule: inc_induct)
  case base
  then show ?case by (simp add: strlen_from.simps [of m p] cstring_at(3) [OF assms(1)])
next
  case (step i)
  then show ?case
    using cstring_at(1,2) [OF assms(1) step(2)]
    by (simp add: strlen_from.simps [of m p "of_nat i"] add.commute)
qed

lemma strlen_cstring: "cstring m p s \<Longrightarrow> strlen m p = Some (of_nat (length s))"
  using strlen_from_cstring [of m p s 0] by (simp add: strlen_def)

lemma unat_strlen: "cstring m p s \<Longrightarrow> unat (of_nat (length s) :: u64) = length s"
  by (rule unat_of_nat_u64 [OF cstring_length])

lemma cstring_holds: "cstring m p s \<Longrightarrow> holds m p s"
  by (simp add: holds_def cstring_at)

lemma holds_take: "holds m p bs \<Longrightarrow> holds m p (take n bs)"
  by (simp add: holds_def)

lemma holds_drop: "holds m p bs \<Longrightarrow> holds m (idx p n) (drop n bs)"
  by (cases "n \<le> length bs") (auto simp: holds_def add.assoc less_diff_conv simp flip: of_nat_add
      intro: add.commute)

section \<open>Comparing strings\<close>

lemma scast_inject: "(scast a :: u32) = scast b \<longleftrightarrow> a = b" for a b :: u8
proof
  assume "(scast a :: u32) = scast b"
  then have "sint (scast a :: u32) = sint (scast b :: u32)" by simp
  then have "sint a = sint b" by (simp add: sint_scast_up)
  then show "a = b" by (rule signed_word_eqI)
qed simp

lemma compare_bytes_0: "length as = length bs \<Longrightarrow> compare_bytes as bs = 0 \<longleftrightarrow> as = bs"
  by (induction as bs rule: list_induct2) (auto simp: scast_inject)

text \<open>
  What \<^verbatim>\<open>strcmp\<close> decides: the first difference within the shorter string as signed
  characters, and \<open>-1\<close> when exactly one string is empty. It reports two strings as equal exactly
  when one is a prefix of the other and both are empty or neither is; a proper extension such as
  \<^verbatim>\<open>ab\<close> and \<^verbatim>\<open>abc\<close> compares equal, against the C standard.
\<close>

theorem strcmp_equal_on_prefixes:
  assumes "cstring m p s" and "cstring m q t"
  shows "\<exists>r. strcmp m p q = Some r \<and>
    (r = 0 \<longleftrightarrow> (s = [] \<longleftrightarrow> t = []) \<and> take (min (length s) (length t)) s = take (min (length s) (length t)) t)"
proof -
  let ?n = "min (length s) (length t)"
  note len = strlen_cstring [OF assms(1)] strlen_cstring [OF assms(2)]
  note un = unat_strlen [OF assms(1)] unat_strlen [OF assms(2)]
  have z: "(of_nat (length s) :: u64) = 0 \<longleftrightarrow> s = []" "(of_nat (length t) :: u64) = 0 \<longleftrightarrow> t = []"
    unfolding unat_eq_0 [symmetric] un by simp_all
  have mn: "min (of_nat (length s) :: u64) (of_nat (length t)) = of_nat ?n"
    by (simp add: min_def word_le_nat_alt un)
  have "memcmp m p q (of_nat (length (take ?n s))) = Some (compare_bytes (take ?n s) (take ?n t))"
    using cstring_length [OF assms(1)]
    by (intro memcmp_correct holds_take cstring_holds assms) auto
  then have mc: "memcmp m p q (of_nat ?n) = Some (compare_bytes (take ?n s) (take ?n t))" by simp
  show ?thesis
  proof (cases "s = [] \<longleftrightarrow> t = []")
    case True
    then have "strcmp m p q = Some (compare_bytes (take ?n s) (take ?n t))"
      using mc by (auto simp: strcmp_def len z mn)
    with True show ?thesis by (simp add: compare_bytes_0)
  next
    case False
    then show ?thesis by (auto simp: strcmp_def len z)
  qed
qed

definition string_memory :: "(u64 \<times> string) list \<Rightarrow> memory" where
  "string_memory ss a = (case find (\<lambda>(p, s). a - p < of_nat (length s) + 1) ss of
     Some (p, s) \<Rightarrow> Some (if a - p = of_nat (length s) then 0 else of_char (s ! unat (a - p)))
   | None \<Rightarrow> None)"

lemma cstring_code [code]: "cstring m p s \<longleftrightarrow> holds m p (s @ [0]) \<and> \<not> List.member s 0"
  by (simp add: cstring_def)

theorem strcmp_equal_on_prefixes_witness:
  "(\<exists>r. strcmp (string_memory [(16, ''ab''), (32, ''abc'')]) 16 32 = Some r \<and> r = 0)
   \<and> (\<exists>r. strcmp (string_memory [(16, ''ab''), (32, ''b'')]) 16 32 = Some r \<and> r \<noteq> 0)"
proof -
  have "cstring (string_memory [(16, ''ab''), (32, ''abc'')]) 16 [97, 98]"
    "cstring (string_memory [(16, ''ab''), (32, ''abc'')]) 32 [97, 98, 99]"
    "cstring (string_memory [(16, ''ab''), (32, ''b'')]) 16 [97, 98]"
    "cstring (string_memory [(16, ''ab''), (32, ''b'')]) 32 [98]"
    by code_simp+
  then show ?thesis
    using strcmp_equal_on_prefixes [of "string_memory [(16, ''ab''), (32, ''abc'')]" 16 "[97, 98]" 32 "[97, 98, 99]"]
      strcmp_equal_on_prefixes [of "string_memory [(16, ''ab''), (32, ''b'')]" 16 "[97, 98]" 32 "[98]"]
    by auto
qed

section \<open>Searching\<close>

definition occurs_at :: "u8 list \<Rightarrow> u8 list \<Rightarrow> nat \<Rightarrow> bool" where
  "occurs_at sub s i \<longleftrightarrow> i + length sub \<le> length s \<and> take (length sub) (drop i s) = sub"

lemma strstr_scan_correct:
  assumes "cstring m p s" "cstring m q sub" "sub \<noteq> []" "length s + length sub < 2 ^ 64"
  shows "i \<le> length s \<Longrightarrow>
    strstr_scan [i..<length s] m p (of_nat (length s)) q (of_nat (length sub))
      = Some (find (occurs_at sub s) [i..<length s])"
proof (induction i rule: inc_induct)
  case (step i)
  have pos: "0 < length sub" using assms(3) by simp
  note un = unat_strlen [OF assms(1)] unat_strlen [OF assms(2)]
  have e: "(of_nat i + of_nat (length sub) - 1 :: u64) = of_nat (i + length sub - 1)"
    using pos by (metis Suc_pred' add_diff_cancel_left' add_gr_0 of_nat_Suc of_nat_add)
  have u: "unat (of_nat (i + length sub - 1) :: u64) = i + length sub - 1"
    using assms(4) step(2) by (intro unat_of_nat_u64) simp
  have brk: "(of_nat (length s) :: u64) \<le> of_nat i + of_nat (length sub) - 1 \<longleftrightarrow>
      length s < i + length sub"
    unfolding e word_le_nat_alt un u using pos by linarith
  have upt: "[i..<length s] = i # [Suc i..<length s]" using step(2) by (rule upt_conv_Cons)
  show ?case
  proof (cases "length s < i + length sub")
    case True
    then have "find (occurs_at sub s) [i..<length s] = None"
      by (auto simp: find_None_iff occurs_at_def)
    with True show ?thesis by (simp add: upt brk)
  next
    case False
    let ?w = "take (length sub) (drop i s)"
    have len: "length ?w = length sub" using False by simp
    have "memcmp m (idx p i) q (of_nat (length ?w)) = Some (compare_bytes ?w sub)"
      by (intro memcmp_correct holds_take holds_drop cstring_holds assms)
        (use len cstring_length [OF assms(2)] in auto)
    then have "memcmp m (idx p i) q (of_nat (length sub)) = Some (compare_bytes ?w sub)"
      by (simp only: len)
    with False step(3) compare_bytes_0 [OF len] show ?thesis
      by (auto simp: upt brk occurs_at_def)
  qed
qed simp

text \<open>
  \<^verbatim>\<open>strstr\<close> finds the first occurrence: for a substring that is not empty it returns the
  address of the first position where it occurs, and null when there is none. For the empty
  substring it returns null, where its comment promises the string itself: \<^verbatim>\<open>i + substr_len - 1\<close>
  wraps around to the largest number and the loop breaks at once.
\<close>

theorem strstr_correct:
  assumes "cstring m p s" and "cstring m q sub" and "length s + length sub < 2 ^ 64"
  shows "strstr m p q = Some (if sub = [] then 0 else
    case find (occurs_at sub s) [0..<length s] of Some i \<Rightarrow> idx p i | None \<Rightarrow> 0)"
proof (cases "sub = []")
  case True
  have "strstr_scan [0..<length s] m p (of_nat (length s)) q 0 = Some None"
    by (cases "length s") (simp_all add: upt_conv_Cons del: upt_Suc)
  then show ?thesis
    using True strlen_cstring [OF assms(1)] strlen_cstring [OF assms(2)] unat_strlen [OF assms(1)]
    by (simp add: strstr_def)
next
  case False
  then show ?thesis
    using strstr_scan_correct [OF assms(1,2) False assms(3), of 0]
      strlen_cstring [OF assms(1)] strlen_cstring [OF assms(2)] unat_strlen [OF assms(1)]
    by (simp add: strstr_def split: option.split)
qed

theorem strstr_correct_witness:
  "strstr (string_memory [(16, ''banana''), (32, ''ana'')]) 16 32 = Some 17
   \<and> strstr (string_memory [(16, ''banana''), (32, [])]) 16 32 = Some 0"
proof -
  have h: "cstring (string_memory [(16, ''banana''), (32, ''ana'')]) 16 [98, 97, 110, 97, 110, 97]"
    "cstring (string_memory [(16, ''banana''), (32, ''ana'')]) 32 [97, 110, 97]"
    "cstring (string_memory [(16, ''banana''), (32, [])]) 16 [98, 97, 110, 97, 110, 97]"
    "cstring (string_memory [(16, ''banana''), (32, [])]) 32 []"
    by code_simp+
  have f: "find (occurs_at [97, 110, 97] [98, 97, 110, 97, 110, 97]) [0..<length [98, 97, 110, 97, 110, 97::u8]] = Some 1"
    by code_simp
  show ?thesis
    using strstr_correct [OF h(1,2)] strstr_correct [OF h(3,4)] unfolding f by simp
qed

lemma strchr_finds_first:
  assumes "cstring m p s" "length s + 1 < 2 ^ 64"
  shows "strchr m p ch =
    Some (case find (\<lambda>i. (s @ [0]) ! i = ucast ch) [0..<length s + 1] of Some i \<Rightarrow> idx p i | None \<Rightarrow> 0)"
proof -
  have "holds m p (s @ [0])" using assms(1) by (simp add: cstring_def)
  then have "find_in [0..<length s + 1] (\<lambda>i. do { c \<leftarrow> m (idx p i); Some (c = ucast ch) })
      = Some (find (\<lambda>i. (s @ [0]) ! i = ucast ch) [0..<length s + 1])"
    by (intro find_in_total) (auto simp: holds_def less_Suc_eq)
  then show ?thesis
    using strlen_cstring [OF assms(1)] unat_strlen [OF assms(1)]
    by (simp add: strchr_def del: upt_Suc split: option.split)
qed

section \<open>Copying strings\<close>

lemma strcpy_writes:
  assumes "cstring m src s" "mapped m dest (length s + 1)" "length s + 1 < 2 ^ 64"
    and "\<forall>i \<le> length s. length s < unat (idx src i - dest)"
  shows "strcpy m dest src = Some (dest, overwrite m dest (s @ [0]))"
proof -
  have "holds m src (s @ [0])" using assms(1) by (simp add: cstring_def)
  moreover have "forward_safe dest src (length (s @ [0]))"
    using assms(4) by (intro disjoint_forward_safe) (auto simp: Suc_le_eq less_Suc_eq_le)
  ultimately have "memcpy m dest src (of_nat (length (s @ [0]))) = Some (dest, overwrite m dest (s @ [0]))"
    using assms(2,3) by (intro memcpy_forward) simp_all
  then show ?thesis using strlen_cstring [OF assms(1)] by (simp add: strcpy_def add.commute)
qed

text \<open>
  \<^verbatim>\<open>strcat\<close> concatenates: with room behind the destination string that does not overlap the
  source, the destination afterwards is the concatenation of both strings, nul-terminated, and
  the bytes outside of the written range are unchanged. It returns a pointer to the old end of
  the destination, not the destination itself.
\<close>

theorem strcat_correct:
  assumes "cstring m dest d" and "cstring m src s"
    and "mapped m (idx dest (length d)) (length s + 1)" and "length d + length s + 1 < 2 ^ 64"
    and "\<forall>i \<le> length s. length s < unat (idx src i - idx dest (length d))"
  shows "strcat m dest src = Some (idx dest (length d), overwrite m (idx dest (length d)) (s @ [0]))
    \<and> cstring (overwrite m (idx dest (length d)) (s @ [0])) dest (d @ s)"
proof
  have "strcpy m (idx dest (length d)) src = Some (idx dest (length d), overwrite m (idx dest (length d)) (s @ [0]))"
    using assms by (intro strcpy_writes) auto
  then show "strcat m dest src = Some (idx dest (length d), overwrite m (idx dest (length d)) (s @ [0]))"
    using strlen_cstring [OF assms(1)] by (simp add: strcat_def)
  let ?m = "overwrite m (idx dest (length d)) (s @ [0])"
  have old: "?m (idx dest i) = Some (d ! i)" if "i < length d" for i
  proof -
    have e: "idx dest i - idx dest (length d) = - of_nat (length d - i)"
      using that by (simp add: of_nat_diff)
    have u: "unat (of_nat (length d - i) :: u64) = length d - i"
      using assms(4) by (intro unat_of_nat_u64) simp
    then have "(of_nat (length d - i) :: u64) \<noteq> 0" using that by (metis unat_0 diff_is_0_eq not_less)
    then have "unat (- of_nat (length d - i) :: u64) = 2 ^ 64 - (length d - i)"
      using unat_diff_down [of 0 "of_nat (length d - i)"] by (simp add: word_gt_0 u)
    with assms(4) have "\<not> unat (idx dest i - idx dest (length d)) < length (s @ [0])"
      unfolding e by simp
    with cstring_at(1) [OF assms(1) that] show ?thesis by (simp add: overwrite_def)
  qed
  have new: "?m (idx dest (length d + j)) = Some ((s @ [0]) ! j)" if "j < length (s @ [0])" for j
  proof -
    have "idx dest (length d + j) - idx dest (length d) = of_nat j" by simp
    moreover have "unat (of_nat j :: u64) = j" using that assms(4) by (intro unat_of_nat_u64) simp
    ultimately show ?thesis using that by (simp add: overwrite_def)
  qed
  have "?m (idx dest i) = Some ((d @ s @ [0]) ! i)" if "i < length (d @ s @ [0])" for i
  proof (cases "i < length d")
    case False
    then show ?thesis using new [of "i - length d"] that by (simp add: nth_append)
  qed (simp add: old nth_append)
  then show "cstring ?m dest (d @ s)"
    using assms(1,2) by (auto simp: cstring_def holds_def)
qed

theorem strcat_correct_witness:
  "strcat (string_memory [(16, ''ab''), (19, ''....''), (48, ''cd'')]) 16 48 =
      Some (18, overwrite (string_memory [(16, ''ab''), (19, ''....''), (48, ''cd'')]) 18 [99, 100, 0])
   \<and> cstring (overwrite (string_memory [(16, ''ab''), (19, ''....''), (48, ''cd'')]) 18 [99, 100, 0]) 16
       [97, 98, 99, 100]"
proof -
  let ?m = "string_memory [(16, ''ab''), (19, ''....''), (48, ''cd'')]"
  have h: "cstring ?m 16 [97, 98]" "cstring ?m 48 [99, 100]" "mapped ?m (idx 16 (length [97, 98::u8])) (length [99, 100::u8] + 1)"
    by code_simp+
  have "\<forall>i \<le> length [99, 100::u8]. length [99, 100::u8] < unat (idx 48 i - idx 16 (length [97, 98::u8]))"
    by (simp add: le_Suc_eq)
  from strcat_correct [OF h _ this] show ?thesis by simp
qed

lemma strncpy_truncates:
  assumes "cstring m src s" "n \<le> length s" "mapped m dest n"
    and "\<forall>i < n. n \<le> unat (idx src i - dest)" "length s + 1 < 2 ^ 64"
  shows "strncpy m dest src (of_nat n) = Some (dest, overwrite m dest (take n s))"
proof -
  have "memcpy m dest src (of_nat (length (take n s))) = Some (dest, overwrite m dest (take n s))"
    using assms by (intro memcpy_forward disjoint_forward_safe holds_take cstring_holds) auto
  moreover have "unat (of_nat n :: u64) = n" "unat (of_nat (length s) + 1 :: u64) = length s + 1"
    using assms(2,5) unat_of_nat_u64 [of "length s + 1"] unat_of_nat_u64 [of n]
    by (simp_all add: add.commute)
  then have "(of_nat n :: u64) \<le> of_nat (length s) + 1" using assms(2) by (simp add: word_le_nat_alt)
  ultimately show ?thesis
    using strlen_cstring [OF assms(1)] assms(2) by (simp add: strncpy_def Let_def min_absorb2)
qed

section \<open>Tokens\<close>

lemma find_map_option: "find P (map f xs) = map_option f (find (\<lambda>x. P (f x)) xs)"
  by (induction xs) auto

lemma find_takeWhile:
  "find (\<lambda>i. P (s ! i)) [0..<length s] =
     (if \<exists>x \<in> set s. P x then Some (length (takeWhile (\<lambda>x. \<not> P x) s)) else None)"
proof (induction s)
  case (Cons x s)
  have "[0..<length (x # s)] = 0 # map Suc [0..<length s]"
    by (simp add: upt_conv_Cons map_Suc_upt del: upt_Suc)
  with Cons show ?case by (auto simp: find_map_option simp del: upt_Suc)
qed simp

lemma find_from_takeWhile:
  "find (\<lambda>i. P (s ! i)) [k..<length s] =
     (if \<exists>x \<in> set (drop k s). P x then Some (k + length (takeWhile (\<lambda>x. \<not> P x) (drop k s))) else None)"
proof (cases "k \<le> length s")
  case True
  have "[k..<length s] = map (\<lambda>i. i + k) [0..<length (drop k s)]"
    using True by (simp add: map_add_upt)
  moreover have "find (\<lambda>i. P (s ! (i + k))) [0..<length (drop k s)] =
      find (\<lambda>i. P (drop k s ! i)) [0..<length (drop k s)]"
    using True by (simp add: add.commute)
  ultimately show ?thesis by (simp add: find_map_option find_takeWhile del: length_drop)
qed simp

lemma is_delim_cstring:
  assumes "cstring m delim ds" "m p = Some c"
  shows "is_delim m delim (length ds) p = Some (c \<in> set ds)"
proof -
  have "find_in [0..<length ds] (\<lambda>j. do { c \<leftarrow> m p; d \<leftarrow> m (idx delim j); Some (c = d) })
      = Some (find (\<lambda>j. c = ds ! j) [0..<length ds])"
    using assms by (intro find_in_total) (simp add: cstring_at)
  moreover have "find (\<lambda>j. c = ds ! j) [0..<length ds] \<noteq> None \<longleftrightarrow> c \<in> set ds"
    by (auto simp: find_None_iff in_set_conv_nth)
  ultimately show ?thesis by (simp add: is_delim_def)
qed

lemma cstring_suffix: "cstring m p (s @ t) \<Longrightarrow> cstring m (idx p (length s)) t"
  using holds_drop [of m p "s @ t @ [0]" "length s"] by (simp add: cstring_def)

lemma idx_inject:
  assumes "i < 2 ^ 64" "j < 2 ^ 64"
  shows "idx p i = idx p j \<longleftrightarrow> i = j"
  using unat_of_nat_u64 [OF assms(1)] unat_of_nat_u64 [OF assms(2)] by (metis add_left_imp_eq)

text \<open>The two scans of \<^verbatim>\<open>strtok\<close>.\<close>

lemma strtok_scans:
  assumes "cstring m p s" "cstring m delim ds" "s = skipped @ token @ tail"
    and "set skipped \<subseteq> set ds" "set token \<inter> set ds = {}" "tail = [] \<or> (token \<noteq> [] \<and> hd tail \<in> set ds)"
  shows "find_in [0..<length s] (\<lambda>i. map_option Not (is_delim m delim (length ds) (idx p i)))
      = Some (if token = [] then None else Some (length skipped))"
    and "find_in [length skipped..<length s] (\<lambda>i. is_delim m delim (length ds) (idx p i))
      = Some (if tail = [] then None else Some (length skipped + length token))"
proof -
  have delim: "is_delim m delim (length ds) (idx p i) = Some (s ! i \<in> set ds)" if "i < length s" for i
    using assms(1,2) that by (simp add: is_delim_cstring cstring_at)
  have "find_in [0..<length s] (\<lambda>i. map_option Not (is_delim m delim (length ds) (idx p i)))
      = Some (find (\<lambda>i. s ! i \<notin> set ds) [0..<length s])"
    by (rule find_in_total) (simp add: delim)
  moreover have "takeWhile (\<lambda>x. \<not> x \<notin> set ds) s = skipped" if "token \<noteq> []"
  proof -
    have "\<forall>x \<in> set skipped. x \<in> set ds" using assms(4) by auto
    then show ?thesis using that assms(3,5) by (cases token) (simp_all add: takeWhile_append2)
  qed
  moreover have "(\<exists>x \<in> set s. x \<notin> set ds) \<longleftrightarrow> token \<noteq> []"
    using assms(3-6) by (cases token) auto
  ultimately show "find_in [0..<length s] (\<lambda>i. map_option Not (is_delim m delim (length ds) (idx p i)))
      = Some (if token = [] then None else Some (length skipped))"
    by (simp add: find_takeWhile [of "\<lambda>x. x \<notin> set ds"])
  have "find_in [length skipped..<length s] (\<lambda>i. is_delim m delim (length ds) (idx p i))
      = Some (find (\<lambda>i. s ! i \<in> set ds) [length skipped..<length s])"
    by (rule find_in_total) (simp add: delim)
  moreover have "drop (length skipped) s = token @ tail" using assms(3) by simp
  moreover have "(\<exists>x \<in> set (token @ tail). x \<in> set ds) \<longleftrightarrow> tail \<noteq> []"
    using assms(5,6) by (cases tail) auto
  moreover have "takeWhile (\<lambda>x. x \<notin> set ds) (token @ tail) = token" if "tail \<noteq> []"
  proof -
    have "\<forall>x \<in> set token. x \<notin> set ds" using assms(5) by auto
    then show ?thesis using that assms(6) by (cases tail) (simp_all add: takeWhile_append2)
  qed
  ultimately show "find_in [length skipped..<length s] (\<lambda>i. is_delim m delim (length ds) (idx p i))
      = Some (if tail = [] then None else Some (length skipped + length token))"
    by (simp add: find_from_takeWhile [of "\<lambda>x. x \<in> set ds"])
qed

lemma strtok_on_cstring:
  assumes "cstring m p s" "cstring m delim ds" "p \<noteq> 0"
  shows "strtok m saved p delim = do {
     token_start \<leftarrow> find_in [0..<length s] (\<lambda>i. map_option Not (is_delim m delim (length ds) (idx p i)));
     (case token_start of
        None \<Rightarrow> Some (0, m, saved)
      | Some token_start \<Rightarrow> do {
          token_end \<leftarrow> find_in [token_start..<length s] (\<lambda>i. is_delim m delim (length ds) (idx p i));
          (case token_end of
             None \<Rightarrow> Some (idx p token_start, m, 0)
           | Some token_end \<Rightarrow> do {
               m \<leftarrow> store_byte m (idx p token_end) 0;
               Some (idx p token_start, m, idx p (token_end + 1)) }) }) }"
proof -
  have "(p = 0) = False" using assms(3) by simp
  then show ?thesis
    unfolding strtok_def by (simp only: simp_thms if_False Let_def Option.bind.bind_lunit
      strlen_cstring [OF assms(1)] strlen_cstring [OF assms(2)]
      unat_strlen [OF assms(1)] unat_strlen [OF assms(2)])
qed

text \<open>
  (C33) \<^verbatim>\<open>strtok\<close> splits off one token: it skips the delimiters at the front of the string; when
  nothing is left it returns null; otherwise it returns the address of the first character that
  is no delimiter, a nul-terminated token without delimiters is there afterwards, and the saved
  pointer is null when the string ends with the token and otherwise points to the rest of the
  string behind the delimiter, ready for the next call.
\<close>

theorem strtok_correct:
  assumes "cstring m p (skipped @ token @ tail)" and "cstring m delim ds" and "p \<noteq> 0"
    and "set skipped \<subseteq> set ds" and "set token \<inter> set ds = {}"
    and "tail = [] \<or> (token \<noteq> [] \<and> hd tail \<in> set ds)"
  shows "if token = [] then strtok m saved p delim = Some (0, m, saved)
    else if tail = [] then strtok m saved p delim = Some (idx p (length skipped), m, 0)
      \<and> cstring m (idx p (length skipped)) token
    else \<exists>m'. strtok m saved p delim =
        Some (idx p (length skipped), m', idx p (length skipped + length token + 1))
      \<and> cstring m' (idx p (length skipped)) token
      \<and> cstring m' (idx p (length skipped + length token + 1)) (tl tail)"
proof -
  let ?s = "skipped @ token @ tail"
  note scans = strtok_scans [OF assms(1,2) refl assms(4-6)]
  have empty: "strtok m saved p delim = Some (0, m, saved)" if "token = []"
    unfolding strtok_on_cstring [OF assms(1-3)] scans(1) using that by simp
  have found: "strtok m saved p delim = (case (if tail = [] then None else Some (length skipped + length token)) of
      None \<Rightarrow> Some (idx p (length skipped), m, 0)
    | Some e \<Rightarrow> do { m \<leftarrow> store_byte m (idx p e) 0; Some (idx p (length skipped), m, idx p (e + 1)) })"
    if "token \<noteq> []"
  proof -
    have "(token = []) = False" using that by simp
    then show ?thesis
      unfolding strtok_on_cstring [OF assms(1-3)] scans(1)
      by (simp only: if_False Option.bind.bind_lunit option.case scans(2))
  qed
  have tok: "cstring m (idx p (length skipped)) (token @ tail)" using assms(1) by (rule cstring_suffix)
  show ?thesis
  proof (cases "token = [] \<or> tail = []")
    case True
    then show ?thesis using tok empty found by auto
  next
    case False
    let ?e = "length skipped + length token"
    let ?m = "m(idx p ?e \<mapsto> 0)"
    have "?e < length ?s" using False by simp
    then have "m (idx p ?e) = Some (?s ! ?e)" by (rule cstring_at(1) [OF assms(1)])
    then have "store_byte m (idx p ?e) 0 = Some ?m" by (simp add: store_byte_def)
    then have run: "strtok m saved p delim = Some (idx p (length skipped), ?m, idx p (?e + 1))"
      using False found by simp
    have other: "?m (idx p i) = m (idx p i)" if "i \<noteq> ?e" "i \<le> length ?s" for i
      using that idx_inject [of i ?e p] cstring_length [OF assms(1)] \<open>?e < length ?s\<close> by simp
    have at: "m (idx p i) = Some ((?s @ [0]) ! i)" if "i \<le> length ?s" for i
      using assms(1) that unfolding cstring_def holds_def by simp
    have "?m (idx p (length skipped + i)) = Some ((token @ [0]) ! i)" if "i \<le> length token" for i
      using that other [of "length skipped + i"] at [of "length skipped + i"]
      by (cases "i = length token") (simp_all add: nth_append)
    then have "holds ?m (idx p (length skipped)) (token @ [0])"
      by (simp add: holds_def less_Suc_eq_le add.assoc)
    moreover have "?m (idx p (?e + 1 + i)) = Some ((tl tail @ [0]) ! i)" if "i \<le> length (tl tail)" for i
      using that False other [of "?e + 1 + i"] at [of "?e + 1 + i"]
      by (cases tail) (simp_all add: nth_append)
    then have "holds ?m (idx p (?e + 1)) (tl tail @ [0])"
      by (simp add: holds_def less_Suc_eq_le add.assoc)
    moreover have "0 \<notin> set token" "0 \<notin> set (tl tail)"
      using assms(1) False by (cases tail; simp add: cstring_def)+
    ultimately show ?thesis using run False by (simp add: cstring_def)
  qed
qed

theorem strtok_correct_witness:
  "\<exists>m'. strtok (string_memory [(16, '',ab,c''), (32, '','')]) 0 16 32 = Some (17, m', 20)
     \<and> cstring m' 17 [97, 98] \<and> cstring m' 20 [99]"
proof -
  let ?m = "string_memory [(16, '',ab,c''), (32, '','')]"
  have "cstring ?m 16 ([44] @ [97, 98] @ [44, 99])" "cstring ?m 32 [44]" by code_simp+
  from strtok_correct [OF this, of 0] show ?thesis by simp
qed

end
