(* ===== verification/Printf.thy ===== *)
theory Printf
  imports Printf_Spec Rlibc_Str
begin

text \<open>
  \<^verbatim>\<open>vfprintf\<close> of the C library (\<^verbatim>\<open>src/rlibc/src/lib.rs\<close>): the loop over the format string
  that drives the parser of \<^verbatim>\<open>Printf_Spec\<close> and the conversions it executes.

  The state of the loop is a record. The variable arguments are the 64-bit slots the calling
  convention passes; \<^verbatim>\<open>args.arg::<T>()\<close> takes the next slot and keeps the low bits of \<^verbatim>\<open>T\<close>.
  The system call \<^verbatim>\<open>write\<close> crosses into the kernel and is a parameter: from a file number, the
  bytes of the buffer and the state of the outside world it gives the returned count and the new
  state. \<open>None\<close> is a panic, an access outside the mapped memory or a missing argument.
\<close>

section \<open>Numbers\<close>

datatype Casing = Lower | Upper

definition digit_char :: "Casing \<Rightarrow> int \<Rightarrow> u8 option" where
  "digit_char cas d =
     (if 0 \<le> d \<and> d \<le> 9 then Some (48 + of_int d)
      else if 10 \<le> d \<and> d \<le> 15 then
        Some ((case cas of Lower \<Rightarrow> byte CHR ''a'' | Upper \<Rightarrow> byte CHR ''A'') + of_int (d - 10))
      else None)"

partial_function (option) radix_loop ::
  "Casing \<Rightarrow> int \<Rightarrow> u8 list \<Rightarrow> u64 \<Rightarrow> int \<Rightarrow> (u8 list \<times> u64) option" where
  "radix_loop cas base output_str ind n =
     (if n > 0 then do {
        last_digit_char \<leftarrow> digit_char cas (n mod base);
        output_str \<leftarrow> index_set output_str (unat ind) last_digit_char;
        radix_loop cas base output_str (ind - 1) (n div base) }
      else Some (output_str, ind))"

declare radix_loop.simps [code]

definition number_to_string_in_radix ::
  "u8 list \<Rightarrow> int \<Rightarrow> int \<Rightarrow> Casing \<Rightarrow> (u8 list \<times> u64) option" where
  "number_to_string_in_radix output_str n base cas =
     radix_loop cas base output_str (of_nat (length output_str) - 1) n"

section \<open>The format loop\<close>

record 'w format_state =
  parsing_conversion_specification :: bool
  specification_under_construction :: UnfinishedPrintfConversionSpecification
  characters_transmitted :: u32
  va_args :: "u64 list"
  user_memory :: memory
  outside :: 'w

type_synonym 'w writer = "u32 \<Rightarrow> u8 list \<Rightarrow> 'w \<Rightarrow> u64 \<times> 'w"
type_synonym 'w format_flow = "(u32 \<times> 'w format_state, 'w format_state) flow"

definition fileno :: "memory \<Rightarrow> u64 \<Rightarrow> u32 option" where
  "fileno m f = map_option from_le_bytes (load_bytes m f 4)"

definition emit :: "'w writer \<Rightarrow> u64 \<Rightarrow> u8 list \<Rightarrow> 'w format_state \<Rightarrow> 'w format_flow option" where
  "emit write f bytes s = do {
     fd \<leftarrow> fileno (user_memory s) f;
     let (bytes_written, w) = write fd bytes (outside s);
     let s = s\<lparr>outside := w\<rparr>;
     if sint bytes_written < sint (of_nat (length bytes) :: u64) then Some (Return (- 1, s))
     else Some (Fall (s\<lparr>characters_transmitted :=
       characters_transmitted s + of_nat (length bytes)\<rparr>)) }"

definition next_arg :: "'w format_state \<Rightarrow> (u64 \<times> 'w format_state) option" where
  "next_arg s = (case va_args s of
     [] \<Rightarrow> None
   | a # as \<Rightarrow> Some (a, s\<lparr>va_args := as\<rparr>))"

definition tail_from :: "u8 list \<Rightarrow> u64 \<Rightarrow> u8 list" where
  "tail_from output_str ind = drop (unat (ind + 1)) output_str"

definition print_signed :: "'w writer \<Rightarrow> u64 \<Rightarrow> 'w format_state \<Rightarrow> 'w format_flow option" where
  "print_signed write f s = do {
     (a, s) \<leftarrow> next_arg s;
     let n = (ucast a :: u32);
     let is_negative = (sint n < 0);
     let n = (if is_negative then - n else n);
     (output_str, ind) \<leftarrow> number_to_string_in_radix (replicate 11 (byte CHR ''?'')) (sint n) 10 Lower;
     (output_str, ind) \<leftarrow> (if is_negative then do {
         output_str \<leftarrow> index_set output_str (unat ind) (byte CHR ''-'');
         Some (output_str, ind - 1) }
       else Some (output_str, ind));
     emit write f (tail_from output_str ind) s }"

definition print_unsigned ::
  "'w writer \<Rightarrow> u64 \<Rightarrow> nat \<Rightarrow> int \<Rightarrow> Casing \<Rightarrow> 'w format_state \<Rightarrow> 'w format_flow option" where
  "print_unsigned write f buffer_len base cas s = do {
     (a, s) \<leftarrow> next_arg s;
     let n = (ucast a :: u32);
     (output_str, ind) \<leftarrow>
       number_to_string_in_radix (replicate buffer_len (byte CHR ''?'')) (uint n) base cas;
     emit write f (tail_from output_str ind) s }"

definition print_character :: "'w writer \<Rightarrow> u64 \<Rightarrow> 'w format_state \<Rightarrow> 'w format_flow option" where
  "print_character write f s = do {
     (a, s) \<leftarrow> next_arg s;
     emit write f [ucast a] s }"

definition print_string :: "'w writer \<Rightarrow> u64 \<Rightarrow> 'w format_state \<Rightarrow> 'w format_flow option" where
  "print_string write f s = do {
     (string_arg, s) \<leftarrow> next_arg s;
     string_arg_len \<leftarrow> strlen (user_memory s) string_arg;
     bytes \<leftarrow> load_bytes (user_memory s) string_arg (unat string_arg_len);
     emit write f bytes s }"

definition print_pointer :: "'w writer \<Rightarrow> u64 \<Rightarrow> 'w format_state \<Rightarrow> 'w format_flow option" where
  "print_pointer write f s = do {
     (n, s) \<leftarrow> next_arg s;
     (output_str, ind) \<leftarrow> number_to_string_in_radix (replicate 19 (byte CHR ''?'')) (uint n) 16 Lower;
     output_str \<leftarrow> index_set output_str (unat ind) (byte CHR ''x'');
     let ind = ind - 1;
     output_str \<leftarrow> index_set output_str (unat ind) (byte CHR ''0'');
     let ind = ind - 1;
     emit write f (tail_from output_str ind) s }"

definition store_count :: "'w format_state \<Rightarrow> 'w format_flow option" where
  "store_count s = do {
     (p, s) \<leftarrow> next_arg s;
     m \<leftarrow> for_in [0..<4]
       (\<lambda>k m. store_byte m (idx p k) (to_le_bytes (characters_transmitted s) ! k)) (user_memory s);
     Some (Fall (s\<lparr>user_memory := m\<rparr>)) }"

fun do_conversion ::
  "'w writer \<Rightarrow> u64 \<Rightarrow> ConversionSpecifier \<Rightarrow> 'w format_state \<Rightarrow> 'w format_flow option" where
  "do_conversion write f SignedDecimalInteger s = print_signed write f s"
| "do_conversion write f SignedInteger s = print_signed write f s"
| "do_conversion write f UnsignedDecimalInteger s = print_unsigned write f 10 10 Lower s"
| "do_conversion write f UnsignedOctalInteger s = print_unsigned write f 11 8 Lower s"
| "do_conversion write f UnsignedHexIntegerLowerCase s = print_unsigned write f 9 16 Lower s"
| "do_conversion write f UnsignedHexIntegerUpperCase s = print_unsigned write f 9 16 Upper s"
| "do_conversion write f Character s = print_character write f s"
| "do_conversion write f CString s = print_string write f s"
| "do_conversion write f Pointer s = print_pointer write f s"
| "do_conversion write f Escape s = emit write f [byte CHR ''%''] s"
| "do_conversion write f MetaSpecifier s = store_count s"
| "do_conversion write f _ s = None"

definition format_char :: "'w writer \<Rightarrow> u64 \<Rightarrow> u64 \<Rightarrow> nat \<Rightarrow> 'w format_state \<Rightarrow> 'w format_flow option" where
  "format_char write f format_str i s = do {
     c \<leftarrow> user_memory s (idx format_str i);
     if \<not> parsing_conversion_specification s then
       if c = byte CHR ''%'' then
         Some (Fall (s\<lparr>parsing_conversion_specification := True,
           specification_under_construction := default_printf\<rparr>))
       else emit write f [c] s
     else
       (case add_char_to_printf_specification (specification_under_construction s) c of
          Inl new \<Rightarrow> Some (Fall (s\<lparr>specification_under_construction := new\<rparr>))
        | Inr finished_specification \<Rightarrow>
            do_conversion write f (p_specifier finished_specification)
              (s\<lparr>parsing_conversion_specification := False,
                 specification_under_construction := default_printf\<rparr>)) }"

primrec format_loop :: "nat list \<Rightarrow> 'w writer \<Rightarrow> u64 \<Rightarrow> u64 \<Rightarrow> 'w format_state \<Rightarrow> 'w format_flow option"
  where
  "format_loop [] write f format_str s = Some (Fall s)"
| "format_loop (i # is) write f format_str s = do {
     r \<leftarrow> format_char write f format_str i s;
     (case r of
        Return r \<Rightarrow> Some (Return r)
      | Fall s \<Rightarrow> format_loop is write f format_str s) }"

definition vfprintf ::
  "'w writer \<Rightarrow> memory \<Rightarrow> u64 \<Rightarrow> u64 \<Rightarrow> u64 list \<Rightarrow> 'w \<Rightarrow> (u32 \<times> memory \<times> 'w) option" where
  "vfprintf write m f format_str args w = do {
     format_str_len \<leftarrow> strlen m format_str;
     r \<leftarrow> format_loop [0..<unat format_str_len] write f format_str
       \<lparr> parsing_conversion_specification = False,
         specification_under_construction = default_printf,
         characters_transmitted = 0, va_args = args, user_memory = m, outside = w \<rparr>;
     (case r of
        Return (ret, s) \<Rightarrow> Some (ret, user_memory s, outside s)
      | Fall s \<Rightarrow> Some (characters_transmitted s, user_memory s, outside s)) }"

section \<open>The text of a number\<close>

definition digit_byte_of :: "Casing \<Rightarrow> nat \<Rightarrow> u8" where
  "digit_byte_of cas d = (if d < 10 then 48 + of_nat d
     else (case cas of Lower \<Rightarrow> 97 | Upper \<Rightarrow> 65) + of_nat (d - 10))"

fun digits_in :: "Casing \<Rightarrow> nat \<Rightarrow> nat \<Rightarrow> u8 list" where
  "digits_in cas b n =
     (if n = 0 \<or> b < 2 then [] else digits_in cas b (n div b) @ [digit_byte_of cas (n mod b)])"

declare digits_in.simps [simp del]

lemma digits_in_0 [simp]: "digits_in cas b 0 = []"
  by (simp add: digits_in.simps)

lemma digits_in_step:
  "0 < n \<Longrightarrow> 2 \<le> b \<Longrightarrow> digits_in cas b n = digits_in cas b (n div b) @ [digit_byte_of cas (n mod b)]"
  by (simp add: digits_in.simps [of cas b n])

lemma digit_char_of_nat: "d < 16 \<Longrightarrow> digit_char cas (int d) = Some (digit_byte_of cas d)"
  by (cases cas) (auto simp: digit_char_def digit_byte_of_def of_nat_diff)

lemma unat_pred: "0 < j \<Longrightarrow> j \<le> 2 ^ 64 \<Longrightarrow> unat (of_nat j - 1 :: u64) = j - 1"
  using unat_of_nat_u64 [of "j - 1"] by (simp add: of_nat_diff)

lemma radix_loop_digits:
  assumes "2 \<le> b" "b \<le> 16"
  shows "length (digits_in cas b n) \<le> j \<Longrightarrow> j \<le> length buf \<Longrightarrow> length buf < 2 ^ 64 \<Longrightarrow>
    radix_loop cas (int b) buf (of_nat j - 1) (int n) =
      Some (take (j - length (digits_in cas b n)) buf @ digits_in cas b n @ drop j buf,
        of_nat (j - length (digits_in cas b n)) - 1)"
proof (induction n arbitrary: j buf rule: less_induct)
  case (less n)
  show ?case
  proof (cases "n = 0")
    case True
    then show ?thesis by (simp add: radix_loop.simps)
  next
    case False
    let ?d = "digit_byte_of cas (n mod b)" and ?ds = "digits_in cas b (n div b)"
    have dig: "digits_in cas b n = ?ds @ [?d]" using False assms by (simp add: digits_in_step)
    then have j: "0 < j" "length ?ds \<le> j - 1" using less.prems(1) by auto
    have smaller: "n div b < n" using False assms by simp
    have d: "digit_char cas (int n mod int b) = Some ?d"
    proof -
      have "n mod b < b" using assms(1) by simp
      then have "n mod b < 16" using assms(2) by linarith
      from digit_char_of_nat [OF this] show ?thesis by (simp add: zmod_int)
    qed
    have u: "unat (of_nat j - 1 :: u64) = j - 1"
      using j(1) less.prems by (intro unat_pred) auto
    let ?buf = "buf[j - 1 := ?d]"
    have "radix_loop cas (int b) ?buf (of_nat (j - 1) - 1) (int (n div b)) =
        Some (take (j - 1 - length ?ds) ?buf @ ?ds @ drop (j - 1) ?buf, of_nat (j - 1 - length ?ds) - 1)"
      using less.IH [OF smaller j(2), of ?buf] less.prems by simp
    moreover have "(of_nat j - 1 - 1 :: u64) = of_nat (j - 1) - 1" using j(1) by (simp add: of_nat_diff)
    moreover have "drop (j - 1) ?buf = ?d # drop j buf"
      using j(1) less.prems(2) Cons_nth_drop_Suc [of "j - 1" ?buf] by simp
    moreover have "take (j - 1 - length ?ds) ?buf = take (j - 1 - length ?ds) buf" by simp
    moreover have "radix_loop cas (int b) buf (of_nat j - 1) (int n) =
        radix_loop cas (int b) ?buf (of_nat j - 1 - 1) (int (n div b))"
    proof -
      have "index_set buf (unat (of_nat j - 1 :: u64)) ?d = Some ?buf"
        unfolding u using j(1) less.prems(2) by simp
      with False d show ?thesis
        by (subst radix_loop.simps) (simp only: Option.bind.bind_lunit zdiv_int of_nat_0_less_iff
            neq0_conv if_True)
    qed
    ultimately show ?thesis by (simp only: dig) simp
  qed
qed

lemma digits_in_length: "2 \<le> b \<Longrightarrow> n < b ^ k \<Longrightarrow> length (digits_in cas b n) \<le> k"
proof (induction k arbitrary: n)
  case (Suc k)
  then have "n div b < b ^ k" by (simp add: less_mult_imp_div_less mult.commute)
  with Suc show ?case by (cases "n = 0") (simp_all add: digits_in_step)
qed simp

text \<open>
  The whole of \<^verbatim>\<open>number_to_string_in_radix\<close>: with room for the digits nothing panics, and the
  bytes behind the returned index are the digits. With a buffer that is filled completely the
  index wraps around below zero, and the \<^verbatim>\<open>ind+1\<close> of the caller brings it back.
\<close>

lemma number_to_string_digits:
  assumes "2 \<le> b" "b \<le> 16" "length (digits_in cas b n) \<le> length buf" "length buf < 2 ^ 64"
  shows "number_to_string_in_radix buf (int n) (int b) cas =
      Some (take (length buf - length (digits_in cas b n)) buf @ digits_in cas b n,
        of_nat (length buf - length (digits_in cas b n)) - 1)"
  unfolding number_to_string_in_radix_def
  using radix_loop_digits [OF assms(1,2) assms(3) _ assms(4)] by simp

lemma tail_from_prefix:
  "length pre < 2 ^ 64 \<Longrightarrow> tail_from (pre @ ds) (of_nat (length pre) - 1) = ds"
  by (simp add: tail_from_def unat_of_nat_u64)

lemma print_unsigned_emits:
  assumes "2 \<le> b" "b \<le> 16" "2 ^ 32 \<le> b ^ k" "k < 2 ^ 64" "va_args s = a # as"
  shows "print_unsigned write f k (int b) cas s =
    emit write f (digits_in cas b (unat (ucast a :: u32))) (s\<lparr>va_args := as\<rparr>)"
proof -
  let ?n = "unat (ucast a :: u32)"
  have "?n < 2 ^ LENGTH(32)" by (rule unsigned_less)
  moreover have "2 ^ LENGTH(32) \<le> b ^ k" using assms(3) by (simp only: len_bit0 len_num1) simp
  ultimately have "?n < b ^ k" by (rule less_le_trans)
  then have len: "length (digits_in cas b ?n) \<le> k" by (rule digits_in_length [OF assms(1)])
  let ?pre = "take (k - length (digits_in cas b ?n)) (replicate k (63 :: u8))"
  have "number_to_string_in_radix (replicate k 63) (uint (ucast a :: u32)) (int b) cas =
      Some (?pre @ digits_in cas b ?n, of_nat (length ?pre) - 1)"
    using number_to_string_digits [OF assms(1,2), of cas ?n "replicate k 63"] len assms(4)
    unfolding uint_nat by (simp only: length_replicate length_take min_absorb2 diff_le_self)
  moreover have "tail_from (?pre @ digits_in cas b ?n) (of_nat (length ?pre) - 1) = digits_in cas b ?n"
    using assms(4) by (intro tail_from_prefix) simp
  ultimately show ?thesis using assms(5) by (simp add: print_unsigned_def next_arg_def)
qed

definition signed_text :: "u32 \<Rightarrow> u8 list" where
  "signed_text n =
     (if n = 0x80000000 then [byte CHR ''-'']
      else if sint n < 0 then byte CHR ''-'' # digits_in Lower 10 (nat (- sint n))
      else digits_in Lower 10 (nat (sint n)))"

lemma index_set_last:
  "index_set (pre @ [x] @ ds) (length pre) v = Some (pre @ [v] @ ds)"
  by (simp add: index_set_def list_update_append)

lemma sint_neg_u32:
  assumes "n \<noteq> 0x80000000"
  shows "sint (- n :: u32) = - sint n"
proof -
  have "sint n \<noteq> - (2 ^ 31)"
  proof
    assume "sint n = - (2 ^ 31)"
    then have "sint n = sint (0x80000000 :: u32)" by simp
    then have "n = 0x80000000" by (rule signed_word_eqI)
    with assms show False ..
  qed
  moreover have "- (2 ^ 31) \<le> sint n" "sint n < 2 ^ 31"
    using sint_greater_eq [of n] sint_less [of n] by simp_all
  ultimately have "- (2 ^ 31) \<le> - sint n" "- sint n < 2 ^ 31" by linarith+
  then show ?thesis by (simp add: sint_word_minus signed_take_bit_int_eq_self)
qed

lemma number_to_string_replicate:
  assumes "2 \<le> b" "b \<le> 16" "n < b ^ k" "k < 2 ^ 64"
  shows "\<exists>p. p + length (digits_in cas b n) = k \<and>
    number_to_string_in_radix (replicate k 63) (int n) (int b) cas =
      Some (replicate p 63 @ digits_in cas b n, of_nat p - 1)"
proof -
  have len: "length (digits_in cas b n) \<le> k" using digits_in_length [OF assms(1,3)] .
  then show ?thesis
    using number_to_string_digits [OF assms(1,2), of cas n "replicate k 63"] assms(4)
    by (intro exI [of _ "k - length (digits_in cas b n)"]) simp
qed

lemma put_before:
  assumes "Suc p < 2 ^ 64"
  shows "index_set (replicate (Suc p) x @ ds) (unat (of_nat (Suc p) - 1 :: u64)) c =
      Some (replicate p x @ c # ds)"
    and "(of_nat (Suc p) - 1 :: u64) - 1 = of_nat p - 1"
proof -
  have u: "unat (of_nat (Suc p) - 1 :: u64) = p" using assms by (simp add: unat_of_nat_u64)
  have "replicate (Suc p) x @ ds = replicate p x @ x # ds"
    by (metis append.assoc append_Cons append_Nil replicate_Suc replicate_append_same)
  then show "index_set (replicate (Suc p) x @ ds) (unat (of_nat (Suc p) - 1 :: u64)) c =
      Some (replicate p x @ c # ds)"
    unfolding u by (simp add: index_set_def list_update_append)
qed simp

lemma tail_from_replicate: "p < 2 ^ 64 \<Longrightarrow> tail_from (replicate p x @ ds) (of_nat p - 1) = ds"
  using tail_from_prefix [of "replicate p x" ds] by simp

lemma print_signed_emits:
  assumes "va_args s = a # as"
  shows "print_signed write f s = emit write f (signed_text (ucast a)) (s\<lparr>va_args := as\<rparr>)"
proof -
  let ?n = "ucast a :: u32"
  have bounds: "- (2 ^ 31) \<le> sint ?n" "sint ?n < 2 ^ 31"
    using sint_greater_eq [of ?n] sint_less [of ?n] by simp_all
  consider "?n = 0x80000000" | "?n \<noteq> 0x80000000" "sint ?n < 0" | "?n \<noteq> 0x80000000" "0 \<le> sint ?n"
    by linarith
  then show ?thesis
  proof cases
    case 1
    have "drop 10 ((replicate 11 (63 :: u8))[10 := 45]) = [45]" by code_simp
    with 1 show ?thesis
      using assms
      by (simp add: print_signed_def next_arg_def signed_text_def number_to_string_in_radix_def
          radix_loop.simps tail_from_def index_set_def)
  next
    case 2
    then obtain n where n: "sint (- ?n) = int n" "n < 10 ^ 10" "n = nat (- sint ?n)"
      using bounds sint_neg_u32 [of ?n] by (intro that [of "nat (- sint ?n)"]) auto
    then have "length (digits_in Lower 10 n) \<le> 10" by (intro digits_in_length) auto
    moreover obtain p where p: "p + length (digits_in Lower 10 n) = 11"
      "number_to_string_in_radix (replicate 11 63) (int n) 10 Lower =
        Some (replicate p 63 @ digits_in Lower 10 n, of_nat p - 1)"
      using number_to_string_replicate [of 10 n 11 Lower] n(2) by auto
    ultimately obtain q where q: "p = Suc q" by (cases p) auto
    then have "Suc q < 2 ^ 64" using p(1) by simp
    note put = put_before [OF this]
    have nts: "number_to_string_in_radix (replicate 11 (of_char CHR ''?'')) (sint (- ?n)) 10 Lower =
        Some (replicate (Suc q) 63 @ digits_in Lower 10 n, of_nat (Suc q) - 1)"
      using p(2) n(1) q by simp
    have "tail_from (replicate q 63 @ 45 # digits_in Lower 10 n) (of_nat q - 1) = 45 # digits_in Lower 10 n"
      using p(1) q by (intro tail_from_replicate) simp
    with 2(2) have "print_signed write f s = emit write f (45 # digits_in Lower 10 n) (s\<lparr>va_args := as\<rparr>)"
      unfolding print_signed_def next_arg_def assms
      by (simp only: list.case Option.bind.bind_lunit prod.case Let_def if_True nts put)
        (simp add: put)
    then show ?thesis using 2 n(3) by (simp add: signed_text_def)
  next
    case 3
    then obtain n where n: "sint ?n = int n" "n < 10 ^ 11"
      using bounds by (intro that [of "nat (sint ?n)"]) auto
    obtain p where p: "p + length (digits_in Lower 10 n) = 11"
      "number_to_string_in_radix (replicate 11 63) (int n) 10 Lower =
        Some (replicate p 63 @ digits_in Lower 10 n, of_nat p - 1)"
      using number_to_string_replicate [of 10 n 11 Lower] n(2) by auto
    have t: "tail_from (replicate p 63 @ digits_in Lower 10 n) (of_nat p - 1) = digits_in Lower 10 n"
      using p(1) by (intro tail_from_replicate) simp
    from 3 n p(2) t assms show ?thesis
      by (simp add: print_signed_def next_arg_def signed_text_def)
  qed
qed

lemma print_pointer_emits:
  assumes "va_args s = a # as"
  shows "print_pointer write f s =
    emit write f (map of_char ''0x'' @ digits_in Lower 16 (unat a)) (s\<lparr>va_args := as\<rparr>)"
proof -
  have "unat a < 2 ^ LENGTH(64)" by (rule unsigned_less)
  then have small: "unat a < 16 ^ 16" by simp
  then have len: "length (digits_in Lower 16 (unat a)) \<le> 16" by (intro digits_in_length) auto
  have "unat a < 16 ^ 19" using small by simp
  then have "\<exists>p. p + length (digits_in Lower 16 (unat a)) = 19 \<and>
      number_to_string_in_radix (replicate 19 63) (int (unat a)) (int 16) Lower =
        Some (replicate p 63 @ digits_in Lower 16 (unat a), of_nat p - 1)"
    by (intro number_to_string_replicate) simp_all
  then obtain p where p: "p + length (digits_in Lower 16 (unat a)) = 19"
    "number_to_string_in_radix (replicate 19 63) (int (unat a)) (int 16) Lower =
      Some (replicate p 63 @ digits_in Lower 16 (unat a), of_nat p - 1)"
    by blast
  have "2 \<le> p" using p(1) len by linarith
  then obtain q where q: "p = Suc (Suc q)" by (metis add_2_eq_Suc le_Suc_ex)
  then have l: "Suc (Suc q) < 2 ^ 64" "Suc q < 2 ^ 64" "q < 2 ^ 64" using p(1) by simp_all
  have nts: "number_to_string_in_radix (replicate 19 (of_char CHR ''?'')) (uint a) 16 Lower =
      Some (replicate (Suc (Suc q)) 63 @ digits_in Lower 16 (unat a), of_nat (Suc (Suc q)) - 1)"
  proof -
    have "of_char CHR ''?'' = (63 :: u8)" by simp
    then show ?thesis using p(2) unfolding q uint_nat by (simp only: of_nat_numeral)
  qed
  show ?thesis
    unfolding print_pointer_def next_arg_def assms
    by (simp only: list.case Option.bind.bind_lunit prod.case Let_def nts put_before [OF l(1)]
        put_before [OF l(2)] tail_from_replicate [OF l(3)]) simp
qed

lemma load_bytes_holds: "holds m p bs \<Longrightarrow> load_bytes m p (length bs) = Some bs"
  using those_map_Some [of "[0..<length bs]" "\<lambda>i. m (idx p i)" "(!) bs"]
  by (simp add: load_bytes_def holds_def map_nth)

lemma print_string_emits:
  assumes "va_args s = a # as" "cstring (user_memory s) a bs"
  shows "print_string write f s = emit write f bs (s\<lparr>va_args := as\<rparr>)"
  using assms strlen_cstring [OF assms(2)] unat_strlen [OF assms(2)]
    load_bytes_holds [OF cstring_holds [OF assms(2)]]
  by (simp add: print_string_def next_arg_def)

section \<open>Reading a number back\<close>

text \<open>\<^verbatim>\<open>char_to_digit\<close> of \<^verbatim>\<open>vfscanf\<close>.\<close>

definition char_to_digit :: "u8 \<Rightarrow> u8 option" where
  "char_to_digit c =
     (if byte CHR ''0'' \<le> c \<and> c \<le> byte CHR ''9'' then Some (c - byte CHR ''0'')
      else if byte CHR ''a'' \<le> c \<and> c \<le> byte CHR ''f'' then Some (c - byte CHR ''a'' + 10)
      else if byte CHR ''A'' \<le> c \<and> c \<le> byte CHR ''F'' then Some (c - byte CHR ''A'' + 10)
      else None)"

definition read_number :: "nat \<Rightarrow> u8 list \<Rightarrow> nat option" where
  "read_number b cs = foldl (\<lambda>v c. do { v \<leftarrow> v; d \<leftarrow> char_to_digit c; Some (v * b + unat d) }) (Some 0) cs"

lemma char_to_digit_of: "d < 16 \<Longrightarrow> char_to_digit (digit_byte_of cas d) = Some (of_nat d)"
proof -
  have "list_all (\<lambda>d. char_to_digit (digit_byte_of Lower d) = Some (of_nat d)) [0..<16]"
    "list_all (\<lambda>d. char_to_digit (digit_byte_of Upper d) = Some (of_nat d)) [0..<16]"
    by code_simp+
  then show "d < 16 \<Longrightarrow> ?thesis" by (cases cas) (auto simp: list_all_iff)
qed

lemma read_digits:
  assumes "2 \<le> b" "b \<le> 16"
  shows "read_number b (digits_in cas b n) = Some n"
proof (induction n rule: less_induct)
  case (less n)
  show ?case
  proof (cases "n = 0")
    case False
    have "n mod b < b" using assms(1) by simp
    then have d: "n mod b < 16" using assms(2) by linarith
    then have u: "unat (of_nat (n mod b) :: u8) = n mod b"
      by (simp add: unsigned_of_nat take_bit_nat_eq_self)
    have "read_number b (digits_in cas b (n div b)) = Some (n div b)"
      using False assms by (intro less.IH) simp
    then show ?thesis
      using False assms char_to_digit_of [OF d] u by (simp add: read_number_def digits_in_step)
  qed (simp add: read_number_def)
qed

section \<open>The output of a format string\<close>

text \<open>
  The text a conversion stands for and the arguments it leaves; \<open>None\<close> where the code panics, a
  needed argument is missing, a string argument points to no string, and for \<^verbatim>\<open>%n\<close>, which
  prints nothing but writes memory.
\<close>

fun conversion_text :: "memory \<Rightarrow> ConversionSpecifier \<Rightarrow> u64 list \<Rightarrow> (u8 list \<times> u64 list) option" where
  "conversion_text m SignedDecimalInteger (a # as) = Some (signed_text (ucast a), as)"
| "conversion_text m SignedInteger (a # as) = Some (signed_text (ucast a), as)"
| "conversion_text m UnsignedDecimalInteger (a # as) =
     Some (digits_in Lower 10 (unat (ucast a :: u32)), as)"
| "conversion_text m UnsignedOctalInteger (a # as) =
     Some (digits_in Lower 8 (unat (ucast a :: u32)), as)"
| "conversion_text m UnsignedHexIntegerLowerCase (a # as) =
     Some (digits_in Lower 16 (unat (ucast a :: u32)), as)"
| "conversion_text m UnsignedHexIntegerUpperCase (a # as) =
     Some (digits_in Upper 16 (unat (ucast a :: u32)), as)"
| "conversion_text m Character (a # as) = Some ([ucast a], as)"
| "conversion_text m CString (a # as) = do {
     len \<leftarrow> strlen m a;
     bs \<leftarrow> load_bytes m a (unat len);
     Some (bs, as) }"
| "conversion_text m Pointer (a # as) = Some (map of_char ''0x'' @ digits_in Lower 16 (unat a), as)"
| "conversion_text m Escape as = Some ([byte CHR ''%''], as)"
| "conversion_text m _ as = None"

lemma run_parser_suffix:
  "run_parser step u cs = Inr (s, rest) \<Longrightarrow> \<exists>pre. cs = pre @ rest"
  by (induction cs arbitrary: u) (fastforce split: sum.splits)+

lemma run_parser_shorter: "run_parser step u cs = Inr (s, rest) \<Longrightarrow> length rest < length cs"
  by (induction cs arbitrary: u) (auto split: sum.splits intro: less_SucI)

function format_text :: "memory \<Rightarrow> u8 list \<Rightarrow> u64 list \<Rightarrow> u8 list option" where
  "format_text m [] as = Some []"
| "format_text m (c # cs) as =
     (if c = byte CHR ''%'' then
        (case parse_printf cs of
           Inl _ \<Rightarrow> Some []
         | Inr (spec, rest) \<Rightarrow> do {
             (text, as) \<leftarrow> conversion_text m (p_specifier spec) as;
             texts \<leftarrow> format_text m rest as;
             Some (text @ texts) })
      else do {
        texts \<leftarrow> format_text m cs as;
        Some (c # texts) })"
  by pat_completeness auto
termination
  by (relation "measure (\<lambda>(m, cs, as). length cs)")
    (auto simp: parse_printf_def dest: run_parser_shorter)

text \<open>A stream that accepts every write completely; its state is what has been written.\<close>

definition accepts :: "u8 list writer \<Rightarrow> u32 \<Rightarrow> bool" where
  "accepts write fd \<longleftrightarrow> (\<forall>bytes w. write fd bytes w = (of_nat (length bytes), w @ bytes))"

lemma emit_accepted:
  assumes "accepts write fd" "fileno (user_memory s) f = Some fd"
  shows "emit write f bytes s = Some (Fall (s\<lparr>outside := outside s @ bytes,
    characters_transmitted := characters_transmitted s + of_nat (length bytes)\<rparr>))"
  using assms by (simp add: emit_def accepts_def)

lemma conversion_emits:
  assumes "conversion_text (user_memory s) sp (va_args s) = Some (text, as)"
  shows "do_conversion write f sp s = emit write f text (s\<lparr>va_args := as\<rparr>)"
proof (cases "va_args s")
  case Nil
  with assms show ?thesis by (cases s; cases sp) auto
next
  case (Cons a as')
  have hex: "\<And>cas. print_unsigned write f 9 16 cas s = emit write f (digits_in cas 16 (unat (ucast a :: u32))) (s\<lparr>va_args := as'\<rparr>)"
    using print_unsigned_emits [of 16 9 s a as' "write" f] Cons by simp
  have oct: "print_unsigned write f 11 8 Lower s = emit write f (digits_in Lower 8 (unat (ucast a :: u32))) (s\<lparr>va_args := as'\<rparr>)"
    using print_unsigned_emits [of 8 11 s a as' "write" f Lower] Cons by simp
  have dec: "print_unsigned write f 10 10 Lower s = emit write f (digits_in Lower 10 (unat (ucast a :: u32))) (s\<lparr>va_args := as'\<rparr>)"
    using print_unsigned_emits [of 10 10 s a as' "write" f Lower] Cons by simp
  from assms Cons show ?thesis
    by (cases sp) (auto simp: hex oct dec print_signed_emits print_pointer_emits print_character_def
        print_string_def next_arg_def bind_eq_Some_conv intro!: arg_cong [of _ _ "emit write f [37]"])
qed

lemma conversion_accepted:
  assumes "accepts write fd" "fileno (user_memory s) f = Some fd"
    and "conversion_text (user_memory s) sp (va_args s) = Some (out, as)"
  shows "do_conversion write f sp s = Some (Fall (s\<lparr>va_args := as, outside := outside s @ out,
    characters_transmitted := characters_transmitted s + of_nat (length out)\<rparr>))"
  unfolding conversion_emits [OF assms(3)]
  using emit_accepted [OF assms(1), of "s\<lparr>va_args := as\<rparr>" f out] assms(2) by simp

text \<open>The part of the loop inside a specification follows \<open>run_parser\<close>.\<close>

lemma format_loop_parsing:
  assumes "\<And>i. i < length bs \<Longrightarrow> user_memory s (idx fmt i) = Some (bs ! i)"
  shows "i \<le> length bs \<Longrightarrow> parsing_conversion_specification s \<Longrightarrow>
    format_loop [i..<length bs] write f fmt (s\<lparr>specification_under_construction := u\<rparr>) =
      (case run_parser add_char_to_printf_specification u (drop i bs) of
         Inl u' \<Rightarrow> Some (Fall (s\<lparr>specification_under_construction := u'\<rparr>))
       | Inr (spec, rest) \<Rightarrow> do {
           r \<leftarrow> do_conversion write f (p_specifier spec)
             (s\<lparr>parsing_conversion_specification := False, specification_under_construction := default_printf\<rparr>);
           (case r of
              Return r \<Rightarrow> Some (Return r)
            | Fall s \<Rightarrow> format_loop [length bs - length rest..<length bs] write f fmt s) })"
proof (induction i arbitrary: u rule: inc_induct)
  case (step i)
  have upt: "[i..<length bs] = i # [Suc i..<length bs]" using step(2) by (rule upt_conv_Cons)
  have d: "drop i bs = bs ! i # drop (Suc i) bs" using step(2) by (simp add: Cons_nth_drop_Suc)
  have c: "user_memory s (idx fmt i) = Some (bs ! i)" using step(2) by (rule assms)
  show ?case
  proof (cases "add_char_to_printf_specification u (bs ! i)")
    case (Inl u')
    with step.IH [OF step.prems, of u'] c step.prems show ?thesis
      by (simp add: upt d format_char_def)
  next
    case (Inr spec)
    have "length bs - length (drop (Suc i) bs) = Suc i" using step(2) by simp
    with Inr c step.prems show ?thesis by (simp add: upt d format_char_def)
  qed
qed simp

lemma format_loop_text:
  assumes accept: "accepts write fd" and fd: "fileno m f = Some fd"
    and chars: "\<And>i. i < length bs \<Longrightarrow> m (idx fmt i) = Some (bs ! i)"
  shows "i \<le> length bs \<Longrightarrow> user_memory s = m \<Longrightarrow> \<not> parsing_conversion_specification s \<Longrightarrow>
    format_text m (drop i bs) (va_args s) = Some out \<Longrightarrow>
    \<exists>s'. format_loop [i..<length bs] write f fmt s = Some (Fall s')
      \<and> characters_transmitted s' = characters_transmitted s + of_nat (length out)
      \<and> user_memory s' = m \<and> outside s' = outside s @ out"
proof (induction "length bs - i" arbitrary: i s out rule: less_induct)
  case less
  show ?case
  proof (cases "i = length bs")
    case True
    with less.prems show ?thesis by simp
  next
    case False
    with less.prems have i: "i < length bs" by simp
    have upt: "[i..<length bs] = i # [Suc i..<length bs]" using i by (rule upt_conv_Cons)
    have d: "drop i bs = bs ! i # drop (Suc i) bs" using i by (simp add: Cons_nth_drop_Suc)
    have c: "user_memory s (idx fmt i) = Some (bs ! i)" using chars [OF i] less.prems by simp
    show ?thesis
    proof (cases "bs ! i = 37")
      case False
      let ?s = "s\<lparr>outside := outside s @ [bs ! i], characters_transmitted := characters_transmitted s + 1\<rparr>"
      from False d less.prems obtain texts where t: "format_text m (drop (Suc i) bs) (va_args ?s) = Some texts"
        "out = bs ! i # texts" by (auto simp: bind_eq_Some_conv)
      have "format_char write f fmt i s = Some (Fall ?s)"
        using c False less.prems emit_accepted [of "write" fd s f "[bs ! i]"] accept fd
        by (simp add: format_char_def)
      moreover have lt: "length bs - Suc i < length bs - i" using i by linarith
      have "\<exists>s'. format_loop [Suc i..<length bs] write f fmt ?s = Some (Fall s')
          \<and> characters_transmitted s' = characters_transmitted ?s + of_nat (length texts)
          \<and> user_memory s' = m \<and> outside s' = outside ?s @ texts"
        by (rule less.hyps [OF lt]) (use i t(1) less.prems in simp_all)
      ultimately show ?thesis using t(2) by (auto simp: upt add.assoc)
    next
      case True
      let ?s = "s\<lparr>parsing_conversion_specification := True\<rparr>"
      have enter: "format_char write f fmt i s =
          Some (Fall (?s\<lparr>specification_under_construction := default_printf\<rparr>))"
        using c True less.prems by (simp add: format_char_def)
      have run: "format_loop [Suc i..<length bs] write f fmt (?s\<lparr>specification_under_construction := default_printf\<rparr>) =
        (case parse_printf (drop (Suc i) bs) of
           Inl u' \<Rightarrow> Some (Fall (?s\<lparr>specification_under_construction := u'\<rparr>))
         | Inr (spec, rest) \<Rightarrow> do {
             r \<leftarrow> do_conversion write f (p_specifier spec)
               (?s\<lparr>parsing_conversion_specification := False, specification_under_construction := default_printf\<rparr>);
             (case r of
                Return r \<Rightarrow> Some (Return r)
              | Fall s \<Rightarrow> format_loop [length bs - length rest..<length bs] write f fmt s) })"
        unfolding parse_printf_def
        using i chars less.prems by (intro format_loop_parsing) auto
      show ?thesis
      proof (cases "parse_printf (drop (Suc i) bs)")
        case (Inl u')
        then show ?thesis using True d less.prems enter run by (auto simp: upt)
      next
        case (Inr pr)
        then obtain spec rest where pr: "parse_printf (drop (Suc i) bs) = Inr (spec, rest)"
          by (cases pr) auto
        with True d less.prems obtain out1 as out2 where
          t: "conversion_text m (p_specifier spec) (va_args s) = Some (out1, as)"
          "format_text m rest as = Some out2" "out = out1 @ out2"
          by (auto simp: bind_eq_Some_conv)
        let ?t = "?s\<lparr>parsing_conversion_specification := False, specification_under_construction := default_printf\<rparr>"
        let ?u = "?t\<lparr>va_args := as, outside := outside s @ out1,
          characters_transmitted := characters_transmitted s + of_nat (length out1)\<rparr>"
        have conv: "do_conversion write f (p_specifier spec) ?t = Some (Fall (?t\<lparr>va_args := as,
            outside := outside ?t @ out1, characters_transmitted := characters_transmitted ?t + of_nat (length out1)\<rparr>))"
          by (rule conversion_accepted [OF accept]) (use t(1) fd less.prems in simp_all)
        have short: "length rest < length (drop (Suc i) bs)"
          using pr unfolding parse_printf_def by (rule run_parser_shorter)
        let ?k = "length bs - length rest"
        have rest: "drop ?k bs = rest"
        proof -
          obtain pre where "drop (Suc i) bs = pre @ rest"
            using run_parser_suffix [OF pr [unfolded parse_printf_def]] by blast
          then have "bs = (take (Suc i) bs @ pre) @ rest"
            using append_take_drop_id [of "Suc i" bs] by simp
          then obtain xs where "bs = xs @ rest" by (rule that)
          then show ?thesis by simp
        qed
        have "length bs - ?k < length bs - i" using short i by simp
        then have "\<exists>s'. format_loop [?k..<length bs] write f fmt ?u = Some (Fall s')
            \<and> characters_transmitted s' = characters_transmitted ?u + of_nat (length out2)
            \<and> user_memory s' = m \<and> outside s' = outside ?u @ out2"
          by (rule less.hyps) (use t(2) less.prems rest in simp_all)
        then obtain s' where
          "format_loop [?k..<length bs] write f fmt ?u = Some (Fall s')"
          "characters_transmitted s' = characters_transmitted ?u + of_nat (length out2)"
          "user_memory s' = m" "outside s' = outside ?u @ out2"
          by blast
        moreover have "format_loop [i..<length bs] write f fmt s = format_loop [?k..<length bs] write f fmt ?u"
        proof -
          have "format_loop [i..<length bs] write f fmt s =
              format_loop [Suc i..<length bs] write f fmt (?s\<lparr>specification_under_construction := default_printf\<rparr>)"
            unfolding upt using enter by simp
          then show ?thesis unfolding run pr sum.case prod.case conv by simp
        qed
        ultimately show ?thesis using t(3) by (simp add: add.assoc)
      qed
    qed
  qed
qed

text \<open>
  (C22) \<^verbatim>\<open>vfprintf\<close> is formatting: with a stream that accepts what is written, it writes exactly
  the text of the format string, the ordinary characters unchanged and every conversion
  specification replaced by the text of its argument, and returns the number of characters
  written. The character by character loop agrees with the recursive description that parses a
  whole specification at a time. The text of a number is its digits; the text of zero is empty
  and that of the smallest integer a lone minus sign, which is not what C prints.
\<close>

theorem vfprintf_correct:
  assumes "accepts write fd" and "fileno m f = Some fd"
    and "cstring m format_str bs" and "format_text m bs args = Some out"
  shows "vfprintf write m f format_str args w = Some (of_nat (length out), m, w @ out)"
proof -
  let ?s = "\<lparr> parsing_conversion_specification = False, specification_under_construction = default_printf,
    characters_transmitted = 0, va_args = args, user_memory = m, outside = w \<rparr>"
  have "\<exists>s'. format_loop [0..<length bs] write f format_str ?s = Some (Fall s')
      \<and> characters_transmitted s' = characters_transmitted ?s + of_nat (length out)
      \<and> user_memory s' = m \<and> outside s' = outside ?s @ out"
    by (rule format_loop_text [OF assms(1,2)]) (use assms(4) cstring_at(1) [OF assms(3)] in simp_all)
  then show ?thesis
    using strlen_cstring [OF assms(3)] unat_strlen [OF assms(3)] by (auto simp: vfprintf_def)
qed

definition demo_stream :: "u32 \<Rightarrow> u8 list \<Rightarrow> u8 list \<Rightarrow> u64 \<times> u8 list" where
  "demo_stream fd bs w = (of_nat (length bs), w @ bs)"

theorem vfprintf_correct_witness:
  "vfprintf demo_stream (string_memory [(8, [CHR 0x01, CHR 0x00, CHR 0x00]), (16, ''%s=%d (%#x)%%''), (48, ''n'')])
      8 16 [48, ucast (- 42 :: u32), 255] [] =
    Some (11, string_memory [(8, [CHR 0x01, CHR 0x00, CHR 0x00]), (16, ''%s=%d (%#x)%%''), (48, ''n'')],
      map of_char ''n=-42 (ff)%'')"
proof -
  let ?m = "string_memory [(8, [CHR 0x01, CHR 0x00, CHR 0x00]), (16, ''%s=%d (%#x)%%''), (48, ''n'')]"
  have "accepts demo_stream 1" by (simp add: accepts_def demo_stream_def)
  moreover have "fileno ?m 8 = Some 1" by code_simp
  moreover have "cstring ?m 16 (map of_char ''%s=%d (%#x)%%'')" by code_simp
  moreover have "format_text ?m (map of_char ''%s=%d (%#x)%%'') [48, ucast (- 42 :: u32), 255] =
      Some (map of_char ''n=-42 (ff)%'')"
    by code_simp
  ultimately show ?thesis
    using vfprintf_correct [of demo_stream 1 ?m 8 16] by simp
qed

text \<open>
  Bounds of the number buffers: the buffers \<^verbatim>\<open>vfprintf\<close> reserves for 32-bit numbers (10
  bytes for decimal, 11 for octal, 9 for hexadecimal) are large enough for every value, so no
  digit is written out of bounds, and the digits left behind the returned index read back, with
  \<^verbatim>\<open>char_to_digit\<close>, as the number.
\<close>

theorem number_buffers_suffice:
  assumes "(b, k) \<in> {(10, 10), (8, 11), (16, 9)}"
  shows "\<exists>buf ind. number_to_string_in_radix (replicate k (byte CHR ''?'')) (uint (n :: u32)) (int b) cas
      = Some (buf, ind) \<and> length buf = k \<and> read_number b (tail_from buf ind) = Some (unat n)"
proof -
  have b: "2 \<le> b" "b \<le> 16" and k: "k < 2 ^ 64" and cap: "2 ^ 32 \<le> b ^ k"
    using assms by auto
  have "unat n < 2 ^ LENGTH(32)" by (rule unsigned_less)
  moreover have "2 ^ LENGTH(32) \<le> b ^ k" using cap by (simp only: len_bit0 len_num1) simp
  ultimately have "unat n < b ^ k" by (rule less_le_trans)
  then obtain p where p: "p + length (digits_in cas b (unat n)) = k"
    "number_to_string_in_radix (replicate k 63) (int (unat n)) (int b) cas =
      Some (replicate p 63 @ digits_in cas b (unat n), of_nat p - 1)"
    using number_to_string_replicate [OF b _ k] by blast
  then have "p < 2 ^ 64" using k by linarith
  then have "read_number b (tail_from (replicate p 63 @ digits_in cas b (unat n)) (of_nat p - 1)) = Some (unat n)"
    using read_digits [OF b] by (simp only: tail_from_replicate)
  moreover have "length (replicate p (63 :: u8) @ digits_in cas b (unat n)) = k" using p(1) by simp
  moreover have "of_char CHR ''?'' = (63 :: u8)" by simp
  ultimately show ?thesis using p(2) unfolding uint_nat by metis
qed

theorem number_buffers_suffice_witness:
  "\<exists>buf ind. number_to_string_in_radix (replicate 11 (byte CHR ''?'')) (uint (- 1 :: u32)) (int 8) Lower
      = Some (buf, ind) \<and> length buf = 11 \<and> read_number 8 (tail_from buf ind) = Some (unat (- 1 :: u32))"
  by (rule number_buffers_suffice) simp

end
