(* ===== verification/Elf.thy ===== *)
theory Elf
  imports Prelude
begin

text \<open>
  The ELF reader of the program loader (\<^verbatim>\<open>src/kernel/src/elf.rs\<close>): identification, file header and
  program header table, in 32 and 64 bits and in both byte orders.

  The structs derive their codec from the third-party crate \<^verbatim>\<open>packed_struct\<close>: the fields follow each
  other without gaps in the order of their declaration. How the bytes of one field become an integer
  is the parameter \<open>dec\<close>, with the documented meaning of \<^verbatim>\<open>endian = "lsb"\<close> and \<^verbatim>\<open>"msb"\<close> as the
  hypothesis \<open>byte_orders\<close>. The four structs of each kind differ in field widths and byte order only
  and are converted into one universal struct; here the field widths are a list and the conversion
  is one definition. The enumerations are decoded by their discriminants, which the source gives.
  \<open>None\<close> is a panic (a slice out of range, an overflow), \<open>Some None\<close> the result \<^verbatim>\<open>None\<close>.
\<close>

section \<open>Data\<close>

datatype Endianess = LITTLE | BIG
datatype ArchWidth = Width32Bit | Width64Bit
datatype ElfType = RELOCATABLE | EXECUTABLE | SHARED | CORE
datatype InstructionSet = SPARC | X86 | MIPS | PowerPC | ARM | SuperH | IA64 | X86_64 | AArch64 | RiscV
datatype ProgramHeaderType = NullSegment | Load | Dynamic | Interp | Note

datatype 'a EnumCatchAll = KnownEnum 'a | CatchAll u32

definition endianess_of :: "u8 \<Rightarrow> Endianess option" where
  "endianess_of v = (if v = 1 then Some LITTLE else if v = 2 then Some BIG else None)"

definition arch_width_of :: "u8 \<Rightarrow> ArchWidth option" where
  "arch_width_of v = (if v = 1 then Some Width32Bit else if v = 2 then Some Width64Bit else None)"

definition elf_type_of :: "u64 \<Rightarrow> ElfType option" where
  "elf_type_of v = map_of [(1, RELOCATABLE), (2, EXECUTABLE), (3, SHARED), (4, CORE)] v"

definition instruction_set_of :: "u64 \<Rightarrow> InstructionSet option" where
  "instruction_set_of v = map_of
     [(2, SPARC), (3, X86), (8, MIPS), (0x14, PowerPC), (0x28, ARM), (0x2A, SuperH), (0x32, IA64),
      (0x3E, X86_64), (0xB7, AArch64), (0xF3, RiscV)] v"

definition segment_type_of :: "u64 \<Rightarrow> ProgramHeaderType EnumCatchAll" where
  "segment_type_of v =
     (case map_of [(0, NullSegment), (1, Load), (2, Dynamic), (3, Interp), (4, Note)] v of
        Some t \<Rightarrow> KnownEnum t
      | None \<Rightarrow> CatchAll (ucast v))"

record ElfIdentification =
  magic :: "u8 list"
  arch_width :: ArchWidth
  endianess :: Endianess
  elf_version :: u8

record UniversalElfHeader =
  elf_type :: ElfType
  instruction_set :: InstructionSet
  elf_header_version :: u32
  program_entry :: u64
  program_header_table_offset :: u64
  section_header_table_offset :: u64
  elf_flags :: u32
  header_size :: u16
  program_header_table_entry_size :: u16
  program_header_table_len :: u16
  section_header_table_entry_size :: u16
  section_header_table_len :: u16
  section_header_table_index_of_names :: u16

record UniversalProgramHeader =
  segment_type :: "ProgramHeaderType EnumCatchAll"
  segment_flags :: u32
  segment_file_offset :: u64
  segment_virtual_address :: u64
  segment_file_size :: u64
  segment_virtual_size :: u64

record ElfFile =
  elf_header :: UniversalElfHeader
  program_headers :: "UniversalProgramHeader list"

section \<open>Unpacking\<close>

type_synonym decoder = "Endianess \<Rightarrow> u8 list \<Rightarrow> u64"

definition unpack_identification :: "u8 list \<Rightarrow> ElfIdentification option" where
  "unpack_identification bs = do {
     w \<leftarrow> arch_width_of (bs ! 4);
     e \<leftarrow> endianess_of (bs ! 5);
     Some \<lparr> magic = take 4 bs, arch_width = w, endianess = e, elf_version = bs ! 6 \<rparr> }"

primrec elf_header_fields :: "ArchWidth \<Rightarrow> nat list" where
  "elf_header_fields Width32Bit = [2, 2, 4, 4, 4, 4, 4, 2, 2, 2, 2, 2, 2]"
| "elf_header_fields Width64Bit = [2, 2, 4, 8, 8, 8, 4, 2, 2, 2, 2, 2, 2]"

fun elf_header_from :: "u64 list \<Rightarrow> UniversalElfHeader option" where
  "elf_header_from [t, i, v, entry, pht, sht, fl, hs, phes, phl, shes, shl, shn] = do {
     t \<leftarrow> elf_type_of t;
     i \<leftarrow> instruction_set_of i;
     Some \<lparr> elf_type = t, instruction_set = i, elf_header_version = ucast v, program_entry = entry,
       program_header_table_offset = pht, section_header_table_offset = sht, elf_flags = ucast fl,
       header_size = ucast hs, program_header_table_entry_size = ucast phes,
       program_header_table_len = ucast phl, section_header_table_entry_size = ucast shes,
       section_header_table_len = ucast shl, section_header_table_index_of_names = ucast shn \<rparr> }"
| "elf_header_from _ = None"

definition unpack_elf_header ::
  "decoder \<Rightarrow> Endianess \<Rightarrow> ArchWidth \<Rightarrow> u8 list \<Rightarrow> UniversalElfHeader option" where
  "unpack_elf_header dec e w bs = elf_header_from (map (dec e) (chop (elf_header_fields w) bs))"

primrec program_header_fields :: "ArchWidth \<Rightarrow> nat list" where
  "program_header_fields Width32Bit = [4, 4, 4, 4, 4, 4, 4]"
| "program_header_fields Width64Bit = [4, 4, 8, 8, 8, 8, 8]"

fun program_header_from :: "ArchWidth \<Rightarrow> u64 list \<Rightarrow> UniversalProgramHeader option" where
  "program_header_from Width32Bit [t, off, va, unused, fsz, vsz, fl] =
     Some \<lparr> segment_type = segment_type_of t, segment_flags = ucast fl, segment_file_offset = off,
       segment_virtual_address = va, segment_file_size = fsz, segment_virtual_size = vsz \<rparr>"
| "program_header_from Width64Bit [t, fl, off, va, unused, fsz, vsz] =
     Some \<lparr> segment_type = segment_type_of t, segment_flags = ucast fl, segment_file_offset = off,
       segment_virtual_address = va, segment_file_size = fsz, segment_virtual_size = vsz \<rparr>"
| "program_header_from _ _ = None"

definition unpack_program_header ::
  "decoder \<Rightarrow> Endianess \<Rightarrow> ArchWidth \<Rightarrow> u8 list \<Rightarrow> UniversalProgramHeader option" where
  "unpack_program_header dec e w bs =
     program_header_from w (map (dec e) (chop (program_header_fields w) bs))"

section \<open>Reading a file\<close>

definition slice :: "u8 list \<Rightarrow> u64 \<Rightarrow> nat \<Rightarrow> u8 list option" where
  "slice bytes from len = do {
     to \<leftarrow> checked_add from (of_nat len);
     if unat to \<le> length bytes then Some (take len (drop (unat from) bytes)) else None }"

definition get_ondisk_identification_size :: u64 where
  "get_ondisk_identification_size = 16"

primrec get_ondisk_elf_header_size :: "ArchWidth \<Rightarrow> u64" where
  "get_ondisk_elf_header_size Width32Bit = 52"
| "get_ondisk_elf_header_size Width64Bit = 64"

primrec read_program_headers ::
  "nat \<Rightarrow> decoder \<Rightarrow> Endianess \<Rightarrow> ArchWidth \<Rightarrow> u8 list \<Rightarrow> u64 \<Rightarrow> u16
     \<Rightarrow> UniversalProgramHeader list option option" where
  "read_program_headers 0 dec e w bytes curr_offset entry_size = Some (Some [])"
| "read_program_headers (Suc n) dec e w bytes curr_offset entry_size = do {
     bs \<leftarrow> slice bytes curr_offset (sum_list (program_header_fields w));
     (case unpack_program_header dec e w bs of
        None \<Rightarrow> Some None
      | Some universal_program_header \<Rightarrow> do {
          curr_offset \<leftarrow> checked_add curr_offset (ucast entry_size);
          rest \<leftarrow> read_program_headers n dec e w bytes curr_offset entry_size;
          Some (map_option (\<lambda>vec. universal_program_header # vec) rest) }) }"

definition from_bytes :: "decoder \<Rightarrow> u8 list \<Rightarrow> ElfFile option option" where
  "from_bytes dec bytes = do {
     bs \<leftarrow> slice bytes 0 7;
     (case unpack_identification bs of
        None \<Rightarrow> Some None
      | Some ident \<Rightarrow>
          if magic ident \<noteq> [0x7f, 0x45, 0x4c, 0x46] then Some None
          else if elf_version ident \<noteq> 1 then Some None
          else do {
            bs \<leftarrow> slice bytes get_ondisk_identification_size (sum_list (elf_header_fields (arch_width ident)));
            (case unpack_elf_header dec (endianess ident) (arch_width ident) bs of
               None \<Rightarrow> Some None
             | Some hdr \<Rightarrow>
                 if ucast (header_size hdr) \<noteq> get_ondisk_elf_header_size (arch_width ident) then Some None
                 else if elf_header_version hdr \<noteq> 1 then Some None
                 else do {
                   phs \<leftarrow> read_program_headers (unat (program_header_table_len hdr)) dec (endianess ident)
                     (arch_width ident) bytes (program_header_table_offset hdr)
                     (program_header_table_entry_size hdr);
                   Some (map_option (\<lambda>phs. \<lparr> elf_header = hdr, program_headers = phs \<rparr>) phs) }) }) }"

section \<open>Writing a file\<close>

text \<open>The byte orders of the crate, and the bytes of a field.\<close>

definition byte_orders :: "decoder \<Rightarrow> bool" where
  "byte_orders dec \<longleftrightarrow> (\<forall>bs. length bs \<le> 8 \<longrightarrow>
     dec LITTLE bs = from_le_bytes bs \<and> dec BIG bs = from_le_bytes (rev bs))"

primrec encode_field :: "Endianess \<Rightarrow> nat \<Rightarrow> u64 \<Rightarrow> u8 list" where
  "encode_field LITTLE n v = take n (to_le_bytes v)"
| "encode_field BIG n v = rev (take n (to_le_bytes v))"

definition encode :: "Endianess \<Rightarrow> nat list \<Rightarrow> u64 list \<Rightarrow> u8 list" where
  "encode e sizes values = concat (map2 (encode_field e) sizes values)"

definition fits_in :: "nat \<Rightarrow> u64 \<Rightarrow> bool" where
  "fits_in n v \<longleftrightarrow> n \<le> 8 \<and> take_bit (8 * n) v = v"

lemma length_encode_field: "n \<le> 8 \<Longrightarrow> length (encode_field e n v) = n"
  by (cases e) simp_all

lemma from_le_bytes_take: "n \<le> 8 \<Longrightarrow> from_le_bytes (take n (to_le_bytes v)) = take_bit (8 * n) (v :: u64)"
proof (rule bit_word_eqI)
  fix k assume n: "n \<le> 8" and "k < LENGTH(64)"
  then show "bit (from_le_bytes (take n (to_le_bytes v)) :: u64) k = bit (take_bit (8 * n) v) k"
    by (auto simp: bit_from_le_bytes bit_simps nth_to_le_bytes)
qed

lemma decode_encode_field:
  assumes "byte_orders dec" "fits_in n v"
  shows "dec e (encode_field e n v) = v"
  using assms length_encode_field [of n e v]
  by (cases e) (auto simp: byte_orders_def fits_in_def from_le_bytes_take)

lemma chop_encode:
  assumes "byte_orders dec"
  shows "list_all2 fits_in sizes values \<Longrightarrow> map (dec e) (chop sizes (encode e sizes values)) = values"
proof (induction rule: list_all2_induct)
  case (Cons n ns v vs)
  then have "length (encode_field e n v) = n" by (simp add: length_encode_field fits_in_def)
  with Cons show ?case using decode_encode_field [OF assms] by (simp add: encode_def)
qed (simp add: encode_def)

lemma length_encode:
  "list_all2 fits_in sizes values \<Longrightarrow> length (encode e sizes values) = sum_list sizes"
  by (induction rule: list_all2_induct) (simp_all add: encode_def length_encode_field fits_in_def)

primrec elf_type_code :: "ElfType \<Rightarrow> u64" where
  "elf_type_code RELOCATABLE = 1" | "elf_type_code EXECUTABLE = 2" | "elf_type_code SHARED = 3"
| "elf_type_code CORE = 4"

primrec instruction_set_code :: "InstructionSet \<Rightarrow> u64" where
  "instruction_set_code SPARC = 2" | "instruction_set_code X86 = 3" | "instruction_set_code MIPS = 8"
| "instruction_set_code PowerPC = 0x14" | "instruction_set_code ARM = 0x28"
| "instruction_set_code SuperH = 0x2A" | "instruction_set_code IA64 = 0x32"
| "instruction_set_code X86_64 = 0x3E" | "instruction_set_code AArch64 = 0xB7"
| "instruction_set_code RiscV = 0xF3"

fun segment_type_code :: "ProgramHeaderType EnumCatchAll \<Rightarrow> u64" where
  "segment_type_code (KnownEnum NullSegment) = 0" | "segment_type_code (KnownEnum Load) = 1"
| "segment_type_code (KnownEnum Dynamic) = 2" | "segment_type_code (KnownEnum Interp) = 3"
| "segment_type_code (KnownEnum Note) = 4" | "segment_type_code (CatchAll v) = ucast v"

definition header_values :: "UniversalElfHeader \<Rightarrow> u64 list" where
  "header_values h =
     [elf_type_code (elf_type h), instruction_set_code (instruction_set h), ucast (elf_header_version h),
      program_entry h, program_header_table_offset h, section_header_table_offset h,
      ucast (elf_flags h), ucast (header_size h), ucast (program_header_table_entry_size h),
      ucast (program_header_table_len h), ucast (section_header_table_entry_size h),
      ucast (section_header_table_len h), ucast (section_header_table_index_of_names h)]"

primrec segment_values :: "ArchWidth \<Rightarrow> UniversalProgramHeader \<Rightarrow> u64 list" where
  "segment_values Width32Bit p =
     [segment_type_code (segment_type p), segment_file_offset p, segment_virtual_address p, 0,
      segment_file_size p, segment_virtual_size p, ucast (segment_flags p)]"
| "segment_values Width64Bit p =
     [segment_type_code (segment_type p), ucast (segment_flags p), segment_file_offset p,
      segment_virtual_address p, 0, segment_file_size p, segment_virtual_size p]"

lemma header_values_inverse: "elf_header_from (header_values h) = Some h"
  by (cases "elf_type h"; cases "instruction_set h")
    (simp_all add: header_values_def elf_type_of_def instruction_set_of_def ucast_ucast_up)

definition segment_ok :: "UniversalProgramHeader \<Rightarrow> bool" where
  "segment_ok p \<longleftrightarrow> segment_type_of (segment_type_code (segment_type p)) = segment_type p"

lemma segment_values_inverse: "segment_ok p \<Longrightarrow> program_header_from w (segment_values w p) = Some p"
  by (cases w) (simp_all add: segment_ok_def ucast_ucast_up)

text \<open>
  A file that has a given header and given program headers: the identification, the bytes of the
  header behind the 16 bytes reserved for it, and the bytes of every program header at its place in
  the table, in the byte order and width of the identification. The pad bytes, the contents of the
  segments and everything else in the file are arbitrary.
\<close>

primrec width_code :: "ArchWidth \<Rightarrow> u8" where
  "width_code Width32Bit = 1" | "width_code Width64Bit = 2"

primrec endianess_code :: "Endianess \<Rightarrow> u8" where
  "endianess_code LITTLE = 1" | "endianess_code BIG = 2"

definition segment_at ::
  "Endianess \<Rightarrow> ArchWidth \<Rightarrow> u8 list \<Rightarrow> nat \<Rightarrow> UniversalProgramHeader \<Rightarrow> bool" where
  "segment_at e w bytes off p \<longleftrightarrow> segment_ok p \<and> list_all2 fits_in (program_header_fields w) (segment_values w p)
     \<and> off + sum_list (program_header_fields w) \<le> length bytes
     \<and> take (sum_list (program_header_fields w)) (drop off bytes)
         = encode e (program_header_fields w) (segment_values w p)"

primrec segments_at ::
  "Endianess \<Rightarrow> ArchWidth \<Rightarrow> u8 list \<Rightarrow> nat \<Rightarrow> nat \<Rightarrow> UniversalProgramHeader list \<Rightarrow> bool" where
  "segments_at e w bytes off entry [] \<longleftrightarrow> off < 2 ^ 64"
| "segments_at e w bytes off entry (p # ps) \<longleftrightarrow>
     segment_at e w bytes off p \<and> segments_at e w bytes (off + entry) entry ps"

definition elf_file_with ::
  "Endianess \<Rightarrow> ArchWidth \<Rightarrow> UniversalElfHeader \<Rightarrow> UniversalProgramHeader list \<Rightarrow> u8 list \<Rightarrow> bool" where
  "elf_file_with e w h ps bytes \<longleftrightarrow>
     length bytes < 2 ^ 64
   \<and> take 7 bytes = [0x7f, 0x45, 0x4c, 0x46, width_code w, endianess_code e, 1]
   \<and> list_all2 fits_in (elf_header_fields w) (header_values h)
   \<and> take (sum_list (elf_header_fields w)) (drop 16 bytes) = encode e (elf_header_fields w) (header_values h)
   \<and> ucast (header_size h) = get_ondisk_elf_header_size w \<and> elf_header_version h = 1
   \<and> unat (program_header_table_len h) = length ps
   \<and> segments_at e w bytes (unat (program_header_table_offset h)) (unat (program_header_table_entry_size h)) ps"

lemma slice_inside:
  assumes "unat from + len \<le> length bytes" "length bytes < 2 ^ 64"
  shows "slice bytes from len = Some (take len (drop (unat from) bytes))"
proof -
  have "unat (of_nat len :: u64) = len"
    using assms by (simp add: unsigned_of_nat take_bit_nat_eq_self)
  with assms show ?thesis
    by (simp add: slice_def checked_add_nat unat_word_ariths)
qed

lemma slice_outside:
  assumes "length bytes < unat from + len" "len < 2 ^ 64"
  shows "slice bytes from len = None"
proof -
  have "unat (of_nat len :: u64) = len"
    using assms by (simp add: unsigned_of_nat take_bit_nat_eq_self)
  with assms show ?thesis
    by (auto simp: slice_def checked_add_nat unat_word_ariths)
qed

lemma segments_at_offset: "segments_at e w bytes off entry ps \<Longrightarrow> off + entry * length ps < 2 ^ 64"
proof (induction ps arbitrary: off)
  case (Cons p ps)
  then have "off + entry + entry * length ps < 2 ^ 64" by simp
  then show ?case by (simp add: algebra_simps)
qed simp

lemma unat_ucast_small: "unat (ucast (x :: u16) :: u64) = unat x"
  by transfer (simp add: take_bit_take_bit)

lemma read_program_headers_correct:
  assumes "byte_orders dec" "length bytes < 2 ^ 64"
  shows "segments_at e w bytes (unat off) (unat entry) ps \<Longrightarrow>
    read_program_headers (length ps) dec e w bytes off entry = Some (Some ps)"
proof (induction ps arbitrary: off)
  case (Cons p ps)
  then have p: "segment_at e w bytes (unat off) p"
    and rest: "segments_at e w bytes (unat off + unat entry) (unat entry) ps" by auto
  have "slice bytes off (sum_list (program_header_fields w)) =
      Some (encode e (program_header_fields w) (segment_values w p))"
    using p assms(2) by (simp add: segment_at_def slice_inside)
  moreover have "unpack_program_header dec e w (encode e (program_header_fields w) (segment_values w p)) = Some p"
    using p chop_encode [OF assms(1)] segment_values_inverse
    by (simp add: segment_at_def unpack_program_header_def)
  moreover have small: "unat off + unat entry < 2 ^ 64" using segments_at_offset [OF rest] by linarith
  have ent: "unat (ucast entry :: u64) = unat entry"
    by (rule unat_ucast_small)
  have sum: "unat (off + ucast entry) = unat off + unat entry"
    using small by (simp add: unat_word_ariths ent)
  have "checked_add off (ucast entry) = Some (off + ucast entry)"
    using small by (simp add: checked_add_nat ent)
  moreover have "read_program_headers (length ps) dec e w bytes (off + ucast entry) entry = Some (Some ps)"
    using Cons.IH [of "off + ucast entry"] rest unfolding sum by simp
  ultimately show ?case by simp
qed simp


text \<open>
  A file that ends too early stops the kernel: a file shorter than the identification, or with
  a valid identification and shorter than its header, makes \<^verbatim>\<open>from_bytes\<close> slice out of range, which
  panics instead of returning \<^verbatim>\<open>None\<close>.
\<close>

theorem short_elf_file_panics:
  assumes "length bytes < 7 \<or>
    (take 7 bytes = [0x7f, 0x45, 0x4c, 0x46, width_code w, endianess_code e, 1]
      \<and> length bytes < 16 + sum_list (elf_header_fields w))"
  shows "from_bytes dec bytes = None"
proof (cases "length bytes < 7")
  case True
  then show ?thesis by (simp add: from_bytes_def slice_outside)
next
  case False
  with assms have t: "take 7 bytes = [0x7f, 0x45, 0x4c, 0x46, width_code w, endianess_code e, 1]"
    and short: "length bytes < 16 + sum_list (elf_header_fields w)" by auto
  have len: "length bytes < 2 ^ 64" using short by (cases w) auto
  have "slice bytes 0 7 = Some (take 7 bytes)" using False len by (simp add: slice_inside)
  moreover have "unpack_identification (take 7 bytes) =
      Some \<lparr> magic = [0x7f, 0x45, 0x4c, 0x46], arch_width = w, endianess = e, elf_version = 1 \<rparr>"
    using t by (cases w; cases e) (simp_all add: unpack_identification_def arch_width_of_def endianess_of_def)
  moreover have "slice bytes get_ondisk_identification_size (sum_list (elf_header_fields w)) = None"
    using short by (intro slice_outside) (cases w, auto simp: get_ondisk_identification_size_def)+
  ultimately show ?thesis by (simp add: from_bytes_def)
qed

section \<open>An example file\<close>

primrec demo_decode :: decoder where
  "demo_decode LITTLE = from_le_bytes"
| "demo_decode BIG = (\<lambda>bs. from_le_bytes (rev bs))"

lemma demo_decode_byte_orders: "byte_orders demo_decode"
  by (simp add: byte_orders_def)

definition demo_header :: UniversalElfHeader where
  "demo_header = \<lparr> elf_type = EXECUTABLE, instruction_set = RiscV, elf_header_version = 1,
     program_entry = 0x10000, program_header_table_offset = 64, section_header_table_offset = 0,
     elf_flags = 5, header_size = 64, program_header_table_entry_size = 56,
     program_header_table_len = 1, section_header_table_entry_size = 64,
     section_header_table_len = 0, section_header_table_index_of_names = 0 \<rparr>"

definition demo_segment :: UniversalProgramHeader where
  "demo_segment = \<lparr> segment_type = KnownEnum Load, segment_flags = 5, segment_file_offset = 0x1000,
     segment_virtual_address = 0x10000, segment_file_size = 0x200, segment_virtual_size = 0x300 \<rparr>"

definition demo_file :: "u8 list" where
  "demo_file = [0x7f, 0x45, 0x4c, 0x46, 2, 2, 1] @ replicate 9 0
     @ encode BIG (elf_header_fields Width64Bit) (header_values demo_header)
     @ encode BIG (program_header_fields Width64Bit) (segment_values Width64Bit demo_segment)
     @ replicate 8 0"


theorem short_elf_file_panics_witness:
  "from_bytes demo_decode [] = None \<and> from_bytes demo_decode (take 20 demo_file) = None"
proof
  show "from_bytes demo_decode [] = None" by (rule short_elf_file_panics) simp
  show "from_bytes demo_decode (take 20 demo_file) = None"
    by (rule short_elf_file_panics [of _ Width64Bit BIG]) code_simp
qed

end
