(* ===== verification/Fallible.thy ===== *)
theory Fallible
  imports Prelude
begin

text \<open>
  Operations that change a state and may fail or panic, the shape of the file system code.

  A Rust function that takes \<^verbatim>\<open>&mut self\<close> and returns \<^verbatim>\<open>Option<T>\<close> becomes a function from the state
  to \<open>('a option \<times> 's) option\<close>: the outer \<open>None\<close> is a panic, otherwise there is the returned option
  and the state at the return. The operator \<^verbatim>\<open>?\<close> leaves the function with \<^verbatim>\<open>None\<close> but keeps what was
  changed before: \<open>and_then\<close>. A function that only reads the state returns \<open>'a option option\<close>; its
  \<^verbatim>\<open>?\<close> is \<open>ask\<close> inside of a reading function and \<open>ask_in\<close> inside of a changing one.
\<close>

type_synonym ('a, 's) outcome = "('a option \<times> 's) option"

definition ask :: "'a option option \<Rightarrow> ('a \<Rightarrow> 'b option option) \<Rightarrow> 'b option option" where
  "ask m f = (case m of None \<Rightarrow> None | Some None \<Rightarrow> Some None | Some (Some a) \<Rightarrow> f a)"

definition ask_in :: "'s \<Rightarrow> 'a option option \<Rightarrow> ('a \<Rightarrow> ('b, 's) outcome) \<Rightarrow> ('b, 's) outcome" where
  "ask_in s m f = (case m of None \<Rightarrow> None | Some None \<Rightarrow> Some (None, s) | Some (Some a) \<Rightarrow> f a)"

definition and_then :: "('a, 's) outcome \<Rightarrow> ('a \<Rightarrow> 's \<Rightarrow> ('b, 's) outcome) \<Rightarrow> ('b, 's) outcome" where
  "and_then m f =
     (case m of None \<Rightarrow> None | Some (None, s) \<Rightarrow> Some (None, s) | Some (Some a, s) \<Rightarrow> f a s)"

lemma ask_simps [simp]:
  "ask None f = None" "ask (Some None) f = Some None" "ask (Some (Some a)) f = f a"
  by (simp_all add: ask_def)

lemma ask_in_simps [simp]:
  "ask_in s None f = None" "ask_in s (Some None) f = Some (None, s)"
  "ask_in s (Some (Some a)) f = f a"
  by (simp_all add: ask_in_def)

lemma and_then_simps [simp]:
  "and_then None f = None" "and_then (Some (None, s)) f = Some (None, s)"
  "and_then (Some (Some a, s)) f = f a s"
  by (simp_all add: and_then_def)

section \<open>Outcomes\<close>

text \<open>
  \<open>outcome m Q E\<close>: the operation does not panic; when it succeeds its result and state satisfy \<open>Q\<close>,
  when it fails its state satisfies \<open>E\<close>.
\<close>

definition outcome_ok :: "('a, 's) outcome \<Rightarrow> ('a \<Rightarrow> 's \<Rightarrow> bool) \<Rightarrow> ('s \<Rightarrow> bool) \<Rightarrow> bool" where
  "outcome_ok m Q E \<longleftrightarrow>
     (case m of None \<Rightarrow> False | Some (None, s) \<Rightarrow> E s | Some (Some a, s) \<Rightarrow> Q a s)"

lemma outcome_ok_simps [simp]:
  "outcome_ok None Q E \<longleftrightarrow> False" "outcome_ok (Some (None, s)) Q E \<longleftrightarrow> E s"
  "outcome_ok (Some (Some a, s)) Q E \<longleftrightarrow> Q a s"
  by (simp_all add: outcome_ok_def)

lemma outcome_ok_and_then:
  "outcome_ok (and_then m f) Q E \<longleftrightarrow> outcome_ok m (\<lambda>a s. outcome_ok (f a s) Q E) E"
  by (auto simp: outcome_ok_def and_then_def split: option.splits)

lemma outcome_ok_ask_in:
  "outcome_ok (ask_in s m f) Q E \<longleftrightarrow>
     m \<noteq> None \<and> (m = Some None \<longrightarrow> E s) \<and> (\<forall>a. m = Some (Some a) \<longrightarrow> outcome_ok (f a) Q E)"
  by (auto simp: outcome_ok_def ask_in_def split: option.splits)

lemma outcome_ok_mono:
  assumes "outcome_ok m Q E" and "\<And>a s. Q a s \<Longrightarrow> Q' a s" and "\<And>s. E s \<Longrightarrow> E' s"
  shows "outcome_ok m Q' E'"
  using assms by (auto simp: outcome_ok_def split: option.splits)

lemma outcome_okE:
  assumes "outcome_ok m Q E"
  obtains (returns) a s where "m = Some (Some a, s)" "Q a s" | (fails) s where "m = Some (None, s)" "E s"
proof (cases m)
  case (Some r)
  with assms that show thesis by (cases r; cases "fst r") auto
qed (use assms in simp)

lemma and_then_eq_SomeE:
  assumes "and_then m f = Some (Some b, s)"
  obtains a s' where "m = Some (Some a, s')" "f a s' = Some (Some b, s)"
  using assms by (auto simp: and_then_def split: option.splits)

lemma ask_in_eq_SomeE:
  assumes "ask_in s m f = Some (Some b, s')"
  obtains a where "m = Some (Some a)" "f a = Some (Some b, s')"
  using assms by (auto simp: ask_in_def split: option.splits)

lemma and_then_SomeE:
  assumes "and_then m f = Some (r, s)"
  obtains (fails) "m = Some (None, s)" "r = None" | (returns) a s' where "m = Some (Some a, s')" "f a s' = Some (r, s)"
proof (cases m)
  case (Some x)
  with assms that show thesis by (cases x; cases "fst x") auto
qed (use assms in simp)

lemma ask_in_SomeE:
  assumes "ask_in s m f = Some (r, s')"
  obtains (fails) "m = Some None" "r = None" "s' = s" | (returns) a where "m = Some (Some a)" "f a = Some (r, s')"
proof (cases m)
  case (Some x)
  with assms that show thesis by (cases x) auto
qed (use assms in simp)

lemma ask_eq_SomeE:
  assumes "ask m f = Some (Some b)"
  obtains a where "m = Some (Some a)" "f a = Some (Some b)"
  using assms by (auto simp: ask_def split: option.splits)

end
