(* ===== verification/Ext2_Format.thy ===== *)
theory Ext2_Format
  imports Fallible
begin

text \<open>
  The structures an ext2 file system keeps on disk (\<^verbatim>\<open>src/kernel/src/ext2.rs\<close>): superblock, extended
  superblock, block group descriptor, inode and directory entry header, all little-endian.

  The structs derive their codec from the third-party crate \<^verbatim>\<open>packed_struct\<close>: the fields follow each
  other without gaps in the order of their declaration. How one integer is packed and unpacked is the
  parameter \<open>codec\<close>, with the documented meaning of \<^verbatim>\<open>endian = "lsb"\<close> as the hypothesis \<open>lsb_codec\<close>.
\<close>

record codec =
  unpack_int :: "u8 list \<Rightarrow> u32"
  pack_int :: "nat \<Rightarrow> u32 \<Rightarrow> u8 list"

definition unpack_fields :: "codec \<Rightarrow> nat list \<Rightarrow> u8 list \<Rightarrow> u32 list" where
  "unpack_fields c sizes bs = map (unpack_int c) (chop sizes bs)"

definition pack_fields :: "codec \<Rightarrow> nat list \<Rightarrow> u32 list \<Rightarrow> u8 list" where
  "pack_fields c sizes vs = concat (map2 (pack_int c) sizes vs)"

section \<open>Superblocks\<close>

record Ext2SuperBlock =
  max_no_of_inodes :: u32
  max_no_of_blocks :: u32
  superuser_reserved_blocks :: u32
  unallocated_blocks :: u32
  unallocated_inodes :: u32
  superblock_block_number :: u32
  block_size_log2_minus_10 :: u32
  fragment_size_log2_minus_10 :: u32
  blocks_per_block_group :: u32
  fragments_per_block_group :: u32
  inodes_per_block_group :: u32
  last_mount_unix_timestamp :: u32
  last_written_unix_timestamp :: u32
  mounts_since_last_check :: u16
  mounts_allowed_before_check :: u16
  ext2_signature :: u16
  fs_state :: u16
  on_error :: u16
  minor_version :: u16
  last_check_unix_timestamp :: u32
  max_interval_between_checks :: u32
  os_id :: u32
  major_version :: u32
  uid_for_reserved_blocks :: u16
  gid_for_reserved_blocks :: u16

definition super_block_fields :: "nat list" where
  "super_block_fields = replicate 13 4 @ replicate 6 2 @ replicate 4 4 @ replicate 2 2"

fun super_block_from :: "u32 list \<Rightarrow> Ext2SuperBlock option" where
  "super_block_from [a1, a2, a3, a4, a5, a6, a7, a8, a9, a10, a11, a12, a13,
     b1, b2, b3, b4, b5, b6, c1, c2, c3, c4, d1, d2] = Some \<lparr>
     max_no_of_inodes = a1, max_no_of_blocks = a2, superuser_reserved_blocks = a3,
     unallocated_blocks = a4, unallocated_inodes = a5, superblock_block_number = a6,
     block_size_log2_minus_10 = a7, fragment_size_log2_minus_10 = a8, blocks_per_block_group = a9,
     fragments_per_block_group = a10, inodes_per_block_group = a11, last_mount_unix_timestamp = a12,
     last_written_unix_timestamp = a13, mounts_since_last_check = ucast b1,
     mounts_allowed_before_check = ucast b2, ext2_signature = ucast b3, fs_state = ucast b4,
     on_error = ucast b5, minor_version = ucast b6, last_check_unix_timestamp = c1,
     max_interval_between_checks = c2, os_id = c3, major_version = c4,
     uid_for_reserved_blocks = ucast d1, gid_for_reserved_blocks = ucast d2 \<rparr>"
| "super_block_from _ = None"

definition super_block_values :: "Ext2SuperBlock \<Rightarrow> u32 list" where
  "super_block_values s =
     [max_no_of_inodes s, max_no_of_blocks s, superuser_reserved_blocks s, unallocated_blocks s,
      unallocated_inodes s, superblock_block_number s, block_size_log2_minus_10 s,
      fragment_size_log2_minus_10 s, blocks_per_block_group s, fragments_per_block_group s,
      inodes_per_block_group s, last_mount_unix_timestamp s, last_written_unix_timestamp s,
      ucast (mounts_since_last_check s), ucast (mounts_allowed_before_check s),
      ucast (ext2_signature s), ucast (fs_state s), ucast (on_error s), ucast (minor_version s),
      last_check_unix_timestamp s, max_interval_between_checks s, os_id s, major_version s,
      ucast (uid_for_reserved_blocks s), ucast (gid_for_reserved_blocks s)]"

record Ext2ExtendedSuperblock =
  first_non_reserved_inode_in_fs :: u32
  inode_size :: u16
  block_group_of_this_superblock :: u16
  optional_features :: u32
  required_features :: u32
  write_features :: u32
  fs_id :: "u8 list"
  volume_name :: "u8 list"
  last_mounted :: "u8 list"
  compression_algorithm :: u32
  blocks_to_preallocate_for_files :: u8
  blocks_to_preallocate_for_directories :: u8
  unused1 :: u16
  journal_id :: "u8 list"
  journal_inode :: u32
  journal_device :: u32
  head_of_orphan_inode_list :: u32

text \<open>The byte arrays of the struct are packed byte by byte.\<close>

definition extended_fields_1 :: "nat list" where
  "extended_fields_1 = [4, 2, 2, 4, 4, 4]"

definition extended_fields_2 :: "nat list" where
  "extended_fields_2 = [4, 1, 1, 2]"

definition extended_fields_3 :: "nat list" where
  "extended_fields_3 = [4, 4, 4]"

definition extended_from_parts ::
  "u32 list \<Rightarrow> u8 list \<Rightarrow> u8 list \<Rightarrow> u8 list \<Rightarrow> u32 list \<Rightarrow> u8 list \<Rightarrow> u32 list \<Rightarrow> Ext2ExtendedSuperblock" where
  "extended_from_parts a i v m b j e = \<lparr>
     first_non_reserved_inode_in_fs = a ! 0, inode_size = ucast (a ! 1),
     block_group_of_this_superblock = ucast (a ! 2), optional_features = a ! 3,
     required_features = a ! 4, write_features = a ! 5, fs_id = i, volume_name = v, last_mounted = m,
     compression_algorithm = b ! 0, blocks_to_preallocate_for_files = ucast (b ! 1),
     blocks_to_preallocate_for_directories = ucast (b ! 2), unused1 = ucast (b ! 3), journal_id = j,
     journal_inode = e ! 0, journal_device = e ! 1, head_of_orphan_inode_list = e ! 2 \<rparr>"

definition unpack_extended :: "codec \<Rightarrow> u8 list \<Rightarrow> Ext2ExtendedSuperblock option" where
  "unpack_extended c bs =
     (if length bs \<noteq> 152 then None
      else Some (extended_from_parts (unpack_fields c extended_fields_1 (take 20 bs))
        (take 16 (drop 20 bs)) (take 16 (drop 36 bs)) (take 64 (drop 52 bs))
        (unpack_fields c extended_fields_2 (take 8 (drop 116 bs))) (take 16 (drop 124 bs))
        (unpack_fields c extended_fields_3 (take 12 (drop 140 bs)))))"

definition pack_extended :: "codec \<Rightarrow> Ext2ExtendedSuperblock \<Rightarrow> u8 list" where
  "pack_extended c e =
     pack_fields c extended_fields_1 [first_non_reserved_inode_in_fs e, ucast (inode_size e),
       ucast (block_group_of_this_superblock e), optional_features e, required_features e,
       write_features e]
   @ fs_id e @ volume_name e @ last_mounted e
   @ pack_fields c extended_fields_2 [compression_algorithm e,
       ucast (blocks_to_preallocate_for_files e), ucast (blocks_to_preallocate_for_directories e),
       ucast (unused1 e)]
   @ journal_id e
   @ pack_fields c extended_fields_3 [journal_inode e, journal_device e, head_of_orphan_inode_list e]"

definition has_unrecognised_required_features :: "Ext2ExtendedSuperblock \<Rightarrow> bool" where
  "has_unrecognised_required_features e \<longleftrightarrow> required_features e AND 0x000F \<noteq> required_features e"

definition has_unrecognised_write_required_features :: "Ext2ExtendedSuperblock \<Rightarrow> bool" where
  "has_unrecognised_write_required_features e \<longleftrightarrow> write_features e AND 0x0007 \<noteq> write_features e"

definition has_required_feature_compression :: "Ext2ExtendedSuperblock \<Rightarrow> bool" where
  "has_required_feature_compression e \<longleftrightarrow> required_features e AND 0x0001 \<noteq> 0"

definition has_required_feature_directory_entry_type_field :: "Ext2ExtendedSuperblock \<Rightarrow> bool" where
  "has_required_feature_directory_entry_type_field e \<longleftrightarrow> required_features e AND 0x0002 \<noteq> 0"

definition has_required_feature_replay_journal :: "Ext2ExtendedSuperblock \<Rightarrow> bool" where
  "has_required_feature_replay_journal e \<longleftrightarrow> required_features e AND 0x0004 \<noteq> 0"

definition has_required_feature_journal_device :: "Ext2ExtendedSuperblock \<Rightarrow> bool" where
  "has_required_feature_journal_device e \<longleftrightarrow> required_features e AND 0x0008 \<noteq> 0"

definition has_write_required_feature_sparse :: "Ext2ExtendedSuperblock \<Rightarrow> bool" where
  "has_write_required_feature_sparse e \<longleftrightarrow> write_features e AND 0x0001 \<noteq> 0"

definition has_write_required_feature_64bit_file_size :: "Ext2ExtendedSuperblock \<Rightarrow> bool" where
  "has_write_required_feature_64bit_file_size e \<longleftrightarrow> write_features e AND 0x0002 \<noteq> 0"

definition has_write_required_feature_directory_contents_binary_tree ::
  "Ext2ExtendedSuperblock \<Rightarrow> bool" where
  "has_write_required_feature_directory_contents_binary_tree e \<longleftrightarrow> write_features e AND 0x0004 \<noteq> 0"

section \<open>Block group descriptors\<close>

record Ext2BlockGroupDescriptor =
  block_addr_for_block_usage_bitmap :: u32
  block_addr_for_inode_usage_bitmap :: u32
  block_addr_for_inode_table :: u32
  unallocated_blocks_in_group :: u16
  unallocated_inodes_in_group :: u16
  directories_in_group :: u16

definition descriptor_fields :: "nat list" where
  "descriptor_fields = [4, 4, 4, 2, 2, 2]"

fun descriptor_from :: "u32 list \<Rightarrow> Ext2BlockGroupDescriptor option" where
  "descriptor_from [a1, a2, a3, a4, a5, a6] = Some \<lparr> block_addr_for_block_usage_bitmap = a1,
     block_addr_for_inode_usage_bitmap = a2, block_addr_for_inode_table = a3,
     unallocated_blocks_in_group = ucast a4, unallocated_inodes_in_group = ucast a5,
     directories_in_group = ucast a6 \<rparr>"
| "descriptor_from _ = None"

definition descriptor_values :: "Ext2BlockGroupDescriptor \<Rightarrow> u32 list" where
  "descriptor_values d =
     [block_addr_for_block_usage_bitmap d, block_addr_for_inode_usage_bitmap d,
      block_addr_for_inode_table d, ucast (unallocated_blocks_in_group d),
      ucast (unallocated_inodes_in_group d), ucast (directories_in_group d)]"

section \<open>Inodes\<close>

record Ext2RawInode =
  type_and_perm :: u16
  user_id :: u16
  low32_size :: u32
  last_access_unix_timestamp :: u32
  creation_unix_timestamp :: u32
  last_modif_unix_timestamp :: u32
  deletion_unix_timestamp :: u32
  group_id :: u16
  hard_links_to_inode :: u16
  disk_sectors_used :: u32
  inode_flags :: u32
  os_value_1 :: u32
  direct_block_pointers :: "u32 list"
  singly_indirect_block_pointer :: u32
  doubly_indirect_block_pointer :: u32
  triply_indirect_block_pointer :: u32
  generation_number :: u32
  ext2_majorv1_extended_attribute_block :: u32
  ext2_majorv1_upper32_size :: u32
  block_addr_of_fragment :: u32
  os_value_2 :: "u32 list"

definition inode_fields :: "nat list" where
  "inode_fields = replicate 2 2 @ replicate 5 4 @ replicate 2 2 @ replicate 25 4"

fun inode_from :: "u32 list \<Rightarrow> Ext2RawInode option" where
  "inode_from (a1 # a2 # a3 # a4 # a5 # a6 # a7 # b1 # b2 # c1 # c2 # c3 # ps) =
     (if length ps = 22 then Some \<lparr> type_and_perm = ucast a1, user_id = ucast a2, low32_size = a3,
        last_access_unix_timestamp = a4, creation_unix_timestamp = a5, last_modif_unix_timestamp = a6,
        deletion_unix_timestamp = a7, group_id = ucast b1, hard_links_to_inode = ucast b2,
        disk_sectors_used = c1, inode_flags = c2, os_value_1 = c3, direct_block_pointers = take 12 ps,
        singly_indirect_block_pointer = ps ! 12, doubly_indirect_block_pointer = ps ! 13,
        triply_indirect_block_pointer = ps ! 14, generation_number = ps ! 15,
        ext2_majorv1_extended_attribute_block = ps ! 16, ext2_majorv1_upper32_size = ps ! 17,
        block_addr_of_fragment = ps ! 18, os_value_2 = drop 19 ps \<rparr>
      else None)"
| "inode_from _ = None"

definition inode_values :: "Ext2RawInode \<Rightarrow> u32 list" where
  "inode_values i =
     [ucast (type_and_perm i), ucast (user_id i), low32_size i, last_access_unix_timestamp i,
      creation_unix_timestamp i, last_modif_unix_timestamp i, deletion_unix_timestamp i,
      ucast (group_id i), ucast (hard_links_to_inode i), disk_sectors_used i, inode_flags i,
      os_value_1 i]
   @ direct_block_pointers i
   @ [singly_indirect_block_pointer i, doubly_indirect_block_pointer i,
      triply_indirect_block_pointer i, generation_number i, ext2_majorv1_extended_attribute_block i,
      ext2_majorv1_upper32_size i, block_addr_of_fragment i]
   @ os_value_2 i"

definition default_inode :: Ext2RawInode where
  "default_inode = \<lparr> type_and_perm = 0, user_id = 0, low32_size = 0, last_access_unix_timestamp = 0,
     creation_unix_timestamp = 0, last_modif_unix_timestamp = 0, deletion_unix_timestamp = 0,
     group_id = 0, hard_links_to_inode = 0, disk_sectors_used = 0, inode_flags = 0, os_value_1 = 0,
     direct_block_pointers = replicate 12 0, singly_indirect_block_pointer = 0,
     doubly_indirect_block_pointer = 0, triply_indirect_block_pointer = 0, generation_number = 0,
     ext2_majorv1_extended_attribute_block = 0, ext2_majorv1_upper32_size = 0,
     block_addr_of_fragment = 0, os_value_2 = replicate 3 0 \<rparr>"

section \<open>Directory entries\<close>

record Ext2DirectoryEntryHeader =
  inode_addr :: u32
  entry_size :: u16
  name_length_low8 :: u8
  entry_type :: u8

definition entry_fields :: "nat list" where
  "entry_fields = [4, 2, 1, 1]"

fun entry_from :: "u32 list \<Rightarrow> Ext2DirectoryEntryHeader option" where
  "entry_from [a, b, c, d] = Some \<lparr> inode_addr = a, entry_size = ucast b, name_length_low8 = ucast c,
     entry_type = ucast d \<rparr>"
| "entry_from _ = None"

definition entry_values :: "Ext2DirectoryEntryHeader \<Rightarrow> u32 list" where
  "entry_values e = [inode_addr e, ucast (entry_size e), ucast (name_length_low8 e), ucast (entry_type e)]"

definition default_entry :: Ext2DirectoryEntryHeader where
  "default_entry = \<lparr> inode_addr = 0, entry_size = 8, name_length_low8 = 0, entry_type = 0 \<rparr>"

section \<open>Packing and unpacking\<close>

definition unpack_struct :: "codec \<Rightarrow> nat list \<Rightarrow> (u32 list \<Rightarrow> 'a option) \<Rightarrow> u8 list \<Rightarrow> 'a option" where
  "unpack_struct c sizes from bs =
     (if length bs \<noteq> sum_list sizes then None else from (unpack_fields c sizes bs))"

definition unpack_super_block :: "codec \<Rightarrow> u8 list \<Rightarrow> Ext2SuperBlock option" where
  "unpack_super_block c = unpack_struct c super_block_fields super_block_from"

definition pack_super_block :: "codec \<Rightarrow> Ext2SuperBlock \<Rightarrow> u8 list" where
  "pack_super_block c s = pack_fields c super_block_fields (super_block_values s)"

definition unpack_descriptor :: "codec \<Rightarrow> u8 list \<Rightarrow> Ext2BlockGroupDescriptor option" where
  "unpack_descriptor c = unpack_struct c descriptor_fields descriptor_from"

definition pack_descriptor :: "codec \<Rightarrow> Ext2BlockGroupDescriptor \<Rightarrow> u8 list" where
  "pack_descriptor c d = pack_fields c descriptor_fields (descriptor_values d)"

definition unpack_inode :: "codec \<Rightarrow> u8 list \<Rightarrow> Ext2RawInode option" where
  "unpack_inode c = unpack_struct c inode_fields inode_from"

definition pack_inode :: "codec \<Rightarrow> Ext2RawInode \<Rightarrow> u8 list" where
  "pack_inode c i = pack_fields c inode_fields (inode_values i)"

definition unpack_entry :: "codec \<Rightarrow> u8 list \<Rightarrow> Ext2DirectoryEntryHeader option" where
  "unpack_entry c = unpack_struct c entry_fields entry_from"

definition pack_entry :: "codec \<Rightarrow> Ext2DirectoryEntryHeader \<Rightarrow> u8 list" where
  "pack_entry c e = pack_fields c entry_fields (entry_values e)"

section \<open>Round trips\<close>

definition fits_field :: "nat \<Rightarrow> u32 \<Rightarrow> bool" where
  "fits_field n v \<longleftrightarrow> n \<le> 4 \<and> take_bit (8 * n) v = v"

lemma fits_field_4 [simp]: "fits_field 4 v"
  by (simp add: fits_field_def take_bit_word_eq_self)

lemma fits_field_ucast:
  "fits_field 2 (ucast (x :: u16))" "fits_field 1 (ucast (y :: u8))" "fits_field (Suc 0) (ucast y)"
  using bit_imp_le_length [of x] bit_imp_le_length [of y]
  by (auto simp: fits_field_def bit_simps intro!: bit_word_eqI)

lemma from_le_bytes_take_32:
  "n \<le> 4 \<Longrightarrow> from_le_bytes (take n (to_le_bytes v)) = take_bit (8 * n) (v :: u32)"
proof (rule bit_word_eqI)
  fix k assume n: "n \<le> 4" and "k < LENGTH(32)"
  then show "bit (from_le_bytes (take n (to_le_bytes v)) :: u32) k = bit (take_bit (8 * n) v) k"
    by (auto simp: bit_from_le_bytes bit_simps nth_to_le_bytes)
qed

lemma to_le_bytes_from_32:
  assumes "length bs \<le> 4"
  shows "take (length bs) (to_le_bytes (from_le_bytes bs :: u32)) = bs"
proof (rule nth_equalityI)
  show len: "length (take (length bs) (to_le_bytes (from_le_bytes bs :: u32))) = length bs"
    using assms by simp
  fix i assume "i < length (take (length bs) (to_le_bytes (from_le_bytes bs :: u32)))"
  then have i: "i < length bs" "i < 4" using assms by simp_all
  have "(ucast (drop_bit (8 * i) (from_le_bytes bs :: u32)) :: u8) = bs ! i"
  proof (rule bit_word_eqI)
    fix n assume "n < LENGTH(8)"
    with i show "bit (ucast (drop_bit (8 * i) (from_le_bytes bs :: u32)) :: u8) n = bit (bs ! i) n"
      by (auto simp: bit_simps bit_from_le_bytes)
  qed
  with i show "take (length bs) (to_le_bytes (from_le_bytes bs :: u32)) ! i = bs ! i"
    by (simp add: nth_to_le_bytes)
qed

locale lsb_codec =
  fixes c :: codec
  assumes unpack_lsb: "length bs \<le> 4 \<Longrightarrow> unpack_int c bs = from_le_bytes bs"
    and pack_lsb: "n \<le> 4 \<Longrightarrow> pack_int c n v = take n (to_le_bytes v)"
begin

lemma length_pack_fields:
  "list_all2 fits_field sizes vs \<Longrightarrow> length (pack_fields c sizes vs) = sum_list sizes"
  by (induction rule: list_all2_induct) (auto simp: pack_fields_def pack_lsb fits_field_def)

lemma unpack_pack_fields:
  "list_all2 fits_field sizes vs \<Longrightarrow> unpack_fields c sizes (pack_fields c sizes vs) = vs"
proof (induction rule: list_all2_induct)
  case (Cons n ns v vs)
  then have "length (pack_int c n v) = n" "unpack_int c (pack_int c n v) = v"
    by (simp_all add: pack_lsb unpack_lsb fits_field_def from_le_bytes_take_32)
  with Cons show ?case by (simp add: pack_fields_def unpack_fields_def)
qed (simp add: unpack_fields_def)

lemma pack_unpack_fields:
  "list_all (\<lambda>n. n \<le> 4) sizes \<Longrightarrow> length bs = sum_list sizes \<Longrightarrow>
     pack_fields c sizes (unpack_fields c sizes bs) = bs"
proof (induction sizes arbitrary: bs)
  case (Cons n ns)
  have "pack_int c n (unpack_int c (take n bs)) = take n bs"
    using Cons.prems to_le_bytes_from_32 [of "take n bs"] by (simp add: pack_lsb unpack_lsb)
  moreover have "pack_fields c ns (unpack_fields c ns (drop n bs)) = drop n bs"
    using Cons by simp
  ultimately show ?case by (simp add: pack_fields_def unpack_fields_def)
qed (simp add: pack_fields_def)

lemma unpack_struct_pack:
  assumes "list_all2 fits_field sizes vs"
  shows "unpack_struct c sizes from (pack_fields c sizes vs) = from vs"
  using assms by (simp add: unpack_struct_def length_pack_fields unpack_pack_fields)

end

definition le_codec :: codec where
  "le_codec = \<lparr> unpack_int = from_le_bytes, pack_int = (\<lambda>n v. take n (to_le_bytes v)) \<rparr>"

interpretation le_codec: lsb_codec le_codec
  by unfold_locales (simp_all add: le_codec_def)

named_theorems field_fits \<open>the values of a struct fit into its fields\<close>

lemma list_all2_replicate: "list_all2 P (replicate n x) ys \<longleftrightarrow> length ys = n \<and> list_all (P x) ys"
  by (auto simp: list_all2_conv_all_nth list_all_length)

lemma list_all2_replicate_append:
  "list_all2 P (replicate n x @ xs) ys \<longleftrightarrow>
     n \<le> length ys \<and> list_all (P x) (take n ys) \<and> list_all2 P xs (drop n ys)"
proof (induction n arbitrary: ys)
  case (Suc n)
  then show ?case by (cases ys) auto
qed simp

lemma super_block_fits [field_fits]: "list_all2 fits_field super_block_fields (super_block_values s)"
  by (simp add: super_block_fields_def super_block_values_def list_all2_replicate_append
      list_all2_replicate fits_field_ucast)

lemma descriptor_fits [field_fits]: "list_all2 fits_field descriptor_fields (descriptor_values d)"
  by (simp add: descriptor_fields_def descriptor_values_def fits_field_ucast)

lemma entry_fits [field_fits]: "list_all2 fits_field entry_fields (entry_values e)"
  by (simp add: entry_fields_def entry_values_def fits_field_ucast)

definition inode_arrays_ok :: "Ext2RawInode \<Rightarrow> bool" where
  "inode_arrays_ok i \<longleftrightarrow> length (direct_block_pointers i) = 12 \<and> length (os_value_2 i) = 3"

lemma inode_fits [field_fits]:
  assumes "inode_arrays_ok i"
  shows "list_all2 fits_field inode_fields (inode_values i)"
proof -
  have v: "inode_values i = [ucast (type_and_perm i), ucast (user_id i)]
    @ [low32_size i, last_access_unix_timestamp i, creation_unix_timestamp i, last_modif_unix_timestamp i,
       deletion_unix_timestamp i]
    @ [ucast (group_id i), ucast (hard_links_to_inode i)]
    @ ([disk_sectors_used i, inode_flags i, os_value_1 i] @ direct_block_pointers i
    @ [singly_indirect_block_pointer i, doubly_indirect_block_pointer i,
      triply_indirect_block_pointer i, generation_number i, ext2_majorv1_extended_attribute_block i,
      ext2_majorv1_upper32_size i, block_addr_of_fragment i] @ os_value_2 i)"
    by (simp add: inode_values_def)
  show ?thesis unfolding v inode_fields_def using assms
    by (intro list_all2_appendI)
      (simp_all add: list_all2_replicate fits_field_ucast inode_arrays_ok_def list_all_iff)
qed

lemma super_block_inverse: "super_block_from (super_block_values s) = Some s"
  by (simp add: super_block_values_def ucast_ucast_up)

lemma descriptor_inverse: "descriptor_from (descriptor_values d) = Some d"
  by (simp add: descriptor_values_def ucast_ucast_up)

lemma entry_inverse: "entry_from (entry_values e) = Some e"
  by (simp add: entry_values_def ucast_ucast_up)

lemma inode_inverse: "inode_arrays_ok i \<Longrightarrow> inode_from (inode_values i) = Some i"
  by (simp add: inode_values_def inode_arrays_ok_def ucast_ucast_up nth_append)

lemma default_inode_arrays_ok [simp]: "inode_arrays_ok default_inode"
  by (simp add: inode_arrays_ok_def default_inode_def)

context lsb_codec
begin

lemma super_block_round_trip: "unpack_super_block c (pack_super_block c s) = Some s"
  by (simp add: unpack_super_block_def pack_super_block_def unpack_struct_pack field_fits super_block_inverse)

lemma descriptor_round_trip: "unpack_descriptor c (pack_descriptor c d) = Some d"
  by (simp add: unpack_descriptor_def pack_descriptor_def unpack_struct_pack field_fits descriptor_inverse)

lemma inode_round_trip: "inode_arrays_ok i \<Longrightarrow> unpack_inode c (pack_inode c i) = Some i"
  by (simp add: unpack_inode_def pack_inode_def unpack_struct_pack field_fits inode_inverse)

lemma entry_round_trip: "unpack_entry c (pack_entry c e) = Some e"
  by (simp add: unpack_entry_def pack_entry_def unpack_struct_pack field_fits entry_inverse)

lemma length_pack:
  "length (pack_super_block c s) = 84" "length (pack_descriptor c d) = 18"
  "inode_arrays_ok i \<Longrightarrow> length (pack_inode c i) = 128" "length (pack_entry c e) = 8"
  unfolding pack_super_block_def pack_descriptor_def pack_inode_def pack_entry_def
  by (simp_all only: length_pack_fields field_fits)
    (simp_all add: super_block_fields_def descriptor_fields_def inode_fields_def entry_fields_def
      sum_list_replicate)

end

end
