(* ===== verification/Partitions.thy ===== *)
theory Partitions
  imports Prelude
begin

text \<open>
  Partitions of a disk (\<^verbatim>\<open>src/kernel/src/partitions.rs\<close>) and the folder of devices
  (\<^verbatim>\<open>src/kernel/src/devfs.rs\<close>).

  A file of the virtual file system is a trait object (\<^verbatim>\<open>IFile\<close>); here it is a record of its two
  operations on a state \<open>'d\<close>. What a partition relies on of its disk is the locale \<open>stored_file\<close>: the
  file has contents, a read inside of them returns them, a write inside of them replaces them. A
  partition of such a disk is again such a file, its contents a section of the disk. \<open>None\<close> is a panic.
\<close>

record 'd IFile =
  file_read :: "'d \<Rightarrow> u64 \<Rightarrow> u64 \<Rightarrow> u8 list option option"
  file_write :: "'d \<Rightarrow> u64 \<Rightarrow> u8 list \<Rightarrow> (u64 option \<times> 'd) option"

section \<open>The partition\<close>

definition partition_number_from :: "u64 \<Rightarrow> u8 option" where
  "partition_number_from value = (if value < 4 then Some (ucast value) else None)"

definition SECTOR_SIZE_IN_BYTES :: u64 where
  "SECTOR_SIZE_IN_BYTES = 256 * 2"

record 'd MBRPartitionFile =
  device :: 'd
  partition_offset :: u64
  partition_size :: u64
  partiton_number :: u8

definition partition_from :: "'d IFile \<Rightarrow> 'd \<Rightarrow> u8 \<Rightarrow> 'd MBRPartitionFile option option" where
  "partition_from io d number = do {
     let part_data_offset = ucast number * 16 + (0x1fe - 16 * 4);
     data \<leftarrow> file_read io d part_data_offset 16;
     (case data of
        None \<Rightarrow> Some None
      | Some part_data \<Rightarrow> do {
          system_id \<leftarrow> index part_data 4;
          if system_id = 0 then Some None
          else do {
            b8 \<leftarrow> index part_data 8; b9 \<leftarrow> index part_data 9;
            b10 \<leftarrow> index part_data 10; b11 \<leftarrow> index part_data 11;
            b12 \<leftarrow> index part_data 12; b13 \<leftarrow> index part_data 13;
            b14 \<leftarrow> index part_data 14; b15 \<leftarrow> index part_data 15;
            Some (Some \<lparr> device = d,
              partition_offset = ucast (from_le_bytes [b8, b9, b10, b11] :: u32) * SECTOR_SIZE_IN_BYTES,
              partition_size = ucast (from_le_bytes [b12, b13, b14, b15] :: u32) * SECTOR_SIZE_IN_BYTES,
              partiton_number = number \<rparr>) } }) }"

definition partition_read ::
  "'d IFile \<Rightarrow> 'd MBRPartitionFile \<Rightarrow> u64 \<Rightarrow> u64 \<Rightarrow> u8 list option option" where
  "partition_read io p offset len = do {
     to \<leftarrow> checked_add offset len;
     if to > partition_size p then Some None
     else do {
       start \<leftarrow> checked_add offset (partition_offset p);
       file_read io (device p) start len } }"

definition partition_write ::
  "'d IFile \<Rightarrow> 'd MBRPartitionFile \<Rightarrow> u64 \<Rightarrow> u8 list \<Rightarrow> (u64 option \<times> 'd MBRPartitionFile) option" where
  "partition_write io p offset data = do {
     to \<leftarrow> checked_add offset (of_nat (length data));
     if to > partition_size p then Some (None, p)
     else do {
       start \<leftarrow> checked_add offset (partition_offset p);
       (n, d) \<leftarrow> file_write io (device p) start data;
       Some (n, p\<lparr>device := d\<rparr>) } }"

definition partition_get_size :: "'d MBRPartitionFile \<Rightarrow> u64" where
  "partition_get_size p = partition_size p"

definition partition_resize :: "'d MBRPartitionFile \<Rightarrow> u64 \<Rightarrow> unit option" where
  "partition_resize p new_size = None"

definition partition_io :: "'d IFile \<Rightarrow> 'd MBRPartitionFile IFile" where
  "partition_io io = \<lparr> file_read = partition_read io, file_write = partition_write io \<rparr>"

section \<open>The folder of devices\<close>

type_synonym 'f DevFS = "(string \<times> 'f) list"

definition DevFS_new :: "'f DevFS" where
  "DevFS_new = []"

definition add_device_file :: "'f DevFS \<Rightarrow> 'f \<Rightarrow> string \<Rightarrow> 'f DevFS" where
  "add_device_file slf dev name = slf @ [(name, dev)]"

section \<open>Files with contents\<close>

text \<open>Replacing a part of a list.\<close>

definition replace_at :: "'a list \<Rightarrow> nat \<Rightarrow> 'a list \<Rightarrow> 'a list" where
  "replace_at xs i ys = take i xs @ ys @ drop (i + length ys) xs"

lemma length_replace_at [simp]: "i + length ys \<le> length xs \<Longrightarrow> length (replace_at xs i ys) = length xs"
  by (simp add: replace_at_def)

lemma replace_at_middle:
  "i + length ys \<le> length bs \<Longrightarrow> replace_at (as @ bs @ cs) (length as + i) ys = as @ replace_at bs i ys @ cs"
  by (simp add: replace_at_def)

lemma replace_at_in_section:
  assumes "i + length ys \<le> sz" "off + sz \<le> length xs"
  shows "take sz (drop off (replace_at xs (off + i) ys)) = replace_at (take sz (drop off xs)) i ys"
    and "take off (replace_at xs (off + i) ys) = take off xs"
    and "drop (off + sz) (replace_at xs (off + i) ys) = drop (off + sz) xs"
proof -
  define as bs cs where parts: "as = take off xs" "bs = take sz (drop off xs)" "cs = drop (off + sz) xs"
  have "drop off xs = bs @ cs" unfolding parts by (metis add.commute append_take_drop_id drop_drop)
  then have xs: "xs = as @ bs @ cs" unfolding parts by (metis append_take_drop_id)
  have len: "length as = off" "length bs = sz" using assms(2) by (simp_all add: parts)
  have new: "replace_at xs (off + i) ys = as @ replace_at bs i ys @ cs"
    using replace_at_middle [of i ys bs as cs] assms(1) len xs by simp
  have lr: "length (replace_at bs i ys) = sz" using assms(1) len by simp
  show "take sz (drop off (replace_at xs (off + i) ys)) = replace_at (take sz (drop off xs)) i ys"
    unfolding new parts(2) [symmetric] using len lr by simp
  show "take off (replace_at xs (off + i) ys) = take off xs"
    unfolding new parts(1) [symmetric] using len by simp
  show "drop (off + sz) (replace_at xs (off + i) ys) = drop (off + sz) xs"
    unfolding new parts(3) [symmetric] using len lr by simp
qed

locale stored_file =
  fixes io :: "'d IFile"
    and contents :: "'d \<Rightarrow> u8 list"
    and valid :: "'d \<Rightarrow> bool"
  assumes contents_small: "valid d \<Longrightarrow> length (contents d) < 2 ^ 64"
    and read_inside: "valid d \<Longrightarrow> unat off + unat len \<le> length (contents d) \<Longrightarrow>
      file_read io d off len = Some (Some (take (unat len) (drop (unat off) (contents d))))"
    and write_inside: "valid d \<Longrightarrow> unat off + length data \<le> length (contents d) \<Longrightarrow>
      \<exists>d'. file_write io d off data = Some (Some (of_nat (length data)), d')
        \<and> valid d' \<and> contents d' = replace_at (contents d) (unat off) data"
begin

text \<open>What was written is read back.\<close>

lemma read_after_write:
  assumes "valid d" "unat off + length data \<le> length (contents d)"
  shows "\<exists>d'. file_write io d off data = Some (Some (of_nat (length data)), d')
    \<and> file_read io d' off (of_nat (length data)) = Some (Some data)"
proof -
  from write_inside [OF assms] obtain d' where d: "file_write io d off data = Some (Some (of_nat (length data)), d')"
    "valid d'" "contents d' = replace_at (contents d) (unat off) data" by blast
  have "length data < 2 ^ 64" using assms contents_small [OF assms(1)] by linarith
  then have u: "unat (of_nat (length data) :: u64) = length data"
    by (simp add: unsigned_of_nat take_bit_nat_eq_self)
  have "file_read io d' off (of_nat (length data)) =
      Some (Some (take (length data) (drop (unat off) (contents d'))))"
    using read_inside [OF d(2), of off "of_nat (length data)"] assms(2) by (simp add: u d(3))
  moreover have "take (length data) (drop (unat off) (contents d')) = data"
    using assms(2) by (simp add: d(3) replace_at_def)
  ultimately show ?thesis using d(1) by simp
qed

end

text \<open>A partition of a stored file.\<close>

definition partition_contents :: "('d \<Rightarrow> u8 list) \<Rightarrow> 'd MBRPartitionFile \<Rightarrow> u8 list" where
  "partition_contents contents p =
     take (unat (partition_size p)) (drop (unat (partition_offset p)) (contents (device p)))"

definition partition_wf :: "('d \<Rightarrow> u8 list) \<Rightarrow> ('d \<Rightarrow> bool) \<Rightarrow> 'd MBRPartitionFile \<Rightarrow> bool" where
  "partition_wf contents valid p \<longleftrightarrow> valid (device p) \<and>
     unat (partition_offset p) + unat (partition_size p) \<le> length (contents (device p))"

lemma unat_below: "unat (x :: u64) < 2 ^ 64"
  using unsigned_less [of x] by simp

lemma partition_end_check:
  assumes "partition_wf contents valid p" "unat off + n \<le> unat (partition_size p)"
    and "length (contents (device p)) < 2 ^ 64" "unat len = n"
  shows "checked_add off len = Some (off + len)" "\<not> off + len > partition_size p"
    "checked_add off (partition_offset p) = Some (off + partition_offset p)"
    "unat (off + partition_offset p) = unat (partition_offset p) + unat off"
proof -
  have size: "unat (partition_size p) < 2 ^ 64" by (rule unat_below)
  have off: "unat off + unat (partition_offset p) < 2 ^ 64"
    using assms(1-3) by (simp add: partition_wf_def)
  show "checked_add off len = Some (off + len)" using assms(2,4) size by (simp add: checked_add_nat)
  have "unat (off + len) = unat off + n" using assms(2,4) size by (simp add: unat_word_ariths)
  then show "\<not> off + len > partition_size p" using assms(2) by (simp add: word_less_nat_alt)
  show "checked_add off (partition_offset p) = Some (off + partition_offset p)"
    using off by (simp add: checked_add_nat)
  show "unat (off + partition_offset p) = unat (partition_offset p) + unat off"
    using off by (simp add: unat_word_ariths)
qed

lemma partition_write_effect:
  assumes "stored_file io contents valid" "partition_wf contents valid p"
    and "unat off + length data \<le> unat (partition_size p)"
  shows "\<exists>d. partition_write io p off data = Some (Some (of_nat (length data)), p\<lparr>device := d\<rparr>)
    \<and> valid d \<and> contents d = replace_at (contents (device p)) (unat (partition_offset p) + unat off) data"
proof -
  have valid: "valid (device p)" using assms(2) by (simp add: partition_wf_def)
  then have small: "length (contents (device p)) < 2 ^ 64"
    by (rule stored_file.contents_small [OF assms(1)])
  have "unat (partition_size p) < 2 ^ 64" by (rule unat_below)
  then have "unat (of_nat (length data) :: u64) = length data"
    using assms(3) by (simp add: unsigned_of_nat take_bit_nat_eq_self)
  note chk = partition_end_check [OF assms(2,3) small this]
  have "unat (off + partition_offset p) + length data \<le> length (contents (device p))"
    using assms(2,3) unfolding chk(4) partition_wf_def by linarith
  from stored_file.write_inside [OF assms(1) valid this] chk show ?thesis
    by (auto simp: partition_write_def)
qed

lemma partition_stored:
  assumes "stored_file io contents valid"
  shows "stored_file (partition_io io) (partition_contents contents) (partition_wf contents valid)"
proof
  fix p assume "partition_wf contents valid p"
  then have "length (contents (device p)) < 2 ^ 64"
    using stored_file.contents_small [OF assms] by (simp add: partition_wf_def)
  then show "length (partition_contents contents p) < 2 ^ 64"
    unfolding partition_contents_def using unat_below [of "partition_size p"]
    by simp
next
  fix p and off len :: u64
  assume p: "partition_wf contents valid p" and "unat off + unat len \<le> length (partition_contents contents p)"
  then have inside: "unat off + unat len \<le> unat (partition_size p)" by (simp add: partition_contents_def)
  have valid: "valid (device p)" using p by (simp add: partition_wf_def)
  then have small: "length (contents (device p)) < 2 ^ 64" by (rule stored_file.contents_small [OF assms])
  note chk = partition_end_check [OF p inside small refl]
  have "unat (off + partition_offset p) + unat len \<le> length (contents (device p))"
    using p inside unfolding chk(4) partition_wf_def by linarith
  from stored_file.read_inside [OF assms valid this] chk inside
  show "file_read (partition_io io) p off len =
      Some (Some (take (unat len) (drop (unat off) (partition_contents contents p))))"
    by (simp add: partition_io_def partition_read_def partition_contents_def drop_take min_def add.commute)
next
  fix p and off :: u64 and data :: "u8 list"
  assume p: "partition_wf contents valid p" and "unat off + length data \<le> length (partition_contents contents p)"
  then have inside: "unat off + length data \<le> unat (partition_size p)" by (simp add: partition_contents_def)
  from partition_write_effect [OF assms p this] obtain d where
    d: "partition_write io p off data = Some (Some (of_nat (length data)), p\<lparr>device := d\<rparr>)" "valid d"
      "contents d = replace_at (contents (device p)) (unat (partition_offset p) + unat off) data" by blast
  have fit: "unat (partition_offset p) + unat (partition_size p) \<le> length (contents (device p))"
    using p by (simp add: partition_wf_def)
  have "partition_wf contents valid (p\<lparr>device := d\<rparr>)" using d(2,3) fit inside by (simp add: partition_wf_def)
  moreover have "partition_contents contents (p\<lparr>device := d\<rparr>) = replace_at (partition_contents contents p) (unat off) data"
    using replace_at_in_section(1) [OF inside fit] by (simp add: partition_contents_def d(3))
  ultimately show "\<exists>p'. file_write (partition_io io) p off data = Some (Some (of_nat (length data)), p')
      \<and> partition_wf contents valid p' \<and> partition_contents contents p' = replace_at (partition_contents contents p) (unat off) data"
    using d(1) by (auto simp: partition_io_def)
qed


text \<open>
  A partition is confined: a write through a partition, wherever it is aimed, changes no byte
  of the disk before or behind the partition; one that does not fit is refused and changes nothing.
\<close>

theorem partition_write_confined:
  assumes "stored_file io contents valid" and "partition_wf contents valid p"
    and "partition_write io p off data = Some (n, p')" and "length data < 2 ^ 64"
  shows "take (unat (partition_offset p)) (contents (device p')) = take (unat (partition_offset p)) (contents (device p))
    \<and> drop (unat (partition_offset p) + unat (partition_size p)) (contents (device p'))
      = drop (unat (partition_offset p) + unat (partition_size p)) (contents (device p))
    \<and> (n = None \<longrightarrow> p' = p)"
proof (cases "unat off + length data \<le> unat (partition_size p)")
  case True
  from partition_write_effect [OF assms(1,2) True] assms(3) obtain d where
    d: "p' = p\<lparr>device := d\<rparr>" "n = Some (of_nat (length data))"
      "contents d = replace_at (contents (device p)) (unat (partition_offset p) + unat off) data"
    by auto
  have "unat (partition_offset p) + unat (partition_size p) \<le> length (contents (device p))"
    using assms(2) by (simp add: partition_wf_def)
  from True d replace_at_in_section(2,3) [OF True this]
  show ?thesis by simp
next
  case False
  have u: "unat (of_nat (length data) :: u64) = length data"
    using assms(4) by (simp add: unsigned_of_nat take_bit_nat_eq_self)
  from assms(3) obtain to where to: "checked_add off (of_nat (length data)) = Some to"
    by (auto simp: partition_write_def bind_eq_Some_conv)
  then have "unat to = unat off + length data" using checked_add_unat u by metis
  with False have "to > partition_size p" by (simp add: word_less_nat_alt)
  with assms(3) to show ?thesis by (simp add: partition_write_def)
qed

section \<open>A disk in memory\<close>

definition ram_disk :: "u8 list IFile" where
  "ram_disk = \<lparr>
     file_read = (\<lambda>d off len. Some (if unat off + unat len \<le> length d
       then Some (take (unat len) (drop (unat off) d)) else None)),
     file_write = (\<lambda>d off data. Some (if unat off + length data \<le> length d
       then (Some (of_nat (length data)), replace_at d (unat off) data) else (None, d))) \<rparr>"

interpretation ram_disk: stored_file ram_disk id "\<lambda>d. length d < 2 ^ 64"
  by unfold_locales (auto simp: ram_disk_def)

interpretation ram_partition: stored_file "partition_io ram_disk" "partition_contents id"
  "partition_wf id (\<lambda>d. length d < 2 ^ 64)"
  by (rule partition_stored [OF ram_disk.stored_file_axioms])

definition demo_disk :: "u8 list" where
  "demo_disk = map of_nat [0..<20]"

definition demo_partition :: "u8 list MBRPartitionFile" where
  "demo_partition = \<lparr> device = demo_disk, partition_offset = 4, partition_size = 8, partiton_number = 0 \<rparr>"


theorem partition_write_confined_witness:
  "\<exists>n p'. partition_write ram_disk demo_partition 6 [1, 2] = Some (n, p')
     \<and> take 4 (device p') = take 4 demo_disk \<and> drop 12 (device p') = drop 12 demo_disk"
proof -
  obtain n p' where w: "partition_write ram_disk demo_partition 6 [1, 2] = Some (n, p')"
    by (simp add: partition_write_def demo_partition_def ram_disk_def checked_add_def demo_disk_def)
  have wf: "partition_wf id (\<lambda>d. length d < 2 ^ 64) demo_partition"
    by (simp add: partition_wf_def demo_partition_def demo_disk_def)
  from partition_write_confined [OF ram_disk.stored_file_axioms wf w] w show ?thesis
    by (simp add: demo_partition_def)
qed

text \<open>
  The partition table: entry \<open>n\<close> is read at byte \<open>446 + 16 n\<close> of the disk; an entry of type 0 is no
  partition, otherwise its start and length are the little-endian sector numbers at bytes 8 and 12.
\<close>

lemma unat_ucast_up: "unat (ucast (x :: u8) :: u64) = unat x"
  by transfer (simp add: take_bit_take_bit)

lemma partition_from_entry:
  assumes "stored_file io contents valid" "valid d" "510 \<le> length (contents d)" "number < 4"
    and "entry = take 16 (drop (446 + 16 * unat number) (contents d))"
  shows "partition_from io d number = Some (if entry ! 4 = 0 then None else Some
    \<lparr> device = d,
      partition_offset = ucast (from_le_bytes (take 4 (drop 8 entry)) :: u32) * 512,
      partition_size = ucast (from_le_bytes (take 4 (drop 12 entry)) :: u32) * 512,
      partiton_number = number \<rparr>)"
proof -
  have n: "unat number < 4" using assms(4) by (simp add: word_less_nat_alt)
  have "unat (ucast number * 16 + (0x1fe - 16 * 4) :: u64) = 446 + 16 * unat number"
    using n by (simp add: unat_word_ariths unat_ucast_up)
  moreover have "446 + 16 * unat number + 16 \<le> length (contents d)" using n assms(3) by linarith
  ultimately have "file_read io d (ucast number * 16 + (0x1fe - 16 * 4)) 16 = Some (Some entry)"
    using stored_file.read_inside [OF assms(1,2), of "ucast number * 16 + (0x1fe - 16 * 4)" 16] assms(5)
    by simp
  moreover have len: "length entry = 16" using n assms(3,5) by simp
  moreover have "take 4 (drop k entry) = [entry ! k, entry ! (k + 1), entry ! (k + 2), entry ! (k + 3)]"
    if "k + 4 \<le> 16" for k
    using that len by (intro nth_equalityI) (auto simp: less_Suc_eq numeral_eq_Suc)
  from this [of 8] this [of 12]
  have "take 4 (drop 8 entry) = [entry ! 8, entry ! 9, entry ! 10, entry ! 11]"
    "take 4 (drop 12 entry) = [entry ! 12, entry ! 13, entry ! 14, entry ! 15]" by simp_all
  ultimately show ?thesis by (simp add: partition_from_def SECTOR_SIZE_IN_BYTES_def)
qed

end
