(* ===== verification/Ext2_Fs.thy ===== *)
theory Ext2_Fs
  imports Ext2_Format Partitions
begin

text \<open>
  The ext2 file system (\<^verbatim>\<open>struct Ext2FS\<close> in \<^verbatim>\<open>src/kernel/src/ext2.rs\<close>): blocks, the block and inode
  bitmaps of the block groups, and the inode tables.

  The device is a file of the virtual file system (\<open>IFile\<close>); together with the codec of
  \<^verbatim>\<open>packed_struct\<close> it is the environment \<open>Ext2Env\<close>. The messages on the serial port are left out.
  The kernel is built with debug assertions, so that \<^verbatim>\<open>write\<close> reads back what it wrote. An arithmetic
  overflow is a panic: byte addresses are computed in 32 bits.
\<close>

record 'd Ext2Env =
  env_io :: "'d IFile"
  env_codec :: codec

record 'd Ext2FS =
  backing_device :: 'd
  sb :: Ext2SuperBlock
  extended_sb :: "Ext2ExtendedSuperblock option"
  read_only :: bool

section \<open>Sizes\<close>

text \<open>\<^verbatim>\<open>a / b + if a % b != 0 { 1 } else { 0 }\<close>\<close>

definition ceil_div :: "'a::len word \<Rightarrow> 'a word \<Rightarrow> 'a word option" where
  "ceil_div a b = do {
     q \<leftarrow> checked_div a b;
     r \<leftarrow> checked_mod a b;
     checked_add q (if r \<noteq> 0 then 1 else 0) }"

definition get_block_size :: "'d Ext2FS \<Rightarrow> u32 option" where
  "get_block_size fs = do {
     n \<leftarrow> checked_add (block_size_log2_minus_10 (sb fs)) 10;
     if n < 32 then Some (2 ^ unat n) else None }"

definition get_ondisk_directory_entry_header_size :: u64 where
  "get_ondisk_directory_entry_header_size = 8"

definition get_ondisk_block_group_descriptor_size :: u64 where
  "get_ondisk_block_group_descriptor_size = 32"

definition get_ondisk_super_block_size :: u64 where
  "get_ondisk_super_block_size = 84"

definition get_ondisk_inode_size :: "'d Ext2FS \<Rightarrow> u64 option" where
  "get_ondisk_inode_size fs =
     (if major_version (sb fs) \<ge> 1 then map_option (\<lambda>esb. ucast (inode_size esb)) (extended_sb fs)
      else Some 128)"

definition get_number_of_block_groups :: "'d Ext2FS \<Rightarrow> u32 option" where
  "get_number_of_block_groups fs = do {
     by_blocks \<leftarrow> ceil_div (max_no_of_blocks (sb fs)) (blocks_per_block_group (sb fs));
     by_inodes \<leftarrow> ceil_div (max_no_of_inodes (sb fs)) (inodes_per_block_group (sb fs));
     assert_that (by_blocks = by_inodes);
     Some by_blocks }"

definition get_number_of_special_blocks :: "'d Ext2FS \<Rightarrow> u64 option" where
  "get_number_of_special_blocks fs = do {
     bs \<leftarrow> get_block_size fs;
     initial_blocks \<leftarrow> ceil_div (1024 + 1024) (ucast bs);
     groups \<leftarrow> get_number_of_block_groups fs;
     table \<leftarrow> checked_mul get_ondisk_block_group_descriptor_size (ucast groups);
     table_blocks \<leftarrow> ceil_div table (ucast bs);
     checked_add initial_blocks table_blocks }"

definition get_descriptor_index_of_block_number :: "'d Ext2FS \<Rightarrow> u32 \<Rightarrow> u32 option option" where
  "get_descriptor_index_of_block_number fs block_number = do {
     special \<leftarrow> get_number_of_special_blocks fs;
     if block_number < ucast special then Some None
     else do {
       n \<leftarrow> checked_sub block_number (ucast special);
       q \<leftarrow> checked_div n (blocks_per_block_group (sb fs));
       Some (Some q) } }"

definition get_descriptor_subindex_of_block_number :: "'d Ext2FS \<Rightarrow> u32 \<Rightarrow> u32 option option" where
  "get_descriptor_subindex_of_block_number fs block_number = do {
     special \<leftarrow> get_number_of_special_blocks fs;
     if block_number < ucast special then Some None
     else do {
       n \<leftarrow> checked_sub block_number (ucast special);
       r \<leftarrow> checked_mod n (blocks_per_block_group (sb fs));
       Some (Some r) } }"

definition get_descriptor_index_of_inode_addr :: "'d Ext2FS \<Rightarrow> u32 \<Rightarrow> u32 option" where
  "get_descriptor_index_of_inode_addr fs addr = do {
     n \<leftarrow> checked_sub addr 1;
     checked_div n (inodes_per_block_group (sb fs)) }"

definition get_descriptor_subindex_of_inode_addr :: "'d Ext2FS \<Rightarrow> u32 \<Rightarrow> u32 option" where
  "get_descriptor_subindex_of_inode_addr fs addr = do {
     n \<leftarrow> checked_sub addr 1;
     checked_mod n (inodes_per_block_group (sb fs)) }"

section \<open>Bytes and blocks\<close>

definition fs_read :: "'d Ext2Env \<Rightarrow> 'd Ext2FS \<Rightarrow> u32 \<Rightarrow> u64 \<Rightarrow> u8 list option option" where
  "fs_read e fs addr len = file_read (env_io e) (backing_device fs) (ucast addr) len"

definition sanity_check_write ::
  "'d Ext2Env \<Rightarrow> 'd Ext2FS \<Rightarrow> u32 \<Rightarrow> u8 list \<Rightarrow> (nat option + unit) option" where
  "sanity_check_write e fs addr written_data = do {
     r \<leftarrow> fs_read e fs addr (of_nat (length written_data));
     Some (case r of
         None \<Rightarrow> Inl None
       | Some read_back_data \<Rightarrow>
           (case find (\<lambda>i. length read_back_data \<le> i \<or> read_back_data ! i \<noteq> written_data ! i)
              [0 ..< length written_data] of
              Some i \<Rightarrow> Inl (Some i)
            | None \<Rightarrow> Inr ())) }"

definition fs_write :: "'d Ext2Env \<Rightarrow> u32 \<Rightarrow> u8 list \<Rightarrow> 'd Ext2FS \<Rightarrow> (u64, 'd Ext2FS) outcome" where
  "fs_write e addr data fs =
     (if read_only fs then Some (None, fs)
      else do {
        (res, d) \<leftarrow> file_write (env_io e) (backing_device fs) (ucast addr) data;
        let fs = fs\<lparr>backing_device := d\<rparr>;
        check \<leftarrow> sanity_check_write e fs addr data;
        (case check of
           Inl _ \<Rightarrow> Some (None, fs)
         | Inr _ \<Rightarrow> Some (res, fs)) })"

definition read_block :: "'d Ext2Env \<Rightarrow> 'd Ext2FS \<Rightarrow> u32 \<Rightarrow> u8 list option option" where
  "read_block e fs number =
     (if number = 0 then Some None
      else do {
        bs \<leftarrow> get_block_size fs;
        addr \<leftarrow> checked_mul bs number;
        fs_read e fs addr (ucast bs) })"

definition write_block :: "'d Ext2Env \<Rightarrow> u32 \<Rightarrow> u8 list \<Rightarrow> 'd Ext2FS \<Rightarrow> (unit, 'd Ext2FS) outcome" where
  "write_block e number data fs = do {
     bs \<leftarrow> get_block_size fs;
     assert_that (length data = unat bs);
     if number = 0 then Some (None, fs)
     else do {
       addr \<leftarrow> checked_mul bs number;
       and_then (fs_write e addr data fs) (\<lambda>bytes_written fs.
         if bytes_written < ucast bs then Some (None, fs) else Some (Some (), fs)) } }"

section \<open>Block group descriptors and superblocks\<close>

definition descriptor_table_addr :: "'d Ext2FS \<Rightarrow> u32 option" where
  "descriptor_table_addr fs = do {
     bs \<leftarrow> get_block_size fs;
     q \<leftarrow> checked_div (1024 + 1024) bs;
     checked_mul q bs }"

definition read_block_group_descriptor ::
  "'d Ext2Env \<Rightarrow> 'd Ext2FS \<Rightarrow> u32 \<Rightarrow> Ext2BlockGroupDescriptor option option" where
  "read_block_group_descriptor e fs gi = do {
     offset \<leftarrow> checked_mul gi (ucast get_ondisk_block_group_descriptor_size);
     table_addr \<leftarrow> descriptor_table_addr fs;
     addr \<leftarrow> checked_add table_addr offset;
     ask (fs_read e fs addr 18) (\<lambda>raw. Some (unpack_descriptor (env_codec e) raw)) }"

definition write_block_group_descriptor ::
  "'d Ext2Env \<Rightarrow> u32 \<Rightarrow> Ext2BlockGroupDescriptor \<Rightarrow> 'd Ext2FS \<Rightarrow> (unit, 'd Ext2FS) outcome" where
  "write_block_group_descriptor e gi descriptor fs = do {
     offset \<leftarrow> checked_mul gi (ucast get_ondisk_block_group_descriptor_size);
     table_addr \<leftarrow> descriptor_table_addr fs;
     addr \<leftarrow> checked_add table_addr offset;
     and_then (fs_write e addr (pack_descriptor (env_codec e) descriptor) fs) (\<lambda>_ fs. Some (Some (), fs)) }"

definition flush_super_blocks :: "'d Ext2Env \<Rightarrow> 'd Ext2FS \<Rightarrow> (unit, 'd Ext2FS) outcome" where
  "flush_super_blocks e fs =
     and_then (fs_write e 1024 (pack_super_block (env_codec e) (sb fs)) fs) (\<lambda>_ fs.
       (case extended_sb fs of
          Some esb \<Rightarrow>
            and_then (fs_write e (1024 + ucast get_ondisk_super_block_size)
              (pack_extended (env_codec e) esb) fs) (\<lambda>_ fs. Some (Some (), fs))
        | None \<Rightarrow> Some (Some (), fs)))"

text \<open>\<^verbatim>\<open>Drop\<close> of the file system: the superblocks are written, the result is not looked at.\<close>

definition ext2fs_drop :: "'d Ext2Env \<Rightarrow> 'd Ext2FS \<Rightarrow> 'd Ext2FS option" where
  "ext2fs_drop e fs = map_option snd (flush_super_blocks e fs)"

definition ext2fs_new :: "'d Ext2Env \<Rightarrow> 'd \<Rightarrow> bool \<Rightarrow> 'd Ext2FS option option" where
  "ext2fs_new e d ro =
     ask (file_read (env_io e) d 1024 84) (\<lambda>sb_data.
     ask (Some (unpack_super_block (env_codec e) sb_data)) (\<lambda>s.
       if inodes_per_block_group s < 1 then Some None
       else if major_version s \<ge> 1 then
         ask (file_read (env_io e) d (1024 + get_ondisk_super_block_size) 152) (\<lambda>extended_sb_data.
         ask (Some (unpack_extended (env_codec e) extended_sb_data)) (\<lambda>esb.
           if has_unrecognised_required_features esb then Some None
           else if has_required_feature_compression esb then Some None
           else if has_required_feature_journal_device esb then Some None
           else if has_required_feature_replay_journal esb then Some None
           else
             (let ro = (if has_unrecognised_write_required_features esb then True else ro);
                  ro = (if has_write_required_feature_directory_contents_binary_tree esb then True else ro)
              in Some (Some \<lparr> backing_device = d, sb = s, extended_sb = Some esb, read_only = ro \<rparr>))))
       else Some (Some \<lparr> backing_device = d, sb = s, extended_sb = None, read_only = ro \<rparr>)))"

section \<open>The block bitmap\<close>

definition dealloc_block :: "'d Ext2Env \<Rightarrow> u32 \<Rightarrow> 'd Ext2FS \<Rightarrow> (unit, 'd Ext2FS) outcome" where
  "dealloc_block e number fs =
     (if unallocated_blocks (sb fs) = max_no_of_blocks (sb fs) then Some (None, fs)
      else
        ask_in fs (get_descriptor_index_of_block_number fs number) (\<lambda>gi.
        ask_in fs (get_descriptor_subindex_of_block_number fs number) (\<lambda>offset.
        ask_in fs (read_block_group_descriptor e fs gi) (\<lambda>descriptor.
          if ucast (unallocated_blocks_in_group descriptor) = blocks_per_block_group (sb fs) then None
          else
            ask_in fs (read_block e fs (block_addr_for_block_usage_bitmap descriptor)) (\<lambda>bitmap. do {
              val_to_edit \<leftarrow> index bitmap (unat (offset div 8));
              if val_to_edit AND push_bit (unat (offset mod 8)) 1 = 0 then Some (None, fs)
              else do {
                let val_to_edit = val_to_edit AND NOT (push_bit (unat (offset mod 8)) 1);
                let bitmap = bitmap[unat (offset div 8) := val_to_edit];
                (_, fs) \<leftarrow> write_block e (block_addr_for_block_usage_bitmap descriptor) bitmap fs;
                n \<leftarrow> checked_add (unallocated_blocks_in_group descriptor) 1;
                and_then (write_block_group_descriptor e gi
                    (descriptor\<lparr>unallocated_blocks_in_group := n\<rparr>) fs) (\<lambda>_ fs. do {
                  m \<leftarrow> checked_add (unallocated_blocks (sb fs)) 1;
                  (_, fs) \<leftarrow> flush_super_blocks e (fs\<lparr>sb := (sb fs)\<lparr>unallocated_blocks := m\<rparr>\<rparr>);
                  Some (Some (), fs) }) } })))))"

text \<open>The loop that looks for a bit that is 0; a shift of a byte by 8 is an overflow.\<close>

function found_bit :: "u8 \<Rightarrow> nat \<Rightarrow> nat option" where
  "found_bit byte b =
     (if 8 \<le> b then None
      else if drop_bit b byte AND 1 \<noteq> 0 then found_bit byte (b + 1)
      else Some b)"
  by pat_completeness auto
termination by (relation "measure (\<lambda>(_, b). 8 - b)") auto

definition find_free :: "u8 list \<Rightarrow> (nat \<times> u8) option" where
  "find_free bitmap = find (\<lambda>(_, val). val \<noteq> 0xff) (List.enumerate 0 bitmap)"

definition alloc_block :: "'d Ext2Env \<Rightarrow> u32 \<Rightarrow> 'd Ext2FS \<Rightarrow> (u32, 'd Ext2FS) outcome" where
  "alloc_block e gi fs =
     (if unallocated_blocks (sb fs) = 0 then Some (None, fs)
      else
        ask_in fs (read_block_group_descriptor e fs gi) (\<lambda>descriptor.
          if unallocated_blocks_in_group descriptor = 0 then Some (None, fs)
          else
            ask_in fs (read_block e fs (block_addr_for_block_usage_bitmap descriptor)) (\<lambda>bitmap.
            ask_in fs (Some (find_free bitmap)) (\<lambda>(loc, byte). do {
              b \<leftarrow> found_bit byte 0;
              let free_block_in_blockgroup = loc * 8 + b;
              first \<leftarrow> checked_mul gi (blocks_per_block_group (sb fs));
              p \<leftarrow> checked_add (of_nat free_block_in_blockgroup) first;
              special \<leftarrow> get_number_of_special_blocks fs;
              p \<leftarrow> checked_add p (ucast special);
              let bitmap = bitmap[loc := byte OR push_bit b 1];
              and_then (write_block e (block_addr_for_block_usage_bitmap descriptor) bitmap fs) (\<lambda>_ fs. do {
                n \<leftarrow> checked_sub (unallocated_blocks_in_group descriptor) 1;
                and_then (write_block_group_descriptor e gi
                    (descriptor\<lparr>unallocated_blocks_in_group := n\<rparr>) fs) (\<lambda>_ fs. do {
                  m \<leftarrow> checked_sub (unallocated_blocks (sb fs)) 1;
                  (_, fs) \<leftarrow> flush_super_blocks e (fs\<lparr>sb := (sb fs)\<lparr>unallocated_blocks := m\<rparr>\<rparr>);
                  bs \<leftarrow> get_block_size fs;
                  and_then (write_block e p (replicate (unat bs) 0) fs) (\<lambda>_ fs.
                    Some (Some p, fs)) }) }) }))))"

function alloc_block_close_to :: "'d Ext2Env \<Rightarrow> u32 \<Rightarrow> 'd Ext2FS \<Rightarrow> (u32, 'd Ext2FS) outcome" where
  "alloc_block_close_to e gi fs =
     Option.bind (alloc_block e gi fs) (\<lambda>(r, fs).
       (case r of
          Some p \<Rightarrow> Some (Some p, fs)
        | None \<Rightarrow> Option.bind (checked_add gi 1) (\<lambda>gi.
            Option.bind (get_number_of_block_groups fs) (\<lambda>n.
              if gi > n then Some (None, fs) else alloc_block_close_to e gi fs))))"
  by pat_completeness auto
termination
proof (relation "measure (\<lambda>(_, gi, _). 2 ^ 32 - unat gi)")
  fix e :: "'d Ext2Env" and gi :: u32 and fs x y z r and g' :: u32
  assume "checked_add gi 1 = Some g'"
  then have "unat g' = unat gi + 1" by (simp add: checked_add_unat)
  moreover have "unat g' < 2 ^ 32" using unsigned_less [of g'] by simp
  ultimately show "((e, g', z), e, gi, fs) \<in> measure (\<lambda>(_, gi, _). 2 ^ 32 - unat gi)"
    by simp
qed simp

section \<open>Inodes\<close>

definition inode_position :: "'d Ext2FS \<Rightarrow> Ext2BlockGroupDescriptor \<Rightarrow> u32 \<Rightarrow> u32 option" where
  "inode_position fs descriptor addr = do {
     bs \<leftarrow> get_block_size fs;
     inode_table_addr \<leftarrow> checked_mul (block_addr_for_inode_table descriptor) bs;
     inode_index_in_table \<leftarrow> get_descriptor_subindex_of_inode_addr fs addr;
     entry \<leftarrow> get_ondisk_inode_size fs;
     offset \<leftarrow> checked_mul inode_index_in_table (ucast entry);
     checked_add inode_table_addr offset }"

definition read_inode :: "'d Ext2Env \<Rightarrow> 'd Ext2FS \<Rightarrow> u32 \<Rightarrow> Ext2RawInode option option" where
  "read_inode e fs addr = do {
     gi \<leftarrow> get_descriptor_index_of_inode_addr fs addr;
     ask (read_block_group_descriptor e fs gi) (\<lambda>descriptor. do {
       pos \<leftarrow> inode_position fs descriptor addr;
       ask (fs_read e fs pos 128) (\<lambda>raw. Some (unpack_inode (env_codec e) raw)) }) }"

definition write_inode :: "'d Ext2Env \<Rightarrow> u32 \<Rightarrow> Ext2RawInode \<Rightarrow> 'd Ext2FS \<Rightarrow> (unit, 'd Ext2FS) outcome" where
  "write_inode e addr raw_inode fs = do {
     gi \<leftarrow> get_descriptor_index_of_inode_addr fs addr;
     ask_in fs (read_block_group_descriptor e fs gi) (\<lambda>descriptor. do {
       pos \<leftarrow> inode_position fs descriptor addr;
       and_then (fs_write e pos (pack_inode (env_codec e) raw_inode) fs) (\<lambda>_ fs. Some (Some (), fs)) }) }"

definition dealloc_inode :: "'d Ext2Env \<Rightarrow> u32 \<Rightarrow> 'd Ext2FS \<Rightarrow> (unit, 'd Ext2FS) outcome" where
  "dealloc_inode e addr fs =
     (if unallocated_inodes (sb fs) = max_no_of_inodes (sb fs) then Some (None, fs)
      else do {
        gi \<leftarrow> get_descriptor_index_of_inode_addr fs addr;
        offset \<leftarrow> get_descriptor_subindex_of_inode_addr fs addr;
        ask_in fs (read_block_group_descriptor e fs gi) (\<lambda>descriptor.
          if ucast (unallocated_inodes_in_group descriptor) = inodes_per_block_group (sb fs)
          then Some (None, fs)
          else
            ask_in fs (read_block e fs (block_addr_for_inode_usage_bitmap descriptor)) (\<lambda>bitmap. do {
              val_to_edit \<leftarrow> index bitmap (unat (offset div 8));
              if val_to_edit AND push_bit (unat (offset mod 8)) 1 = 0 then Some (None, fs)
              else do {
                let val_to_edit = val_to_edit AND NOT (push_bit (unat (offset mod 8)) 1);
                let bitmap = bitmap[unat (offset div 8) := val_to_edit];
                and_then (write_block e (block_addr_for_inode_usage_bitmap descriptor) bitmap fs) (\<lambda>_ fs. do {
                  n \<leftarrow> checked_add (unallocated_inodes_in_group descriptor) 1;
                  and_then (write_block_group_descriptor e gi
                      (descriptor\<lparr>unallocated_inodes_in_group := n\<rparr>) fs) (\<lambda>_ fs. do {
                    m \<leftarrow> checked_add (unallocated_inodes (sb fs)) 1;
                    (_, fs) \<leftarrow> flush_super_blocks e (fs\<lparr>sb := (sb fs)\<lparr>unallocated_inodes := m\<rparr>\<rparr>);
                    Some (Some (), fs) }) }) } })) })"

definition alloc_inode :: "'d Ext2Env \<Rightarrow> u32 \<Rightarrow> 'd Ext2FS \<Rightarrow> (u32, 'd Ext2FS) outcome" where
  "alloc_inode e gi fs =
     (if unallocated_inodes (sb fs) = 0 then Some (None, fs)
      else
        ask_in fs (read_block_group_descriptor e fs gi) (\<lambda>descriptor.
          if unallocated_inodes_in_group descriptor = 0 then Some (None, fs)
          else
            ask_in fs (read_block e fs (block_addr_for_inode_usage_bitmap descriptor)) (\<lambda>bitmap.
            ask_in fs (Some (find_free bitmap)) (\<lambda>(loc, byte). do {
              b \<leftarrow> found_bit byte 0;
              let free_inode_index_in_table = loc * 8 + b;
              first \<leftarrow> checked_mul (inodes_per_block_group (sb fs)) gi;
              addr \<leftarrow> checked_add (of_nat free_inode_index_in_table) first;
              addr \<leftarrow> checked_add addr 1;
              if addr = 1 then Some (None, fs)
              else do {
                let bitmap = bitmap[loc := byte OR push_bit b 1];
                and_then (write_block e (block_addr_for_inode_usage_bitmap descriptor) bitmap fs) (\<lambda>_ fs. do {
                  n \<leftarrow> checked_sub (unallocated_inodes_in_group descriptor) 1;
                  and_then (write_block_group_descriptor e gi
                      (descriptor\<lparr>unallocated_inodes_in_group := n\<rparr>) fs) (\<lambda>_ fs. do {
                    m \<leftarrow> checked_sub (unallocated_inodes (sb fs)) 1;
                    (_, fs) \<leftarrow> flush_super_blocks e (fs\<lparr>sb := (sb fs)\<lparr>unallocated_inodes := m\<rparr>\<rparr>);
                    and_then (write_inode e addr default_inode fs) (\<lambda>_ fs.
                      Some (Some addr, fs)) }) }) } }))))"

function alloc_inode_close_to :: "'d Ext2Env \<Rightarrow> u32 \<Rightarrow> 'd Ext2FS \<Rightarrow> (u32, 'd Ext2FS) outcome" where
  "alloc_inode_close_to e gi fs =
     Option.bind (alloc_inode e gi fs) (\<lambda>(r, fs).
       (case r of
          Some addr \<Rightarrow> Some (Some addr, fs)
        | None \<Rightarrow> Option.bind (checked_add gi 1) (\<lambda>gi.
            Option.bind (get_number_of_block_groups fs) (\<lambda>n.
              if gi > n then Some (None, fs) else alloc_inode_close_to e gi fs))))"
  by pat_completeness auto
termination
proof (relation "measure (\<lambda>(_, gi, _). 2 ^ 32 - unat gi)")
  fix e :: "'d Ext2Env" and gi :: u32 and fs x y z r and g' :: u32
  assume "checked_add gi 1 = Some g'"
  then have "unat g' = unat gi + 1" by (simp add: checked_add_unat)
  moreover have "unat g' < 2 ^ 32" using unsigned_less [of g'] by simp
  ultimately show "((e, g', z), e, gi, fs) \<in> measure (\<lambda>(_, gi, _). 2 ^ 32 - unat gi)"
    by simp
qed simp

declare alloc_block_close_to.simps [simp del] alloc_inode_close_to.simps [simp del] found_bit.simps [simp del]

end
