(* ===== verification/Ext2_Blocks.thy ===== *)
theory Ext2_Blocks
  imports Ext2_Fs
begin

text \<open>
  Blocks, descriptors and superblocks of a mounted ext2 file system on a device with contents: what
  the operations of \<^verbatim>\<open>Ext2FS\<close> read and which bytes of the device they change.
\<close>

section \<open>Sections of a byte list\<close>

definition sect :: "'a list \<Rightarrow> nat \<Rightarrow> nat \<Rightarrow> 'a list" where
  "sect xs i n = take n (drop i xs)"

lemma length_sect [simp]: "i + n \<le> length xs \<Longrightarrow> length (sect xs i n) = n"
  by (simp add: sect_def)

lemma sect_replace_same:
  "i + length ys \<le> length xs \<Longrightarrow> sect (replace_at xs i ys) i (length ys) = ys"
  by (simp add: sect_def replace_at_def)

lemma nth_replace_at:
  "i + length ys \<le> length xs \<Longrightarrow> k < length xs \<Longrightarrow>
     replace_at xs i ys ! k = (if i \<le> k \<and> k < i + length ys then ys ! (k - i) else xs ! k)"
  by (auto simp: replace_at_def nth_append min_def)

lemma sect_replace_disjoint:
  assumes "i + length ys \<le> length xs" "i + length ys \<le> j \<or> j + n \<le> i"
  shows "sect (replace_at xs i ys) j n = sect xs j n"
proof (rule nth_equalityI)
  show "length (sect (replace_at xs i ys) j n) = length (sect xs j n)"
    using assms(1) by (simp add: sect_def)
  fix k assume "k < length (sect (replace_at xs i ys) j n)"
  then have "k < n" "j + k < length xs" using assms(1) by (auto simp: sect_def)
  with assms show "sect (replace_at xs i ys) j n ! k = sect xs j n ! k"
    by (auto simp: sect_def nth_replace_at)
qed

section \<open>A mounted file system\<close>

locale ext2_env = stored_file "env_io e" contents valid + lsb_codec "env_codec e"
  for e :: "'d Ext2Env" and contents :: "'d \<Rightarrow> u8 list" and valid :: "'d \<Rightarrow> bool"

text \<open>
  The geometry as numbers: block size, number of block groups, blocks before the first one that the
  block bitmaps count. The block sizes are 1024 and 2048 bytes, for which the descriptor table is
  where the code looks for it.
\<close>

definition block_bytes :: "'d Ext2FS \<Rightarrow> nat" where
  "block_bytes fs = 2 ^ (unat (block_size_log2_minus_10 (sb fs)) + 10)"

definition group_count :: "'d Ext2FS \<Rightarrow> nat" where
  "group_count fs = (case get_number_of_block_groups fs of Some n \<Rightarrow> unat n | None \<Rightarrow> 0)"

definition special_blocks :: "'d Ext2FS \<Rightarrow> nat" where
  "special_blocks fs = 2048 div block_bytes fs + (32 * group_count fs + block_bytes fs - 1) div block_bytes fs"

definition extended_arrays_ok :: "Ext2ExtendedSuperblock \<Rightarrow> bool" where
  "extended_arrays_ok x \<longleftrightarrow> length (fs_id x) = 16 \<and> length (volume_name x) = 16
     \<and> length (last_mounted x) = 64 \<and> length (journal_id x) = 16"

definition mounted :: "('d \<Rightarrow> u8 list) \<Rightarrow> ('d \<Rightarrow> bool) \<Rightarrow> 'd Ext2FS \<Rightarrow> bool" where
  "mounted contents valid fs \<longleftrightarrow> valid (backing_device fs) \<and> \<not> read_only fs
     \<and> unat (block_size_log2_minus_10 (sb fs)) \<le> 1 \<and> get_number_of_block_groups fs \<noteq> None
     \<and> special_blocks fs * block_bytes fs \<le> length (contents (backing_device fs))
     \<and> length (contents (backing_device fs)) < 2 ^ 32
     \<and> (case extended_sb fs of Some x \<Rightarrow> extended_arrays_ok x | None \<Rightarrow> True)"

text \<open>The bytes of the device, and block \<open>n\<close> of it.\<close>

definition disk :: "('d \<Rightarrow> u8 list) \<Rightarrow> 'd Ext2FS \<Rightarrow> u8 list" where
  "disk contents fs = contents (backing_device fs)"

definition block_at :: "('d \<Rightarrow> u8 list) \<Rightarrow> 'd Ext2FS \<Rightarrow> nat \<Rightarrow> u8 list" where
  "block_at contents fs n = sect (disk contents fs) (n * block_bytes fs) (block_bytes fs)"

definition has_block :: "('d \<Rightarrow> u8 list) \<Rightarrow> 'd Ext2FS \<Rightarrow> nat \<Rightarrow> bool" where
  "has_block contents fs n \<longleftrightarrow> n \<noteq> 0 \<and> Suc n * block_bytes fs \<le> length (disk contents fs)"

text \<open>The file system after a change of its device.\<close>

definition rewritten :: "('d \<Rightarrow> u8 list) \<Rightarrow> ('d \<Rightarrow> bool) \<Rightarrow> 'd Ext2FS \<Rightarrow> (u8 list \<Rightarrow> u8 list) \<Rightarrow> 'd Ext2FS \<Rightarrow> bool" where
  "rewritten contents valid fs f fs' \<longleftrightarrow>
     (\<exists>d. fs' = fs\<lparr>backing_device := d\<rparr> \<and> valid d \<and> contents d = f (disk contents fs))"

lemma block_bytes_cases:
  assumes "mounted contents valid fs"
  shows "block_bytes fs = 1024 \<or> block_bytes fs = 2048"
proof -
  have "unat (block_size_log2_minus_10 (sb fs)) \<le> 1" using assms by (simp add: mounted_def)
  then consider "unat (block_size_log2_minus_10 (sb fs)) = 0" | "unat (block_size_log2_minus_10 (sb fs)) = 1"
    by linarith
  then show ?thesis by cases (simp_all add: block_bytes_def)
qed

lemma block_bytes_pos [simp]: "0 < block_bytes fs"
  by (simp add: block_bytes_def)

lemma get_block_size_mounted:
  assumes "mounted contents valid fs"
  shows "get_block_size fs = Some (of_nat (block_bytes fs))" and "unat (of_nat (block_bytes fs) :: u32) = block_bytes fs"
    and "unat (of_nat (block_bytes fs) :: u64) = block_bytes fs"
    and "ucast (of_nat (block_bytes fs) :: u32) = (of_nat (block_bytes fs) :: u64)"
proof -
  define l where "l = block_size_log2_minus_10 (sb fs)"
  have le: "unat l \<le> 1" using assms by (simp add: mounted_def l_def)
  have u: "unat (l + 10) = unat l + 10" using le by (simp add: unat_word_ariths)
  have "l + 10 < 32" using le by (simp add: word_less_nat_alt u)
  moreover have "checked_add l 10 = Some (l + 10)" using le by (simp add: checked_add_nat)
  ultimately show "get_block_size fs = Some (of_nat (block_bytes fs))"
    by (simp add: get_block_size_def l_def [symmetric] block_bytes_def u)
  show "unat (of_nat (block_bytes fs) :: u32) = block_bytes fs" "unat (of_nat (block_bytes fs) :: u64) = block_bytes fs"
    using block_bytes_cases [OF assms] by auto
  show "ucast (of_nat (block_bytes fs) :: u32) = (of_nat (block_bytes fs) :: u64)"
    using block_bytes_cases [OF assms] by auto
qed

lemma unat_ucast_u32 [simp]: "unat (ucast (x :: u32) :: u64) = unat x"
  by transfer (simp add: take_bit_take_bit)

lemma unat_ucast_u16 [simp]: "unat (ucast (x :: u16) :: u32) = unat x"
  by transfer (simp add: take_bit_take_bit)

section \<open>Regions that stay as they are\<close>

definition same_outside :: "nat \<Rightarrow> nat \<Rightarrow> 'a list \<Rightarrow> 'a list \<Rightarrow> bool" where
  "same_outside i n xs ys \<longleftrightarrow> length ys = length xs \<and>
     (\<forall>k < length xs. k < i \<or> i + n \<le> k \<longrightarrow> ys ! k = xs ! k)"

lemma same_outside_replace:
  "i + length ys \<le> length xs \<Longrightarrow> same_outside i (length ys) xs (replace_at xs i ys)"
  by (auto simp: same_outside_def nth_replace_at)

lemma same_outside_trans:
  "same_outside i n xs ys \<Longrightarrow> same_outside i n ys zs \<Longrightarrow> same_outside i n xs zs"
  by (auto simp: same_outside_def)

lemma same_outside_mono:
  "same_outside i n xs ys \<Longrightarrow> i' \<le> i \<Longrightarrow> i + n \<le> i' + n' \<Longrightarrow> same_outside i' n' xs ys"
  by (auto simp: same_outside_def)

lemma sect_same_outside:
  assumes "same_outside i n xs ys" "j + m \<le> i \<or> i + n \<le> j"
  shows "sect ys j m = sect xs j m"
proof (rule nth_equalityI)
  show len: "length (sect ys j m) = length (sect xs j m)"
    using assms(1) by (simp add: sect_def same_outside_def)
  fix k assume "k < length (sect ys j m)"
  with len have "k < m" "j + k < length xs" by (auto simp: sect_def)
  with assms show "sect ys j m ! k = sect xs j m ! k" by (auto simp: sect_def same_outside_def)
qed

lemma rewritten_disk:
  assumes "rewritten contents valid fs f fs'"
  shows "disk contents fs' = f (disk contents fs)" "sb fs' = sb fs" "extended_sb fs' = extended_sb fs"
    "block_bytes fs' = block_bytes fs" "group_count fs' = group_count fs"
    "special_blocks fs' = special_blocks fs"
  using assms by (auto simp: rewritten_def disk_def block_bytes_def group_count_def special_blocks_def
      get_number_of_block_groups_def)

lemma rewritten_mounted:
  assumes "rewritten contents valid fs f fs'" "mounted contents valid fs"
    and "length (f (disk contents fs)) = length (disk contents fs)"
  shows "mounted contents valid fs'"
proof -
  have "get_number_of_block_groups fs' = get_number_of_block_groups fs"
    using assms(1) by (auto simp: rewritten_def get_number_of_block_groups_def)
  with assms show ?thesis
    using rewritten_disk [OF assms(1)]
    by (auto simp: mounted_def rewritten_def disk_def)
qed

text \<open>The counters of the superblock do not belong to the geometry.\<close>

definition same_geometry :: "Ext2SuperBlock \<Rightarrow> Ext2SuperBlock \<Rightarrow> bool" where
  "same_geometry s s' \<longleftrightarrow> block_size_log2_minus_10 s' = block_size_log2_minus_10 s
     \<and> max_no_of_blocks s' = max_no_of_blocks s \<and> blocks_per_block_group s' = blocks_per_block_group s
     \<and> max_no_of_inodes s' = max_no_of_inodes s \<and> inodes_per_block_group s' = inodes_per_block_group s"

lemma geometry_with_sb:
  fixes fs :: "'d Ext2FS"
  assumes "same_geometry (sb fs) s"
  shows "block_bytes (fs\<lparr>sb := s\<rparr>) = block_bytes fs" "special_blocks (fs\<lparr>sb := s\<rparr>) = special_blocks fs"
    "group_count (fs\<lparr>sb := s\<rparr>) = group_count fs" "disk contents (fs\<lparr>sb := s\<rparr>) = disk contents fs"
    "mounted contents valid (fs\<lparr>sb := s\<rparr>) = mounted contents valid fs"
  using assms
  by (simp_all add: block_bytes_def special_blocks_def group_count_def disk_def mounted_def
      get_number_of_block_groups_def same_geometry_def)

lemma same_geometry_counters [simp]:
  "same_geometry s (s\<lparr>unallocated_blocks := m\<rparr>)" "same_geometry s (s\<lparr>unallocated_inodes := m\<rparr>)"
  by (simp_all add: same_geometry_def)

context ext2_env
begin

lemma fs_read_inside:
  assumes "mounted contents valid fs" "unat addr + unat len \<le> length (disk contents fs)"
  shows "fs_read e fs addr len = Some (Some (sect (disk contents fs) (unat addr) (unat len)))"
  using assms read_inside [of "backing_device fs" "ucast addr" len]
  by (simp add: fs_read_def mounted_def disk_def sect_def)

lemma fs_write_inside:
  assumes "mounted contents valid fs" "unat addr + length data \<le> length (disk contents fs)"
  shows "\<exists>fs'. fs_write e addr data fs = Some (Some (of_nat (length data)), fs')
    \<and> rewritten contents valid fs (\<lambda>C. replace_at C (unat addr) data) fs'"
proof -
  have v: "valid (backing_device fs)" "\<not> read_only fs" using assms(1) by (simp_all add: mounted_def)
  obtain d where d: "file_write (env_io e) (backing_device fs) (ucast addr) data = Some (Some (of_nat (length data)), d)"
    "valid d" "contents d = replace_at (disk contents fs) (unat addr) data"
    using write_inside [of "backing_device fs" "ucast addr" data] v assms(2) by (auto simp: disk_def)
  define fs' where "fs' = fs\<lparr>backing_device := d\<rparr>"
  have re: "rewritten contents valid fs (\<lambda>C. replace_at C (unat addr) data) fs'"
    using d by (auto simp: rewritten_def fs'_def)
  then have m': "mounted contents valid fs'"
    using assms by (intro rewritten_mounted [OF re]) simp_all
  have "length data < 2 ^ 64" using assms contents_small [OF v(1)] by (simp add: disk_def)
  then have u: "unat (of_nat (length data) :: u64) = length data"
    by (simp add: unsigned_of_nat take_bit_nat_eq_self)
  have "fs_read e fs' addr (of_nat (length data)) = Some (Some data)"
    using fs_read_inside [OF m', of addr "of_nat (length data)"] assms(2)
    by (simp add: u rewritten_disk(1) [OF re] sect_replace_same)
  then have "sanity_check_write e fs' addr data = Some (Inr ())"
    by (auto simp: sanity_check_write_def find_Some_iff split: option.splits)
  with d v show ?thesis using re by (auto simp: fs_write_def fs'_def)
qed

lemma block_address:
  fixes n :: u32
  assumes "mounted contents valid fs" "has_block contents fs (unat n)"
  shows "checked_mul (of_nat (block_bytes fs)) n = Some (of_nat (block_bytes fs) * n)"
    and "unat (of_nat (block_bytes fs) * n) = unat n * block_bytes fs"
proof -
  have "unat n * block_bytes fs < 2 ^ 32"
  proof -
    have "unat n * block_bytes fs + block_bytes fs \<le> length (disk contents fs)"
      using assms(2) by (simp add: has_block_def)
    moreover have "length (disk contents fs) < 2 ^ 32" using assms(1) by (simp add: mounted_def disk_def)
    ultimately show ?thesis by simp
  qed
  moreover note get_block_size_mounted(2) [OF assms(1)]
  ultimately show "checked_mul (of_nat (block_bytes fs)) n = Some (of_nat (block_bytes fs) * n)"
    by (simp add: checked_mul_def mult.commute)
  then have "unat (of_nat (block_bytes fs) * n) = unat (of_nat (block_bytes fs) :: u32) * unat n"
    by (rule checked_mul_unat)
  then show "unat (of_nat (block_bytes fs) * n) = unat n * block_bytes fs"
    by (simp add: get_block_size_mounted(2) [OF assms(1)] mult.commute)
qed

lemma read_block_inside:
  assumes "mounted contents valid fs" "has_block contents fs (unat n)"
  shows "read_block e fs n = Some (Some (block_at contents fs (unat n)))"
proof -
  have "n \<noteq> 0" using assms(2) by (auto simp: has_block_def)
  moreover have "unat n * block_bytes fs + block_bytes fs \<le> length (disk contents fs)"
    using assms(2) by (simp add: has_block_def)
  ultimately show ?thesis
    using fs_read_inside [OF assms(1), of "of_nat (block_bytes fs) * n" "of_nat (block_bytes fs)"]
    by (simp add: read_block_def get_block_size_mounted [OF assms(1)] block_address [OF assms] block_at_def)
qed

lemma write_block_inside:
  assumes "mounted contents valid fs" "has_block contents fs (unat n)" "length data = block_bytes fs"
  shows "\<exists>fs'. write_block e n data fs = Some (Some (), fs')
    \<and> rewritten contents valid fs (\<lambda>C. replace_at C (unat n * block_bytes fs) data) fs'"
proof -
  have "n \<noteq> 0" using assms(2) by (auto simp: has_block_def)
  have "unat (of_nat (block_bytes fs) * n) + length data \<le> length (disk contents fs)"
    using assms(2,3) unfolding block_address(2) [OF assms(1,2)] by (simp add: has_block_def)
  from fs_write_inside [OF assms(1) this] obtain fs' where
    "fs_write e (of_nat (block_bytes fs) * n) data fs = Some (Some (of_nat (length data)), fs')"
    "rewritten contents valid fs (\<lambda>C. replace_at C (unat n * block_bytes fs) data) fs'"
    unfolding block_address(2) [OF assms(1,2)] by blast
  with \<open>n \<noteq> 0\<close> assms(3) show ?thesis
    by (simp add: write_block_def get_block_size_mounted [OF assms(1)] block_address [OF assms(1,2)])
qed

end

section \<open>The geometry\<close>

lemma ceil_div_nat:
  fixes a b :: "'a::len word"
  assumes "b \<noteq> 0"
  shows "ceil_div a b = Some (of_nat ((unat a + unat b - 1) div unat b))"
    and "unat (of_nat ((unat a + unat b - 1) div unat b) :: 'a word) = (unat a + unat b - 1) div unat b"
proof -
  have b: "0 < unat b" using assms by (simp add: unat_gt_0)
  have a: "unat a < 2 ^ LENGTH('a)" by (rule unsigned_less)
  define q r where "q = unat a div unat b" and "r = unat a mod unat b"
  have ab: "unat a = q * unat b + r" "r < unat b" using b by (simp_all add: q_def r_def)
  have up: "(unat a + unat b - 1) div unat b = (if r = 0 then q else q + 1)"
  proof (cases "r = 0")
    case True
    then have e: "unat a + unat b - 1 = (unat b - 1) + q * unat b" using ab b by simp
    have "(unat a + unat b - 1) div unat b = q + (unat b - 1) div unat b"
      unfolding e using b by (intro div_mult_self1) simp
    then show ?thesis using True b by simp
  next
    case False
    then have e: "unat a + unat b - 1 = (r - 1) + (q + 1) * unat b" using ab b by (simp add: algebra_simps)
    have "(unat a + unat b - 1) div unat b = q + 1 + (r - 1) div unat b"
      unfolding e using b by (intro div_mult_self1) simp
    then show ?thesis using False ab(2) by simp
  qed
  have mod: "a mod b \<noteq> 0 \<longleftrightarrow> r \<noteq> 0" by (simp add: r_def unat_mod [symmetric] unat_gt_0)
  have qa: "unat (a div b) = q" by (simp add: q_def unat_div)
  have qw: "a div b = of_nat q" by (simp add: qa [symmetric])
  have bound: "(if r = 0 then q else q + 1) < 2 ^ LENGTH('a)"
  proof (cases "r = 0")
    case True
    then show ?thesis using a by (simp add: q_def le_less_trans [OF div_le_dividend])
  next
    case False
    then have "2 \<le> unat b" using ab(2) by linarith
    then have "2 * q \<le> q * unat b" by simp
    then have "q + 1 \<le> unat a" using False ab(1) by linarith
    then have "q + 1 < 2 ^ LENGTH('a)" using a by (rule le_less_trans)
    then show ?thesis using False by simp
  qed
  show "unat (of_nat ((unat a + unat b - 1) div unat b) :: 'a word) = (unat a + unat b - 1) div unat b"
    unfolding up using bound by (simp add: unsigned_of_nat take_bit_nat_eq_self)
  have "checked_add (a div b) (if a mod b \<noteq> 0 then 1 else 0) = Some (of_nat (if r = 0 then q else q + 1))"
    using bound qa mod qw by (auto simp: checked_add_nat)
  then show "ceil_div a b = Some (of_nat ((unat a + unat b - 1) div unat b))"
    unfolding up using assms by (simp add: ceil_div_def checked_div_def checked_mod_def)
qed

lemma special_blocks_cover:
  assumes "mounted contents valid fs"
  shows "2048 + 32 * group_count fs \<le> special_blocks fs * block_bytes fs"
proof -
  define B g where "B = block_bytes fs" and "g = 32 * group_count fs"
  have B: "B = 1024 \<or> B = 2048" using block_bytes_cases [OF assms] by (simp add: B_def)
  have "g + B - 1 = (g + B - 1) div B * B + (g + B - 1) mod B" by simp
  moreover have "(g + B - 1) mod B < B" using B by auto
  ultimately have "g \<le> (g + B - 1) div B * B" using B by linarith
  moreover have "2048 div B * B = 2048" using B by auto
  ultimately show ?thesis
    unfolding special_blocks_def B_def [symmetric] g_def [symmetric] add_mult_distrib by linarith
qed

lemma special_blocks_small:
  assumes "mounted contents valid fs"
  shows "special_blocks fs < 2 ^ 32" "0 < special_blocks fs"
proof -
  have "special_blocks fs * block_bytes fs < 2 ^ 32" using assms by (simp add: mounted_def)
  moreover have "special_blocks fs * 1 \<le> special_blocks fs * block_bytes fs"
    by (intro mult_le_mono2) (simp add: Suc_leI)
  ultimately show "special_blocks fs < 2 ^ 32" by linarith
  show "0 < special_blocks fs" using special_blocks_cover [OF assms] by (cases "special_blocks fs") auto
qed

lemma special_blocks_mounted:
  assumes "mounted contents valid fs"
  shows "get_number_of_special_blocks fs = Some (of_nat (special_blocks fs))"
    and "unat (of_nat (special_blocks fs) :: u32) = special_blocks fs"
    and "ucast (of_nat (special_blocks fs) :: u64) = (of_nat (special_blocks fs) :: u32)"
proof -
  define B where "B = block_bytes fs"
  have B: "B = 1024 \<or> B = 2048" using block_bytes_cases [OF assms] by (simp add: B_def)
  obtain n where n: "get_number_of_block_groups fs = Some n" using assms by (auto simp: mounted_def)
  then have g: "group_count fs = unat n" by (simp add: group_count_def)
  have n32: "unat n < 2 ^ 32" using unsigned_less [of n] by simp
  have u: "unat (of_nat B :: u64) = B" "(of_nat B :: u64) \<noteq> 0" using B by auto
  have i: "ceil_div (2048 :: u64) (of_nat B) = Some (of_nat (2048 div B))"
    using ceil_div_nat(1) [OF u(2), of 2048] B by (auto simp: u)
  define t where "t = checked_mul (32 :: u64) (ucast n)"
  have t: "t = Some (32 * ucast n)" "unat (32 * ucast n :: u64) = 32 * group_count fs"
    using n32 checked_mul_unat [of "32 :: u64" "ucast n"] by (simp_all add: t_def checked_mul_def g)
  have c: "ceil_div (32 * ucast n :: u64) (of_nat B) = Some (of_nat ((32 * group_count fs + B - 1) div B))"
    "unat (of_nat ((32 * group_count fs + B - 1) div B) :: u64) = (32 * group_count fs + B - 1) div B"
    using ceil_div_nat [OF u(2), of "32 * ucast n"] by (simp_all add: u t(2))
  have small: "special_blocks fs < 2 ^ 32" by (rule special_blocks_small(1) [OF assms])
  have "unat (of_nat (2048 div B) :: u64) = 2048 div B" using B by auto
  then have "checked_add (of_nat (2048 div B) :: u64) (of_nat ((32 * group_count fs + B - 1) div B)) =
      Some (of_nat (special_blocks fs))"
    using small c(2) by (simp add: checked_add_nat special_blocks_def B_def [symmetric])
  then show "get_number_of_special_blocks fs = Some (of_nat (special_blocks fs))"
    using n i c(1) t(1) get_block_size_mounted [OF assms]
    by (simp add: get_number_of_special_blocks_def get_ondisk_block_group_descriptor_size_def B_def [symmetric] t_def)
  show "unat (of_nat (special_blocks fs) :: u32) = special_blocks fs"
    using small by (simp add: unsigned_of_nat take_bit_nat_eq_self)
  then show "ucast (of_nat (special_blocks fs) :: u64) = (of_nat (special_blocks fs) :: u32)"
    by (simp add: word_unat_eq_iff unsigned_ucast_eq unsigned_of_nat take_bit_nat_eq_self less_trans [OF small])
qed

section \<open>Free bits\<close>

definition bit_at :: "u8 list \<Rightarrow> nat \<Rightarrow> bool" where
  "bit_at bitmap k = bit (bitmap ! (k div 8)) (k mod 8)"

lemma shifted_bit: "drop_bit b (x :: u8) AND 1 \<noteq> 0 \<longleftrightarrow> bit x b"
  by (simp add: and_one_eq odd_iff_mod_2_eq_one [symmetric] bit_iff_odd_drop_bit [symmetric] mod_2_eq_odd)

lemma found_bit_first:
  "b \<le> k \<Longrightarrow> k < 8 \<Longrightarrow> \<not> bit byte k \<Longrightarrow> (\<forall>j. b \<le> j \<and> j < k \<longrightarrow> bit byte j) \<Longrightarrow> found_bit byte b = Some k"
proof (induction "k - b" arbitrary: b)
  case 0
  then have "b = k" by simp
  with 0 show ?case by (simp add: found_bit.simps [of byte k] shifted_bit)
next
  case (Suc n)
  then have "b < k" "bit byte b" by simp_all
  moreover have "found_bit byte (b + 1) = Some k" using Suc by (intro Suc.hyps) auto
  ultimately show ?case using Suc.prems(2) by (simp add: found_bit.simps [of byte b] shifted_bit)
qed

lemma all_bits_set: "v = 0xff \<longleftrightarrow> (\<forall>j < 8. bit v j)" for v :: u8
  unfolding u8_eq_iff all_less_8 by simp

lemma find_free_first:
  assumes "k < 8 * length bitmap" "\<not> bit_at bitmap k" "\<forall>j < k. bit_at bitmap j"
  shows "find_free bitmap = Some (k div 8, bitmap ! (k div 8))" "found_bit (bitmap ! (k div 8)) 0 = Some (k mod 8)"
proof -
  have loc: "k div 8 < length bitmap" using assms(1) by simp
  have "bitmap ! (k div 8) \<noteq> 0xff"
    using assms(2) unfolding all_bits_set by (auto simp: bit_at_def intro!: exI [of _ "k mod 8"])
  moreover have "bitmap ! i = 0xff" if "i < k div 8" for i
    unfolding all_bits_set
  proof (intro allI impI)
    fix j :: nat assume "j < 8"
    then have "bit_at bitmap (8 * i + j)" using that assms(3) by simp
    with \<open>j < 8\<close> show "bit (bitmap ! i) j" by (simp add: bit_at_def)
  qed
  ultimately show "find_free bitmap = Some (k div 8, bitmap ! (k div 8))"
    using loc unfolding find_free_def find_Some_iff
    by (intro exI [of _ "k div 8"]) (simp add: nth_enumerate_eq)
  show "found_bit (bitmap ! (k div 8)) 0 = Some (k mod 8)"
  proof (rule found_bit_first)
    show "\<not> bit (bitmap ! (k div 8)) (k mod 8)" using assms(2) by (simp add: bit_at_def)
    show "\<forall>j. 0 \<le> j \<and> j < k mod 8 \<longrightarrow> bit (bitmap ! (k div 8)) j"
    proof (intro allI impI)
      fix j assume "0 \<le> j \<and> j < k mod 8"
      then have j: "j < k mod 8" "j < 8" by auto
      then have "8 * (k div 8) + j < k" by presburger
      then have "bit_at bitmap (8 * (k div 8) + j)" using assms(3) by blast
      with j show "bit (bitmap ! (k div 8)) j" by (simp add: bit_at_def)
    qed
  qed simp_all
qed

end
