(* ===== verification/Ext2_Alloc.thy ===== *)
theory Ext2_Alloc
  imports Ext2_Blocks
begin

text \<open>
  Allocation in an ext2 file system: the first free bit of the bitmap of a block group is taken, the
  counters in the descriptor and in the superblock follow, and nothing else of the device changes;
  freeing undoes it. The same holds for blocks and inodes.
\<close>

section \<open>Descriptors and superblocks on the device\<close>

definition descr :: "'d Ext2Env \<Rightarrow> ('d \<Rightarrow> u8 list) \<Rightarrow> 'd Ext2FS \<Rightarrow> nat \<Rightarrow> Ext2BlockGroupDescriptor option" where
  "descr e contents fs g = unpack_descriptor (env_codec e) (sect (disk contents fs) (2048 + 32 * g) 18)"

text \<open>What an edit of the bitmap \<open>nb\<close> of group \<open>g\<close> leaves as it is.\<close>

definition group_edited ::
  "'d Ext2Env \<Rightarrow> ('d \<Rightarrow> u8 list) \<Rightarrow> ('d \<Rightarrow> bool) \<Rightarrow> 'd Ext2FS \<Rightarrow> nat \<Rightarrow> nat \<Rightarrow> 'd Ext2FS \<Rightarrow> bool" where
  "group_edited e contents valid fs g nb fs' \<longleftrightarrow> mounted contents valid fs'
     \<and> block_bytes fs' = block_bytes fs \<and> special_blocks fs' = special_blocks fs
     \<and> group_count fs' = group_count fs \<and> same_geometry (sb fs) (sb fs')
     \<and> extended_sb fs' = extended_sb fs
     \<and> length (disk contents fs') = length (disk contents fs)
     \<and> (\<forall>m \<ge> special_blocks fs. m \<noteq> nb \<longrightarrow> block_at contents fs' m = block_at contents fs m)
     \<and> (\<forall>h < group_count fs. h \<noteq> g \<longrightarrow> descr e contents fs' h = descr e contents fs h)"

lemma has_block_cong:
  "block_bytes fs' = block_bytes fs \<Longrightarrow> length (disk contents fs') = length (disk contents fs) \<Longrightarrow>
     has_block contents fs' n = has_block contents fs n"
  by (simp add: has_block_def)

lemma unpack_struct_Some:
  assumes "length bs = sum_list sizes" "length (unpack_fields c sizes bs) = length sizes"
    and "\<And>vs. length vs = length sizes \<Longrightarrow> from vs \<noteq> None"
  shows "\<exists>x. unpack_struct c sizes from bs = Some x"
  using assms by (auto simp: unpack_struct_def)

lemma length_chop [simp]: "length (chop ns bs) = length ns"
  by (induction ns arbitrary: bs) simp_all

lemma unpack_descriptor_Some: "length bs = 18 \<Longrightarrow> \<exists>d. unpack_descriptor c bs = Some d"
  unfolding unpack_descriptor_def
  by (rule unpack_struct_Some)
    (auto simp: descriptor_fields_def unpack_fields_def length_Suc_conv numeral_eq_Suc)

context ext2_env
begin

lemma length_pack_extended:
  assumes "extended_arrays_ok x"
  shows "length (pack_extended (env_codec e) x) = 152"
proof -
  have "length (pack_fields (env_codec e) extended_fields_1 vs) = 20"
    if "list_all2 fits_field extended_fields_1 vs" for vs
    using that by (simp add: length_pack_fields) (simp add: extended_fields_1_def)
  moreover have "length (pack_fields (env_codec e) extended_fields_2 vs) = 8"
    if "list_all2 fits_field extended_fields_2 vs" for vs
    using that by (simp add: length_pack_fields) (simp add: extended_fields_2_def)
  moreover have "length (pack_fields (env_codec e) extended_fields_3 vs) = 12"
    if "list_all2 fits_field extended_fields_3 vs" for vs
    using that by (simp add: length_pack_fields) (simp add: extended_fields_3_def)
  ultimately show ?thesis using assms
    by (simp add: pack_extended_def extended_arrays_ok_def extended_fields_1_def extended_fields_2_def
        extended_fields_3_def fits_field_ucast)
qed

lemma descriptor_position:
  fixes gi :: u32
  assumes "mounted contents valid fs" "unat gi < group_count fs"
  shows "checked_mul gi 32 = Some (gi * 32)" "descriptor_table_addr fs = Some 2048"
    "checked_add 2048 (gi * 32) = Some (2048 + gi * 32)" "unat (2048 + gi * 32) = 2048 + 32 * unat gi"
    "2048 + 32 * unat gi + 32 \<le> length (disk contents fs)"
proof -
  have in_table: "2048 + 32 * unat gi + 32 \<le> special_blocks fs * block_bytes fs"
    using special_blocks_cover [OF assms(1)] assms(2) by linarith
  then show inside: "2048 + 32 * unat gi + 32 \<le> length (disk contents fs)"
    using assms(1) by (simp add: mounted_def disk_def)
  have small: "length (disk contents fs) < 2 ^ 32" using assms(1) by (simp add: mounted_def disk_def)
  show m: "checked_mul gi 32 = Some (gi * 32)" using inside small by (simp add: checked_mul_def)
  have u: "unat (gi * 32) = 32 * unat gi" using checked_mul_unat [OF m] by simp
  show "checked_add 2048 (gi * 32) = Some (2048 + gi * 32)"
    using inside small by (simp add: checked_add_nat u)
  from checked_add_unat [OF this] show "unat (2048 + gi * 32) = 2048 + 32 * unat gi" by (simp add: u)
  show "descriptor_table_addr fs = Some 2048"
    using block_bytes_cases [OF assms(1)] get_block_size_mounted(1) [OF assms(1)]
    by (auto simp: descriptor_table_addr_def checked_div_def checked_mul_def)
qed

lemma read_descriptor:
  assumes "mounted contents valid fs" "unat gi < group_count fs"
  shows "read_block_group_descriptor e fs gi = Some (descr e contents fs (unat gi))"
  using descriptor_position [OF assms] fs_read_inside [OF assms(1), of "2048 + gi * 32" 18]
  by (simp add: read_block_group_descriptor_def get_ondisk_block_group_descriptor_size_def descr_def)

lemma write_descriptor:
  assumes "mounted contents valid fs" "unat gi < group_count fs"
  shows "\<exists>fs'. write_block_group_descriptor e gi d fs = Some (Some (), fs')
    \<and> rewritten contents valid fs (\<lambda>C. replace_at C (2048 + 32 * unat gi) (pack_descriptor (env_codec e) d)) fs'"
proof -
  note pos = descriptor_position [OF assms]
  have "unat (2048 + gi * 32) + length (pack_descriptor (env_codec e) d) \<le> length (disk contents fs)"
    unfolding pos(4) length_pack using pos(5) by linarith
  from fs_write_inside [OF assms(1) this] show ?thesis
    unfolding pos(4)
    by (auto simp: write_block_group_descriptor_def get_ondisk_block_group_descriptor_size_def pos)
qed

lemma flush_inside:
  assumes "mounted contents valid fs"
  shows "\<exists>fs' C. flush_super_blocks e fs = Some (Some (), fs') \<and> rewritten contents valid fs (\<lambda>_. C) fs'
    \<and> same_outside 1024 236 (disk contents fs) C \<and> sect C 1024 84 = pack_super_block (env_codec e) (sb fs)"
proof -
  let ?p = "pack_super_block (env_codec e) (sb fs)"
  have len: "2048 \<le> length (disk contents fs)"
    using special_blocks_cover [OF assms] assms by (simp add: mounted_def disk_def)
  obtain fs1 where fs1: "fs_write e 1024 ?p fs = Some (Some 84, fs1)"
    "rewritten contents valid fs (\<lambda>C. replace_at C 1024 ?p) fs1"
    using fs_write_inside [OF assms, of 1024 ?p] len by (auto simp: length_pack)
  define C1 where "C1 = replace_at (disk contents fs) 1024 ?p"
  have C1: "same_outside 1024 236 (disk contents fs) C1" "sect C1 1024 84 = ?p" "length C1 = length (disk contents fs)"
    using len same_outside_replace [of 1024 ?p "disk contents fs"] sect_replace_same [of 1024 ?p "disk contents fs"]
    by (auto simp: C1_def length_pack elim: same_outside_mono)
  have d1: "disk contents fs1 = C1" "extended_sb fs1 = extended_sb fs"
    using rewritten_disk [OF fs1(2)] by (simp_all add: C1_def)
  have m1: "mounted contents valid fs1"
    using rewritten_mounted [OF fs1(2) assms] C1(3) by (simp add: C1_def)
  show ?thesis
  proof (cases "extended_sb fs")
    case None
    with fs1 C1 d1 show ?thesis
      by (intro exI [of _ fs1] exI [of _ C1])
        (auto simp: flush_super_blocks_def rewritten_def C1_def)
  next
    case (Some x)
    let ?x = "pack_extended (env_codec e) x"
    have lx: "length ?x = 152" using Some assms by (simp add: mounted_def length_pack_extended)
    obtain fs2 where fs2: "fs_write e 1108 ?x fs1 = Some (Some 152, fs2)"
      "rewritten contents valid fs1 (\<lambda>C. replace_at C 1108 ?x) fs2"
      using fs_write_inside [OF m1, of 1108 ?x] len C1(3) by (auto simp: lx d1)
    define C2 where "C2 = replace_at C1 1108 ?x"
    have "same_outside 1108 152 C1 C2" using same_outside_replace [of 1108 ?x C1] len C1(3) by (simp add: C2_def lx)
    then have C2: "same_outside 1024 236 C1 C2" "sect C2 1024 84 = sect C1 1024 84"
      by (auto elim: same_outside_mono simp: sect_same_outside)
    have "rewritten contents valid fs (\<lambda>_. C2) fs2"
      using fs1(2) fs2(2) d1 by (auto simp: rewritten_def C2_def)
    moreover have "flush_super_blocks e fs = Some (Some (), fs2)"
      using fs1(1) fs2(1) Some d1 by (simp add: flush_super_blocks_def get_ondisk_super_block_size_def)
    ultimately show ?thesis
      using C1 C2 same_outside_trans [OF C1(1) C2(1)] by auto
  qed
qed

end

section \<open>Editing the bitmap of a group\<close>

definition bitmap_placed :: "('d \<Rightarrow> u8 list) \<Rightarrow> 'd Ext2FS \<Rightarrow> nat \<Rightarrow> bool" where
  "bitmap_placed contents fs nb \<longleftrightarrow> special_blocks fs \<le> nb \<and> has_block contents fs nb"

lemma block_outside:
  assumes "same_outside i n (disk contents fs) (disk contents fs')" "block_bytes fs' = block_bytes fs"
    and "m * block_bytes fs + block_bytes fs \<le> i \<or> i + n \<le> m * block_bytes fs"
  shows "block_at contents fs' m = block_at contents fs m"
  unfolding block_at_def assms(2) using assms(3) by (intro sect_same_outside [OF assms(1)]) simp

lemma other_block:
  assumes "m \<noteq> (n :: nat)"
  shows "m * b + b \<le> n * b \<or> n * b + b \<le> m * b"
proof (cases "m < n")
  case True
  then have "Suc m * b \<le> n * b" by (intro mult_le_mono1) simp
  then show ?thesis by simp
next
  case False
  then have "Suc n * b \<le> m * b" using assms by (intro mult_le_mono1) simp
  then show ?thesis by simp
qed

context ext2_env
begin

lemma group_update:
  assumes m: "mounted contents valid fs" and gi: "unat gi < group_count fs"
    and nb: "bitmap_placed contents fs (unat nb)" and bm: "length bm = block_bytes fs"
    and s: "same_geometry (sb fs) s"
  shows "\<exists>fs1 fs2 fs3. write_block e nb bm fs = Some (Some (), fs1)
    \<and> write_block_group_descriptor e gi d fs1 = Some (Some (), fs2) \<and> sb fs2 = sb fs
    \<and> flush_super_blocks e (fs2\<lparr>sb := s\<rparr>) = Some (Some (), fs3)
    \<and> group_edited e contents valid fs (unat gi) (unat nb) fs3 \<and> sb fs3 = s
    \<and> block_at contents fs3 (unat nb) = bm \<and> descr e contents fs3 (unat gi) = Some d
    \<and> sect (disk contents fs3) 1024 84 = pack_super_block (env_codec e) s"
proof -
  let ?B = "block_bytes fs" and ?C = "disk contents fs" and ?p = "pack_descriptor (env_codec e) d"
  let ?S = "special_blocks fs * block_bytes fs"
  have cover: "2048 + 32 * group_count fs \<le> ?S" by (rule special_blocks_cover [OF m])
  have S: "?S \<le> unat nb * ?B" using nb by (simp add: bitmap_placed_def)
  have hb: "has_block contents fs (unat nb)" using nb by (simp add: bitmap_placed_def)
  then have fit: "unat nb * ?B + ?B \<le> length ?C" by (simp add: has_block_def)
  obtain fs1 where fs1: "write_block e nb bm fs = Some (Some (), fs1)"
    "rewritten contents valid fs (\<lambda>C. replace_at C (unat nb * ?B) bm) fs1"
    using write_block_inside [OF m hb bm] by blast
  note d1 = rewritten_disk [OF fs1(2)]
  have o1: "same_outside (unat nb * ?B) ?B ?C (disk contents fs1)"
    unfolding d1(1) using same_outside_replace [of "unat nb * ?B" bm ?C] fit bm by simp
  have b1: "sect (disk contents fs1) (unat nb * ?B) ?B = bm"
    unfolding d1(1) using sect_replace_same [of "unat nb * ?B" bm ?C] fit bm by simp
  have m1: "mounted contents valid fs1" using rewritten_mounted [OF fs1(2) m] fit bm by simp
  have gi1: "unat gi < group_count fs1" using gi d1 by simp
  obtain fs2 where fs2: "write_block_group_descriptor e gi d fs1 = Some (Some (), fs2)"
    "rewritten contents valid fs1 (\<lambda>C. replace_at C (2048 + 32 * unat gi) ?p) fs2"
    using write_descriptor [OF m1 gi1] by blast
  note d2 = rewritten_disk [OF fs2(2)]
  have l1: "length (disk contents fs1) = length ?C" using o1 by (simp add: same_outside_def)
  have fit2: "2048 + 32 * unat gi + 18 \<le> length (disk contents fs1)"
    using descriptor_position(5) [OF m1 gi1] by linarith
  have o2: "same_outside (2048 + 32 * unat gi) 18 (disk contents fs1) (disk contents fs2)"
    unfolding d2(1) using same_outside_replace [of "2048 + 32 * unat gi" ?p] fit2 by (simp add: length_pack)
  have p2: "sect (disk contents fs2) (2048 + 32 * unat gi) 18 = ?p"
    unfolding d2(1) using sect_replace_same [of "2048 + 32 * unat gi" ?p] fit2 by (simp add: length_pack)
  have m2: "mounted contents valid fs2"
    using rewritten_mounted [OF fs2(2) m1] fit2 by (simp add: length_pack)
  have s2: "same_geometry (sb fs2) s" using s d1 d2 by simp
  note g = geometry_with_sb [OF s2]
  obtain fs3 C3 where fs3: "flush_super_blocks e (fs2\<lparr>sb := s\<rparr>) = Some (Some (), fs3)"
    "rewritten contents valid (fs2\<lparr>sb := s\<rparr>) (\<lambda>_. C3) fs3" "same_outside 1024 236 (disk contents fs2) C3"
    "sect C3 1024 84 = pack_super_block (env_codec e) s"
    using flush_inside [of "fs2\<lparr>sb := s\<rparr>"] m2 g by auto
  note d3 = rewritten_disk [OF fs3(2)]
  have o3: "same_outside 1024 236 (disk contents fs2) (disk contents fs3)" using fs3(3) d3 by simp
  have m3: "mounted contents valid fs3"
    using rewritten_mounted [OF fs3(2)] m2 fs3(3) g by (simp add: same_outside_def)
  have geo: "block_bytes fs3 = ?B" "special_blocks fs3 = special_blocks fs" "group_count fs3 = group_count fs"
    "extended_sb fs3 = extended_sb fs" "sb fs3 = s"
    using d1 d2 d3 g by simp_all
  have len: "length (disk contents fs3) = length ?C"
    using o1 o2 o3 by (simp add: same_outside_def)
  have table: "2048 + 32 * unat gi + 18 \<le> ?S" using cover gi by linarith
  have keep: "sect (disk contents fs3) j k = sect (disk contents fs1) j k" if "?S \<le> j" for j k
    using sect_same_outside [OF o3, of j k] sect_same_outside [OF o2, of j k] that table by simp
  have blocks: "block_at contents fs3 n = block_at contents fs n" if "special_blocks fs \<le> n" "n \<noteq> unat nb" for n
  proof -
    have "?S \<le> n * ?B" using that(1) by simp
    then have "sect (disk contents fs3) (n * ?B) ?B = sect (disk contents fs1) (n * ?B) ?B" by (rule keep)
    also have "\<dots> = sect ?C (n * ?B) ?B"
      using other_block [OF that(2), of ?B] by (intro sect_same_outside [OF o1]) simp
    finally show ?thesis by (simp add: block_at_def geo)
  qed
  have "sect (disk contents fs3) (unat nb * ?B) ?B = bm" using keep [OF S] b1 by simp
  then have bitmap: "block_at contents fs3 (unat nb) = bm" by (simp add: block_at_def geo)
  have desc3: "sect (disk contents fs3) (2048 + 32 * h) 18 = sect (disk contents fs2) (2048 + 32 * h) 18" for h
    by (intro sect_same_outside [OF o3]) simp
  have "descr e contents fs3 (unat gi) = Some d"
    by (simp add: descr_def desc3 p2 descriptor_round_trip)
  moreover have "descr e contents fs3 h = descr e contents fs h" if "h < group_count fs" "h \<noteq> unat gi" for h
  proof -
    have "sect (disk contents fs2) (2048 + 32 * h) 18 = sect (disk contents fs1) (2048 + 32 * h) 18"
      using that by (intro sect_same_outside [OF o2]) (auto simp: neq_iff)
    also have "\<dots> = sect ?C (2048 + 32 * h) 18"
      using that cover S by (intro sect_same_outside [OF o1]) linarith
    finally show ?thesis by (simp add: descr_def desc3)
  qed
  moreover have "sb fs2 = sb fs" using d1 d2 by simp
  ultimately show ?thesis
    using fs1(1) fs2(1) fs3(1,4) m3 geo len blocks bitmap s d3
    by (auto simp: group_edited_def)
qed

end

section \<open>Writing one block\<close>

definition block_written ::
  "'d Ext2Env \<Rightarrow> ('d \<Rightarrow> u8 list) \<Rightarrow> ('d \<Rightarrow> bool) \<Rightarrow> 'd Ext2FS \<Rightarrow> nat \<Rightarrow> u8 list \<Rightarrow> 'd Ext2FS \<Rightarrow> bool" where
  "block_written e contents valid fs n data fs' \<longleftrightarrow> mounted contents valid fs'
     \<and> block_bytes fs' = block_bytes fs \<and> special_blocks fs' = special_blocks fs
     \<and> group_count fs' = group_count fs \<and> sb fs' = sb fs \<and> extended_sb fs' = extended_sb fs
     \<and> length (disk contents fs') = length (disk contents fs)
     \<and> block_at contents fs' n = data
     \<and> (\<forall>m. m \<noteq> n \<longrightarrow> block_at contents fs' m = block_at contents fs m)
     \<and> (special_blocks fs \<le> n \<longrightarrow> (\<forall>g < group_count fs. descr e contents fs' g = descr e contents fs g))"

context ext2_env
begin

lemma write_block_frame:
  assumes m: "mounted contents valid fs" and n: "has_block contents fs (unat n)" and len: "length data = block_bytes fs"
  shows "\<exists>fs'. write_block e n data fs = Some (Some (), fs') \<and> block_written e contents valid fs (unat n) data fs'"
proof -
  let ?B = "block_bytes fs" and ?C = "disk contents fs"
  obtain fs' where fs': "write_block e n data fs = Some (Some (), fs')"
    "rewritten contents valid fs (\<lambda>C. replace_at C (unat n * ?B) data) fs'"
    using write_block_inside [OF assms] by blast
  note d = rewritten_disk [OF fs'(2)]
  have fit: "unat n * ?B + ?B \<le> length ?C" using n by (simp add: has_block_def)
  have o: "same_outside (unat n * ?B) ?B ?C (disk contents fs')"
    unfolding d(1) using same_outside_replace [of "unat n * ?B" data ?C] fit len by simp
  have "block_at contents fs' (unat n) = data"
    unfolding block_at_def d using sect_replace_same [of "unat n * ?B" data ?C] fit len by simp
  moreover have "block_at contents fs' k = block_at contents fs k" if "k \<noteq> unat n" for k
    using other_block [OF that] by (intro block_outside [OF o]) (simp_all add: d)
  moreover have "descr e contents fs' g = descr e contents fs g" if "special_blocks fs \<le> unat n" "g < group_count fs" for g
  proof -
    have "special_blocks fs * ?B \<le> unat n * ?B" using that(1) by simp
    then have "2048 + 32 * g + 18 \<le> unat n * ?B" using special_blocks_cover [OF m] that(2) by linarith
    then show ?thesis unfolding descr_def by (subst sect_same_outside [OF o]) simp_all
  qed
  moreover have "mounted contents valid fs'" using rewritten_mounted [OF fs'(2) m] fit len by simp
  moreover have "length (disk contents fs') = length ?C" using o by (simp add: same_outside_def)
  ultimately show ?thesis using fs'(1) d by (auto simp: block_written_def)
qed

end

section \<open>Bitmaps\<close>

definition set_bit_at :: "u8 list \<Rightarrow> nat \<Rightarrow> u8 list" where
  "set_bit_at bm k = bm[k div 8 := bm ! (k div 8) OR push_bit (k mod 8) 1]"

definition clear_bit_at :: "u8 list \<Rightarrow> nat \<Rightarrow> u8 list" where
  "clear_bit_at bm k = bm[k div 8 := bm ! (k div 8) AND NOT (push_bit (k mod 8) 1)]"

definition first_free :: "u8 list \<Rightarrow> nat \<Rightarrow> bool" where
  "first_free bm k \<longleftrightarrow> k < 8 * length bm \<and> \<not> bit_at bm k \<and> (\<forall>j < k. bit_at bm j)"

lemma length_set_bit_at [simp]: "length (set_bit_at bm k) = length bm" "length (clear_bit_at bm k) = length bm"
  by (simp_all add: set_bit_at_def clear_bit_at_def)

lemma bit_index_eq: "j div 8 = k div 8 \<Longrightarrow> j mod 8 = k mod 8 \<longleftrightarrow> j = (k :: nat)"
  by (metis div_mult_mod_eq)

lemma bit_at_set_bit_at:
  assumes "k < 8 * length bm"
  shows "bit_at (set_bit_at bm k) j \<longleftrightarrow> j = k \<or> bit_at bm j"
proof (cases "j div 8 = k div 8")
  case True
  then show ?thesis using assms bit_index_eq [OF True]
    by (auto simp: bit_at_def set_bit_at_def bit_simps)
next
  case False
  then have "j \<noteq> k" by auto
  with False show ?thesis by (simp add: bit_at_def set_bit_at_def)
qed

lemma bit_at_clear_bit_at:
  assumes "k < 8 * length bm"
  shows "bit_at (clear_bit_at bm k) j \<longleftrightarrow> j \<noteq> k \<and> bit_at bm j"
proof (cases "j div 8 = k div 8")
  case True
  then show ?thesis using assms bit_index_eq [OF True]
    by (auto simp: bit_at_def clear_bit_at_def bit_simps)
next
  case False
  then have "j \<noteq> k" by auto
  with False show ?thesis by (simp add: bit_at_def clear_bit_at_def)
qed

lemma bitmap_eqI:
  assumes "length bm = length bm'" "\<And>k. k < 8 * length bm \<Longrightarrow> bit_at bm k = bit_at bm' k"
  shows "bm = bm'"
proof (rule nth_equalityI)
  fix i assume i: "i < length bm"
  show "bm ! i = bm' ! i"
  proof (rule bit_word_eqI)
    fix n assume "n < LENGTH(8)"
    then show "bit (bm ! i) n = bit (bm' ! i) n" using assms(2) [of "8 * i + n"] i by (simp add: bit_at_def)
  qed
qed (fact assms(1))

lemma clear_set_bit_at: "k < 8 * length bm \<Longrightarrow> \<not> bit_at bm k \<Longrightarrow> clear_bit_at (set_bit_at bm k) k = bm"
  by (rule bitmap_eqI) (auto simp: bit_at_clear_bit_at bit_at_set_bit_at)

lemma masked_bit: "v AND push_bit n 1 = 0 \<longleftrightarrow> \<not> bit v n" for v :: u8
  using and_bit_nonzero_iff [of v n] by blast

section \<open>Blocks\<close>

text \<open>Block \<open>k\<close> of group \<open>g\<close>, as the code numbers blocks.\<close>

definition block_number :: "'d Ext2FS \<Rightarrow> nat \<Rightarrow> nat \<Rightarrow> nat" where
  "block_number fs g k = k + g * unat (blocks_per_block_group (sb fs)) + special_blocks fs"

lemma has_block_small:
  assumes "mounted contents valid fs" "has_block contents fs p"
  shows "p < 2 ^ 32" "unat (of_nat p :: u32) = p"
proof -
  have "Suc p * block_bytes fs < 2 ^ 32"
    using assms by (auto simp: has_block_def mounted_def disk_def elim: le_less_trans)
  moreover have "Suc p * 1 \<le> Suc p * block_bytes fs" by (intro mult_le_mono2) (simp add: Suc_leI)
  then have "p < Suc p * block_bytes fs" by (simp only: mult_1_right Suc_le_eq)
  ultimately show "p < 2 ^ 32" by (rule order.strict_trans [rotated])
  then show "unat (of_nat p :: u32) = p" by (simp add: unsigned_of_nat take_bit_nat_eq_self)
qed

lemma block_number_checked:
  assumes "mounted contents valid fs" "has_block contents fs (block_number fs (unat gi) k)"
  shows "\<exists>first p. checked_mul gi (blocks_per_block_group (sb fs)) = Some first
    \<and> checked_add (of_nat k) first = Some p
    \<and> checked_add p (of_nat (special_blocks fs)) = Some (of_nat (block_number fs (unat gi) k))"
proof -
  note small = has_block_small [OF assms]
  let ?b = "blocks_per_block_group (sb fs)"
  have sum: "k + unat gi * unat ?b + special_blocks fs < 2 ^ 32" using small(1) by (simp add: block_number_def)
  have first: "checked_mul gi ?b = Some (gi * ?b)" using sum by (simp add: checked_mul_def)
  note uf = checked_mul_unat [OF first]
  have uk: "unat (of_nat k :: u32) = k" using sum by (simp add: unsigned_of_nat take_bit_nat_eq_self)
  have p: "checked_add (of_nat k) (gi * ?b) = Some (of_nat k + gi * ?b)"
    using sum by (simp add: checked_add_nat uk uf)
  note up = checked_add_unat [OF p]
  have "checked_add (of_nat k + gi * ?b) (of_nat (special_blocks fs)) =
      Some (of_nat k + gi * ?b + of_nat (special_blocks fs))"
    using sum special_blocks_mounted(2) [OF assms(1)] by (simp add: checked_add_nat uk uf up)
  moreover have "of_nat (block_number fs (unat gi) k) = of_nat k + gi * ?b + of_nat (special_blocks fs)"
    by (simp add: block_number_def)
  ultimately show ?thesis using first p by simp
qed

definition allocated_block ::
  "'d Ext2Env \<Rightarrow> ('d \<Rightarrow> u8 list) \<Rightarrow> ('d \<Rightarrow> bool) \<Rightarrow> 'd Ext2FS \<Rightarrow> nat \<Rightarrow> nat \<Rightarrow> 'd Ext2FS \<Rightarrow> bool" where
  "allocated_block e contents valid fs g k fs' \<longleftrightarrow>
     (\<exists>d. descr e contents fs g = Some d \<and>
      (let nb = unat (block_addr_for_block_usage_bitmap d); p = block_number fs g k in
       mounted contents valid fs'
     \<and> sb fs' = (sb fs)\<lparr>unallocated_blocks := unallocated_blocks (sb fs) - 1\<rparr>
     \<and> extended_sb fs' = extended_sb fs
     \<and> length (disk contents fs') = length (disk contents fs)
     \<and> descr e contents fs' g = Some (d\<lparr>unallocated_blocks_in_group := unallocated_blocks_in_group d - 1\<rparr>)
     \<and> (\<forall>h < group_count fs. h \<noteq> g \<longrightarrow> descr e contents fs' h = descr e contents fs h)
     \<and> block_at contents fs' nb = set_bit_at (block_at contents fs nb) k
     \<and> block_at contents fs' p = replicate (block_bytes fs) 0
     \<and> (\<forall>m \<ge> special_blocks fs. m \<noteq> nb \<and> m \<noteq> p \<longrightarrow> block_at contents fs' m = block_at contents fs m)))"

lemma of_nat_bit_index: "of_nat (k div 8 * 8 + k mod 8) = of_nat k"
  by simp

lemma checked_sub_1: "x \<noteq> 0 \<Longrightarrow> checked_sub x 1 = Some (x - 1)" for x :: "'a::len word"
  by (simp add: checked_sub_def word_le_nat_alt Suc_le_eq unat_gt_0)

context ext2_env
begin

lemma alloc_block_takes:
  assumes m: "mounted contents valid fs" and gi: "unat gi < group_count fs"
    and d: "descr e contents fs (unat gi) = Some d"
    and nb: "bitmap_placed contents fs (unat (block_addr_for_block_usage_bitmap d))"
    and counts: "unallocated_blocks (sb fs) \<noteq> 0" "unallocated_blocks_in_group d \<noteq> 0"
    and free: "first_free (block_at contents fs (unat (block_addr_for_block_usage_bitmap d))) k"
    and p: "has_block contents fs (block_number fs (unat gi) k)"
      "block_number fs (unat gi) k \<noteq> unat (block_addr_for_block_usage_bitmap d)"
  shows "\<exists>fs'. alloc_block e gi fs = Some (Some (of_nat (block_number fs (unat gi) k)), fs')
    \<and> allocated_block e contents valid fs (unat gi) k fs'"
proof -
  let ?nb = "block_addr_for_block_usage_bitmap d" and ?bm = "block_at contents fs (unat (block_addr_for_block_usage_bitmap d))"
  let ?p = "block_number fs (unat gi) k"
  let ?d = "d\<lparr>unallocated_blocks_in_group := unallocated_blocks_in_group d - 1\<rparr>"
  let ?s = "(sb fs)\<lparr>unallocated_blocks := unallocated_blocks (sb fs) - 1\<rparr>"
  have hb: "has_block contents fs (unat ?nb)" using nb by (simp add: bitmap_placed_def)
  have len: "length ?bm = block_bytes fs" using hb by (simp add: block_at_def has_block_def)
  obtain fs1 fs2 fs3 where u: "write_block e ?nb (set_bit_at ?bm k) fs = Some (Some (), fs1)"
    "write_block_group_descriptor e gi ?d fs1 = Some (Some (), fs2)" "sb fs2 = sb fs"
    "flush_super_blocks e (fs2\<lparr>sb := ?s\<rparr>) = Some (Some (), fs3)"
    "group_edited e contents valid fs (unat gi) (unat ?nb) fs3" "sb fs3 = ?s"
    "block_at contents fs3 (unat ?nb) = set_bit_at ?bm k" "descr e contents fs3 (unat gi) = Some ?d"
    using group_update [OF m gi nb, of "set_bit_at ?bm k" ?s ?d] len by auto
  have m3: "mounted contents valid fs3" "block_bytes fs3 = block_bytes fs" "group_count fs3 = group_count fs"
    "length (disk contents fs3) = length (disk contents fs)" "special_blocks fs3 = special_blocks fs"
    using u(5) by (simp_all add: group_edited_def)
  note up = has_block_small(2) [OF m p(1)]
  have p3: "has_block contents fs3 (unat (of_nat ?p :: u32))"
    using p(1) has_block_cong [OF m3(2,4)] by (simp add: up)
  obtain fs4 where fs4: "write_block e (of_nat ?p) (replicate (block_bytes fs) 0) fs3 = Some (Some (), fs4)"
    "block_written e contents valid fs3 ?p (replicate (block_bytes fs) 0) fs4"
    using write_block_frame [OF m3(1) p3, of "replicate (block_bytes fs) 0"] m3(2) by (auto simp: up)
  have sp: "special_blocks fs \<le> ?p" by (simp add: block_number_def)
  have "allocated_block e contents valid fs (unat gi) k fs4"
    using fs4(2) u(5-8) d p(2) m3 sp gi
    by (auto simp: allocated_block_def block_written_def group_edited_def Let_def)
  moreover have "alloc_block e gi fs = Some (Some (of_nat ?p), fs4)"
    using counts d u(1,2,4) fs4(1) read_descriptor [OF m gi] read_block_inside [OF m hb]
      find_free_first [of k ?bm] free block_number_checked [OF m p(1)] special_blocks_mounted [OF m]
      get_block_size_mounted [OF m3(1)] m3(2)
    by (auto simp: alloc_block_def checked_sub_1 u(3) first_free_def set_bit_at_def [symmetric] of_nat_bit_index
        simp del: push_bit_of_1 of_nat_add of_nat_mult)
  ultimately show ?thesis by blast
qed

end

lemma predecessor: "x \<noteq> 0 \<Longrightarrow> unat (x - 1) < unat x" "x - 1 + 1 = x" for x :: "'a::len word"
  by (simp_all add: unat_sub word_le_nat_alt Suc_le_eq unat_gt_0)

lemma checked_add_1: "x + 1 \<noteq> 0 \<Longrightarrow> checked_add x 1 = Some (x + 1)" for x :: "'a::len word"
  by (simp add: checked_add_wrapped word_less_nat_alt unat_eq_0)

definition freed_block ::
  "'d Ext2Env \<Rightarrow> ('d \<Rightarrow> u8 list) \<Rightarrow> ('d \<Rightarrow> bool) \<Rightarrow> 'd Ext2FS \<Rightarrow> nat \<Rightarrow> nat \<Rightarrow> 'd Ext2FS \<Rightarrow> bool" where
  "freed_block e contents valid fs g k fs' \<longleftrightarrow>
     (\<exists>d. descr e contents fs g = Some d \<and>
      (let nb = unat (block_addr_for_block_usage_bitmap d) in
       mounted contents valid fs'
     \<and> sb fs' = (sb fs)\<lparr>unallocated_blocks := unallocated_blocks (sb fs) + 1\<rparr>
     \<and> extended_sb fs' = extended_sb fs
     \<and> length (disk contents fs') = length (disk contents fs)
     \<and> descr e contents fs' g = Some (d\<lparr>unallocated_blocks_in_group := unallocated_blocks_in_group d + 1\<rparr>)
     \<and> (\<forall>h < group_count fs. h \<noteq> g \<longrightarrow> descr e contents fs' h = descr e contents fs h)
     \<and> block_at contents fs' nb = clear_bit_at (block_at contents fs nb) k
     \<and> (\<forall>m \<ge> special_blocks fs. m \<noteq> nb \<longrightarrow> block_at contents fs' m = block_at contents fs m)))"

lemma block_number_inverse:
  fixes gi :: u32
  assumes m: "mounted contents valid fs" and n: "unat number = block_number fs (unat gi) k"
    and k: "k < unat (blocks_per_block_group (sb fs))"
  shows "get_descriptor_index_of_block_number fs number = Some (Some gi)"
    and "get_descriptor_subindex_of_block_number fs number = Some (Some (of_nat k))"
    and "unat (of_nat k :: u32) = k"
proof -
  let ?b = "blocks_per_block_group (sb fs)"
  have b: "?b \<noteq> 0" using k by auto
  note sp = special_blocks_mounted [OF m]
  have le: "of_nat (special_blocks fs) \<le> number"
    using n by (simp add: word_le_nat_alt sp(2) block_number_def)
  then have diff: "unat (number - of_nat (special_blocks fs)) = k + unat gi * unat ?b"
    using n by (simp add: unat_sub sp(2) block_number_def)
  have "unat ?b < 2 ^ 32" using unsigned_less [of ?b] by simp
  then have "k < 2 ^ 32" using k by simp
  then show uk: "unat (of_nat k :: u32) = k" by (simp add: unsigned_of_nat take_bit_nat_eq_self)
  have "(number - of_nat (special_blocks fs)) div ?b = gi"
    using k by (simp add: word_unat_eq_iff unat_div diff)
  moreover have "(number - of_nat (special_blocks fs)) mod ?b = of_nat k"
    using k by (simp add: word_unat_eq_iff unat_mod diff uk)
  ultimately show "get_descriptor_index_of_block_number fs number = Some (Some gi)"
    "get_descriptor_subindex_of_block_number fs number = Some (Some (of_nat k))"
    using le b by (simp_all add: get_descriptor_index_of_block_number_def sp checked_sub_def
        get_descriptor_subindex_of_block_number_def checked_div_def checked_mod_def not_less)
qed

lemma bit_word_index:
  assumes "unat (x :: u32) = k"
  shows "unat (x div 8) = k div 8" "unat (x mod 8) = k mod 8"
  using assms by (simp_all add: unat_div unat_mod)

context ext2_env
begin

lemma dealloc_block_frees:
  fixes gi :: u32
  assumes m: "mounted contents valid fs" and gi: "unat gi < group_count fs"
    and d: "descr e contents fs (unat gi) = Some d"
    and nb: "bitmap_placed contents fs (unat (block_addr_for_block_usage_bitmap d))"
    and number: "unat number = block_number fs (unat gi) k" "k < unat (blocks_per_block_group (sb fs))"
    and used: "k < 8 * block_bytes fs" "bit_at (block_at contents fs (unat (block_addr_for_block_usage_bitmap d))) k"
    and counts: "unallocated_blocks (sb fs) \<noteq> max_no_of_blocks (sb fs)" "unallocated_blocks (sb fs) + 1 \<noteq> 0"
      "unat (unallocated_blocks_in_group d) \<noteq> unat (blocks_per_block_group (sb fs))"
      "unallocated_blocks_in_group d + 1 \<noteq> 0"
  shows "\<exists>fs'. dealloc_block e number fs = Some (Some (), fs') \<and> freed_block e contents valid fs (unat gi) k fs'"
proof -
  let ?nb = "block_addr_for_block_usage_bitmap d" and ?bm = "block_at contents fs (unat (block_addr_for_block_usage_bitmap d))"
  let ?d = "d\<lparr>unallocated_blocks_in_group := unallocated_blocks_in_group d + 1\<rparr>"
  let ?s = "(sb fs)\<lparr>unallocated_blocks := unallocated_blocks (sb fs) + 1\<rparr>"
  have hb: "has_block contents fs (unat ?nb)" using nb by (simp add: bitmap_placed_def)
  have len: "length ?bm = block_bytes fs" using hb by (simp add: block_at_def has_block_def)
  obtain fs1 fs2 fs3 where u: "write_block e ?nb (clear_bit_at ?bm k) fs = Some (Some (), fs1)"
    "write_block_group_descriptor e gi ?d fs1 = Some (Some (), fs2)" "sb fs2 = sb fs"
    "flush_super_blocks e (fs2\<lparr>sb := ?s\<rparr>) = Some (Some (), fs3)"
    "group_edited e contents valid fs (unat gi) (unat ?nb) fs3" "sb fs3 = ?s"
    "block_at contents fs3 (unat ?nb) = clear_bit_at ?bm k" "descr e contents fs3 (unat gi) = Some ?d"
    using group_update [OF m gi nb, of "clear_bit_at ?bm k" ?s ?d] len by auto
  note inv = block_number_inverse [OF m number]
  note ix = bit_word_index [OF inv(3)]
  have byte: "index ?bm (k div 8) = Some (?bm ! (k div 8))" using used(1) len by simp
  have bit: "?bm ! (k div 8) AND push_bit (k mod 8) 1 \<noteq> 0"
    using used(2) unfolding masked_bit by (simp add: bit_at_def)
  have full: "ucast (unallocated_blocks_in_group d) \<noteq> blocks_per_block_group (sb fs)"
    using counts(3) by (auto simp: word_unat_eq_iff)
  have "dealloc_block e number fs = Some (Some (), fs3)"
    using counts(1) full d u(1,2,4) read_descriptor [OF m gi] read_block_inside [OF m hb] byte bit
    by (simp add: dealloc_block_def inv(1,2) ix checked_add_1 counts u(3) clear_bit_at_def [symmetric]
        del: push_bit_of_1)
  moreover have "freed_block e contents valid fs (unat gi) k fs3"
    using u(5-8) d by (auto simp: freed_block_def group_edited_def)
  ultimately show ?thesis by blast
qed

end

section \<open>Allocation and release of a block\<close>

text \<open>A group whose bitmap is placed behind the tables and marks its own block as used.\<close>

definition group_ready ::
  "'d Ext2Env \<Rightarrow> ('d \<Rightarrow> u8 list) \<Rightarrow> 'd Ext2FS \<Rightarrow> nat \<Rightarrow> Ext2BlockGroupDescriptor \<Rightarrow> bool" where
  "group_ready e contents fs g d \<longleftrightarrow> g < group_count fs \<and> descr e contents fs g = Some d
     \<and> bitmap_placed contents fs (unat (block_addr_for_block_usage_bitmap d))
     \<and> (\<forall>k. block_number fs g k = unat (block_addr_for_block_usage_bitmap d) \<longrightarrow>
         bit_at (block_at contents fs (unat (block_addr_for_block_usage_bitmap d))) k)"


text \<open>
  (C25) Releasing the block that was just allocated undoes the allocation: the bitmap of the group, its
  descriptor and the superblock are what they were, and of the blocks behind the tables only the
  allocated one differs, being filled with zeros.
\<close>

theorem alloc_dealloc_round_trip:
  fixes gi :: u32
  assumes env: "ext2_env e contents valid" and fs: "mounted contents valid fs" "group_ready e contents fs (unat gi) d"
    and counts: "unallocated_blocks (sb fs) \<noteq> 0" "unallocated_blocks_in_group d \<noteq> 0"
      "unat (unallocated_blocks (sb fs)) \<le> unat (max_no_of_blocks (sb fs))"
      "unat (unallocated_blocks_in_group d) \<le> unat (blocks_per_block_group (sb fs))"
    and free: "first_free (block_at contents fs (unat (block_addr_for_block_usage_bitmap d))) k"
      "k < unat (blocks_per_block_group (sb fs))"
    and p: "has_block contents fs (block_number fs (unat gi) k)"
  shows "\<exists>fs' fs''. alloc_block e gi fs = Some (Some (of_nat (block_number fs (unat gi) k)), fs')
    \<and> dealloc_block e (of_nat (block_number fs (unat gi) k)) fs' = Some (Some (), fs'')
    \<and> sb fs'' = sb fs \<and> descr e contents fs'' (unat gi) = Some d
    \<and> (\<forall>m \<ge> special_blocks fs. m \<noteq> block_number fs (unat gi) k \<longrightarrow> block_at contents fs'' m = block_at contents fs m)"
proof -
  let ?nb = "unat (block_addr_for_block_usage_bitmap d)" and ?p = "block_number fs (unat gi) k"
  let ?d = "d\<lparr>unallocated_blocks_in_group := unallocated_blocks_in_group d - 1\<rparr>"
  have ready: "unat gi < group_count fs" "descr e contents fs (unat gi) = Some d" "bitmap_placed contents fs ?nb" "?p \<noteq> ?nb"
    using fs(2) free(1) by (auto simp: group_ready_def first_free_def)
  obtain fs' where a: "alloc_block e gi fs = Some (Some (of_nat ?p), fs')" "allocated_block e contents valid fs (unat gi) k fs'"
    using ext2_env.alloc_block_takes [OF env fs(1) ready(1-3) counts(1,2) free(1) p ready(4)] by blast
  have fs': "mounted contents valid fs'" "sb fs' = (sb fs)\<lparr>unallocated_blocks := unallocated_blocks (sb fs) - 1\<rparr>"
    "length (disk contents fs') = length (disk contents fs)" "descr e contents fs' (unat gi) = Some ?d"
    "block_at contents fs' ?nb = set_bit_at (block_at contents fs ?nb) k"
    "\<forall>m \<ge> special_blocks fs. m \<noteq> ?nb \<and> m \<noteq> ?p \<longrightarrow> block_at contents fs' m = block_at contents fs m"
    using a(2) ready(2) by (auto simp: allocated_block_def Let_def)
  have geo: "block_bytes fs' = block_bytes fs" "special_blocks fs' = special_blocks fs" "group_count fs' = group_count fs"
    by (simp_all add: block_bytes_def special_blocks_def group_count_def get_number_of_block_groups_def fs'(2))
  have number: "block_number fs' g j = block_number fs g j" for g j by (simp add: block_number_def fs'(2) geo)
  have len: "length (block_at contents fs ?nb) = block_bytes fs"
    using ready(3) by (simp add: block_at_def bitmap_placed_def has_block_def)
  have k: "k < 8 * block_bytes fs" "\<not> bit_at (block_at contents fs ?nb) k" using free(1) len by (simp_all add: first_free_def)
  have "\<exists>fs''. dealloc_block e (of_nat ?p) fs' = Some (Some (), fs'') \<and> freed_block e contents valid fs' (unat gi) k fs''"
  proof (rule ext2_env.dealloc_block_frees [OF env fs'(1) _ fs'(4)])
    show "bitmap_placed contents fs' (unat (block_addr_for_block_usage_bitmap ?d))"
      using ready(3) by (simp add: bitmap_placed_def geo has_block_cong [OF geo(1) fs'(3)])
    show "unat (of_nat ?p :: u32) = block_number fs' (unat gi) k"
      using has_block_small(2) [OF fs(1) p] by (simp add: number)
    show "bit_at (block_at contents fs' (unat (block_addr_for_block_usage_bitmap ?d))) k"
      using k(1) by (simp add: fs'(5) bit_at_set_bit_at len)
  qed (use ready(1) geo fs'(2) free(2) k(1) counts predecessor(1) [OF counts(1)] predecessor(1) [OF counts(2)] in auto)
  then obtain fs'' where f: "dealloc_block e (of_nat ?p) fs' = Some (Some (), fs'')"
    "freed_block e contents valid fs' (unat gi) k fs''" by blast
  have bm: "block_at contents fs'' ?nb = block_at contents fs ?nb"
    using f(2) fs'(4,5) k len by (auto simp: freed_block_def Let_def clear_set_bit_at)
  have "sb fs'' = sb fs" "descr e contents fs'' (unat gi) = Some d"
    using f(2) fs'(2,4) predecessor(2) by (auto simp: freed_block_def Let_def)
  moreover have "block_at contents fs'' m = block_at contents fs m" if "special_blocks fs \<le> m" "m \<noteq> ?p" for m
    using f(2) fs'(4,6) that bm by (cases "m = ?nb") (auto simp: freed_block_def Let_def geo)
  ultimately show ?thesis using a(1) f(1) by blast
qed

section \<open>A file system in memory\<close>

lemma ext2_on_stored_file:
  assumes "stored_file io contents valid"
  shows "ext2_env \<lparr> env_io = io, env_codec = le_codec \<rparr> contents valid"
  using assms le_codec.lsb_codec_axioms by (simp add: ext2_env_def)

definition ram_env :: "u8 list Ext2Env" where
  "ram_env = \<lparr> env_io = ram_disk, env_codec = le_codec \<rparr>"

interpretation ram_ext2: ext2_env ram_env id "\<lambda>d. length d < 2 ^ 64"
  unfolding ram_env_def by (rule ext2_on_stored_file) (rule ram_disk.stored_file_axioms)

text \<open>The usual stack: a file system on a partition of a disk.\<close>

interpretation partition_ext2: ext2_env "\<lparr> env_io = partition_io ram_disk, env_codec = le_codec \<rparr>"
  "partition_contents id" "partition_wf id (\<lambda>d. length d < 2 ^ 64)"
  by (rule ext2_on_stored_file) (rule ram_partition.stored_file_axioms)

definition demo_descriptor :: Ext2BlockGroupDescriptor where
  "demo_descriptor = \<lparr> block_addr_for_block_usage_bitmap = 3, block_addr_for_inode_usage_bitmap = 4,
     block_addr_for_inode_table = 5, unallocated_blocks_in_group = 2, unallocated_inodes_in_group = 3,
     directories_in_group = 0 \<rparr>"

definition demo_sb :: Ext2SuperBlock where
  "demo_sb = \<lparr> max_no_of_inodes = 8, max_no_of_blocks = 8, superuser_reserved_blocks = 0,
     unallocated_blocks = 2, unallocated_inodes = 3, superblock_block_number = 1,
     block_size_log2_minus_10 = 0, fragment_size_log2_minus_10 = 0, blocks_per_block_group = 8,
     fragments_per_block_group = 8, inodes_per_block_group = 8, last_mount_unix_timestamp = 0,
     last_written_unix_timestamp = 0, mounts_since_last_check = 0, mounts_allowed_before_check = 0,
     ext2_signature = 0xEF53, fs_state = 1, on_error = 1, minor_version = 0,
     last_check_unix_timestamp = 0, max_interval_between_checks = 0, os_id = 0, major_version = 0,
     uid_for_reserved_blocks = 0, gid_for_reserved_blocks = 0 \<rparr>"

text \<open>Eight blocks of 1024 bytes; the bitmap in block 3 marks blocks 3, 4 and 5.\<close>

definition demo_image :: "u8 list" where
  "demo_image = replicate 2048 0 @ pack_descriptor le_codec demo_descriptor @ replicate 1006 0
     @ [7] @ replicate 1023 0 @ replicate 4096 0"

definition demo_fs :: "u8 list Ext2FS" where
  "demo_fs = \<lparr> backing_device = demo_image, sb = demo_sb, extended_sb = None, read_only = False \<rparr>"

lemma demo_geometry:
  "block_bytes demo_fs = 1024" "get_number_of_block_groups demo_fs = Some 1" "group_count demo_fs = 1"
  "special_blocks demo_fs = 3" "length (disk id demo_fs) = 8192" "sb demo_fs = demo_sb"
  by (simp_all add: block_bytes_def demo_fs_def demo_sb_def get_number_of_block_groups_def ceil_div_def
      checked_div_def checked_mod_def checked_add_def group_count_def special_blocks_def disk_def
      demo_image_def le_codec.length_pack)

lemma demo_mounted: "mounted id (\<lambda>d. length d < 2 ^ 64) demo_fs"
  using demo_geometry by (simp add: mounted_def demo_sb_def disk_def) (simp add: demo_fs_def)

lemma demo_bitmap: "block_at id demo_fs 3 = [7] @ replicate 1023 0"
  by (simp add: block_at_def demo_geometry sect_def)
    (simp add: disk_def demo_fs_def demo_image_def le_codec.length_pack)

lemma demo_ready: "group_ready ram_env id demo_fs (unat (0 :: u32)) demo_descriptor"
proof -
  have "sect (disk id demo_fs) 2048 18 = pack_descriptor le_codec demo_descriptor"
    by (simp add: disk_def demo_fs_def demo_image_def sect_def le_codec.length_pack)
  then have "descr ram_env id demo_fs 0 = Some demo_descriptor"
    by (simp add: descr_def ram_env_def le_codec.descriptor_round_trip)
  moreover have "bit_at (block_at id demo_fs 3) k" if "block_number demo_fs 0 k = 3" for k
    using that by (simp add: block_number_def demo_geometry demo_bitmap bit_at_def bit_numeral_rec)
  ultimately show ?thesis
    by (simp add: group_ready_def demo_geometry bitmap_placed_def has_block_def demo_descriptor_def)
qed

lemma demo_first_free: "first_free (block_at id demo_fs 3) 3"
proof -
  have "bit (7 :: u8) j" if j: "j < 3" for j
  proof -
    consider "j = 0" | "j = 1" | "j = 2" using j by linarith
    then show ?thesis by cases (simp_all add: bit_numeral_rec)
  qed
  then show ?thesis by (auto simp: first_free_def demo_bitmap bit_at_def bit_numeral_rec)
qed

lemmas demo_facts = demo_geometry demo_mounted demo_ready demo_first_free


theorem alloc_dealloc_round_trip_witness:
  "\<exists>fs' fs''. alloc_block ram_env 0 demo_fs = Some (Some 6, fs') \<and> dealloc_block ram_env 6 fs' = Some (Some (), fs'')
     \<and> sb fs'' = demo_sb"
  using alloc_dealloc_round_trip [OF ram_ext2.ext2_env_axioms demo_mounted demo_ready, of 3]
  by (simp add: demo_descriptor_def demo_first_free demo_geometry block_number_def demo_sb_def has_block_def) blast

section \<open>Inodes on the device\<close>

text \<open>
  The group and the byte position of inode \<open>addr\<close>. Its record of 128 bytes lies on the device, behind
  the superblocks and the descriptor table.
\<close>

definition inode_group :: "'d Ext2FS \<Rightarrow> u32 \<Rightarrow> nat" where
  "inode_group fs addr = (unat addr - 1) div unat (inodes_per_block_group (sb fs))"

definition inode_slot :: "'d Ext2FS \<Rightarrow> Ext2BlockGroupDescriptor \<Rightarrow> u32 \<Rightarrow> nat" where
  "inode_slot fs d addr = unat (block_addr_for_inode_table d) * block_bytes fs
     + (unat addr - 1) mod unat (inodes_per_block_group (sb fs))
       * (case get_ondisk_inode_size fs of Some n \<Rightarrow> unat n | None \<Rightarrow> 0)"

definition inode_placed ::
  "'d Ext2Env \<Rightarrow> ('d \<Rightarrow> u8 list) \<Rightarrow> 'd Ext2FS \<Rightarrow> u32 \<Rightarrow> Ext2BlockGroupDescriptor \<Rightarrow> bool" where
  "inode_placed e contents fs addr d \<longleftrightarrow> addr \<noteq> 0 \<and> inodes_per_block_group (sb fs) \<noteq> 0
     \<and> get_ondisk_inode_size fs \<noteq> None
     \<and> inode_group fs addr < group_count fs \<and> descr e contents fs (inode_group fs addr) = Some d
     \<and> special_blocks fs * block_bytes fs \<le> inode_slot fs d addr
     \<and> inode_slot fs d addr + 128 \<le> length (disk contents fs)"

context ext2_env
begin

lemma inode_index:
  assumes "inode_placed e contents fs addr d"
  shows "\<exists>gi. get_descriptor_index_of_inode_addr fs addr = Some gi \<and> unat gi = inode_group fs addr"
    and "\<exists>r. get_descriptor_subindex_of_inode_addr fs addr = Some r
      \<and> unat r = (unat addr - 1) mod unat (inodes_per_block_group (sb fs))"
proof -
  have "addr \<noteq> 0" "inodes_per_block_group (sb fs) \<noteq> 0" using assms by (simp_all add: inode_placed_def)
  moreover from this have "unat (addr - 1) = unat addr - 1"
    by (simp add: unat_sub word_le_nat_alt Suc_le_eq unat_gt_0)
  ultimately show "\<exists>gi. get_descriptor_index_of_inode_addr fs addr = Some gi \<and> unat gi = inode_group fs addr"
    "\<exists>r. get_descriptor_subindex_of_inode_addr fs addr = Some r
      \<and> unat r = (unat addr - 1) mod unat (inodes_per_block_group (sb fs))"
    by (simp_all add: get_descriptor_index_of_inode_addr_def get_descriptor_subindex_of_inode_addr_def
        checked_sub_1 checked_div_def checked_mod_def inode_group_def unat_div unat_mod)
qed

lemma inode_size_small: "get_ondisk_inode_size fs = Some n \<Longrightarrow> unat n < 2 ^ 32 \<and> unat (ucast n :: u32) = unat n"
proof -
  assume n: "get_ondisk_inode_size fs = Some n"
  have "unat (ucast (x :: u16) :: u64) = unat x" for x by transfer (simp add: take_bit_take_bit)
  moreover have "unat (x :: u16) < 2 ^ 16" for x using unsigned_less [of x] by simp
  ultimately have "unat n < 2 ^ 16"
    using n by (auto simp: get_ondisk_inode_size_def split: if_splits)
  then show ?thesis by (simp add: unsigned_ucast_eq take_bit_nat_eq_self)
qed

lemma inode_position_placed:
  assumes "mounted contents valid fs" "inode_placed e contents fs addr d"
  shows "\<exists>pos. inode_position fs d addr = Some pos \<and> unat pos = inode_slot fs d addr"
proof -
  let ?t = "block_addr_for_inode_table d" and ?B = "block_bytes fs"
  obtain n where n: "get_ondisk_inode_size fs = Some n" using assms(2) by (auto simp: inode_placed_def)
  obtain r where r: "get_descriptor_subindex_of_inode_addr fs addr = Some r"
    "unat r = (unat addr - 1) mod unat (inodes_per_block_group (sb fs))" using inode_index(2) [OF assms(2)] by blast
  have slot: "inode_slot fs d addr = unat ?t * ?B + unat r * unat n" by (simp add: inode_slot_def n r)
  have "length (disk contents fs) < 2 ^ 32" using assms(1) by (simp add: mounted_def disk_def)
  then have small: "unat ?t * ?B + unat r * unat n < 2 ^ 32"
    using assms(2) unfolding inode_placed_def slot by linarith
  have t: "checked_mul ?t (of_nat ?B) = Some (?t * of_nat ?B)"
    using small get_block_size_mounted(2) [OF assms(1)] by (simp add: checked_mul_def)
  have o: "checked_mul r (ucast n) = Some (r * ucast n)"
    using small inode_size_small [OF n] by (simp add: checked_mul_def)
  have u: "unat (?t * of_nat ?B) = unat ?t * ?B" "unat (r * ucast n) = unat r * unat n"
    using checked_mul_unat [OF t] checked_mul_unat [OF o] get_block_size_mounted(2) [OF assms(1)]
      inode_size_small [OF n] by simp_all
  then have a: "checked_add (?t * of_nat ?B) (r * ucast n) = Some (?t * of_nat ?B + r * ucast n)"
    using small by (simp add: checked_add_nat)
  then show ?thesis using checked_add_unat [OF a] u t o r(1) n get_block_size_mounted(1) [OF assms(1)]
    by (simp add: inode_position_def slot)
qed

lemma inode_descriptor:
  assumes "mounted contents valid fs" "inode_placed e contents fs addr d"
  shows "\<exists>gi. get_descriptor_index_of_inode_addr fs addr = Some gi
    \<and> read_block_group_descriptor e fs gi = Some (Some d)"
proof -
  obtain gi where gi: "get_descriptor_index_of_inode_addr fs addr = Some gi" "unat gi = inode_group fs addr"
    using inode_index(1) [OF assms(2)] by blast
  then have "unat gi < group_count fs" "descr e contents fs (unat gi) = Some d"
    using assms(2) by (simp_all add: inode_placed_def)
  with read_descriptor [OF assms(1)] gi(1) show ?thesis by auto
qed

lemma read_inode_placed:
  assumes "mounted contents valid fs" "inode_placed e contents fs addr d"
  shows "read_inode e fs addr = Some (unpack_inode (env_codec e) (sect (disk contents fs) (inode_slot fs d addr) 128))"
proof -
  obtain pos where pos: "inode_position fs d addr = Some pos" "unat pos = inode_slot fs d addr"
    using inode_position_placed [OF assms] by blast
  have "inode_slot fs d addr + 128 \<le> length (disk contents fs)" using assms(2) by (simp add: inode_placed_def)
  then have "fs_read e fs pos 128 = Some (Some (sect (disk contents fs) (inode_slot fs d addr) 128))"
    using fs_read_inside [OF assms(1), of pos 128] by (simp add: pos(2))
  with pos inode_descriptor [OF assms] show ?thesis by (auto simp: read_inode_def)
qed

lemma write_inode_placed:
  assumes "mounted contents valid fs" "inode_placed e contents fs addr d" "inode_arrays_ok i"
  shows "\<exists>fs'. write_inode e addr i fs = Some (Some (), fs')
    \<and> rewritten contents valid fs (\<lambda>C. replace_at C (inode_slot fs d addr) (pack_inode (env_codec e) i)) fs'"
proof -
  obtain pos where pos: "inode_position fs d addr = Some pos" "unat pos = inode_slot fs d addr"
    using inode_position_placed [OF assms(1,2)] by blast
  have "unat pos + length (pack_inode (env_codec e) i) \<le> length (disk contents fs)"
    using assms(2,3) by (simp add: inode_placed_def pos(2) length_pack)
  from fs_write_inside [OF assms(1) this] obtain fs' where
    w: "fs_write e pos (pack_inode (env_codec e) i) fs = Some (Some (of_nat (length (pack_inode (env_codec e) i))), fs')"
      "rewritten contents valid fs (\<lambda>C. replace_at C (unat pos) (pack_inode (env_codec e) i)) fs'" by blast
  obtain gi where "get_descriptor_index_of_inode_addr fs addr = Some gi"
    "read_block_group_descriptor e fs gi = Some (Some d)" using inode_descriptor [OF assms(1,2)] by blast
  with w(1) pos(1) have "write_inode e addr i fs = Some (Some (), fs')" by (simp add: write_inode_def)
  with w(2) show ?thesis unfolding pos(2) by blast
qed

lemma inode_written_read:
  assumes m: "mounted contents valid fs" and i: "inode_placed e contents fs addr d" "inode_arrays_ok i"
  shows "\<exists>fs'. write_inode e addr i fs = Some (Some (), fs') \<and> read_inode e fs' addr = Some (Some i)
    \<and> same_outside (inode_slot fs d addr) 128 (disk contents fs) (disk contents fs')"
proof -
  let ?p = "pack_inode (env_codec e) i" and ?pos = "inode_slot fs d addr"
  obtain fs' where w: "write_inode e addr i fs = Some (Some (), fs')"
    "rewritten contents valid fs (\<lambda>C. replace_at C ?pos ?p) fs'" using write_inode_placed [OF m i] by blast
  note f = rewritten_disk [OF w(2)]
  have fit: "?pos + length ?p \<le> length (disk contents fs)" using i by (simp add: inode_placed_def length_pack)
  have o: "same_outside ?pos 128 (disk contents fs) (disk contents fs')"
    unfolding f(1) using same_outside_replace [OF fit] i(2) by (simp add: length_pack)
  have m': "mounted contents valid fs'" using rewritten_mounted [OF w(2) m] fit by simp
  have size: "get_ondisk_inode_size fs' = get_ondisk_inode_size fs"
    by (simp add: get_ondisk_inode_size_def f)
  have slot: "inode_group fs' addr = inode_group fs addr" "inode_slot fs' d addr = ?pos"
    by (simp_all add: inode_group_def inode_slot_def f size)
  have "2048 + 32 * inode_group fs addr + 18 \<le> ?pos"
    using special_blocks_cover [OF m] i(1) unfolding inode_placed_def by linarith
  then have "descr e contents fs' (inode_group fs addr) = descr e contents fs (inode_group fs addr)"
    unfolding descr_def by (subst sect_same_outside [OF o]) simp_all
  then have "inode_placed e contents fs' addr d"
    using i(1) o by (simp add: inode_placed_def f size slot same_outside_def)
  moreover have "sect (disk contents fs') ?pos 128 = ?p"
    unfolding f(1) using sect_replace_same [OF fit] length_pack(3) [OF i(2)] by metis
  ultimately have "read_inode e fs' addr = Some (Some i)"
    using read_inode_placed [OF m'] inode_round_trip [OF i(2)] slot(2) by metis
  with w(1) o show ?thesis by blast
qed

end

text \<open>
  An inode that is written is read back with all of its fields, and no byte of the device outside
  of its record changes; in particular the descriptors and the superblocks stay.
\<close>

theorem inode_read_after_write:
  assumes env: "ext2_env e contents valid" and m: "mounted contents valid fs"
    and i: "inode_placed e contents fs addr d" "inode_arrays_ok i"
  shows "\<exists>fs'. write_inode e addr i fs = Some (Some (), fs') \<and> read_inode e fs' addr = Some (Some i)
    \<and> same_outside (inode_slot fs d addr) 128 (disk contents fs) (disk contents fs')"
  using assms by (rule ext2_env.inode_written_read)

theorem inode_read_after_write_witness:
  "\<exists>fs'. write_inode ram_env 2 default_inode demo_fs = Some (Some (), fs')
     \<and> read_inode ram_env fs' 2 = Some (Some default_inode)"
proof -
  have "get_ondisk_inode_size demo_fs = Some 128" by (simp add: get_ondisk_inode_size_def demo_fs_def demo_sb_def)
  moreover from this have "inode_group demo_fs 2 = 0" "inode_slot demo_fs demo_descriptor 2 = 5 * 1024 + 128"
    by (simp_all add: inode_group_def inode_slot_def demo_geometry demo_sb_def demo_descriptor_def)
  moreover have "descr ram_env id demo_fs 0 = Some demo_descriptor" using demo_ready by (simp add: group_ready_def)
  ultimately have "inode_placed ram_env id demo_fs 2 demo_descriptor"
    by (simp add: inode_placed_def demo_geometry demo_sb_def)
  from inode_read_after_write [OF ram_ext2.ext2_env_axioms demo_mounted this default_inode_arrays_ok]
  show ?thesis by blast
qed

section \<open>Larger blocks\<close>

text \<open>
  With blocks of 4096 bytes the descriptor of group \<open>gi\<close> is read at byte \<open>32 * gi\<close> of the device,
  inside of the boot record, and not in the block behind the superblock, which starts at byte 4096.
\<close>

theorem descriptors_of_larger_blocks:
  assumes "block_size_log2_minus_10 (sb fs) = 2" "unat gi < 2 ^ 27"
  shows "read_block_group_descriptor e fs gi =
    ask (fs_read e fs (gi * 32) 18) (\<lambda>raw. Some (unpack_descriptor (env_codec e) raw))"
proof -
  have "get_block_size fs = Some 4096"
    by (simp add: get_block_size_def assms(1) checked_add_def)
  then show ?thesis using assms(2)
    by (simp add: read_block_group_descriptor_def descriptor_table_addr_def checked_div_def checked_mul_def
        get_ondisk_block_group_descriptor_size_def checked_add_def)
qed

theorem descriptors_of_larger_blocks_witness:
  "read_block_group_descriptor ram_env (demo_fs\<lparr>sb := demo_sb\<lparr>block_size_log2_minus_10 := 2\<rparr>\<rparr>) 3 =
     ask (fs_read ram_env (demo_fs\<lparr>sb := demo_sb\<lparr>block_size_log2_minus_10 := 2\<rparr>\<rparr>) 96 18)
       (\<lambda>raw. Some (unpack_descriptor (env_codec ram_env) raw))"
  using descriptors_of_larger_blocks [of "demo_fs\<lparr>sb := demo_sb\<lparr>block_size_log2_minus_10 := 2\<rparr>\<rparr>" 3 ram_env] by simp

end
