(* ===== verification/Vfs.thy ===== *)
theory Vfs
  imports Prelude
begin

text \<open>
  The virtual file system (\<^verbatim>\<open>src/kernel/src/vfs.rs\<close>): paths, the search for the node of a path, and
  the root file system, a tree of folders that file systems are mounted over.

  A path is a \<open>string\<close>; the text is taken to be ASCII, so that the characters of a string are its
  bytes. The folders of mounted file systems are trait objects: their children are given by a
  parameter. \<open>None\<close> as a whole result is a panic; the inner option is the source's \<^verbatim>\<open>Option\<close>. The
  parent pointer of a folder of the root file system is not part of the tree, which is a value:
  an operation on a folder returns the changed folder.
\<close>

section \<open>Paths\<close>

fun split_on :: "'a \<Rightarrow> 'a list \<Rightarrow> 'a list list" where
  "split_on c [] = [[]]"
| "split_on c (x # xs) =
     (if x = c then [] # split_on c xs
      else (case split_on c xs of p # ps \<Rightarrow> (x # p) # ps | [] \<Rightarrow> [[x]]))"

definition Path_root :: string where
  "Path_root = ''/''"

definition path_last :: "string \<Rightarrow> string option" where
  "path_last p = (let parts = filter (\<lambda>val. val \<noteq> []) (split_on CHR ''/'' p) in
     if parts = [] then None else Some (last parts))"

definition path_from_str :: "string \<Rightarrow> string option" where
  "path_from_str value =
     (if value = ''/'' then Some Path_root
      else if take 1 value \<noteq> ''/'' then None
      else if last value = CHR ''/'' then Some (butlast value)
      else Some value)"

definition path_from_String :: "string \<Rightarrow> string option" where
  "path_from_String value =
     (if take 1 value \<noteq> ''/'' then None
      else if CHR ''/'' \<notin> set value then None
      else Some value)"

fun canonical_parts :: "string list \<Rightarrow> nat \<Rightarrow> string list" where
  "canonical_parts [] parts_to_skip = []"
| "canonical_parts (part # parts) parts_to_skip =
     (if part = ''.'' \<or> part = [] then canonical_parts parts parts_to_skip
      else if part = ''..'' then canonical_parts parts (parts_to_skip + 1)
      else if parts_to_skip > 0 then canonical_parts parts (parts_to_skip - 1)
      else part # canonical_parts parts parts_to_skip)"

definition canonicalize :: "string \<Rightarrow> string option" where
  "canonicalize p =
     (let canonical_path = canonical_parts (rev (split_on CHR ''/'' p)) 0 in
      if canonical_path = [] then Some Path_root
      else path_from_String (concat (map (\<lambda>part. ''/'' @ part) (rev canonical_path))))"

fun pop_until_slash :: "string \<Rightarrow> string" where
  "pop_until_slash [] = []"
| "pop_until_slash (c # rest) =
     (if c = CHR ''/'' then if rest = [] then ''/'' else rest else pop_until_slash rest)"

definition del_last :: "string \<Rightarrow> string" where
  "del_last p = rev (pop_until_slash (rev p))"

definition append_str :: "string \<Rightarrow> string \<Rightarrow> string" where
  "append_str p subnode =
     (if p = [] \<or> last p \<noteq> CHR ''/'' then p @ ''/'' else p) @ subnode"

definition is_whitespace :: "char \<Rightarrow> bool" where
  "is_whitespace c \<longleftrightarrow> c \<in> {CHR '' '', CHR 0x09, CHR 0x0A, CHR 0x0B, CHR 0x0C, CHR 0x0D}"

definition trim :: "string \<Rightarrow> string" where
  "trim s = rev (dropWhile is_whitespace (rev (dropWhile is_whitespace s)))"

section \<open>Nodes and the root file system\<close>

datatype ('f, 'd) RootFSNode =
  RootFSNode (node_path: string) (children: "('f, 'd) RootFSNode list") (mountpoint: "'d option")

datatype ('f, 'd) folder = Mounted 'd | Rootfs "('f, 'd) RootFSNode"

datatype ('f, 'd) Node = File 'f | Folder "('f, 'd) folder"

type_synonym ('f, 'd) listing = "(string \<times> ('f, 'd) Node) list"

primrec expect_folder :: "('f, 'd) Node \<Rightarrow> ('f, 'd) folder option" where
  "expect_folder (Folder f) = Some f"
| "expect_folder (File f) = None"

primrec expect_file :: "('f, 'd) Node \<Rightarrow> 'f option" where
  "expect_file (Folder f) = None"
| "expect_file (File f) = Some f"

definition new_root :: "('f, 'd) RootFSNode" where
  "new_root = RootFSNode Path_root [] None"

text \<open>\<^verbatim>\<open>get_children\<close> of a root file system folder: the mounted folder first, then what it does not hide.\<close>

fun overlay :: "('f, 'd) listing \<Rightarrow> ('f, 'd) RootFSNode list \<Rightarrow> ('f, 'd) listing option" where
  "overlay v [] = Some v"
| "overlay v (c # cs) =
     (if list_ex (\<lambda>(child_name, _). Some child_name = path_last (node_path c)) v then overlay v cs
      else (case path_last (node_path c) of
          Some name \<Rightarrow> overlay (v @ [(name, Folder (Rootfs c))]) cs
        | None \<Rightarrow> None))"

definition rootfs_get_children ::
  "('d \<Rightarrow> ('f, 'd) listing) \<Rightarrow> ('f, 'd) RootFSNode \<Rightarrow> ('f, 'd) listing option" where
  "rootfs_get_children mounted slf =
     overlay (case mountpoint slf of Some mnt \<Rightarrow> mounted mnt | None \<Rightarrow> []) (children slf)"

primrec get_children ::
  "('d \<Rightarrow> ('f, 'd) listing) \<Rightarrow> ('f, 'd) folder \<Rightarrow> ('f, 'd) listing option" where
  "get_children mounted (Mounted d) = Some (mounted d)"
| "get_children mounted (Rootfs n) = rootfs_get_children mounted n"

definition new_folder ::
  "('f, 'd) RootFSNode \<Rightarrow> string \<Rightarrow> ('f, 'd) RootFSNode \<times> ('f, 'd) RootFSNode" where
  "new_folder slf name =
     (let new_f = RootFSNode (append_str (node_path slf) name) [] None in
      (RootFSNode (node_path slf) (children slf @ [new_f]) (mountpoint slf), new_f))"

fun find_deletable ::
  "('d \<Rightarrow> ('f, 'd) listing) \<Rightarrow> string \<Rightarrow> nat \<Rightarrow> ('f, 'd) RootFSNode list \<Rightarrow> nat option option" where
  "find_deletable mounted name i [] = Some None"
| "find_deletable mounted name i (c # cs) = do {
     inner \<leftarrow> rootfs_get_children mounted c;
     if length inner \<noteq> 0 then find_deletable mounted name (i + 1) cs
     else if path_last (node_path c) = Some name then Some (Some i)
     else find_deletable mounted name (i + 1) cs }"

definition del_folder ::
  "('d \<Rightarrow> ('f, 'd) listing) \<Rightarrow> ('f, 'd) RootFSNode \<Rightarrow> string \<Rightarrow> (bool \<times> ('f, 'd) RootFSNode) option"
  where
  "del_folder mounted slf name = do {
     di \<leftarrow> find_deletable mounted name 0 (children slf);
     (case di of
        Some i \<Rightarrow> Some (True, RootFSNode (node_path slf)
          (take i (children slf) @ drop (Suc i) (children slf)) (mountpoint slf))
      | None \<Rightarrow> Some (False, slf)) }"

definition find_folder :: "('f, 'd) RootFSNode \<Rightarrow> string \<Rightarrow> ('f, 'd) RootFSNode option" where
  "find_folder slf name = find (\<lambda>c. path_last (node_path c) = Some name) (children slf)"

section \<open>The search for a path\<close>

fun node_loop ::
  "('d \<Rightarrow> ('f, 'd) listing) \<Rightarrow> string \<Rightarrow> string list \<Rightarrow> ('f, 'd) Node \<Rightarrow> string
     \<Rightarrow> ('f, 'd) Node option option" where
  "node_loop mounted path [] cur_node cur_path = Some (Some cur_node)"
| "node_loop mounted path (part # nodes) cur_node cur_path =
     (if cur_path = path then Some (Some cur_node)
      else let to_find = trim part in
        if to_find = [] then node_loop mounted path nodes cur_node cur_path
        else do {
          f \<leftarrow> expect_folder cur_node;
          listing \<leftarrow> get_children mounted f;
          (case find (\<lambda>(child_name, _). child_name = to_find) listing of
             Some (_, child_node) \<Rightarrow>
               node_loop mounted path nodes child_node (append_str cur_path to_find)
           | None \<Rightarrow> Some None) })"

definition get_node ::
  "('d \<Rightarrow> ('f, 'd) listing) \<Rightarrow> ('f, 'd) RootFSNode \<Rightarrow> string \<Rightarrow> ('f, 'd) Node option option" where
  "get_node mounted VFS_ROOT path =
     node_loop mounted path (split_on CHR ''/'' path) (Folder (Rootfs VFS_ROOT)) Path_root"

fun rootfs_loop ::
  "string \<Rightarrow> string list \<Rightarrow> ('f, 'd) RootFSNode \<Rightarrow> string \<Rightarrow> ('f, 'd) RootFSNode option" where
  "rootfs_loop path [] cur_node cur_path = Some cur_node"
| "rootfs_loop path (part # nodes) cur_node cur_path =
     (if cur_path = path then Some cur_node
      else let to_find = trim part in
        if to_find = [] then rootfs_loop path nodes cur_node cur_path
        else (case find (\<lambda>child. path_last (node_path child) = Some to_find) (children cur_node) of
            Some child \<Rightarrow> rootfs_loop path nodes child (append_str cur_path to_find)
          | None \<Rightarrow> None))"

definition get_rootfs_node :: "('f, 'd) RootFSNode \<Rightarrow> string \<Rightarrow> ('f, 'd) RootFSNode option" where
  "get_rootfs_node VFS_ROOT path =
     rootfs_loop path (split_on CHR ''/'' path) VFS_ROOT Path_root"

section \<open>Components\<close>

lemma split_on_not_Nil [simp]: "split_on c xs \<noteq> []"
  by (cases xs) (auto split: list.splits)

lemma split_on_no_sep: "c \<notin> set xs \<Longrightarrow> split_on c xs = [xs]"
  by (induction xs) auto

lemma split_on_append: "c \<notin> set xs \<Longrightarrow> split_on c (xs @ c # ys) = xs # split_on c ys"
  by (induction xs) auto

lemma split_on_parts: "p \<in> set (split_on c xs) \<Longrightarrow> c \<notin> set p"
  by (induction xs arbitrary: p) (auto split: list.splits if_splits)

text \<open>The text of a list of components, and the components of a text.\<close>

definition join :: "string list \<Rightarrow> string" where
  "join parts = concat (map (\<lambda>part. ''/'' @ part) parts)"

definition component :: "string \<Rightarrow> bool" where
  "component p \<longleftrightarrow> p \<noteq> [] \<and> CHR ''/'' \<notin> set p"

lemma join_simps [simp]: "join [] = []" "join (p # ps) = CHR ''/'' # p @ join ps"
  "join (ps @ qs) = join ps @ join qs"
  by (simp_all add: join_def)

lemma split_join: "list_all component parts \<Longrightarrow> parts \<noteq> [] \<Longrightarrow> split_on CHR ''/'' (join parts) = [] # parts"
proof (induction parts)
  case (Cons p ps)
  then have p: "CHR ''/'' \<notin> set p" by (simp add: component_def)
  show ?case
  proof (cases ps)
    case Nil
    with p show ?thesis by (simp add: split_on_no_sep)
  next
    case (Cons q qs)
    then obtain r where r: "join ps = CHR ''/'' # r" by simp
    have "split_on CHR ''/'' (join ps) = [] # ps" using Cons.IH Cons Cons.prems by auto
    then have "split_on CHR ''/'' r = ps" by (simp add: r)
    with p show ?thesis by (simp add: r split_on_append)
  qed
qed simp

section \<open>Canonical paths\<close>

text \<open>The usual meaning of a path: walk it forwards with a stack of components.\<close>

fun enter :: "string list \<Rightarrow> string \<Rightarrow> string list" where
  "enter stack part =
     (if part = ''.'' \<or> part = [] then stack
      else if part = ''..'' then butlast stack
      else stack @ [part])"

definition resolve :: "string list \<Rightarrow> string list" where
  "resolve parts = foldl enter [] parts"

lemma canonical_parts_resolve:
  "canonical_parts (rev parts) k = drop k (rev (resolve parts))"
proof (induction parts arbitrary: k rule: rev_induct)
  case (snoc p parts)
  have "rev (butlast xs) = drop 1 (rev xs)" for xs :: "string list"
    by (simp add: butlast_rev [symmetric] drop_Suc flip: rev_swap) (metis butlast_rev rev_rev_ident)
  with snoc show ?case by (cases k) (auto simp: resolve_def)
qed (simp add: resolve_def)

lemma resolve_components:
  assumes "\<forall>p \<in> set parts. CHR ''/'' \<notin> set p"
  shows "list_all (\<lambda>p. component p \<and> p \<noteq> ''.'' \<and> p \<noteq> ''..'') (resolve parts)"
  using assms
proof (induction parts rule: rev_induct)
  case (snoc p parts)
  then show ?case by (auto simp: resolve_def component_def list_all_iff dest: in_set_butlastD)
qed (simp add: resolve_def)

lemma resolve_plain:
  "list_all (\<lambda>p. component p \<and> p \<noteq> ''.'' \<and> p \<noteq> ''..'') parts \<Longrightarrow> resolve ([] # parts) = parts"
proof -
  have "foldl enter stack parts = stack @ parts"
    if "list_all (\<lambda>p. component p \<and> p \<noteq> ''.'' \<and> p \<noteq> ''..'') parts" for stack
    using that by (induction parts arbitrary: stack) (auto simp: component_def)
  then show "list_all (\<lambda>p. component p \<and> p \<noteq> ''.'' \<and> p \<noteq> ''..'') parts \<Longrightarrow> resolve ([] # parts) = parts"
    by (simp add: resolve_def)
qed

lemma canonicalize_resolve:
  "canonicalize p = Some (if resolve (split_on CHR ''/'' p) = [] then ''/''
     else join (resolve (split_on CHR ''/'' p)))"
proof -
  have "path_from_String (join (resolve (split_on CHR ''/'' p))) = Some (join (resolve (split_on CHR ''/'' p)))"
    if "resolve (split_on CHR ''/'' p) \<noteq> []"
    using that by (cases "resolve (split_on CHR ''/'' p)") (auto simp: path_from_String_def)
  then show ?thesis
    unfolding canonicalize_def canonical_parts_resolve Path_root_def join_def [symmetric]
    by (simp add: Let_def)
qed

text \<open>
  (C28) \<^verbatim>\<open>canonicalize\<close>, which walks a path backwards and counts the components to skip, gives the
  path that a walk forwards with a stack gives: empty and \<^verbatim>\<open>.\<close> components are dropped, \<^verbatim>\<open>..\<close>
  removes the component before it and does nothing at the root. It never panics, and a second
  application changes nothing.
\<close>

theorem canonicalize_correct:
  "\<exists>q. canonicalize p = Some q
    \<and> q = (if resolve (split_on CHR ''/'' p) = [] then ''/'' else join (resolve (split_on CHR ''/'' p)))
    \<and> canonicalize q = Some q"
proof -
  let ?parts = "resolve (split_on CHR ''/'' p)"
  have plain: "list_all (\<lambda>p. component p \<and> p \<noteq> ''.'' \<and> p \<noteq> ''..'') ?parts"
    by (rule resolve_components) (simp add: split_on_parts)
  then have "list_all component ?parts" by (simp add: list_all_iff)
  then have "resolve (split_on CHR ''/'' (join ?parts)) = ?parts" if "?parts \<noteq> []"
    using that split_join [of ?parts] resolve_plain [OF plain] by simp
  moreover have "resolve (split_on CHR ''/'' ''/'') = []" by (simp add: resolve_def)
  ultimately show ?thesis by (simp add: canonicalize_resolve)
qed

section \<open>Names\<close>

definition proper_path :: "string \<Rightarrow> bool" where
  "proper_path p \<longleftrightarrow> p = ''/'' \<or> (\<exists>parts. parts \<noteq> [] \<and> list_all component parts \<and> p = join parts)"

lemma pop_until_slash_append: "CHR ''/'' \<notin> set xs \<Longrightarrow> pop_until_slash (xs @ ys) = pop_until_slash ys"
  by (induction xs) auto

lemma join_last: "list_all component parts \<Longrightarrow> parts \<noteq> [] \<Longrightarrow> join parts \<noteq> [] \<and> last (join parts) \<noteq> CHR ''/''"
proof (induction parts rule: rev_induct)
  case (snoc p ps)
  then have "p \<noteq> []" "CHR ''/'' \<notin> set p" by (auto simp: component_def)
  then have "p \<noteq> []" "last p \<noteq> CHR ''/''" by (auto dest: last_in_set)
  then show ?case by simp
qed simp

lemma append_str_join:
  "list_all component parts \<Longrightarrow> append_str (join parts) name = join (parts @ [name])"
  "append_str ''/'' name = join [name]"
  using join_last [of parts] by (cases "parts = []", auto simp: append_str_def)+

lemma append_str_facts:
  assumes "proper_path p" and "component name"
  shows "del_last (append_str p name) = p \<and> path_last (append_str p name) = Some name
    \<and> proper_path (append_str p name)"
proof -
  obtain parts where parts: "list_all component parts" "p = (if parts = [] then ''/'' else join parts)"
    using assms(1) that [of "[]"] unfolding proper_path_def by auto
  then have app: "append_str p name = join (parts @ [name])"
    using append_str_join by (cases "parts = []") auto
  have all: "list_all component (parts @ [name])" using parts(1) assms(2) by simp
  have "CHR ''/'' \<notin> set (rev name)" using assms(2) by (simp add: component_def)
  then have "del_last (join (parts @ [name])) = p"
    using parts join_last [OF parts(1)] by (auto simp: del_last_def pop_until_slash_append)
  moreover have "filter (\<lambda>v. v \<noteq> []) (parts @ [name]) = parts @ [name]"
    using all by (auto simp: filter_id_conv list_all_iff component_def)
  then have "path_last (join (parts @ [name])) = Some name"
    using split_join [OF all] by (simp add: path_last_def Let_def)
  moreover have "proper_path (join (parts @ [name]))"
    using all unfolding proper_path_def by blast
  ultimately show ?thesis unfolding app by blast
qed

lemma append_str_last:
  "proper_path p \<Longrightarrow> component name \<Longrightarrow> path_last (append_str p name) = Some name"
  using append_str_facts by blast

text \<open>
  Going into a folder and back: appending a name to a path without a trailing slash and
  deleting the last component gives the path again, and the last component of the longer path is
  the name.
\<close>

theorem append_str_round_trip:
  assumes "proper_path p" and "component name"
  shows "del_last (append_str p name) = p \<and> path_last (append_str p name) = Some name
    \<and> proper_path (append_str p name)"
  using assms by (rule append_str_facts)

theorem append_str_round_trip_witness:
  "del_last (append_str ''/usr'' ''bin'') = ''/usr'' \<and> path_last (append_str ''/usr'' ''bin'') = Some ''bin''
    \<and> proper_path (append_str ''/usr'' ''bin'')"
proof (rule append_str_round_trip)
  have "list_all component [''usr'']" "''/usr'' = join [''usr'']" by code_simp+
  then show "proper_path ''/usr''" unfolding proper_path_def by blast
  show "component ''bin''" by code_simp
qed

section \<open>Finding nodes\<close>

text \<open>The meaning of a path in a file system: its components lead from folder to folder.\<close>

primrec walk :: "('d \<Rightarrow> ('f, 'd) listing) \<Rightarrow> ('f, 'd) Node \<Rightarrow> string list \<Rightarrow> ('f, 'd) Node option option"
  where
  "walk mounted n [] = Some (Some n)"
| "walk mounted n (p # ps) = do {
     f \<leftarrow> expect_folder n;
     listing \<leftarrow> get_children mounted f;
     (case map_of listing p of
        Some n' \<Rightarrow> walk mounted n' ps
      | None \<Rightarrow> Some None) }"

definition trimmed_component :: "string \<Rightarrow> bool" where
  "trimmed_component p \<longleftrightarrow> component p \<and> trim p = p"

lemma find_map_of: "find (\<lambda>(k, _). k = a) xs = map_option (\<lambda>v. (a, v)) (map_of xs a)"
  by (induction xs) auto

lemma node_loop_walk:
  assumes "list_all trimmed_component (done_parts @ todo)" "path = join (done_parts @ todo)" "done_parts @ todo \<noteq> []"
  shows "node_loop mounted path todo n (if done_parts = [] then ''/'' else join done_parts) = walk mounted n todo"
  using assms
proof (induction todo arbitrary: n done_parts)
  case (Cons p ps)
  let ?cur = "if done_parts = [] then ''/'' else join done_parts"
  have p: "p \<noteq> []" "trim p = p" using Cons.prems by (auto simp: trimmed_component_def component_def)
  have comps: "list_all component done_parts"
    using Cons.prems(1) by (auto simp: list_all_iff trimmed_component_def)
  have "?cur \<noteq> path" using p(1) Cons.prems(2) by auto
  moreover have "append_str ?cur p = join (done_parts @ [p])"
    using append_str_join(1) [OF comps] append_str_join(2) by simp
  moreover have "node_loop mounted path ps n' (join (done_parts @ [p])) = walk mounted n' ps" for n'
    using Cons.IH [of "done_parts @ [p]" n'] Cons.prems by simp
  ultimately show ?case
    using p by (auto simp: Let_def find_map_of split: option.split bind_splits)
qed simp

lemma get_node_join:
  assumes "list_all trimmed_component parts" and "parts \<noteq> []"
  shows "get_node mounted root (join parts) = walk mounted (Folder (Rootfs root)) parts"
proof -
  have comps: "list_all component parts" using assms(1) by (auto simp: list_all_iff trimmed_component_def)
  have "join parts \<noteq> ''/''" using assms(2) comps by (cases parts) (auto simp: component_def)
  then have "get_node mounted root (join parts) =
      node_loop mounted (join parts) parts (Folder (Rootfs root)) ''/''"
    by (simp add: get_node_def split_join [OF comps assms(2)] Path_root_def trim_def)
  then show ?thesis using node_loop_walk [of "[]" parts "join parts"] assms by simp
qed

text \<open>
  (C29) \<^verbatim>\<open>get_node\<close> finds the node a path names: for a path of components that are not empty and
  have no blanks at their ends, it is the walk from the root through the children with those names,
  \<^verbatim>\<open>None\<close> when a component does not exist.
\<close>

theorem get_node_walks:
  assumes "list_all trimmed_component parts" and "parts \<noteq> []"
  shows "get_node mounted root (join parts) = walk mounted (Folder (Rootfs root)) parts"
  using assms by (rule get_node_join)

text \<open>
  A path that goes on behind a file stops the kernel: when the components so far name a file
  and another component follows, \<^verbatim>\<open>get_node\<close> panics in \<^verbatim>\<open>expect_folder\<close> instead of reporting that
  there is no such node.
\<close>

theorem path_through_file_panics:
  assumes "list_all trimmed_component (parts @ p # rest)"
    and "walk mounted (Folder (Rootfs root)) parts = Some (Some (File f))"
  shows "get_node mounted root (join (parts @ p # rest)) = None"
proof -
  have "walk mounted n (parts @ p # rest) = None" if "walk mounted n parts = Some (Some (File f))" for n
    using that by (induction parts arbitrary: n) (auto split: bind_splits option.splits)
  then have "walk mounted (Folder (Rootfs root)) (parts @ p # rest) = None" using assms(2) .
  then show ?thesis
    using get_node_join [of "parts @ p # rest" mounted root] assms(1) by simp
qed

text \<open>A small file system for examples: \<^verbatim>\<open>/dev\<close> is a mounted folder with one file, \<^verbatim>\<open>tty\<close>.\<close>

definition demo_root :: "(nat, nat) RootFSNode" where
  "demo_root = RootFSNode ''/'' [RootFSNode ''/dev'' [] (Some 7), RootFSNode ''/home'' [] None] None"

definition demo_mounted :: "nat \<Rightarrow> (nat, nat) listing" where
  "demo_mounted d = (if d = 7 then [(''tty'', File 1)] else [])"

theorem get_node_walks_witness:
  "get_node demo_mounted demo_root ''/dev/tty'' = Some (Some (File 1))
   \<and> get_node demo_mounted demo_root ''/dev/disk'' = Some None"
proof -
  have "list_all trimmed_component [''dev'', ''tty'']" "list_all trimmed_component [''dev'', ''disk'']"
    "walk demo_mounted (Folder (Rootfs demo_root)) [''dev'', ''tty''] = Some (Some (File 1))"
    "walk demo_mounted (Folder (Rootfs demo_root)) [''dev'', ''disk''] = Some None"
    by code_simp+
  then show ?thesis
    using get_node_walks [of "[''dev'', ''tty'']" demo_mounted demo_root]
      get_node_walks [of "[''dev'', ''disk'']" demo_mounted demo_root]
    by simp
qed

theorem path_through_file_panics_witness: "get_node demo_mounted demo_root ''/dev/tty/x'' = None"
proof -
  have "list_all trimmed_component ([''dev'', ''tty''] @ ''x'' # [])"
    "walk demo_mounted (Folder (Rootfs demo_root)) [''dev'', ''tty''] = Some (Some (File 1))"
    by code_simp+
  from path_through_file_panics [OF this] show ?thesis by simp
qed

section \<open>Mounting\<close>

lemma list_ex_map_of: "list_ex (\<lambda>(n, _). Some n = Some a) v \<longleftrightarrow> map_of v a \<noteq> None"
  by (induction v) auto

lemma overlay_lookup:
  "overlay v cs = Some l \<Longrightarrow> map_of l name =
    (case map_of v name of
       Some n \<Rightarrow> Some n
     | None \<Rightarrow> map_option (\<lambda>c. Folder (Rootfs c)) (find (\<lambda>c. path_last (node_path c) = Some name) cs))"
proof (induction cs arbitrary: v)
  case (Cons c cs)
  show ?case
  proof (cases "path_last (node_path c)")
    case None
    with Cons show ?thesis by (auto simp: list_ex_iff split: if_splits)
  next
    case (Some a)
    show ?thesis
    proof (cases "map_of v a")
      case None
      then have "\<not> list_ex (\<lambda>(n, _). Some n = path_last (node_path c)) v"
        using Some list_ex_map_of [of a v] by simp
      with Some Cons.prems have "overlay (v @ [(a, Folder (Rootfs c))]) cs = Some l" by simp
      from Cons.IH [OF this] Some None show ?thesis
        by (auto simp: map_of_append map_add_def split: option.splits)
    next
      case hidden: (Some n)
      then have "list_ex (\<lambda>(n, _). Some n = path_last (node_path c)) v"
        using Some list_ex_map_of [of a v] by simp
      with Cons.prems have "overlay v cs = Some l" by simp
      from Cons.IH [OF this] Some hidden show ?thesis by (auto split: option.splits)
    qed
  qed
qed (simp split: option.split)

lemma overlay_total:
  "list_all (\<lambda>c. path_last (node_path c) \<noteq> None) cs \<Longrightarrow> overlay v cs \<noteq> None"
  by (induction cs arbitrary: v) auto

text \<open>
  Mounting is an overlay: when the folders of the root file system have names, listing a
  folder never panics, and a name in the listing is the child of the mounted folder when that has
  one and otherwise the first folder of the root file system with the name.
\<close>

theorem mount_overlays:
  assumes "list_all (\<lambda>c. path_last (node_path c) \<noteq> None) (children n)"
  shows "\<exists>l. rootfs_get_children mounted n = Some l \<and>
    map_of l name = (case mountpoint n of
        Some mnt \<Rightarrow> (case map_of (mounted mnt) name of
            Some m \<Rightarrow> Some m
          | None \<Rightarrow> map_option (\<lambda>c. Folder (Rootfs c)) (find_folder n name))
      | None \<Rightarrow> map_option (\<lambda>c. Folder (Rootfs c)) (find_folder n name))"
proof -
  let ?v = "case mountpoint n of Some mnt \<Rightarrow> mounted mnt | None \<Rightarrow> []"
  obtain l where l: "overlay ?v (children n) = Some l"
    using overlay_total [OF assms, of ?v] by auto
  from overlay_lookup [OF l, of name] l show ?thesis
    by (auto simp: rootfs_get_children_def find_folder_def split: option.splits)
qed

theorem mount_overlays_witness:
  "\<exists>l. rootfs_get_children demo_mounted demo_root = Some l
     \<and> map_of l ''home'' = Some (Folder (Rootfs (RootFSNode ''/home'' [] None)))"
proof -
  have "list_all (\<lambda>c. path_last (node_path c) \<noteq> None) (children demo_root)"
    "find_folder demo_root ''home'' = Some (RootFSNode ''/home'' [] None)" "mountpoint demo_root = None"
    by code_simp+
  then show ?thesis using mount_overlays [of demo_root demo_mounted "''home''"] by simp
qed

lemma find_append_None:
  "(\<forall>x \<in> set xs. \<not> P x) \<Longrightarrow> find P (xs @ ys) = find P ys"
  by (induction xs) auto

lemma find_deletable_new:
  assumes "list_all (\<lambda>c. path_last (node_path c) \<noteq> Some name \<and> rootfs_get_children mounted c \<noteq> None) cs"
    and "path_last (node_path n) = Some name" "rootfs_get_children mounted n = Some []"
  shows "find_deletable mounted name i (cs @ [n]) = Some (Some (i + length cs))"
  using assms by (induction cs arbitrary: i) (auto split: bind_splits)

text \<open>
  Creating a folder and deleting it: a new folder of the root file system is found under its
  name, and deleting that name restores the parent, provided that no other child has the name and
  the folders below the other children have names.
\<close>

theorem new_folder_round_trip:
  assumes "proper_path (node_path slf)" and "component name" and "find_folder slf name = None"
    and "list_all (\<lambda>c. list_all (\<lambda>g. path_last (node_path g) \<noteq> None) (children c)) (children slf)"
  shows "find_folder (fst (new_folder slf name)) name = Some (snd (new_folder slf name))
    \<and> del_folder mounted (fst (new_folder slf name)) name = Some (True, slf)"
proof -
  let ?n = "RootFSNode (append_str (node_path slf) name) [] None"
  have last: "path_last (node_path ?n) = Some name"
    using append_str_last [OF assms(1,2)] by simp
  have others: "list_all (\<lambda>c. path_last (node_path c) \<noteq> Some name) (children slf)"
    using assms(3) by (auto simp: find_folder_def find_None_iff list_all_iff)
  then have "find_folder (fst (new_folder slf name)) name = Some (snd (new_folder slf name))"
    using last by (simp add: find_folder_def new_folder_def Let_def find_append_None list_all_iff)
  moreover have "list_all (\<lambda>c. path_last (node_path c) \<noteq> Some name \<and> rootfs_get_children mounted c \<noteq> None) (children slf)"
    using others assms(4) overlay_total by (fastforce simp: list_all_iff rootfs_get_children_def)
  from find_deletable_new [OF this last, of 0]
  have "find_deletable mounted name 0 (children slf @ [?n]) = Some (Some (length (children slf)))"
    by (simp add: rootfs_get_children_def)
  then have "del_folder mounted (fst (new_folder slf name)) name = Some (True, slf)"
    by (simp add: del_folder_def new_folder_def Let_def)
  ultimately show ?thesis ..
qed

theorem new_folder_round_trip_witness:
  "del_folder demo_mounted (fst (new_folder demo_root ''tmp'')) ''tmp'' = Some (True, demo_root)"
proof -
  have "proper_path (node_path demo_root)" by (simp add: demo_root_def proper_path_def)
  moreover have "component ''tmp''" "find_folder demo_root ''tmp'' = None"
    "list_all (\<lambda>c. list_all (\<lambda>g. path_last (node_path g) \<noteq> None) (children c)) (children demo_root)"
    by code_simp+
  ultimately show ?thesis using new_folder_round_trip [of demo_root "''tmp''" demo_mounted] by blast
qed

end
