(* ===== verification/Ext2_Inode.thy ===== *)
theory Ext2_Inode
  imports Ext2_Alloc Vfs
begin

text \<open>
  Inodes of an ext2 file system (\<^verbatim>\<open>impl Ext2RawInode\<close> and \<^verbatim>\<open>Ext2File\<close> in \<^verbatim>\<open>src/kernel/src/ext2.rs\<close>):
  the tree of block pointers, reading and writing bytes, growing and shrinking.

  A method with \<^verbatim>\<open>&mut self\<close> and \<^verbatim>\<open>&mut Ext2FS\<close> works on the pair of the inode and the file system.
\<close>

type_synonym 'd inode_fs = "Ext2RawInode \<times> 'd Ext2FS"

definition with_inode :: "Ext2RawInode \<Rightarrow> ('a, 'd Ext2FS) outcome \<Rightarrow> ('a, 'd inode_fs) outcome" where
  "with_inode i m = map_option (\<lambda>(r, fs). (r, i, fs)) m"

section \<open>Pointers inside of a block\<close>

definition read_value_from_u32_array_as_le_bytes :: "u8 list \<Rightarrow> nat \<Rightarrow> u32 option" where
  "read_value_from_u32_array_as_le_bytes bytes i =
     (if (i + 1) * 4 \<le> length bytes then Some (from_le_bytes (take 4 (drop (i * 4) bytes))) else None)"

definition write_value_to_u32_array_as_le_bytes :: "u8 list \<Rightarrow> nat \<Rightarrow> u32 \<Rightarrow> u8 list option" where
  "write_value_to_u32_array_as_le_bytes bytes i val =
     (if (i + 1) * 4 \<le> length bytes then Some (replace_at bytes (i * 4) (to_le_bytes val)) else None)"

section \<open>The tree of block pointers\<close>

definition get_size :: "Ext2RawInode \<Rightarrow> u64" where
  "get_size i = ucast (low32_size i)"

definition set_size :: "u64 \<Rightarrow> Ext2RawInode \<Rightarrow> Ext2RawInode" where
  "set_size new_size i = i\<lparr>low32_size := ucast new_size,
     disk_sectors_used := (ucast new_size :: u32) div 512 + (if (ucast new_size :: u32) mod 512 \<noteq> 0 then 1 else 0)\<rparr>"

definition get_last_allocated_data_block_number :: "Ext2RawInode \<Rightarrow> 'd Ext2FS \<Rightarrow> u64 option option" where
  "get_last_allocated_data_block_number i fs =
     (if get_size i = 0 then Some None
      else do {
        bs \<leftarrow> get_block_size fs;
        q \<leftarrow> checked_div (get_size i - 1) (ucast bs);
        Some (Some q) })"

definition pointer_in :: "'d Ext2Env \<Rightarrow> 'd Ext2FS \<Rightarrow> u32 \<Rightarrow> u64 \<Rightarrow> u32 option option" where
  "pointer_in e fs block i =
     ask (read_block e fs block) (\<lambda>bytes. map_option Some (read_value_from_u32_array_as_le_bytes bytes (unat i)))"

definition read_data_block_pointer :: "'d Ext2Env \<Rightarrow> 'd Ext2FS \<Rightarrow> Ext2RawInode \<Rightarrow> u64 \<Rightarrow> u32 option option" where
  "read_data_block_pointer e fs i n =
     (if n \<le> 11 then map_option Some (index (direct_block_pointers i) (unat n))
      else do {
        bs \<leftarrow> get_block_size fs;
        let ppb = ucast bs div 4;
        n \<leftarrow> checked_sub n 12;
        if n < ppb then pointer_in e fs (singly_indirect_block_pointer i) n
        else do {
          n \<leftarrow> checked_sub n ppb;
          square \<leftarrow> checked_mul ppb ppb;
          if n < square then
            ask (pointer_in e fs (doubly_indirect_block_pointer i) (n div ppb)) (\<lambda>singly.
              pointer_in e fs singly (n mod ppb))
          else do {
            n \<leftarrow> checked_sub n square;
            cube \<leftarrow> checked_mul square ppb;
            if n < cube then
              ask (pointer_in e fs (triply_indirect_block_pointer i) (n div square)) (\<lambda>doubly.
              ask (pointer_in e fs doubly (n mod square div ppb)) (\<lambda>singly.
                pointer_in e fs singly (n mod square mod ppb)))
            else Some None } } })"

text \<open>Overwriting the pointer \<open>i\<close> of an indirect block: the block it points to is released first.\<close>

definition replace_pointer_in ::
  "'d Ext2Env \<Rightarrow> u32 \<Rightarrow> u64 \<Rightarrow> u32 \<Rightarrow> 'd Ext2FS \<Rightarrow> (unit, 'd Ext2FS) outcome" where
  "replace_pointer_in e block i pointer fs =
     ask_in fs (read_block e fs block) (\<lambda>bytes. do {
       old \<leftarrow> read_value_from_u32_array_as_le_bytes bytes (unat i);
       (_, fs) \<leftarrow> dealloc_block e old fs;
       bytes \<leftarrow> write_value_to_u32_array_as_le_bytes bytes (unat i) pointer;
       and_then (write_block e block bytes fs) (\<lambda>_ fs. Some (Some (), fs)) })"

definition write_data_block_pointer ::
  "'d Ext2Env \<Rightarrow> u64 \<Rightarrow> u32 \<Rightarrow> 'd inode_fs \<Rightarrow> (unit, 'd inode_fs) outcome" where
  "write_data_block_pointer e n pointer s = (case s of (i, fs) \<Rightarrow>
     if n \<le> 11 then do {
       old \<leftarrow> index (direct_block_pointers i) (unat n);
       (_, fs) \<leftarrow> dealloc_block e old fs;
       Some (Some (), i\<lparr>direct_block_pointers := (direct_block_pointers i)[unat n := pointer]\<rparr>, fs) }
     else do {
       bs \<leftarrow> get_block_size fs;
       let ppb = ucast bs div 4;
       n \<leftarrow> checked_sub n 12;
       if n < ppb then with_inode i (replace_pointer_in e (singly_indirect_block_pointer i) n pointer fs)
       else do {
         n \<leftarrow> checked_sub n ppb;
         square \<leftarrow> checked_mul ppb ppb;
         if n < square then
           ask_in (i, fs) (pointer_in e fs (doubly_indirect_block_pointer i) (n div ppb)) (\<lambda>singly.
             with_inode i (replace_pointer_in e singly (n mod ppb) pointer fs))
         else do {
           n \<leftarrow> checked_sub n square;
           cube \<leftarrow> checked_mul square ppb;
           if n < cube then
             ask_in (i, fs) (pointer_in e fs (triply_indirect_block_pointer i) (n div square)) (\<lambda>doubly.
             ask_in (i, fs) (pointer_in e fs doubly (n mod square div ppb)) (\<lambda>singly.
               with_inode i (replace_pointer_in e singly (n mod square mod ppb) pointer fs)))
           else Some (None, i, fs) } } })"

definition read_data_block :: "'d Ext2Env \<Rightarrow> 'd Ext2FS \<Rightarrow> Ext2RawInode \<Rightarrow> u64 \<Rightarrow> u8 list option option" where
  "read_data_block e fs i n = ask (read_data_block_pointer e fs i n) (\<lambda>p. read_block e fs p)"

definition write_data_block ::
  "'d Ext2Env \<Rightarrow> Ext2RawInode \<Rightarrow> u64 \<Rightarrow> u8 list \<Rightarrow> 'd Ext2FS \<Rightarrow> (unit, 'd Ext2FS) outcome" where
  "write_data_block e i n data fs =
     ask_in fs (read_data_block_pointer e fs i n) (\<lambda>p. write_block e p data fs)"

definition dealloc_data_block :: "'d Ext2Env \<Rightarrow> u64 \<Rightarrow> 'd inode_fs \<Rightarrow> (unit, 'd inode_fs) outcome" where
  "dealloc_data_block e n s = write_data_block_pointer e n 0 s"

definition get_appropriate_descriptor_index :: "'d Ext2Env \<Rightarrow> 'd Ext2FS \<Rightarrow> Ext2RawInode \<Rightarrow> u32 option option" where
  "get_appropriate_descriptor_index e fs i = do {
     r \<leftarrow> get_last_allocated_data_block_number i fs;
     (case r of
        None \<Rightarrow> Some (Some 0)
      | Some last_block \<Rightarrow>
          ask (read_data_block_pointer e fs i last_block) (\<lambda>p. get_descriptor_index_of_block_number fs p)) }"

definition alloc_data_block :: "'d Ext2Env \<Rightarrow> u64 \<Rightarrow> 'd inode_fs \<Rightarrow> (unit, 'd inode_fs) outcome" where
  "alloc_data_block e n s = (case s of (i, fs) \<Rightarrow>
     ask_in (i, fs) (get_appropriate_descriptor_index e fs i) (\<lambda>gi.
     and_then (with_inode i (alloc_block_close_to e gi fs)) (\<lambda>p s.
     and_then (write_data_block_pointer e n p s) (\<lambda>_ s. Some (Some (), s)))))"

section \<open>Releasing and adding indirect blocks\<close>

definition all_zero :: "u8 list \<Rightarrow> bool" where
  "all_zero bytes = list_all (\<lambda>v. v = 0) bytes"

text \<open>
  The loop over the pointers of a doubly indirect block. The result says whether it was left by
  \<^verbatim>\<open>break\<close> at a block that is not empty.
\<close>

fun shrink_loop :: "'d Ext2Env \<Rightarrow> nat list \<Rightarrow> u8 list \<Rightarrow> 'd Ext2FS \<Rightarrow> (bool \<times> u8 list \<times> 'd Ext2FS) option" where
  "shrink_loop e [] block fs = Some (False, block, fs)"
| "shrink_loop e (j # js) block fs = do {
     p \<leftarrow> read_value_from_u32_array_as_le_bytes block j;
     r \<leftarrow> read_block e fs p;
     (case r of
        None \<Rightarrow> shrink_loop e js block fs
      | Some inner \<Rightarrow>
          if all_zero inner then do {
            (_, fs) \<leftarrow> dealloc_block e p fs;
            block \<leftarrow> write_value_to_u32_array_as_le_bytes block j 0;
            shrink_loop e js block fs }
          else Some (True, block, fs)) }"

fun shrink_triply_loop ::
  "'d Ext2Env \<Rightarrow> nat list \<Rightarrow> nat list \<Rightarrow> u8 list \<Rightarrow> 'd Ext2FS \<Rightarrow> (u8 list \<times> 'd Ext2FS) option" where
  "shrink_triply_loop e js [] block fs = Some (block, fs)"
| "shrink_triply_loop e js (k # ks) block fs = do {
     p \<leftarrow> read_value_from_u32_array_as_le_bytes block k;
     r \<leftarrow> read_block e fs p;
     (case r of
        None \<Rightarrow> shrink_triply_loop e js ks block fs
      | Some doubly \<Rightarrow> do {
          (broke, doubly, fs) \<leftarrow> shrink_loop e js doubly fs;
          if broke then Some (block, fs)
          else if all_zero doubly then do {
            (_, fs) \<leftarrow> dealloc_block e p fs;
            block \<leftarrow> write_value_to_u32_array_as_le_bytes block k 0;
            shrink_triply_loop e js ks block fs }
          else do {
            (_, fs) \<leftarrow> write_block e p doubly fs;
            shrink_triply_loop e js ks block fs } }) }"

definition shrink_singly :: "'d Ext2Env \<Rightarrow> 'd inode_fs \<Rightarrow> 'd inode_fs option" where
  "shrink_singly e s = (case s of (i, fs) \<Rightarrow> do {
     r \<leftarrow> read_block e fs (singly_indirect_block_pointer i);
     (case r of
        None \<Rightarrow> Some (i, fs)
      | Some block \<Rightarrow>
          if all_zero block then do {
            (_, fs) \<leftarrow> dealloc_block e (singly_indirect_block_pointer i) fs;
            Some (i\<lparr>singly_indirect_block_pointer := 0\<rparr>, fs) }
          else Some (i, fs)) })"

definition shrink_doubly :: "'d Ext2Env \<Rightarrow> 'd inode_fs \<Rightarrow> 'd inode_fs option" where
  "shrink_doubly e s = (case s of (i, fs) \<Rightarrow> do {
     r \<leftarrow> read_block e fs (doubly_indirect_block_pointer i);
     (case r of
        None \<Rightarrow> Some (i, fs)
      | Some block \<Rightarrow> do {
          bs \<leftarrow> get_block_size fs;
          (_, block, fs) \<leftarrow> shrink_loop e (rev [0 ..< unat (bs div 4)]) block fs;
          if all_zero block then do {
            (_, fs) \<leftarrow> dealloc_block e (doubly_indirect_block_pointer i) fs;
            Some (i\<lparr>doubly_indirect_block_pointer := 0\<rparr>, fs) }
          else do {
            (_, fs) \<leftarrow> write_block e (doubly_indirect_block_pointer i) block fs;
            Some (i, fs) } }) })"

definition shrink_triply :: "'d Ext2Env \<Rightarrow> 'd inode_fs \<Rightarrow> 'd inode_fs option" where
  "shrink_triply e s = (case s of (i, fs) \<Rightarrow> do {
     r \<leftarrow> read_block e fs (triply_indirect_block_pointer i);
     (case r of
        None \<Rightarrow> Some (i, fs)
      | Some block \<Rightarrow> do {
          bs \<leftarrow> get_block_size fs;
          let range = [0 ..< unat (bs div 4)];
          (block, fs) \<leftarrow> shrink_triply_loop e (rev range) range block fs;
          if all_zero block then do {
            (_, fs) \<leftarrow> dealloc_block e (triply_indirect_block_pointer i) fs;
            Some (i\<lparr>triply_indirect_block_pointer := 0\<rparr>, fs) }
          else do {
            (_, fs) \<leftarrow> write_block e (triply_indirect_block_pointer i) block fs;
            Some (i, fs) } }) })"

definition shrink_data_structure_to_fit :: "'d Ext2Env \<Rightarrow> 'd inode_fs \<Rightarrow> 'd inode_fs option" where
  "shrink_data_structure_to_fit e s = do {
     s \<leftarrow> shrink_singly e s;
     s \<leftarrow> shrink_doubly e s;
     shrink_triply e s }"

text \<open>
  The loops that fill an indirect block with new blocks; the loop variable runs over \<open>js\<close>, the number
  of blocks still missing is an \<^verbatim>\<open>isize\<close>.
\<close>

fun grow_fill ::
  "'d Ext2Env \<Rightarrow> u32 \<Rightarrow> int \<Rightarrow> nat list \<Rightarrow> int \<Rightarrow> u8 list \<Rightarrow> 'd inode_fs \<Rightarrow> (int \<times> u8 list, 'd inode_fs) outcome" where
  "grow_fill e gi ppb [] missing block s = Some (Some (missing, block), s)"
| "grow_fill e gi ppb (j # js) missing block s =
     (if missing \<le> 0 then Some (Some (missing, block), s)
      else and_then (with_inode (fst s) (alloc_block_close_to e gi (snd s))) (\<lambda>p s. do {
        block \<leftarrow> write_value_to_u32_array_as_le_bytes block j p;
        grow_fill e gi ppb js (missing - ppb) block s }))"

fun grow_triply_loop ::
  "'d Ext2Env \<Rightarrow> u32 \<Rightarrow> int \<Rightarrow> nat list \<Rightarrow> nat list \<Rightarrow> int \<Rightarrow> u8 list \<Rightarrow> 'd inode_fs
     \<Rightarrow> (int \<times> u8 list, 'd inode_fs) outcome" where
  "grow_triply_loop e gi ppb js [] missing block s = Some (Some (missing, block), s)"
| "grow_triply_loop e gi ppb js (k # ks) missing block s =
     (if missing \<le> 0 then Some (Some (missing, block), s)
      else and_then (with_inode (fst s) (alloc_block_close_to e gi (snd s))) (\<lambda>p s. do {
        block \<leftarrow> write_value_to_u32_array_as_le_bytes block k p;
        let d = doubly_indirect_block_pointer (fst s);
        ask_in s (read_block e (snd s) d) (\<lambda>doubly.
        and_then (grow_fill e gi ppb js missing doubly s) (\<lambda>(missing, doubly) s.
        and_then (with_inode (fst s) (write_block e d doubly (snd s))) (\<lambda>_ s.
          grow_triply_loop e gi ppb js ks missing block s))) }))"

definition grow_data_structure_by :: "'d Ext2Env \<Rightarrow> u64 \<Rightarrow> 'd inode_fs \<Rightarrow> (unit, 'd inode_fs) outcome" where
  "grow_data_structure_by e nblocks s = (case s of (i, fs) \<Rightarrow> do {
     bs \<leftarrow> get_block_size fs;
     blocks \<leftarrow> ceil_div (get_size i) (ucast bs);
     if 2 ^ 63 \<le> uint nblocks then Some (None, s)
     else do {
       assert_that (uint blocks + uint nblocks < 2 ^ 63);
       let ppb = uint bs div 4;
       let range = [0 ..< unat (bs div 4)];
       let missing = uint blocks + uint nblocks - 12;
       if missing \<le> 0 then Some (Some (), s)
       else
         ask_in s (get_appropriate_descriptor_index e fs i) (\<lambda>gi.
         and_then (if singly_indirect_block_pointer i = 0
             then and_then (with_inode i (alloc_block_close_to e gi fs)) (\<lambda>p (i, fs).
               Some (Some (), i\<lparr>singly_indirect_block_pointer := p\<rparr>, fs))
             else Some (Some (), s)) (\<lambda>_ (i, fs).
         let missing = missing - ppb in
         if missing \<le> 0 then Some (Some (), i, fs)
         else
           and_then (if doubly_indirect_block_pointer i = 0
               then and_then (with_inode i (alloc_block_close_to e gi fs)) (\<lambda>p (i, fs).
                 Some (Some (), i\<lparr>doubly_indirect_block_pointer := p\<rparr>, fs))
               else Some (Some (), i, fs)) (\<lambda>_ (i, fs).
           ask_in (i, fs) (read_block e fs (doubly_indirect_block_pointer i)) (\<lambda>doubly.
           and_then (grow_fill e gi ppb range missing doubly (i, fs)) (\<lambda>(missing, doubly) (i, fs).
           and_then (with_inode i (write_block e (doubly_indirect_block_pointer i) doubly fs)) (\<lambda>_ (i, fs).
           if missing \<le> 0 then Some (Some (), i, fs)
           else
             and_then (if triply_indirect_block_pointer i = 0
                 then and_then (with_inode i (alloc_block_close_to e gi fs)) (\<lambda>p (i, fs).
                   Some (Some (), i\<lparr>triply_indirect_block_pointer := p\<rparr>, fs))
                 else Some (Some (), i, fs)) (\<lambda>_ (i, fs).
             ask_in (i, fs) (read_block e fs (triply_indirect_block_pointer i)) (\<lambda>triply.
             and_then (grow_triply_loop e gi ppb range range missing triply (i, fs)) (\<lambda>(missing, triply) (i, fs).
             and_then (with_inode i (write_block e (triply_indirect_block_pointer i) triply fs)) (\<lambda>_ (i, fs).
               if missing \<le> 0 then Some (Some (), i, fs) else Some (None, i, fs)))))))))))  } })"

section \<open>Reading and writing bytes\<close>

fun read_more :: "'d Ext2Env \<Rightarrow> 'd Ext2FS \<Rightarrow> Ext2RawInode \<Rightarrow> u64 list \<Rightarrow> u8 list \<Rightarrow> u8 list option option" where
  "read_more e fs i [] res = Some (Some res)"
| "read_more e fs i (n # ns) res =
     ask (read_data_block e fs i n) (\<lambda>block. read_more e fs i ns (res @ block))"

definition read_bytes :: "'d Ext2Env \<Rightarrow> 'd Ext2FS \<Rightarrow> Ext2RawInode \<Rightarrow> u64 \<Rightarrow> u64 \<Rightarrow> u8 list option option" where
  "read_bytes e fs i offset len = do {
     to \<leftarrow> checked_add offset len;
     if to > get_size i then Some None
     else do {
       bs \<leftarrow> get_block_size fs;
       start \<leftarrow> checked_div offset (ucast bs);
       start_offset \<leftarrow> checked_mod offset (ucast bs);
       ask (read_data_block e fs i start) (\<lambda>first_block. do {
         assert_that (unat start_offset \<le> length first_block);
         let res = drop (unat start_offset) first_block;
         blocks \<leftarrow> ceil_div len (ucast bs);
         ask (read_more e fs i (map (\<lambda>block_ind. start + of_nat block_ind) [1 ..< unat blocks]) res) (\<lambda>res.
           Some (Some (take (unat len) res))) }) } }"

text \<open>
  The loop over the blocks of a write: \<open>blocks\<close> is their number, \<open>extra\<close> says whether the last one is
  not full, \<open>ind\<close> is where in the block the data starts.
\<close>

fun write_loop ::
  "'d Ext2Env \<Rightarrow> Ext2RawInode \<Rightarrow> u64 \<Rightarrow> nat \<Rightarrow> nat \<Rightarrow> bool \<Rightarrow> nat \<Rightarrow> nat list \<Rightarrow> nat \<Rightarrow> u8 list \<Rightarrow> nat \<Rightarrow> 'd Ext2FS
     \<Rightarrow> (nat, 'd Ext2FS) outcome" where
  "write_loop e i start bs blocks extra offset0 [] ind data written fs = Some (Some written, fs)"
| "write_loop e i start bs blocks extra offset0 (block_ind # inds) ind data written fs =
     ask_in fs (if (block_ind = blocks - 1 \<and> extra) \<or> (block_ind = 0 \<and> offset0 \<noteq> 0)
         then read_data_block e fs i (start + of_nat block_ind) else Some (Some (replicate bs 0))) (\<lambda>v.
       let n = min (length v - ind) (length data);
           v = replace_at v ind (take n data) in
       and_then (write_data_block e i (start + of_nat block_ind) v fs) (\<lambda>_ fs.
         write_loop e i start bs blocks extra offset0 inds 0 (drop n data) (written + n) fs))"

definition write_bytes ::
  "'d Ext2Env \<Rightarrow> Ext2RawInode \<Rightarrow> u64 \<Rightarrow> u8 list \<Rightarrow> 'd Ext2FS \<Rightarrow> (nat, 'd Ext2FS) outcome" where
  "write_bytes e i offset data fs = do {
     to \<leftarrow> checked_add offset (of_nat (length data));
     if to > get_size i then Some (None, fs)
     else do {
       bs \<leftarrow> get_block_size fs;
       start \<leftarrow> checked_div offset (ucast bs);
       inode_bytes \<leftarrow> get_ondisk_inode_size fs;
       offset0 \<leftarrow> checked_mod offset inode_bytes;
       blocks \<leftarrow> ceil_div (of_nat (length data) :: u64) (ucast bs);
       write_loop e i start (unat bs) (unat blocks) (length data mod unat bs \<noteq> 0) (unat offset0)
         [0 ..< unat blocks] (unat offset0) data 0 fs } }"

section \<open>Changing the size\<close>

definition blocks_to_remove :: "u64 \<Rightarrow> u64 \<Rightarrow> u64 \<Rightarrow> u64 option" where
  "blocks_to_remove size0 bs nbytes = do {
     r \<leftarrow> checked_mod size0 bs;
     let used = (if r = 0 then bs else r);
     if nbytes \<ge> used then do {
       q \<leftarrow> checked_div (nbytes - used) bs;
       checked_add 1 q }
     else Some 0 }"

fun dealloc_loop :: "'d Ext2Env \<Rightarrow> u64 \<Rightarrow> nat list \<Rightarrow> 'd inode_fs \<Rightarrow> (unit, 'd inode_fs) outcome" where
  "dealloc_loop e last_block [] s = Some (Some (), s)"
| "dealloc_loop e last_block (k # ks) s = do {
     n \<leftarrow> checked_sub last_block (of_nat k);
     and_then (dealloc_data_block e n s) (\<lambda>_ s. dealloc_loop e last_block ks s) }"

definition shrink_by :: "'d Ext2Env \<Rightarrow> u64 \<Rightarrow> 'd inode_fs \<Rightarrow> (unit, 'd inode_fs) outcome" where
  "shrink_by e nbytes s = (case s of (i, fs) \<Rightarrow>
     if nbytes > get_size i then Some (None, s)
     else if nbytes = 0 then Some (Some (), s)
     else do {
       bs \<leftarrow> get_block_size fs;
       n \<leftarrow> blocks_to_remove (get_size i) (ucast bs) nbytes;
       r \<leftarrow> get_last_allocated_data_block_number i fs;
       last_block \<leftarrow> r;
       and_then (dealloc_loop e last_block [0 ..< unat n] s) (\<lambda>_ s. do {
         (i, fs) \<leftarrow> shrink_data_structure_to_fit e s;
         Some (Some (), set_size (get_size i - nbytes) i, fs) }) })"

definition blocks_to_add :: "u64 \<Rightarrow> u64 \<Rightarrow> u64 \<Rightarrow> u64 option" where
  "blocks_to_add size0 bs nbytes = do {
     used \<leftarrow> checked_mod size0 bs;
     let available = bs - used;
     if nbytes > available then ceil_div (nbytes - available) bs else Some 0 }"

fun alloc_loop :: "'d Ext2Env \<Rightarrow> u64 \<Rightarrow> nat list \<Rightarrow> 'd inode_fs \<Rightarrow> (unit, 'd inode_fs) outcome" where
  "alloc_loop e last_block [] s = Some (Some (), s)"
| "alloc_loop e last_block (k # ks) s = do {
     n \<leftarrow> checked_add last_block (of_nat k);
     and_then (alloc_data_block e n s) (\<lambda>_ s. alloc_loop e last_block ks s) }"

definition grow_by :: "'d Ext2Env \<Rightarrow> u64 \<Rightarrow> 'd inode_fs \<Rightarrow> (unit, 'd inode_fs) outcome" where
  "grow_by e nbytes s = (case s of (i, fs) \<Rightarrow>
     if nbytes = 0 then Some (Some (), s)
     else do {
       bs \<leftarrow> get_block_size fs;
       used \<leftarrow> checked_mod (get_size i) (ucast bs);
       and_then (if used = 0 then
           and_then (grow_data_structure_by e 1 s) (\<lambda>_ (i, fs). do {
             r \<leftarrow> get_last_allocated_data_block_number i fs;
             n \<leftarrow> (case r of Some last_block \<Rightarrow> checked_add last_block 1 | None \<Rightarrow> Some 0);
             alloc_data_block e n (i, fs) })
           else Some (Some (), s)) (\<lambda>_ (i, fs). do {
         n \<leftarrow> blocks_to_add (get_size i) (ucast bs) nbytes;
         and_then (grow_data_structure_by e n (i, fs)) (\<lambda>_ (i, fs). do {
           r \<leftarrow> get_last_allocated_data_block_number i fs;
           let last_block = (case r of Some k \<Rightarrow> k | None \<Rightarrow> 0);
           and_then (alloc_loop e last_block [1 ..< Suc (unat n)] (i, fs)) (\<lambda>_ (i, fs). do {
             new_size \<leftarrow> checked_add (get_size i) nbytes;
             Some (Some (), set_size new_size i, fs) }) }) }) })"

definition resize_inode :: "'d Ext2Env \<Rightarrow> u64 \<Rightarrow> 'd inode_fs \<Rightarrow> (unit, 'd inode_fs) outcome" where
  "resize_inode e new_size s = (case s of (i, fs) \<Rightarrow>
     if new_size = get_size i then Some (Some (), s)
     else if new_size < get_size i then shrink_by e (get_size i - new_size) s
     else grow_by e (new_size - get_size i) s)"

section \<open>Files\<close>

text \<open>
  An \<^verbatim>\<open>Ext2File\<close> or \<^verbatim>\<open>Ext2Folder\<close> has a copy of its inode, the inode address and a reference to the
  file system, which all of them share; here it is the pair of the first two.
\<close>

type_synonym ext2_node = "Ext2RawInode \<times> u32"

definition as_vfs_node :: "Ext2RawInode \<Rightarrow> u32 \<Rightarrow> (ext2_node, ext2_node) Node option" where
  "as_vfs_node i addr =
     (if type_and_perm i AND 0xF000 = 0x4000 then Some (Folder (Mounted (i, addr)))
      else if type_and_perm i AND 0xF000 = 0x8000 then Some (File (i, addr))
      else None)"

definition ext2file_read ::
  "'d Ext2Env \<Rightarrow> (ext2_node \<times> 'd Ext2FS) \<Rightarrow> u64 \<Rightarrow> u64 \<Rightarrow> u8 list option option" where
  "ext2file_read e s offset len = (case s of ((i, addr), fs) \<Rightarrow> read_bytes e fs i offset len)"

definition ext2file_write ::
  "'d Ext2Env \<Rightarrow> (ext2_node \<times> 'd Ext2FS) \<Rightarrow> u64 \<Rightarrow> u8 list \<Rightarrow> (u64 option \<times> ext2_node \<times> 'd Ext2FS) option" where
  "ext2file_write e s offset data = (case s of ((i, addr), fs) \<Rightarrow>
     map_option (\<lambda>(r, fs). (map_option of_nat r, (i, addr), fs)) (write_bytes e i offset data fs))"

definition ext2file_get_size :: "ext2_node \<Rightarrow> u64" where
  "ext2file_get_size f = get_size (fst f)"

definition ext2file_resize ::
  "'d Ext2Env \<Rightarrow> u64 \<Rightarrow> ext2_node \<Rightarrow> 'd Ext2FS \<Rightarrow> (unit option \<times> ext2_node \<times> 'd Ext2FS) option" where
  "ext2file_resize e new_size f fs = (case f of (i, addr) \<Rightarrow> do {
     (r, i, fs) \<leftarrow> resize_inode e new_size (i, fs);
     (case r of
        None \<Rightarrow> Some (None, (i, addr), fs)
      | Some _ \<Rightarrow> map_option (\<lambda>(r, fs). (r, (i, addr), fs)) (write_inode e addr i fs)) })"

definition ext2file_io :: "'d Ext2Env \<Rightarrow> (ext2_node \<times> 'd Ext2FS) IFile" where
  "ext2file_io e = \<lparr> file_read = ext2file_read e, file_write = ext2file_write e \<rparr>"

end
