(* ===== verification/Ext2_Files.thy ===== *)
theory Ext2_Files
  imports Ext2_Inode
begin

text \<open>
  What the operations on ext2 inodes do to the contents of a file: the tree of block pointers is a
  list, reading and writing bytes work on the concatenation of the blocks in that list, and resizing
  adds and removes the blocks that the new size asks for, up to the cases where it does not.
\<close>

section \<open>The list of data blocks\<close>

definition per_block :: "'d Ext2FS \<Rightarrow> nat" where
  "per_block fs = block_bytes fs div 4"

definition block_pointers :: "('d \<Rightarrow> u8 list) \<Rightarrow> 'd Ext2FS \<Rightarrow> u32 \<Rightarrow> u32 list" where
  "block_pointers contents fs p =
     map (\<lambda>i. from_le_bytes (sect (block_at contents fs (unat p)) (i * 4) 4)) [0 ..< per_block fs]"

text \<open>The data blocks below a pointer of depth \<open>d\<close>, and those of an inode.\<close>

fun tree_pointers :: "('d \<Rightarrow> u8 list) \<Rightarrow> 'd Ext2FS \<Rightarrow> nat \<Rightarrow> u32 \<Rightarrow> u32 list" where
  "tree_pointers contents fs 0 p = [p]"
| "tree_pointers contents fs (Suc d) p = concat (map (tree_pointers contents fs d) (block_pointers contents fs p))"

definition file_pointers :: "('d \<Rightarrow> u8 list) \<Rightarrow> 'd Ext2FS \<Rightarrow> Ext2RawInode \<Rightarrow> u32 list" where
  "file_pointers contents fs i = direct_block_pointers i
     @ tree_pointers contents fs 1 (singly_indirect_block_pointer i)
     @ tree_pointers contents fs 2 (doubly_indirect_block_pointer i)
     @ tree_pointers contents fs 3 (triply_indirect_block_pointer i)"

text \<open>The indirect blocks on the way to data block \<open>n\<close>.\<close>

fun path_blocks :: "('d \<Rightarrow> u8 list) \<Rightarrow> 'd Ext2FS \<Rightarrow> nat \<Rightarrow> u32 \<Rightarrow> nat \<Rightarrow> u32 list" where
  "path_blocks contents fs 0 p n = []"
| "path_blocks contents fs (Suc d) p n = p # path_blocks contents fs d
     (block_pointers contents fs p ! (n div per_block fs ^ d)) (n mod per_block fs ^ d)"

definition file_path :: "('d \<Rightarrow> u8 list) \<Rightarrow> 'd Ext2FS \<Rightarrow> Ext2RawInode \<Rightarrow> nat \<Rightarrow> u32 list" where
  "file_path contents fs i n = (let P = per_block fs in
     if n < 12 then []
     else if n - 12 < P then path_blocks contents fs 1 (singly_indirect_block_pointer i) (n - 12)
     else if n - 12 - P < P ^ 2 then path_blocks contents fs 2 (doubly_indirect_block_pointer i) (n - 12 - P)
     else path_blocks contents fs 3 (triply_indirect_block_pointer i) (n - 12 - P - P ^ 2))"

definition max_data_blocks :: "'d Ext2FS \<Rightarrow> nat" where
  "max_data_blocks fs = (let P = per_block fs in 12 + P + P ^ 2 + P ^ 3)"

lemma length_block_pointers [simp]: "length (block_pointers contents fs p) = per_block fs"
  by (simp add: block_pointers_def)

lemma length_concat_const: "(\<And>xs. xs \<in> set xss \<Longrightarrow> length xs = k) \<Longrightarrow> length (concat xss) = length xss * k"
  by (induction xss) simp_all

lemma nth_concat_const:
  assumes "\<And>xs. xs \<in> set xss \<Longrightarrow> length xs = k" "n < length xss * k"
  shows "concat xss ! n = xss ! (n div k) ! (n mod k)"
  using assms
proof (induction xss arbitrary: n)
  case (Cons xs xss)
  then have k: "length xs = k" by simp
  have "0 < k" using Cons.prems(2) by (cases k) auto
  show ?case
  proof (cases "n < k")
    case True
    then show ?thesis using k \<open>0 < k\<close> by (simp add: nth_append)
  next
    case False
    then have "n - k < length xss * k" using Cons.prems(2) by simp
    moreover have "n div k = Suc ((n - k) div k)" "(n - k) mod k = n mod k"
      using False \<open>0 < k\<close> by (simp_all add: le_div_geq le_mod_geq)
    ultimately show ?thesis using False k Cons.IH [of "n - k"] Cons.prems(1) by (simp add: nth_append)
  qed
qed simp

lemma length_tree_pointers [simp]: "length (tree_pointers contents fs d p) = per_block fs ^ d"
proof (induction d arbitrary: p)
  case (Suc d)
  have "length (tree_pointers contents fs (Suc d) p) = length (block_pointers contents fs p) * per_block fs ^ d"
    unfolding tree_pointers.simps by (subst length_concat_const [of _ "per_block fs ^ d"]) (auto simp: Suc)
  then show ?case by simp
qed simp

lemma nth_tree_pointers:
  assumes "n < per_block fs ^ Suc d"
  shows "tree_pointers contents fs (Suc d) p ! n =
    tree_pointers contents fs d (block_pointers contents fs p ! (n div per_block fs ^ d)) ! (n mod per_block fs ^ d)"
proof -
  have "n div per_block fs ^ d < per_block fs"
    using assms by (simp add: less_mult_imp_div_less mult.commute)
  then show ?thesis
    unfolding tree_pointers.simps
    by (subst nth_concat_const [of _ "per_block fs ^ d"]) (use assms in auto)
qed

lemma per_block_cases: "mounted contents valid fs \<Longrightarrow> per_block fs = 256 \<or> per_block fs = 512"
  using block_bytes_cases by (fastforce simp: per_block_def)

lemma block_pointers_nth:
  assumes "has_block contents fs (unat p)" "j < per_block fs"
  shows "read_value_from_u32_array_as_le_bytes (block_at contents fs (unat p)) j = Some (block_pointers contents fs p ! j)"
proof -
  have "length (block_at contents fs (unat p)) = block_bytes fs"
    using assms(1) by (simp add: block_at_def has_block_def)
  moreover have "(j + 1) * 4 \<le> block_bytes fs" using assms(2) by (simp add: per_block_def)
  ultimately show ?thesis
    using assms(2) by (simp add: read_value_from_u32_array_as_le_bytes_def block_pointers_def sect_def)
qed

context ext2_env
begin

lemma pointer_in_block:
  assumes "mounted contents valid fs" "has_block contents fs (unat p)" "unat j < per_block fs"
  shows "pointer_in e fs p j = Some (Some (block_pointers contents fs p ! unat j))"
  using assms by (simp add: pointer_in_def read_block_inside block_pointers_nth)

end

text \<open>Word arithmetic on numbers that are small enough.\<close>

lemma word_of_nat_small: "n < 2 ^ 64 \<Longrightarrow> unat (of_nat n :: u64) = n"
  by (simp add: unsigned_of_nat take_bit_nat_eq_self)

lemma u64_nat:
  assumes "a < 2 ^ 64" "b < 2 ^ 64"
  shows "(of_nat a :: u64) \<le> of_nat b \<longleftrightarrow> a \<le> b" "(of_nat a :: u64) < of_nat b \<longleftrightarrow> a < b"
    "(of_nat a :: u64) div of_nat b = of_nat (a div b)" "(of_nat a :: u64) mod of_nat b = of_nat (a mod b)"
    "b \<le> a \<Longrightarrow> checked_sub (of_nat a :: u64) (of_nat b) = Some (of_nat (a - b))"
    "a * b < 2 ^ 64 \<Longrightarrow> checked_mul (of_nat a :: u64) (of_nat b) = Some (of_nat (a * b))"
    "a + b < 2 ^ 64 \<Longrightarrow> checked_add (of_nat a :: u64) (of_nat b) = Some (of_nat (a + b))"
proof -
  note u = word_of_nat_small [OF assms(1)] word_of_nat_small [OF assms(2)]
  show le: "(of_nat a :: u64) \<le> of_nat b \<longleftrightarrow> a \<le> b" "(of_nat a :: u64) < of_nat b \<longleftrightarrow> a < b"
    by (simp_all only: word_le_nat_alt word_less_nat_alt u)
  have "a div b < 2 ^ 64" "a mod b < 2 ^ 64"
    using assms(1) by (auto intro: le_less_trans [OF div_le_dividend] le_less_trans [OF mod_less_eq_dividend])
  then have "unat (of_nat (a div b) :: u64) = a div b" "unat (of_nat (a mod b) :: u64) = a mod b"
    by (simp_all only: word_of_nat_small)
  then show "(of_nat a :: u64) div of_nat b = of_nat (a div b)" "(of_nat a :: u64) mod of_nat b = of_nat (a mod b)"
    by (simp_all only: word_unat_eq_iff unat_div unat_mod u)
  show "checked_sub (of_nat a :: u64) (of_nat b) = Some (of_nat (a - b))" if "b \<le> a"
    using that assms by (simp add: checked_sub_def word_le_nat_alt u of_nat_diff)
  show "checked_mul (of_nat a :: u64) (of_nat b) = Some (of_nat (a * b))" if "a * b < 2 ^ 64"
    using that by (simp add: checked_mul_def u)
  show "checked_add (of_nat a :: u64) (of_nat b) = Some (of_nat (a + b))" if "a + b < 2 ^ 64"
    using that by (simp add: checked_add_nat u)
qed

context ext2_env
begin

lemma tree_lookup:
  assumes m: "mounted contents valid fs" and n: "n < per_block fs ^ d"
    and path: "\<forall>q \<in> set (path_blocks contents fs d p n). has_block contents fs (unat q)"
    and P: "P = per_block fs"
  shows "d = 1 \<Longrightarrow> pointer_in e fs p (of_nat n) = Some (Some (tree_pointers contents fs d p ! n))"
    and "d = 2 \<Longrightarrow> ask (pointer_in e fs p (of_nat (n div P))) (\<lambda>q. pointer_in e fs q (of_nat (n mod P))) =
      Some (Some (tree_pointers contents fs d p ! n))"
    and "d = 3 \<Longrightarrow> ask (pointer_in e fs p (of_nat (n div (P * P)))) (\<lambda>q.
      ask (pointer_in e fs q (of_nat (n mod (P * P) div P))) (\<lambda>r. pointer_in e fs r (of_nat (n mod (P * P) mod P)))) =
      Some (Some (tree_pointers contents fs d p ! n))"
proof -
  have P256: "P = 256 \<or> P = 512" using per_block_cases [OF m] P by simp
  have look: "pointer_in e fs q (of_nat j) = Some (Some (block_pointers contents fs q ! j))"
    if "has_block contents fs (unat q)" "j < P" for q j
    using pointer_in_block [OF m that(1), of "of_nat j"] that(2) P256 P by (auto simp: word_of_nat_small)
  {
    assume "d = 1"
    with n path look [of p n] show "pointer_in e fs p (of_nat n) = Some (Some (tree_pointers contents fs d p ! n))"
      by (simp add: nth_tree_pointers P del: tree_pointers.simps(2))
  next
    assume d: "d = 2"
    have "n div P < P" "n mod P < P"
      using n P256 d P by (auto simp: power2_eq_square less_mult_imp_div_less)
    with n path look d show "ask (pointer_in e fs p (of_nat (n div P))) (\<lambda>q. pointer_in e fs q (of_nat (n mod P))) =
        Some (Some (tree_pointers contents fs d p ! n))"
      by (simp add: numeral_2_eq_2 nth_tree_pointers P del: tree_pointers.simps(2))
  next
    assume d: "d = 3"
    have "n div (P * P) < P" "n mod (P * P) div P < P" "n mod (P * P) mod P < P"
      using n P256 d P by (auto simp: power3_eq_cube less_mult_imp_div_less mult.assoc)
    with n path look d show "ask (pointer_in e fs p (of_nat (n div (P * P)))) (\<lambda>q.
      ask (pointer_in e fs q (of_nat (n mod (P * P) div P))) (\<lambda>r. pointer_in e fs r (of_nat (n mod (P * P) mod P)))) =
      Some (Some (tree_pointers contents fs d p ! n))"
      by (simp add: numeral_3_eq_3 nth_tree_pointers P del: tree_pointers.simps(2))
  }
qed

end

context ext2_env
begin

lemma read_pointer_list:
  assumes m: "mounted contents valid fs" and i: "length (direct_block_pointers i) = 12"
    and n: "n < max_data_blocks fs"
    and path: "\<forall>p \<in> set (file_path contents fs i n). has_block contents fs (unat p)"
  shows "read_data_block_pointer e fs i (of_nat n) = Some (Some (file_pointers contents fs i ! n))"
proof -
  define P where "P = per_block fs"
  have P: "P = 256 \<or> P = 512" using per_block_cases [OF m] by (simp add: P_def)
  have bs: "get_block_size fs = Some (of_nat (block_bytes fs))" "(ucast (of_nat (block_bytes fs) :: u32) :: u64) div 4 = of_nat P"
    using get_block_size_mounted(1) [OF m] block_bytes_cases [OF m] by (auto simp: P_def per_block_def)
  have max: "n < 12 + P + P * P + P * P * P"
    using n by (simp add: max_data_blocks_def P_def [symmetric] power2_eq_square power3_eq_cube Let_def)
  have small: "n < 2 ^ 64" "P < 2 ^ 64" "P * P < 2 ^ 64" "P * P * P < 2 ^ 64" using max P by auto
  have sub: "checked_sub (of_nat n :: u64) 12 = Some (of_nat (n - 12))" if "12 \<le> n"
    using u64_nat(5) [of n 12] small that by simp
  have le: "(of_nat n :: u64) \<le> 11 \<longleftrightarrow> n \<le> 11" using u64_nat(1) [of n 11] small by simp
  have sq: "checked_mul (of_nat P :: u64) (of_nat P) = Some (of_nat (P * P))"
    "checked_mul (of_nat (P * P) :: u64) (of_nat P) = Some (of_nat (P * P * P))"
    using u64_nat(6) small by blast+
  consider "n < 12" | "12 \<le> n" "n - 12 < P" | "12 \<le> n" "P \<le> n - 12" "n - 12 - P < P * P"
    | "12 \<le> n" "P \<le> n - 12" "P * P \<le> n - 12 - P" by linarith
  then show ?thesis
  proof cases
    case 1
    then show ?thesis using i le word_of_nat_small [OF small(1)]
      by (simp add: read_data_block_pointer_def file_pointers_def nth_append)
  next
    case 2
    have "\<forall>q \<in> set (path_blocks contents fs 1 (singly_indirect_block_pointer i) (n - 12)). has_block contents fs (unat q)"
      using path 2 by (simp add: file_path_def P_def)
    from tree_lookup(1) [OF m _ this refl] 2 have
      "pointer_in e fs (singly_indirect_block_pointer i) (of_nat (n - 12)) =
        Some (Some (tree_pointers contents fs 1 (singly_indirect_block_pointer i) ! (n - 12)))"
      by (simp add: P_def)
    with 2 show ?thesis using sub u64_nat(2) [of "n - 12" P] small le i
      by (simp add: read_data_block_pointer_def bs file_pointers_def nth_append P_def [symmetric] del: tree_pointers.simps)
  next
    case 3
    let ?k = "n - 12 - P"
    have "\<forall>q \<in> set (path_blocks contents fs 2 (doubly_indirect_block_pointer i) ?k). has_block contents fs (unat q)"
      using path 3 by (simp add: file_path_def P_def power2_eq_square)
    from tree_lookup(2) [OF m _ this P_def] 3 have
      "ask (pointer_in e fs (doubly_indirect_block_pointer i) (of_nat (?k div P))) (\<lambda>q. pointer_in e fs q (of_nat (?k mod P))) =
        Some (Some (tree_pointers contents fs 2 (doubly_indirect_block_pointer i) ! ?k))"
      by (simp add: P_def power2_eq_square)
    with 3 show ?thesis
      using sub u64_nat(2) [of "n - 12" P] u64_nat(5) [of "n - 12" P] u64_nat(2-4) [of ?k "P * P"] u64_nat(2-4) [of ?k P] small le i sq
      by (simp add: read_data_block_pointer_def bs file_pointers_def nth_append P_def [symmetric] power2_eq_square
          del: tree_pointers.simps of_nat_mult)
  next
    case 4
    let ?k = "n - 12 - P - P * P" and ?Q = "P * P"
    have k: "?k < P * P * P" using 4 max by linarith
    have q: "?k mod ?Q < 2 ^ 64" using small by (meson le_less_trans less_imp_le_nat mod_less_eq_dividend diff_le_self)
    have "\<forall>q \<in> set (path_blocks contents fs 3 (triply_indirect_block_pointer i) ?k). has_block contents fs (unat q)"
      using path 4 by (simp add: file_path_def P_def power2_eq_square Let_def)
    from tree_lookup(3) [OF m _ this P_def] k have
      "ask (pointer_in e fs (triply_indirect_block_pointer i) (of_nat (?k div ?Q))) (\<lambda>q.
        ask (pointer_in e fs q (of_nat (?k mod ?Q div P))) (\<lambda>r. pointer_in e fs r (of_nat (?k mod ?Q mod P)))) =
        Some (Some (tree_pointers contents fs 3 (triply_indirect_block_pointer i) ! ?k))"
      by (simp add: P_def power3_eq_cube)
    with 4 k show ?thesis
      using sub u64_nat(2) [of "n - 12" P] u64_nat(5) [of "n - 12" P] u64_nat(2,5) [of "n - 12 - P" ?Q]
        u64_nat(2) [of ?k "P * P * P"] u64_nat(3,4) [of ?k ?Q] u64_nat(3,4) [OF q small(2)] small le i sq
      by (simp add: read_data_block_pointer_def bs file_pointers_def nth_append P_def [symmetric] power2_eq_square
          del: tree_pointers.simps of_nat_mult)
  qed
qed

end

section \<open>The contents of a file\<close>

definition data_block :: "('d \<Rightarrow> u8 list) \<Rightarrow> 'd Ext2FS \<Rightarrow> Ext2RawInode \<Rightarrow> nat \<Rightarrow> u8 list" where
  "data_block contents fs i k = block_at contents fs (unat (file_pointers contents fs i ! k))"

definition blocks_in :: "'d Ext2FS \<Rightarrow> nat \<Rightarrow> nat" where
  "blocks_in fs n = (n + block_bytes fs - 1) div block_bytes fs"

definition file_blocks :: "('d \<Rightarrow> u8 list) \<Rightarrow> 'd Ext2FS \<Rightarrow> Ext2RawInode \<Rightarrow> u8 list" where
  "file_blocks contents fs i = concat (map (data_block contents fs i) [0 ..< blocks_in fs (unat (get_size i))])"

definition file_contents :: "('d \<Rightarrow> u8 list) \<Rightarrow> 'd Ext2FS \<Rightarrow> Ext2RawInode \<Rightarrow> u8 list" where
  "file_contents contents fs i = take (unat (get_size i)) (file_blocks contents fs i)"

text \<open>All blocks of the file, and the indirect blocks that lead to them, are on the device.\<close>

definition file_ok :: "('d \<Rightarrow> u8 list) \<Rightarrow> 'd Ext2FS \<Rightarrow> Ext2RawInode \<Rightarrow> bool" where
  "file_ok contents fs i \<longleftrightarrow> length (direct_block_pointers i) = 12
     \<and> blocks_in fs (unat (get_size i)) \<le> max_data_blocks fs
     \<and> (\<forall>k < blocks_in fs (unat (get_size i)). has_block contents fs (unat (file_pointers contents fs i ! k))
         \<and> (\<forall>p \<in> set (file_path contents fs i k). has_block contents fs (unat p)))"

lemma blocks_in_less: "a < n \<Longrightarrow> a div block_bytes fs < blocks_in fs n"
proof -
  assume "a < n"
  then have "a + block_bytes fs \<le> n + block_bytes fs - 1" by simp
  then have "(a + block_bytes fs) div block_bytes fs \<le> blocks_in fs n" unfolding blocks_in_def by (rule div_le_mono)
  then show ?thesis using div_add_self2 [of "block_bytes fs" a] by simp
qed

lemma blocks_in_bounds: "n \<le> blocks_in fs n * block_bytes fs" "0 < n \<Longrightarrow> blocks_in fs n = (n - 1) div block_bytes fs + 1"
proof -
  let ?B = "block_bytes fs"
  show *: "blocks_in fs n = (n - 1) div ?B + 1" if "0 < n"
  proof -
    have "n + ?B - 1 = (n - 1) + ?B" using that by simp
    then show ?thesis using div_add_self2 [of ?B "n - 1"] by (simp add: blocks_in_def)
  qed
  show "n \<le> blocks_in fs n * ?B"
  proof (cases "n = 0")
    case False
    have "n - 1 < (n - 1) div ?B * ?B + ?B" using dividend_less_div_times [of ?B "n - 1"] by simp
    then show ?thesis using * False by simp
  qed simp
qed

lemma blocks_in_0 [simp]: "blocks_in fs 0 = 0"
  by (simp add: blocks_in_def)

lemma concat_blocks_drop:
  assumes "\<And>k. k < b \<Longrightarrow> length (f k) = n" "a \<le> b"
  shows "drop (a * n) (concat (map f [0 ..< b])) = concat (map f [a ..< b])"
proof -
  have "concat (map f [0 ..< b]) = concat (map f [0 ..< a]) @ concat (map f [a ..< b])"
    using assms(2) by (metis concat_append le_add_diff_inverse map_append upt_add_eq_append zero_le)
  moreover have "length (concat (map f [0 ..< a])) = a * n"
    using assms by (subst length_concat_const [of _ n]) auto
  ultimately show ?thesis by simp
qed

lemma concat_blocks_take:
  assumes "\<And>k. k < b \<Longrightarrow> length (f k) = n" "a + m \<le> b"
  shows "take (m * n) (concat (map f [a ..< b])) = concat (map f [a ..< a + m])"
proof -
  have "concat (map f [a ..< b]) = concat (map f [a ..< a + m]) @ concat (map f [a + m ..< b])"
    using assms(2) by (metis concat_append le_add1 le_add_diff_inverse map_append upt_add_eq_append)
  moreover have "length (concat (map f [a ..< a + m])) = m * n"
    using assms by (subst length_concat_const [of _ n]) auto
  ultimately show ?thesis by simp
qed

lemma section_of_blocks:
  assumes "\<And>k. k < b \<Longrightarrow> length (f k) = n" "off div n + m \<le> b" "0 < n"
  shows "drop (off mod n) (concat (map f [off div n ..< off div n + m])) =
    take (m * n - off mod n) (drop off (concat (map f [0 ..< b])))"
proof -
  have "drop off (concat (map f [0 ..< b])) = drop (off mod n) (drop (off div n * n) (concat (map f [0 ..< b])))"
    by (simp add: add.commute)
  also have "\<dots> = drop (off mod n) (concat (map f [off div n ..< b]))"
    using assms by (subst concat_blocks_drop) simp_all
  finally have d: "drop off (concat (map f [0 ..< b])) = drop (off mod n) (concat (map f [off div n ..< b]))" .
  show ?thesis
  proof (cases "m = 0")
    case False
    then have "off mod n \<le> m * n" using assms(3) by (metis less_imp_le_nat mod_less_divisor mult_le_mono1
          nat_mult_1 le_trans less_one not_less)
    then show ?thesis
      using concat_blocks_take [of b f n "off div n" m] assms(1,2) by (simp add: d take_drop)
  qed simp
qed

context ext2_env
begin

lemma read_data_block_ok:
  assumes "mounted contents valid fs" "file_ok contents fs i" "k < blocks_in fs (unat (get_size i))"
  shows "read_data_block e fs i (of_nat k) = Some (Some (data_block contents fs i k))"
    and "length (data_block contents fs i k) = block_bytes fs"
proof -
  have "read_data_block_pointer e fs i (of_nat k) = Some (Some (file_pointers contents fs i ! k))"
    using assms by (intro read_pointer_list) (auto simp: file_ok_def)
  moreover have "has_block contents fs (unat (file_pointers contents fs i ! k))"
    using assms(2,3) by (simp add: file_ok_def)
  ultimately show "read_data_block e fs i (of_nat k) = Some (Some (data_block contents fs i k))"
    "length (data_block contents fs i k) = block_bytes fs"
    using read_block_inside [OF assms(1)]
    by (simp_all add: read_data_block_def data_block_def block_at_def has_block_def)
qed

lemma read_more_ok:
  assumes "mounted contents valid fs" "file_ok contents fs i" "\<forall>k \<in> set ks. k < blocks_in fs (unat (get_size i))"
  shows "read_more e fs i (map of_nat ks) res = Some (Some (res @ concat (map (data_block contents fs i) ks)))"
  using assms(3) by (induction ks arbitrary: res) (simp_all add: read_data_block_ok [OF assms(1,2)])

end

end
