(* ===== verification/Ext2_Io.thy ===== *)
theory Ext2_Io
  imports Ext2_Files
begin

text \<open>
  Reading and writing the bytes of an ext2 file.
\<close>

section \<open>Reading\<close>

lemma unat_get_size: "unat (get_size i) < 2 ^ 32"
  using unsigned_less [of "low32_size i"] by (simp add: get_size_def)

lemma upt_shift: "map (\<lambda>k. of_nat s + of_nat k) [a ..< b] = map of_nat [s + a ..< s + b]"
  by (rule nth_equalityI) (auto simp: algebra_simps)

context ext2_env
begin

lemma block_words:
  assumes "mounted contents valid fs"
  shows "(ucast (of_nat (block_bytes fs) :: u32) :: u64) \<noteq> 0"
    and "unat (ucast (of_nat (block_bytes fs) :: u32) :: u64) = block_bytes fs"
    and "checked_div pos (ucast (of_nat (block_bytes fs) :: u32)) = Some (of_nat (unat pos div block_bytes fs) :: u64)"
    and "checked_mod pos (ucast (of_nat (block_bytes fs) :: u32)) = Some (of_nat (unat pos mod block_bytes fs) :: u64)"
    and "unat (of_nat (unat pos mod block_bytes fs) :: u64) = unat pos mod block_bytes fs"
    and "ceil_div pos (ucast (of_nat (block_bytes fs) :: u32)) = Some (of_nat (blocks_in fs (unat pos)) :: u64)"
    and "unat (of_nat (blocks_in fs (unat pos)) :: u64) = blocks_in fs (unat pos)"
proof -
  let ?b = "ucast (of_nat (block_bytes fs) :: u32) :: u64"
  show nz: "?b \<noteq> 0" and u: "unat ?b = block_bytes fs"
    using get_block_size_mounted [OF assms] block_bytes_cases [OF assms] by auto
  have b: "?b = of_nat (block_bytes fs)" by (rule get_block_size_mounted(4) [OF assms])
  have pos: "unat pos < 2 ^ 64" "of_nat (unat pos) = pos" using unsigned_less [of pos] by simp_all
  have B: "block_bytes fs < 2 ^ 64" using block_bytes_cases [OF assms] by auto
  note w = u64_nat(3,4) [OF pos(1) B]
  show "checked_div pos ?b = Some (of_nat (unat pos div block_bytes fs))"
    "checked_mod pos ?b = Some (of_nat (unat pos mod block_bytes fs))"
    using nz w unfolding b checked_div_def checked_mod_def pos(2) by simp_all
  have "unat pos mod block_bytes fs < 2 ^ 64" using B by (rule less_trans [OF mod_less_divisor [OF block_bytes_pos]])
  then show "unat (of_nat (unat pos mod block_bytes fs) :: u64) = unat pos mod block_bytes fs" by (rule word_of_nat_small)
  show "ceil_div pos ?b = Some (of_nat (blocks_in fs (unat pos)))"
    "unat (of_nat (blocks_in fs (unat pos)) :: u64) = blocks_in fs (unat pos)"
    using ceil_div_nat [OF nz, of pos] by (simp_all only: u blocks_in_def)
qed

lemma blocks_of_range:
  assumes "pos < sz" "pos + len \<le> sz"
  shows "pos div block_bytes fs + max 1 (blocks_in fs len) \<le> blocks_in fs sz"
proof (cases "len = 0")
  case True
  then show ?thesis using blocks_in_less [OF assms(1), of fs] by simp
next
  case False
  have "pos div block_bytes fs + (len - 1) div block_bytes fs \<le> (pos + (len - 1)) div block_bytes fs"
    using div_add1_eq [of pos "len - 1" "block_bytes fs"] by linarith
  also have "\<dots> < blocks_in fs sz" using assms False by (intro blocks_in_less) simp
  finally show ?thesis using False by (simp add: blocks_in_bounds(2))
qed

lemma read_bytes_ok:
  assumes m: "mounted contents valid fs" and i: "file_ok contents fs i"
    and pos: "unat pos < unat (get_size i)" "unat pos + unat len \<le> unat (get_size i)"
  shows "read_bytes e fs i pos len = Some (Some (take (min (unat len)
    (max 1 (blocks_in fs (unat len)) * block_bytes fs - unat pos mod block_bytes fs))
    (drop (unat pos) (file_contents contents fs i))))"
proof -
  let ?B = "block_bytes fs" and ?s = "unat pos div block_bytes fs" and ?c = "blocks_in fs (unat len)"
  let ?db = "data_block contents fs i" and ?nb = "blocks_in fs (unat (get_size i))"
  have range: "?s + max 1 ?c \<le> ?nb" by (rule blocks_of_range [OF pos])
  have "unat pos + unat len < 2 ^ 64" using pos(2) unat_get_size [of i] by simp
  then have sum1: "checked_add pos len = Some (pos + len)" by (simp add: checked_add_nat)
  note sum = sum1 checked_add_unat [OF sum1]
  have le: "\<not> pos + len > get_size i" using pos(2) by (simp add: word_less_nat_alt sum(2))
  note w = block_words [OF m]
  have first: "read_data_block e fs i (of_nat ?s) = Some (Some (?db ?s))" "length (?db ?s) = ?B"
    using read_data_block_ok [OF m i, of ?s] range by simp_all
  have more: "read_more e fs i (map (\<lambda>k. of_nat ?s + of_nat k) [1 ..< ?c]) res =
      Some (Some (res @ concat (map ?db [?s + 1 ..< ?s + ?c])))" for res
    unfolding upt_shift using range by (intro read_more_ok [OF m i]) auto
  have all: "drop (unat pos mod ?B) (?db ?s) @ concat (map ?db [?s + 1 ..< ?s + ?c]) =
      drop (unat pos mod ?B) (concat (map ?db [?s ..< ?s + max 1 ?c]))"
  proof -
    have "[?s ..< ?s + max 1 ?c] = ?s # [?s + 1 ..< ?s + ?c]"
      by (cases "?c = 0") (auto simp: upt_conv_Cons max_def)
    moreover have "unat pos mod ?B \<le> length (?db ?s)" using first(2) by (simp add: less_imp_le)
    ultimately show ?thesis by simp
  qed
  have whole: "drop (unat pos mod ?B) (concat (map ?db [?s ..< ?s + max 1 ?c])) =
      take (max 1 ?c * ?B - unat pos mod ?B) (drop (unat pos) (file_blocks contents fs i))"
    unfolding file_blocks_def
    using read_data_block_ok(2) [OF m i] range block_bytes_pos by (rule section_of_blocks)
  have len: "take (unat len) (drop (unat pos) (file_contents contents fs i)) = take (unat len) (drop (unat pos) (file_blocks contents fs i))"
    unfolding file_contents_def using pos by (simp add: drop_take)
  have cut: "take k (drop (unat pos) (file_contents contents fs i)) = take k (drop (unat pos) (file_blocks contents fs i))"
    if "k \<le> unat len" for k
    using arg_cong [OF len, of "take k"] that by (simp only: take_take min.absorb1)
  have "read_bytes e fs i pos len = Some (Some (take (unat len)
      (drop (unat pos mod ?B) (?db ?s) @ concat (map ?db [?s + 1 ..< ?s + ?c]))))"
    using first(1) more sum(1) le w(3-7)
    by (simp add: read_bytes_def get_block_size_mounted(1) [OF m] first(2) less_imp_le)
  also have "\<dots> = Some (Some (take (min (unat len) (max 1 ?c * ?B - unat pos mod ?B))
      (drop (unat pos) (file_blocks contents fs i))))"
    unfolding all whole by simp
  finally show ?thesis by (simp only: cut min.cobounded1)
qed

end

section \<open>Blocks that are not touched\<close>

text \<open>The data blocks of a file are different from each other and from its indirect blocks.\<close>

definition data_separate :: "('d \<Rightarrow> u8 list) \<Rightarrow> 'd Ext2FS \<Rightarrow> Ext2RawInode \<Rightarrow> bool" where
  "data_separate contents fs i \<longleftrightarrow> (\<forall>k < blocks_in fs (unat (get_size i)). \<forall>j < blocks_in fs (unat (get_size i)).
     (j \<noteq> k \<longrightarrow> file_pointers contents fs i ! j \<noteq> file_pointers contents fs i ! k)
     \<and> file_pointers contents fs i ! j \<notin> set (file_path contents fs i k))"

lemma tree_frame:
  assumes "block_bytes fs' = block_bytes fs" "n < per_block fs ^ d"
    and "\<forall>q \<in> set (path_blocks contents fs d p n). block_at contents fs' (unat q) = block_at contents fs (unat q)"
  shows "tree_pointers contents fs' d p ! n = tree_pointers contents fs d p ! n
    \<and> path_blocks contents fs' d p n = path_blocks contents fs d p n"
  using assms(2,3)
proof (induction d arbitrary: p n)
  case (Suc d)
  have P: "per_block fs' = per_block fs" using assms(1) by (simp add: per_block_def)
  have bp: "block_pointers contents fs' p = block_pointers contents fs p"
    using Suc.prems(2) by (simp add: block_pointers_def P)
  have "0 < per_block fs" using Suc.prems(1) by (cases "per_block fs") auto
  then have "n mod per_block fs ^ d < per_block fs ^ d" by simp
  with Suc.IH Suc.prems(2) bp P nth_tree_pointers [OF Suc.prems(1)]
    nth_tree_pointers [of n fs' d contents p] Suc.prems(1)
  show ?case by (simp del: tree_pointers.simps)
qed simp

lemma pointer_level:
  fixes n a b c :: nat
  assumes "n < 12 + a + b + c"
  obtains "n < 12" | "12 \<le> n" "n - 12 < a" | "12 \<le> n" "a \<le> n - 12" "n - 12 - a < b"
    | "12 \<le> n" "a \<le> n - 12" "b \<le> n - 12 - a" "n - 12 - a - b < c"
proof -
  have "n - 12 - a - b < c" if "12 \<le> n" "a \<le> n - 12" "b \<le> n - 12 - a" using assms that by simp
  then show thesis using that not_less by metis
qed

lemma file_pointers_frame:
  assumes B: "block_bytes fs' = block_bytes fs" and n: "n < max_data_blocks fs" "length (direct_block_pointers i) = 12"
    and same: "\<forall>q \<in> set (file_path contents fs i n). block_at contents fs' (unat q) = block_at contents fs (unat q)"
  shows "file_pointers contents fs' i ! n = file_pointers contents fs i ! n"
    and "file_path contents fs' i n = file_path contents fs i n"
proof -
  have P: "per_block fs' = per_block fs" using B by (simp add: per_block_def)
  let ?P = "per_block fs"
  have max: "n < 12 + ?P + ?P ^ 2 + ?P ^ 3" using n(1) by (simp add: max_data_blocks_def Let_def)
  from max have "file_pointers contents fs' i ! n = file_pointers contents fs i ! n
    \<and> file_path contents fs' i n = file_path contents fs i n"
  proof (cases rule: pointer_level)
    case 1
    then show ?thesis using n(2) by (simp add: file_pointers_def file_path_def nth_append)
  next
    case 2
    let ?t = "singly_indirect_block_pointer i" and ?k = "n - 12"
    have path: "file_path contents fs i n = path_blocks contents fs 1 ?t ?k"
      "file_path contents fs' i n = path_blocks contents fs' 1 ?t ?k"
      using 2 by (simp_all add: file_path_def P Let_def del: path_blocks.simps)
    have nth: "file_pointers contents fs i ! n = tree_pointers contents fs 1 ?t ! ?k"
      "file_pointers contents fs' i ! n = tree_pointers contents fs' 1 ?t ! ?k"
      using 2 n(2) by (simp_all add: file_pointers_def nth_append P del: tree_pointers.simps)
    have "?k < ?P ^ 1" using 2 by simp
    from tree_frame [OF B this, of contents ?t] same show ?thesis unfolding path nth by blast
  next
    case 3
    let ?t = "doubly_indirect_block_pointer i" and ?k = "n - 12 - ?P"
    have path: "file_path contents fs i n = path_blocks contents fs 2 ?t ?k"
      "file_path contents fs' i n = path_blocks contents fs' 2 ?t ?k"
      using 3 by (simp_all add: file_path_def P Let_def del: path_blocks.simps)
    have nth: "file_pointers contents fs i ! n = tree_pointers contents fs 2 ?t ! ?k"
      "file_pointers contents fs' i ! n = tree_pointers contents fs' 2 ?t ! ?k"
      using 3 n(2) by (simp_all add: file_pointers_def nth_append P del: tree_pointers.simps)
    have "?k < ?P ^ 2" using 3 by simp
    from tree_frame [OF B this, of contents ?t] same show ?thesis unfolding path nth by blast
  next
    case 4
    let ?t = "triply_indirect_block_pointer i" and ?k = "n - 12 - ?P - ?P ^ 2"
    have path: "file_path contents fs i n = path_blocks contents fs 3 ?t ?k"
      "file_path contents fs' i n = path_blocks contents fs' 3 ?t ?k"
      using 4 by (simp_all add: file_path_def P Let_def del: path_blocks.simps)
    have nth: "file_pointers contents fs i ! n = tree_pointers contents fs 3 ?t ! ?k"
      "file_pointers contents fs' i ! n = tree_pointers contents fs' 3 ?t ! ?k"
      using 4 n(2) by (simp_all add: file_pointers_def nth_append P del: tree_pointers.simps)
    have "?k < ?P ^ 3" using 4 by simp
    from tree_frame [OF B this, of contents ?t] same show ?thesis unfolding path nth by blast
  qed
  then show "file_pointers contents fs' i ! n = file_pointers contents fs i ! n"
    "file_path contents fs' i n = file_path contents fs i n" by simp_all
qed

section \<open>Writing\<close>

definition file_state ::
  "('d \<Rightarrow> u8 list) \<Rightarrow> ('d \<Rightarrow> bool) \<Rightarrow> 'd Ext2FS \<Rightarrow> Ext2RawInode \<Rightarrow> bool" where
  "file_state contents valid fs i \<longleftrightarrow> mounted contents valid fs \<and> file_ok contents fs i \<and> data_separate contents fs i"

context ext2_env
begin

lemma write_data_block_ok:
  assumes fs: "file_state contents valid fs i" and k: "k < blocks_in fs (unat (get_size i))"
    and data: "length data = block_bytes fs"
  shows "\<exists>fs'. write_data_block e i (of_nat k) data fs = Some (Some (), fs') \<and> file_state contents valid fs' i
    \<and> block_bytes fs' = block_bytes fs
    \<and> (\<forall>j < blocks_in fs (unat (get_size i)).
        data_block contents fs' i j = (if j = k then data else data_block contents fs i j))"
proof -
  let ?nb = "blocks_in fs (unat (get_size i))" and ?p = "\<lambda>j. file_pointers contents fs i ! j"
  have m: "mounted contents valid fs" and ok: "file_ok contents fs i" and sep: "data_separate contents fs i"
    using fs by (simp_all add: file_state_def)
  have ptr: "read_data_block_pointer e fs i (of_nat k) = Some (Some (?p k))"
    using m ok k by (intro read_pointer_list) (auto simp: file_ok_def)
  have hb: "has_block contents fs (unat (?p k))" using ok k by (simp add: file_ok_def)
  obtain fs' where w: "write_block e (?p k) data fs = Some (Some (), fs')"
    "block_written e contents valid fs (unat (?p k)) data fs'"
    using write_block_frame [OF m hb data] by blast
  have B: "block_bytes fs' = block_bytes fs" "length (disk contents fs') = length (disk contents fs)" "mounted contents valid fs'"
    and new: "block_at contents fs' (unat (?p k)) = data"
    and others: "\<And>n. n \<noteq> unat (?p k) \<Longrightarrow> block_at contents fs' n = block_at contents fs n"
    using w(2) by (simp_all add: block_written_def)
  have nb: "blocks_in fs' n = blocks_in fs n" "max_data_blocks fs' = max_data_blocks fs" for n
    by (simp_all add: blocks_in_def max_data_blocks_def per_block_def B)
  have frame: "file_pointers contents fs' i ! j = ?p j" "file_path contents fs' i j = file_path contents fs i j"
    if "j < ?nb" for j
  proof -
    have "j < max_data_blocks fs" "length (direct_block_pointers i) = 12" using ok that by (auto simp: file_ok_def)
    moreover have "\<forall>q \<in> set (file_path contents fs i j). block_at contents fs' (unat q) = block_at contents fs (unat q)"
    proof
      fix q assume "q \<in> set (file_path contents fs i j)"
      then have "q \<noteq> ?p k" using sep k that by (auto simp: data_separate_def)
      then show "block_at contents fs' (unat q) = block_at contents fs (unat q)"
        by (intro others) (simp add: word_unat_eq_iff)
    qed
    ultimately show "file_pointers contents fs' i ! j = ?p j" "file_path contents fs' i j = file_path contents fs i j"
      using file_pointers_frame [OF B(1)] by blast+
  qed
  have "file_ok contents fs' i"
    using ok frame by (auto simp: file_ok_def nb has_block_cong [OF B(1,2)])
  moreover have "data_separate contents fs' i"
    using sep frame by (simp add: data_separate_def nb)
  moreover have "data_block contents fs' i j = (if j = k then data else data_block contents fs i j)" if "j < ?nb" for j
  proof -
    have "j \<noteq> k \<Longrightarrow> ?p j \<noteq> ?p k" using sep k that by (simp add: data_separate_def)
    then show ?thesis using frame [OF that] new others by (simp add: data_block_def word_unat_eq_iff)
  qed
  moreover have "write_data_block e i (of_nat k) data fs = Some (Some (), fs')"
    using w(1) ptr by (simp add: write_data_block_def)
  ultimately show ?thesis using B by (auto simp: file_state_def)
qed

end

lemma replace_at_block:
  assumes "\<And>j. j < nb \<Longrightarrow> length (f j) = B" "k < nb" "length new = B"
    and "\<And>j. j < nb \<Longrightarrow> g j = (if j = k then new else f j)"
  shows "concat (map g [0 ..< nb]) = replace_at (concat (map f [0 ..< nb])) (k * B) new"
proof -
  have split: "[0 ..< nb] = [0 ..< k] @ k # [Suc k ..< nb]"
    using assms(2) upt_add_eq_append [of 0 k "nb - k"] by (simp add: upt_conv_Cons)
  have g: "map g [0 ..< k] = map f [0 ..< k]" "map g [Suc k ..< nb] = map f [Suc k ..< nb]" "g k = new"
    using assms(2,4) by (auto intro!: map_cong)
  have "length (concat (map f [0 ..< k])) = k * B"
    using assms(1,2) by (subst length_concat_const [of _ B]) auto
  then show ?thesis
    using assms(1) [OF assms(2)] assms(3) unfolding split map_append list.map g by (simp add: replace_at_def)
qed

lemma replace_at_nested:
  assumes "pos + n \<le> length F" "sect F pos n = old" "ind + length xs \<le> n"
  shows "replace_at F pos (replace_at old ind xs) = replace_at F (pos + ind) xs"
proof -
  have "drop pos F = old @ drop (pos + n) F"
    using assms(2) append_take_drop_id [of n "drop pos F"] by (simp add: sect_def add.commute)
  then have F: "F = take pos F @ old @ drop (pos + n) F" using append_take_drop_id [of pos F] by simp
  have len: "length (take pos F) = pos" "length old = n" using assms(1,2) by auto
  have "replace_at F (pos + ind) xs = take pos F @ replace_at old ind xs @ drop (pos + n) F"
    using replace_at_middle [of ind xs old "take pos F" "drop (pos + n) F"] assms(3) F len by simp
  moreover have "length (replace_at old ind xs) = n" using len assms(3) by simp
  ultimately show ?thesis by (simp add: replace_at_def [of F pos])
qed

lemma replace_at_append:
  "pos + length xs \<le> length F \<Longrightarrow> replace_at (replace_at F pos xs) (pos + length xs) ys = replace_at F pos (xs @ ys)"
  by (simp add: replace_at_def drop_append add.commute add.left_commute)

lemma replace_at_Nil [simp]: "replace_at F pos [] = F"
  by (simp add: replace_at_def)

context ext2_env
begin

lemma write_one_block:
  assumes fs: "file_state contents valid fs i" and k: "k < blocks_in fs (unat (get_size i))"
    and fits: "ind + length xs \<le> block_bytes fs"
    and v: "v = replace_at (data_block contents fs i k) ind xs \<or> ind = 0 \<and> length xs = block_bytes fs \<and> v = xs"
  shows "\<exists>fs'. write_data_block e i (of_nat k) v fs = Some (Some (), fs') \<and> file_state contents valid fs' i
    \<and> block_bytes fs' = block_bytes fs
    \<and> file_blocks contents fs' i = replace_at (file_blocks contents fs i) (k * block_bytes fs + ind) xs"
proof -
  let ?nb = "blocks_in fs (unat (get_size i))" and ?B = "block_bytes fs" and ?f = "data_block contents fs i"
  have m: "mounted contents valid fs" "file_ok contents fs i" using fs by (simp_all add: file_state_def)
  note len = read_data_block_ok(2) [OF m]
  have lv: "length v = ?B" using v fits len [OF k] by auto
  obtain fs' where w: "write_data_block e i (of_nat k) v fs = Some (Some (), fs')" "file_state contents valid fs' i"
    "block_bytes fs' = ?B" "\<forall>j < ?nb. data_block contents fs' i j = (if j = k then v else ?f j)"
    using write_data_block_ok [OF fs k lv] by blast
  have "file_blocks contents fs' i = replace_at (file_blocks contents fs i) (k * ?B) v"
    unfolding file_blocks_def blocks_in_def w(3)
    by (rule replace_at_block) (use len k lv w(4) in \<open>auto simp: blocks_in_def\<close>)
  also have "\<dots> = replace_at (file_blocks contents fs i) (k * ?B + ind) xs"
  proof (cases "v = replace_at (?f k) ind xs")
    case True
    have "length (file_blocks contents fs i) = ?nb * ?B"
      unfolding file_blocks_def by (subst length_concat_const [of _ ?B]) (auto simp: len)
    moreover have "Suc k * ?B \<le> ?nb * ?B" using k by (intro mult_le_mono1) simp
    ultimately have "k * ?B + ?B \<le> length (file_blocks contents fs i)" by simp
    moreover have "sect (file_blocks contents fs i) (k * ?B) ?B = ?f k"
    proof -
      have "take (1 * ?B) (drop (k * ?B) (file_blocks contents fs i)) = concat (map ?f [k ..< k + 1])"
        unfolding file_blocks_def using k len
        by (subst concat_blocks_drop, simp, simp) (rule concat_blocks_take, simp_all)
      then show ?thesis by (simp add: sect_def)
    qed
    ultimately show ?thesis using replace_at_nested fits True by blast
  qed (use v in simp)
  finally show ?thesis using w(1-3) by auto
qed

lemma write_loop_ok:
  assumes "file_state contents valid fs i" "s + c \<le> blocks_in fs (unat (get_size i))" "B = block_bytes fs"
    and "b \<le> c" "ind \<le> B" "b \<noteq> 0 \<longrightarrow> ind = 0" "b = 0 \<longrightarrow> ind = offset0"
    and "b < c \<longrightarrow> (c - b - 1) * B \<le> length data + ind" "b < c \<and> \<not> extra \<longrightarrow> (c - b) * B \<le> length data + ind"
  shows "\<exists>fs'. write_loop e i (of_nat s) B c extra offset0 [b ..< c] ind data written fs =
      Some (Some (written + min (length data) ((c - b) * B - ind)), fs')
    \<and> file_state contents valid fs' i \<and> block_bytes fs' = block_bytes fs
    \<and> file_blocks contents fs' i = replace_at (file_blocks contents fs i) ((s + b) * B + ind)
        (take (min (length data) ((c - b) * B - ind)) data)"
  using assms
proof (induction "c - b" arbitrary: b ind data written fs)
  case 0
  then show ?case by auto
next
  case (Suc n)
  let ?k = "s + b" and ?n = "min (B - ind) (length data)" and ?nb = "blocks_in fs (unat (get_size i))"
  let ?read = "(b = c - 1 \<and> extra) \<or> (b = 0 \<and> offset0 \<noteq> 0)"
  let ?xs = "take ?n data" and ?rest = "drop ?n data" and ?m = "min (length data - ?n) (n * B)"
  have cb: "c - b = Suc n" "b < c" "c - Suc b = n" using Suc.hyps(2) by simp_all
  have m: "mounted contents valid fs" "file_ok contents fs i" using Suc.prems(1) by (simp_all add: file_state_def)
  have k: "?k < ?nb" using Suc.prems(2) cb(2) by simp
  note db = read_data_block_ok [OF m k]
  have fits: "ind + length ?xs \<le> block_bytes fs" using Suc.prems(3,5) by auto
  have full: "n * B \<le> length data + ind" "\<not> extra \<Longrightarrow> Suc n * B \<le> length data + ind"
    using Suc.prems(8,9) cb by simp_all
  have unread: "ind = 0" "length ?xs = B" if "\<not> ?read"
  proof -
    show "ind = 0" using that Suc.prems(6,7) by auto
    moreover have "B \<le> length data + ind" using that cb full by (cases n) auto
    ultimately show "length ?xs = B" by simp
  qed
  define v where "v = (if ?read then data_block contents fs i ?k else replicate B 0)"
  have get: "(if ?read then read_data_block e fs i (of_nat s + of_nat b) else Some (Some (replicate B 0))) = Some (Some v)"
    using db(1) by (simp add: v_def)
  have lv: "length v = B" using db(2) Suc.prems(3) by (simp add: v_def)
  have new: "replace_at v ind ?xs = replace_at (data_block contents fs i ?k) ind ?xs
      \<or> ind = 0 \<and> length ?xs = block_bytes fs \<and> replace_at v ind ?xs = ?xs"
  proof (cases ?read)
    case False
    from unread [OF False] have "ind = 0" "length ?xs = B" .
    then show ?thesis using lv Suc.prems(3) by (simp add: replace_at_def)
  qed (simp add: v_def)
  obtain fs1 where w: "write_data_block e i (of_nat ?k) (replace_at v ind ?xs) fs = Some (Some (), fs1)"
    "file_state contents valid fs1 i" "block_bytes fs1 = block_bytes fs"
    "file_blocks contents fs1 i = replace_at (file_blocks contents fs i) (?k * B + ind) ?xs"
    using write_one_block [OF Suc.prems(1) k fits new] Suc.prems(3) by auto
  have nb1: "blocks_in fs1 x = blocks_in fs x" for x by (simp add: blocks_in_def w(3))
  have "\<exists>fs'. write_loop e i (of_nat s) B c extra offset0 [Suc b ..< c] 0 ?rest (written + ?n) fs1 =
      Some (Some (written + ?n + min (length ?rest) ((c - Suc b) * B - 0)), fs')
    \<and> file_state contents valid fs' i \<and> block_bytes fs' = block_bytes fs1
    \<and> file_blocks contents fs' i = replace_at (file_blocks contents fs1 i) ((s + Suc b) * B + 0)
        (take (min (length ?rest) ((c - Suc b) * B - 0)) ?rest)"
  proof (rule Suc.hyps(1))
    show "Suc b < c \<longrightarrow> (c - Suc b - 1) * B \<le> length ?rest + 0"
      using full(1) cb Suc.prems(5) by (cases n) auto
    show "Suc b < c \<and> \<not> extra \<longrightarrow> (c - Suc b) * B \<le> length ?rest + 0"
      using full(2) cb Suc.prems(5) by (cases n) auto
  qed (use cb w Suc.prems nb1 in auto)
  then obtain fs2 where r: "write_loop e i (of_nat s) B c extra offset0 [Suc b ..< c] 0 ?rest (written + ?n) fs1 =
      Some (Some (written + ?n + ?m), fs2)" "file_state contents valid fs2 i" "block_bytes fs2 = block_bytes fs"
    "file_blocks contents fs2 i = replace_at (file_blocks contents fs1 i) ((s + Suc b) * B) (take ?m ?rest)"
    unfolding cb(3) length_drop w(3) by auto
  have total: "?n + ?m = min (length data) ((c - b) * B - ind)"
    using Suc.prems(5) unfolding cb(1) by auto
  have "file_blocks contents fs2 i = replace_at (file_blocks contents fs i) (?k * B + ind) (take (?n + ?m) data)"
  proof (cases "B - ind \<le> length data")
    case True
    have "length (file_blocks contents fs i) = ?nb * B"
      unfolding file_blocks_def by (subst length_concat_const [of _ B]) (auto simp: read_data_block_ok(2) [OF m] Suc.prems(3))
    moreover have "Suc ?k * B \<le> ?nb * B" using k by (intro mult_le_mono1) simp
    ultimately have "?k * B + ind + length ?xs \<le> length (file_blocks contents fs i)" using True Suc.prems(5) by simp
    note app = replace_at_append [OF this, of "take ?m ?rest"]
    have "?k * B + ind + length ?xs = (s + Suc b) * B" using True Suc.prems(5) by simp
    then show ?thesis using app unfolding r(4) w(4) by (simp only: take_add)
  next
    case False
    then show ?thesis unfolding r(4) w(4) by simp
  qed
  moreover have "write_loop e i (of_nat s) B c extra offset0 [b ..< c] ind data written fs =
      Some (Some (written + (?n + ?m)), fs2)"
    using r(1) w(1) get lv by (simp add: upt_conv_Cons [OF cb(2)] Let_def add.assoc)
  ultimately show ?case unfolding total using r(2,3) by auto
qed

end

lemma take_replace_at:
  "pos + length xs \<le> n \<Longrightarrow> n \<le> length F \<Longrightarrow> take n (replace_at F pos xs) = replace_at (take n F) pos xs"
  by (simp add: replace_at_def drop_take min.absorb1 min.absorb2)

lemma length_file_blocks_ge:
  assumes "\<And>k. k < blocks_in fs (unat (get_size i)) \<Longrightarrow> length (data_block contents fs i k) = block_bytes fs"
  shows "unat (get_size i) \<le> length (file_blocks contents fs i)"
proof -
  have "length (file_blocks contents fs i) = blocks_in fs (unat (get_size i)) * block_bytes fs"
    unfolding file_blocks_def using assms by (subst length_concat_const [of _ "block_bytes fs"]) auto
  then show ?thesis using blocks_in_bounds(1) by simp
qed

lemma blocks_in_mult: "blocks_in fs (block_bytes fs * q) = q"
proof -
  obtain b where "block_bytes fs = Suc b" using block_bytes_pos [of fs] gr0_conv_Suc by blast
  then have e: "block_bytes fs * q + block_bytes fs - 1 = (block_bytes fs - 1) + q * block_bytes fs"
    by simp
  have "blocks_in fs (block_bytes fs * q) = q + (block_bytes fs - 1) div block_bytes fs"
    unfolding blocks_in_def e by (rule div_mult_self1) simp
  then show ?thesis by simp
qed

definition bytes_written :: "'d Ext2FS \<Rightarrow> nat \<Rightarrow> nat \<Rightarrow> nat" where
  "bytes_written fs start_offset n = min n (blocks_in fs n * block_bytes fs - start_offset)"

context ext2_env
begin

lemma write_bytes_ok:
  assumes fs: "file_state contents valid fs i"
    and pos: "unat pos < unat (get_size i)" "unat pos + length data \<le> unat (get_size i)"
    and isz: "get_ondisk_inode_size fs = Some isz" "unat isz dvd block_bytes fs"
  defines "w \<equiv> bytes_written fs (unat pos mod unat isz) (length data)"
  shows "\<exists>fs'. write_bytes e i pos data fs = Some (Some w, fs') \<and> file_state contents valid fs' i
    \<and> file_contents contents fs' i =
        replace_at (file_contents contents fs i) (unat pos div block_bytes fs * block_bytes fs + unat pos mod unat isz) (take w data)"
proof -
  let ?B = "block_bytes fs" and ?s = "unat pos div block_bytes fs" and ?c = "blocks_in fs (length data)"
  let ?o = "unat pos mod unat isz"
  have m: "mounted contents valid fs" "file_ok contents fs i" using fs by (simp_all add: file_state_def)
  have isz0: "isz \<noteq> 0" using isz(2) block_bytes_pos [of fs] by (metis dvd_0_left less_irrefl unat_0)
  have "?o = unat pos mod ?B mod unat isz" using isz(2) by (simp add: mod_mod_cancel)
  then have "?o \<le> unat pos mod ?B" by (simp only: mod_less_eq_dividend)
  moreover from this have "?o \<le> ?B"
    by (rule le_trans) (rule less_imp_le [OF mod_less_divisor [OF block_bytes_pos]])
  ultimately have o: "?o \<le> unat pos mod ?B" "?o \<le> ?B" .
  have len64: "length data < 2 ^ 64" using pos(2) unat_get_size [of i] by simp
  note ul = word_of_nat_small [OF len64]
  have "unat pos + unat (of_nat (length data) :: u64) < 2 ^ 64" using pos(2) unat_get_size [of i] ul by simp
  then have sum: "checked_add pos (of_nat (length data)) = Some (pos + of_nat (length data))" by (simp add: checked_add_nat)
  have "unat (pos + of_nat (length data)) = unat pos + length data" using checked_add_unat [OF sum] ul by simp
  then have le: "\<not> pos + of_nat (length data) > get_size i" using pos(2) by (simp add: word_less_nat_alt)
  note w = block_words [OF m(1)]
  have words: "checked_mod pos isz = Some (pos mod isz)" "unat (pos mod isz) = ?o"
    using isz0 by (simp_all add: checked_mod_def unat_mod)
  have c: "ceil_div (of_nat (length data) :: u64) (ucast (of_nat ?B :: u32)) = Some (of_nat ?c)"
    "unat (of_nat ?c :: u64) = ?c" using w(6,7) [of "of_nat (length data)"] by (simp_all add: ul)
  have range: "?s + ?c \<le> blocks_in fs (unat (get_size i))" using blocks_of_range [OF pos, of fs] by simp
  have full: "0 < ?c \<longrightarrow> (?c - 0 - 1) * ?B \<le> length data + ?o"
    "0 < ?c \<and> \<not> (length data mod ?B \<noteq> 0) \<longrightarrow> (?c - 0) * ?B \<le> length data + ?o"
  proof -
    have c1: "?c = (length data - 1) div ?B + 1" if "0 < ?c" using that blocks_in_bounds(2) [of "length data" fs] by (cases "length data") auto
    show "0 < ?c \<longrightarrow> (?c - 0 - 1) * ?B \<le> length data + ?o"
    proof
      assume "0 < ?c"
      then have eq: "?c - 0 - 1 = (length data - 1) div ?B" using c1 by simp
      show "(?c - 0 - 1) * ?B \<le> length data + ?o"
        unfolding eq using div_times_less_eq_dividend [of "length data - 1" ?B] by linarith
    qed
    show "0 < ?c \<and> \<not> (length data mod ?B \<noteq> 0) \<longrightarrow> (?c - 0) * ?B \<le> length data + ?o"
    proof (intro impI, elim conjE, simp only: not_not)
      assume "length data mod ?B = 0"
      then obtain q where "length data = ?B * q" by (auto dest!: mod_0_imp_dvd)
      then have "?c = q" by (simp add: blocks_in_mult)
      then show "(?c - 0) * ?B \<le> length data + ?o" using \<open>length data = ?B * q\<close> by simp
    qed
  qed
  obtain fs' where l: "write_loop e i (of_nat ?s) ?B ?c (length data mod ?B \<noteq> 0) ?o [0 ..< ?c] ?o data 0 fs = Some (Some w, fs')"
    "file_state contents valid fs' i" "block_bytes fs' = ?B"
    "file_blocks contents fs' i = replace_at (file_blocks contents fs i) (?s * ?B + ?o) (take w data)"
    using write_loop_ok [OF fs range refl, of 0 ?o ?o data "length data mod ?B \<noteq> 0" 0] o(2) full
    by (auto simp: w_def bytes_written_def)
  have "write_bytes e i pos data fs = Some (Some w, fs')"
    using sum le w(3) isz(1) words c l(1) w(2)
    by (simp add: write_bytes_def get_block_size_mounted(1,2) [OF m(1)])
  moreover have "file_contents contents fs' i = replace_at (file_contents contents fs i) (?s * ?B + ?o) (take w data)"
  proof -
    have "?s * ?B + ?o \<le> unat pos" using o(1) div_mult_mod_eq [of "unat pos" ?B] by linarith
    moreover have "w \<le> length data" by (simp add: w_def bytes_written_def)
    ultimately have "?s * ?B + ?o + length (take w data) \<le> unat (get_size i)" using pos(2) by simp
    from take_replace_at [OF this length_file_blocks_ge] show ?thesis
      unfolding file_contents_def l(4) using read_data_block_ok(2) [OF m] by blast
  qed
  ultimately show ?thesis using l(2) by blast
qed

end

section \<open>The properties\<close>

text \<open>
  (C19) The tree of block pointers is a list: data block \<open>n\<close> of a file is found at entry \<open>n\<close> of the list
  that the direct pointers and the leaves of the singly, doubly and triply indirect blocks form, for
  every \<open>n\<close> an inode can address, provided the indirect blocks on the way are on the device.
\<close>

theorem data_block_pointer_correct:
  assumes "ext2_env e contents valid" "mounted contents valid fs" "length (direct_block_pointers i) = 12"
    and "n < max_data_blocks fs" "\<forall>p \<in> set (file_path contents fs i n). has_block contents fs (unat p)"
  shows "read_data_block_pointer e fs i (of_nat n) = Some (Some (file_pointers contents fs i ! n))"
  using assms by (rule ext2_env.read_pointer_list)

text \<open>
  (C18) Reading from a file returns a section of its contents that starts at the given position. Its
  length is what was asked for, but at most what is left, behind the position, of as many blocks as
  the length alone needs: a read that does not start at a block boundary may be short.
\<close>

theorem read_bytes_correct:
  assumes "ext2_env e contents valid" "mounted contents valid fs" "file_ok contents fs i"
    and "unat pos < unat (get_size i)" "unat pos + unat len \<le> unat (get_size i)"
  shows "read_bytes e fs i pos len = Some (Some (take (min (unat len)
    (max 1 (blocks_in fs (unat len)) * block_bytes fs - unat pos mod block_bytes fs))
    (drop (unat pos) (file_contents contents fs i))))"
  using assms by (rule ext2_env.read_bytes_ok)

text \<open>
  (C17) Writing replaces a section of the contents of a file and nothing else of it, and the file stays
  well-formed. The section starts in the block of the given position, at the remainder of the
  position by the size of an inode record; the result is the number of bytes that were stored.
\<close>

theorem write_bytes_correct:
  assumes "ext2_env e contents valid" "file_state contents valid fs i"
    and "unat pos < unat (get_size i)" "unat pos + length data \<le> unat (get_size i)"
    and "get_ondisk_inode_size fs = Some isz" "unat isz dvd block_bytes fs"
  shows "\<exists>fs'. write_bytes e i pos data fs = Some (Some (bytes_written fs (unat pos mod unat isz) (length data)), fs')
    \<and> file_state contents valid fs' i
    \<and> file_contents contents fs' i = replace_at (file_contents contents fs i)
        (unat pos div block_bytes fs * block_bytes fs + unat pos mod unat isz)
        (take (bytes_written fs (unat pos mod unat isz) (length data)) data)"
  using assms by (rule ext2_env.write_bytes_ok)

text \<open>
  A write at the start of a block, or at any position whose remainders by the size of a block and
  of an inode record agree, stores the data at that position and can be read back; elsewhere the data
  goes to an earlier position of the same block and overwrites what is there.
\<close>

theorem write_position:
  assumes "ext2_env e contents valid" "file_state contents valid fs i"
    and "unat pos < unat (get_size i)" "unat pos + length data \<le> unat (get_size i)"
    and "get_ondisk_inode_size fs = Some isz" "unat isz dvd block_bytes fs"
    and "unat pos mod block_bytes fs + length data \<le> block_bytes fs" "data \<noteq> []"
  shows "\<exists>fs' at. write_bytes e i pos data fs = Some (Some (length data), fs')
    \<and> file_contents contents fs' i = replace_at (file_contents contents fs i) at data
    \<and> (at = unat pos \<longleftrightarrow> unat pos mod block_bytes fs < unat isz) \<and> at \<le> unat pos"
proof -
  let ?B = "block_bytes fs" and ?o = "unat pos mod unat isz"
  have "?o = unat pos mod ?B mod unat isz" using assms(6) by (simp add: mod_mod_cancel)
  then have o: "?o \<le> unat pos mod ?B" by (simp only: mod_less_eq_dividend)
  have isz: "0 < unat isz" using assms(6) block_bytes_pos [of fs] by (metis dvd_0_left gr0I less_irrefl)
  have "unat pos mod ?B = ?o \<longleftrightarrow> unat pos mod ?B < unat isz"
    using \<open>?o = unat pos mod ?B mod unat isz\<close> isz by (metis mod_less mod_less_divisor)
  then have at: "unat pos div ?B * ?B + ?o = unat pos \<longleftrightarrow> unat pos mod ?B < unat isz"
    using div_mult_mod_eq [of "unat pos" ?B] by linarith
  have "1 \<le> blocks_in fs (length data)" using assms(8) blocks_in_bounds(2) [of "length data" fs] by simp
  then have "1 * ?B \<le> blocks_in fs (length data) * ?B" by (rule mult_le_mono1)
  then have "length data \<le> blocks_in fs (length data) * ?B - ?o" using o assms(7) by linarith
  then have "bytes_written fs ?o (length data) = length data" by (simp add: bytes_written_def)
  with ext2_env.write_bytes_ok [OF assms(1-6)] obtain fs' where
    "write_bytes e i pos data fs = Some (Some (length data), fs')"
    "file_contents contents fs' i = replace_at (file_contents contents fs i) (unat pos div ?B * ?B + ?o) data"
    by auto
  moreover have "unat pos div ?B * ?B + ?o \<le> unat pos" using o div_mult_mod_eq [of "unat pos" ?B] by linarith
  ultimately show ?thesis using at by blast
qed

section \<open>A small file\<close>

definition demo_inode :: Ext2RawInode where
  "demo_inode = set_size 1500 (default_inode\<lparr>direct_block_pointers := [6, 7] @ replicate 10 0,
     singly_indirect_block_pointer := 7, type_and_perm := 0x81FF\<rparr>)"

lemma demo_inode_facts:
  "get_size demo_inode = 1500" "blocks_in demo_fs 1500 = 2" "length (direct_block_pointers demo_inode) = 12"
  "get_ondisk_inode_size demo_fs = Some 128" "max_data_blocks demo_fs = 16843020" "per_block demo_fs = 256"
  by (simp_all add: demo_inode_def set_size_def get_size_def blocks_in_def demo_geometry default_inode_def
      get_ondisk_inode_size_def demo_fs_def demo_sb_def max_data_blocks_def per_block_def block_bytes_def)

lemma demo_pointers: "k < 2 \<Longrightarrow> file_pointers contents fs demo_inode ! k = [6, 7] ! k"
  "k < 12 \<Longrightarrow> file_path contents fs demo_inode k = []"
  by (auto simp: file_pointers_def demo_inode_def set_size_def nth_append file_path_def less_2_cases_iff)

lemma demo_file_state: "file_state id (\<lambda>d. length d < 2 ^ 64) demo_fs demo_inode"
proof -
  have "file_ok id demo_fs demo_inode"
    by (auto simp: file_ok_def demo_inode_facts demo_pointers less_2_cases_iff has_block_def demo_geometry)
  moreover have "data_separate id demo_fs demo_inode"
    by (auto simp: data_separate_def demo_inode_facts demo_pointers less_2_cases_iff)
  ultimately show ?thesis using demo_mounted by (simp add: file_state_def)
qed

theorem data_block_pointer_correct_witness:
  "read_data_block_pointer ram_env demo_fs demo_inode (of_nat 15) =
     Some (Some (file_pointers id demo_fs demo_inode ! 15))"
proof (rule data_block_pointer_correct [OF ram_ext2.ext2_env_axioms demo_mounted])
  show "\<forall>p \<in> set (file_path id demo_fs demo_inode 15). has_block id demo_fs (unat p)"
    by (simp add: file_path_def demo_inode_facts has_block_def demo_geometry)
      (simp add: demo_inode_def set_size_def)
qed (simp_all add: demo_inode_facts)

theorem read_bytes_correct_witness:
  "read_bytes ram_env demo_fs demo_inode 1000 100 =
     Some (Some (take 24 (drop 1000 (file_contents id demo_fs demo_inode))))"
proof -
  have "file_ok id demo_fs demo_inode" using demo_file_state by (simp add: file_state_def)
  from read_bytes_correct [OF ram_ext2.ext2_env_axioms demo_mounted this, of 1000 100]
  show ?thesis by (simp add: demo_inode_facts demo_geometry blocks_in_def)
qed

theorem write_bytes_correct_witness:
  "\<exists>fs'. write_bytes ram_env demo_inode 1024 [1, 2, 3] demo_fs = Some (Some 3, fs')
     \<and> file_contents id fs' demo_inode = replace_at (file_contents id demo_fs demo_inode) 1024 [1, 2, 3]"
  using write_bytes_correct [OF ram_ext2.ext2_env_axioms demo_file_state, of 1024 "[1, 2, 3]" 128]
  by (auto simp: demo_inode_facts demo_geometry bytes_written_def blocks_in_def)

theorem write_position_witness:
  "\<exists>fs' at. write_bytes ram_env demo_inode 200 [1, 2, 3] demo_fs = Some (Some 3, fs')
     \<and> file_contents id fs' demo_inode = replace_at (file_contents id demo_fs demo_inode) at [1, 2, 3] \<and> at < 200"
  using write_position [OF ram_ext2.ext2_env_axioms demo_file_state, of 200 "[1, 2, 3]" 128]
  by (force simp: demo_inode_facts demo_geometry)

end
