(* ===== verification/Ext2_Resize.thy ===== *)
theory Ext2_Resize
  imports Ext2_Io
begin

text \<open>
  Growing and shrinking ext2 files: how many blocks are added and removed, and a case in which the
  last block of a grown file is missing.
\<close>

section \<open>Numbers of blocks\<close>

definition ceil :: "nat \<Rightarrow> nat \<Rightarrow> nat" where
  "ceil n b = (n + b - 1) div b"

lemma ceil_mult_add: "0 < b \<Longrightarrow> ceil (q * b + n) b = q + ceil n b"
proof -
  assume b: "0 < b"
  have e: "q * b + n + b - 1 = (n + b - 1) + q * b" using b by simp
  show ?thesis unfolding ceil_def e using b by (intro div_mult_self1) simp
qed

lemma ceil_small: "0 < n \<Longrightarrow> n \<le> b \<Longrightarrow> ceil n b = 1" "ceil 0 b = 0"
proof -
  assume "0 < n" "n \<le> b"
  then obtain m where "n = Suc m" "m < b" by (cases n) auto
  then show "ceil n b = 1" by (simp add: ceil_def div_add_self2)
qed (cases b; simp add: ceil_def)

lemma ceil_minus: "0 < b \<Longrightarrow> m \<le> q * b \<Longrightarrow> ceil (q * b - m) b = q - m div b"
proof -
  assume b: "0 < b" and m: "m \<le> q * b"
  have md: "m = m div b * b + m mod b" by simp
  have le: "m div b \<le> q" using div_le_mono [OF m, of b] b by simp
  show ?thesis
  proof (cases "m mod b = 0")
    case True
    then have "q * b - m = (q - m div b) * b + 0" using md by (metis add.right_neutral diff_mult_distrib)
    then show ?thesis using ceil_mult_add [OF b, of "q - m div b" 0] ceil_small(2) by simp
  next
    case False
    then have "m div b < q" using le m md by (metis add_le_same_cancel1 le_neq_implies_less le_zero_eq)
    then obtain r where r: "q = Suc (m div b) + r" using less_iff_Suc_add by auto
    then have "q * b - m = r * b + (b - m mod b)"
    proof -
      have "q * b = m div b * b + r * b + b" using r by (simp add: algebra_simps)
      moreover have "m mod b \<le> b" using b by (simp add: less_imp_le)
      ultimately show ?thesis using md by linarith
    qed
    moreover have "ceil (b - m mod b) b = 1" using b False by (intro ceil_small(1)) simp_all
    ultimately show ?thesis using ceil_mult_add [OF b, of r] r by simp
  qed
qed

text \<open>
  Shrinking removes the blocks that the file no longer needs: the number of blocks that
  \<^verbatim>\<open>shrink_by\<close> releases is the difference of the numbers of blocks of the old and of the new size,
  for every size and every number of bytes that is at most the size.
\<close>

theorem blocks_to_remove_correct:
  assumes "0 < unat size0" "unat nbytes \<le> unat size0" "0 < unat bs"
  shows "\<exists>n. blocks_to_remove size0 bs nbytes = Some n
    \<and> unat n = ceil (unat size0) (unat bs) - ceil (unat size0 - unat nbytes) (unat bs)"
proof -
  let ?s = "unat size0" and ?n = "unat nbytes" and ?b = "unat bs"
  define used where "used = (if size0 mod bs = 0 then bs else size0 mod bs)"
  have bs: "bs \<noteq> 0" using assms(3) by auto
  have u: "unat used = (if ?s mod ?b = 0 then ?b else ?s mod ?b)"
    by (simp add: used_def unat_mod [symmetric] unat_eq_0)
  have used: "0 < unat used" "unat used \<le> ?b" using assms(3) by (simp_all add: u less_imp_le)
  define q where "q = (?s - unat used) div ?b"
  have s: "?s = q * ?b + unat used"
  proof (cases "?s mod ?b = 0")
    case True
    then obtain r where r: "?s = ?b * r" by (auto dest!: mod_0_imp_dvd)
    then have "r \<noteq> 0" using assms(1) by auto
    then obtain r' where "r = Suc r'" by (cases r) auto
    then show ?thesis using True r assms(3) by (simp add: q_def u)
  next
    case False
    have "?s - ?s mod ?b = ?s div ?b * ?b" by (simp add: minus_mod_eq_div_mult)
    then show ?thesis using False assms(3) by (simp add: q_def u)
  qed
  have cs: "ceil ?s ?b = q + 1" unfolding s ceil_mult_add [OF assms(3)] ceil_small(1) [OF used] ..
  show ?thesis
  proof (cases "used \<le> nbytes")
    case False
    then have less: "?n < unat used" by (simp add: word_le_nat_alt not_le)
    then have e: "?s - ?n = q * ?b + (unat used - ?n)" using s by linarith
    have "ceil (unat used - ?n) ?b = 1" using less used by (intro ceil_small(1)) simp_all
    then have "ceil (?s - ?n) ?b = q + 1" unfolding e ceil_mult_add [OF assms(3)] by simp
    moreover have "blocks_to_remove size0 bs nbytes = Some 0"
      using False bs by (simp add: blocks_to_remove_def checked_mod_def used_def split: if_splits)
    ultimately show ?thesis using cs by simp
  next
    case True
    then have le: "unat used \<le> ?n" by (simp add: word_le_nat_alt)
    then have d: "unat (nbytes - used) = ?n - unat used" using True by (simp add: unat_sub)
    have "?s - ?n = q * ?b - (?n - unat used)" "?n - unat used \<le> q * ?b" using s le assms(2) by linarith+
    then have c: "ceil (?s - ?n) ?b = q - (?n - unat used) div ?b" using ceil_minus [OF assms(3)] by simp
    have qle: "(?n - unat used) div ?b \<le> q"
      using div_le_mono [OF \<open>?n - unat used \<le> q * ?b\<close>, of ?b] assms(3) by simp
    have "q + 1 \<le> ?s" using s used(1) assms(3) by (cases "?b") auto
    then have small: "1 + (?n - unat used) div ?b < 2 ^ 64" using qle unat_below [of size0] by linarith
    define w where "w = (nbytes - used) div bs"
    have uw: "unat w = (?n - unat used) div ?b" by (simp add: w_def unat_div d)
    then have "checked_add 1 w = Some (1 + w)" "unat (1 + w) = 1 + (?n - unat used) div ?b"
      using small by (simp_all add: checked_add_nat unat_word_ariths)
    moreover have "blocks_to_remove size0 bs nbytes = checked_add 1 w"
      using True bs by (simp add: blocks_to_remove_def checked_mod_def checked_div_def used_def w_def)
    ultimately show ?thesis using c cs qle by simp
  qed
qed

text \<open>
  Growing plans for the blocks that the new size needs: the number of blocks that \<^verbatim>\<open>grow_by\<close>
  computes, with the one it adds beforehand when the size is a multiple of the block size, is the
  difference of the numbers of blocks of the new and of the old size.
\<close>

theorem blocks_to_add_correct:
  assumes "0 < unat nbytes" "0 < unat bs" "unat size0 + unat nbytes < 2 ^ 64"
  shows "\<exists>n. blocks_to_add size0 bs nbytes = Some n
    \<and> (if unat size0 mod unat bs = 0 then 1 else 0) + unat n
      = ceil (unat size0 + unat nbytes) (unat bs) - ceil (unat size0) (unat bs)"
proof -
  let ?s = "unat size0" and ?n = "unat nbytes" and ?b = "unat bs"
  define used q where "used = ?s mod ?b" and "q = ?s div ?b"
  have bs: "bs \<noteq> 0" using assms(2) by auto
  have s: "?s = q * ?b + used" "used < ?b" using assms(2) by (simp_all add: used_def q_def)
  have av: "unat (bs - size0 mod bs) = ?b - used"
    using s(2) by (simp add: unat_sub word_le_nat_alt unat_mod used_def less_imp_le)
  have cs: "ceil ?s ?b = q + (if used = 0 then 0 else 1)"
    unfolding s(1) ceil_mult_add [OF assms(2)] using ceil_small(1) [of used ?b] ceil_small(2) [of ?b] s(2) by simp
  show ?thesis
  proof (cases "bs - size0 mod bs < nbytes")
    case False
    then have le: "?n \<le> ?b - used" using av by (simp add: word_less_nat_alt not_less)
    have "ceil (?s + ?n) ?b = q + ceil (used + ?n) ?b"
      unfolding s(1) add.assoc by (rule ceil_mult_add [OF assms(2)])
    also have "ceil (used + ?n) ?b = 1" using le s(2) assms(1) by (intro ceil_small(1)) simp_all
    finally have "ceil (?s + ?n) ?b = q + 1" .
    moreover have "blocks_to_add size0 bs nbytes = Some 0"
      using False bs by (simp add: blocks_to_add_def checked_mod_def)
    ultimately show ?thesis using cs by (simp add: used_def)
  next
    case True
    then have less: "?b - used < ?n" using av by (simp add: word_less_nat_alt)
    have d: "unat (nbytes - (bs - size0 mod bs)) = ?n - (?b - used)"
      using True by (simp add: unat_sub av less_imp_le)
    have "?s + ?n = (q + 1) * ?b + (?n - (?b - used))" using s less by simp
    then have "ceil (?s + ?n) ?b = q + 1 + ceil (?n - (?b - used)) ?b" by (simp only: ceil_mult_add [OF assms(2)])
    moreover have "blocks_to_add size0 bs nbytes = Some (of_nat (ceil (?n - (?b - used)) ?b))"
      "unat (of_nat (ceil (?n - (?b - used)) ?b) :: u64) = ceil (?n - (?b - used)) ?b"
      using True bs ceil_div_nat [OF bs, of "nbytes - (bs - size0 mod bs)"]
      by (simp_all add: blocks_to_add_def checked_mod_def d ceil_def)
    ultimately show ?thesis using cs by (simp add: used_def)
  qed
qed

theorem blocks_to_remove_correct_witness: "\<exists>n. blocks_to_remove 2500 1024 500 = Some n \<and> unat n = 1"
  using blocks_to_remove_correct [of 2500 500 1024] by (simp add: ceil_def)

theorem blocks_to_add_correct_witness: "\<exists>n. blocks_to_add 2048 1024 3000 = Some n \<and> 1 + unat n = 3"
  using blocks_to_add_correct [of 3000 1024 2048] by (simp add: ceil_def)

section \<open>A block that is never allocated\<close>

lemma write_direct_pointer:
  assumes "write_data_block_pointer e n p (i, fs) = Some (Some (), i', fs')" "n \<le> 11"
  shows "i' = i\<lparr>direct_block_pointers := (direct_block_pointers i)[unat n := p]\<rparr>"
  using assms by (auto simp: write_data_block_pointer_def bind_eq_Some_conv)

lemma alloc_direct_block:
  assumes "alloc_data_block e n (i, fs) = Some (Some (), i', fs')" "n \<le> 11"
  shows "\<exists>p. i' = i\<lparr>direct_block_pointers := (direct_block_pointers i)[unat n := p]\<rparr>"
proof -
  from assms(1) obtain gi p s where "with_inode i (alloc_block_close_to e gi fs) = Some (Some p, s)"
    "write_data_block_pointer e n p s = Some (Some (), i', fs')"
    by (auto simp: alloc_data_block_def elim!: ask_in_eq_SomeE and_then_eq_SomeE)
  moreover from this(1) obtain fs1 where "s = (i, fs1)" by (auto simp: with_inode_def)
  ultimately show ?thesis using write_direct_pointer assms(2) by blast
qed

lemma alloc_direct_blocks:
  assumes "alloc_loop e l ks (i, fs) = Some (Some (), i', fs')" "\<forall>k \<in> set ks. unat l + k \<le> 11"
  shows "low32_size i' = low32_size i \<and> length (direct_block_pointers i') = length (direct_block_pointers i)
    \<and> (\<forall>j. j \<notin> (\<lambda>k. unat l + k) ` set ks \<longrightarrow> direct_block_pointers i' ! j = direct_block_pointers i ! j)"
  using assms
proof (induction ks arbitrary: i fs)
  case (Cons k ks)
  from Cons.prems(1) obtain n i1 fs1 where n: "checked_add l (of_nat k) = Some n"
    and a: "alloc_data_block e n (i, fs) = Some (Some (), i1, fs1)"
    and r: "alloc_loop e l ks (i1, fs1) = Some (Some (), i', fs')"
    by (auto simp: bind_eq_Some_conv elim!: and_then_eq_SomeE)
  have "k < 2 ^ 64" using Cons.prems(2) by simp
  then have un: "unat n = unat l + k" using checked_add_unat [OF n] by (simp add: word_of_nat_small)
  then have "n \<le> 11" using Cons.prems(2) by (simp add: word_le_nat_alt)
  from alloc_direct_block [OF a this] obtain p where
    "i1 = i\<lparr>direct_block_pointers := (direct_block_pointers i)[unat n := p]\<rparr>" by blast
  with Cons.IH [OF r] Cons.prems(2) un show ?case by auto
qed simp

text \<open>No operation changes the block size.\<close>

lemma fs_write_sb: "fs_write e addr data fs = Some (r, fs') \<Longrightarrow> sb fs' = sb fs"
  by (auto simp: fs_write_def bind_eq_Some_conv Let_def split: if_splits sum.split_asm)
    (metis old.unit.exhaust sumE)

lemma write_block_sb: "write_block e n data fs = Some (r, fs') \<Longrightarrow> sb fs' = sb fs"
  by (auto simp: write_block_def bind_eq_Some_conv elim!: and_then_SomeE dest: fs_write_sb split: if_splits)

lemma write_descriptor_sb: "write_block_group_descriptor e gi d fs = Some (r, fs') \<Longrightarrow> sb fs' = sb fs"
  by (auto simp: write_block_group_descriptor_def bind_eq_Some_conv elim!: and_then_SomeE dest: fs_write_sb)

lemma flush_sb: "flush_super_blocks e fs = Some (r, fs') \<Longrightarrow> sb fs' = sb fs"
  by (auto simp: flush_super_blocks_def elim!: and_then_SomeE dest!: fs_write_sb split: option.split_asm)

abbreviation log_size :: "'d Ext2FS \<Rightarrow> u32" where
  "log_size fs \<equiv> block_size_log2_minus_10 (sb fs)"

lemmas keeps_sb = write_block_sb write_descriptor_sb flush_sb

lemma dealloc_block_log: "dealloc_block e n fs = Some (r, fs') \<Longrightarrow> log_size fs' = log_size fs"
  by (auto simp: dealloc_block_def bind_eq_Some_conv Let_def elim!: and_then_SomeE ask_in_SomeE dest!: keeps_sb
      split: if_splits)

lemma alloc_block_log: "alloc_block e gi fs = Some (r, fs') \<Longrightarrow> log_size fs' = log_size fs"
  by (auto simp: alloc_block_def bind_eq_Some_conv Let_def elim!: and_then_SomeE ask_in_SomeE dest!: keeps_sb
      split: if_splits)

lemma alloc_block_close_to_log: "alloc_block_close_to e gi fs = Some (r, fs') \<Longrightarrow> log_size fs' = log_size fs"
proof (induction e gi fs rule: alloc_block_close_to.induct)
  case (1 e gi fs)
  from "1.prems" obtain r1 fs1 where a: "alloc_block e gi fs = Some (r1, fs1)"
    by (subst (asm) alloc_block_close_to.simps) (auto simp: bind_eq_Some_conv)
  note log = alloc_block_log [OF a]
  show ?case
  proof (cases r1)
    case (Some p)
    with "1.prems" a log show ?thesis by (subst (asm) alloc_block_close_to.simps) auto
  next
    case None
    with "1.prems" a obtain g n where "checked_add gi 1 = Some g" "get_number_of_block_groups fs1 = Some n"
      "(if g > n then Some (None, fs1) else alloc_block_close_to e g fs1) = Some (r, fs')"
      by (subst (asm) alloc_block_close_to.simps) (auto simp: bind_eq_Some_conv)
    with "1.IH" [OF a refl None] log show ?thesis by (auto split: if_splits)
  qed
qed

lemma alloc_data_block_log:
  assumes "alloc_data_block e n (i, fs) = Some (Some (), i', fs')" "n \<le> 11"
  shows "log_size fs' = log_size fs"
proof -
  from assms(1) obtain gi p fs1 where "alloc_block_close_to e gi fs = Some (Some p, fs1)"
    "write_data_block_pointer e n p (i, fs1) = Some (Some (), i', fs')"
    by (auto simp: alloc_data_block_def with_inode_def elim!: ask_in_eq_SomeE and_then_eq_SomeE)
  then show ?thesis using assms(2)
    by (auto simp: write_data_block_pointer_def bind_eq_Some_conv dest!: dealloc_block_log alloc_block_close_to_log)
qed

lemma ucast_u32_nonzero: "(x :: u32) \<noteq> 0 \<Longrightarrow> (ucast x :: u64) \<noteq> 0"
  by (metis unat_0 unat_eq_0 unat_ucast_u32)

lemma mult_pred_div: "0 < b \<Longrightarrow> 0 < k \<Longrightarrow> (k * b - 1) div b = k - (1 :: nat)"
proof -
  assume b: "0 < b" and "0 < k"
  then obtain r where k: "k = Suc r" by (cases k) auto
  have e: "k * b - 1 = (b - 1) + r * b" using b k by simp
  show ?thesis unfolding e using b k by (subst div_mult_self1) simp_all
qed

lemma grow_structure_small:
  assumes "get_block_size fs = Some bs" "bs \<noteq> 0" "ceil (unat (get_size i)) (unat bs) + unat n \<le> 12"
  shows "grow_data_structure_by e n (i, fs) = Some (Some (), i, fs)"
proof -
  let ?c = "ceil (unat (get_size i)) (unat bs)"
  have "(ucast bs :: u64) \<noteq> 0" using assms(2) by (rule ucast_u32_nonzero)
  then have c: "ceil_div (get_size i) (ucast bs) = Some (of_nat ?c)" "unat (of_nat ?c :: u64) = ?c"
    using ceil_div_nat [of "ucast bs" "get_size i"] by (simp_all add: ceil_def)
  have "uint (of_nat ?c :: u64) = int ?c" "uint n = int (unat n)" by (simp_all only: uint_nat c(2))
  then have "uint (of_nat ?c :: u64) + uint n \<le> 12" "uint n \<le> 12" using assms(3) by linarith+
  then have h: "\<not> 2 ^ 63 \<le> uint n" "uint (of_nat ?c :: u64) + uint n < 2 ^ 63" "uint (of_nat ?c :: u64) + uint n - 12 \<le> 0"
    by simp_all
  show ?thesis
    by (simp only: grow_data_structure_by_def split_conv assms(1) Option.bind.simps c(1) h if_True if_False
        assert_that_simps Let_def simp_thms)
qed

text \<open>
  A file that ends at a block boundary and grows by more than one block lacks its last block:
  \<^verbatim>\<open>grow_by\<close> succeeds and sets the new size, but allocates the first of the new blocks twice and the last
  one not at all. The pointer of the last block of the grown file is the one it had before.
\<close>

theorem grown_file_lacks_last_block:
  assumes bs: "get_block_size fs = Some bs" "bs \<noteq> 0" and size0: "unat (get_size i) = k * unat bs" "0 < k"
    and n: "unat bs < unat n" "k + ceil (unat n - unat bs) (unat bs) \<le> 11" "k * unat bs + unat n < 2 ^ 32"
    and grown: "grow_by e n (i, fs) = Some (Some (), i', fs')"
  shows "unat (get_size i') = k * unat bs + unat n
    \<and> ceil (unat (get_size i')) (unat bs) = k + ceil (unat n - unat bs) (unat bs) + 1
    \<and> direct_block_pointers i' ! (k + ceil (unat n - unat bs) (unat bs))
      = direct_block_pointers i ! (k + ceil (unat n - unat bs) (unat bs))"
proof -
  let ?b = "unat bs" and ?m = "ceil (unat n - unat bs) (unat bs)" and ?B = "ucast bs :: u64"
  have b: "0 < ?b" using bs(2) by (simp add: unat_gt_0)
  have B: "?B \<noteq> 0" using bs(2) by (rule ucast_u32_nonzero)
  have old: "ceil (unat (get_size i)) ?b = k" using ceil_mult_add [OF b, of k 0] ceil_small(2) size0 by simp
  have k: "k \<le> 11" using n(2) by simp
  have used: "checked_mod (get_size i) ?B = Some 0"
    using B size0(1) by (simp add: checked_mod_def word_unat_eq_iff unat_mod)
  have last0: "get_last_allocated_data_block_number i' fs' = Some (Some (of_nat (k - 1)))"
    if "get_block_size fs' = Some bs" "get_size i' = get_size i" for i' and fs' :: "'a Ext2FS"
  proof -
    have nz: "get_size i \<noteq> 0" using size0 b by (metis mult_is_0 neq0_conv unat_0)
    then have "1 \<le> get_size i" by (simp add: word_le_nat_alt Suc_le_eq unat_gt_0)
    from unat_sub [OF this] have "unat (get_size i - 1) = k * ?b - 1" using size0(1) by simp
    moreover have "(k * ?b - 1) div ?b = k - 1" using b size0(2) by (rule mult_pred_div)
    moreover have "unat (of_nat (k - 1) :: u64) = k - 1" using k by (intro word_of_nat_small) simp
    ultimately have "(get_size i - 1) div ?B = of_nat (k - 1)" by (simp add: word_unat_eq_iff unat_div)
    then show ?thesis
      using that(1) B nz by (simp add: get_last_allocated_data_block_number_def checked_div_def that(2))
  qed
  have k64: "unat (of_nat k :: u64) = k" using k by (intro word_of_nat_small) simp
  have succ: "checked_add (of_nat (k - Suc 0) :: u64) 1 = Some (of_nat k)"
    using u64_nat(7) [of "k - 1" 1] k size0(2) by simp
  have plan: "\<exists>m. blocks_to_add (get_size i) ?B n = Some m \<and> unat m = ?m"
  proof -
    have "\<not> n \<le> ?B" using n(1) by (simp add: word_le_nat_alt)
    moreover have "unat (n - ?B) = unat n - ?b" using n(1) by (simp add: unat_sub word_le_nat_alt)
    ultimately show ?thesis
      using used ceil_div_nat [OF B, of "n - ?B"] by (simp add: blocks_to_add_def not_le ceil_def)
  qed
  then obtain m where m: "blocks_to_add (get_size i) ?B n = Some m" "unat m = ?m" by blast
  have n0: "n \<noteq> 0" using n(1) by auto
  have s1: "grow_data_structure_by e 1 (i, fs) = Some (Some (), i, fs)"
    by (rule grow_structure_small [OF bs]) (simp add: old k)
  from grown obtain i1 fs1 m1 i2 fs2 r i3 fs3 new_size where
    a1: "alloc_data_block e (of_nat k) (i, fs) = Some (Some (), i1, fs1)"
    and m1: "blocks_to_add (get_size i1) ?B n = Some m1"
    and g2: "grow_data_structure_by e m1 (i1, fs1) = Some (Some (), i2, fs2)"
    and r: "get_last_allocated_data_block_number i2 fs2 = Some r"
    and a3: "alloc_loop e (case r of Some k \<Rightarrow> k | None \<Rightarrow> 0) [1 ..< Suc (unat m1)] (i2, fs2) = Some (Some (), i3, fs3)"
    and new_size: "checked_add (get_size i3) n = Some new_size" "i' = set_size new_size i3"
    by (auto simp: grow_by_def n0 bs(1) used s1 last0 [OF bs(1) refl] succ bind_eq_Some_conv Let_def
        elim!: and_then_eq_SomeE simp del: upt_Suc upt.simps)
  have k11: "(of_nat k :: u64) \<le> 11" using k k64 by (simp add: word_le_nat_alt)
  obtain p where i1: "i1 = i\<lparr>direct_block_pointers := (direct_block_pointers i)[k := p]\<rparr>"
    using alloc_direct_block [OF a1 k11] unfolding k64 by blast
  have gs1: "get_size i1 = get_size i" by (simp add: i1 get_size_def)
  have mm: "m1 = m" using m1 m(1) gs1 by simp
  have bs1: "get_block_size fs1 = Some bs"
    using alloc_data_block_log [OF a1 k11] bs(1) by (simp add: get_block_size_def)
  have "grow_data_structure_by e m (i1, fs1) = Some (Some (), i1, fs1)"
    by (rule grow_structure_small [OF bs1 bs(2)]) (use n(2) in \<open>simp add: gs1 old m(2)\<close>)
  with g2 mm have s2: "i2 = i1" "fs2 = fs1" by simp_all
  have r: "r = Some (of_nat (k - 1))" using last0 [OF bs1 gs1] r s2 by simp
  have km: "unat (of_nat (k - 1) :: u64) = k - 1" using k by (intro word_of_nat_small) simp
  have a3: "alloc_loop e (of_nat (k - 1)) [1 ..< Suc ?m] (i1, fs1) = Some (Some (), i3, fs3)"
    using a3 unfolding r mm m(2) s2 option.case .
  have "\<forall>x \<in> set [1 ..< Suc ?m]. unat (of_nat (k - 1) :: u64) + x \<le> 11"
    unfolding km using n(2) size0(2) by auto
  from alloc_direct_blocks [OF a3 this] have loop: "low32_size i3 = low32_size i1"
    "\<forall>j. j \<notin> (\<lambda>x. k - 1 + x) ` set [1 ..< Suc ?m] \<longrightarrow> direct_block_pointers i3 ! j = direct_block_pointers i1 ! j"
    unfolding km by blast+
  have "0 < ?m" using n(1) b unfolding ceil_def by (simp add: div_greater_zero_iff)
  then have idx: "k + ?m \<notin> (\<lambda>x. k - 1 + x) ` set [1 ..< Suc ?m]" "k + ?m \<noteq> k" using size0(2) by auto
  have "direct_block_pointers i' ! (k + ?m) = direct_block_pointers i ! (k + ?m)"
    using loop(2) idx by (simp add: new_size(2) set_size_def i1)
  moreover have "unat (get_size i') = k * ?b + unat n"
  proof -
    have "get_size i3 = get_size i" using loop(1) by (simp add: get_size_def i1)
    then have "unat new_size = k * ?b + unat n" using checked_add_unat [OF new_size(1)] size0(1) by simp
    moreover from this have "unat (ucast new_size :: u32) = unat new_size"
      using n(3) by (simp add: unsigned_ucast_eq take_bit_nat_eq_self)
    moreover have "low32_size i' = ucast new_size" by (simp add: new_size(2) set_size_def)
    then have "unat (get_size i') = unat (ucast new_size :: u32)" by (simp only: get_size_def unat_ucast_u32)
    ultimately show ?thesis by simp
  qed
  moreover have "ceil (k * ?b + unat n) ?b = k + ?m + 1"
  proof -
    have e: "k * ?b + unat n = (k + 1) * ?b + (unat n - ?b)" using n(1) by simp
    show ?thesis unfolding e ceil_mult_add [OF b] by simp
  qed
  ultimately show ?thesis by simp
qed

section \<open>A file that grows by two blocks\<close>

text \<open>Eleven blocks of 1024 bytes; blocks 3 to 6 are in use, block 6 is the only block of the file.\<close>

definition grow_descriptor :: Ext2BlockGroupDescriptor where
  "grow_descriptor = demo_descriptor\<lparr>unallocated_blocks_in_group := 4\<rparr>"

definition grow_fs :: "u8 list Ext2FS" where
  "grow_fs = \<lparr> backing_device = replicate 2048 0 @ pack_descriptor le_codec grow_descriptor @ replicate 1006 0
       @ [15] @ replicate 1023 0 @ replicate 7168 0,
     sb = demo_sb\<lparr>unallocated_blocks := 4\<rparr>, extended_sb = None, read_only = False \<rparr>"

definition grow_inode :: Ext2RawInode where
  "grow_inode = set_size 1024 (default_inode\<lparr>direct_block_pointers := [6, 0] @ replicate 10 0\<rparr>)"

abbreviation ram_valid :: "u8 list \<Rightarrow> bool" where
  "ram_valid \<equiv> \<lambda>d. length d < 2 ^ 64"

lemma grow_geometry:
  "block_bytes grow_fs = 1024" "get_number_of_block_groups grow_fs = Some 1" "group_count grow_fs = 1"
  "special_blocks grow_fs = 3" "length (disk id grow_fs) = 11264"
  by (simp_all add: block_bytes_def grow_fs_def demo_sb_def get_number_of_block_groups_def ceil_div_def
      checked_div_def checked_mod_def checked_add_def group_count_def special_blocks_def disk_def le_codec.length_pack)

lemma grow_mounted: "mounted id ram_valid grow_fs"
  using grow_geometry by (simp add: mounted_def disk_def) (simp add: grow_fs_def demo_sb_def)

lemma grow_bitmap: "block_at id grow_fs 3 = [15] @ replicate 1023 0"
  by (simp add: block_at_def grow_geometry sect_def) (simp add: disk_def grow_fs_def le_codec.length_pack)

lemma grow_descr: "descr ram_env id grow_fs 0 = Some grow_descriptor"
proof -
  have "sect (disk id grow_fs) 2048 18 = pack_descriptor le_codec grow_descriptor"
    by (simp add: disk_def grow_fs_def sect_def le_codec.length_pack)
  then show ?thesis by (simp add: descr_def ram_env_def le_codec.descriptor_round_trip)
qed

text \<open>A state of this file system with the first \<open>n\<close> bits of the bitmap set.\<close>

definition bits_used :: "nat \<Rightarrow> u8 list Ext2FS \<Rightarrow> bool" where
  "bits_used n fs \<longleftrightarrow> mounted id ram_valid fs \<and> block_bytes fs = 1024 \<and> group_count fs = 1 \<and> special_blocks fs = 3
     \<and> length (disk id fs) = 11264
     \<and> sb fs = demo_sb\<lparr>unallocated_blocks := of_nat (8 - n)\<rparr>
     \<and> descr ram_env id fs 0 = Some (demo_descriptor\<lparr>unallocated_blocks_in_group := of_nat (8 - n)\<rparr>)
     \<and> (\<forall>j < 8192. bit_at (block_at id fs 3) j \<longleftrightarrow> j < n)"

lemma length_bitmap_block: "bits_used n fs \<Longrightarrow> length (block_at id fs 3) = 1024"
  by (simp add: bits_used_def block_at_def)

lemma bits_used_grow_fs: "bits_used 4 grow_fs"
proof -
  have "bit_at (block_at id grow_fs 3) j \<longleftrightarrow> j < 4" if "j < 8192" for j
  proof (cases "j < 8")
    case True
    then have "j \<in> set [0 ..< 8]" by simp
    then show ?thesis by (auto simp: grow_bitmap bit_at_def upt_rec bit_numeral_rec)
  next
    case False
    then have "0 < j div 8" "j div 8 < 1024" using that by (simp_all add: div_greater_zero_iff less_mult_imp_div_less)
    then show ?thesis using False by (simp add: grow_bitmap bit_at_def nth_Cons')
  qed
  then show ?thesis
    using grow_mounted grow_geometry grow_descr
    by (simp add: bits_used_def grow_descriptor_def) (simp add: grow_fs_def)
qed

lemma demo_bitmap_number [simp]: "unat (block_addr_for_block_usage_bitmap demo_descriptor) = 3"
  by (simp add: demo_descriptor_def)

lemma block_number_bits: "bits_used n fs \<Longrightarrow> block_number fs 0 k = k + 3"
  by (simp add: block_number_def bits_used_def)

lemma bits_used_block_index:
  assumes "bits_used n fs" "unat p = k + 3" "k < 8"
  shows "get_descriptor_index_of_block_number fs p = Some (Some 0)"
proof -
  have m: "mounted id ram_valid fs" using assms(1) by (simp add: bits_used_def)
  show ?thesis
    by (rule block_number_inverse(1) [OF m, of p 0 k])
      (use assms block_number_bits [OF assms(1)] in \<open>simp_all add: bits_used_def demo_sb_def\<close>)
qed

lemma bits_used_alloc:
  assumes "bits_used n fs" "1 \<le> n" "n < 8"
  shows "\<exists>fs'. alloc_block_close_to ram_env 0 fs = Some (Some (of_nat (n + 3)), fs') \<and> bits_used (n + 1) fs'"
proof -
  let ?d = "demo_descriptor\<lparr>unallocated_blocks_in_group := of_nat (8 - n)\<rparr>"
  have fs: "mounted id ram_valid fs" "block_bytes fs = 1024" "group_count fs = 1" "special_blocks fs = 3"
    "length (disk id fs) = 11264" "sb fs = demo_sb\<lparr>unallocated_blocks := of_nat (8 - n)\<rparr>"
    "descr ram_env id fs 0 = Some ?d" "\<And>j. j < 8192 \<Longrightarrow> bit_at (block_at id fs 3) j \<longleftrightarrow> j < n"
    using assms(1) by (simp_all add: bits_used_def)
  note len = length_bitmap_block [OF assms(1)]
  have placed: "bitmap_placed id fs (unat (block_addr_for_block_usage_bitmap ?d))"
    by (simp add: bitmap_placed_def has_block_def fs)
  have n8: "8 - n \<in> set [1 ..< 8]" using assms(2,3) by auto
  have counts: "unallocated_blocks (sb fs) \<noteq> 0" "unallocated_blocks_in_group ?d \<noteq> 0"
    using n8 by (auto simp: fs(6) upt_rec)
  have free: "first_free (block_at id fs (unat (block_addr_for_block_usage_bitmap ?d))) n"
    using assms(3) by (simp add: first_free_def len fs(8))
  have num: "block_number fs 0 n = n + 3" by (rule block_number_bits [OF assms(1)])
  have hb: "has_block id fs (block_number fs (unat (0 :: u32)) n)"
    using assms(3) by (simp add: num has_block_def fs(2,5))
  obtain fs' where a: "alloc_block ram_env 0 fs = Some (Some (of_nat (n + 3)), fs')"
    "allocated_block ram_env id ram_valid fs 0 n fs'"
    using ram_ext2.alloc_block_takes [OF fs(1), of 0 ?d n] placed counts free hb fs(3,7) num assms(2) by auto
  have minus: "(of_nat (8 - n) :: 'b::len word) - 1 = of_nat (8 - (n + 1))"
    using assms(3) by (simp add: of_nat_diff)
  have bits: "bit_at (set_bit_at (block_at id fs 3) n) j \<longleftrightarrow> j < Suc n" if "j < 8192" for j
    using that assms(3) by (auto simp: bit_at_set_bit_at len fs(8))
  have "bits_used (n + 1) fs'"
    using a(2) fs len
    by (auto simp: allocated_block_def bits_used_def Let_def num minus bits block_bytes_def
        special_blocks_def group_count_def get_number_of_block_groups_def simp del: of_nat_diff)
  moreover have "alloc_block_close_to ram_env 0 fs = Some (Some (of_nat (n + 3)), fs')"
    by (subst alloc_block_close_to.simps) (simp add: a(1))
  ultimately show ?thesis by blast
qed

lemma bits_used_dealloc:
  assumes "bits_used n fs" "k < n" "n \<le> 8" "unat p = k + 3"
  shows "\<exists>fs'. dealloc_block ram_env p fs = Some (Some (), fs')"
proof -
  have fs: "mounted id ram_valid fs" "block_bytes fs = 1024" "group_count fs = 1" "special_blocks fs = 3"
    "length (disk id fs) = 11264" "sb fs = demo_sb\<lparr>unallocated_blocks := of_nat (8 - n)\<rparr>"
    "descr ram_env id fs 0 = Some (demo_descriptor\<lparr>unallocated_blocks_in_group := of_nat (8 - n)\<rparr>)"
    "\<And>j. j < 8192 \<Longrightarrow> bit_at (block_at id fs 3) j \<longleftrightarrow> j < n"
    using assms(1) by (simp_all add: bits_used_def)
  have "8 - n \<in> set [0 ..< 8]" using assms(2) by auto
  then have counts: "unallocated_blocks (sb fs) \<noteq> max_no_of_blocks (sb fs)" "unallocated_blocks (sb fs) + 1 \<noteq> 0"
    "unat (of_nat (8 - n) :: u16) \<noteq> unat (blocks_per_block_group (sb fs))" "(of_nat (8 - n) :: u16) + 1 \<noteq> 0"
    by (auto simp: fs(6) demo_sb_def upt_rec)
  have placed: "bitmap_placed id fs 3" by (simp add: bitmap_placed_def has_block_def fs)
  show ?thesis
    using ram_ext2.dealloc_block_frees [OF fs(1), of 0 "demo_descriptor\<lparr>unallocated_blocks_in_group := of_nat (8 - n)\<rparr>" p k]
      fs(2,3,7,8) placed counts assms(2-4) block_number_bits [OF assms(1), of k]
    by (auto simp: fs(6) demo_sb_def)
qed

lemma bits_used_dealloc_0: "bits_used n fs \<Longrightarrow> dealloc_block ram_env 0 fs = Some (None, fs)"
  using special_blocks_mounted [of id ram_valid fs]
  by (simp add: bits_used_def dealloc_block_def get_descriptor_index_of_block_number_def)

lemma bits_used_block_size: "bits_used n fs \<Longrightarrow> get_block_size fs = Some 1024"
  by (simp add: bits_used_def get_block_size_def demo_sb_def checked_add_def)

lemma grow_alloc_data_block:
  assumes "bits_used n fs" "1 \<le> n" "n < 8" and i: "get_size i = 1024" "direct_block_pointers i = [6, q] @ replicate 10 0"
    and freed: "\<And>fs'. bits_used (n + 1) fs' \<Longrightarrow> \<exists>r fs''. dealloc_block ram_env q fs' = Some (r, fs'') \<and> P fs''"
  shows "\<exists>fs''. alloc_data_block ram_env 1 (i, fs)
    = Some (Some (), i\<lparr>direct_block_pointers := [6, of_nat (n + 3)] @ replicate 10 0\<rparr>, fs'') \<and> P fs''"
proof -
  have ix: "get_descriptor_index_of_block_number fs 6 = Some (Some 0)"
    by (rule bits_used_block_index [OF assms(1), of _ 3]) simp_all
  have last: "get_last_allocated_data_block_number i fs = Some (Some 0)"
    by (simp add: get_last_allocated_data_block_number_def i(1) bits_used_block_size [OF assms(1)] checked_div_def)
  have "get_appropriate_descriptor_index ram_env fs i = Some (Some 0)"
    by (simp add: get_appropriate_descriptor_index_def last read_data_block_pointer_def i(2) ix)
  moreover obtain fs' where "alloc_block_close_to ram_env 0 fs = Some (Some (of_nat (n + 3)), fs')" "bits_used (n + 1) fs'"
    using bits_used_alloc [OF assms(1-3)] by blast
  moreover from freed [OF this(2)] obtain r fs'' where "dealloc_block ram_env q fs' = Some (r, fs'')" "P fs''" by blast
  ultimately show ?thesis by (simp add: alloc_data_block_def write_data_block_pointer_def i(2) with_inode_def)
qed

lemma grow_inode_grows: "\<exists>fs'. grow_by ram_env 2048 (grow_inode, grow_fs)
  = Some (Some (), set_size 3072 (grow_inode\<lparr>direct_block_pointers := [6, 8] @ replicate 10 0\<rparr>), fs')"
proof -
  let ?i = "grow_inode\<lparr>direct_block_pointers := [6, 7] @ replicate 10 0\<rparr>"
  have sz: "get_size grow_inode = 1024" "get_size (grow_inode\<lparr>direct_block_pointers := ps\<rparr>) = 1024" for ps
    by (simp_all add: grow_inode_def get_size_def set_size_def)
  have ptrs: "direct_block_pointers grow_inode = [6, 0] @ replicate 10 0" by (simp add: grow_inode_def set_size_def)
  have f0: "\<exists>r fs''. dealloc_block ram_env 0 fs' = Some (r, fs'') \<and> bits_used 5 fs''" if "bits_used (4 + 1) fs'" for fs'
    using bits_used_dealloc_0 [OF that] that by simp
  obtain fs1 where a1: "alloc_data_block ram_env 1 (grow_inode, grow_fs) = Some (Some (), ?i, fs1)" "bits_used 5 fs1"
    using grow_alloc_data_block [OF bits_used_grow_fs _ _ sz(1) ptrs f0] by auto
  have f7: "\<exists>r fs''. dealloc_block ram_env 7 fs' = Some (r, fs'') \<and> True" if "bits_used (5 + 1) fs'" for fs'
    using bits_used_dealloc [OF that, of 4 7] by auto
  obtain fs2 where a2: "alloc_data_block ram_env 1 (?i, fs1)
    = Some (Some (), ?i\<lparr>direct_block_pointers := [6, 8] @ replicate 10 0\<rparr>, fs2)"
    using grow_alloc_data_block [OF a1(2) _ _ sz(2) _ f7] by auto
  note bs = bits_used_block_size [OF bits_used_grow_fs] bits_used_block_size [OF a1(2)]
  show ?thesis
    using a1(1) a2
    by (simp add: grow_by_def bs sz checked_mod_def Let_def grow_data_structure_by_def ceil_div_def checked_div_def
        checked_add_def get_last_allocated_data_block_number_def blocks_to_add_def upt_rec)
qed

theorem grown_file_lacks_last_block_witness:
  "\<exists>i' fs'. grow_by ram_env 2048 (grow_inode, grow_fs) = Some (Some (), i', fs')
    \<and> unat (get_size i') = 3072 \<and> direct_block_pointers i' ! (1 + 1) = 0"
proof -
  obtain i' fs' where g: "grow_by ram_env 2048 (grow_inode, grow_fs) = Some (Some (), i', fs')"
    using grow_inode_grows by blast
  have sz: "unat (get_size grow_inode) = 1 * unat (1024 :: u32)" by (simp add: grow_inode_def get_size_def set_size_def)
  have one: "ceil (unat (2048 :: u64) - unat (1024 :: u32)) (unat (1024 :: u32)) = 1" by (simp add: ceil_def)
  have "direct_block_pointers grow_inode ! (1 + 1) = 0" by (simp add: grow_inode_def set_size_def)
  then show ?thesis
    using g grown_file_lacks_last_block [OF bits_used_block_size [OF bits_used_grow_fs] _ sz _ _ _ _ g]
    unfolding one by simp
qed

end
