(* ===== verification/Utf8.thy ===== *)
theory Utf8
  imports Prelude
begin

text \<open>
  Strings. A Rust \<^verbatim>\<open>str\<close> is the list of its bytes; \<open>from_utf8\<close> is the conversion from bytes that the
  kernel uses for names on a disk and for strings of a program, and \<open>text_of\<close> the HOL string of a name.
\<close>

text \<open>The check of \<^verbatim>\<open>core::str::from_utf8\<close>: the well-formed byte sequences of the Unicode standard.\<close>

definition continuation :: "u8 \<Rightarrow> bool" where
  "continuation b \<longleftrightarrow> 0x80 \<le> b \<and> b \<le> 0xBF"

fun valid_utf8 :: "u8 list \<Rightarrow> bool" where
  "valid_utf8 [] = True"
| "valid_utf8 (a # bs) =
     (if a < 0x80 then valid_utf8 bs
      else (case bs of
          [] \<Rightarrow> False
        | b # bs \<Rightarrow>
            if 0xC2 \<le> a \<and> a \<le> 0xDF then continuation b \<and> valid_utf8 bs
            else (case bs of
                [] \<Rightarrow> False
              | c # bs \<Rightarrow>
                  if 0xE0 \<le> a \<and> a \<le> 0xEF
                  then continuation b \<and> (a = 0xE0 \<longrightarrow> 0xA0 \<le> b) \<and> (a = 0xED \<longrightarrow> b \<le> 0x9F)
                    \<and> continuation c \<and> valid_utf8 bs
                  else (case bs of
                      [] \<Rightarrow> False
                    | d # bs \<Rightarrow>
                        0xF0 \<le> a \<and> a \<le> 0xF4 \<and> continuation b \<and> (a = 0xF0 \<longrightarrow> 0x90 \<le> b) \<and> (a = 0xF4 \<longrightarrow> b \<le> 0x8F)
                          \<and> continuation c \<and> continuation d \<and> valid_utf8 bs))))"

definition from_utf8 :: "u8 list \<Rightarrow> u8 list option" where
  "from_utf8 bytes = (if valid_utf8 bytes then Some bytes else None)"

text \<open>\<^verbatim>\<open>chars\<close> of a string: the scalar values of its sequences.\<close>

fun chars :: "u8 list \<Rightarrow> u32 list" where
  "chars [] = []"
| "chars (a # bs) =
     (if a < 0x80 then ucast a # chars bs
      else (case bs of
          [] \<Rightarrow> []
        | b # bs \<Rightarrow>
            if a \<le> 0xDF then (push_bit 6 (ucast (a AND 0x1F)) OR ucast (b AND 0x3F)) # chars bs
            else (case bs of
                [] \<Rightarrow> []
              | c # bs \<Rightarrow>
                  if a \<le> 0xEF
                  then (push_bit 12 (ucast (a AND 0x0F)) OR push_bit 6 (ucast (b AND 0x3F)) OR ucast (c AND 0x3F)) # chars bs
                  else (case bs of
                      [] \<Rightarrow> []
                    | d # bs \<Rightarrow>
                        (push_bit 18 (ucast (a AND 0x07)) OR push_bit 12 (ucast (b AND 0x3F))
                          OR push_bit 6 (ucast (c AND 0x3F)) OR ucast (d AND 0x3F)) # chars bs))))"

lemma length_chars: "length (chars s) \<le> length s"
proof (induction s rule: chars.induct)
  case (2 a bs)
  show ?case
  proof (cases "a < 0x80 \<or> bs = []")
    case True
    then show ?thesis using 2(1) by (cases "a < 0x80") simp_all
  next
    case f: False
    then obtain b bs1 where b: "bs = b # bs1" by (cases bs) simp_all
    show ?thesis
    proof (cases "a \<le> 0xDF \<or> bs1 = []")
      case True
      then show ?thesis using 2(2) [OF _ b] f b by (cases "a \<le> 0xDF") (simp_all add: le_SucI)
    next
      case g: False
      then obtain c bs2 where c: "bs1 = c # bs2" by (cases bs1) simp_all
      show ?thesis
      proof (cases "a \<le> 0xEF \<or> bs2 = []")
        case True
        then show ?thesis using 2(3) [OF _ b _ c] f g b c by (cases "a \<le> 0xEF") (simp_all add: le_SucI)
      next
        case h: False
        then obtain d bs3 where d: "bs2 = d # bs3" by (cases bs2) simp_all
        then show ?thesis using 2(4) [OF _ b _ c _ d] f g h b c by (simp add: le_SucI)
      qed
    qed
  qed
qed simp

definition ascii :: "u8 list \<Rightarrow> bool" where
  "ascii s \<longleftrightarrow> (\<forall>b \<in> set s. b < 0x80)"

lemma chars_ascii: "ascii s \<Longrightarrow> chars s = map ucast s"
  by (induction s) (auto simp: ascii_def)

lemma valid_utf8_ascii: "ascii s \<Longrightarrow> valid_utf8 s"
  by (induction s) (auto simp: ascii_def)

definition text_of :: "u8 list \<Rightarrow> string" where
  "text_of bytes = map (\<lambda>b. char_of (unat b)) bytes"

end
