(* ===== verification/Ext2_Dir.thy ===== *)
theory Ext2_Dir
  imports Ext2_Resize Utf8
begin

text \<open>
  Directories of an ext2 file system (\<^verbatim>\<open>Ext2Folder\<close> in \<^verbatim>\<open>src/kernel/src/ext2.rs\<close>): the chain of
  entries in the bytes of a directory, listing, unlinking and creating children.

  A \<^verbatim>\<open>String\<close> is the list of its bytes. A folder is the pair of its inode and the address of the
  inode, as in theory \<open>Ext2_Inode\<close>.
\<close>

section \<open>Entries\<close>

type_synonym entry = "nat \<times> Ext2DirectoryEntryHeader \<times> u8 list"

definition byte_range :: "'a list \<Rightarrow> nat \<Rightarrow> nat \<Rightarrow> 'a list option" where
  "byte_range xs a b = (if a \<le> b \<and> b \<le> length xs then Some (take (b - a) (drop a xs)) else None)"

text \<open>The loop of \<^verbatim>\<open>get_entries\<close>. An entry that is smaller than its header panics, so the loop ends.\<close>

function entries_from :: "codec \<Rightarrow> u8 list \<Rightarrow> nat \<Rightarrow> entry list option" where
  "entries_from c raw cur_ind =
     (if cur_ind < length raw then
        Option.bind (Option.bind (byte_range raw cur_ind (cur_ind + 8)) (unpack_entry c)) (\<lambda>entry.
          if inode_addr entry = 0 then
            if entry_size entry < 8 then None
            else entries_from c raw (cur_ind + unat (entry_size entry))
          else
            Option.bind (Option.bind
                (byte_range raw (cur_ind + 8) (cur_ind + 8 + unat (name_length_low8 entry))) from_utf8) (\<lambda>name.
              if entry_size entry < 8 then None
              else map_option (\<lambda>res. (cur_ind, entry, name) # res)
                (entries_from c raw (cur_ind + unat (entry_size entry)))))
      else Some [])"
  by pat_completeness auto
termination
  by (relation "measure (\<lambda>(_, raw, cur_ind). length raw - cur_ind)") (auto simp: not_less word_le_nat_alt)

declare entries_from.simps [simp del]

definition get_entries :: "'d Ext2Env \<Rightarrow> 'd Ext2FS \<Rightarrow> Ext2RawInode \<Rightarrow> entry list option" where
  "get_entries e fs i = do {
     r \<leftarrow> read_bytes e fs i 0 (get_size i);
     (case r of None \<Rightarrow> Some [] | Some raw_data \<Rightarrow> entries_from (env_codec e) raw_data 0) }"

fun store_bytes :: "u8 list \<Rightarrow> nat \<Rightarrow> u8 list \<Rightarrow> u8 list option" where
  "store_bytes raw_data indx [] = Some raw_data"
| "store_bytes raw_data indx (byte # bytes) =
     (if indx < length raw_data then store_bytes (raw_data[indx := byte]) (indx + 1) bytes else None)"

definition write_entry_header_to_buffer :: "codec \<Rightarrow> u8 list \<Rightarrow> entry \<Rightarrow> u8 list option" where
  "write_entry_header_to_buffer c raw_data entry = (case entry of (start, header, _) \<Rightarrow>
     store_bytes raw_data start (pack_entry c header))"

definition write_entry_string_to_buffer :: "u8 list \<Rightarrow> entry \<Rightarrow> u8 list option" where
  "write_entry_string_to_buffer raw_data entry = (case entry of (start, _, name) \<Rightarrow>
     store_bytes raw_data (start + 8) name)"

section \<open>Listing a folder\<close>

definition child_node ::
  "'d Ext2Env \<Rightarrow> 'd Ext2FS \<Rightarrow> entry \<Rightarrow> (string \<times> (ext2_node, ext2_node) Node) option" where
  "child_node e fs entry = (case entry of (_, header, name) \<Rightarrow> do {
     r \<leftarrow> read_inode e fs (inode_addr header);
     child_inode \<leftarrow> r;
     node \<leftarrow> as_vfs_node child_inode (inode_addr header);
     Some (text_of name, node) })"

definition ext2folder_get_children ::
  "'d Ext2Env \<Rightarrow> 'd Ext2FS \<Rightarrow> ext2_node \<Rightarrow> (ext2_node, ext2_node) listing option" where
  "ext2folder_get_children e fs f = do {
     entries \<leftarrow> get_entries e fs (fst f);
     those (map (child_node e fs) entries) }"

section \<open>Unlinking a child\<close>

fun find_child :: "u8 list \<Rightarrow> entry list \<Rightarrow> entry option \<Rightarrow> entry option \<times> entry option" where
  "find_child child_name [] prev = (None, prev)"
| "find_child child_name ((start, header, name) # entries) prev =
     (if name = child_name then (Some (start, header, name), prev)
      else find_child child_name entries (Some (start, header, name)))"

definition unlink_inode :: "'d Ext2Env \<Rightarrow> u32 \<Rightarrow> 'd Ext2FS \<Rightarrow> (unit, 'd Ext2FS) outcome" where
  "unlink_inode e addr fs = do {
     r \<leftarrow> read_inode e fs addr;
     child_inode \<leftarrow> r;
     let links = hard_links_to_inode child_inode;
     if links \<ge> 1 then do {
       let unlinked = child_inode\<lparr>hard_links_to_inode := links - 1\<rparr>;
       if links - 1 = 0 then
         if get_size child_inode \<noteq> 0 then Some (None, fs)
         else and_then (dealloc_inode e addr fs) (\<lambda>_ fs. write_inode e addr unlinked fs)
       else write_inode e addr unlinked fs }
     else write_inode e addr child_inode fs }"

definition unlink_or_delete_empty_child ::
  "'d Ext2Env \<Rightarrow> ext2_node \<Rightarrow> u8 list \<Rightarrow> 'd Ext2FS \<Rightarrow> (unit, 'd Ext2FS) outcome" where
  "unlink_or_delete_empty_child e f child_name fs = (case f of (i, _) \<Rightarrow> do {
     entries \<leftarrow> get_entries e fs i;
     (case find_child child_name entries None of
        (Some (_, child, _), Some (start, prev, name)) \<Rightarrow>
          and_then (unlink_inode e (inode_addr child) fs) (\<lambda>_ fs. do {
            merged \<leftarrow> checked_add (entry_size prev) (entry_size child);
            ask_in fs (read_bytes e fs i 0 (get_size i)) (\<lambda>raw_data. do {
              raw_data \<leftarrow> write_entry_header_to_buffer (env_codec e) raw_data (start, prev\<lparr>entry_size := merged\<rparr>, name);
              assert_that (unat (get_size i) = length raw_data);
              and_then (write_bytes e i 0 raw_data fs) (\<lambda>n fs.
                if n \<noteq> length raw_data then Some (None, fs) else Some (Some (), fs)) }) })
      | _ \<Rightarrow> Some (None, fs)) })"

section \<open>Creating a child\<close>

datatype NodeType = FileType | FolderType

definition new_inode :: "NodeType \<Rightarrow> Ext2RawInode" where
  "new_inode typ = default_inode\<lparr>
     type_and_perm := (case typ of FileType \<Rightarrow> 0x8000 OR 0x1FF | FolderType \<Rightarrow> 0x4000 OR 0x1FF),
     hard_links_to_inode := 1\<rparr>"

definition new_entry_header :: "'d Ext2FS \<Rightarrow> u32 \<Rightarrow> u8 list \<Rightarrow> NodeType \<Rightarrow> Ext2DirectoryEntryHeader option" where
  "new_entry_header fs addr name typ = do {
     let type_code = (case extended_sb fs of
         Some esb \<Rightarrow>
           if has_required_feature_directory_entry_type_field esb
           then (case typ of FileType \<Rightarrow> 1 | FolderType \<Rightarrow> 2) else 0
       | None \<Rightarrow> 0);
     n \<leftarrow> checked_add (of_nat (length name)) 8;
     Some \<lparr> inode_addr = addr, entry_size = n, name_length_low8 = of_nat (length name), entry_type = type_code \<rparr> }"

definition actual_space_used :: "Ext2DirectoryEntryHeader \<Rightarrow> nat" where
  "actual_space_used h =
     (let n = 8 + unat (name_length_low8 h) in if n mod 4 \<noteq> 0 then n + (4 - n mod 4) else n)"

text \<open>Shrinks the last entry when the new one fits behind it; the first byte of the new entry.\<close>

definition place_new_entry ::
  "codec \<Rightarrow> u8 list \<Rightarrow> entry \<Rightarrow> Ext2DirectoryEntryHeader \<Rightarrow> (nat \<times> u8 list) option" where
  "place_new_entry c raw_data last_entry new_entry = (case last_entry of (start, header, name) \<Rightarrow> do {
     let used = actual_space_used header;
     assert_that (used \<le> unat (entry_size header));
     if unat (entry_size header) - used \<ge> unat (entry_size new_entry) then do {
       let header = header\<lparr>entry_size := of_nat used\<rparr>;
       raw_data \<leftarrow> write_entry_header_to_buffer c raw_data (start, header, name);
       Some (start + unat (entry_size header), raw_data) }
     else Some (start + unat (entry_size header), raw_data) })"

definition grown_to_block_end :: "u32 \<Rightarrow> nat \<Rightarrow> Ext2DirectoryEntryHeader \<Rightarrow> Ext2DirectoryEntryHeader option" where
  "grown_to_block_end bs first_byte header = do {
     let end_in_block = (first_byte + unat (entry_size header)) mod unat bs;
     n \<leftarrow> checked_add (entry_size header) (of_nat (unat bs - end_in_block));
     Some (header\<lparr>entry_size := n\<rparr>) }"

definition create_empty_child ::
  "'d Ext2Env \<Rightarrow> u32 \<Rightarrow> u8 list \<Rightarrow> NodeType \<Rightarrow> 'd inode_fs \<Rightarrow> ((ext2_node, ext2_node) Node, 'd inode_fs) outcome" where
  "create_empty_child e addr name typ s = (case s of (i, fs) \<Rightarrow> do {
     entries \<leftarrow> get_entries e fs i;
     if entries = [] then Some (None, s)
     else do {
       let last_entry = last entries;
       gi \<leftarrow> get_descriptor_index_of_inode_addr fs (inode_addr (fst (snd last_entry)));
       and_then (with_inode i (alloc_inode_close_to e gi fs)) (\<lambda>new_addr (i, fs).
       and_then (with_inode i (write_inode e new_addr (new_inode typ) fs)) (\<lambda>_ (i, fs).
       ask_in (i, fs) (read_bytes e fs i 0 (get_size i)) (\<lambda>raw_data. do {
         header \<leftarrow> new_entry_header fs new_addr name typ;
         (first_byte, raw_data) \<leftarrow> place_new_entry (env_codec e) raw_data last_entry header;
         bs \<leftarrow> get_block_size fs;
         header \<leftarrow> grown_to_block_end bs first_byte header;
         let new_size = first_byte + unat (entry_size header);
         let raw_data = take new_size raw_data @ replicate (new_size - length raw_data) 0;
         and_then (resize_inode e (of_nat new_size) (i, fs)) (\<lambda>_ (i, fs).
         and_then (with_inode i (write_inode e addr i fs)) (\<lambda>_ (i, fs). do {
           raw_data \<leftarrow> write_entry_header_to_buffer (env_codec e) raw_data (first_byte, header, name);
           raw_data \<leftarrow> write_entry_string_to_buffer raw_data (first_byte, header, name);
           assert_that (unat (get_size i) = length raw_data);
           and_then (with_inode i (write_bytes e i 0 raw_data fs)) (\<lambda>_ (i, fs). do {
             node \<leftarrow> as_vfs_node (new_inode typ) new_addr;
             Some (Some node, i, fs) }) })) }))) } })"

section \<open>The layout of a directory\<close>

text \<open>
  A directory is a chain of slots: the header of an entry, its name, and space up to the size in the
  header. A slot whose inode address is 0 is not in use.
\<close>

type_synonym slot = "Ext2DirectoryEntryHeader \<times> u8 list \<times> u8 list"

definition slot_bytes :: "codec \<Rightarrow> slot \<Rightarrow> u8 list" where
  "slot_bytes c s = (case s of (h, name, space) \<Rightarrow> pack_entry c h @ name @ space)"

definition dir_bytes :: "codec \<Rightarrow> slot list \<Rightarrow> u8 list" where
  "dir_bytes c ss = concat (map (slot_bytes c) ss)"

definition slot_ok :: "slot \<Rightarrow> bool" where
  "slot_ok s = (case s of (h, name, space) \<Rightarrow> unat (entry_size h) = 8 + length name + length space
     \<and> (inode_addr h \<noteq> 0 \<longrightarrow> valid_utf8 name \<and> length name = unat (name_length_low8 h)))"

fun live :: "nat \<Rightarrow> slot list \<Rightarrow> entry list" where
  "live start [] = []"
| "live start ((h, name, space) # ss) =
     (if inode_addr h = 0 then [] else [(start, h, name)]) @ live (start + unat (entry_size h)) ss"

definition names :: "entry list \<Rightarrow> u8 list list" where
  "names es = map (\<lambda>(_, _, name). name) es"

lemma names_simps [simp]: "names [] = []" "names ((start, h, name) # es) = name # names es"
  "names (es @ fs) = names es @ names fs"
  by (simp_all add: names_def)

lemma store_bytes_replace_at:
  "indx + length bytes \<le> length raw \<Longrightarrow> store_bytes raw indx bytes = Some (replace_at raw indx bytes)"
proof (induction bytes arbitrary: raw indx)
  case (Cons b bs)
  then have "replace_at (raw[indx := b]) (indx + 1) bs = replace_at raw indx (b # bs)"
    by (simp add: replace_at_def take_Suc_conv_app_nth)
  with Cons show ?case by simp
qed (simp add: replace_at_def)

lemma byte_range_middle: "byte_range (xs @ ys @ zs) (length xs) (length xs + length ys) = Some ys"
  by (simp add: byte_range_def)

context lsb_codec
begin

lemma length_pack_entry [simp]: "length (pack_entry c h) = 8"
  by (simp add: length_pack)

lemma length_slot_bytes: "slot_ok s \<Longrightarrow> length (slot_bytes c s) = unat (entry_size (fst s))"
  by (auto simp: slot_ok_def slot_bytes_def)

lemma entries_from_slots:
  assumes "list_all slot_ok ss"
  shows "entries_from c (pre @ dir_bytes c ss) (length pre) = Some (live (length pre) ss)"
  using assms
proof (induction ss arbitrary: pre)
  case Nil
  then show ?case by (subst entries_from.simps) (simp add: dir_bytes_def)
next
  case (Cons s ss)
  obtain h name space where s: "s = (h, name, space)" by (cases s) auto
  let ?raw = "pre @ dir_bytes c (s # ss)"
  have raw: "?raw = pre @ pack_entry c h @ (name @ space @ dir_bytes c ss)"
    "?raw = (pre @ pack_entry c h) @ name @ (space @ dir_bytes c ss)"
    by (simp_all add: dir_bytes_def slot_bytes_def s)
  have ok: "slot_ok (h, name, space)" using Cons.prems s by simp
  have step: "length pre + unat (entry_size h) = length (pre @ slot_bytes c s)"
    using length_slot_bytes [OF ok] s by simp
  have next_slot: "entries_from c ?raw (length pre + unat (entry_size h)) = Some (live (length pre + unat (entry_size h)) ss)"
    unfolding step using Cons.IH [of "pre @ slot_bytes c s"] Cons.prems by (simp add: dir_bytes_def)
  have header: "byte_range ?raw (length pre) (length pre + 8) = Some (pack_entry c h)"
    unfolding raw(1) using byte_range_middle [of pre "pack_entry c h"] by simp
  have size0: "\<not> entry_size h < 8" using ok by (simp add: slot_ok_def word_less_nat_alt)
  have inside: "length pre < length ?raw" unfolding raw(1) by simp
  show ?case
  proof (cases "inode_addr h = 0")
    case True
    then show ?thesis using next_slot header size0 inside
      by (subst entries_from.simps) (simp add: entry_round_trip s)
  next
    case False
    then have n: "valid_utf8 name" "unat (name_length_low8 h) = length name" using ok by (simp_all add: slot_ok_def)
    have "byte_range ?raw (length pre + 8) (length pre + 8 + length name) = Some name"
      unfolding raw(2) using byte_range_middle [of "pre @ pack_entry c h" name] by simp
    then show ?thesis using next_slot header size0 inside n False
      by (subst entries_from.simps) (simp add: entry_round_trip from_utf8_def s)
  qed
qed

lemma header_rewritten:
  assumes "slot_ok (h, name, space)"
  shows "write_entry_header_to_buffer c (dir_bytes c (pre @ (h, name, space) # post)) (length (dir_bytes c pre), h', name)
    = Some (dir_bytes c (pre @ (h', name, space) # post))"
proof -
  let ?rest = "name @ space @ dir_bytes c post"
  have split: "dir_bytes c (pre @ (k, name, space) # post) = dir_bytes c pre @ pack_entry c k @ ?rest" for k
    by (simp add: dir_bytes_def slot_bytes_def)
  have "replace_at (dir_bytes c pre @ pack_entry c h @ ?rest) (length (dir_bytes c pre)) (pack_entry c h')
    = dir_bytes c pre @ pack_entry c h' @ ?rest"
    by (simp add: replace_at_def)
  then show ?thesis
    unfolding write_entry_header_to_buffer_def split by (simp add: store_bytes_replace_at)
qed

end

lemma live_append: "live start (xs @ ys) = live start xs @ live (start + sum_list (map (\<lambda>s. unat (entry_size (fst s))) xs)) ys"
  by (induction xs arbitrary: start) (auto simp: add.assoc)

context lsb_codec
begin

lemma length_dir_bytes:
  "list_all slot_ok ss \<Longrightarrow> length (dir_bytes c ss) = sum_list (map (\<lambda>s. unat (entry_size (fst s))) ss)"
  by (induction ss) (auto simp: dir_bytes_def length_slot_bytes)

end

lemma find_child_append:
  "child_name \<notin> set (names es) \<Longrightarrow> find_child child_name (es @ gs) prev
     = find_child child_name gs (if es = [] then prev else Some (last es))"
  by (induction es arbitrary: prev) (auto simp: names_def)

section \<open>What a change elsewhere keeps of a file\<close>

definition file_blocks_at :: "('d \<Rightarrow> u8 list) \<Rightarrow> 'd Ext2FS \<Rightarrow> Ext2RawInode \<Rightarrow> u32 set" where
  "file_blocks_at contents fs i = (\<Union>k < blocks_in fs (unat (get_size i)).
     insert (file_pointers contents fs i ! k) (set (file_path contents fs i k)))"

lemma file_state_frame:
  assumes f: "file_state contents valid fs i" and m: "mounted contents valid fs'"
    and B: "block_bytes fs' = block_bytes fs" "length (disk contents fs') = length (disk contents fs)"
    and same: "\<forall>q \<in> file_blocks_at contents fs i. block_at contents fs' (unat q) = block_at contents fs (unat q)"
  shows "file_state contents valid fs' i" "file_contents contents fs' i = file_contents contents fs i"
proof -
  let ?nb = "blocks_in fs (unat (get_size i))" and ?p = "\<lambda>j. file_pointers contents fs i ! j"
  have ok: "file_ok contents fs i" and sep: "data_separate contents fs i" using f by (simp_all add: file_state_def)
  have nb: "blocks_in fs' n = blocks_in fs n" "max_data_blocks fs' = max_data_blocks fs" for n
    by (simp_all add: blocks_in_def max_data_blocks_def per_block_def B)
  have frame: "file_pointers contents fs' i ! j = ?p j" "file_path contents fs' i j = file_path contents fs i j"
    if "j < ?nb" for j
  proof -
    have "\<forall>q \<in> set (file_path contents fs i j). block_at contents fs' (unat q) = block_at contents fs (unat q)"
      using same that by (auto simp: file_blocks_at_def)
    moreover have "j < max_data_blocks fs" "length (direct_block_pointers i) = 12" using ok that by (auto simp: file_ok_def)
    ultimately show "file_pointers contents fs' i ! j = ?p j" "file_path contents fs' i j = file_path contents fs i j"
      using file_pointers_frame [OF B(1)] by blast+
  qed
  have "file_ok contents fs' i" using ok frame by (auto simp: file_ok_def nb has_block_cong [OF B])
  moreover have "data_separate contents fs' i" using sep frame by (simp add: data_separate_def nb)
  ultimately show "file_state contents valid fs' i" using m by (simp add: file_state_def)
  have "data_block contents fs' i j = data_block contents fs i j" if "j < ?nb" for j
    using same that frame [OF that] by (auto simp: data_block_def file_blocks_at_def)
  then have "map (data_block contents fs' i) [0 ..< ?nb] = map (data_block contents fs i) [0 ..< ?nb]" by simp
  then show "file_contents contents fs' i = file_contents contents fs i"
    unfolding file_contents_def file_blocks_def nb by (simp only:)
qed

context ext2_env
begin

lemma length_file_contents:
  assumes "mounted contents valid fs" "file_ok contents fs i"
  shows "length (file_contents contents fs i) = unat (get_size i)"
proof -
  have "unat (get_size i) \<le> length (file_blocks contents fs i)"
    by (rule length_file_blocks_ge) (rule read_data_block_ok(2) [OF assms])
  then show ?thesis by (simp add: file_contents_def)
qed

lemma read_whole_file:
  assumes m: "mounted contents valid fs" "file_ok contents fs i" and size0: "0 < unat (get_size i)"
  shows "read_bytes e fs i 0 (get_size i) = Some (Some (file_contents contents fs i))"
proof -
  have "blocks_in fs (unat (get_size i)) * block_bytes fs \<le> max 1 (blocks_in fs (unat (get_size i))) * block_bytes fs" by simp
  with blocks_in_bounds(1) [of "unat (get_size i)" fs]
  have "unat (get_size i) \<le> max 1 (blocks_in fs (unat (get_size i))) * block_bytes fs" by (rule le_trans)
  then show ?thesis
    using read_bytes_ok [OF m, of 0 "get_size i"] size0 length_file_contents [OF m] by (simp add: min.absorb1)
qed

lemma rewrite_whole_file:
  assumes fs: "file_state contents valid fs i" and data: "length data = unat (get_size i)" "0 < unat (get_size i)"
    and isz: "get_ondisk_inode_size fs = Some isz" "unat isz dvd block_bytes fs"
  shows "\<exists>fs'. write_bytes e i 0 data fs = Some (Some (length data), fs') \<and> file_state contents valid fs' i
    \<and> file_contents contents fs' i = data"
proof -
  have m: "mounted contents valid fs" "file_ok contents fs i" using fs by (simp_all add: file_state_def)
  have w: "bytes_written fs 0 (length data) = length data"
    using blocks_in_bounds(1) [of "length data" fs] by (simp add: bytes_written_def)
  have len: "length (file_contents contents fs i) = length data"
    using length_file_contents [OF m] data(1) by simp
  show ?thesis
    using write_bytes_ok [OF fs, of 0 data, OF _ _ isz] data(2) w len by (auto simp: data(1) replace_at_def)
qed

end

lemma names_live: "names (live a ss) = names (live b ss)"
proof (induction ss arbitrary: a b)
  case (Cons s ss)
  obtain h name space where "s = (h, name, space)" by (cases s) auto
  then show ?case using Cons [of "a + unat (entry_size h)" "b + unat (entry_size h)"] by simp
qed simp

context ext2_env
begin

lemma get_entries_slots:
  assumes "mounted contents valid fs" "file_ok contents fs i" "0 < unat (get_size i)"
    and "file_contents contents fs i = dir_bytes (env_codec e) ss" "list_all slot_ok ss"
  shows "get_entries e fs i = Some (live 0 ss)"
  using read_whole_file [OF assms(1-3)] entries_from_slots [OF assms(5), of "[]"] assms(4) by (simp add: get_entries_def)

lemma unlink_inode_linked:
  assumes dir: "file_state contents valid fs i" and placed: "inode_placed e contents fs addr d"
    and child: "read_inode e fs addr = Some (Some ci)" "inode_arrays_ok ci" "2 \<le> unat (hard_links_to_inode ci)"
    and apart: "\<forall>q \<in> file_blocks_at contents fs i. unat q * block_bytes fs + block_bytes fs \<le> inode_slot fs d addr
      \<or> inode_slot fs d addr + 128 \<le> unat q * block_bytes fs"
  shows "\<exists>fs'. unlink_inode e addr fs = Some (Some (), fs') \<and> file_state contents valid fs' i
    \<and> file_contents contents fs' i = file_contents contents fs i
    \<and> get_ondisk_inode_size fs' = get_ondisk_inode_size fs \<and> block_bytes fs' = block_bytes fs"
proof -
  let ?u = "ci\<lparr>hard_links_to_inode := hard_links_to_inode ci - 1\<rparr>" and ?pos = "inode_slot fs d addr"
  have m: "mounted contents valid fs" using dir by (simp add: file_state_def)
  have ok: "inode_arrays_ok ?u" using child(2) by (simp add: inode_arrays_ok_def)
  obtain fs' where w: "write_inode e addr ?u fs = Some (Some (), fs')"
    "rewritten contents valid fs (\<lambda>C. replace_at C ?pos (pack_inode (env_codec e) ?u)) fs'"
    using write_inode_placed [OF m placed ok] by blast
  note f = rewritten_disk [OF w(2)]
  have fit: "?pos + length (pack_inode (env_codec e) ?u) \<le> length (disk contents fs)"
    using placed ok by (simp add: inode_placed_def length_pack)
  have o: "same_outside ?pos 128 (disk contents fs) (disk contents fs')"
    unfolding f(1) using same_outside_replace [OF fit] ok by (simp add: length_pack)
  have m': "mounted contents valid fs'" using rewritten_mounted [OF w(2) m] fit by simp
  have len: "length (disk contents fs') = length (disk contents fs)" using o by (simp add: same_outside_def)
  have "\<forall>q \<in> file_blocks_at contents fs i. block_at contents fs' (unat q) = block_at contents fs (unat q)"
    using apart sect_same_outside [OF o] by (simp add: block_at_def f)
  note keep = file_state_frame [OF dir m' f(4) len this]
  have links: "1 \<le> hard_links_to_inode ci" "hard_links_to_inode ci - 1 \<noteq> 0"
    using child(3) by (auto simp: word_le_nat_alt)
  have "unlink_inode e addr fs = Some (Some (), fs')"
    using links w(1) child(1) by (simp add: unlink_inode_def Let_def)
  moreover have "get_ondisk_inode_size fs' = get_ondisk_inode_size fs" by (simp add: get_ondisk_inode_size_def f)
  ultimately show ?thesis using keep f(4) by blast
qed

lemma unlink_removes:
  assumes dir: "file_state contents valid fs i" "0 < unat (get_size i)"
    and ss: "file_contents contents fs i = dir_bytes (env_codec e) (pre @ (hp, np, sp) # (hc, nc, sc) # post)"
    and ok: "list_all slot_ok (pre @ (hp, np, sp) # (hc, nc, sc) # post)"
    and used: "inode_addr hp \<noteq> 0" "inode_addr hc \<noteq> 0" "nc \<notin> set (names (live 0 (pre @ [(hp, np, sp)])))"
    and fits: "unat (entry_size hp) + unat (entry_size hc) < 2 ^ 16"
    and isz: "get_ondisk_inode_size fs = Some isz" "unat isz dvd block_bytes fs"
    and child: "inode_placed e contents fs (inode_addr hc) d" "read_inode e fs (inode_addr hc) = Some (Some ci)"
      "inode_arrays_ok ci" "2 \<le> unat (hard_links_to_inode ci)"
    and apart: "\<forall>q \<in> file_blocks_at contents fs i.
      unat q * block_bytes fs + block_bytes fs \<le> inode_slot fs d (inode_addr hc)
      \<or> inode_slot fs d (inode_addr hc) + 128 \<le> unat q * block_bytes fs"
  shows "\<exists>fs' es. unlink_or_delete_empty_child e (i, addr) nc fs = Some (Some (), fs')
    \<and> get_entries e fs' i = Some es
    \<and> names es = names (live 0 (pre @ [(hp, np, sp)])) @ names (live 0 post)"
proof -
  let ?c = "env_codec e" and ?hp = "hp\<lparr>entry_size := entry_size hp + entry_size hc\<rparr>"
  let ?ss = "pre @ (hp, np, sp) # (hc, nc, sc) # post"
  let ?ss' = "pre @ (?hp, np, sp @ slot_bytes ?c (hc, nc, sc)) # post"
  have m: "mounted contents valid fs" "file_ok contents fs i" using dir(1) by (simp_all add: file_state_def)
  have okp: "list_all slot_ok pre" "slot_ok (hp, np, sp)" "slot_ok (hc, nc, sc)" using ok by simp_all
  have sum: "checked_add (entry_size hp) (entry_size hc) = Some (entry_size hp + entry_size hc)"
    using fits by (simp add: checked_add_nat)
  have size: "unat (entry_size hp + entry_size hc) = unat (entry_size hp) + unat (entry_size hc)"
    using checked_add_unat [OF sum] by simp
  have ok': "list_all slot_ok ?ss'"
    using ok length_slot_bytes [OF okp(3)] by (auto simp: slot_ok_def size)
  have es: "get_entries e fs i = Some (live 0 ?ss)" by (rule get_entries_slots [OF m dir(2) ss ok])
  let ?start = "length (dir_bytes ?c pre)"
  have split: "live 0 ?ss = live 0 (pre @ [(hp, np, sp)])
      @ (?start + unat (entry_size hp), hc, nc) # live (?start + unat (entry_size hp) + unat (entry_size hc)) post"
    "live 0 (pre @ [(hp, np, sp)]) = live 0 pre @ [(?start, hp, np)]"
    using used(1,2) by (simp_all add: live_append length_dir_bytes [OF okp(1)])
  have found: "find_child nc (live 0 ?ss) None = (Some (?start + unat (entry_size hp), hc, nc), Some (?start, hp, np))"
    unfolding split(1) find_child_append [OF used(3)] unfolding split(2) by simp
  obtain fs1 where u: "unlink_inode e (inode_addr hc) fs = Some (Some (), fs1)" "file_state contents valid fs1 i"
    "file_contents contents fs1 i = file_contents contents fs i"
    "get_ondisk_inode_size fs1 = get_ondisk_inode_size fs" "block_bytes fs1 = block_bytes fs"
    using unlink_inode_linked [OF dir(1) child apart] by blast
  have m1: "mounted contents valid fs1" "file_ok contents fs1 i" using u(2) by (simp_all add: file_state_def)
  have raw: "read_bytes e fs1 i 0 (get_size i) = Some (Some (dir_bytes ?c ?ss))"
    using read_whole_file [OF m1 dir(2)] ss u(3) by simp
  have new: "write_entry_header_to_buffer ?c (dir_bytes ?c ?ss) (?start, ?hp, np) = Some (dir_bytes ?c ?ss')"
    using header_rewritten [OF okp(2), of pre "(hc, nc, sc) # post" ?hp] by (simp add: dir_bytes_def slot_bytes_def)
  have len: "length (dir_bytes ?c ?ss') = unat (get_size i)"
    using length_file_contents [OF m] ss by (simp add: dir_bytes_def slot_bytes_def)
  obtain fs' where w: "write_bytes e i 0 (dir_bytes ?c ?ss') fs1 = Some (Some (length (dir_bytes ?c ?ss')), fs')"
    "file_state contents valid fs' i" "file_contents contents fs' i = dir_bytes ?c ?ss'"
    using rewrite_whole_file [OF u(2) len dir(2)] u(4,5) isz by auto
  have "unlink_or_delete_empty_child e (i, addr) nc fs = Some (Some (), fs')"
    using u(1) raw new len w(1) by (simp add: unlink_or_delete_empty_child_def es found sum)
  moreover have "get_entries e fs' i = Some (live 0 ?ss')"
    using w(2,3) by (intro get_entries_slots dir(2) ok') (simp_all add: file_state_def)
  moreover have "names (live 0 ?ss') = names (live 0 (pre @ [(hp, np, sp)])) @ names (live 0 post)"
    using used(1) names_live [of _ post 0] by (simp add: live_append)
  ultimately show ?thesis by blast
qed

end

text \<open>
  Listing reads the chain of entries back: when the bytes of a directory are laid out as a chain of
  slots, \<^verbatim>\<open>get_entries\<close> returns the slots that are in use, in order, with their position, header and name.
\<close>

theorem get_entries_correct:
  assumes "ext2_env e contents valid" "mounted contents valid fs" "file_ok contents fs i" "0 < unat (get_size i)"
    and "file_contents contents fs i = dir_bytes (env_codec e) ss" "list_all slot_ok ss"
  shows "get_entries e fs i = Some (live 0 ss)"
  using assms by (rule ext2_env.get_entries_slots)


section \<open>A directory with three entries\<close>

text \<open>The entries \<^verbatim>\<open>.\<close>, \<^verbatim>\<open>a\<close> and \<^verbatim>\<open>b\<close> in block 6; \<^verbatim>\<open>a\<close> is inode 3, a file with two names.\<close>

definition dir_slots :: "slot list" where
  "dir_slots = [(\<lparr> inode_addr = 2, entry_size = 12, name_length_low8 = 1, entry_type = 2 \<rparr>, [46], [0, 0, 0]),
     (\<lparr> inode_addr = 3, entry_size = 12, name_length_low8 = 1, entry_type = 1 \<rparr>, [97], [0, 0, 0]),
     (\<lparr> inode_addr = 4, entry_size = 1000, name_length_low8 = 1, entry_type = 1 \<rparr>, [98], replicate 991 0)]"

definition dir_child :: Ext2RawInode where
  "dir_child = default_inode\<lparr>hard_links_to_inode := 2, type_and_perm := 0x81FF\<rparr>"

definition dir_fs :: "u8 list Ext2FS" where
  "dir_fs = demo_fs\<lparr> backing_device := replicate 2048 0 @ pack_descriptor le_codec demo_descriptor @ replicate 1006 0
     @ [7] @ replicate 1023 0 @ replicate 1024 0 @ replicate 256 0 @ pack_inode le_codec dir_child @ replicate 640 0
     @ dir_bytes le_codec dir_slots @ replicate 1024 0 \<rparr>"

definition dir_inode :: Ext2RawInode where
  "dir_inode = set_size 1024 (default_inode\<lparr>direct_block_pointers := [6] @ replicate 11 0, type_and_perm := 0x41FF\<rparr>)"

lemma dir_child_ok: "inode_arrays_ok dir_child"
  by (simp add: dir_child_def inode_arrays_ok_def default_inode_def)

lemma dir_lengths: "length (dir_bytes le_codec dir_slots) = 1024" "length (pack_inode le_codec dir_child) = 128"
  using le_codec.length_pack(3) [OF dir_child_ok]
  by (simp_all add: dir_slots_def dir_bytes_def slot_bytes_def le_codec.length_pack)

lemma dir_geometry:
  "block_bytes dir_fs = 1024" "get_number_of_block_groups dir_fs = Some 1" "group_count dir_fs = 1"
  "special_blocks dir_fs = 3" "length (disk id dir_fs) = 8192" "sb dir_fs = demo_sb"
  "get_ondisk_inode_size dir_fs = Some 128"
  by (simp_all add: block_bytes_def dir_fs_def demo_fs_def demo_sb_def get_number_of_block_groups_def ceil_div_def
      checked_div_def checked_mod_def checked_add_def group_count_def special_blocks_def disk_def
      le_codec.length_pack dir_lengths get_ondisk_inode_size_def)

lemma dir_mounted: "mounted id ram_valid dir_fs"
  using dir_geometry by (simp add: mounted_def demo_sb_def disk_def) (simp add: dir_fs_def demo_fs_def)

lemma dir_sections:
  "sect (disk id dir_fs) 2048 18 = pack_descriptor le_codec demo_descriptor"
  "sect (disk id dir_fs) 5376 128 = pack_inode le_codec dir_child"
  "block_at id dir_fs 6 = dir_bytes le_codec dir_slots"
  by (simp_all add: sect_def disk_def dir_fs_def demo_fs_def le_codec.length_pack dir_lengths block_at_def
      block_bytes_def demo_sb_def)

lemma dir_slots_ok: "list_all slot_ok dir_slots"
  by (simp add: dir_slots_def slot_ok_def)

lemma dir_inode_facts:
  "get_size dir_inode = 1024" "blocks_in dir_fs 1024 = 1" "length (direct_block_pointers dir_inode) = 12"
  "file_pointers contents fs dir_inode ! 0 = 6" "file_path contents fs dir_inode 0 = []"
  by (simp_all add: dir_inode_def set_size_def get_size_def blocks_in_def dir_geometry default_inode_def
      file_pointers_def file_path_def)

lemma dir_file_state: "file_state id ram_valid dir_fs dir_inode"
  using dir_mounted
  by (simp add: file_state_def file_ok_def data_separate_def dir_inode_facts has_block_def dir_geometry
      max_data_blocks_def Let_def)

lemma dir_contents: "file_contents id dir_fs dir_inode = dir_bytes le_codec dir_slots"
  by (simp add: file_contents_def file_blocks_def dir_inode_facts data_block_def dir_sections dir_lengths)

lemma dir_child_placed:
  "inode_placed ram_env id dir_fs 3 demo_descriptor" "inode_slot dir_fs demo_descriptor 3 = 5376"
  "read_inode ram_env dir_fs 3 = Some (Some dir_child)"
proof -
  have "descr ram_env id dir_fs 0 = Some demo_descriptor"
    by (simp add: descr_def ram_env_def dir_sections le_codec.descriptor_round_trip)
  moreover show slot: "inode_slot dir_fs demo_descriptor 3 = 5376"
    by (simp add: inode_slot_def dir_geometry demo_sb_def demo_descriptor_def)
  moreover have "inode_group dir_fs 3 = 0" by (simp add: inode_group_def dir_geometry demo_sb_def)
  ultimately show placed: "inode_placed ram_env id dir_fs 3 demo_descriptor"
    by (simp add: inode_placed_def dir_geometry demo_sb_def)
  show "read_inode ram_env dir_fs 3 = Some (Some dir_child)"
    unfolding ram_ext2.read_inode_placed [OF dir_mounted placed]
    using le_codec.inode_round_trip [OF dir_child_ok] by (simp add: slot dir_sections ram_env_def)
qed

theorem get_entries_correct_witness:
  "map_option names (get_entries ram_env dir_fs dir_inode) = Some [[46], [97], [98]]"
  using get_entries_correct [OF ram_ext2.ext2_env_axioms dir_mounted, of dir_inode dir_slots]
    dir_file_state dir_contents dir_slots_ok
  by (simp add: file_state_def dir_inode_facts ram_env_def) (simp add: dir_slots_def)


section \<open>A new entry\<close>

lemma actual_space_used_ge: "8 + unat (name_length_low8 h) \<le> actual_space_used h" "actual_space_used h < 2 ^ 16"
proof -
  have "unat (name_length_low8 h) < 2 ^ 8" using unsigned_less [of "name_length_low8 h"] by simp
  then show "8 + unat (name_length_low8 h) \<le> actual_space_used h" "actual_space_used h < 2 ^ 16"
    by (auto simp: actual_space_used_def Let_def)
qed

lemma grown_to_block_end_ok:
  assumes "0 < unat bs" "unat (entry_size h) + unat bs < 2 ^ 16"
  obtains hg where "grown_to_block_end bs first h = Some hg" "hg = h\<lparr>entry_size := entry_size hg\<rparr>"
    "unat (entry_size h) < unat (entry_size hg)" "(first + unat (entry_size hg)) mod unat bs = 0"
proof -
  let ?e = "(first + unat (entry_size h)) mod unat bs"
  have e: "?e < unat bs" using assms(1) by simp
  have u: "unat (of_nat (unat bs - ?e) :: u16) = unat bs - ?e" using assms(2) by (simp add: unsigned_of_nat take_bit_nat_eq_self)
  have sum: "checked_add (entry_size h) (of_nat (unat bs - ?e)) = Some (entry_size h + of_nat (unat bs - ?e))"
    using assms(2) u by (simp add: checked_add_nat)
  then have size: "unat (entry_size h + of_nat (unat bs - ?e)) = unat (entry_size h) + (unat bs - ?e)"
    using checked_add_unat [OF sum] u by simp
  have "(first + (unat (entry_size h) + (unat bs - ?e))) mod unat bs = 0"
  proof -
    have "first + (unat (entry_size h) + (unat bs - ?e)) = (first + unat (entry_size h)) div unat bs * unat bs + unat bs"
      using e div_mult_mod_eq [of "first + unat (entry_size h)" "unat bs"] by linarith
    then show ?thesis by simp
  qed
  moreover have "grown_to_block_end bs first h = Some (h\<lparr>entry_size := entry_size h + of_nat (unat bs - ?e)\<rparr>)"
    unfolding grown_to_block_end_def Let_def sum by simp
  ultimately show thesis using that size e by (auto simp del: of_nat_diff)
qed

context lsb_codec
begin

lemma place_new_entry_ok:
  assumes ok: "list_all slot_ok (pre @ [(h, nm, sp)])" and h: "inode_addr h \<noteq> 0"
    and used: "actual_space_used h \<le> unat (entry_size h)"
  shows "\<exists>h' sp' rest. place_new_entry c (dir_bytes c (pre @ [(h, nm, sp)])) (length (dir_bytes c pre), h, nm) hn
      = Some (length (dir_bytes c (pre @ [(h', nm, sp')])), dir_bytes c (pre @ [(h', nm, sp')]) @ rest)
    \<and> slot_ok (h', nm, sp') \<and> inode_addr h' = inode_addr h"
proof (cases "unat (entry_size h) - actual_space_used h \<ge> unat (entry_size hn)")
  case True
  let ?u = "actual_space_used h" and ?h' = "h\<lparr>entry_size := of_nat (actual_space_used h)\<rparr>"
  let ?k = "actual_space_used h - 8 - length nm"
  have s: "slot_ok (h, nm, sp)" using ok by simp
  have nm: "length nm = unat (name_length_low8 h)" using s h by (simp add: slot_ok_def)
  have u: "unat (of_nat ?u :: u16) = ?u" using actual_space_used_ge(2) [of h] by (simp add: unsigned_of_nat take_bit_nat_eq_self)
  have k: "?k \<le> length sp" "8 + length nm + ?k = ?u"
    using s used actual_space_used_ge(1) [of h] by (simp_all add: slot_ok_def nm)
  have s': "slot_ok (?h', nm, take ?k sp)"
    using s k by (simp add: slot_ok_def u min.absorb2)
  have bytes: "dir_bytes c (pre @ [(?h', nm, sp)]) = dir_bytes c (pre @ [(?h', nm, take ?k sp)]) @ drop ?k sp"
    by (simp add: dir_bytes_def slot_bytes_def)
  have len: "length (dir_bytes c (pre @ [(?h', nm, take ?k sp)])) = length (dir_bytes c pre) + ?u"
    using k by (simp add: dir_bytes_def slot_bytes_def)
  have "place_new_entry c (dir_bytes c (pre @ [(h, nm, sp)])) (length (dir_bytes c pre), h, nm) hn
    = Some (length (dir_bytes c pre) + ?u, dir_bytes c (pre @ [(?h', nm, sp)]))"
    using True used header_rewritten [OF s, of pre "[]" ?h'] by (simp add: place_new_entry_def Let_def u)
  then show ?thesis unfolding bytes len [symmetric] using s' by (intro exI [of _ ?h']) auto
next
  case False
  have s: "slot_ok (h, nm, sp)" using ok by simp
  have "length (dir_bytes c (pre @ [(h, nm, sp)])) = length (dir_bytes c pre) + unat (entry_size h)"
    using length_slot_bytes [OF s] by (simp add: dir_bytes_def)
  then have "place_new_entry c (dir_bytes c (pre @ [(h, nm, sp)])) (length (dir_bytes c pre), h, nm) hn
    = Some (length (dir_bytes c (pre @ [(h, nm, sp)])), dir_bytes c (pre @ [(h, nm, sp)]) @ [])"
    using False used by (simp add: place_new_entry_def Let_def)
  then show ?thesis using s by blast
qed

lemma entry_stored:
  assumes S: "unat (entry_size hg) = 8 + length name + k" and n: "n = length bytes + unat (entry_size hg)"
  shows "\<exists>raw2 space. write_entry_header_to_buffer c (take n (bytes @ rest) @ replicate (n - length (bytes @ rest)) 0) (length bytes, hg, name) = Some raw2
    \<and> write_entry_string_to_buffer raw2 (length bytes, hg, name) = Some (bytes @ pack_entry c hg @ name @ space)
    \<and> length space = k"
proof -
  obtain tail where raw: "take n (bytes @ rest) @ replicate (n - length (bytes @ rest)) 0 = bytes @ tail"
    and len: "length tail = unat (entry_size hg)"
    using n by simp
  have a: "write_entry_header_to_buffer c (bytes @ tail) (length bytes, hg, name) = Some (bytes @ pack_entry c hg @ drop 8 tail)"
    using len S by (simp add: write_entry_header_to_buffer_def store_bytes_replace_at replace_at_def)
  have "write_entry_string_to_buffer (bytes @ pack_entry c hg @ drop 8 tail) (length bytes, hg, name)
    = Some (bytes @ pack_entry c hg @ name @ drop (8 + length name) tail)"
    using len S by (simp add: write_entry_string_to_buffer_def store_bytes_replace_at replace_at_def add.commute)
  moreover have "length (drop (8 + length name) tail) = k" using len S by simp
  ultimately show ?thesis unfolding raw using a by blast
qed

end

text \<open>
  A new entry is listed last, whether it goes into the space of the last entry or behind it: the
  buffer that \<^verbatim>\<open>create_empty_child\<close> writes back lists the names that were there and then the new one, and
  ends at a block boundary.
\<close>

theorem new_entry_is_listed:
  assumes codec: "lsb_codec c" and ok: "list_all slot_ok (pre @ [(h, nm, sp)])" and h: "inode_addr h \<noteq> 0"
    and used: "actual_space_used h \<le> unat (entry_size h)"
    and new: "addr \<noteq> 0" "valid_utf8 name" "length name < 256" and bs: "0 < unat bs" "8 + length name + unat bs < 2 ^ 16"
  shows "\<exists>hn first raw hg n raw' raw'' es. new_entry_header fs addr name typ = Some hn
    \<and> place_new_entry c (dir_bytes c (pre @ [(h, nm, sp)])) (length (dir_bytes c pre), h, nm) hn = Some (first, raw)
    \<and> grown_to_block_end bs first hn = Some hg \<and> n = first + unat (entry_size hg) \<and> n mod unat bs = 0
    \<and> write_entry_header_to_buffer c (take n raw @ replicate (n - length raw) 0) (first, hg, name) = Some raw'
    \<and> write_entry_string_to_buffer raw' (first, hg, name) = Some raw'' \<and> length raw'' = n
    \<and> entries_from c raw'' 0 = Some es \<and> names es = names (live 0 (pre @ [(h, nm, sp)])) @ [name]"
proof -
  have u: "unat (of_nat (length name) :: u16) = length name" "unat (of_nat (length name) :: u8) = length name"
    using new(3) by (simp_all add: unsigned_of_nat take_bit_nat_eq_self)
  then have add8: "checked_add (of_nat (length name) :: u16) 8 = Some (of_nat (length name) + 8)"
    using new(3) by (simp add: checked_add_nat)
  obtain hn where hn: "new_entry_header fs addr name typ = Some hn" "unat (entry_size hn) = 8 + length name"
    "inode_addr hn = addr" "unat (name_length_low8 hn) = length name"
    using checked_add_unat [OF add8] u add8 by (simp add: new_entry_header_def Let_def)
  obtain h' sp' rest where p: "place_new_entry c (dir_bytes c (pre @ [(h, nm, sp)])) (length (dir_bytes c pre), h, nm) hn
      = Some (length (dir_bytes c (pre @ [(h', nm, sp')])), dir_bytes c (pre @ [(h', nm, sp')]) @ rest)"
    "slot_ok (h', nm, sp')" "inode_addr h' = inode_addr h"
    using lsb_codec.place_new_entry_ok [OF codec ok h used] by blast
  let ?bytes = "dir_bytes c (pre @ [(h', nm, sp')])"
  obtain hg where g: "grown_to_block_end bs (length ?bytes) hn = Some hg" "hg = hn\<lparr>entry_size := entry_size hg\<rparr>"
    "unat (entry_size hn) < unat (entry_size hg)" "(length ?bytes + unat (entry_size hg)) mod unat bs = 0"
    using grown_to_block_end_ok [OF bs(1), of hn "length ?bytes"] bs(2) hn(2) by auto
  let ?n = "length ?bytes + unat (entry_size hg)"
  have S: "unat (entry_size hg) = 8 + length name + (unat (entry_size hg) - 8 - length name)" using g(3) hn(2) by simp
  obtain raw' space where w: "write_entry_header_to_buffer c (take ?n (?bytes @ rest) @ replicate (?n - length (?bytes @ rest)) 0)
      (length ?bytes, hg, name) = Some raw'"
    "write_entry_string_to_buffer raw' (length ?bytes, hg, name) = Some (?bytes @ pack_entry c hg @ name @ space)"
    "length space = unat (entry_size hg) - 8 - length name"
    using lsb_codec.entry_stored [OF codec S refl] by blast
  let ?ss = "pre @ [(h', nm, sp'), (hg, name, space)]"
  have fields: "inode_addr hg = addr" "unat (name_length_low8 hg) = length name" by (subst g(2), simp add: hn)+
  have "slot_ok (hg, name, space)" using S w(3) new(2) fields by (simp add: slot_ok_def)
  then have ss: "list_all slot_ok ?ss" using ok p(2) by simp
  have bytes: "?bytes @ pack_entry c hg @ name @ space = dir_bytes c ?ss" by (simp add: dir_bytes_def slot_bytes_def)
  have es: "entries_from c (?bytes @ pack_entry c hg @ name @ space) 0 = Some (live 0 ?ss)"
    unfolding bytes using lsb_codec.entries_from_slots [OF codec ss, of "[]"] by simp
  have names: "names (live 0 ?ss) = names (live 0 (pre @ [(h, nm, sp)])) @ [name]"
    using p(3) h fields(1) new(1) by (simp add: live_append)
  have len: "length (?bytes @ pack_entry c hg @ name @ space) = ?n"
    using w(3) S lsb_codec.length_pack_entry [OF codec] by simp
  show ?thesis
    by (rule exI conjI hn(1) p(1) g(1) refl g(4) w(1) w(2) len es names)+
qed

theorem new_entry_is_listed_witness:
  "\<exists>hn first raw hg n raw' raw'' es. new_entry_header dir_fs 5 [99] FileType = Some hn
    \<and> place_new_entry le_codec (dir_bytes le_codec dir_slots) (24, fst (dir_slots ! 2), [98]) hn = Some (first, raw)
    \<and> grown_to_block_end 1024 first hn = Some hg \<and> n = first + unat (entry_size hg)
    \<and> write_entry_header_to_buffer le_codec (take n raw @ replicate (n - length raw) 0) (first, hg, [99]) = Some raw'
    \<and> write_entry_string_to_buffer raw' (first, hg, [99]) = Some raw''
    \<and> entries_from le_codec raw'' 0 = Some es \<and> names es = [[46], [97], [98], [99]]"
proof -
  let ?pre = "[(\<lparr> inode_addr = 2, entry_size = 12, name_length_low8 = 1, entry_type = 2 \<rparr>, [46], [0, 0, 0]),
     (\<lparr> inode_addr = 3, entry_size = 12, name_length_low8 = 1, entry_type = 1 \<rparr>, [97], [0, 0, 0])] :: slot list"
  let ?h = "\<lparr> inode_addr = 4, entry_size = 1000, name_length_low8 = 1, entry_type = 1 \<rparr>"
  have split: "dir_slots = ?pre @ [(?h, [98], replicate 991 0)]" "fst (dir_slots ! 2) = ?h"
    by (simp_all add: dir_slots_def)
  have start: "length (dir_bytes le_codec ?pre) = 24"
    by (simp add: dir_bytes_def slot_bytes_def le_codec.length_pack)
  have h: "inode_addr ?h \<noteq> 0" "actual_space_used ?h \<le> unat (entry_size ?h)"
    by (simp_all add: actual_space_used_def)
  have names: "names (live 0 dir_slots) @ [[99]] = [[46], [97], [98], [99]]" by (simp add: dir_slots_def)
  have side: "(5 :: u32) \<noteq> 0" "valid_utf8 [99]" "length [99 :: u8] < 256" "0 < unat (1024 :: u32)"
    "8 + length [99 :: u8] + unat (1024 :: u32) < 2 ^ 16" by simp_all
  show ?thesis
    using new_entry_is_listed [OF le_codec.lsb_codec_axioms dir_slots_ok [unfolded split(1)] h side, of dir_fs FileType]
    unfolding split(1) [symmetric] split(2) start names by blast
qed

end
