(* ===== verification/Slots.thy ===== *)
theory Slots
  imports Prelude
begin

text \<open>
  Tables whose index is an identifier: file descriptors, open nodes, pipes, processes and signal
  queues are vectors of \<^verbatim>\<open>Option\<close> entries. \<open>place\<close> is the search for a free entry written out in
  the \<^verbatim>\<open>open\<close>, \<^verbatim>\<open>dup\<close> and \<^verbatim>\<open>pipe\<close> system calls, \<open>clear_slot\<close> the removal followed by the
  draining of the trailing \<^verbatim>\<open>None\<close> entries. The locale \<open>id_table\<close> states what the users of such
  a table rely on, with the counting lemmas that the reference counts rest on.
\<close>

section \<open>Operations\<close>

fun first_none :: "'a option list \<Rightarrow> nat option" where
  "first_none [] = None"
| "first_none (x # xs) = (if x = None then Some 0 else map_option Suc (first_none xs))"

definition place :: "'a option list \<Rightarrow> 'a \<Rightarrow> nat \<times> 'a option list" where
  "place xs v = (case first_none xs of
     Some i \<Rightarrow> (i, xs[i := Some v])
   | None \<Rightarrow> (length xs, xs @ [Some v]))"

definition clear_slot :: "'a option list \<Rightarrow> nat \<Rightarrow> 'a option list" where
  "clear_slot xs i = drain_none (xs[i := None])"

text \<open>The number of identifiers that hold a value.\<close>

definition holders :: "(nat \<Rightarrow> 'a option) \<Rightarrow> 'a \<Rightarrow> nat" where
  "holders f v = card {i. f i = Some v}"

definition trimmed :: "'a option list \<Rightarrow> bool" where
  "trimmed xs \<longleftrightarrow> xs = [] \<or> last xs \<noteq> None"

section \<open>The interface\<close>

locale id_table =
  fixes lookup :: "'t \<Rightarrow> nat \<Rightarrow> 'a option"
    and insert :: "'t \<Rightarrow> 'a \<Rightarrow> nat \<times> 't"
    and remove :: "'t \<Rightarrow> nat \<Rightarrow> 't"
  assumes finite_ids: "finite {i. lookup t i \<noteq> None}"
    and insert_fresh: "lookup t (fst (insert t v)) = None"
    and insert_lowest: "j < fst (insert t v) \<Longrightarrow> lookup t j \<noteq> None"
    and lookup_insert: "lookup (snd (insert t v)) = (lookup t)(fst (insert t v) := Some v)"
    and lookup_remove: "lookup (remove t i) = (lookup t)(i := None)"
begin

lemma finite_holders [simp]: "finite {i. lookup t i = Some v}"
  by (rule finite_subset [OF _ finite_ids [of t]]) auto

lemma holders_update:
  assumes "lookup t i = None"
  shows "holders ((lookup t)(i := Some v)) w = holders (lookup t) w + of_bool (v = w)"
proof -
  have "{j. ((lookup t)(i := Some v)) j = Some w} =
      (if v = w then Set.insert i {j. lookup t j = Some w} else {j. lookup t j = Some w})"
    using assms by auto
  then show ?thesis using assms by (simp add: holders_def)
qed

lemma holders_insert:
  "holders (lookup (snd (insert t v))) w = holders (lookup t) w + of_bool (v = w)"
  unfolding lookup_insert by (rule holders_update [OF insert_fresh])

lemma holders_remove:
  assumes "lookup t i = Some v"
  shows "holders (lookup (remove t i)) w + of_bool (v = w) = holders (lookup t) w"
proof -
  have "lookup (remove t i) i = None" by (simp add: lookup_remove)
  from holders_update [OF this, of v w] have
    "holders ((lookup t)(i := Some v)) w = holders (lookup (remove t i)) w + of_bool (v = w)"
    by (simp add: lookup_remove)
  moreover have "(lookup t)(i := Some v) = lookup t" using assms by (simp add: fun_upd_idem)
  ultimately show ?thesis by simp
qed

lemma holders_pos: "lookup t i = Some v \<Longrightarrow> 0 < holders (lookup t) v"
  by (auto simp: holders_def card_gt_0_iff)

lemma holders_zero: "holders (lookup t) v = 0 \<Longrightarrow> lookup t i \<noteq> Some v"
  using holders_pos by fastforce

lemma insert_then_remove: "lookup (remove (snd (insert t v)) (fst (insert t v))) = lookup t"
  by (auto simp: lookup_remove lookup_insert insert_fresh fun_eq_iff)

end

section \<open>Vectors of options are such tables\<close>

lemma first_none_Some: "first_none xs = Some i \<Longrightarrow> i < length xs \<and> xs ! i = None \<and> (\<forall>j < i. xs ! j \<noteq> None)"
proof (induction xs arbitrary: i)
  case (Cons x xs)
  show ?case
  proof (cases "x = None")
    case False
    with Cons.prems obtain k where k: "first_none xs = Some k" "i = Suc k" by auto
    from Cons.IH [OF k(1)] k(2) False show ?thesis by (auto simp: less_Suc_eq_0_disj)
  qed (use Cons.prems in auto)
qed simp

lemma first_none_None: "first_none xs = None \<Longrightarrow> i < length xs \<Longrightarrow> xs ! i \<noteq> None"
  by (induction xs arbitrary: i) (auto split: if_splits simp: nth_Cons')

lemma finite_slots: "finite {i. lookup_slot xs i \<noteq> None}"
  by (rule finite_subset [of _ "{..< length xs}"]) (auto simp: lookup_slot_def split: if_splits)

lemma lookup_clear_slot: "lookup_slot (clear_slot xs i) = (lookup_slot xs)(i := None)"
proof
  fix j
  have "lookup_slot (xs[i := None]) j = ((lookup_slot xs)(i := None)) j"
    by (auto simp: lookup_slot_def nth_list_update)
  then show "lookup_slot (clear_slot xs i) j = ((lookup_slot xs)(i := None)) j"
    by (simp add: clear_slot_def)
qed

interpretation slots: id_table lookup_slot place clear_slot
proof
  fix xs :: "'a option list" and v :: 'a and i j
  show "finite {i. lookup_slot xs i \<noteq> None}" by (rule finite_slots)
  show "lookup_slot xs (fst (place xs v)) = None"
    by (auto simp: place_def lookup_slot_def split: option.split dest: first_none_Some)
  show "lookup_slot xs j \<noteq> None" if "j < fst (place xs v)"
    using that first_none_None [of xs j] first_none_Some [of xs]
    by (cases "first_none xs") (auto simp: place_def lookup_slot_def)
  show "lookup_slot (snd (place xs v)) = (lookup_slot xs)(fst (place xs v) := Some v)"
    by (auto simp: place_def fun_eq_iff lookup_slot_update lookup_slot_snoc split: option.split
        dest: first_none_Some)
  show "lookup_slot (clear_slot xs i) = (lookup_slot xs)(i := None)" by (rule lookup_clear_slot)
qed

lemma trimmed_clear_slot: "trimmed (clear_slot xs i)"
  using drain_none_ends_in_Some by (auto simp: trimmed_def clear_slot_def)

lemma trimmed_place: "trimmed xs \<Longrightarrow> trimmed (snd (place xs v))"
  by (cases "xs = []")
     (auto simp: trimmed_def place_def last_conv_nth nth_list_update split: option.split dest!: first_none_Some)

lemma lookup_slot_eq_Some: "lookup_slot xs i = Some v \<longleftrightarrow> i < length xs \<and> xs ! i = Some v"
  by (auto simp: lookup_slot_def)

lemma lookup_slot_index: "lookup_slot xs i = Some v \<Longrightarrow> index xs i = Some (Some v)"
  by (simp add: lookup_slot_eq_Some)

end
