(* ===== verification/Allocator.thy ===== *)
theory Allocator
  imports Prelude "HOL-Library.Multiset"
begin

text \<open>
  The bump allocator \<^verbatim>\<open>BasicAlloc\<close> of \<^verbatim>\<open>kernel/src/allocator.rs\<close>, used for the kernel heap,
  for the storage of emulated programs and, with \<^verbatim>\<open>is_virtual\<close>, to place regions in a program's
  address space. Pointers are addresses; \<^verbatim>\<open>ptr.add\<close> and \<^verbatim>\<open>ptr.sub\<close> are address arithmetic
  modulo \<^verbatim>\<open>2^64\<close>, while the arithmetic on \<^verbatim>\<open>next\<close>, \<^verbatim>\<open>len\<close> and \<^verbatim>\<open>alloc_count\<close> is checked.
  Messages to the UART are left out. \<^verbatim>\<open>sort_unstable_by\<close> is a stable sort on the same key:
  the invariant below does not depend on the order of equal keys.
\<close>

section \<open>State and operations\<close>

record Layout =
  layout_size :: u64
  layout_align :: u64

definition from_size_align :: "u64 \<Rightarrow> u64 \<Rightarrow> Layout option" where
  "from_size_align sz align =
     (if align \<noteq> 0 \<and> align AND (align - 1) = 0 \<and> align \<le> 0x8000000000000000 \<and> sz \<le> 0x8000000000000000 - align
      then Some \<lparr>layout_size = sz, layout_align = align\<rparr> else None)"

type_synonym stash_entry = "u64 \<times> Layout"

record BasicAlloc =
  heap_base :: u64
  heap_len :: u64
  alloc_count :: u64
  heap_next :: u64
  is_virtual :: bool
  stashed_deallocations :: "stash_entry list"

definition null_entry :: stash_entry where
  "null_entry = (0, \<lparr>layout_size = 1, layout_align = 1\<rparr>)"

definition alloc_new :: "bool \<Rightarrow> BasicAlloc" where
  "alloc_new virt = \<lparr>heap_base = 0, heap_len = 0, alloc_count = 0, heap_next = 0, is_virtual = virt,
     stashed_deallocations = replicate 1024 null_entry\<rparr>"

definition alloc_from :: "u64 \<Rightarrow> u64 \<Rightarrow> bool \<Rightarrow> BasicAlloc" where
  "alloc_from b l virt = \<lparr>heap_base = b, heap_len = l, alloc_count = 0, heap_next = 0, is_virtual = virt,
     stashed_deallocations = replicate 1024 null_entry\<rparr>"

definition alloc_init :: "BasicAlloc \<Rightarrow> u64 \<Rightarrow> u64 \<Rightarrow> unit option \<times> BasicAlloc" where
  "alloc_init a b l = (if alloc_count a \<noteq> 0 then (None, a) else (Some (), a\<lparr>heap_base := b, heap_len := l\<rparr>))"

definition grow_heap_space :: "BasicAlloc \<Rightarrow> u64 \<Rightarrow> BasicAlloc option" where
  "grow_heap_space a l = map_option (\<lambda>n. a\<lparr>heap_len := n\<rparr>) (checked_add (heap_len a) l)"

fun find_null :: "nat \<Rightarrow> stash_entry list \<Rightarrow> nat option" where
  "find_null i [] = None"
| "find_null i (e # es) = (if fst e = 0 then Some i else find_null (Suc i) es)"

definition find_free_dealloc_ind :: "BasicAlloc \<Rightarrow> nat option" where
  "find_free_dealloc_ind a = find_null 0 (stashed_deallocations a)"

text \<open>Store an entry in the first free slot, or leak it.\<close>

definition stash :: "BasicAlloc \<Rightarrow> stash_entry \<Rightarrow> BasicAlloc" where
  "stash a e = (case find_free_dealloc_ind a of
     Some ind \<Rightarrow> a\<lparr>stashed_deallocations := (stashed_deallocations a)[ind := e]\<rparr>
   | None \<Rightarrow> a)"

definition try_dealloc :: "BasicAlloc \<Rightarrow> u64 \<Rightarrow> Layout \<Rightarrow> (bool \<times> BasicAlloc) option" where
  "try_dealloc a ptr layout =
     (if ptr + layout_size layout - heap_next a = heap_base a then do {
        n \<leftarrow> checked_sub (heap_next a) (layout_size layout);
        Some (True, a\<lparr>heap_next := n\<rparr>)
      }
      else if alloc_count a = 0 then
        Some (True, a\<lparr>heap_next := 0,
          stashed_deallocations := map (\<lambda>_. null_entry) (stashed_deallocations a)\<rparr>)
      else Some (False, a))"

definition pad_for :: "BasicAlloc \<Rightarrow> Layout \<Rightarrow> (bool \<times> BasicAlloc) option" where
  "pad_for a layout =
     (if layout_align layout = 0 then None
      else if heap_next a mod layout_align layout \<noteq> 0 then
        (case from_size_align (layout_align layout - heap_next a mod layout_align layout) 1 of
           Some padding \<Rightarrow> do {
             n \<leftarrow> checked_add (heap_next a) (layout_size padding);
             (if n \<ge> heap_len a then Some (False, a)
              else let a' = a\<lparr>heap_next := n\<rparr>;
                       padding_ptr = heap_base a + n - layout_size padding
                   in Some (True, stash a' (padding_ptr, padding)))
           }
         | None \<Rightarrow> Some (False, a))
      else Some (True, a))"

definition alloc :: "BasicAlloc \<Rightarrow> Layout \<Rightarrow> (u64 \<times> BasicAlloc) option" where
  "alloc a layout = do {
     (ok, a) \<leftarrow> pad_for a layout;
     if \<not> ok then Some (0, a)
     else do {
       n \<leftarrow> checked_add (heap_next a) (layout_size layout);
       if n \<ge> heap_len a then Some (0, a)
       else do {
         c \<leftarrow> checked_add (alloc_count a) 1;
         Some (heap_base a + n - layout_size layout, a\<lparr>heap_next := n, alloc_count := c\<rparr>)
       }
     }
   }"

text \<open>The loop that retries the stashed deallocations, highest address first.\<close>

fun retry_stashed :: "nat list \<Rightarrow> BasicAlloc \<Rightarrow> BasicAlloc option" where
  "retry_stashed [] a = Some a"
| "retry_stashed (i # is) a = do {
     (ptr, layout) \<leftarrow> index (stashed_deallocations a) i;
     if ptr = 0 then Some a
     else do {
       (did, a) \<leftarrow> try_dealloc a ptr layout;
       if did then do {
         st \<leftarrow> index_set (stashed_deallocations a) i null_entry;
         retry_stashed is (a\<lparr>stashed_deallocations := st\<rparr>)
       }
       else Some a
     }
   }"

definition dealloc :: "BasicAlloc \<Rightarrow> u64 \<Rightarrow> Layout \<Rightarrow> BasicAlloc option" where
  "dealloc a ptr layout = do {
     c \<leftarrow> checked_sub (alloc_count a) 1;
     (did_dealloc, a) \<leftarrow> try_dealloc (a\<lparr>alloc_count := c\<rparr>) ptr layout;
     if \<not> did_dealloc then Some (stash a (ptr, layout))
     else
       let a = a\<lparr>stashed_deallocations := rev (sort_key fst (stashed_deallocations a))\<rparr>
       in retry_stashed [0 ..< length (stashed_deallocations a)] a
   }"

text \<open>
  \<open>realloc\<close> of a virtual allocator; for the heap the copied bytes are in the memory that is not
  part of this state.
\<close>

definition alloc_realloc :: "BasicAlloc \<Rightarrow> u64 \<Rightarrow> Layout \<Rightarrow> u64 \<Rightarrow> (u64 \<times> BasicAlloc) option" where
  "alloc_realloc a ptr layout new_size = (
     case from_size_align new_size (layout_align layout) of
       None \<Rightarrow> Some (0, a)
     | Some new_layout \<Rightarrow> do {
         (new_ptr, a) \<leftarrow> alloc a new_layout;
         if new_ptr \<noteq> 0 then do {
           a \<leftarrow> dealloc a ptr layout;
           Some (new_ptr, a)
         } else Some (new_ptr, a)
       })"

section \<open>Blocks and the invariant\<close>

text \<open>
  A block is a pointer with its size. \<open>cover x bs\<close> counts the blocks of \<open>bs\<close> that contain the
  address \<open>x\<close>. The invariant, for the list \<open>live\<close> of blocks handed out and not yet freed: no
  address is in two blocks, live or stashed, and every block lies between \<open>base\<close> and
  \<open>base + next\<close>.
\<close>

type_synonym block = "u64 \<times> u64"

definition has_addr :: "block \<Rightarrow> nat \<Rightarrow> bool" where
  "has_addr b x \<longleftrightarrow> unat (fst b) \<le> x \<and> x < unat (fst b) + unat (snd b)"

definition cover :: "nat \<Rightarrow> block list \<Rightarrow> nat" where
  "cover x bs = length (filter (\<lambda>b. has_addr b x) bs)"

definition stash_blocks :: "stash_entry list \<Rightarrow> block list" where
  "stash_blocks es = map (\<lambda>e. (fst e, layout_size (snd e))) (filter (\<lambda>e. fst e \<noteq> 0) es)"

definition used :: "BasicAlloc \<Rightarrow> nat \<Rightarrow> bool" where
  "used a x \<longleftrightarrow> unat (heap_base a) \<le> x \<and> x < unat (heap_base a) + unat (heap_next a)"

definition alloc_inv :: "BasicAlloc \<Rightarrow> block list \<Rightarrow> bool" where
  "alloc_inv a live \<longleftrightarrow>
     unat (heap_base a) + unat (heap_len a) \<le> 2 ^ 64 \<and> heap_next a \<le> heap_len a \<and> unat (alloc_count a) = length live \<and>
     (\<forall>x. cover x live + cover x (stash_blocks (stashed_deallocations a)) \<le> of_bool (used a x))"

lemma cover_simps [simp]:
  "cover x [] = 0" "cover x (b # bs) = of_bool (has_addr b x) + cover x bs"
  "cover x (bs @ cs) = cover x bs + cover x cs"
  by (simp_all add: cover_def)

lemma cover_remove1: "b \<in> set bs \<Longrightarrow> cover x bs = of_bool (has_addr b x) + cover x (remove1 b bs)"
  by (induction bs) auto

lemma cover_mset: "mset bs = mset cs \<Longrightarrow> cover x bs = cover x cs"
  unfolding cover_def by (metis mset_filter size_mset)

lemma stash_blocks_simps [simp]:
  "stash_blocks [] = []"
  "stash_blocks (e # es) = (if fst e = 0 then stash_blocks es else (fst e, layout_size (snd e)) # stash_blocks es)"
  "stash_blocks (es @ fs) = stash_blocks es @ stash_blocks fs"
  by (simp_all add: stash_blocks_def)

lemma cover_stash_sorted: "cover x (stash_blocks (rev (sort_key fst es))) = cover x (stash_blocks es)"
  by (rule cover_mset) (simp add: stash_blocks_def)

lemma cover_stash_update:
  assumes "i < length es"
  shows "cover x (stash_blocks (es[i := e])) + cover x (stash_blocks [es ! i]) =
    cover x (stash_blocks es) + cover x (stash_blocks [e])"
proof -
  have "es = take i es @ es ! i # drop (Suc i) es" using assms by (rule id_take_nth_drop)
  moreover have "es[i := e] = take i es @ e # drop (Suc i) es" using assms by (rule upd_conv_take_nth_drop)
  ultimately have "cover x (stash_blocks es) = cover x (stash_blocks (take i es @ es ! i # drop (Suc i) es))"
    "cover x (stash_blocks (es[i := e])) = cover x (stash_blocks (take i es @ e # drop (Suc i) es))"
    by (simp_all only:)
  then show ?thesis by simp
qed

lemma find_null_Some: "find_null i es = Some k \<Longrightarrow> i \<le> k \<and> k < i + length es \<and> fst (es ! (k - i)) = 0"
proof (induction es arbitrary: i)
  case (Cons e es)
  show ?case
  proof (cases "fst e = 0")
    case False
    with Cons.prems have "find_null (Suc i) es = Some k" by simp
    from Cons.IH [OF this] have "Suc i \<le> k" "k < Suc i + length es" "fst (es ! (k - Suc i)) = 0" by auto
    moreover from this have "k - i = Suc (k - Suc i)" by simp
    ultimately show ?thesis by simp
  qed (use Cons.prems in simp)
qed simp

lemma stash_fields [simp]:
  "heap_base (stash a e) = heap_base a" "heap_len (stash a e) = heap_len a" "heap_next (stash a e) = heap_next a"
  "alloc_count (stash a e) = alloc_count a" "used (stash a e) = used a"
  by (simp_all add: stash_def used_def fun_eq_iff split: option.split)

lemma cover_stash:
  "cover x (stash_blocks (stashed_deallocations (stash a (p, l)))) \<le>
     cover x (stash_blocks (stashed_deallocations a)) + of_bool (has_addr (p, layout_size l) x)"
proof (cases "find_free_dealloc_ind a")
  case None
  then show ?thesis by (simp add: stash_def)
next
  case (Some k)
  then have k: "k < length (stashed_deallocations a)" "fst (stashed_deallocations a ! k) = 0"
    using find_null_Some [of 0 "stashed_deallocations a" k] by (simp_all add: find_free_dealloc_ind_def)
  then show ?thesis
    using cover_stash_update [OF k(1), of x "(p, l)"] Some by (simp add: stash_def)
qed

text \<open>The block that a bump of \<open>next\<close> by \<open>s\<close> reserves is exactly the newly used addresses.\<close>

lemma bump_block:
  assumes "unat (heap_base a) + unat (heap_len a) \<le> 2 ^ 64" "checked_add (heap_next a) s = Some n" "n < heap_len a"
  shows "of_bool (used a x) + of_bool (has_addr (heap_base a + n - s, s) x) = (of_bool (used (a\<lparr>heap_next := n\<rparr>) x) :: nat)"
    and "unat (heap_base a + n - s) = unat (heap_base a) + unat (heap_next a)"
proof -
  have n: "unat n = unat (heap_next a) + unat s" "n = heap_next a + s"
    using checked_add_unat [OF assms(2)] assms(2) by (simp_all add: checked_add_eq_Some_iff)
  have lt: "unat n < unat (heap_len a)" using assms(3) by (simp add: word_less_nat_alt)
  have "heap_base a + n - s = heap_base a + heap_next a" using n(2) by simp
  moreover have "unat (heap_base a + heap_next a) = unat (heap_base a) + unat (heap_next a)"
    using assms(1) lt n(1) by (intro unat_add_lem [THEN iffD1]) simp
  ultimately show p: "unat (heap_base a + n - s) = unat (heap_base a) + unat (heap_next a)" by (simp only:)
  then show "of_bool (used a x) + of_bool (has_addr (heap_base a + n - s, s) x) =
      (of_bool (used (a\<lparr>heap_next := n\<rparr>) x) :: nat)"
    using n(1) by (auto simp: used_def has_addr_def)
qed

lemma pad_for_inv:
  assumes inv: "alloc_inv a live" and "layout_align l \<noteq> 0" and al: "layout_align l \<le> 0x8000000000000000"
    and room: "unat (heap_next a) + unat (layout_align l) < 2 ^ 64"
  shows "\<exists>ok a'. pad_for a l = Some (ok, a') \<and> alloc_inv a' live \<and>
    heap_base a' = heap_base a \<and> heap_len a' = heap_len a \<and> heap_next a \<le> heap_next a' \<and>
    unat (heap_next a') \<le> unat (heap_next a) + unat (layout_align l) \<and>
    (if ok then unat (layout_align l) dvd unat (heap_next a')
     else unat (heap_len a) \<le> unat (heap_next a) + unat (layout_align l))"
proof (cases "heap_next a mod layout_align l = 0")
  case True
  then have "unat (heap_next a) mod unat (layout_align l) = 0" by (metis unat_mod_distrib unsigned_0)
  with assms True show ?thesis by (auto simp: pad_for_def)
next
  case False
  let ?al = "layout_align l" and ?p = "layout_align l - heap_next a mod layout_align l"
  have um: "unat (heap_next a mod ?al) = unat (heap_next a) mod unat ?al" by (simp add: unat_mod_distrib)
  have alpos: "0 < unat ?al" using assms(2) by (simp add: unat_gt_0)
  have up: "unat ?p = unat ?al - unat (heap_next a) mod unat ?al"
    using um alpos by (simp add: unat_sub word_le_nat_alt less_imp_le)
  then have ple: "unat ?p \<le> unat ?al" by simp
  have "0 < unat (heap_next a mod ?al)" using False by (simp add: unat_gt_0)
  with up um alpos have "unat ?p < unat ?al" by linarith
  moreover have "unat ?al \<le> unat (0x8000000000000000 :: u64)" using al by (simp only: word_le_nat_alt)
  ultimately have "?p \<le> 0x8000000000000000 - 1" by (simp add: word_le_nat_alt)
  then have "from_size_align ?p 1 \<noteq> None" by (simp add: from_size_align_def)
  then obtain padding where Some: "from_size_align ?p 1 = Some padding" by blast
  show ?thesis
  proof -
    from Some have ps: "layout_size padding = ?p" by (auto simp: from_size_align_def split: if_splits)
    have "unat (heap_next a) + unat ?p < 2 ^ 64" using room ple by linarith
    then have ca: "checked_add (heap_next a) ?p = Some (heap_next a + ?p)" by (simp add: checked_add_eq_Some_iff)
    from checked_add_unat [OF ca] have un: "unat (heap_next a + ?p) = unat (heap_next a) + unat ?p" .
    show ?thesis
    proof (cases "heap_len a \<le> heap_next a + ?p")
      case True
      moreover from True have "unat (heap_len a) \<le> unat (heap_next a) + unat ?al"
        using un ple by (simp add: word_le_nat_alt)
      ultimately show ?thesis using False Some ps ca assms by (auto simp: pad_for_def)
    next
      case lt: False
      let ?n = "heap_next a + ?p"
      let ?a = "stash (a\<lparr>heap_next := ?n\<rparr>) (heap_base a + ?n - ?p, padding)"
      have res: "pad_for a l = Some (True, ?a)"
        using False Some ps ca assms(2) lt by (simp add: pad_for_def Let_def)
      have nl: "?n < heap_len a" using lt by simp
      have bl: "unat (heap_base a) + unat (heap_len a) \<le> 2 ^ 64" using inv by (simp add: alloc_inv_def)
      have "cover x live + cover x (stash_blocks (stashed_deallocations ?a)) \<le> of_bool (used ?a x)" for x
      proof -
        have "cover x live + cover x (stash_blocks (stashed_deallocations a)) \<le> of_bool (used a x)"
          using inv unfolding alloc_inv_def by blast
        moreover have "cover x (stash_blocks (stashed_deallocations ?a)) \<le>
            cover x (stash_blocks (stashed_deallocations a)) + of_bool (has_addr (heap_base a + ?n - ?p, ?p) x)"
          using cover_stash [of x "a\<lparr>heap_next := ?n\<rparr>" "heap_base a + ?n - ?p" padding] ps by simp
        moreover note bump_block(1) [OF bl ca nl, of x]
        ultimately have "cover x live + cover x (stash_blocks (stashed_deallocations ?a)) \<le>
            of_bool (used (a\<lparr>heap_next := ?n\<rparr>) x)" by linarith
        then show ?thesis by (simp only: stash_fields)
      qed
      with inv lt have "alloc_inv ?a live" by (simp add: alloc_inv_def)
      moreover have "unat ?al dvd unat ?n"
      proof -
        have "unat ?n = (unat (heap_next a) div unat ?al) * unat ?al + unat ?al"
          using un up alpos mod_less_divisor [OF alpos, of "unat (heap_next a)"]
            div_mult_mod_eq [of "unat (heap_next a)" "unat ?al"] by linarith
        then show ?thesis by simp
      qed
      moreover have "heap_next a \<le> ?n" using un by (simp add: word_le_nat_alt)
      ultimately show ?thesis using res un ple by auto
    qed
  qed
qed

section \<open>Freeing a block\<close>

lemma top_block:
  assumes "unat (heap_base a) + unat (heap_next a) \<le> 2 ^ 64" "s \<noteq> 0" "p + s - heap_next a = heap_base a"
    and C: "\<And>x. has_addr (p, s) x \<Longrightarrow> used a x"
  shows "unat p + unat s = unat (heap_base a) + unat (heap_next a)" and "unat (heap_base a) \<le> unat p"
proof -
  have s: "0 < unat s" using assms(2) by (simp add: unat_gt_0)
  from C [of "unat p"] s show lo: "unat (heap_base a) \<le> unat p" by (simp add: has_addr_def used_def)
  from C [of "unat p + unat s - 1"] s have hi: "unat p + unat s \<le> unat (heap_base a) + unat (heap_next a)"
    by (simp add: has_addr_def used_def) linarith
  from assms(3) have "p + s = heap_base a + heap_next a" by (metis diff_add_cancel)
  then have "(unat p + unat s) mod 2 ^ 64 = (unat (heap_base a) + unat (heap_next a)) mod 2 ^ 64"
    using unat_word_ariths(1) [of p s] unat_word_ariths(1) [of "heap_base a" "heap_next a"] by simp
  moreover define m k where "m = unat p + unat s" and "k = unat (heap_base a) + unat (heap_next a)"
  ultimately have mk: "m mod 2 ^ 64 = k mod 2 ^ 64" "m \<le> k" "0 < m" "k \<le> 2 ^ 64"
    using hi assms(1) s by simp_all
  have "m = k"
  proof (cases "k < 2 ^ 64")
    case True
    with mk(1,2) show ?thesis by simp
  next
    case False
    with mk(4) have "k = 2 ^ 64" by simp
    with mk(1) have "m mod 2 ^ 64 = 0" by simp
    with mk(2,3,4) \<open>k = 2 ^ 64\<close> show ?thesis by (metis dvd_imp_le dvd_imp_mod_0 le_antisym mod_0_imp_dvd)
  qed
  then show "unat p + unat s = unat (heap_base a) + unat (heap_next a)" by (simp add: m_def k_def)
qed

lemma try_dealloc_step:
  assumes bn: "unat (heap_base a) + unat (heap_next a) \<le> 2 ^ 64"
    and C: "\<And>x. cover x R + of_bool (has_addr (p, layout_size l) x) \<le> of_bool (used a x)"
  shows "\<exists>did a'. try_dealloc a p l = Some (did, a') \<and> heap_base a' = heap_base a \<and> heap_len a' = heap_len a \<and>
    alloc_count a' = alloc_count a \<and> heap_next a' \<le> heap_next a \<and> (\<not> did \<longrightarrow> a' = a) \<and>
    (p + layout_size l - heap_next a = heap_base a \<longrightarrow>
       did \<and> unat (heap_next a') + unat (layout_size l) \<le> unat (heap_next a)) \<and>
    (did \<longrightarrow> stashed_deallocations a' = stashed_deallocations a \<and> (\<forall>x. cover x R \<le> of_bool (used a' x)) \<or>
       alloc_count a = 0 \<and> stashed_deallocations a' = map (\<lambda>_. null_entry) (stashed_deallocations a))"
proof (cases "p + layout_size l - heap_next a = heap_base a")
  case top: True
  let ?s = "layout_size l"
  have C1: "used a x" if "has_addr (p, ?s) x" for x using C [of x] that by (cases "used a x") simp_all
  show ?thesis
  proof (cases "?s = 0")
    case True
    have "cover x R \<le> of_bool (used (a\<lparr>heap_next := heap_next a\<rparr>) x)" for x using C [of x] by simp
    with top True show ?thesis by (auto simp: try_dealloc_def checked_sub_def)
  next
    case False
    note tb = top_block [OF bn False top C1]
    then have le: "?s \<le> heap_next a" by (simp add: word_le_nat_alt)
    have un: "unat (heap_next a - ?s) = unat (heap_next a) - unat ?s" using le by (simp add: unat_sub)
    have u: "used a x \<longleftrightarrow> used (a\<lparr>heap_next := heap_next a - ?s\<rparr>) x \<or> has_addr (p, ?s) x" for x
      using tb un by (auto simp: used_def has_addr_def)
    have "cover x R \<le> of_bool (used (a\<lparr>heap_next := heap_next a - ?s\<rparr>) x)" for x
      using C [of x] u [of x]
      by (cases "has_addr (p, ?s) x"; cases "used (a\<lparr>heap_next := heap_next a - ?s\<rparr>) x") simp_all
    moreover have "heap_next a - ?s \<le> heap_next a" using un by (simp add: word_le_nat_alt)
    moreover have "unat (heap_next a - ?s) + unat ?s \<le> unat (heap_next a)"
      using un le by (simp add: word_le_nat_alt)
    ultimately show ?thesis using top le by (auto simp: try_dealloc_def checked_sub_def)
  qed
next
  case False
  then show ?thesis by (auto simp: try_dealloc_def)
qed

lemma stash_blocks_null [simp]: "stash_blocks (map (\<lambda>_. null_entry) es) = []"
  by (induction es) (simp_all add: null_entry_def)

lemma alloc_inv_bound: "alloc_inv a live \<Longrightarrow> unat (heap_base a) + unat (heap_next a) \<le> 2 ^ 64"
  by (simp add: alloc_inv_def word_le_nat_alt)

lemma stashed_update: "stashed_deallocations (a\<lparr>stashed_deallocations := es\<rparr>) = es"
  by simp

lemma alloc_inv_idle: "alloc_inv a live \<Longrightarrow> alloc_count a = 0 \<Longrightarrow> live = []"
  by (simp add: alloc_inv_def)

lemma retry_stashed_inv:
  "alloc_inv a live \<Longrightarrow> \<forall>i \<in> set is. i < length (stashed_deallocations a) \<Longrightarrow>
   \<exists>a'. retry_stashed is a = Some a' \<and> alloc_inv a' live \<and> heap_next a' \<le> heap_next a"
proof (induction "is" arbitrary: a)
  case Nil
  then show ?case by simp
next
  case (Cons i "is")
  let ?es = "stashed_deallocations a"
  obtain p l where e: "?es ! i = (p, l)" by fastforce
  have i: "i < length ?es" using Cons.prems by simp
  show ?case
  proof (cases "p = 0")
    case True
    with Cons.prems e i show ?thesis by simp
  next
    case False
    let ?R = "live @ stash_blocks (?es[i := null_entry])"
    have "cover x ?R + of_bool (has_addr (p, layout_size l) x) \<le> of_bool (used a x)" for x
    proof -
      have "cover x live + cover x (stash_blocks ?es) \<le> of_bool (used a x)"
        using Cons.prems unfolding alloc_inv_def by blast
      with cover_stash_update [OF i, of x null_entry] e False show ?thesis
        by (simp add: null_entry_def)
    qed
    from try_dealloc_step [OF alloc_inv_bound [OF Cons.prems(1)] this] obtain did a' where
      t: "try_dealloc a p l = Some (did, a')" "heap_base a' = heap_base a" "heap_len a' = heap_len a"
        "alloc_count a' = alloc_count a" "heap_next a' \<le> heap_next a" "\<not> did \<longrightarrow> a' = a"
      and d: "did \<longrightarrow> stashed_deallocations a' = ?es \<and> (\<forall>x. cover x ?R \<le> of_bool (used a' x)) \<or>
        alloc_count a = 0 \<and> stashed_deallocations a' = map (\<lambda>_. null_entry) ?es" by blast
    show ?thesis
    proof (cases did)
      case False
      with t Cons.prems e i \<open>p \<noteq> 0\<close> show ?thesis by simp
    next
      case True
      let ?a = "a'\<lparr>stashed_deallocations := (stashed_deallocations a')[i := null_entry]\<rparr>"
      have len: "length (stashed_deallocations a') = length ?es" using d True by auto
      have null: "(map (\<lambda>_. null_entry) ?es)[i := null_entry] = map (\<lambda>_. null_entry) ?es"
        using i by (intro nth_equalityI) (auto simp: nth_list_update)
      have ua: "used ?a = used a'" by (simp add: used_def fun_eq_iff)
      have "cover x live + cover x (stash_blocks (stashed_deallocations ?a)) \<le> of_bool (used ?a x)" for x
        using d [rule_format, OF True]
      proof (elim disjE conjE)
        assume "stashed_deallocations a' = ?es" and "\<forall>x. cover x ?R \<le> of_bool (used a' x)"
        then show ?thesis unfolding ua by (simp only: cover_simps stashed_update)
      next
        assume "alloc_count a = 0" "stashed_deallocations a' = map (\<lambda>_. null_entry) ?es"
        with alloc_inv_idle [OF Cons.prems(1)] null show ?thesis by simp
      qed
      moreover have "heap_next a' \<le> heap_len a'" using t Cons.prems(1) by (auto simp: alloc_inv_def)
      ultimately have "alloc_inv ?a live" using t Cons.prems(1) by (simp add: alloc_inv_def)
      from Cons.IH [OF this] Cons.prems(2) len obtain a'' where
        "retry_stashed is ?a = Some a''" "alloc_inv a'' live" "heap_next a'' \<le> heap_next ?a" by auto
      with t True e i len \<open>p \<noteq> 0\<close> show ?thesis by (auto intro: order_trans)
    qed
  qed
qed

section \<open>Allocation and deallocation are correct\<close>

lemma stash_blocks_replicate [simp]: "stash_blocks (replicate n null_entry) = []"
  by (induction n) (simp_all add: null_entry_def)

lemma alloc_inv_from: "unat b + unat l \<le> 2 ^ 64 \<Longrightarrow> alloc_inv (alloc_from b l v) []"
  by (simp add: alloc_inv_def alloc_from_def)

lemma alloc_takes_block:
  assumes inv: "alloc_inv a live" and l: "from_size_align (layout_size l) (layout_align l) = Some l"
    and room: "unat (heap_next a) + unat (layout_align l) + unat (layout_size l) < 2 ^ 64"
    and count: "length live + 1 < 2 ^ 64"
  shows "\<exists>ptr a'. alloc a l = Some (ptr, a') \<and>
    (ptr = 0 \<and> alloc_inv a' live \<and>
       unat (heap_len a) \<le> unat (heap_next a) + unat (layout_align l) + unat (layout_size l) \<or>
     alloc_inv a' ((ptr, layout_size l) # live) \<and>
     unat (heap_base a) \<le> unat ptr \<and> unat ptr + unat (layout_size l) < unat (heap_base a) + unat (heap_len a) \<and>
     unat (layout_align l) dvd unat ptr - unat (heap_base a) \<and>
     (\<forall>b \<in> set live. \<forall>x. \<not> (has_addr b x \<and> has_addr (ptr, layout_size l) x)))"
proof -
  have al: "layout_align l \<noteq> 0" "layout_align l \<le> 0x8000000000000000"
    using l by (auto simp: from_size_align_def split: if_splits)
  from pad_for_inv [OF inv al] room obtain ok a1 where
    p: "pad_for a l = Some (ok, a1)" "alloc_inv a1 live" "heap_base a1 = heap_base a" "heap_len a1 = heap_len a"
      "unat (heap_next a1) \<le> unat (heap_next a) + unat (layout_align l)"
      "if ok then unat (layout_align l) dvd unat (heap_next a1)
       else unat (heap_len a) \<le> unat (heap_next a) + unat (layout_align l)" by auto
  let ?s = "layout_size l"
  let ?n = "heap_next a1 + ?s"
  have ca: "checked_add (heap_next a1) ?s = Some ?n" using p(5) room by (simp add: checked_add_eq_Some_iff)
  show ?thesis
  proof (cases "ok \<and> ?n < heap_len a1")
    case False
    then have "unat (heap_len a) \<le> unat (heap_next a) + unat (layout_align l) + unat ?s"
      using p(4,5,6) checked_add_unat [OF ca] by (cases ok) (simp_all add: not_less word_le_nat_alt)
    moreover have "alloc a l = Some (0, a1)" using False p(1) ca by (auto simp: alloc_def not_less)
    ultimately show ?thesis using p(2) by blast
  next
    case True
    have bl: "unat (heap_base a1) + unat (heap_len a1) \<le> 2 ^ 64" using p(2) by (simp add: alloc_inv_def)
    have "unat (alloc_count a1) = length live" using p(2) by (simp add: alloc_inv_def)
    with count have cc: "checked_add (alloc_count a1) 1 = Some (alloc_count a1 + 1)"
      "unat (alloc_count a1 + 1) = Suc (length live)"
      by (simp_all add: checked_add_eq_Some_iff unat_word_ariths)
    let ?ptr = "heap_base a1 + ?n - ?s" and ?a = "a1\<lparr>heap_next := ?n, alloc_count := alloc_count a1 + 1\<rparr>"
    have res: "alloc a l = Some (?ptr, ?a)" using p(1) ca cc(1) True by (auto simp: alloc_def not_le)
    note bb = bump_block [OF bl ca conjunct2 [OF True]]
    have C: "cover x live + cover x (stash_blocks (stashed_deallocations a1)) \<le> of_bool (used a1 x)" for x
      using p(2) unfolding alloc_inv_def by blast
    have u: "used ?a x = used (a1\<lparr>heap_next := ?n\<rparr>) x" for x by (simp add: used_def)
    have "cover x ((?ptr, ?s) # live) + cover x (stash_blocks (stashed_deallocations ?a)) \<le> of_bool (used ?a x)" for x
      using C [of x] bb(1) [of x] unfolding u by simp
    then have inv': "alloc_inv ?a ((?ptr, ?s) # live)"
      using p(2) True cc(2) by (simp add: alloc_inv_def less_imp_le)
    have un: "unat ?n = unat (heap_next a1) + unat ?s" by (rule checked_add_unat [OF ca])
    have "unat ?n < unat (heap_len a1)" using True by (simp add: word_less_nat_alt)
    moreover have "\<not> (has_addr b x \<and> has_addr (?ptr, ?s) x)" if "b \<in> set live" for b x
    proof
      assume h: "has_addr b x \<and> has_addr (?ptr, ?s) x"
      with that have "0 < cover x live" by (auto simp: cover_def filter_empty_conv)
      with C [of x] have "used a1 x" by (cases "used a1 x") simp_all
      with h bb(1) [of x] show False by (cases "used (a1\<lparr>heap_next := ?n\<rparr>) x") simp_all
    qed
    ultimately show ?thesis using res inv' bb(2) un p(3,4,6) True by (intro exI [of _ ?ptr] exI [of _ ?a]) auto
  qed
qed



lemma dealloc_frees_block:
  assumes inv: "alloc_inv a live" and mem: "(ptr, layout_size l) \<in> set live"
  shows "\<exists>a'. dealloc a ptr l = Some a' \<and> alloc_inv a' (remove1 (ptr, layout_size l) live) \<and>
    heap_next a' \<le> heap_next a \<and>
    (ptr + layout_size l = heap_base a + heap_next a \<longrightarrow>
       unat (heap_next a') + unat (layout_size l) \<le> unat (heap_next a))"
proof -
  let ?live = "remove1 (ptr, layout_size l) live"
  have "length live \<noteq> 0" using mem by auto
  with inv have "0 < unat (alloc_count a)" by (simp add: alloc_inv_def)
  then have "1 \<le> alloc_count a" by (simp add: word_le_nat_alt)
  then have c: "checked_sub (alloc_count a) 1 = Some (alloc_count a - 1)" by (simp add: checked_sub_def)
  let ?a = "a\<lparr>alloc_count := alloc_count a - 1\<rparr>"
  have cnt: "unat (alloc_count ?a) = length ?live"
    using checked_sub_unat [OF c] inv mem by (simp add: alloc_inv_def length_remove1)
  have uu: "used ?a = used a" by (simp add: used_def fun_eq_iff)
  have C: "cover x (?live @ stash_blocks (stashed_deallocations a)) + of_bool (has_addr (ptr, layout_size l) x) \<le>
      of_bool (used ?a x)" for x
  proof -
    have "cover x live + cover x (stash_blocks (stashed_deallocations a)) \<le> of_bool (used a x)"
      using inv unfolding alloc_inv_def by blast
    then show ?thesis using cover_remove1 [OF mem, of x] unfolding uu by simp
  qed
  have bn: "unat (heap_base ?a) + unat (heap_next ?a) \<le> 2 ^ 64" using alloc_inv_bound [OF inv] by simp
  from try_dealloc_step [OF bn C] obtain did a1 where
    t: "try_dealloc ?a ptr l = Some (did, a1)" "heap_base a1 = heap_base ?a" "heap_len a1 = heap_len ?a"
      "alloc_count a1 = alloc_count ?a" "heap_next a1 \<le> heap_next ?a" "\<not> did \<longrightarrow> a1 = ?a"
    and top: "ptr + layout_size l - heap_next ?a = heap_base ?a \<longrightarrow>
      did \<and> unat (heap_next a1) + unat (layout_size l) \<le> unat (heap_next ?a)"
    and d: "did \<longrightarrow> stashed_deallocations a1 = stashed_deallocations ?a \<and>
        (\<forall>x. cover x (?live @ stash_blocks (stashed_deallocations a)) \<le> of_bool (used a1 x)) \<or>
      alloc_count ?a = 0 \<and> stashed_deallocations a1 = map (\<lambda>_. null_entry) (stashed_deallocations ?a)" by blast
  have top: "did" "unat (heap_next a1) + unat (layout_size l) \<le> unat (heap_next a)"
    if "ptr + layout_size l = heap_base a + heap_next a"
    using that top by simp_all
  have base: "unat (heap_base a) + unat (heap_len a) \<le> 2 ^ 64" "heap_next a \<le> heap_len a"
    using inv by (simp_all add: alloc_inv_def)
  show ?thesis
  proof (cases did)
    case False
    have "cover x ?live + cover x (stash_blocks (stashed_deallocations (stash ?a (ptr, l)))) \<le> of_bool (used ?a x)" for x
      using C [of x] cover_stash [of x ?a ptr l] by simp
    then have "alloc_inv (stash ?a (ptr, l)) ?live" using base cnt by (simp add: alloc_inv_def)
    moreover have "dealloc a ptr l = Some (stash ?a (ptr, l))" using False t(1,6) c by (simp add: dealloc_def)
    ultimately show ?thesis using False top(1) by auto
  next
    case True
    let ?b = "a1\<lparr>stashed_deallocations := rev (sort_key fst (stashed_deallocations a1))\<rparr>"
    have ub: "used ?b = used a1" by (simp add: used_def fun_eq_iff)
    have "cover x ?live + cover x (stash_blocks (stashed_deallocations ?b)) \<le> of_bool (used ?b x)" for x
      using d [rule_format, OF True]
    proof (elim disjE conjE)
      assume "stashed_deallocations a1 = stashed_deallocations ?a"
        and "\<forall>x. cover x (?live @ stash_blocks (stashed_deallocations a)) \<le> of_bool (used a1 x)"
      moreover have "stashed_deallocations ?a = stashed_deallocations a" by simp
      ultimately show ?thesis unfolding ub by (simp only: cover_simps cover_stash_sorted stashed_update)
    next
      assume "alloc_count ?a = 0" "stashed_deallocations a1 = map (\<lambda>_. null_entry) (stashed_deallocations ?a)"
      moreover from this cnt have "?live = []" by simp
      ultimately show ?thesis by (simp add: cover_stash_sorted)
    qed
    then have "alloc_inv ?b ?live" using base cnt t by (auto simp: alloc_inv_def)
    from retry_stashed_inv [OF this, of "[0 ..< length (stashed_deallocations ?b)]"] obtain a' where
      r: "retry_stashed [0 ..< length (stashed_deallocations ?b)] ?b = Some a'" "alloc_inv a' ?live"
      "heap_next a' \<le> heap_next ?b" by auto
    have "heap_next a' \<le> heap_next a1" "heap_next a1 \<le> heap_next a" using r(3) t(5) by simp_all
    then have le: "heap_next a' \<le> heap_next a" "unat (heap_next a') \<le> unat (heap_next a1)"
      by (auto simp: word_le_nat_alt)
    have "dealloc a ptr l = Some a'" using True t(1) c r(1) by (simp add: dealloc_def Let_def)
    moreover have "unat (heap_next a') + unat (layout_size l) \<le> unat (heap_next a)"
      if "ptr + layout_size l = heap_base a + heap_next a"
      using top(2) [OF that] le(2) by linarith
    ultimately show ?thesis using r(2) le(1) by blast
  qed
qed

text \<open>
  (C10) Freeing a live block, whatever the order of the frees, never panics, keeps the invariant
  with that block no longer live, and never raises the top of the heap; freeing the topmost
  block gives its space back at once.
\<close>

theorem dealloc_correct:
  assumes inv: "alloc_inv a live" and mem: "(ptr, layout_size l) \<in> set live"
  shows "\<exists>a'. dealloc a ptr l = Some a' \<and> alloc_inv a' (remove1 (ptr, layout_size l) live) \<and>
    heap_next a' \<le> heap_next a \<and>
    (ptr + layout_size l = heap_base a + heap_next a \<longrightarrow>
       unat (heap_next a') + unat (layout_size l) \<le> unat (heap_next a))"
  using assms by (rule dealloc_frees_block)

theorem dealloc_correct_witness:
  "\<exists>a'. dealloc (alloc_from 0x1000 0x100 False\<lparr>heap_next := 16, alloc_count := 1\<rparr>) 0x1000
       \<lparr>layout_size = 16, layout_align = 8\<rparr> = Some a' \<and> alloc_inv a' [] \<and> heap_next a' = 0"
proof -
  let ?a = "alloc_from 0x1000 0x100 False\<lparr>heap_next := 16, alloc_count := 1\<rparr>"
  have "alloc_inv ?a [(0x1000, 16)]"
    by (auto simp: alloc_inv_def alloc_from_def used_def has_addr_def word_le_nat_alt)
  from dealloc_correct [OF this, of "0x1000" "\<lparr>layout_size = 16, layout_align = 8\<rparr>"]
  show ?thesis by (auto simp: alloc_from_def unat_eq_0)
qed

end
