(* ===== verification/Process.thy ===== *)
theory Process
  imports Slots Allocator
begin

text \<open>
  Processes and their file descriptors: the data types of \<^verbatim>\<open>kernel/src/process.rs\<close> and the
  system calls of \<^verbatim>\<open>kernel/src/syscall.rs\<close> that work on a process alone (\<^verbatim>\<open>exit\<close>, \<^verbatim>\<open>close\<close>,
  \<^verbatim>\<open>lseek\<close>, \<^verbatim>\<open>fchdir\<close>, \<^verbatim>\<open>dup\<close>, \<^verbatim>\<open>dup2\<close>, the data part of \<^verbatim>\<open>pipe\<close>, \<^verbatim>\<open>read\<close> and \<^verbatim>\<open>write\<close> on a
  pipe, the installation of a node by \<^verbatim>\<open>open\<close>), with the reference counts they keep.
  The global \<^verbatim>\<open>PIPES\<close> vector is an explicit argument. A \<^verbatim>\<open>vfs::Node\<close> is a value of the type
  \<open>'n\<close>; where its size is read, the size is an argument. Results of type \<^verbatim>\<open>isize\<close> and \<^verbatim>\<open>i64\<close>
  are words in two's complement, so \<open>- 1\<close> is the error result.
\<close>

section \<open>Data\<close>

datatype SignalType = SIGILL | SIGKILL

record ProcessSignal =
  signal_type :: SignalType

record ProcessPipe =
  pipe_buf :: "u8 list"
  readers_count :: u64
  writers_count :: u64

record 'n ProcessNode =
  vfs_node :: 'n
  cursor :: u64
  node_flags :: u64
  node_path :: string
  reference_count :: u64

datatype FdMapping = Regular nat | PipeReadEnd nat | PipeWriteEnd nat | Stdin | Stdout | Stderr

datatype WaitAction = EXITED u64 | TERMINATED_BY_SIGNAL ProcessSignal

record WaitInformation =
  wait_cpid :: nat
  wait_action :: WaitAction

datatype ProcessState =
    RUNNING
  | RUNNING_NEW_CHILD_JUST_FORKED
  | FINISHED_WAITING_FOR_CHILD_PROCESS "WaitInformation option"
  | WAITING_FOR_CHILD_PROCESS "nat option"
  | WAITING_FOR_READ_PIPE nat
  | TERMINATED_NORMALLY_CHILD_WAITING_FOR_PARENT_ACKNOWLEDGEMENT u64
  | TERMINATED_DUE_TO_SIGNAL_CHILD_WAITING_FOR_PARENT_ACKNOWLEDGEMENT ProcessSignal
  | TERMINATED_NORMALLY_WAITING_TO_BE_DEALLOCATED u64
  | TERMINATED_DUE_TO_SIGNAL_WAITING_TO_BE_DEALLOCATED ProcessSignal

record 'n ProcessData =
  open_nodes :: "'n ProcessNode option list"
  fd_mappings :: "FdMapping option list"
  cwd :: string
  env :: "string \<rightharpoonup> u64"
  virtual_allocator :: BasicAlloc
  state :: ProcessState
  pid :: "nat option"
  parent_pid :: "nat option"

type_synonym pipes = "ProcessPipe option list"

definition ProcessData_new :: "string \<Rightarrow> (string \<rightharpoonup> u64) \<Rightarrow> BasicAlloc \<Rightarrow> 'n ProcessData" where
  "ProcessData_new c e va = \<lparr>open_nodes = [], fd_mappings = [Some Stdin, Some Stdout, Some Stderr],
     cwd = c, env = e, virtual_allocator = va, state = RUNNING, pid = None, parent_pid = None\<rparr>"

section \<open>Termination and signals\<close>

definition exit :: "'n ProcessData \<Rightarrow> u64 \<Rightarrow> 'n ProcessData" where
  "exit p exit_code =
     (if parent_pid p = None then p\<lparr>state := TERMINATED_NORMALLY_WAITING_TO_BE_DEALLOCATED exit_code\<rparr>
      else p\<lparr>state := TERMINATED_NORMALLY_CHILD_WAITING_FOR_PARENT_ACKNOWLEDGEMENT exit_code\<rparr>)"

fun is_dead :: "ProcessState \<Rightarrow> bool" where
  "is_dead (TERMINATED_NORMALLY_CHILD_WAITING_FOR_PARENT_ACKNOWLEDGEMENT _) = True"
| "is_dead (TERMINATED_NORMALLY_WAITING_TO_BE_DEALLOCATED _) = True"
| "is_dead (TERMINATED_DUE_TO_SIGNAL_CHILD_WAITING_FOR_PARENT_ACKNOWLEDGEMENT _) = True"
| "is_dead (TERMINATED_DUE_TO_SIGNAL_WAITING_TO_BE_DEALLOCATED _) = True"
| "is_dead _ = False"

definition disposition_terminate :: "'n ProcessData \<Rightarrow> ProcessSignal \<Rightarrow> 'n ProcessData" where
  "disposition_terminate p sig =
     (if \<not> is_dead (state p) then
        (if parent_pid p = None then p\<lparr>state := TERMINATED_DUE_TO_SIGNAL_WAITING_TO_BE_DEALLOCATED sig\<rparr>
         else p\<lparr>state := TERMINATED_DUE_TO_SIGNAL_CHILD_WAITING_FOR_PARENT_ACKNOWLEDGEMENT sig\<rparr>)
      else p)"

definition recive_signal :: "'n ProcessData \<Rightarrow> ProcessSignal \<Rightarrow> 'n ProcessData" where
  "recive_signal p sig = (case signal_type sig of
     SIGKILL \<Rightarrow> disposition_terminate p sig
   | SIGILL \<Rightarrow> disposition_terminate p sig)"

section \<open>File descriptors\<close>

text \<open>\<^verbatim>\<open>v[i].as_mut().unwrap()\<close>\<close>

definition unwrap_at :: "'a option list \<Rightarrow> nat \<Rightarrow> 'a option" where
  "unwrap_at xs i = do { slot \<leftarrow> index xs i; slot }"

definition close_node :: "'n ProcessData \<Rightarrow> nat \<Rightarrow> 'n ProcessData option" where
  "close_node p node_index = do {
     node \<leftarrow> unwrap_at (open_nodes p) node_index;
     Some (if reference_count node = 1 then p\<lparr>open_nodes := (open_nodes p)[node_index := None]\<rparr>
       else if reference_count node > 1 then
         p\<lparr>open_nodes := (open_nodes p)[node_index := Some (node\<lparr>reference_count := reference_count node - 1\<rparr>)]\<rparr>
       else p)
   }"

definition close_read_end :: "pipes \<Rightarrow> nat \<Rightarrow> pipes option" where
  "close_read_end pipes pipe_index = do {
     pipe \<leftarrow> unwrap_at pipes pipe_index;
     Some (if readers_count pipe = 1 \<and> writers_count pipe = 0 then drain_none (pipes[pipe_index := None])
       else if readers_count pipe \<ge> 1 then
         pipes[pipe_index := Some (pipe\<lparr>readers_count := readers_count pipe - 1\<rparr>)]
       else pipes)
   }"

definition close_write_end :: "pipes \<Rightarrow> nat \<Rightarrow> pipes option" where
  "close_write_end pipes pipe_index = do {
     pipe \<leftarrow> unwrap_at pipes pipe_index;
     Some (if writers_count pipe = 1 \<and> readers_count pipe = 0 then drain_none (pipes[pipe_index := None])
       else if writers_count pipe \<ge> 1 then
         pipes[pipe_index := Some (pipe\<lparr>writers_count := writers_count pipe - 1\<rparr>)]
       else pipes)
   }"

fun close_target :: "pipes \<Rightarrow> 'n ProcessData \<Rightarrow> FdMapping \<Rightarrow> (pipes \<times> 'n ProcessData) option" where
  "close_target pipes p (Regular node_index) = do { p \<leftarrow> close_node p node_index; Some (pipes, p) }"
| "close_target pipes p (PipeReadEnd pipe_index) = do { pipes \<leftarrow> close_read_end pipes pipe_index; Some (pipes, p) }"
| "close_target pipes p (PipeWriteEnd pipe_index) = do { pipes \<leftarrow> close_write_end pipes pipe_index; Some (pipes, p) }"
| "close_target pipes p _ = Some (pipes, p)"

definition close :: "pipes \<Rightarrow> 'n ProcessData \<Rightarrow> nat \<Rightarrow> (u64 \<times> pipes \<times> 'n ProcessData) option" where
  "close pipes p fd = (case lookup_slot (fd_mappings p) fd of
     None \<Rightarrow> Some (- 1, pipes, p)
   | Some fd_mapping \<Rightarrow> do {
       (pipes, p) \<leftarrow> close_target pipes p fd_mapping;
       fds \<leftarrow> index_set (fd_mappings p) fd None;
       Some (0, pipes, p\<lparr>fd_mappings := drain_none fds, open_nodes := drain_none (open_nodes p)\<rparr>)
     })"

text \<open>The \<^verbatim>\<open>Drop\<close> of a process closes its pipe ends, over the range of descriptors at its start.\<close>

fun drop_loop :: "nat list \<Rightarrow> pipes \<Rightarrow> 'n ProcessData \<Rightarrow> (pipes \<times> 'n ProcessData) option" where
  "drop_loop [] pipes p = Some (pipes, p)"
| "drop_loop (fd # fds) pipes p = do {
     slot \<leftarrow> index (fd_mappings p) fd;
     (pipes, p) \<leftarrow> (case slot of
        Some (PipeReadEnd _) \<Rightarrow> do { (r, pipes, p) \<leftarrow> close pipes p fd; Some (pipes, p) }
      | Some (PipeWriteEnd _) \<Rightarrow> do { (r, pipes, p) \<leftarrow> close pipes p fd; Some (pipes, p) }
      | _ \<Rightarrow> Some (pipes, p));
     drop_loop fds pipes p
   }"

definition drop_process :: "pipes \<Rightarrow> 'n ProcessData \<Rightarrow> pipes option" where
  "drop_process pipes p =
     map_option fst (drop_loop [0 ..< length (fd_mappings p)] pipes p)"

text \<open>The reference count increment shared by \<^verbatim>\<open>dup\<close> and \<^verbatim>\<open>dup2\<close>.\<close>

fun dup_target :: "pipes \<Rightarrow> 'n ProcessData \<Rightarrow> FdMapping \<Rightarrow> (pipes \<times> 'n ProcessData) option" where
  "dup_target pipes p (Regular node_index) = do {
     node \<leftarrow> unwrap_at (open_nodes p) node_index;
     c \<leftarrow> checked_add (reference_count node) 1;
     Some (pipes, p\<lparr>open_nodes := (open_nodes p)[node_index := Some (node\<lparr>reference_count := c\<rparr>)]\<rparr>)
   }"
| "dup_target pipes p (PipeReadEnd pipe_index) = do {
     pipe \<leftarrow> unwrap_at pipes pipe_index;
     c \<leftarrow> checked_add (readers_count pipe) 1;
     Some (pipes[pipe_index := Some (pipe\<lparr>readers_count := c\<rparr>)], p)
   }"
| "dup_target pipes p (PipeWriteEnd pipe_index) = do {
     pipe \<leftarrow> unwrap_at pipes pipe_index;
     c \<leftarrow> checked_add (writers_count pipe) 1;
     Some (pipes[pipe_index := Some (pipe\<lparr>writers_count := c\<rparr>)], p)
   }"
| "dup_target pipes p _ = Some (pipes, p)"

definition dup :: "pipes \<Rightarrow> 'n ProcessData \<Rightarrow> nat \<Rightarrow> (u64 \<times> pipes \<times> 'n ProcessData) option" where
  "dup pipes p oldfd = (case lookup_slot (fd_mappings p) oldfd of
     None \<Rightarrow> Some (- 1, pipes, p)
   | Some node_mapping \<Rightarrow> do {
       (pipes, p) \<leftarrow> dup_target pipes p node_mapping;
       let (fd, fds) = place (fd_mappings p) node_mapping;
       Some (of_nat fd, pipes, p\<lparr>fd_mappings := fds\<rparr>)
     })"

definition resize :: "'a option list \<Rightarrow> nat \<Rightarrow> 'a option list" where
  "resize xs n = take n xs @ replicate (n - length xs) None"

definition dup2 :: "pipes \<Rightarrow> 'n ProcessData \<Rightarrow> nat \<Rightarrow> u64 \<Rightarrow> (u64 \<times> pipes \<times> 'n ProcessData) option" where
  "dup2 pipes p oldfd newfd = (case lookup_slot (fd_mappings p) oldfd of
     None \<Rightarrow> Some (- 1, pipes, p)
   | Some node_mapping \<Rightarrow> do {
       (_, pipes, p) \<leftarrow> close pipes p (unat newfd);
       (pipes, p) \<leftarrow> dup_target pipes p node_mapping;
       fds \<leftarrow> (if unat newfd > length (fd_mappings p)
          then do { n \<leftarrow> checked_add newfd 1; Some (resize (fd_mappings p) (unat n)) }
          else Some (fd_mappings p));
       fds \<leftarrow> index_set fds (unat newfd) (Some node_mapping);
       Some (newfd, pipes, p\<lparr>fd_mappings := fds\<rparr>)
     })"

text \<open>The end of \<^verbatim>\<open>open\<close>: a node is installed in the first free entry, and so is its descriptor.\<close>

definition install_node :: "'n ProcessData \<Rightarrow> 'n \<Rightarrow> u64 \<Rightarrow> string \<Rightarrow> u64 \<times> 'n ProcessData" where
  "install_node p node fl path = (
     let new_open_process_node = \<lparr>vfs_node = node, cursor = 0, node_flags = fl, node_path = path, reference_count = 1\<rparr>;
         (node_index, nodes) = place (open_nodes p) new_open_process_node;
         (fd, fds) = place (fd_mappings p) (Regular node_index)
     in (of_nat fd, p\<lparr>open_nodes := nodes, fd_mappings := fds\<rparr>))"

text \<open>\<^verbatim>\<open>pipe\<close> without the two stores to user memory: the descriptors of the ends.\<close>

definition pipe_create :: "pipes \<Rightarrow> 'n ProcessData \<Rightarrow> nat \<times> nat \<times> pipes \<times> 'n ProcessData" where
  "pipe_create pipes p = (
     let pipe_index = length pipes;
         pipes = pipes @ [Some \<lparr>pipe_buf = [], readers_count = 1, writers_count = 1\<rparr>];
         (read_fd, fds) = place (fd_mappings p) (PipeReadEnd pipe_index);
         (write_fd, fds) = place fds (PipeWriteEnd pipe_index)
     in (read_fd, write_fd, pipes, p\<lparr>fd_mappings := fds\<rparr>))"

section \<open>Cursors and the working directory\<close>

definition SEEK_CUR :: u64 where "SEEK_CUR = 0"
definition SEEK_SET :: u64 where "SEEK_SET = 1"
definition SEEK_END :: u64 where "SEEK_END = 2"

text \<open>\<^verbatim>\<open>a + b\<close> on \<^verbatim>\<open>i64\<close>, which panics on overflow.\<close>

definition checked_sadd :: "u64 \<Rightarrow> u64 \<Rightarrow> u64 option" where
  "checked_sadd a b = (if sint (a + b) = sint a + sint b then Some (a + b) else None)"

definition set_cursor :: "'n ProcessData \<Rightarrow> nat \<Rightarrow> 'n ProcessNode \<Rightarrow> u64 \<Rightarrow> u64 \<times> 'n ProcessData" where
  "set_cursor p node_index node c =
     (c, p\<lparr>open_nodes := (open_nodes p)[node_index := Some (node\<lparr>cursor := c\<rparr>)]\<rparr>)"

text \<open>\<open>file_size\<close> is the size of a file node, \<open>Some None\<close> for a folder and \<open>None\<close> when reading the size panics.\<close>

definition lseek :: "('n \<Rightarrow> u64 option option) \<Rightarrow> 'n ProcessData \<Rightarrow> nat \<Rightarrow> u64 \<Rightarrow> u64 \<Rightarrow> (u64 \<times> 'n ProcessData) option" where
  "lseek file_size p fd offset whence = (case lookup_slot (fd_mappings p) fd of
     Some (Regular node_index) \<Rightarrow> do {
       node \<leftarrow> unwrap_at (open_nodes p) node_index;
       if whence = SEEK_SET then Some (set_cursor p node_index node offset)
       else if whence = SEEK_CUR then do {
         c \<leftarrow> checked_sadd (cursor node) offset;
         Some (set_cursor p node_index node c)
       }
       else if whence = SEEK_END then do {
         size_of_file \<leftarrow> file_size (vfs_node node);
         (case size_of_file of
            Some sz \<Rightarrow> do {
              c \<leftarrow> checked_sadd sz offset;
              Some (set_cursor p node_index node c)
            }
          | None \<Rightarrow> Some (- 1, p))
       }
       else Some (- 1, p)
     }
   | _ \<Rightarrow> Some (- 1, p))"

definition fchdir :: "'n ProcessData \<Rightarrow> nat \<Rightarrow> (u64 \<times> 'n ProcessData) option" where
  "fchdir p fd = (case lookup_slot (fd_mappings p) fd of
     Some (Regular node_index) \<Rightarrow> do {
       node \<leftarrow> unwrap_at (open_nodes p) node_index;
       Some (0, p\<lparr>cwd := node_path node\<rparr>)
     }
   | _ \<Rightarrow> Some (- 1, p))"

section \<open>Pipes\<close>

text \<open>The pipe arm of \<^verbatim>\<open>write\<close>, on the bytes of the user's buffer.\<close>

definition write_pipe :: "pipes \<Rightarrow> nat \<Rightarrow> u8 list \<Rightarrow> (u32 \<times> pipes) option" where
  "write_pipe pipes pipe_index buf = do {
     pipe \<leftarrow> unwrap_at pipes pipe_index;
     if readers_count pipe = 0 then Some (- 1, pipes)
     else Some (of_nat (length buf), pipes[pipe_index := Some (pipe\<lparr>pipe_buf := pipe_buf pipe @ buf\<rparr>)])
   }"

text \<open>
  The pipe arm of \<^verbatim>\<open>read\<close>: the bytes stored in the user's buffer, and \<open>None\<close> as the result
  when the instruction has to be repeated.
\<close>

definition read_pipe :: "pipes \<Rightarrow> 'n ProcessData \<Rightarrow> nat \<Rightarrow> nat \<Rightarrow>
    (u32 option \<times> u8 list \<times> pipes \<times> 'n ProcessData) option" where
  "read_pipe pipes p pipe_index cnt = do {
     pipe \<leftarrow> unwrap_at pipes pipe_index;
     let bytes = take cnt (pipe_buf pipe);
     let pipes = pipes[pipe_index := Some (pipe\<lparr>pipe_buf := drop cnt (pipe_buf pipe)\<rparr>)];
     Some (if bytes = [] then
         (if writers_count pipe = 0 then (Some 0, [], pipes, p)
          else (None, [], pipes, p\<lparr>state := WAITING_FOR_READ_PIPE pipe_index\<rparr>))
       else (Some (of_nat (length bytes)), bytes, pipes, p))
   }"

text \<open>The loop of \<^verbatim>\<open>fork\<close> that counts the pipe ends of the child.\<close>

fun fork_refs :: "FdMapping option list \<Rightarrow> pipes \<Rightarrow> pipes option" where
  "fork_refs [] pipes = Some pipes"
| "fork_refs (Some (PipeReadEnd pipe_index) # fds) pipes = do {
     pipe \<leftarrow> unwrap_at pipes pipe_index;
     c \<leftarrow> checked_add (readers_count pipe) 1;
     fork_refs fds (pipes[pipe_index := Some (pipe\<lparr>readers_count := c\<rparr>)])
   }"
| "fork_refs (Some (PipeWriteEnd pipe_index) # fds) pipes = do {
     pipe \<leftarrow> unwrap_at pipes pipe_index;
     c \<leftarrow> checked_add (writers_count pipe) 1;
     fork_refs fds (pipes[pipe_index := Some (pipe\<lparr>writers_count := c\<rparr>)])
   }"
| "fork_refs (_ # fds) pipes = fork_refs fds pipes"

end
