(* ===== verification/Riscv_Formats.thy ===== *)
theory Riscv_Formats
  imports Prelude
begin

text \<open>
  The 32-bit instruction formats of the emulator: module \<^verbatim>\<open>riscv_instruction\<close> of
  \<^verbatim>\<open>kernel/src/emulator.rs\<close>, first half, and the function \<^verbatim>\<open>sign_extend\<close>.

  The structs derive their codec from the third-party crate \<^verbatim>\<open>packed_struct\<close>, which is not
  part of the repository. It is a parameter: the record \<open>packed_struct\<close> holds the functions
  the derived code provides (reading and writing the bit range that an attribute
  \<^verbatim>\<open>bits = "lo..=hi"\<close> with \<^verbatim>\<open>bit_numbering = "lsb0"\<close> declares, and the
  \<^verbatim>\<open>from_primitive\<close> of an enum), and the locale \<open>packed_struct_crate\<close> states what the crate
  documents of them. A struct of two or four bytes is represented by the number whose
  big-endian bytes are passed to \<^verbatim>\<open>unpack\<close> and returned by \<^verbatim>\<open>pack\<close>; packing a
  fixed-width integer field does not fail and truncates to the width of the field.
\<close>

section \<open>Opcodes\<close>

datatype RiscvInstType = RType | IType | SType | BType | UType | JType

datatype RiscvCompressedInstType =
  CRType | CIType | CSSType | CIWType | CLType | CSType | CAType | CBType | CJType

datatype RiscvOpcode =
  OPIMM | OPIMM32 | LUI | AUIPC | OP | OP32 | JAL | JALR | BRANCH | LOAD | STORE | MISCMEM | SYSTEM

fun opcode_discriminant :: "RiscvOpcode \<Rightarrow> u8" where
  "opcode_discriminant OPIMM = 0b0010011"
| "opcode_discriminant OPIMM32 = 0b0011011"
| "opcode_discriminant LUI = 0b0110111"
| "opcode_discriminant AUIPC = 0b0010111"
| "opcode_discriminant OP = 0b0110011"
| "opcode_discriminant OP32 = 0b0111011"
| "opcode_discriminant JAL = 0b1101111"
| "opcode_discriminant JALR = 0b1100111"
| "opcode_discriminant BRANCH = 0b1100011"
| "opcode_discriminant LOAD = 0b0000011"
| "opcode_discriminant STORE = 0b0100011"
| "opcode_discriminant MISCMEM = 0b0001111"
| "opcode_discriminant SYSTEM = 0b1110011"

fun get_type :: "RiscvOpcode \<Rightarrow> RiscvInstType" where
  "get_type OPIMM = IType"
| "get_type OPIMM32 = IType"
| "get_type LUI = UType"
| "get_type AUIPC = UType"
| "get_type OP = RType"
| "get_type OP32 = RType"
| "get_type JAL = JType"
| "get_type JALR = IType"
| "get_type BRANCH = BType"
| "get_type LOAD = IType"
| "get_type STORE = SType"
| "get_type MISCMEM = IType"
| "get_type SYSTEM = IType"

datatype RiscvCompressedOpcode = C0 | C1 | C2

fun copcode_discriminant :: "RiscvCompressedOpcode \<Rightarrow> u8" where
  "copcode_discriminant C0 = 0b00"
| "copcode_discriminant C1 = 0b01"
| "copcode_discriminant C2 = 0b10"

section \<open>The packed\_struct crate\<close>

record packed_struct =
  field_get :: "nat \<Rightarrow> nat \<Rightarrow> u32 \<Rightarrow> u32"
  field_set :: "nat \<Rightarrow> nat \<Rightarrow> u32 \<Rightarrow> u32 \<Rightarrow> u32"
  opcode_from_primitive :: "u8 \<Rightarrow> RiscvOpcode option"
  copcode_from_primitive :: "u8 \<Rightarrow> RiscvCompressedOpcode option"

text \<open>
  \<open>field_get ps lo hi w\<close> is the value of the field at \<^verbatim>\<open>bits = "lo..=hi"\<close> of the struct
  \<open>w\<close>, and \<open>field_set ps lo hi v w\<close> is \<open>w\<close> with that field set to \<open>v\<close>, truncated.
\<close>

locale packed_struct_crate =
  fixes ps :: packed_struct
  assumes bit_field_get:
      "lo \<le> hi \<Longrightarrow> hi < 32 \<Longrightarrow> bit (field_get ps lo hi w) n \<longleftrightarrow> n \<le> hi - lo \<and> bit w (lo + n)"
    and bit_field_set:
      "lo \<le> hi \<Longrightarrow> hi < 32 \<Longrightarrow> bit (field_set ps lo hi v w) n \<longleftrightarrow>
         (if lo \<le> n \<and> n \<le> hi then bit v (n - lo) else bit w n)"
    and opcode_from_primitive:
      "opcode_from_primitive ps x = Some op \<longleftrightarrow> opcode_discriminant op = x"
    and copcode_from_primitive:
      "copcode_from_primitive ps x = Some cop \<longleftrightarrow> copcode_discriminant cop = x"

section \<open>Sign extension\<close>

definition sign_extend :: "'t::len word \<Rightarrow> 'u::len word" where
  "sign_extend val0 = (
     let val = (ucast val0 :: 'u word);
         max_shift_amount = LENGTH('t) - 1;
         top_bit = push_bit max_shift_amount (1 :: 'u word);
         all_ones = (push_bit max_shift_amount 1 - 1) OR top_bit;
         sign = (val AND top_bit \<noteq> 0)
     in if sign then val OR NOT all_ones else val AND all_ones)"

definition sign_extend_to_u64 :: "'t::len word \<Rightarrow> u64" where
  "sign_extend_to_u64 val = sign_extend val"

text \<open>The tail shared by the \<^verbatim>\<open>parse_imm\<close> functions: sign-extend from \<open>width\<close> bits.\<close>

definition extend_imm :: "nat \<Rightarrow> u32 \<Rightarrow> u32" where
  "extend_imm width non_sign_extended_imm = (
     let top_bit = push_bit (width - 1) (1 :: u32);
         all_ones = push_bit width 1 - 1;
         sign = (non_sign_extended_imm AND top_bit \<noteq> 0)
     in if sign then non_sign_extended_imm OR NOT all_ones else non_sign_extended_imm AND all_ones)"

section \<open>The formats\<close>

record RiscvRTypeInstruction =
  r_opcode :: RiscvOpcode
  r_rd :: u8
  r_funct3 :: u8
  r_rs1 :: u8
  r_rs2 :: u8
  r_funct7 :: u8

record RiscvITypeInstruction =
  i_opcode :: RiscvOpcode
  i_rd :: u8
  i_funct3 :: u8
  i_rs1 :: u8
  i_imm :: u16

record RiscvSTypeInstruction =
  s_opcode :: RiscvOpcode
  s_imm_low5 :: u8
  s_funct3 :: u8
  s_rs1 :: u8
  s_rs2 :: u8
  s_imm_hi7 :: u8

record RiscvBTypeInstruction =
  b_opcode :: RiscvOpcode
  b_imm_bit11 :: u8
  b_imm_bits_4_1 :: u8
  b_funct3 :: u8
  b_rs1 :: u8
  b_rs2 :: u8
  b_imm_bits_10_5 :: u8
  b_imm_bit12 :: u8

record RiscvUTypeInstruction =
  u_opcode :: RiscvOpcode
  u_rd :: u8
  u_imm :: u32

record RiscvJTypeInstruction =
  j_opcode :: RiscvOpcode
  j_rd :: u8
  j_imm_bits_19_12 :: u8
  j_imm_bit11 :: u8
  j_imm_bits_10_1 :: u16
  j_imm_bit20 :: u8

text \<open>\<open>get8\<close> and \<open>get16\<close> read a field into a \<^verbatim>\<open>u8\<close> or \<^verbatim>\<open>u16\<close> member.\<close>

definition get8 :: "packed_struct \<Rightarrow> nat \<Rightarrow> nat \<Rightarrow> u32 \<Rightarrow> u8" where
  "get8 ps lo hi w = ucast (field_get ps lo hi w)"

definition get16 :: "packed_struct \<Rightarrow> nat \<Rightarrow> nat \<Rightarrow> u32 \<Rightarrow> u16" where
  "get16 ps lo hi w = ucast (field_get ps lo hi w)"

definition unpack_rtype :: "packed_struct \<Rightarrow> u32 \<Rightarrow> RiscvRTypeInstruction option" where
  "unpack_rtype ps w = do {
     opcode \<leftarrow> opcode_from_primitive ps (get8 ps 0 6 w);
     Some \<lparr>r_opcode = opcode, r_rd = get8 ps 7 11 w, r_funct3 = get8 ps 12 14 w,
       r_rs1 = get8 ps 15 19 w, r_rs2 = get8 ps 20 24 w, r_funct7 = get8 ps 25 31 w\<rparr>
   }"

definition pack_rtype :: "packed_struct \<Rightarrow> RiscvRTypeInstruction \<Rightarrow> u32" where
  "pack_rtype ps i =
     field_set ps 0 6 (ucast (opcode_discriminant (r_opcode i)))
     (field_set ps 7 11 (ucast (r_rd i))
     (field_set ps 12 14 (ucast (r_funct3 i))
     (field_set ps 15 19 (ucast (r_rs1 i))
     (field_set ps 20 24 (ucast (r_rs2 i))
     (field_set ps 25 31 (ucast (r_funct7 i)) 0)))))"

definition unpack_itype :: "packed_struct \<Rightarrow> u32 \<Rightarrow> RiscvITypeInstruction option" where
  "unpack_itype ps w = do {
     opcode \<leftarrow> opcode_from_primitive ps (get8 ps 0 6 w);
     Some \<lparr>i_opcode = opcode, i_rd = get8 ps 7 11 w, i_funct3 = get8 ps 12 14 w,
       i_rs1 = get8 ps 15 19 w, i_imm = get16 ps 20 31 w\<rparr>
   }"

definition pack_itype :: "packed_struct \<Rightarrow> RiscvITypeInstruction \<Rightarrow> u32" where
  "pack_itype ps i =
     field_set ps 0 6 (ucast (opcode_discriminant (i_opcode i)))
     (field_set ps 7 11 (ucast (i_rd i))
     (field_set ps 12 14 (ucast (i_funct3 i))
     (field_set ps 15 19 (ucast (i_rs1 i))
     (field_set ps 20 31 (ucast (i_imm i)) 0))))"

definition itype_from :: "RiscvOpcode \<Rightarrow> u8 \<Rightarrow> u8 \<Rightarrow> u8 \<Rightarrow> u32 \<Rightarrow> RiscvITypeInstruction" where
  "itype_from opcode rd funct3 rs1 imm =
     \<lparr>i_opcode = opcode, i_rd = rd, i_funct3 = funct3, i_rs1 = rs1, i_imm = ucast imm\<rparr>"

definition itype_parse_imm :: "RiscvITypeInstruction \<Rightarrow> u32" where
  "itype_parse_imm i = extend_imm 12 (ucast (i_imm i))"

definition unpack_stype :: "packed_struct \<Rightarrow> u32 \<Rightarrow> RiscvSTypeInstruction option" where
  "unpack_stype ps w = do {
     opcode \<leftarrow> opcode_from_primitive ps (get8 ps 0 6 w);
     Some \<lparr>s_opcode = opcode, s_imm_low5 = get8 ps 7 11 w, s_funct3 = get8 ps 12 14 w,
       s_rs1 = get8 ps 15 19 w, s_rs2 = get8 ps 20 24 w, s_imm_hi7 = get8 ps 25 31 w\<rparr>
   }"

definition pack_stype :: "packed_struct \<Rightarrow> RiscvSTypeInstruction \<Rightarrow> u32" where
  "pack_stype ps i =
     field_set ps 0 6 (ucast (opcode_discriminant (s_opcode i)))
     (field_set ps 7 11 (ucast (s_imm_low5 i))
     (field_set ps 12 14 (ucast (s_funct3 i))
     (field_set ps 15 19 (ucast (s_rs1 i))
     (field_set ps 20 24 (ucast (s_rs2 i))
     (field_set ps 25 31 (ucast (s_imm_hi7 i)) 0)))))"

definition stype_from :: "RiscvOpcode \<Rightarrow> u8 \<Rightarrow> u8 \<Rightarrow> u8 \<Rightarrow> u32 \<Rightarrow> RiscvSTypeInstruction" where
  "stype_from opcode funct3 rs1 rs2 imm =
     \<lparr>s_opcode = opcode,
      s_imm_low5 = ucast (drop_bit 0 imm AND 0b11111),
      s_funct3 = funct3, s_rs1 = rs1, s_rs2 = rs2,
      s_imm_hi7 = ucast (drop_bit 5 imm AND 0b1111111)\<rparr>"

definition stype_parse_imm :: "RiscvSTypeInstruction \<Rightarrow> u32" where
  "stype_parse_imm i = extend_imm 12 (ucast (s_imm_low5 i) OR push_bit 5 (ucast (s_imm_hi7 i)))"

definition unpack_btype :: "packed_struct \<Rightarrow> u32 \<Rightarrow> RiscvBTypeInstruction option" where
  "unpack_btype ps w = do {
     opcode \<leftarrow> opcode_from_primitive ps (get8 ps 0 6 w);
     Some \<lparr>b_opcode = opcode, b_imm_bit11 = get8 ps 7 7 w, b_imm_bits_4_1 = get8 ps 8 11 w,
       b_funct3 = get8 ps 12 14 w, b_rs1 = get8 ps 15 19 w, b_rs2 = get8 ps 20 24 w,
       b_imm_bits_10_5 = get8 ps 25 30 w, b_imm_bit12 = get8 ps 31 31 w\<rparr>
   }"

definition pack_btype :: "packed_struct \<Rightarrow> RiscvBTypeInstruction \<Rightarrow> u32" where
  "pack_btype ps i =
     field_set ps 0 6 (ucast (opcode_discriminant (b_opcode i)))
     (field_set ps 7 7 (ucast (b_imm_bit11 i))
     (field_set ps 8 11 (ucast (b_imm_bits_4_1 i))
     (field_set ps 12 14 (ucast (b_funct3 i))
     (field_set ps 15 19 (ucast (b_rs1 i))
     (field_set ps 20 24 (ucast (b_rs2 i))
     (field_set ps 25 30 (ucast (b_imm_bits_10_5 i))
     (field_set ps 31 31 (ucast (b_imm_bit12 i)) 0)))))))"

definition btype_from :: "RiscvOpcode \<Rightarrow> u8 \<Rightarrow> u8 \<Rightarrow> u8 \<Rightarrow> u32 \<Rightarrow> RiscvBTypeInstruction" where
  "btype_from opcode funct3 rs1 rs2 imm =
     \<lparr>b_opcode = opcode,
      b_imm_bit11 = ucast (drop_bit 11 imm AND 1),
      b_imm_bits_4_1 = ucast (drop_bit 1 imm AND 0b1111),
      b_funct3 = funct3, b_rs1 = rs1, b_rs2 = rs2,
      b_imm_bits_10_5 = ucast (drop_bit 5 imm AND 0b111111),
      b_imm_bit12 = ucast (drop_bit 12 imm AND 1)\<rparr>"

definition btype_parse_imm :: "RiscvBTypeInstruction \<Rightarrow> u32" where
  "btype_parse_imm i = extend_imm 13
     (push_bit 1 (ucast (b_imm_bits_4_1 i)) OR push_bit 5 (ucast (b_imm_bits_10_5 i)) OR
      push_bit 11 (ucast (b_imm_bit11 i)) OR push_bit 12 (ucast (b_imm_bit12 i)))"

definition unpack_utype :: "packed_struct \<Rightarrow> u32 \<Rightarrow> RiscvUTypeInstruction option" where
  "unpack_utype ps w = do {
     opcode \<leftarrow> opcode_from_primitive ps (get8 ps 0 6 w);
     Some \<lparr>u_opcode = opcode, u_rd = get8 ps 7 11 w, u_imm = field_get ps 12 31 w\<rparr>
   }"

definition pack_utype :: "packed_struct \<Rightarrow> RiscvUTypeInstruction \<Rightarrow> u32" where
  "pack_utype ps i =
     field_set ps 0 6 (ucast (opcode_discriminant (u_opcode i)))
     (field_set ps 7 11 (ucast (u_rd i))
     (field_set ps 12 31 (u_imm i) 0))"

definition utype_from :: "RiscvOpcode \<Rightarrow> u8 \<Rightarrow> u32 \<Rightarrow> RiscvUTypeInstruction" where
  "utype_from opcode rd imm = \<lparr>u_opcode = opcode, u_rd = rd, u_imm = drop_bit 12 imm\<rparr>"

definition utype_parse_imm :: "RiscvUTypeInstruction \<Rightarrow> u32" where
  "utype_parse_imm i = push_bit 12 (u_imm i)"

definition unpack_jtype :: "packed_struct \<Rightarrow> u32 \<Rightarrow> RiscvJTypeInstruction option" where
  "unpack_jtype ps w = do {
     opcode \<leftarrow> opcode_from_primitive ps (get8 ps 0 6 w);
     Some \<lparr>j_opcode = opcode, j_rd = get8 ps 7 11 w, j_imm_bits_19_12 = get8 ps 12 19 w,
       j_imm_bit11 = get8 ps 20 20 w, j_imm_bits_10_1 = get16 ps 21 30 w,
       j_imm_bit20 = get8 ps 31 31 w\<rparr>
   }"

definition pack_jtype :: "packed_struct \<Rightarrow> RiscvJTypeInstruction \<Rightarrow> u32" where
  "pack_jtype ps i =
     field_set ps 0 6 (ucast (opcode_discriminant (j_opcode i)))
     (field_set ps 7 11 (ucast (j_rd i))
     (field_set ps 12 19 (ucast (j_imm_bits_19_12 i))
     (field_set ps 20 20 (ucast (j_imm_bit11 i))
     (field_set ps 21 30 (ucast (j_imm_bits_10_1 i))
     (field_set ps 31 31 (ucast (j_imm_bit20 i)) 0)))))"

definition jtype_from :: "RiscvOpcode \<Rightarrow> u8 \<Rightarrow> u32 \<Rightarrow> RiscvJTypeInstruction" where
  "jtype_from opcode rd imm =
     \<lparr>j_opcode = opcode, j_rd = rd,
      j_imm_bits_19_12 = ucast (drop_bit 12 imm AND 0b11111111),
      j_imm_bit11 = ucast (drop_bit 11 imm AND 0b1),
      j_imm_bits_10_1 = ucast (drop_bit 1 imm AND 0b1111111111),
      j_imm_bit20 = ucast (drop_bit 20 imm AND 0b1)\<rparr>"

definition jtype_parse_imm :: "RiscvJTypeInstruction \<Rightarrow> u32" where
  "jtype_parse_imm i = extend_imm 21
     (push_bit 1 (ucast (j_imm_bits_10_1 i)) OR push_bit 11 (ucast (j_imm_bit11 i)) OR
      push_bit 12 (ucast (j_imm_bits_19_12 i)) OR push_bit 20 (ucast (j_imm_bit20 i)))"

section \<open>A codec that meets the crate's contract\<close>

text \<open>
  The contract can be met: \<open>lsb0_crate\<close> reads and writes bit ranges by shifting and masking.
  It is the instance at which the theorems about the crate's clients are evaluated.
\<close>

definition all_opcodes :: "RiscvOpcode list" where
  "all_opcodes = [OPIMM, OPIMM32, LUI, AUIPC, OP, OP32, JAL, JALR, BRANCH, LOAD, STORE, MISCMEM, SYSTEM]"

definition lsb0_crate :: packed_struct where
  "lsb0_crate = \<lparr>
     field_get = (\<lambda>lo hi w. drop_bit lo w AND mask (Suc hi - lo)),
     field_set = (\<lambda>lo hi v w. (w AND NOT (push_bit lo (mask (Suc hi - lo)))) OR
                              push_bit lo (v AND mask (Suc hi - lo))),
     opcode_from_primitive = (\<lambda>x. find (\<lambda>op. opcode_discriminant op = x) all_opcodes),
     copcode_from_primitive = (\<lambda>x. find (\<lambda>op. copcode_discriminant op = x) [C0, C1, C2]) \<rparr>"

lemma opcode_discriminant_inj: "opcode_discriminant a = opcode_discriminant b \<longleftrightarrow> a = b"
  by (cases a; cases b) simp_all

lemma copcode_discriminant_inj: "copcode_discriminant a = copcode_discriminant b \<longleftrightarrow> a = b"
  by (cases a; cases b) simp_all

lemma all_opcodes_complete: "op \<in> set all_opcodes"
  by (cases op) (simp_all add: all_opcodes_def)

lemma find_inj_Some_iff:
  assumes "\<And>a b. f a = f b \<longleftrightarrow> a = b" and "y \<in> set ys"
  shows "find (\<lambda>z. f z = x) ys = Some y \<longleftrightarrow> f y = x"
proof
  assume "find (\<lambda>z. f z = x) ys = Some y"
  then show "f y = x" by (auto simp: find_Some_iff)
next
  assume "f y = x"
  with assms(2) show "find (\<lambda>z. f z = x) ys = Some y"
    by (induction ys) (auto simp: assms(1))
qed

interpretation lsb0: packed_struct_crate lsb0_crate
proof
  fix lo hi n :: nat and v w :: u32 and x :: u8
  assume r: "lo \<le> hi" "hi < 32"
  show "bit (field_get lsb0_crate lo hi w) n \<longleftrightarrow> n \<le> hi - lo \<and> bit w (lo + n)"
    using r by (auto simp: lsb0_crate_def bit_simps dest: bit_imp_le_length)
  show "bit (field_set lsb0_crate lo hi v w) n \<longleftrightarrow>
      (if lo \<le> n \<and> n \<le> hi then bit v (n - lo) else bit w n)"
    using r by (auto simp: lsb0_crate_def bit_simps dest: bit_imp_le_length)
next
  fix x op show "opcode_from_primitive lsb0_crate x = Some op \<longleftrightarrow> opcode_discriminant op = x"
    by (simp add: lsb0_crate_def find_inj_Some_iff opcode_discriminant_inj all_opcodes_complete)
next
  fix x cop show "copcode_from_primitive lsb0_crate x = Some cop \<longleftrightarrow> copcode_discriminant cop = x"
    by (cases cop) (simp_all add: lsb0_crate_def find_inj_Some_iff copcode_discriminant_inj)
qed

section \<open>Sign extension is the two's complement extension\<close>

lemma extend_imm_eq:
  assumes "0 < k" "k < 32"
  shows "extend_imm k x = signed_take_bit (k - 1) x"
proof -
  have sign: "x AND push_bit (k - 1) 1 \<noteq> 0 \<longleftrightarrow> bit x (k - 1)"
    by (rule and_bit_nonzero_iff)
  have ones: "push_bit k 1 - (1 :: u32) = mask k" by (simp add: mask_eq_exp_minus_1)
  have "extend_imm k x = (if bit x (k - 1) then x OR NOT (mask k) else x AND mask k)"
    by (simp only: extend_imm_def Let_def sign ones)
  also have "\<dots> = signed_take_bit (k - 1) x"
    using assms by (intro bit_word_eqI) (auto simp: bit_simps min_def not_le dest: top_index_eq)
  finally show ?thesis .
qed

lemma sign_extend_scast:
  fixes v :: "'t::len word"
  assumes "LENGTH('t) \<le> LENGTH('u::len)"
  shows "sign_extend v = (scast v :: 'u word)"
proof -
  have u: "bit (ucast v :: 'u word) n \<longleftrightarrow> bit v n" for n
    using assms by (auto simp: bit_simps dest: bit_imp_le_length)
  have sign: "(ucast v :: 'u word) AND push_bit (LENGTH('t) - 1) 1 \<noteq> 0 \<longleftrightarrow> bit v (LENGTH('t) - 1)"
    by (simp only: and_bit_nonzero_iff u)
  have ones: "(push_bit (LENGTH('t) - 1) 1 - 1) OR push_bit (LENGTH('t) - 1) (1 :: 'u word) = mask LENGTH('t)"
    by (intro bit_word_eqI) (auto simp: mask_eq_exp_minus_1 [symmetric] bit_simps)
  have "sign_extend v = (if bit v (LENGTH('t) - 1) then ucast v OR NOT (mask LENGTH('t))
      else ucast v AND mask LENGTH('t) :: 'u word)"
    by (simp only: sign_extend_def Let_def sign ones)
  also have "\<dots> = scast v"
    using assms by (intro bit_word_eqI) (auto simp: bit_simps min_def not_le dest: bit_imp_le_length top_index_eq)
  finally show ?thesis .
qed

lemma sign_extend_simps [simp]:
  "(sign_extend (a :: u8) :: u32) = scast a" "(sign_extend (a :: u8) :: u64) = scast a"
  "(sign_extend (b :: u16) :: u32) = scast b" "(sign_extend (b :: u16) :: u64) = scast b"
  "(sign_extend (c :: u32) :: u64) = scast c" "(sign_extend (d :: u64) :: u128) = scast d"
  "sign_extend_to_u64 c = scast c"
  by (simp_all add: sign_extend_scast sign_extend_to_u64_def)

text \<open>
  For operands at least as wide as the argument, the generic \<^verbatim>\<open>sign_extend\<close> computes the
  two's complement extension, so the extended value denotes the same signed integer.
\<close>

theorem sign_extend_sint:
  fixes v :: "'t::len word"
  assumes "LENGTH('t) \<le> LENGTH('u::len)"
  shows "sign_extend v = (scast v :: 'u word) \<and> sint (sign_extend v :: 'u word) = sint v"
  using assms by (simp add: sign_extend_scast sint_scast_up)

theorem sign_extend_sint_witness:
  "LENGTH(8) \<le> LENGTH(64) \<and> sint (sign_extend (0xFE :: u8) :: u64) = -2"
  using sign_extend_sint [of "0xFE :: u8", where 'u = 64] by simp

section \<open>Reading back a packed instruction\<close>

definition trunc_rtype :: "RiscvRTypeInstruction \<Rightarrow> RiscvRTypeInstruction" where
  "trunc_rtype i = \<lparr>r_opcode = r_opcode i, r_rd = take_bit 5 (r_rd i), r_funct3 = take_bit 3 (r_funct3 i),
     r_rs1 = take_bit 5 (r_rs1 i), r_rs2 = take_bit 5 (r_rs2 i), r_funct7 = take_bit 7 (r_funct7 i)\<rparr>"

definition trunc_itype :: "RiscvITypeInstruction \<Rightarrow> RiscvITypeInstruction" where
  "trunc_itype i = \<lparr>i_opcode = i_opcode i, i_rd = take_bit 5 (i_rd i), i_funct3 = take_bit 3 (i_funct3 i),
     i_rs1 = take_bit 5 (i_rs1 i), i_imm = take_bit 12 (i_imm i)\<rparr>"

definition trunc_stype :: "RiscvSTypeInstruction \<Rightarrow> RiscvSTypeInstruction" where
  "trunc_stype i = \<lparr>s_opcode = s_opcode i, s_imm_low5 = take_bit 5 (s_imm_low5 i),
     s_funct3 = take_bit 3 (s_funct3 i), s_rs1 = take_bit 5 (s_rs1 i), s_rs2 = take_bit 5 (s_rs2 i),
     s_imm_hi7 = take_bit 7 (s_imm_hi7 i)\<rparr>"

definition trunc_btype :: "RiscvBTypeInstruction \<Rightarrow> RiscvBTypeInstruction" where
  "trunc_btype i = \<lparr>b_opcode = b_opcode i, b_imm_bit11 = take_bit 1 (b_imm_bit11 i),
     b_imm_bits_4_1 = take_bit 4 (b_imm_bits_4_1 i), b_funct3 = take_bit 3 (b_funct3 i),
     b_rs1 = take_bit 5 (b_rs1 i), b_rs2 = take_bit 5 (b_rs2 i),
     b_imm_bits_10_5 = take_bit 6 (b_imm_bits_10_5 i), b_imm_bit12 = take_bit 1 (b_imm_bit12 i)\<rparr>"

definition trunc_utype :: "RiscvUTypeInstruction \<Rightarrow> RiscvUTypeInstruction" where
  "trunc_utype i = \<lparr>u_opcode = u_opcode i, u_rd = take_bit 5 (u_rd i), u_imm = take_bit 20 (u_imm i)\<rparr>"

definition trunc_jtype :: "RiscvJTypeInstruction \<Rightarrow> RiscvJTypeInstruction" where
  "trunc_jtype i = \<lparr>j_opcode = j_opcode i, j_rd = take_bit 5 (j_rd i),
     j_imm_bits_19_12 = take_bit 8 (j_imm_bits_19_12 i), j_imm_bit11 = take_bit 1 (j_imm_bit11 i),
     j_imm_bits_10_1 = take_bit 10 (j_imm_bits_10_1 i), j_imm_bit20 = take_bit 1 (j_imm_bit20 i)\<rparr>"

lemma opcode_discriminant_7_bits: "take_bit 7 (opcode_discriminant op) = opcode_discriminant op"
  by (cases op) simp_all

context packed_struct_crate
begin

lemma bit_get8:
  "lo \<le> hi \<Longrightarrow> hi < 32 \<Longrightarrow> bit (get8 ps lo hi w) n \<longleftrightarrow> n < 8 \<and> n \<le> hi - lo \<and> bit w (lo + n)"
  by (auto simp: get8_def bit_simps bit_field_get)

lemma bit_get16:
  "lo \<le> hi \<Longrightarrow> hi < 32 \<Longrightarrow> bit (get16 ps lo hi w) n \<longleftrightarrow> n < 16 \<and> n \<le> hi - lo \<and> bit w (lo + n)"
  by (auto simp: get16_def bit_simps bit_field_get)

lemmas bit_get = bit_field_get bit_get8 bit_get16

lemma get8_set:
  assumes "lo \<le> hi" "hi < 32" "lo' \<le> hi'" "hi' < 32"
  shows "lo = lo' \<Longrightarrow> hi = hi' \<Longrightarrow>
      get8 ps lo hi (field_set ps lo' hi' (ucast (v :: u8)) w) = take_bit (Suc hi - lo) v"
    and "hi < lo' \<or> hi' < lo \<Longrightarrow> get8 ps lo hi (field_set ps lo' hi' x w) = get8 ps lo hi w"
  using assms by (auto intro!: bit_word_eqI simp: bit_get8 bit_field_set bit_simps split: if_splits)

lemma get16_set:
  assumes "lo \<le> hi" "hi < 32" "lo' \<le> hi'" "hi' < 32"
  shows "lo = lo' \<Longrightarrow> hi = hi' \<Longrightarrow>
      get16 ps lo hi (field_set ps lo' hi' (ucast (v :: u16)) w) = take_bit (Suc hi - lo) v"
    and "hi < lo' \<or> hi' < lo \<Longrightarrow> get16 ps lo hi (field_set ps lo' hi' x w) = get16 ps lo hi w"
  using assms by (auto intro!: bit_word_eqI simp: bit_get16 bit_field_set bit_simps split: if_splits)

lemma get32_set:
  assumes "lo \<le> hi" "hi < 32" "lo' \<le> hi'" "hi' < 32"
  shows "lo = lo' \<Longrightarrow> hi = hi' \<Longrightarrow>
      field_get ps lo hi (field_set ps lo' hi' v w) = take_bit (Suc hi - lo) v"
    and "hi < lo' \<or> hi' < lo \<Longrightarrow> field_get ps lo hi (field_set ps lo' hi' x w) = field_get ps lo hi w"
  using assms by (auto intro!: bit_word_eqI simp: bit_field_get bit_field_set bit_simps
      split: if_splits dest: bit_imp_le_length)

lemma opcode_of_discriminant [simp]: "opcode_from_primitive ps (opcode_discriminant op) = Some op"
  by (simp add: opcode_from_primitive)

lemmas unpack_pack_simps = get8_set get16_set get32_set opcode_discriminant_7_bits

lemma unpack_pack_rtype: "unpack_rtype ps (pack_rtype ps i) = Some (trunc_rtype i)"
  by (simp add: unpack_rtype_def pack_rtype_def trunc_rtype_def unpack_pack_simps)

lemma unpack_pack_itype: "unpack_itype ps (pack_itype ps i) = Some (trunc_itype i)"
  by (simp add: unpack_itype_def pack_itype_def trunc_itype_def unpack_pack_simps)

lemma unpack_pack_stype: "unpack_stype ps (pack_stype ps i) = Some (trunc_stype i)"
  by (simp add: unpack_stype_def pack_stype_def trunc_stype_def unpack_pack_simps)

lemma unpack_pack_btype: "unpack_btype ps (pack_btype ps i) = Some (trunc_btype i)"
  by (simp add: unpack_btype_def pack_btype_def trunc_btype_def unpack_pack_simps)

lemma unpack_pack_utype: "unpack_utype ps (pack_utype ps i) = Some (trunc_utype i)"
  by (simp add: unpack_utype_def pack_utype_def trunc_utype_def unpack_pack_simps)

lemma unpack_pack_jtype: "unpack_jtype ps (pack_jtype ps i) = Some (trunc_jtype i)"
  by (simp add: unpack_jtype_def pack_jtype_def trunc_jtype_def unpack_pack_simps)

lemma opcode_from_primitive_bits:
  assumes "opcode_from_primitive ps (get8 ps 0 6 w) = Some op" "n < 7"
  shows "bit (opcode_discriminant op) n = bit w n"
  using assms by (simp add: opcode_from_primitive bit_get8)

lemma pack_unpack_rtype: "unpack_rtype ps w = Some i \<Longrightarrow> pack_rtype ps i = w"
  by (rule bit_word_eqI)
    (auto simp: unpack_rtype_def pack_rtype_def bit_field_set bit_get bit_simps
      opcode_from_primitive_bits split: bind_splits)

lemma pack_unpack_itype: "unpack_itype ps w = Some i \<Longrightarrow> pack_itype ps i = w"
  by (rule bit_word_eqI)
    (auto simp: unpack_itype_def pack_itype_def bit_field_set bit_get bit_simps
      opcode_from_primitive_bits split: bind_splits)

lemma pack_unpack_stype: "unpack_stype ps w = Some i \<Longrightarrow> pack_stype ps i = w"
  by (rule bit_word_eqI)
    (auto simp: unpack_stype_def pack_stype_def bit_field_set bit_get bit_simps
      opcode_from_primitive_bits split: bind_splits)

lemma pack_unpack_btype: "unpack_btype ps w = Some i \<Longrightarrow> pack_btype ps i = w"
  by (auto simp: u32_eq_iff all_less_32 unpack_btype_def pack_btype_def bit_field_set bit_get bit_simps
      opcode_from_primitive_bits split: bind_splits)

lemma pack_unpack_utype: "unpack_utype ps w = Some i \<Longrightarrow> pack_utype ps i = w"
  by (rule bit_word_eqI)
    (auto simp: unpack_utype_def pack_utype_def bit_field_set bit_get bit_simps
      opcode_from_primitive_bits split: bind_splits)

lemma pack_unpack_jtype: "unpack_jtype ps w = Some i \<Longrightarrow> pack_jtype ps i = w"
  by (auto simp: u32_eq_iff all_less_32 unpack_jtype_def pack_jtype_def bit_field_set bit_get bit_simps
      opcode_from_primitive_bits split: bind_splits)

end

text \<open>
  For every codec that meets the crate's contract, unpacking a packed instruction of any
  of the six formats gives the instruction back, each field truncated to its declared width,
  and packing an unpacked word gives the word back: the declared fields cover all 32 bits and
  do not overlap.
\<close>

theorem format_round_trip:
  assumes "packed_struct_crate ps"
  shows "unpack_rtype ps (pack_rtype ps r) = Some (trunc_rtype r) \<and>
    unpack_itype ps (pack_itype ps i) = Some (trunc_itype i) \<and>
    unpack_stype ps (pack_stype ps s) = Some (trunc_stype s) \<and>
    unpack_btype ps (pack_btype ps b) = Some (trunc_btype b) \<and>
    unpack_utype ps (pack_utype ps u) = Some (trunc_utype u) \<and>
    unpack_jtype ps (pack_jtype ps j) = Some (trunc_jtype j) \<and>
    (unpack_rtype ps w = Some r' \<longrightarrow> pack_rtype ps r' = w) \<and>
    (unpack_itype ps w = Some i' \<longrightarrow> pack_itype ps i' = w) \<and>
    (unpack_stype ps w = Some s' \<longrightarrow> pack_stype ps s' = w) \<and>
    (unpack_btype ps w = Some b' \<longrightarrow> pack_btype ps b' = w) \<and>
    (unpack_utype ps w = Some u' \<longrightarrow> pack_utype ps u' = w) \<and>
    (unpack_jtype ps w = Some j' \<longrightarrow> pack_jtype ps j' = w)"
  using packed_struct_crate.unpack_pack_rtype [OF assms] packed_struct_crate.unpack_pack_itype [OF assms]
    packed_struct_crate.unpack_pack_stype [OF assms] packed_struct_crate.unpack_pack_btype [OF assms]
    packed_struct_crate.unpack_pack_utype [OF assms] packed_struct_crate.unpack_pack_jtype [OF assms]
    packed_struct_crate.pack_unpack_rtype [OF assms] packed_struct_crate.pack_unpack_itype [OF assms]
    packed_struct_crate.pack_unpack_stype [OF assms] packed_struct_crate.pack_unpack_btype [OF assms]
    packed_struct_crate.pack_unpack_utype [OF assms] packed_struct_crate.pack_unpack_jtype [OF assms]
  by blast

theorem format_round_trip_witness:
  "packed_struct_crate lsb0_crate \<and>
   unpack_itype lsb0_crate (pack_itype lsb0_crate (itype_from OPIMM 10 0 11 0xFFFFFFFF)) =
     Some \<lparr>i_opcode = OPIMM, i_rd = 10, i_funct3 = 0, i_rs1 = 11, i_imm = 0xFFF\<rparr> \<and>
   unpack_itype lsb0_crate 0xFFF58513 =
     Some \<lparr>i_opcode = OPIMM, i_rd = 10, i_funct3 = 0, i_rs1 = 11, i_imm = 0xFFF\<rparr> \<and>
   pack_itype lsb0_crate \<lparr>i_opcode = OPIMM, i_rd = 10, i_funct3 = 0, i_rs1 = 11, i_imm = 0xFFF\<rparr> = 0xFFF58513"
proof -
  have u: "unpack_itype lsb0_crate 0xFFF58513 =
     Some \<lparr>i_opcode = OPIMM, i_rd = 10, i_funct3 = 0, i_rs1 = 11, i_imm = 0xFFF\<rparr>"
    by code_simp
  have t: "trunc_itype (itype_from OPIMM 10 0 11 0xFFFFFFFF) =
     \<lparr>i_opcode = OPIMM, i_rd = 10, i_funct3 = 0, i_rs1 = 11, i_imm = 0xFFF\<rparr>"
    by code_simp
  from u t show ?thesis
    using format_round_trip [OF lsb0.packed_struct_crate_axioms, where i = "itype_from OPIMM 10 0 11 0xFFFFFFFF"
        and i' = "\<lparr>i_opcode = OPIMM, i_rd = 10, i_funct3 = 0, i_rs1 = 11, i_imm = 0xFFF\<rparr>" and w = "0xFFF58513"]
      lsb0.packed_struct_crate_axioms by simp
qed

section \<open>Immediates survive the encoding\<close>

lemma bit_signed_take_bit_u32:
  "bit (signed_take_bit k (x :: u32)) n \<longleftrightarrow> n < 32 \<and> bit x (if n \<le> k then n else k)"
  by (auto simp: bit_simps min_def)

lemma itype_from_imm [simp]:
  "itype_parse_imm (trunc_itype (itype_from op rd f3 rs1 imm)) = signed_take_bit 11 imm"
  by (rule bit_word_eqI)
      (simp add: itype_parse_imm_def trunc_itype_def itype_from_def extend_imm_eq bit_signed_take_bit_u32 bit_simps)

lemma stype_from_imm [simp]:
  "stype_parse_imm (trunc_stype (stype_from op f3 rs1 rs2 imm)) = signed_take_bit 11 imm"
  by (simp add: u32_eq_iff all_less_32 stype_parse_imm_def trunc_stype_def stype_from_def extend_imm_eq
        bit_signed_take_bit_u32 bit_simps bit_expand del: One_nat_def and_one_eq)

lemma btype_from_imm [simp]:
  "btype_parse_imm (trunc_btype (btype_from op f3 rs1 rs2 imm)) = signed_take_bit 12 (imm AND NOT 1)"
  by (simp add: u32_eq_iff all_less_32 btype_parse_imm_def trunc_btype_def btype_from_def extend_imm_eq
        bit_signed_take_bit_u32 bit_simps bit_expand del: One_nat_def and_one_eq)

lemma utype_from_imm [simp]:
  "utype_parse_imm (trunc_utype (utype_from op rd imm)) = imm AND NOT (mask 12)"
  by (rule bit_word_eqI) (auto simp: utype_parse_imm_def trunc_utype_def utype_from_def bit_simps)

lemma jtype_from_imm [simp]:
  "jtype_parse_imm (trunc_jtype (jtype_from op rd imm)) = signed_take_bit 20 (imm AND NOT 1)"
  by (simp add: u32_eq_iff all_less_32 jtype_parse_imm_def trunc_jtype_def jtype_from_def extend_imm_eq
        bit_signed_take_bit_u32 bit_simps bit_expand del: One_nat_def and_one_eq)

text \<open>
  The immediate an instruction is built from (\<^verbatim>\<open>from\<close>), after the instruction has been
  truncated to its field widths by packing, is read by \<^verbatim>\<open>parse_imm\<close> as its low bits,
  sign-extended: 12 bits for the I and S formats, 13 bits with bit 0 dropped for B, 21 bits
  with bit 0 dropped for J, and the upper 20 bits for U.
\<close>

theorem immediate_round_trip:
  "itype_parse_imm (trunc_itype (itype_from op rd f3 rs1 imm)) = signed_take_bit 11 imm \<and>
   stype_parse_imm (trunc_stype (stype_from op f3 rs1 rs2 imm)) = signed_take_bit 11 imm \<and>
   btype_parse_imm (trunc_btype (btype_from op f3 rs1 rs2 imm)) = signed_take_bit 12 (imm AND NOT 1) \<and>
   utype_parse_imm (trunc_utype (utype_from op rd imm)) = imm AND NOT (mask 12) \<and>
   jtype_parse_imm (trunc_jtype (jtype_from op rd imm)) = signed_take_bit 20 (imm AND NOT 1)"
  by simp

end
