(* ===== verification/Riscv_Compressed.thy ===== *)
theory Riscv_Compressed
  imports Riscv_Formats
begin

text \<open>
  The compressed (RVC) instruction formats of \<^verbatim>\<open>kernel/src/emulator.rs\<close>, and the part of
  \<^verbatim>\<open>Riscv64Cpu::tick\<close> that expands a 16-bit instruction to a 32-bit one. Each format has
  its struct, the \<^verbatim>\<open>parse_\<close> functions, and the arm of \<^verbatim>\<open>tick\<close> that expands it.

  An expansion has the type \<open>u32 option option\<close>: the outer option is the panic monad (the
  additions of the register decoders are checked), the inner one is the \<^verbatim>\<open>?\<close> operator, which
  makes \<^verbatim>\<open>tick\<close> return \<^verbatim>\<open>None\<close>. An arm \<^verbatim>\<open>_ => ()\<close> leaves the fetched word
  \<open>instruction\<close> as it is.
\<close>

text \<open>The \<^verbatim>\<open>?\<close> operator inside a computation that may also panic.\<close>

definition try_opt :: "'a option \<Rightarrow> ('a \<Rightarrow> 'b option option) \<Rightarrow> 'b option option" where
  "try_opt r k = (case r of None \<Rightarrow> Some None | Some x \<Rightarrow> k x)"

lemma try_opt_simps [simp]: "try_opt None k = Some None" "try_opt (Some x) k = k x"
  by (simp_all add: try_opt_def)

section \<open>Format selection\<close>

definition get_compressed_instruction_type ::
  "packed_struct \<Rightarrow> u16 \<Rightarrow> RiscvCompressedInstType option" where
  "get_compressed_instruction_type ps inst = do {
     opcode \<leftarrow> copcode_from_primitive ps (ucast (inst AND 0b11));
     let f3 = drop_bit 13 inst AND 0b111;
     let f2 = drop_bit 10 inst AND 0b11;
     (case opcode of
       C0 \<Rightarrow> if f3 = 0b000 then Some CIWType
            else if f3 = 0b001 \<or> f3 = 0b010 \<or> f3 = 0b011 then Some CLType
            else if f3 = 0b100 then None
            else if f3 = 0b101 \<or> f3 = 0b110 \<or> f3 = 0b111 then Some CSType
            else None
     | C1 \<Rightarrow> if f3 = 0b000 \<or> f3 = 0b001 \<or> f3 = 0b010 \<or> f3 = 0b011 then Some CIType
            else if f3 = 0b100 \<and> (f2 = 0b00 \<or> f2 = 0b01 \<or> f2 = 0b10) then Some CBType
            else if f3 = 0b100 \<and> f2 = 0b11 then Some CAType
            else if f3 = 0b101 then Some CJType
            else if f3 = 0b110 \<or> f3 = 0b111 then Some CBType
            else None
     | C2 \<Rightarrow> if f3 = 0b000 \<or> f3 = 0b001 \<or> f3 = 0b010 \<or> f3 = 0b011 then Some CIType
            else if f3 = 0b100 then Some CRType
            else if f3 = 0b101 \<or> f3 = 0b110 \<or> f3 = 0b111 then Some CSSType
            else None)
   }"

section \<open>The formats and their decoders\<close>

text \<open>\<open>cget\<close> reads a field of a two-byte struct into a \<^verbatim>\<open>u8\<close> member.\<close>

definition cget :: "packed_struct \<Rightarrow> nat \<Rightarrow> nat \<Rightarrow> u16 \<Rightarrow> u8" where
  "cget ps lo hi w = get8 ps lo hi (ucast w)"

record RiscvCRTypeInstruction =
  cr_opcode :: RiscvCompressedOpcode
  cr_rs2 :: u8
  cr_rd_rs1 :: u8
  cr_funct4 :: u8

definition unpack_cr :: "packed_struct \<Rightarrow> u16 \<Rightarrow> RiscvCRTypeInstruction option" where
  "unpack_cr ps w = do {
     opcode \<leftarrow> copcode_from_primitive ps (cget ps 0 1 w);
     Some \<lparr>cr_opcode = opcode, cr_rs2 = cget ps 2 6 w, cr_rd_rs1 = cget ps 7 11 w,
       cr_funct4 = cget ps 12 15 w\<rparr>
   }"

record RiscvCITypeInstruction =
  ci_opcode :: RiscvCompressedOpcode
  ci_imm_part1 :: u8
  ci_rd_rs1 :: u8
  ci_imm_part2 :: u8
  ci_funct3 :: u8

definition unpack_ci :: "packed_struct \<Rightarrow> u16 \<Rightarrow> RiscvCITypeInstruction option" where
  "unpack_ci ps w = do {
     opcode \<leftarrow> copcode_from_primitive ps (cget ps 0 1 w);
     Some \<lparr>ci_opcode = opcode, ci_imm_part1 = cget ps 2 6 w, ci_rd_rs1 = cget ps 7 11 w,
       ci_imm_part2 = cget ps 12 12 w, ci_funct3 = cget ps 13 15 w\<rparr>
   }"

definition ci_parse_imm :: "RiscvCITypeInstruction \<Rightarrow> u32 option" where
  "ci_parse_imm i = (
     let f = (ci_funct3 i, ci_opcode i);
         p1 = (ucast (ci_imm_part1 i) :: u32);
         p2 = (ucast (ci_imm_part2 i) :: u32)
     in if f = (0b000, C2) then Some (push_bit 5 (p2 AND 1) OR p1)
        else if f = (0b010, C2) then Some (push_bit 6 (p1 AND 0b11) OR push_bit 5 p2 OR (p1 AND 0b11100))
        else if f = (0b011, C2) then Some (push_bit 6 (p1 AND 0b111) OR push_bit 5 p2 OR (p1 AND 0b11000))
        else if f = (0b010, C1) \<or> f = (0b000, C1) \<or> f = (0b001, C1) then
          Some (sign_extend (push_bit 7 (ci_imm_part2 i) OR push_bit 6 (ci_imm_part2 i) OR
                             push_bit 5 (ci_imm_part2 i) OR ci_imm_part1 i))
        else if f = (0b011, C1) then
          (if ci_rd_rs1 i \<noteq> 2 then
             Some (push_bit 12 (sign_extend (push_bit 7 (ci_imm_part2 i) OR push_bit 6 (ci_imm_part2 i) OR
                                             push_bit 5 (ci_imm_part2 i) OR ci_imm_part1 i)))
           else
             let non_sign_extended_imm =
                   push_bit 9 (p2 AND 1) OR push_bit 7 (drop_bit 1 p1 AND 0b11) OR
                   push_bit 6 (drop_bit 3 p1 AND 1) OR push_bit 5 (p1 AND 0b1) OR (p1 AND 0b10000);
                 sign_bit = (p2 AND 1 \<noteq> 0);
                 all_ones = 0b1111111111
             in Some (if sign_bit then non_sign_extended_imm OR NOT all_ones
                      else non_sign_extended_imm AND all_ones))
        else None)"

record RiscvCSSTypeInstruction =
  css_opcode :: RiscvCompressedOpcode
  css_rs2 :: u8
  css_imm :: u8
  css_funct3 :: u8

definition unpack_css :: "packed_struct \<Rightarrow> u16 \<Rightarrow> RiscvCSSTypeInstruction option" where
  "unpack_css ps w = do {
     opcode \<leftarrow> copcode_from_primitive ps (cget ps 0 1 w);
     Some \<lparr>css_opcode = opcode, css_rs2 = cget ps 2 6 w, css_imm = cget ps 7 12 w,
       css_funct3 = cget ps 13 15 w\<rparr>
   }"

definition css_parse_imm :: "RiscvCSSTypeInstruction \<Rightarrow> u32 option" where
  "css_parse_imm i = (
     let f = (css_funct3 i, css_opcode i); imm = (ucast (css_imm i) :: u32)
     in if f = (0b110, C2) then Some ((imm AND 0b111100) OR push_bit 6 (imm AND 0b11))
        else if f = (0b111, C2) then Some ((imm AND 0b111000) OR push_bit 6 (imm AND 0b111))
        else None)"

record RiscvCIWTypeInstruction =
  ciw_opcode :: RiscvCompressedOpcode
  ciw_compressed_rd :: u8
  ciw_imm :: u8
  ciw_funct3 :: u8

definition unpack_ciw :: "packed_struct \<Rightarrow> u16 \<Rightarrow> RiscvCIWTypeInstruction option" where
  "unpack_ciw ps w = do {
     opcode \<leftarrow> copcode_from_primitive ps (cget ps 0 1 w);
     Some \<lparr>ciw_opcode = opcode, ciw_compressed_rd = cget ps 2 4 w, ciw_imm = cget ps 5 12 w,
       ciw_funct3 = cget ps 13 15 w\<rparr>
   }"

definition ciw_parse_imm :: "RiscvCIWTypeInstruction \<Rightarrow> u32 option" where
  "ciw_parse_imm i = (
     let imm = (ucast (ciw_imm i) :: u32)
     in if (ciw_funct3 i, ciw_opcode i) = (0b000, C0) then
          Some (push_bit 6 (drop_bit 2 imm AND 0b1111) OR push_bit 4 (drop_bit 6 imm AND 0b11) OR
                push_bit 3 (drop_bit 0 imm AND 1) OR push_bit 2 (drop_bit 1 imm AND 1))
        else None)"

definition ciw_parse_rd :: "RiscvCIWTypeInstruction \<Rightarrow> u8 option" where
  "ciw_parse_rd i = checked_add (ciw_compressed_rd i) 8"

record RiscvCLTypeInstruction =
  cl_opcode :: RiscvCompressedOpcode
  cl_compressed_rd :: u8
  cl_imm_part1 :: u8
  cl_compressed_rs1 :: u8
  cl_imm_part2 :: u8
  cl_funct3 :: u8

definition unpack_cl :: "packed_struct \<Rightarrow> u16 \<Rightarrow> RiscvCLTypeInstruction option" where
  "unpack_cl ps w = do {
     opcode \<leftarrow> copcode_from_primitive ps (cget ps 0 1 w);
     Some \<lparr>cl_opcode = opcode, cl_compressed_rd = cget ps 2 4 w, cl_imm_part1 = cget ps 5 6 w,
       cl_compressed_rs1 = cget ps 7 9 w, cl_imm_part2 = cget ps 10 12 w, cl_funct3 = cget ps 13 15 w\<rparr>
   }"

definition cl_parse_imm :: "RiscvCLTypeInstruction \<Rightarrow> u32 option" where
  "cl_parse_imm i = (
     let f = (cl_funct3 i, cl_opcode i);
         imm_part1 = (ucast (cl_imm_part1 i) :: u32);
         imm_part2 = (ucast (cl_imm_part2 i) :: u32)
     in if f = (0b010, C0) then
          Some (push_bit 6 (drop_bit 0 imm_part1 AND 1) OR push_bit 3 imm_part2 OR
                push_bit 2 (drop_bit 1 imm_part1 AND 1))
        else if f = (0b011, C0) then
          Some (push_bit 7 (drop_bit 1 imm_part1 AND 1) OR push_bit 6 (drop_bit 0 imm_part1 AND 1) OR
                push_bit 3 imm_part2)
        else None)"

definition cl_parse_rs1 :: "RiscvCLTypeInstruction \<Rightarrow> u8 option" where
  "cl_parse_rs1 i = checked_add (cl_compressed_rs1 i) 8"

definition cl_parse_rd :: "RiscvCLTypeInstruction \<Rightarrow> u8 option" where
  "cl_parse_rd i = checked_add (cl_compressed_rd i) 8"

record RiscvCSTypeInstruction =
  cs_opcode :: RiscvCompressedOpcode
  cs_compressed_rs2 :: u8
  cs_imm_part1 :: u8
  cs_compressed_rs1 :: u8
  cs_imm_part2 :: u8
  cs_funct3 :: u8

definition unpack_cs :: "packed_struct \<Rightarrow> u16 \<Rightarrow> RiscvCSTypeInstruction option" where
  "unpack_cs ps w = do {
     opcode \<leftarrow> copcode_from_primitive ps (cget ps 0 1 w);
     Some \<lparr>cs_opcode = opcode, cs_compressed_rs2 = cget ps 2 4 w, cs_imm_part1 = cget ps 5 6 w,
       cs_compressed_rs1 = cget ps 7 9 w, cs_imm_part2 = cget ps 10 12 w, cs_funct3 = cget ps 13 15 w\<rparr>
   }"

definition cs_parse_imm :: "RiscvCSTypeInstruction \<Rightarrow> u32 option" where
  "cs_parse_imm i = (
     let f = (cs_funct3 i, cs_opcode i);
         imm_part1 = (ucast (cs_imm_part1 i) :: u32);
         imm_part2 = (ucast (cs_imm_part2 i) :: u32)
     in if f = (0b110, C0) then
          Some (push_bit 6 (drop_bit 0 imm_part1 AND 1) OR push_bit 3 imm_part2 OR
                push_bit 2 (drop_bit 1 imm_part1 AND 1))
        else if f = (0b111, C0) then
          Some (push_bit 7 (drop_bit 1 imm_part1 AND 1) OR push_bit 6 (drop_bit 0 imm_part1 AND 1) OR
                push_bit 3 imm_part2)
        else None)"

definition cs_parse_rs1 :: "RiscvCSTypeInstruction \<Rightarrow> u8 option" where
  "cs_parse_rs1 i = checked_add (cs_compressed_rs1 i) 8"

definition cs_parse_rs2 :: "RiscvCSTypeInstruction \<Rightarrow> u8 option" where
  "cs_parse_rs2 i = checked_add (cs_compressed_rs2 i) 8"

record RiscvCATypeInstruction =
  ca_opcode :: RiscvCompressedOpcode
  ca_compressed_rs2 :: u8
  ca_funct2 :: u8
  ca_compressed_rd_rs1 :: u8
  ca_funct6 :: u8

definition unpack_ca :: "packed_struct \<Rightarrow> u16 \<Rightarrow> RiscvCATypeInstruction option" where
  "unpack_ca ps w = do {
     opcode \<leftarrow> copcode_from_primitive ps (cget ps 0 1 w);
     Some \<lparr>ca_opcode = opcode, ca_compressed_rs2 = cget ps 2 4 w, ca_funct2 = cget ps 5 6 w,
       ca_compressed_rd_rs1 = cget ps 7 9 w, ca_funct6 = cget ps 10 15 w\<rparr>
   }"

definition ca_parse_rs2 :: "RiscvCATypeInstruction \<Rightarrow> u8 option" where
  "ca_parse_rs2 i = checked_add (ca_compressed_rs2 i) 8"

definition ca_parse_rd_rs1 :: "RiscvCATypeInstruction \<Rightarrow> u8 option" where
  "ca_parse_rd_rs1 i = checked_add (ca_compressed_rd_rs1 i) 8"

record RiscvCBTypeInstruction =
  cb_opcode :: RiscvCompressedOpcode
  cb_imm_part1 :: u8
  cb_compressed_rd_rs1 :: u8
  cb_imm_part2 :: u8
  cb_funct3 :: u8

definition unpack_cb :: "packed_struct \<Rightarrow> u16 \<Rightarrow> RiscvCBTypeInstruction option" where
  "unpack_cb ps w = do {
     opcode \<leftarrow> copcode_from_primitive ps (cget ps 0 1 w);
     Some \<lparr>cb_opcode = opcode, cb_imm_part1 = cget ps 2 6 w, cb_compressed_rd_rs1 = cget ps 7 9 w,
       cb_imm_part2 = cget ps 10 12 w, cb_funct3 = cget ps 13 15 w\<rparr>
   }"

definition cb_parse_funct2 :: "RiscvCBTypeInstruction \<Rightarrow> u8" where
  "cb_parse_funct2 i = cb_imm_part2 i AND 0b11"

definition cb_parse_imm :: "RiscvCBTypeInstruction \<Rightarrow> u32 option" where
  "cb_parse_imm i = (
     let f = (cb_funct3 i, cb_opcode i);
         imm_part1 = (ucast (cb_imm_part1 i) :: u32);
         imm_part2 = (ucast (cb_imm_part2 i) :: u32)
     in if f = (0b110, C1) \<or> f = (0b111, C1) then
          (let sign_bit = (drop_bit 2 imm_part2 AND 1 = 1);
               non_sign_extended_imm =
                 push_bit 8 (drop_bit 2 imm_part2 AND 1) OR push_bit 6 (drop_bit 3 imm_part1 AND 0b11) OR
                 push_bit 5 (imm_part1 AND 1) OR push_bit 3 (imm_part2 AND 0b11) OR (imm_part1 AND 0b110);
               all_ones = 0b111111111
           in Some (if sign_bit then non_sign_extended_imm OR NOT all_ones
                    else non_sign_extended_imm AND all_ones))
        else if f = (0b100, C1) then
          (if cb_parse_funct2 i \<noteq> 0b10 then
             Some (push_bit 5 (drop_bit 2 imm_part2) OR imm_part1)
           else
             Some (sign_extend (push_bit 7 (drop_bit 2 (cb_imm_part2 i)) OR push_bit 6 (drop_bit 2 (cb_imm_part2 i)) OR
                                push_bit 5 (drop_bit 2 (cb_imm_part2 i)) OR cb_imm_part1 i)))
        else None)"

definition cb_parse_rd_rs1 :: "RiscvCBTypeInstruction \<Rightarrow> u8 option" where
  "cb_parse_rd_rs1 i = checked_add (cb_compressed_rd_rs1 i) 8"

record RiscvCJTypeInstruction =
  cj_opcode :: RiscvCompressedOpcode
  cj_imm_bit5 :: u8
  cj_imm_3_1 :: u8
  cj_imm_bit7 :: u8
  cj_imm_bit6 :: u8
  cj_imm_bit10 :: u8
  cj_imm_9_8 :: u8
  cj_imm_bit4 :: u8
  cj_imm_bit11 :: u8
  cj_funct3 :: u8

definition unpack_cj :: "packed_struct \<Rightarrow> u16 \<Rightarrow> RiscvCJTypeInstruction option" where
  "unpack_cj ps w = do {
     opcode \<leftarrow> copcode_from_primitive ps (cget ps 0 1 w);
     Some \<lparr>cj_opcode = opcode, cj_imm_bit5 = cget ps 2 2 w, cj_imm_3_1 = cget ps 3 5 w,
       cj_imm_bit7 = cget ps 6 6 w, cj_imm_bit6 = cget ps 7 7 w, cj_imm_bit10 = cget ps 8 8 w,
       cj_imm_9_8 = cget ps 9 10 w, cj_imm_bit4 = cget ps 11 11 w, cj_imm_bit11 = cget ps 12 12 w,
       cj_funct3 = cget ps 13 15 w\<rparr>
   }"

definition cj_parse_imm :: "RiscvCJTypeInstruction \<Rightarrow> u32 option" where
  "cj_parse_imm i =
     (if (cj_funct3 i, cj_opcode i) = (0b101, C1) then
        (let imm = push_bit 15 (ucast (cj_imm_bit11 i)) OR push_bit 14 (ucast (cj_imm_bit11 i)) OR
                   push_bit 13 (ucast (cj_imm_bit11 i)) OR push_bit 12 (ucast (cj_imm_bit11 i)) OR
                   push_bit 11 (ucast (cj_imm_bit11 i)) OR push_bit 10 (ucast (cj_imm_bit10 i)) OR
                   push_bit 8 (ucast (cj_imm_9_8 i)) OR push_bit 7 (ucast (cj_imm_bit7 i)) OR
                   push_bit 6 (ucast (cj_imm_bit6 i)) OR push_bit 5 (ucast (cj_imm_bit5 i)) OR
                   push_bit 4 (ucast (cj_imm_bit4 i)) OR push_bit 1 (ucast (cj_imm_3_1 i)) :: u16
         in Some (sign_extend imm))
      else None)"

section \<open>Expansion\<close>

text \<open>The arms of the \<^verbatim>\<open>match\<close> in \<^verbatim>\<open>tick\<close>, one definition per compressed format.\<close>

definition rtype_inst :: "RiscvOpcode \<Rightarrow> u8 \<Rightarrow> u8 \<Rightarrow> u8 \<Rightarrow> u8 \<Rightarrow> u8 \<Rightarrow> RiscvRTypeInstruction" where
  "rtype_inst opcode rd funct3 rs1 rs2 funct7 =
     \<lparr>r_opcode = opcode, r_rd = rd, r_funct3 = funct3, r_rs1 = rs1, r_rs2 = rs2, r_funct7 = funct7\<rparr>"

definition expand_cr :: "packed_struct \<Rightarrow> u32 \<Rightarrow> u16 \<Rightarrow> u32 option option" where
  "expand_cr ps instruction w = try_opt (unpack_cr ps w) (\<lambda>inst.
     let f = (cr_funct4 inst, cr_opcode inst) in
     if f = (0b1000, C2) then
       (if cr_rs2 inst = 0
        then Some (Some (pack_itype ps (itype_from JALR 0 0b000 (cr_rd_rs1 inst) 0)))
        else Some (Some (pack_rtype ps (rtype_inst OP (cr_rd_rs1 inst) 0b000 (cr_rs2 inst) 0 0b0000000))))
     else if f = (0b1001, C2) then
       (if cr_rs2 inst = 0 then
          (if cr_rd_rs1 inst \<noteq> 0
           then Some (Some (pack_itype ps (itype_from JALR 1 0b000 (cr_rd_rs1 inst) 0)))
           else Some (Some (pack_itype ps (itype_from SYSTEM 0 0b000 0 1))))
        else Some (Some (pack_rtype ps
               (rtype_inst OP (cr_rd_rs1 inst) 0b000 (cr_rd_rs1 inst) (cr_rs2 inst) 0b0000000))))
     else Some (Some instruction))"

definition expand_ci :: "packed_struct \<Rightarrow> u32 \<Rightarrow> u16 \<Rightarrow> u32 option option" where
  "expand_ci ps instruction w = try_opt (unpack_ci ps w) (\<lambda>inst.
     let f = (ci_funct3 inst, ci_opcode inst); rd = ci_rd_rs1 inst in
     if f = (0b000, C2) then
       try_opt (ci_parse_imm inst) (\<lambda>imm. Some (Some (pack_itype ps (itype_from OPIMM rd 0b001 rd imm))))
     else if f = (0b010, C2) then
       try_opt (ci_parse_imm inst) (\<lambda>imm. Some (Some (pack_itype ps (itype_from LOAD rd 0b010 2 imm))))
     else if f = (0b011, C2) then
       try_opt (ci_parse_imm inst) (\<lambda>imm. Some (Some (pack_itype ps (itype_from LOAD rd 0b011 2 imm))))
     else if f = (0b010, C1) then
       try_opt (ci_parse_imm inst) (\<lambda>imm. Some (Some (pack_itype ps (itype_from OPIMM rd 0b000 0 imm))))
     else if f = (0b011, C1) then
       (if rd \<noteq> 2
        then try_opt (ci_parse_imm inst) (\<lambda>imm. Some (Some (pack_utype ps (utype_from LUI rd imm))))
        else try_opt (ci_parse_imm inst) (\<lambda>imm. Some (Some (pack_itype ps (itype_from OPIMM 2 0b000 2 imm)))))
     else if f = (0b000, C1) then
       try_opt (ci_parse_imm inst) (\<lambda>imm. Some (Some (pack_itype ps (itype_from OPIMM rd 0b000 rd imm))))
     else if f = (0b001, C1) then
       try_opt (ci_parse_imm inst) (\<lambda>imm. Some (Some (pack_itype ps (itype_from OPIMM32 rd 0b000 rd imm))))
     else Some (Some instruction))"

definition expand_css :: "packed_struct \<Rightarrow> u32 \<Rightarrow> u16 \<Rightarrow> u32 option option" where
  "expand_css ps instruction w = try_opt (unpack_css ps w) (\<lambda>inst.
     let f = (css_funct3 inst, css_opcode inst) in
     if f = (0b110, C2) then
       try_opt (css_parse_imm inst) (\<lambda>imm. Some (Some (pack_stype ps (stype_from STORE 0b010 2 (css_rs2 inst) imm))))
     else if f = (0b111, C2) then
       try_opt (css_parse_imm inst) (\<lambda>imm. Some (Some (pack_stype ps (stype_from STORE 0b011 2 (css_rs2 inst) imm))))
     else Some (Some instruction))"

definition expand_ciw :: "packed_struct \<Rightarrow> u32 \<Rightarrow> u16 \<Rightarrow> u32 option option" where
  "expand_ciw ps instruction w = try_opt (unpack_ciw ps w) (\<lambda>inst.
     if (ciw_funct3 inst, ciw_opcode inst) = (0b000, C0) then do {
       rd \<leftarrow> ciw_parse_rd inst;
       try_opt (ciw_parse_imm inst) (\<lambda>imm. Some (Some (pack_itype ps (itype_from OPIMM rd 0b000 2 imm))))
     } else Some (Some instruction))"

definition expand_cl :: "packed_struct \<Rightarrow> u32 \<Rightarrow> u16 \<Rightarrow> u32 option option" where
  "expand_cl ps instruction w = try_opt (unpack_cl ps w) (\<lambda>inst.
     let f = (cl_funct3 inst, cl_opcode inst) in
     if f = (0b010, C0) then do {
       rd \<leftarrow> cl_parse_rd inst;
       rs1 \<leftarrow> cl_parse_rs1 inst;
       try_opt (cl_parse_imm inst) (\<lambda>imm. Some (Some (pack_itype ps (itype_from LOAD rd 0b010 rs1 imm))))
     } else if f = (0b011, C0) then do {
       rd \<leftarrow> cl_parse_rd inst;
       rs1 \<leftarrow> cl_parse_rs1 inst;
       try_opt (cl_parse_imm inst) (\<lambda>imm. Some (Some (pack_itype ps (itype_from LOAD rd 0b011 rs1 imm))))
     } else Some (Some instruction))"

definition expand_cs :: "packed_struct \<Rightarrow> u32 \<Rightarrow> u16 \<Rightarrow> u32 option option" where
  "expand_cs ps instruction w = try_opt (unpack_cs ps w) (\<lambda>inst.
     let f = (cs_funct3 inst, cs_opcode inst) in
     if f = (0b110, C0) then do {
       rs1 \<leftarrow> cs_parse_rs1 inst;
       rs2 \<leftarrow> cs_parse_rs2 inst;
       try_opt (cs_parse_imm inst) (\<lambda>imm. Some (Some (pack_stype ps (stype_from STORE 0b010 rs1 rs2 imm))))
     } else if f = (0b111, C0) then do {
       rs1 \<leftarrow> cs_parse_rs1 inst;
       rs2 \<leftarrow> cs_parse_rs2 inst;
       try_opt (cs_parse_imm inst) (\<lambda>imm. Some (Some (pack_stype ps (stype_from STORE 0b011 rs1 rs2 imm))))
     } else Some (Some instruction))"

definition expand_ca :: "packed_struct \<Rightarrow> u32 \<Rightarrow> u16 \<Rightarrow> u32 option option" where
  "expand_ca ps instruction w = try_opt (unpack_ca ps w) (\<lambda>inst.
     let f = (ca_funct6 inst, ca_funct2 inst, ca_opcode inst);
         emit = (\<lambda>opcode funct3 funct7. do {
           rd \<leftarrow> ca_parse_rd_rs1 inst;
           rs1 \<leftarrow> ca_parse_rd_rs1 inst;
           rs2 \<leftarrow> ca_parse_rs2 inst;
           Some (Some (pack_rtype ps (rtype_inst opcode rd funct3 rs1 rs2 funct7)))
         }) in
     if f = (0b100011, 0b11, C1) then emit OP 0b111 0b0000000
     else if f = (0b100011, 0b10, C1) then emit OP 0b110 0b0000000
     else if f = (0b100011, 0b01, C1) then emit OP 0b100 0b0000000
     else if f = (0b100011, 0b00, C1) then emit OP 0b000 0b0100000
     else if f = (0b100111, 0b01, C1) then emit OP32 0b000 0b0000000
     else if f = (0b100111, 0b00, C1) then emit OP32 0b000 0b0100000
     else Some (Some instruction))"

definition expand_cb :: "packed_struct \<Rightarrow> u32 \<Rightarrow> u16 \<Rightarrow> u32 option option" where
  "expand_cb ps instruction w = try_opt (unpack_cb ps w) (\<lambda>inst.
     let f = (cb_funct3 inst, cb_opcode inst) in
     if f = (0b110, C1) then do {
       rs1 \<leftarrow> cb_parse_rd_rs1 inst;
       try_opt (cb_parse_imm inst) (\<lambda>imm. Some (Some (pack_btype ps (btype_from BRANCH 0b000 rs1 0 imm))))
     } else if f = (0b111, C1) then do {
       rs1 \<leftarrow> cb_parse_rd_rs1 inst;
       try_opt (cb_parse_imm inst) (\<lambda>imm. Some (Some (pack_btype ps (btype_from BRANCH 0b001 rs1 0 imm))))
     } else if f = (0b100, C1) then
       (if cb_parse_funct2 inst = 0b00 then do {
          rd \<leftarrow> cb_parse_rd_rs1 inst;
          try_opt (cb_parse_imm inst) (\<lambda>imm. Some (Some (pack_itype ps (itype_from OPIMM rd 0b101 rd imm))))
        } else if cb_parse_funct2 inst = 0b01 then do {
          rd \<leftarrow> cb_parse_rd_rs1 inst;
          try_opt (cb_parse_imm inst) (\<lambda>imm.
            Some (Some (pack_itype ps (itype_from OPIMM rd 0b101 rd (imm OR 0b010000000000)))))
        } else if cb_parse_funct2 inst = 0b10 then do {
          rd \<leftarrow> cb_parse_rd_rs1 inst;
          try_opt (cb_parse_imm inst) (\<lambda>imm. Some (Some (pack_itype ps (itype_from OPIMM rd 0b111 rd imm))))
        } else Some (Some instruction))
     else Some (Some instruction))"

definition expand_cj :: "packed_struct \<Rightarrow> u32 \<Rightarrow> u16 \<Rightarrow> u32 option option" where
  "expand_cj ps instruction w = try_opt (unpack_cj ps w) (\<lambda>inst.
     if (cj_funct3 inst, cj_opcode inst) = (0b101, C1) then
       try_opt (cj_parse_imm inst) (\<lambda>imm. Some (Some (pack_jtype ps (jtype_from JAL 0 imm))))
     else Some (Some instruction))"

definition expand :: "packed_struct \<Rightarrow> u32 \<Rightarrow> u32 option option" where
  "expand ps instruction = (
     let compressed_inst = (ucast instruction :: u16) in
     try_opt (get_compressed_instruction_type ps compressed_inst) (\<lambda>ty.
       case ty of
         CRType \<Rightarrow> expand_cr ps instruction compressed_inst
       | CIType \<Rightarrow> expand_ci ps instruction compressed_inst
       | CSSType \<Rightarrow> expand_css ps instruction compressed_inst
       | CIWType \<Rightarrow> expand_ciw ps instruction compressed_inst
       | CLType \<Rightarrow> expand_cl ps instruction compressed_inst
       | CSType \<Rightarrow> expand_cs ps instruction compressed_inst
       | CAType \<Rightarrow> expand_ca ps instruction compressed_inst
       | CBType \<Rightarrow> expand_cb ps instruction compressed_inst
       | CJType \<Rightarrow> expand_cj ps instruction compressed_inst))"

end
