(* ===== verification/Virtmem.thy ===== *)
theory Virtmem
  imports Prelude
begin

text \<open>
  The emulator's memory (\<^verbatim>\<open>kernel/src/virtmem.rs\<close>): virtual regions backed by byte
  vectors, the region table of \<^verbatim>\<open>LittleEndianVirtualMemory\<close>, and the little-endian
  accessors of the trait \<^verbatim>\<open>EmulatorMemory\<close> (\<^verbatim>\<open>kernel/src/emulator.rs\<close>) that are
  implemented on it. The trait itself is the record of operations \<open>mem_ops\<close>, and the
  contract its comment documents is the locale \<open>emulator_memory\<close>. It is
  interpreted on the region table at the end, where the memory is also shown to refine a
  partial map from addresses to bytes.
\<close>

section \<open>The trait EmulatorMemory\<close>

record 'm mem_ops =
  read_u8_ne :: "'m \<Rightarrow> u64 \<Rightarrow> u8 option"
  write_u8_ne :: "'m \<Rightarrow> u64 \<Rightarrow> u8 \<Rightarrow> 'm option"
  read_u16_ne :: "'m \<Rightarrow> u64 \<Rightarrow> u16 option"
  write_u16_ne :: "'m \<Rightarrow> u64 \<Rightarrow> u16 \<Rightarrow> 'm option"
  read_u32_ne :: "'m \<Rightarrow> u64 \<Rightarrow> u32 option"
  write_u32_ne :: "'m \<Rightarrow> u64 \<Rightarrow> u32 \<Rightarrow> 'm option"
  read_u64_ne :: "'m \<Rightarrow> u64 \<Rightarrow> u64 option"
  write_u64_ne :: "'m \<Rightarrow> u64 \<Rightarrow> u64 \<Rightarrow> 'm option"
  read_u32_le :: "'m \<Rightarrow> u64 \<Rightarrow> u32 option"

section \<open>Virtual regions\<close>

record VirtRegion =
  virtual_start :: u64
  backing_storage :: "u8 list"

definition region_len :: "VirtRegion \<Rightarrow> nat" where
  "region_len r = length (backing_storage r)"

definition get_virtual_end_inclusive :: "VirtRegion \<Rightarrow> u64 option" where
  "get_virtual_end_inclusive r = do {
     before \<leftarrow> checked_sub (virtual_start r) 1;
     checked_add before (of_nat (region_len r))
   }"

definition region_try_map :: "VirtRegion \<Rightarrow> u64 \<Rightarrow> nat option option" where
  "region_try_map r virt_addr = do {
     end_incl \<leftarrow> get_virtual_end_inclusive r;
     Some (if virtual_start r \<le> virt_addr \<and> virt_addr \<le> end_incl
           then Some (unat (virt_addr - virtual_start r)) else None)
   }"

definition try_reverse_map :: "VirtRegion \<Rightarrow> nat \<Rightarrow> u64 option option" where
  "try_reverse_map r offset_in_region =
     (if offset_in_region > region_len r then Some None
      else do { a \<leftarrow> checked_add (of_nat offset_in_region) (virtual_start r); Some (Some a) })"

definition overlaps_virtually_with :: "VirtRegion \<Rightarrow> VirtRegion \<Rightarrow> bool option" where
  "overlaps_virtually_with self other = do {
     other_end \<leftarrow> get_virtual_end_inclusive other;
     if virtual_start self > other_end then Some False
     else do {
       self_end \<leftarrow> get_virtual_end_inclusive self;
       Some (\<not> self_end < virtual_start other)
     }
   }"

section \<open>The region table\<close>

record MappingInfo =
  offset_in_region :: nat
  region_index :: nat

record LittleEndianVirtualMemory =
  vm_map :: "VirtRegion list"

definition vm_new :: LittleEndianVirtualMemory where
  "vm_new = \<lparr>vm_map = []\<rparr>"

definition get_number_of_regions :: "LittleEndianVirtualMemory \<Rightarrow> nat" where
  "get_number_of_regions m = length (vm_map m)"

fun find_map_region :: "nat \<Rightarrow> VirtRegion list \<Rightarrow> u64 \<Rightarrow> (VirtRegion \<times> MappingInfo) option option" where
  "find_map_region i [] a = Some None"
| "find_map_region i (r # rs) a = do {
     hit \<leftarrow> region_try_map r a;
     case hit of
       Some off \<Rightarrow> Some (Some (r, \<lparr>offset_in_region = off, region_index = i\<rparr>))
     | None \<Rightarrow> find_map_region (Suc i) rs a
   }"

definition try_map :: "LittleEndianVirtualMemory \<Rightarrow> u64 \<Rightarrow> (VirtRegion \<times> MappingInfo) option option" where
  "try_map m virt_addr = find_map_region 0 (vm_map m) virt_addr"

fun any_overlap :: "VirtRegion list \<Rightarrow> VirtRegion \<Rightarrow> bool option" where
  "any_overlap [] new_range = Some False"
| "any_overlap (r # rs) new_range = do {
     b \<leftarrow> overlaps_virtually_with r new_range;
     if b then Some True else any_overlap rs new_range
   }"

definition add_region ::
  "LittleEndianVirtualMemory \<Rightarrow> u64 \<Rightarrow> u8 list \<Rightarrow> (unit option \<times> LittleEndianVirtualMemory) option" where
  "add_region m virt_addr data = do {
     let new_range = \<lparr>virtual_start = virt_addr, backing_storage = data\<rparr>;
     overlap \<leftarrow> any_overlap (vm_map m) new_range;
     Some (if overlap then (None, m)
           else (Some (), m\<lparr>vm_map := vm_map m @ [new_range]\<rparr>))
   }"

definition remove_region :: "LittleEndianVirtualMemory \<Rightarrow> nat \<Rightarrow> LittleEndianVirtualMemory option" where
  "remove_region m i =
     (if i < length (vm_map m)
      then Some (m\<lparr>vm_map := take i (vm_map m) @ drop (Suc i) (vm_map m)\<rparr>) else None)"

definition clear_regions :: "LittleEndianVirtualMemory \<Rightarrow> LittleEndianVirtualMemory" where
  "clear_regions m = m\<lparr>vm_map := []\<rparr>"

section \<open>Memory accesses\<close>

text \<open>
  \<open>map_or_panic\<close> is the \<^verbatim>\<open>if let Some(val) = self.try_map(addr) { val } else { panic!(..) }\<close>
  at the head of every accessor. A multi-byte read takes the slice
  \<^verbatim>\<open>backing_storage[off..off + N]\<close>, which panics past the end of the region; a
  multi-byte write stores one byte after the other.
\<close>

definition map_or_panic :: "LittleEndianVirtualMemory \<Rightarrow> u64 \<Rightarrow> (VirtRegion \<times> MappingInfo) option" where
  "map_or_panic m a = do { hit \<leftarrow> try_map m a; hit }"

definition load_slice :: "LittleEndianVirtualMemory \<Rightarrow> u64 \<Rightarrow> nat \<Rightarrow> u8 list option" where
  "load_slice m a n = do {
     (r, info) \<leftarrow> map_or_panic m a;
     (if offset_in_region info + n \<le> length (backing_storage r)
      then Some (take n (drop (offset_in_region info) (backing_storage r))) else None)
   }"

fun store_loop :: "u8 list \<Rightarrow> nat \<Rightarrow> u8 list \<Rightarrow> u8 list option" where
  "store_loop st off [] = Some st"
| "store_loop st off (b # bs) = do {
     st' \<leftarrow> index_set st off b;
     store_loop st' (Suc off) bs
   }"

definition store_slice ::
  "LittleEndianVirtualMemory \<Rightarrow> u64 \<Rightarrow> u8 list \<Rightarrow> LittleEndianVirtualMemory option" where
  "store_slice m a bs = do {
     (r, info) \<leftarrow> map_or_panic m a;
     st \<leftarrow> store_loop (backing_storage r) (offset_in_region info) bs;
     Some (m\<lparr>vm_map := (vm_map m)[region_index info := r\<lparr>backing_storage := st\<rparr>]\<rparr>)
   }"

definition vm_read_u8_ne :: "LittleEndianVirtualMemory \<Rightarrow> u64 \<Rightarrow> u8 option" where
  "vm_read_u8_ne m addr = do {
     (r, info) \<leftarrow> map_or_panic m addr;
     index (backing_storage r) (offset_in_region info)
   }"

definition vm_write_u8_ne :: "LittleEndianVirtualMemory \<Rightarrow> u64 \<Rightarrow> u8 \<Rightarrow> LittleEndianVirtualMemory option" where
  "vm_write_u8_ne m addr val = do {
     (r, info) \<leftarrow> map_or_panic m addr;
     st \<leftarrow> index_set (backing_storage r) (offset_in_region info) val;
     Some (m\<lparr>vm_map := (vm_map m)[region_index info := r\<lparr>backing_storage := st\<rparr>]\<rparr>)
   }"

definition vm_read_u16_ne :: "LittleEndianVirtualMemory \<Rightarrow> u64 \<Rightarrow> u16 option" where
  "vm_read_u16_ne m addr = map_option from_le_bytes (load_slice m addr 2)"

definition vm_write_u16_ne :: "LittleEndianVirtualMemory \<Rightarrow> u64 \<Rightarrow> u16 \<Rightarrow> LittleEndianVirtualMemory option" where
  "vm_write_u16_ne m addr val = store_slice m addr (to_le_bytes val)"

definition vm_read_u32_ne :: "LittleEndianVirtualMemory \<Rightarrow> u64 \<Rightarrow> u32 option" where
  "vm_read_u32_ne m addr = map_option from_le_bytes (load_slice m addr 4)"

definition vm_write_u32_ne :: "LittleEndianVirtualMemory \<Rightarrow> u64 \<Rightarrow> u32 \<Rightarrow> LittleEndianVirtualMemory option" where
  "vm_write_u32_ne m addr val = store_slice m addr (to_le_bytes val)"

definition vm_read_u64_ne :: "LittleEndianVirtualMemory \<Rightarrow> u64 \<Rightarrow> u64 option" where
  "vm_read_u64_ne m addr = map_option from_le_bytes (load_slice m addr 8)"

definition vm_write_u64_ne :: "LittleEndianVirtualMemory \<Rightarrow> u64 \<Rightarrow> u64 \<Rightarrow> LittleEndianVirtualMemory option" where
  "vm_write_u64_ne m addr val = store_slice m addr (to_le_bytes val)"

definition vm_read_u32_le :: "LittleEndianVirtualMemory \<Rightarrow> u64 \<Rightarrow> u32 option" where
  "vm_read_u32_le m addr = map_option from_le_bytes (load_slice m addr 4)"

definition vm_ops :: "LittleEndianVirtualMemory mem_ops" where
  "vm_ops = \<lparr>
     read_u8_ne = vm_read_u8_ne, write_u8_ne = vm_write_u8_ne,
     read_u16_ne = vm_read_u16_ne, write_u16_ne = vm_write_u16_ne,
     read_u32_ne = vm_read_u32_ne, write_u32_ne = vm_write_u32_ne,
     read_u64_ne = vm_read_u64_ne, write_u64_ne = vm_write_u64_ne,
     read_u32_le = vm_read_u32_le \<rparr>"

section \<open>Well-formed region tables\<close>

text \<open>
  \<open>region_ok\<close>: the end of the region can be computed without overflow, in either
  direction. \<open>vm_inv\<close>: every region is so, and no two regions share an address.
\<close>

definition region_ok :: "VirtRegion \<Rightarrow> bool" where
  "region_ok r \<longleftrightarrow> virtual_start r \<noteq> 0 \<and> unat (virtual_start r) + region_len r \<le> 2 ^ 64"

definition contains :: "VirtRegion \<Rightarrow> u64 \<Rightarrow> bool" where
  "contains r a \<longleftrightarrow>
     unat (virtual_start r) \<le> unat a \<and> unat a < unat (virtual_start r) + region_len r"

definition region_disjoint :: "VirtRegion \<Rightarrow> VirtRegion \<Rightarrow> bool" where
  "region_disjoint r s \<longleftrightarrow>
     unat (virtual_start s) + region_len s \<le> unat (virtual_start r) \<or>
     unat (virtual_start r) + region_len r \<le> unat (virtual_start s)"

definition vm_inv :: "LittleEndianVirtualMemory \<Rightarrow> bool" where
  "vm_inv m \<longleftrightarrow> (\<forall>r \<in> set (vm_map m). region_ok r) \<and> sorted_wrt region_disjoint (vm_map m)"

definition region_byte :: "VirtRegion \<Rightarrow> u64 \<Rightarrow> u8 option" where
  "region_byte r a =
     (if contains r a then Some (backing_storage r ! (unat a - unat (virtual_start r))) else None)"

fun bytes_of :: "VirtRegion list \<Rightarrow> u64 \<Rightarrow> u8 option" where
  "bytes_of [] a = None"
| "bytes_of (r # rs) a = (case region_byte r a of Some b \<Rightarrow> Some b | None \<Rightarrow> bytes_of rs a)"

definition vm_byte :: "LittleEndianVirtualMemory \<Rightarrow> u64 \<Rightarrow> u8 option" where
  "vm_byte m a = bytes_of (vm_map m) a"

lemma region_len_less: "region_ok r \<Longrightarrow> region_len r < 2 ^ 64"
  using unat_gt_0 [of "virtual_start r"] by (auto simp: region_ok_def)

lemma unat_of_region_len [simp]:
  "region_ok r \<Longrightarrow> unat (of_nat (region_len r) :: u64) = region_len r"
  using region_len_less [of r] by (simp add: unat_of_nat)

lemma virtual_end_unat:
  assumes "region_ok r"
  shows "\<exists>e. get_virtual_end_inclusive r = Some e \<and>
    unat e + 1 = unat (virtual_start r) + region_len r"
proof -
  from assms have pos: "0 < unat (virtual_start r)"
    by (simp add: region_ok_def unat_gt_0)
  then have "(1 :: u64) \<le> virtual_start r" by (simp add: word_le_nat_alt)
  then have sub: "checked_sub (virtual_start r) 1 = Some (virtual_start r - 1)"
    and un: "unat (virtual_start r - 1) = unat (virtual_start r) - 1"
    using pos by (simp_all add: checked_sub_def unat_sub)
  have add: "unat (virtual_start r - 1) + unat (of_nat (region_len r) :: u64) < 2 ^ LENGTH(64)"
    using assms pos by (simp add: un) (auto simp: region_ok_def)
  then have "get_virtual_end_inclusive r = Some (virtual_start r - 1 + of_nat (region_len r))"
    by (simp add: get_virtual_end_inclusive_def sub checked_add_nat)
  moreover from this add
  have "unat (virtual_start r - 1 + of_nat (region_len r)) + 1 = unat (virtual_start r) + region_len r"
    using assms pos by (subst unat_add_lem [THEN iffD1]) (auto simp: un)
  ultimately show ?thesis by blast
qed

lemma region_try_map_eq:
  assumes "region_ok r"
  shows "region_try_map r a =
    Some (if contains r a then Some (unat a - unat (virtual_start r)) else None)"
proof -
  from virtual_end_unat [OF assms] obtain e
    where e: "get_virtual_end_inclusive r = Some e"
      and ue: "unat e + 1 = unat (virtual_start r) + region_len r" by blast
  have "virtual_start r \<le> a \<and> a \<le> e \<longleftrightarrow> contains r a"
    using ue by (auto simp: contains_def word_le_nat_alt)
  moreover have "virtual_start r \<le> a \<Longrightarrow> unat (a - virtual_start r) = unat a - unat (virtual_start r)"
    by (simp add: unat_sub)
  ultimately show ?thesis
    by (auto simp: region_try_map_def e)
qed

lemma overlaps_eq:
  assumes "region_ok r" and "region_ok s"
  shows "overlaps_virtually_with r s = Some (\<not> region_disjoint r s)"
proof -
  from virtual_end_unat [OF assms(1)] obtain e
    where e: "get_virtual_end_inclusive r = Some e"
      and ue: "unat e + 1 = unat (virtual_start r) + region_len r" by blast
  from virtual_end_unat [OF assms(2)] obtain f
    where f: "get_virtual_end_inclusive s = Some f"
      and uf: "unat f + 1 = unat (virtual_start s) + region_len s" by blast
  have "f < virtual_start r \<longleftrightarrow> unat (virtual_start s) + region_len s \<le> unat (virtual_start r)"
    and "e < virtual_start s \<longleftrightarrow> unat (virtual_start r) + region_len r \<le> unat (virtual_start s)"
    using ue uf by (auto simp: word_less_nat_alt)
  then show ?thesis by (auto simp: overlaps_virtually_with_def e f region_disjoint_def)
qed

lemma any_overlap_eq:
  "\<forall>r \<in> set rs. region_ok r \<Longrightarrow> region_ok s \<Longrightarrow>
   any_overlap rs s = Some (\<exists>r \<in> set rs. \<not> region_disjoint r s)"
  by (induction rs) (auto simp: overlaps_eq)

lemma contains_disjoint: "region_disjoint r s \<Longrightarrow> contains r a \<Longrightarrow> \<not> contains s a"
  by (auto simp: region_disjoint_def contains_def)

lemma region_disjoint_sym: "region_disjoint r s \<longleftrightarrow> region_disjoint s r"
  by (auto simp: region_disjoint_def)

lemma vm_inv_nth_disjoint:
  assumes "vm_inv m" "i < length (vm_map m)" "j < length (vm_map m)" "i \<noteq> j"
  shows "region_disjoint (vm_map m ! i) (vm_map m ! j)"
proof (cases "i < j")
  case True
  with assms show ?thesis by (simp add: vm_inv_def sorted_wrt_iff_nth_less)
next
  case False
  with assms have "region_disjoint (vm_map m ! j) (vm_map m ! i)"
    by (simp add: vm_inv_def sorted_wrt_iff_nth_less)
  then show ?thesis by (simp add: region_disjoint_sym)
qed

lemma vm_inv_contains_unique:
  assumes "vm_inv m" "i < length (vm_map m)" "j < length (vm_map m)"
    "contains (vm_map m ! i) a" "contains (vm_map m ! j) a"
  shows "i = j"
  using assms vm_inv_nth_disjoint contains_disjoint by blast

lemma find_map_region_cases:
  assumes "\<forall>r \<in> set rs. region_ok r"
  shows "(\<exists>k < length rs. contains (rs ! k) a \<and> find_map_region i rs a =
            Some (Some (rs ! k, \<lparr>offset_in_region = unat a - unat (virtual_start (rs ! k)),
                                 region_index = i + k\<rparr>)))
       \<or> ((\<forall>r \<in> set rs. \<not> contains r a) \<and> find_map_region i rs a = Some None)"
  using assms
proof (induction rs arbitrary: i)
  case Nil
  then show ?case by simp
next
  case (Cons r rs)
  show ?case
  proof (cases "contains r a")
    case True
    with Cons.prems show ?thesis by (auto simp: region_try_map_eq intro!: exI [of _ 0])
  next
    case False
    with Cons.prems have step: "find_map_region i (r # rs) a = find_map_region (Suc i) rs a"
      by (simp add: region_try_map_eq)
    from Cons.IH [of "Suc i"] Cons.prems show ?thesis
      unfolding step using False by (fastforce intro: exI [of _ "Suc k" for k])
  qed
qed

lemma map_or_panic_hit:
  assumes "vm_inv m" "k < length (vm_map m)" "contains (vm_map m ! k) a"
  shows "map_or_panic m a = Some (vm_map m ! k,
    \<lparr>offset_in_region = unat a - unat (virtual_start (vm_map m ! k)), region_index = k\<rparr>)"
proof -
  from assms(1) have "\<forall>r \<in> set (vm_map m). region_ok r" by (simp add: vm_inv_def)
  from find_map_region_cases [OF this, of a 0] assms(2,3)
  obtain j where "j < length (vm_map m)" "contains (vm_map m ! j) a"
    and hit: "try_map m a = Some (Some (vm_map m ! j,
      \<lparr>offset_in_region = unat a - unat (virtual_start (vm_map m ! j)), region_index = j\<rparr>))"
    by (auto simp: try_map_def)
  moreover have "j = k" using assms calculation vm_inv_contains_unique by blast
  ultimately show ?thesis by (simp add: map_or_panic_def)
qed

lemma map_or_panic_cases:
  assumes "vm_inv m"
  obtains (hit) k where "k < length (vm_map m)" "contains (vm_map m ! k) a"
      "map_or_panic m a = Some (vm_map m ! k,
        \<lparr>offset_in_region = unat a - unat (virtual_start (vm_map m ! k)), region_index = k\<rparr>)"
  | (miss) "\<forall>r \<in> set (vm_map m). \<not> contains r a" "map_or_panic m a = None"
proof -
  from assms have "\<forall>r \<in> set (vm_map m). region_ok r" by (simp add: vm_inv_def)
  from find_map_region_cases [OF this, of a 0] show thesis
    using hit miss by (auto simp: try_map_def map_or_panic_def)
qed

section \<open>The byte view of the memory\<close>

lemma bytes_of_None: "\<forall>r \<in> set rs. \<not> contains r a \<Longrightarrow> bytes_of rs a = None"
  by (induction rs) (auto simp: region_byte_def)

lemma bytes_of_hit:
  "k < length rs \<Longrightarrow> contains (rs ! k) a \<Longrightarrow> \<forall>j < length rs. contains (rs ! j) a \<longrightarrow> j = k \<Longrightarrow>
   bytes_of rs a = region_byte (rs ! k) a"
proof (induction rs arbitrary: k)
  case Nil
  then show ?case by simp
next
  case (Cons r rs)
  show ?case
  proof (cases k)
    case 0
    with Cons.prems show ?thesis by (simp add: region_byte_def)
  next
    case (Suc k')
    with Cons.prems(3) have nr: "\<not> contains r a" by fastforce
    have "bytes_of rs a = region_byte (rs ! k') a"
      using Cons.prems Suc by (intro Cons.IH) fastforce+
    with nr Suc show ?thesis by (simp add: region_byte_def)
  qed
qed

lemma vm_byte_hit:
  assumes "vm_inv m" "k < length (vm_map m)" "contains (vm_map m ! k) a"
  shows "vm_byte m a = Some (backing_storage (vm_map m ! k) !
           (unat a - unat (virtual_start (vm_map m ! k))))"
proof -
  have "\<forall>j < length (vm_map m). contains (vm_map m ! j) a \<longrightarrow> j = k"
    using assms vm_inv_contains_unique by blast
  from bytes_of_hit [OF assms(2,3) this] assms(3) show ?thesis
    by (simp add: vm_byte_def region_byte_def)
qed

lemma vm_byte_miss: "\<forall>r \<in> set (vm_map m). \<not> contains r a \<Longrightarrow> vm_byte m a = None"
  by (simp add: vm_byte_def bytes_of_None)

lemma vm_byte_update_other:
  assumes inv: "vm_inv m" and k: "k < length (vm_map m)"
    and shape: "virtual_start r' = virtual_start (vm_map m ! k)" "region_len r' = region_len (vm_map m ! k)"
  defines "m' \<equiv> m\<lparr>vm_map := (vm_map m)[k := r']\<rparr>"
  shows "vm_inv m'"
    and "contains (vm_map m ! k) x \<Longrightarrow> vm_byte m' x = region_byte r' x"
    and "\<not> contains (vm_map m ! k) x \<Longrightarrow> vm_byte m' x = vm_byte m x"
proof -
  let ?rs = "vm_map m" and ?rs' = "(vm_map m)[k := r']"
  have con: "contains (?rs' ! j) = contains (?rs ! j)" if "j < length ?rs" for j
    using shape k that by (cases "j = k") (auto simp: contains_def fun_eq_iff)
  have ok: "region_ok (?rs' ! j)" if "j < length ?rs" for j
    using shape k that inv by (cases "j = k") (auto simp: vm_inv_def region_ok_def)
  have dis: "region_disjoint (?rs' ! i) (?rs' ! j)" if "i < j" "j < length ?rs" for i j
    using shape k that vm_inv_nth_disjoint [OF inv, of i j]
    by (cases "i = k"; cases "j = k") (auto simp: region_disjoint_def)
  show inv': "vm_inv m'"
    using ok dis by (auto simp: vm_inv_def m'_def sorted_wrt_iff_nth_less in_set_conv_nth)
  show "vm_byte m' x = region_byte r' x" if c: "contains (?rs ! k) x"
  proof -
    from c con [OF k] k have "contains (vm_map m' ! k) x" by (simp add: m'_def)
    with vm_byte_hit [OF inv', of k x] k show ?thesis by (auto simp: m'_def region_byte_def)
  qed
  show "vm_byte m' x = vm_byte m x" if nc: "\<not> contains (?rs ! k) x"
  proof (cases "\<exists>j < length ?rs. contains (?rs ! j) x")
    case True
    then obtain j where j: "j < length ?rs" "contains (?rs ! j) x" by blast
    with nc have "j \<noteq> k" by blast
    with j con vm_byte_hit [OF inv', of j x] vm_byte_hit [OF inv, of j x] show ?thesis
      by (simp add: m'_def)
  next
    case False
    then have "\<forall>r \<in> set ?rs. \<not> contains r x" "\<forall>r \<in> set (vm_map m'). \<not> contains r x"
      using con by (auto simp: m'_def in_set_conv_nth)
    then show ?thesis by (simp add: vm_byte_miss)
  qed
qed

subsection \<open>Slices\<close>

lemma store_loop_eq:
  "bs \<noteq> [] \<Longrightarrow> store_loop st off bs =
     (if off + length bs \<le> length st
      then Some (take off st @ bs @ drop (off + length bs) st) else None)"
proof (induction bs arbitrary: st off)
  case Nil
  then show ?case by simp
next
  case (Cons b bs)
  show ?case
  proof (cases "bs = []")
    case True
    then show ?thesis by (auto simp: index_set_def upd_conv_take_nth_drop)
  next
    case False
    with Cons.IH [of "st[off := b]" "Suc off"] show ?thesis
      by (auto simp: index_set_def take_Suc_conv_app_nth nth_list_update)
  qed
qed

lemma length_store_loop: "store_loop st off bs = Some st' \<Longrightarrow> length st' = length st"
  by (induction bs arbitrary: st off) (auto simp: index_set_def bind_eq_Some_conv split: if_splits)

lemma contains_sub_eq:
  assumes "region_ok r" "contains r a" "unat a - unat (virtual_start r) + n \<le> region_len r"
  shows "unat (x - a) < n \<longleftrightarrow> unat a \<le> unat x \<and> unat x < unat a + n"
    and "unat (x - a) < n \<Longrightarrow> unat (x - a) = unat x - unat a"
    and "unat (x - a) < n \<Longrightarrow> contains r x"
proof -
  have lim: "unat a + n \<le> 2 ^ 64"
    using assms by (auto simp: region_ok_def contains_def)
  have xb: "unat x < 2 ^ 64" using unsigned_less [of x, where ?'a = nat] by simp
  have ab: "unat a < 2 ^ 64" using unsigned_less [of a, where ?'a = nat] by simp
  have sub: "unat (x - a) = (if unat a \<le> unat x then unat x - unat a else unat x + 2 ^ 64 - unat a)"
    by (simp add: unat_sub_if')
  show iff: "unat (x - a) < n \<longleftrightarrow> unat a \<le> unat x \<and> unat x < unat a + n"
  proof (cases "unat a \<le> unat x")
    case True
    then show ?thesis unfolding sub by auto
  next
    case False
    with lim ab show ?thesis unfolding sub by simp
  qed
  show "unat (x - a) = unat x - unat a" if "unat (x - a) < n"
    using that iff sub by simp
  show "contains r x" if "unat (x - a) < n"
    using that iff assms by (auto simp: contains_def)
qed

lemma load_slice_bytes:
  assumes inv: "vm_inv m" and ld: "load_slice m a n = Some bs"
  shows "length bs = n" and "i < n \<Longrightarrow> vm_byte m (a + of_nat i) = Some (bs ! i)"
proof -
  from ld inv obtain k where k: "k < length (vm_map m)" "contains (vm_map m ! k) a"
    and fit: "unat a - unat (virtual_start (vm_map m ! k)) + n \<le> region_len (vm_map m ! k)"
    and bs: "bs = take n (drop (unat a - unat (virtual_start (vm_map m ! k))) (backing_storage (vm_map m ! k)))"
    by (cases rule: map_or_panic_cases [OF inv, of a])
      (auto simp: load_slice_def region_len_def split: if_splits)
  show len: "length bs = n" using fit by (simp add: bs region_len_def)
  show "vm_byte m (a + of_nat i) = Some (bs ! i)" if i: "i < n"
  proof -
    have ok: "region_ok (vm_map m ! k)" using inv k by (simp add: vm_inv_def)
    have "n \<le> region_len (vm_map m ! k)" using fit by simp
    with region_len_less [OF ok] i have "i < 2 ^ 64" by linarith
    then have ui: "unat ((a + of_nat i) - a) = i" by (simp add: unat_of_nat)
    from contains_sub_eq [OF ok k(2) fit, of "a + of_nat i"] i ui
    have c: "contains (vm_map m ! k) (a + of_nat i)" and u: "unat (a + of_nat i) - unat a = i"
      and le: "unat a \<le> unat (a + of_nat i)" by auto
    from le u k(2) have "unat (a + of_nat i) - unat (virtual_start (vm_map m ! k)) =
      unat a - unat (virtual_start (vm_map m ! k)) + i"
      by (auto simp: contains_def)
    with vm_byte_hit [OF inv k(1) c] i fit show ?thesis by (simp add: bs region_len_def)
  qed
qed

lemma store_slice_bytes:
  assumes inv: "vm_inv m" and st: "store_slice m a bs = Some m'" and ne: "bs \<noteq> []"
  shows "vm_inv m'"
    and "vm_byte m' x = (if unat (x - a) < length bs then Some (bs ! unat (x - a)) else vm_byte m x)"
    and "load_slice m' a (length bs) = Some bs"
proof -
  from st inv ne obtain k s where k: "k < length (vm_map m)" "contains (vm_map m ! k) a"
    and fit: "unat a - unat (virtual_start (vm_map m ! k)) + length bs \<le> region_len (vm_map m ! k)"
    and s: "s = take (unat a - unat (virtual_start (vm_map m ! k))) (backing_storage (vm_map m ! k)) @ bs @
       drop (unat a - unat (virtual_start (vm_map m ! k)) + length bs) (backing_storage (vm_map m ! k))"
    and m': "m' = m\<lparr>vm_map := (vm_map m)[k := (vm_map m ! k)\<lparr>backing_storage := s\<rparr>]\<rparr>"
    by (cases rule: map_or_panic_cases [OF inv, of a])
      (auto simp: store_slice_def region_len_def store_loop_eq bind_eq_Some_conv split: if_splits)
  let ?r = "vm_map m ! k" and ?r' = "(vm_map m ! k)\<lparr>backing_storage := s\<rparr>"
  let ?o = "unat a - unat (virtual_start ?r)"
  have ok: "region_ok ?r" using inv k by (simp add: vm_inv_def)
  have lens: "length s = region_len ?r" using fit by (simp add: s region_len_def)
  then have shape: "virtual_start ?r' = virtual_start ?r" "region_len ?r' = region_len ?r"
    by (simp_all add: region_len_def)
  note upd = vm_byte_update_other [OF inv k(1) shape, folded m']
  show inv': "vm_inv m'" by (rule upd(1))
  have c': "contains ?r' = contains ?r" using shape by (simp add: contains_def fun_eq_iff)
  note sub = contains_sub_eq [OF ok k(2) fit, of x]
  show "vm_byte m' x = (if unat (x - a) < length bs then Some (bs ! unat (x - a)) else vm_byte m x)"
  proof (cases "contains ?r x")
    case False
    with sub(3) upd(3) show ?thesis by auto
  next
    case True
    have ol: "?o \<le> length (backing_storage ?r)" using fit by (simp add: region_len_def)
    define p where "p = unat x - unat (virtual_start ?r)"
    from True upd(2) c' have "vm_byte m' x = Some (s ! p)"
      by (simp add: region_byte_def p_def)
    moreover have "s ! p = (if unat (x - a) < length bs then bs ! unat (x - a) else backing_storage ?r ! p)"
    proof (cases "unat (x - a) < length bs")
      case inside: True
      with sub k(2) have "p = ?o + unat (x - a)" by (auto simp: contains_def p_def)
      with inside ol show ?thesis by (simp add: s nth_append)
    next
      case outside: False
      with sub True k(2) consider "p < ?o" | "?o + length bs \<le> p"
        by (auto simp: contains_def p_def)
      then show ?thesis
        by cases (use outside ol fit in \<open>auto simp: s nth_append region_len_def\<close>)
    qed
    moreover from True vm_byte_hit [OF inv k(1)] have "vm_byte m x = Some (backing_storage ?r ! p)"
      by (simp add: p_def)
    ultimately show ?thesis by simp
  qed
  have "map_or_panic m' a = Some (?r', \<lparr>offset_in_region = ?o, region_index = k\<rparr>)"
    using map_or_panic_hit [OF inv', of k a] k c' shape by (simp add: m')
  with fit lens show "load_slice m' a (length bs) = Some bs"
    by (simp add: load_slice_def) (simp add: s region_len_def)
qed

section \<open>The contract of EmulatorMemory\<close>

text \<open>
  What the emulator relies on. \<open>inv\<close> is the invariant of the memory and \<open>byte_at\<close> its
  view as a partial map from addresses to bytes. A byte read returns the byte of the view
  and panics where there is none. A store of any width changes exactly the bytes it covers,
  to the little-endian bytes of the value, and a wide read returns the bytes of the view in
  little-endian order. The laws say nothing of when a wide access panics.
\<close>

locale emulator_memory =
  fixes ops :: "'m mem_ops"
    and inv :: "'m \<Rightarrow> bool"
    and byte_at :: "'m \<Rightarrow> u64 \<Rightarrow> u8 option"
  assumes read_u8: "inv m \<Longrightarrow> read_u8_ne ops m a = byte_at m a"
    and write_u8: "inv m \<Longrightarrow> byte_at m a \<noteq> None \<Longrightarrow>
      \<exists>m'. write_u8_ne ops m a v = Some m' \<and> inv m' \<and> byte_at m' = (byte_at m)(a \<mapsto> v)"
    and write_u8_unmapped: "inv m \<Longrightarrow> byte_at m a = None \<Longrightarrow> write_u8_ne ops m a v = None"
    and read_u16: "inv m \<Longrightarrow> read_u16_ne ops m a = Some h \<Longrightarrow> i < 2 \<Longrightarrow>
      byte_at m (a + of_nat i) = Some (to_le_bytes h ! i)"
    and write_u16: "inv m \<Longrightarrow> write_u16_ne ops m a h = Some m' \<Longrightarrow>
      inv m' \<and> read_u16_ne ops m' a = Some h \<and>
      byte_at m' x = (if unat (x - a) < 2 then Some (to_le_bytes h ! unat (x - a)) else byte_at m x)"
    and read_u32: "inv m \<Longrightarrow> read_u32_ne ops m a = Some w \<Longrightarrow> i < 4 \<Longrightarrow>
      byte_at m (a + of_nat i) = Some (to_le_bytes w ! i)"
    and write_u32: "inv m \<Longrightarrow> write_u32_ne ops m a w = Some m' \<Longrightarrow>
      inv m' \<and> read_u32_ne ops m' a = Some w \<and>
      byte_at m' x = (if unat (x - a) < 4 then Some (to_le_bytes w ! unat (x - a)) else byte_at m x)"
    and read_u64: "inv m \<Longrightarrow> read_u64_ne ops m a = Some d \<Longrightarrow> i < 8 \<Longrightarrow>
      byte_at m (a + of_nat i) = Some (to_le_bytes d ! i)"
    and write_u64: "inv m \<Longrightarrow> write_u64_ne ops m a d = Some m' \<Longrightarrow>
      inv m' \<and> read_u64_ne ops m' a = Some d \<and>
      byte_at m' x = (if unat (x - a) < 8 then Some (to_le_bytes d ! unat (x - a)) else byte_at m x)"
    and fetch: "read_u32_le ops m a = read_u32_ne ops m a"
begin

lemma read_after_write_u8:
  assumes "inv m" "write_u8_ne ops m a v = Some m'"
  shows "read_u8_ne ops m' x = (if x = a then Some v else read_u8_ne ops m x)"
proof -
  from assms have "byte_at m a \<noteq> None" using write_u8_unmapped by fastforce
  with assms write_u8 [of m a v] have "inv m'" "byte_at m' = (byte_at m)(a \<mapsto> v)" by auto
  with assms show ?thesis by (simp add: read_u8)
qed

lemma byte_after_write_u64:
  assumes "inv m" "write_u64_ne ops m a d = Some m'" "i < 8"
  shows "read_u8_ne ops m' (a + of_nat i) = Some (ucast (drop_bit (8 * i) d))"
proof -
  from write_u64 [OF assms(1,2)] have i': "inv m'" by blast
  from assms(3) have "i < 2 ^ 64" by simp
  then have "unat (a + of_nat i - a) = i" by (simp add: unat_of_nat)
  with write_u64 [OF assms(1,2), of "a + of_nat i"] assms(3) i' show ?thesis
    by (simp add: read_u8 nth_to_le_bytes)
qed

lemma byte_frame_write_u64:
  assumes "inv m" "write_u64_ne ops m a d = Some m'" "8 \<le> unat (x - a)"
  shows "read_u8_ne ops m' x = read_u8_ne ops m x"
  using write_u64 [OF assms(1,2), of x] assms by (auto simp: read_u8)

lemma wide_read_is_bytes:
  assumes "inv m" "read_u32_ne ops m a = Some w"
    "read_u8_ne ops m a = Some b0" "read_u8_ne ops m (a + 1) = Some b1"
    "read_u8_ne ops m (a + 2) = Some b2" "read_u8_ne ops m (a + 3) = Some b3"
  shows "w = from_le_bytes [b0, b1, b2, b3]"
proof -
  have "to_le_bytes w = [b0, b1, b2, b3]"
  proof (rule nth_equalityI)
    show "length (to_le_bytes w) = length [b0, b1, b2, b3]" by simp
    fix i assume "i < length (to_le_bytes w)"
    then have i: "i < 4" by simp
    then have "i = 0 \<or> i = 1 \<or> i = 2 \<or> i = 3" by linarith
    with read_u32 [OF assms(1,2) i] assms show "to_le_bytes w ! i = [b0, b1, b2, b3] ! i"
      by (auto simp: read_u8)
  qed
  then have "from_le_bytes [b0, b1, b2, b3] = (from_le_bytes (to_le_bytes w) :: u32)" by simp
  then show ?thesis by (simp add: from_to_le_bytes)
qed

end

lemmas vm_access_defs = vm_read_u8_ne_def vm_write_u8_ne_def vm_read_u16_ne_def vm_write_u16_ne_def
  vm_read_u32_ne_def vm_write_u32_ne_def vm_read_u64_ne_def vm_write_u64_ne_def vm_read_u32_le_def

lemma vm_write_u8_is_store: "vm_write_u8_ne m a v = store_slice m a [v]"
  by (simp add: vm_write_u8_ne_def store_slice_def)

lemma vm_read_u8_byte:
  assumes "vm_inv m"
  shows "vm_read_u8_ne m a = vm_byte m a"
  using assms
proof (cases rule: map_or_panic_cases [of m a])
  case (hit k)
  then have "unat a - unat (virtual_start (vm_map m ! k)) < length (backing_storage (vm_map m ! k))"
    by (auto simp: contains_def region_len_def)
  with hit vm_byte_hit [OF assms hit(1,2)] show ?thesis by (simp add: vm_read_u8_ne_def)
next
  case miss
  then show ?thesis by (simp add: vm_read_u8_ne_def vm_byte_miss)
qed

lemma vm_write_u8_mapped:
  assumes inv: "vm_inv m" and mapped: "vm_byte m a \<noteq> None"
  shows "\<exists>m'. vm_write_u8_ne m a v = Some m' \<and> vm_inv m' \<and> vm_byte m' = (vm_byte m)(a \<mapsto> v)"
proof -
  from inv have "\<exists>m'. store_slice m a [v] = Some m'"
  proof (cases rule: map_or_panic_cases [of m a])
    case (hit k)
    then have "unat a - unat (virtual_start (vm_map m ! k)) < length (backing_storage (vm_map m ! k))"
      by (auto simp: contains_def region_len_def)
    with hit show ?thesis by (simp add: store_slice_def)
  next
    case miss
    with mapped show ?thesis by (simp add: vm_byte_miss)
  qed
  then obtain m' where m': "store_slice m a [v] = Some m'" by blast
  note st = store_slice_bytes [OF inv m']
  have "vm_byte m' x = ((vm_byte m)(a \<mapsto> v)) x" for x
    using st(2) [of x] by (auto simp: unat_eq_0)
  with m' st(1) show ?thesis by (auto simp: vm_write_u8_is_store fun_eq_iff)
qed

lemma vm_write_u8_unmapped:
  assumes "vm_inv m" "vm_byte m a = None"
  shows "vm_write_u8_ne m a v = None"
  using assms by (cases rule: map_or_panic_cases [OF assms(1), of a])
    (auto simp: vm_write_u8_ne_def dest: vm_byte_hit [OF assms(1)])

lemma vm_wide_read:
  fixes w :: "'a::len word"
  assumes inv: "vm_inv m" and rd: "map_option from_le_bytes (load_slice m a n) = Some w"
    and n: "8 * n = LENGTH('a)" and i: "i < n"
  shows "vm_byte m (a + of_nat i) = Some (to_le_bytes w ! i)"
proof -
  from rd obtain bs where bs: "load_slice m a n = Some bs" "w = from_le_bytes bs" by auto
  with load_slice_bytes [OF inv bs(1)] n have "to_le_bytes w = bs" by (simp add: to_from_le_bytes)
  with load_slice_bytes(2) [OF inv bs(1) i] show ?thesis by simp
qed

lemma vm_wide_write:
  fixes w :: "'a::len word"
  assumes inv: "vm_inv m" and wr: "store_slice m a (to_le_bytes w) = Some m'"
    and n: "8 * n = LENGTH('a)"
  shows "vm_inv m' \<and> map_option from_le_bytes (load_slice m' a n) = Some w \<and>
    vm_byte m' x = (if unat (x - a) < n then Some (to_le_bytes w ! unat (x - a)) else vm_byte m x)"
proof -
  have len: "length (to_le_bytes w) = n" using n [symmetric] by simp
  have "0 < n" using n by (metis len_gt_0 mult_is_0 neq0_conv)
  with len have ne: "to_le_bytes w \<noteq> []" by (metis length_greater_0_conv)
  have "8 dvd LENGTH('a)" using n [symmetric] by simp
  with store_slice_bytes [OF inv wr ne] len show ?thesis by (simp add: from_to_le_bytes)
qed

interpretation vm: emulator_memory vm_ops vm_inv vm_byte
proof (unfold_locales, goal_cases)
  case (1 m a) then show ?case by (simp add: vm_ops_def vm_read_u8_byte)
next
  case (2 m a v) then show ?case by (simp add: vm_ops_def vm_write_u8_mapped)
next
  case (3 m a v) then show ?case by (simp add: vm_ops_def vm_write_u8_unmapped)
next
  case (4 m a h i) then show ?case
    by (intro vm_wide_read [where n = 2]) (simp_all add: vm_ops_def vm_access_defs)
next
  case (5 m a h m' x) then show ?case
    using vm_wide_write [of m a h m' 2 x] by (simp add: vm_ops_def vm_access_defs)
next
  case (6 m a w i) then show ?case
    by (intro vm_wide_read [where n = 4]) (simp_all add: vm_ops_def vm_access_defs)
next
  case (7 m a w m' x) then show ?case
    using vm_wide_write [of m a w m' 4 x] by (simp add: vm_ops_def vm_access_defs)
next
  case (8 m a d i) then show ?case
    by (intro vm_wide_read [where n = 8]) (simp_all add: vm_ops_def vm_access_defs)
next
  case (9 m a d m' x) then show ?case
    using vm_wide_write [of m a d m' 8 x] by (simp add: vm_ops_def vm_access_defs)
next
  case (10 m a) then show ?case by (simp add: vm_ops_def vm_access_defs)
qed

section \<open>Properties of the region table\<close>

lemma vm_inv_snoc:
  assumes "vm_inv m" "region_ok r" "\<forall>s \<in> set (vm_map m). region_disjoint s r"
  shows "vm_inv (m\<lparr>vm_map := vm_map m @ [r]\<rparr>)"
  using assms by (auto simp: vm_inv_def sorted_wrt_append)

lemma bytes_of_snoc:
  "bytes_of (rs @ [r]) x = (case bytes_of rs x of Some b \<Rightarrow> Some b | None \<Rightarrow> region_byte r x)"
  by (induction rs) (auto split: option.splits)

lemma bytes_of_Some_contains: "bytes_of rs x = Some b \<Longrightarrow> \<exists>r \<in> set rs. contains r x"
  by (induction rs) (auto simp: region_byte_def split: option.splits if_splits)

lemma add_region_maps:
  assumes "vm_inv m" "addr \<noteq> 0" "unat addr + length data \<le> 2 ^ 64"
  defines "new \<equiv> \<lparr>virtual_start = addr, backing_storage = data\<rparr>"
  shows "\<exists>res m'. add_region m addr data = Some (res, m') \<and> vm_inv m' \<and>
    (res = None \<longleftrightarrow> (\<exists>r \<in> set (vm_map m). \<not> region_disjoint r new)) \<and>
    (res = None \<longrightarrow> m' = m) \<and>
    (res = Some () \<longrightarrow>
      (\<forall>x. contains new x \<longrightarrow> vm_byte m x = None) \<and>
      (\<forall>x. vm_byte m' x = (if contains new x then Some (data ! (unat x - unat addr)) else vm_byte m x)))"
proof -
  from assms have ok: "region_ok new" by (simp add: region_ok_def region_len_def)
  from assms(1) have oks: "\<forall>r \<in> set (vm_map m). region_ok r" by (simp add: vm_inv_def)
  show ?thesis
  proof (cases "\<exists>r \<in> set (vm_map m). \<not> region_disjoint r new")
    case True
    then show ?thesis using assms(1)
      by (simp add: add_region_def any_overlap_eq [OF oks ok, unfolded new_def] new_def)
  next
    case False
    let ?m' = "m\<lparr>vm_map := vm_map m @ [new]\<rparr>"
    have unmapped: "vm_byte m x = None" if "contains new x" for x
      using False that contains_disjoint by (intro vm_byte_miss) blast
    have "vm_byte ?m' x = (if contains new x then Some (data ! (unat x - unat addr)) else vm_byte m x)" for x
      using unmapped [of x]
      by (simp add: vm_byte_def bytes_of_snoc region_byte_def new_def split: option.splits)
    moreover from False have "add_region m addr data = Some (Some (), ?m')"
      by (simp add: add_region_def any_overlap_eq [OF oks ok, unfolded new_def] new_def)
    moreover have "vm_inv ?m'" using vm_inv_snoc [OF assms(1) ok] False by blast
    ultimately show ?thesis using False unmapped by auto
  qed
qed

text \<open>
  (C11) Adding a region keeps the table well formed and never panics when the region does not
  start at address 0 and ends inside the address space. It is refused, and nothing changes,
  exactly when some region overlaps it; otherwise none of its addresses was mapped before,
  its addresses now read as the given bytes, and every other address reads as before.
\<close>
theorem vm_add_region_correct:
  assumes "vm_inv m" "addr \<noteq> 0" "unat addr + length data \<le> 2 ^ 64"
  defines "new \<equiv> \<lparr>virtual_start = addr, backing_storage = data\<rparr>"
  shows "\<exists>res m'. add_region m addr data = Some (res, m') \<and> vm_inv m' \<and>
    (res = None \<longleftrightarrow> (\<exists>r \<in> set (vm_map m). \<not> region_disjoint r new)) \<and>
    (res = None \<longrightarrow> m' = m) \<and>
    (res = Some () \<longrightarrow>
      (\<forall>x. contains new x \<longrightarrow> vm_byte m x = None) \<and>
      (\<forall>x. vm_byte m' x = (if contains new x then Some (data ! (unat x - unat addr)) else vm_byte m x)))"
  using assms(1,2,3) unfolding new_def by (rule add_region_maps)

theorem vm_add_region_correct_witness:
  "\<exists>res m'. add_region vm_new 0x1000 [1, 2] = Some (res, m') \<and> vm_inv m' \<and>
    (res = None \<longleftrightarrow> (\<exists>r \<in> set (vm_map vm_new). \<not> region_disjoint r \<lparr>virtual_start = 0x1000, backing_storage = [1, 2]\<rparr>)) \<and>
    (res = None \<longrightarrow> m' = vm_new) \<and>
    (res = Some () \<longrightarrow>
      (\<forall>x. contains \<lparr>virtual_start = 0x1000, backing_storage = [1, 2]\<rparr> x \<longrightarrow> vm_byte vm_new x = None) \<and>
      (\<forall>x. vm_byte m' x = (if contains \<lparr>virtual_start = 0x1000, backing_storage = [1, 2]\<rparr> x
         then Some ([1, 2] ! (unat x - unat (0x1000 :: u64))) else vm_byte vm_new x)))"
  by (rule vm_add_region_correct) (simp_all add: vm_new_def vm_inv_def)

text \<open>
  Removing the region that was just added gives back the table as it was, and removing
  any region keeps the table well formed and unmaps exactly the addresses of that region.
\<close>
theorem vm_remove_region_correct:
  assumes "vm_inv m" "i < length (vm_map m)"
  shows "\<exists>m'. remove_region m i = Some m' \<and> vm_inv m' \<and>
    (\<forall>x. vm_byte m' x = (if contains (vm_map m ! i) x then None else vm_byte m x)) \<and>
    remove_region (m\<lparr>vm_map := vm_map m @ [r]\<rparr>) (length (vm_map m)) = Some m"
proof -
  let ?rs = "vm_map m" and ?rs' = "take i (vm_map m) @ drop (Suc i) (vm_map m)"
  let ?m' = "m\<lparr>vm_map := ?rs'\<rparr>"
  have split: "?rs = take i ?rs @ ?rs ! i # drop (Suc i) ?rs"
    using assms(2) by (rule id_take_nth_drop)
  have sw: "sorted_wrt region_disjoint (take i ?rs @ ?rs ! i # drop (Suc i) ?rs)"
    using assms(1) split by (simp add: vm_inv_def)
  have inv': "vm_inv ?m'"
    using assms(1) sw
    by (auto simp: vm_inv_def sorted_wrt_append dest: in_set_takeD in_set_dropD)
  have "vm_byte ?m' x = (if contains (?rs ! i) x then None else vm_byte m x)" for x
  proof (cases "contains (?rs ! i) x")
    case True
    have "\<not> contains s x" if "s \<in> set ?rs'" for s
      using that sw True contains_disjoint region_disjoint_sym
      by (auto simp: sorted_wrt_append)
    with True show ?thesis by (simp add: vm_byte_miss)
  next
    case False
    have "bytes_of (xs @ r # ys) x = bytes_of (xs @ ys) x" if "\<not> contains r x" for xs r ys
      using that by (induction xs) (auto simp: region_byte_def split: option.splits)
    with False split show ?thesis by (metis vm_byte_def LittleEndianVirtualMemory.select_convs(1)
        LittleEndianVirtualMemory.surjective LittleEndianVirtualMemory.update_convs(1))
  qed
  with inv' assms(2) show ?thesis by (auto simp: remove_region_def)
qed

theorem vm_remove_region_correct_witness:
  "\<exists>m'. remove_region \<lparr>vm_map = [\<lparr>virtual_start = 16, backing_storage = [7]\<rparr>]\<rparr> 0 = Some m' \<and> vm_inv m' \<and>
    (\<forall>x. vm_byte m' x =
      (if contains (vm_map \<lparr>vm_map = [\<lparr>virtual_start = 16, backing_storage = [7]\<rparr>]\<rparr> ! 0) x then None
       else vm_byte \<lparr>vm_map = [\<lparr>virtual_start = 16, backing_storage = [7]\<rparr>]\<rparr> x)) \<and>
    remove_region (\<lparr>vm_map = [\<lparr>virtual_start = 16, backing_storage = [7]\<rparr>]\<rparr>\<lparr>vm_map :=
        vm_map \<lparr>vm_map = [\<lparr>virtual_start = 16, backing_storage = [7]\<rparr>]\<rparr> @ [\<lparr>virtual_start = 32, backing_storage = [8]\<rparr>]\<rparr>)
      (length (vm_map \<lparr>vm_map = [\<lparr>virtual_start = 16, backing_storage = [7]\<rparr>]\<rparr>)) =
    Some \<lparr>vm_map = [\<lparr>virtual_start = 16, backing_storage = [7]\<rparr>]\<rparr>"
  by (rule vm_remove_region_correct) (simp_all add: vm_inv_def region_ok_def region_len_def)

text \<open>
  Byte-address invariance, the property the trait's comment asks of every
  implementation: after a 64-bit store, a byte load inside the stored range returns the byte
  of the value at that offset (least significant first), a byte load outside it returns what
  it returned before, and a 64-bit load at the same address returns the stored value.
\<close>
theorem vm_byte_address_invariant:
  assumes "vm_inv m" "vm_write_u64_ne m a d = Some m'"
  shows "vm_inv m' \<and> vm_read_u64_ne m' a = Some d \<and>
    (\<forall>i < 8. vm_read_u8_ne m' (a + of_nat i) = Some (ucast (drop_bit (8 * i) d))) \<and>
    (\<forall>x. 8 \<le> unat (x - a) \<longrightarrow> vm_read_u8_ne m' x = vm_read_u8_ne m x)"
  using vm.write_u64 [of m a d m'] vm.byte_after_write_u64 [of m a d m']
    vm.byte_frame_write_u64 [of m a d m'] assms
  by (simp add: vm_ops_def)

theorem vm_byte_address_invariant_witness:
  "let m = \<lparr>vm_map = [\<lparr>virtual_start = 64, backing_storage = replicate 9 0\<rparr>]\<rparr>;
       m' = \<lparr>vm_map = [\<lparr>virtual_start = 64, backing_storage = [0, 8, 7, 6, 5, 4, 3, 2, 1]\<rparr>]\<rparr> in
   vm_inv m' \<and> vm_read_u64_ne m' 65 = Some 0x0102030405060708 \<and>
   (\<forall>i < 8. vm_read_u8_ne m' (65 + of_nat i) = Some (ucast (drop_bit (8 * i) (0x0102030405060708 :: u64)))) \<and>
   (\<forall>x. 8 \<le> unat (x - 65) \<longrightarrow> vm_read_u8_ne m' x = vm_read_u8_ne m x)"
  unfolding Let_def
  by (rule vm_byte_address_invariant)
    (simp add: vm_inv_def region_ok_def region_len_def, code_simp)

text \<open>
  A region that starts at virtual address 0 is never usable: mapping any address
  through it, or testing it for overlap with another region, computes
  \<^verbatim>\<open>virtual_start - 1\<close> and panics. An access to a table whose first region is one such
  panics, whatever the address.
\<close>
theorem vm_zero_start_panics:
  "region_try_map \<lparr>virtual_start = 0, backing_storage = data\<rparr> a = None \<and>
   overlaps_virtually_with r \<lparr>virtual_start = 0, backing_storage = data\<rparr> = None \<and>
   vm_read_u8_ne \<lparr>vm_map = \<lparr>virtual_start = 0, backing_storage = data\<rparr> # rs\<rparr> a = None"
  by (simp add: region_try_map_def get_virtual_end_inclusive_def checked_sub_def
      overlaps_virtually_with_def vm_read_u8_ne_def map_or_panic_def try_map_def)

end
