(* ===== verification/Riscv_Cpu.thy ===== *)
theory Riscv_Cpu
  imports Riscv_Compressed Virtmem
begin

text \<open>
  The interpreter of \<^verbatim>\<open>kernel/src/emulator.rs\<close>: the state of \<^verbatim>\<open>Riscv64Cpu\<close>, the six
  functions \<^verbatim>\<open>execute_*_inst\<close> and \<^verbatim>\<open>tick\<close>.

  The memory is any implementation \<open>ops\<close> of \<^verbatim>\<open>EmulatorMemory\<close>. The function pointer
  \<^verbatim>\<open>syscall\<close> is an argument \<open>sysc\<close>: it is set once by \<^verbatim>\<open>from\<close> and never changed. The
  lines written to the UART before an exception have no other effect and are left out.
  \<open>tick\<close> returns \<open>None\<close> when the kernel panics; otherwise the inner option is what the Rust
  function returns, with the state it leaves behind.
\<close>

section \<open>State\<close>

datatype CpuAction = NONE | REPEAT_INSTRUCTION | RAISE_EXCEPTION

record 'm Riscv64Cpu =
  program_counter :: u64
  registers :: "u64 list"
  memory :: 'm

definition cpu_from :: "'m \<Rightarrow> u64 \<Rightarrow> 'm Riscv64Cpu" where
  "cpu_from mem start_address =
     \<lparr>program_counter = start_address, registers = replicate 31 0, memory = mem\<rparr>"

definition reset_registers :: "'m Riscv64Cpu \<Rightarrow> u64 \<Rightarrow> 'm Riscv64Cpu" where
  "reset_registers cpu start_address =
     cpu\<lparr>program_counter := start_address, registers := replicate 31 0\<rparr>"

definition write_reg :: "'m Riscv64Cpu \<Rightarrow> u8 \<Rightarrow> u64 \<Rightarrow> 'm Riscv64Cpu option" where
  "write_reg cpu reg_n val =
     (if reg_n \<noteq> 0 then do {
        rs \<leftarrow> index_set (registers cpu) (unat (reg_n - 1)) val;
        Some (cpu\<lparr>registers := rs\<rparr>)
      } else Some cpu)"

definition read_reg :: "'m Riscv64Cpu \<Rightarrow> u8 \<Rightarrow> u64 option" where
  "read_reg cpu reg_n = (if reg_n = 0 then Some 0 else index (registers cpu) (unat (reg_n - 1)))"

section \<open>Register-register instructions\<close>

text \<open>
  Rust's \<^verbatim>\<open>wrapping_div\<close> and \<^verbatim>\<open>wrapping_rem\<close> wrap the one overflowing quotient and panic
  when the divisor is zero.
\<close>

definition wrapping_sdiv :: "'a::len word \<Rightarrow> 'a word \<Rightarrow> 'a word option" where
  "wrapping_sdiv a b = (if b = 0 then None else Some (word_of_int (sint a sdiv sint b)))"

definition wrapping_srem :: "'a::len word \<Rightarrow> 'a word \<Rightarrow> 'a word option" where
  "wrapping_srem a b = (if b = 0 then None else Some (word_of_int (sint a smod sint b)))"

definition wrapping_udiv :: "'a::len word \<Rightarrow> 'a word \<Rightarrow> 'a word option" where
  "wrapping_udiv a b = (if b = 0 then None else Some (a div b))"

definition wrapping_urem :: "'a::len word \<Rightarrow> 'a word \<Rightarrow> 'a word option" where
  "wrapping_urem a b = (if b = 0 then None else Some (a mod b))"

text \<open>The arms of the \<^verbatim>\<open>match\<close>: the value written to \<open>rd\<close>, from the values of \<open>rs1\<close> and \<open>rs2\<close>.\<close>

definition rtype_base_op :: "RiscvOpcode \<Rightarrow> u8 \<Rightarrow> u8 \<Rightarrow> (u64 \<Rightarrow> u64 \<Rightarrow> u64 option) option" where
  "rtype_base_op opcode funct3 funct7 = (
     let m = (opcode, funct3, funct7);
         lo = (ucast :: u64 \<Rightarrow> u32);
         sx = (\<lambda>v. sign_extend (v :: u32) :: u64) in
     if m = (OP, 0b000, 0b0000000) then Some (\<lambda>a b. Some (a + b))
     else if m = (OP, 0b000, 0b0100000) then Some (\<lambda>a b. Some (a - b))
     else if m = (OP32, 0b000, 0b0000000) then Some (\<lambda>a b. Some (sx (lo a + lo b)))
     else if m = (OP32, 0b000, 0b0100000) then Some (\<lambda>a b. Some (sx (lo a - lo b)))
     else if m = (OP, 0b010, 0b0000000) then Some (\<lambda>a b. Some (if sint a < sint b then 1 else 0))
     else if m = (OP, 0b011, 0b0000000) then Some (\<lambda>a b. Some (if a < b then 1 else 0))
     else if m = (OP, 0b100, 0b0000000) then Some (\<lambda>a b. Some (a XOR b))
     else if m = (OP, 0b110, 0b0000000) then Some (\<lambda>a b. Some (a OR b))
     else if m = (OP, 0b111, 0b0000000) then Some (\<lambda>a b. Some (a AND b))
     else if m = (OP, 0b001, 0b0000000) then Some (\<lambda>a b. Some (push_bit (unat (b AND 0b111111)) a))
     else if m = (OP, 0b101, 0b0000000) then Some (\<lambda>a b. Some (drop_bit (unat (b AND 0b111111)) a))
     else if m = (OP, 0b101, 0b0100000) then Some (\<lambda>a b. Some (signed_drop_bit (unat (b AND 0b111111)) a))
     else if m = (OP32, 0b001, 0b0000000) then Some (\<lambda>a b. Some (sx (push_bit (unat (lo b AND 0b11111)) (lo a))))
     else if m = (OP32, 0b101, 0b0000000) then Some (\<lambda>a b. Some (sx (drop_bit (unat (lo b AND 0b11111)) (lo a))))
     else if m = (OP32, 0b101, 0b0100000) then
       Some (\<lambda>a b. Some (sx (signed_drop_bit (unat (lo b AND 0b11111)) (lo a))))
     else None)"

text \<open>The M extension.\<close>

definition rtype_m_op :: "RiscvOpcode \<Rightarrow> u8 \<Rightarrow> u8 \<Rightarrow> (u64 \<Rightarrow> u64 \<Rightarrow> u64 option) option" where
  "rtype_m_op opcode funct3 funct7 = (
     let m = (opcode, funct3, funct7);
         lo = (ucast :: u64 \<Rightarrow> u32);
         sx = (\<lambda>v. sign_extend (v :: u32) :: u64) in
     if m = (OP, 0b000, 0b0000001) then Some (\<lambda>a b. Some (a * b))
     else if m = (OP, 0b001, 0b0000001) then
       Some (\<lambda>a b. Some (ucast (drop_bit 64 ((sign_extend a :: u128) * sign_extend b))))
     else if m = (OP, 0b011, 0b0000001) then
       Some (\<lambda>a b. Some (ucast (drop_bit 64 ((ucast a :: u128) * ucast b))))
     else if m = (OP, 0b010, 0b0000001) then
       Some (\<lambda>a b. Some (ucast (drop_bit 64 ((sign_extend a :: u128) * ucast b))))
     else if m = (OP32, 0b000, 0b0000001) then Some (\<lambda>a b. Some (sx (lo a * lo b)))
     else if m = (OP, 0b100, 0b0000001) then Some (\<lambda>a b. wrapping_sdiv a b)
     else if m = (OP, 0b101, 0b0000001) then Some (\<lambda>a b. wrapping_udiv a b)
     else if m = (OP, 0b110, 0b0000001) then Some (\<lambda>a b. wrapping_srem a b)
     else if m = (OP, 0b111, 0b0000001) then Some (\<lambda>a b. wrapping_urem a b)
     else if m = (OP32, 0b100, 0b0000001) then Some (\<lambda>a b. map_option sx (wrapping_sdiv (lo a) (lo b)))
     else if m = (OP32, 0b101, 0b0000001) then Some (\<lambda>a b. map_option sx (wrapping_udiv (lo a) (lo b)))
     else if m = (OP32, 0b110, 0b0000001) then Some (\<lambda>a b. map_option sx (wrapping_srem (lo a) (lo b)))
     else if m = (OP32, 0b111, 0b0000001) then Some (\<lambda>a b. map_option sx (wrapping_urem (lo a) (lo b)))
     else None)"

definition rtype_op :: "RiscvOpcode \<Rightarrow> u8 \<Rightarrow> u8 \<Rightarrow> (u64 \<Rightarrow> u64 \<Rightarrow> u64 option) option" where
  "rtype_op opcode funct3 funct7 = (
     case rtype_base_op opcode funct3 funct7 of
       Some f \<Rightarrow> Some f
     | None \<Rightarrow> rtype_m_op opcode funct3 funct7)"

definition execute_rtype_inst :: "'m Riscv64Cpu \<Rightarrow> RiscvRTypeInstruction \<Rightarrow> 'm Riscv64Cpu option" where
  "execute_rtype_inst cpu inst = (
     case rtype_op (r_opcode inst) (r_funct3 inst) (r_funct7 inst) of
       Some f \<Rightarrow> do {
         a \<leftarrow> read_reg cpu (r_rs1 inst);
         b \<leftarrow> read_reg cpu (r_rs2 inst);
         v \<leftarrow> f a b;
         write_reg cpu (r_rd inst) v
       }
     | None \<Rightarrow> Some cpu)"

section \<open>Immediate instructions, loads, JALR and ECALL\<close>

definition itype_op :: "RiscvOpcode \<Rightarrow> u8 \<Rightarrow> u32 \<Rightarrow> (u64 \<Rightarrow> u64) option" where
  "itype_op opcode funct3 imm32 = (
     let m = (opcode, funct3);
         lo = (ucast :: u64 \<Rightarrow> u32);
         sx = (\<lambda>v. sign_extend (v :: u32) :: u64);
         imm = sign_extend_to_u64 imm32 in
     if m = (OPIMM, 0b000) then Some (\<lambda>a. a + sign_extend imm32)
     else if m = (OPIMM32, 0b000) then Some (\<lambda>a. sx (lo a + imm32))
     else if m = (OPIMM, 0b010) then Some (\<lambda>a. if sint a < sint imm then 1 else 0)
     else if m = (OPIMM, 0b011) then Some (\<lambda>a. if a < imm then 1 else 0)
     else if m = (OPIMM, 0b100) then Some (\<lambda>a. a XOR imm)
     else if m = (OPIMM, 0b110) then Some (\<lambda>a. a OR imm)
     else if m = (OPIMM, 0b111) then Some (\<lambda>a. a AND imm)
     else if m = (OPIMM, 0b001) then Some (\<lambda>a. push_bit (unat (imm AND 0b111111)) a)
     else if m = (OPIMM, 0b101) then
       (if imm AND NOT 0b111111 \<noteq> 0 then Some (\<lambda>a. signed_drop_bit (unat (imm AND 0b111111)) a)
        else Some (\<lambda>a. drop_bit (unat (imm AND 0b111111)) a))
     else if m = (OPIMM32, 0b001) then Some (\<lambda>a. sx (push_bit (unat (imm32 AND 0b11111)) (lo a)))
     else if m = (OPIMM32, 0b101) then
       (if imm32 AND NOT 0b11111 \<noteq> 0 then Some (\<lambda>a. sx (signed_drop_bit (unat (imm32 AND 0b11111)) (lo a)))
        else Some (\<lambda>a. sx (drop_bit (unat (imm32 AND 0b11111)) (lo a))))
     else None)"

definition load_op :: "'m mem_ops \<Rightarrow> RiscvOpcode \<Rightarrow> u8 \<Rightarrow> ('m \<Rightarrow> u64 \<Rightarrow> u64 option) option" where
  "load_op ops opcode funct3 = (
     let m = (opcode, funct3) in
     if m = (LOAD, 0b000) then Some (\<lambda>mem addr. map_option sign_extend (read_u8_ne ops mem addr))
     else if m = (LOAD, 0b001) then Some (\<lambda>mem addr. map_option sign_extend (read_u16_ne ops mem addr))
     else if m = (LOAD, 0b010) then Some (\<lambda>mem addr. map_option sign_extend (read_u32_ne ops mem addr))
     else if m = (LOAD, 0b011) then Some (\<lambda>mem addr. read_u64_ne ops mem addr)
     else if m = (LOAD, 0b110) then Some (\<lambda>mem addr. map_option ucast (read_u32_ne ops mem addr))
     else if m = (LOAD, 0b101) then Some (\<lambda>mem addr. map_option ucast (read_u16_ne ops mem addr))
     else if m = (LOAD, 0b100) then Some (\<lambda>mem addr. map_option ucast (read_u8_ne ops mem addr))
     else None)"

type_synonym ('m, 'p) syscall = "'m Riscv64Cpu \<Rightarrow> 'p \<Rightarrow> (CpuAction \<times> 'm Riscv64Cpu \<times> 'p) option"

definition execute_itype_inst :: "'m mem_ops \<Rightarrow> ('m, 'p) syscall \<Rightarrow> 'm Riscv64Cpu \<Rightarrow>
    RiscvITypeInstruction \<Rightarrow> u64 \<Rightarrow> 'p \<Rightarrow> (CpuAction \<times> 'm Riscv64Cpu \<times> 'p) option" where
  "execute_itype_inst ops sysc cpu inst inst_size proc_data = (
     case itype_op (i_opcode inst) (i_funct3 inst) (itype_parse_imm inst) of
       Some f \<Rightarrow> do {
         a \<leftarrow> read_reg cpu (i_rs1 inst);
         cpu \<leftarrow> write_reg cpu (i_rd inst) (f a);
         Some (NONE, cpu, proc_data)
       }
     | None \<Rightarrow> (
       case load_op ops (i_opcode inst) (i_funct3 inst) of
         Some ld \<Rightarrow> do {
           a \<leftarrow> read_reg cpu (i_rs1 inst);
           v \<leftarrow> ld (memory cpu) (a + sign_extend (itype_parse_imm inst));
           cpu \<leftarrow> write_reg cpu (i_rd inst) v;
           Some (NONE, cpu, proc_data)
         }
       | None \<Rightarrow>
         if (i_opcode inst, i_funct3 inst) = (JALR, 0b000) then do {
           a \<leftarrow> read_reg cpu (i_rs1 inst);
           let new_program_counter = (sign_extend_to_u64 (itype_parse_imm inst) + a) AND NOT 0b1;
           if new_program_counter = program_counter cpu then Some (RAISE_EXCEPTION, cpu, proc_data)
           else do {
             link \<leftarrow> checked_add (program_counter cpu) inst_size;
             cpu \<leftarrow> write_reg cpu (i_rd inst) link;
             Some (NONE, cpu\<lparr>program_counter := new_program_counter - inst_size\<rparr>, proc_data)
           }
         }
         else if i_opcode inst = SYSTEM \<and> itype_parse_imm inst = 0 then sysc cpu proc_data
         else Some (NONE, cpu, proc_data)))"

section \<open>Stores, branches, upper immediates and JAL\<close>

definition execute_stype_inst ::
  "'m mem_ops \<Rightarrow> 'm Riscv64Cpu \<Rightarrow> RiscvSTypeInstruction \<Rightarrow> 'm Riscv64Cpu option" where
  "execute_stype_inst ops cpu inst = (
     let m = (s_opcode inst, s_funct3 inst);
         store = (\<lambda>wr. do {
           a \<leftarrow> read_reg cpu (s_rs1 inst);
           let addr = a + sign_extend (stype_parse_imm inst);
           v \<leftarrow> read_reg cpu (s_rs2 inst);
           mem \<leftarrow> wr (memory cpu) addr v;
           Some (cpu\<lparr>memory := mem\<rparr>)
         }) in
     if m = (STORE, 0b000) then store (\<lambda>mem addr v. write_u8_ne ops mem addr (ucast v))
     else if m = (STORE, 0b001) then store (\<lambda>mem addr v. write_u16_ne ops mem addr (ucast v))
     else if m = (STORE, 0b010) then store (\<lambda>mem addr v. write_u32_ne ops mem addr (ucast v))
     else if m = (STORE, 0b011) then store (\<lambda>mem addr v. write_u64_ne ops mem addr v)
     else Some cpu)"

definition btype_op :: "RiscvOpcode \<Rightarrow> u8 \<Rightarrow> (u64 \<Rightarrow> u64 \<Rightarrow> bool) option" where
  "btype_op opcode funct3 = (
     let m = (opcode, funct3) in
     if m = (BRANCH, 0b000) then Some (\<lambda>a b. a = b)
     else if m = (BRANCH, 0b001) then Some (\<lambda>a b. a \<noteq> b)
     else if m = (BRANCH, 0b100) then Some (\<lambda>a b. sint a < sint b)
     else if m = (BRANCH, 0b101) then Some (\<lambda>a b. sint a \<ge> sint b)
     else if m = (BRANCH, 0b110) then Some (\<lambda>a b. a < b)
     else if m = (BRANCH, 0b111) then Some (\<lambda>a b. a \<ge> b)
     else None)"

definition execute_btype_inst ::
  "'m Riscv64Cpu \<Rightarrow> RiscvBTypeInstruction \<Rightarrow> u64 \<Rightarrow> 'm Riscv64Cpu option" where
  "execute_btype_inst cpu inst inst_size = (
     case btype_op (b_opcode inst) (b_funct3 inst) of
       Some cond \<Rightarrow> do {
         a \<leftarrow> read_reg cpu (b_rs1 inst);
         b \<leftarrow> read_reg cpu (b_rs2 inst);
         Some (if cond a b
               then cpu\<lparr>program_counter :=
                      program_counter cpu + sign_extend_to_u64 (btype_parse_imm inst) - inst_size\<rparr>
               else cpu)
       }
     | None \<Rightarrow> Some cpu)"

definition execute_utype_inst :: "'m Riscv64Cpu \<Rightarrow> RiscvUTypeInstruction \<Rightarrow> 'm Riscv64Cpu option" where
  "execute_utype_inst cpu inst = (
     if u_opcode inst = LUI then write_reg cpu (u_rd inst) (sign_extend_to_u64 (utype_parse_imm inst))
     else if u_opcode inst = AUIPC then
       write_reg cpu (u_rd inst) (sign_extend_to_u64 (utype_parse_imm inst) + program_counter cpu)
     else Some cpu)"

definition execute_jtype_inst ::
  "'m Riscv64Cpu \<Rightarrow> RiscvJTypeInstruction \<Rightarrow> u64 \<Rightarrow> (CpuAction \<times> 'm Riscv64Cpu) option" where
  "execute_jtype_inst cpu inst inst_size = (
     if j_opcode inst = JAL then
       (let new_program_counter = sign_extend_to_u64 (jtype_parse_imm inst) + program_counter cpu in
        if new_program_counter = program_counter cpu then Some (RAISE_EXCEPTION, cpu)
        else do {
          link \<leftarrow> checked_add (program_counter cpu) inst_size;
          cpu \<leftarrow> write_reg cpu (j_rd inst) link;
          Some (NONE, cpu\<lparr>program_counter := new_program_counter - inst_size\<rparr>)
        })
     else Some (NONE, cpu))"

section \<open>One clock cycle\<close>

text \<open>
  \<open>execute\<close> is the second half of \<^verbatim>\<open>tick\<close>, from the opcode of the expanded instruction on:
  its \<^verbatim>\<open>?\<close> returns before the program counter is touched.
\<close>

definition execute :: "packed_struct \<Rightarrow> 'm mem_ops \<Rightarrow> ('m, 'p) syscall \<Rightarrow> 'm Riscv64Cpu \<Rightarrow> 'p \<Rightarrow>
    u32 \<Rightarrow> u64 \<Rightarrow> (unit option \<times> 'm Riscv64Cpu \<times> 'p) option" where
  "execute ps ops sysc cpu prog instruction inst_size = (
     let run = (case opcode_from_primitive ps (ucast (instruction AND 0b1111111)) of
           None \<Rightarrow> None
         | Some opcode \<Rightarrow> (case get_type opcode of
             RType \<Rightarrow> map_option (\<lambda>i. do { cpu \<leftarrow> execute_rtype_inst cpu i; Some (NONE, cpu, prog) })
               (unpack_rtype ps instruction)
           | IType \<Rightarrow> map_option (\<lambda>i. execute_itype_inst ops sysc cpu i inst_size prog)
               (unpack_itype ps instruction)
           | SType \<Rightarrow> map_option (\<lambda>i. do { cpu \<leftarrow> execute_stype_inst ops cpu i; Some (NONE, cpu, prog) })
               (unpack_stype ps instruction)
           | BType \<Rightarrow> map_option (\<lambda>i. do { cpu \<leftarrow> execute_btype_inst cpu i inst_size; Some (NONE, cpu, prog) })
               (unpack_btype ps instruction)
           | UType \<Rightarrow> map_option (\<lambda>i. do { cpu \<leftarrow> execute_utype_inst cpu i; Some (NONE, cpu, prog) })
               (unpack_utype ps instruction)
           | JType \<Rightarrow> map_option (\<lambda>i. do { (action, cpu) \<leftarrow> execute_jtype_inst cpu i inst_size;
                 Some (action, cpu, prog) }) (unpack_jtype ps instruction))) in
     case run of
       None \<Rightarrow> Some (None, cpu, prog)
     | Some r \<Rightarrow> do {
         (action, cpu, prog) \<leftarrow> r;
         cpu \<leftarrow> (if action \<noteq> REPEAT_INSTRUCTION then do {
             pc \<leftarrow> checked_add (program_counter cpu) inst_size;
             Some (cpu\<lparr>program_counter := pc\<rparr>)
           } else Some cpu);
         if action = RAISE_EXCEPTION then Some (None, cpu, prog)
         else Some (Some (), cpu, prog)
       })"

definition tick :: "packed_struct \<Rightarrow> 'm mem_ops \<Rightarrow> ('m, 'p) syscall \<Rightarrow> 'm Riscv64Cpu \<Rightarrow> 'p \<Rightarrow>
    (unit option \<times> 'm Riscv64Cpu \<times> 'p) option" where
  "tick ps ops sysc cpu prog = do {
     instruction \<leftarrow> read_u32_le ops (memory cpu) (program_counter cpu);
     let is_compressed = (instruction AND 0b11 \<noteq> 0b11);
     let inst_size = (if is_compressed then 2 else 4);
     if is_compressed then do {
       r \<leftarrow> expand ps instruction;
       (case r of
         None \<Rightarrow> Some (None, cpu, prog)
       | Some instruction \<Rightarrow> execute ps ops sysc cpu prog instruction inst_size)
     } else execute ps ops sysc cpu prog instruction inst_size
   }"

end
