(* ===== verification/User_Memory.thy ===== *)
theory User_Memory
  imports Process Riscv_Cpu Utf8
begin

text \<open>
  The memory of a program as the kernel uses it: user pointers (\<^verbatim>\<open>UserPointer\<close> in
  \<^verbatim>\<open>src/kernel/src/virtmem.rs\<close>) and the system calls \<^verbatim>\<open>malloc\<close>, \<^verbatim>\<open>free\<close>, \<^verbatim>\<open>realloc\<close>, \<^verbatim>\<open>getcwd\<close>, \<^verbatim>\<open>getenv\<close>,
  \<^verbatim>\<open>waitpid\<close> and \<^verbatim>\<open>pipe\<close> (\<^verbatim>\<open>src/kernel/src/syscall.rs\<close>).

  A user pointer is turned into a raw pointer into the storage of its region, and then into a slice of
  the length the program asked for: the length is not compared with the region. \<open>None\<close> is here not
  only a panic but also a slice that leaves the region, which is undefined behaviour of the kernel; the
  inner \<open>None\<close> is an address that is not mapped. Whether the allocator of the programs' physical memory
  has room for a number of bytes is the parameter \<open>room\<close>; without room the kernel stops.
\<close>

section \<open>User pointers\<close>

definition user_slice :: "LittleEndianVirtualMemory \<Rightarrow> u64 \<Rightarrow> nat \<Rightarrow> u8 list option option" where
  "user_slice m ptr cnt = do {
     hit \<leftarrow> try_map m ptr;
     (case hit of
        None \<Rightarrow> Some None
      | Some (r, info) \<Rightarrow>
          if offset_in_region info + cnt \<le> length (backing_storage r)
          then Some (Some (take cnt (drop (offset_in_region info) (backing_storage r)))) else None) }"

text \<open>\<^verbatim>\<open>try_as_mut\<close>: the slice, and storing bytes at its start.\<close>

definition user_store ::
  "LittleEndianVirtualMemory \<Rightarrow> u64 \<Rightarrow> u8 list \<Rightarrow> (unit option \<times> LittleEndianVirtualMemory) option" where
  "user_store m ptr bytes = do {
     r \<leftarrow> user_slice m ptr (length bytes);
     (case r of
        None \<Rightarrow> Some (None, m)
      | Some _ \<Rightarrow> map_option (\<lambda>m. (Some (), m)) (store_slice m ptr bytes)) }"

definition cstr_user_pointer_to_str :: "LittleEndianVirtualMemory \<Rightarrow> u64 \<Rightarrow> u8 list option option" where
  "cstr_user_pointer_to_str m ptr = do {
     hit \<leftarrow> try_map m ptr;
     (case hit of
        None \<Rightarrow> Some None
      | Some (r, info) \<Rightarrow>
          let bytes = drop (offset_in_region info) (backing_storage r) in
          if 0 \<in> set bytes then Some (from_utf8 (takeWhile (\<lambda>b. b \<noteq> 0) bytes)) else None) }"

section \<open>The heap of a program\<close>

type_synonym 'n memory_state = "LittleEndianVirtualMemory \<times> 'n ProcessData"

definition malloc :: "(u64 \<Rightarrow> bool) \<Rightarrow> 'n memory_state \<Rightarrow> u64 \<Rightarrow> (u64 \<times> 'n memory_state) option" where
  "malloc room s sz = (case s of (m, p) \<Rightarrow> do {
     total \<leftarrow> checked_add sz 8;
     (case from_size_align total 8 of
        None \<Rightarrow> Some (0, m, p)
      | Some allocation_info \<Rightarrow> do {
          assert_that (room (layout_size allocation_info));
          let physical_allocation = to_le_bytes (layout_size allocation_info) @ replicate (unat (layout_size allocation_info) - 8) 0;
          (ptr, va) \<leftarrow> alloc (virtual_allocator p) allocation_info;
          let p = p\<lparr>virtual_allocator := va\<rparr>;
          if ptr = 0 then Some (0, m, p)
          else do {
            (_, m) \<leftarrow> add_region m ptr physical_allocation;
            res \<leftarrow> checked_add ptr 8;
            Some (res, m, p) } }) })"

definition free :: "'n memory_state \<Rightarrow> u64 \<Rightarrow> 'n memory_state option" where
  "free s ptr = (case s of (m, p) \<Rightarrow> do {
     hit \<leftarrow> try_map m ptr;
     (case hit of
        None \<Rightarrow> Some (m, p)
      | Some (r, info) \<Rightarrow> do {
          assert_that (8 \<le> length (backing_storage r));
          let size0 = from_le_bytes (take 8 (backing_storage r));
          (case from_size_align size0 8 of
             None \<Rightarrow> Some (m, p)
           | Some allocation_info \<Rightarrow> do {
               m \<leftarrow> remove_region m (region_index info);
               start \<leftarrow> checked_sub ptr 8;
               va \<leftarrow> dealloc (virtual_allocator p) start allocation_info;
               Some (m, p\<lparr>virtual_allocator := va\<rparr>) }) }) })"

definition realloc :: "(u64 \<Rightarrow> bool) \<Rightarrow> 'n memory_state \<Rightarrow> u64 \<Rightarrow> u64 \<Rightarrow> (u64 \<times> 'n memory_state) option" where
  "realloc room s ptr new_size = (case s of (m, p) \<Rightarrow> do {
     hit \<leftarrow> try_map m ptr;
     (case hit of
        None \<Rightarrow> Some (0, m, p)
      | Some (r, info) \<Rightarrow> do {
          let data = backing_storage r;
          assert_that (room (of_nat (length data)));
          s \<leftarrow> free (m, p) ptr;
          (new_ptr, m, p) \<leftarrow> malloc room s new_size;
          hit \<leftarrow> try_map m new_ptr;
          (case hit of
             None \<Rightarrow> Some (0, m, p)
           | Some (r, info) \<Rightarrow>
               Some (new_ptr, m\<lparr>vm_map := (vm_map m)[region_index info := r\<lparr>backing_storage := data\<rparr>]\<rparr>, p)) }) })"

section \<open>Working directory and environment\<close>

text \<open>The loop of \<^verbatim>\<open>getcwd\<close> stores one byte per character, the terminator at the length in bytes.\<close>

definition getcwd :: "'n memory_state \<Rightarrow> u64 \<Rightarrow> u64 \<Rightarrow> (u64 \<times> 'n memory_state) option" where
  "getcwd s ptr buf_size = (case s of (m, p) \<Rightarrow>
     if length (cwd p) + 1 > unat buf_size then Some (0, m, p)
     else do {
       r \<leftarrow> user_slice m ptr (unat buf_size);
       (case r of
          None \<Rightarrow> Some (0, m, p)
        | Some _ \<Rightarrow> do {
            (_, m) \<leftarrow> user_store m ptr (map of_char (cwd p) @ [0]);
            Some (ptr, m, p) }) })"

definition getenv :: "'n memory_state \<Rightarrow> u64 \<Rightarrow> u64 option" where
  "getenv s ptr = (case s of (m, p) \<Rightarrow> do {
     r \<leftarrow> cstr_user_pointer_to_str m ptr;
     (case r of
        None \<Rightarrow> Some 0
      | Some key \<Rightarrow> Some (case env p (text_of key) of None \<Rightarrow> 0 | Some res \<Rightarrow> res)) })"

section \<open>Waiting\<close>

primrec signal_number :: "SignalType \<Rightarrow> u8" where
  "signal_number SIGILL = 4"
| "signal_number SIGKILL = 9"

definition wait_status :: "WaitAction \<Rightarrow> u64" where
  "wait_status action = (case action of
     EXITED exit_code \<Rightarrow> 0 OR (exit_code AND 0xFF)
   | TERMINATED_BY_SIGNAL signal \<Rightarrow> 0x100 OR (ucast (signal_number (signal_type signal)) AND 0xFF))"

text \<open>
  The result \<open>None\<close> repeats the instruction. The status is a \<^verbatim>\<open>usize\<close>, eight bytes. The raw pointer is
  compared with the null pointer of the kernel, which no pointer into a region is.
\<close>

definition waitpid :: "'n memory_state \<Rightarrow> u64 \<Rightarrow> u64 \<Rightarrow> (u64 option \<times> 'n memory_state) option" where
  "waitpid s child wstatus = (case s of (m, p) \<Rightarrow>
     (case state p of
        FINISHED_WAITING_FOR_CHILD_PROCESS info \<Rightarrow> (
          let p = p\<lparr>state := RUNNING\<rparr> in
          (case info of
             None \<Rightarrow> Some (Some (- 1), m, p)
           | Some info \<Rightarrow> do {
               (r, m) \<leftarrow> user_store m wstatus (to_le_bytes (wait_status (wait_action info)));
               Some (case r of
                   None \<Rightarrow> (Some (- 1), m, p)
                 | Some _ \<Rightarrow> (Some (of_nat (wait_cpid info)), m, p)) }))
      | _ \<Rightarrow>
          if child = - 1 then Some (None, m, p\<lparr>state := WAITING_FOR_CHILD_PROCESS None\<rparr>)
          else if 0 <s child then Some (None, m, p\<lparr>state := WAITING_FOR_CHILD_PROCESS (Some (unat child))\<rparr>)
          else Some (Some (- 1), m, p)))"

section \<open>Pipes\<close>

definition pipe :: "pipes \<Rightarrow> 'n memory_state \<Rightarrow> u64 \<Rightarrow> (u64 \<times> pipes \<times> 'n memory_state) option" where
  "pipe pipes s fds = (case s of (m, p) \<Rightarrow> do {
     r \<leftarrow> user_slice m fds 8;
     (case r of
        None \<Rightarrow> Some (- 1, pipes, m, p)
      | Some _ \<Rightarrow> do {
          let (read_fd, write_fd, pipes, p) = pipe_create pipes p;
          (_, m) \<leftarrow> user_store m fds (to_le_bytes (of_nat read_fd :: u32) @ to_le_bytes (of_nat write_fd :: u32));
          Some (0, pipes, m, p) }) })"

section \<open>The heap invariant\<close>

text \<open>
  Every region inside of the heap range of a program is the start of a live block.
\<close>

definition heap_region :: "BasicAlloc \<Rightarrow> VirtRegion \<Rightarrow> bool" where
  "heap_region a r \<longleftrightarrow> unat (heap_base a) < unat (virtual_start r) + region_len r
     \<and> unat (virtual_start r) < unat (heap_base a) + unat (heap_len a)"

definition heap_inv :: "LittleEndianVirtualMemory \<Rightarrow> BasicAlloc \<Rightarrow> block list \<Rightarrow> bool" where
  "heap_inv m a live \<longleftrightarrow> vm_inv m \<and> alloc_inv a live \<and> heap_base a \<noteq> 0
     \<and> (\<forall>r \<in> set (vm_map m). heap_region a r \<longrightarrow>
          0 < region_len r \<and> (\<exists>sz. (virtual_start r, sz) \<in> set live \<and> region_len r \<le> unat sz))"

abbreviation heap_ok :: "LittleEndianVirtualMemory \<Rightarrow> 'n ProcessData \<Rightarrow> block list \<Rightarrow> bool" where
  "heap_ok m p live \<equiv> heap_inv m (virtual_allocator p) live"

lemma stash_keeps_space: "heap_base (stash a e) = heap_base a" "heap_len (stash a e) = heap_len a"
  by (simp_all add: stash_def split: option.splits)

lemma pad_for_keeps_space:
  assumes "pad_for a l = Some (b, a')"
  shows "heap_base a' = heap_base a \<and> heap_len a' = heap_len a"
proof (cases "from_size_align (layout_align l - heap_next a mod layout_align l) 1")
  case None
  then show ?thesis using assms by (simp add: pad_for_def split: if_split_asm)
next
  case (Some padding)
  then show ?thesis using assms
    by (cases "checked_add (heap_next a) (layout_size padding)")
      (auto simp: pad_for_def Let_def stash_keeps_space split: if_split_asm)
qed

lemma alloc_keeps_space:
  assumes "alloc a l = Some (ptr, a')"
  shows "heap_base a' = heap_base a" "heap_len a' = heap_len a"
proof -
  obtain ok a1 where p: "pad_for a l = Some (ok, a1)" using assms by (cases "pad_for a l") (auto simp: alloc_def)
  have "heap_base a' = heap_base a1 \<and> heap_len a' = heap_len a1"
    using assms p
    by (cases "checked_add (heap_next a1) (layout_size l)"; cases "checked_add (alloc_count a1) 1")
      (auto simp: alloc_def split: if_split_asm)
  with pad_for_keeps_space [OF p] show "heap_base a' = heap_base a" "heap_len a' = heap_len a" by simp_all
qed

lemma try_dealloc_keeps_space:
  "try_dealloc a ptr l = Some (b, a') \<Longrightarrow> heap_base a' = heap_base a \<and> heap_len a' = heap_len a"
  by (auto simp: try_dealloc_def Let_def bind_eq_Some_conv split: if_splits)

lemma retry_stashed_keeps_space:
  "retry_stashed is a = Some a' \<Longrightarrow> heap_base a' = heap_base a \<and> heap_len a' = heap_len a"
proof (induction "is" arbitrary: a)
  case (Cons i "is")
  obtain ptr l where e: "index (stashed_deallocations a) i = Some (ptr, l)"
    using Cons.prems by (cases "index (stashed_deallocations a) i") auto
  show ?case
  proof (cases "ptr = 0")
    case True
    then show ?thesis using Cons.prems e by simp
  next
    case False
    then obtain did a1 where d: "try_dealloc a ptr l = Some (did, a1)"
      using Cons.prems e by (cases "try_dealloc a ptr l") auto
    note k = try_dealloc_keeps_space [OF d]
    show ?thesis
    proof (cases did)
      case True
      then obtain st where "retry_stashed is (a1\<lparr>stashed_deallocations := st\<rparr>) = Some a'"
        using Cons.prems e False d by (cases "index_set (stashed_deallocations a1) i null_entry") auto
      from Cons.IH [OF this] k show ?thesis by simp
    next
      case False
      then show ?thesis using Cons.prems e \<open>ptr \<noteq> 0\<close> d k by simp
    qed
  qed
qed simp

lemma dealloc_keeps_space:
  assumes "dealloc a ptr l = Some a'"
  shows "heap_base a' = heap_base a \<and> heap_len a' = heap_len a"
proof -
  obtain c did a1 where d: "try_dealloc (a\<lparr>alloc_count := c\<rparr>) ptr l = Some (did, a1)"
    and res: "if \<not> did then a' = stash a1 (ptr, l)
      else let a = a1\<lparr>stashed_deallocations := rev (sort_key fst (stashed_deallocations a1))\<rparr>
        in retry_stashed [0 ..< length (stashed_deallocations a)] a = Some a'"
    using assms by (auto simp: dealloc_def bind_eq_Some_conv split: if_splits)
  show ?thesis
    using res try_dealloc_keeps_space [OF d] by (auto simp: stash_keeps_space Let_def dest: retry_stashed_keeps_space split: if_splits)
qed

lemma layout_8: "unat n \<le> 2 ^ 63 - 8 \<Longrightarrow> from_size_align n 8 = Some \<lparr>layout_size = n, layout_align = 8\<rparr>"
  by (simp add: from_size_align_def word_le_nat_alt)

definition block_region :: "u64 \<Rightarrow> u64 \<Rightarrow> VirtRegion" where
  "block_region ptr n = \<lparr>virtual_start = ptr, backing_storage = to_le_bytes n @ replicate (unat n - 8) 0\<rparr>"

lemma block_region_facts [simp]:
  "8 \<le> unat n \<Longrightarrow> region_len (block_region ptr n) = unat n" "virtual_start (block_region ptr n) = ptr"
  by (simp_all add: block_region_def region_len_def)

text \<open>
  Live blocks lie inside of the heap and do not overlap, so a live block that no region starts at can
  take one.
\<close>

lemma live_apart:
  assumes "alloc_inv a live" "b \<in> set live" "c \<in> set live" "has_addr b x" "has_addr c x"
  shows "b = c"
proof (rule ccontr)
  assume "b \<noteq> c"
  then have "c \<in> set (remove1 b live)" using assms(3) by simp
  then have "cover x live = of_bool (has_addr b x) + (of_bool (has_addr c x) + cover x (remove1 c (remove1 b live)))"
    using cover_remove1 assms(2) by metis
  moreover have "cover x live \<le> of_bool (used a x)" using assms(1) unfolding alloc_inv_def by (metis add_leD1)
  ultimately show False using assms(4,5) by (cases "used a x") simp_all
qed

lemma live_in_heap:
  assumes "alloc_inv a live" "b \<in> set live" "has_addr b x"
  shows "unat (heap_base a) \<le> x \<and> x < unat (heap_base a) + unat (heap_len a)"
proof -
  have "cover x live \<le> of_bool (used a x)" using assms(1) unfolding alloc_inv_def by (metis add_leD1)
  then have "used a x" using cover_remove1 [OF assms(2), of x] assms(3) by (cases "used a x") simp_all
  then show ?thesis using assms(1) by (auto simp: used_def alloc_inv_def word_le_nat_alt)
qed

lemma add_block_region:
  assumes h: "heap_inv m a live" and b: "(ptr, n) \<in> set live"
    and free: "\<forall>r \<in> set (vm_map m). heap_region a r \<longrightarrow> virtual_start r \<noteq> ptr"
    and data: "0 < length data" "length data \<le> unat n" and R: "R = \<lparr>virtual_start = ptr, backing_storage = data\<rparr>"
  shows "\<forall>r \<in> set (vm_map m). region_disjoint r R"
    "add_region m ptr data = Some (Some (), m\<lparr>vm_map := vm_map m @ [R]\<rparr>)"
    "heap_inv (m\<lparr>vm_map := vm_map m @ [R]\<rparr>) a live"
proof -
  have inv: "alloc_inv a live" "vm_inv m" "heap_base a \<noteq> 0" using h by (simp_all add: heap_inv_def)
  have r: "region_len R = length data" "virtual_start R = ptr" by (simp_all add: R region_len_def)
  have "has_addr (ptr, n) (unat ptr)" "has_addr (ptr, n) (unat ptr + (length data - 1))"
    using data unfolding has_addr_def fst_conv snd_conv by linarith+
  then have range: "unat (heap_base a) \<le> unat ptr" "unat ptr + length data \<le> unat (heap_base a) + unat (heap_len a)"
    using live_in_heap [OF inv(1) b] data(1) by fastforce+
  show apart: "\<forall>r \<in> set (vm_map m). region_disjoint r R"
  proof
    fix q assume q: "q \<in> set (vm_map m)"
    show "region_disjoint q R"
    proof (cases "heap_region a q")
      case True
      then obtain k where live: "(virtual_start q, k) \<in> set live" "0 < region_len q" "region_len q \<le> unat k"
        using h q by (auto simp: heap_inv_def)
      let ?x = "max (unat (virtual_start q)) (unat ptr)"
      have "\<not> (has_addr (virtual_start q, k) ?x \<and> has_addr (ptr, n) ?x)"
        using live_apart [OF inv(1) live(1) b] free q True by blast
      then show ?thesis using live(2,3) data unfolding has_addr_def region_disjoint_def r fst_conv snd_conv by linarith
    next
      case False
      then show ?thesis using range data unfolding heap_region_def region_disjoint_def r by linarith
    qed
  qed
  have "ptr \<noteq> 0" using range(1) inv(3) by (auto simp: unat_eq_0)
  moreover have "unat (heap_base a) + unat (heap_len a) \<le> 2 ^ 64" using inv(1) by (simp add: alloc_inv_def)
  ultimately have ok: "region_ok R" using range(2) unfolding region_ok_def r by linarith
  have "any_overlap (vm_map m) R = Some False"
    using inv(2) apart ok by (subst any_overlap_eq) (auto simp: vm_inv_def)
  then show "add_region m ptr data = Some (Some (), m\<lparr>vm_map := vm_map m @ [R]\<rparr>)" by (simp add: add_region_def R)
  show "heap_inv (m\<lparr>vm_map := vm_map m @ [R]\<rparr>) a live"
    using h vm_inv_snoc [OF inv(2) ok] apart b data r by (auto simp: heap_inv_def)
qed

lemma heap_alloc:
  assumes h: "heap_inv m a live" and l: "from_size_align (layout_size l) (layout_align l) = Some l"
    and r64: "unat (heap_next a) + unat (layout_align l) + unat (layout_size l) < 2 ^ 64"
    and count: "length live + 1 < 2 ^ 64"
  obtains (full) a' where "alloc a l = Some (0, a')" "heap_inv m a' live"
    "unat (heap_len a) \<le> unat (heap_next a) + unat (layout_align l) + unat (layout_size l)"
  | (block) ptr a' where "alloc a l = Some (ptr, a')" "ptr \<noteq> 0" "heap_inv m a' ((ptr, layout_size l) # live)"
    "unat ptr + unat (layout_size l) < 2 ^ 64"
    "0 < layout_size l \<Longrightarrow> \<forall>r \<in> set (vm_map m). heap_region a' r \<longrightarrow> virtual_start r \<noteq> ptr"
proof -
  let ?t = "layout_size l"
  have inv: "alloc_inv a live" "vm_inv m" "heap_base a \<noteq> 0" using h by (simp_all add: heap_inv_def)
  obtain ptr a' where al: "alloc a l = Some (ptr, a')" and res: "ptr = 0 \<and> alloc_inv a' live \<and>
       unat (heap_len a) \<le> unat (heap_next a) + unat (layout_align l) + unat ?t \<or>
     alloc_inv a' ((ptr, ?t) # live) \<and>
     unat (heap_base a) \<le> unat ptr \<and> unat ptr + unat ?t < unat (heap_base a) + unat (heap_len a) \<and>
     (\<forall>b \<in> set live. \<forall>x. \<not> (has_addr b x \<and> has_addr (ptr, ?t) x))"
    using alloc_takes_block [OF inv(1) l r64 count] by auto
  note space = alloc_keeps_space [OF al]
  show ?thesis
  proof (cases "ptr = 0")
    case True
    then have "alloc_inv a' live" "unat (heap_len a) \<le> unat (heap_next a) + unat (layout_align l) + unat ?t"
      using res inv(3) by (auto simp: unat_eq_0)
    moreover from this(1) have "heap_inv m a' live" using h space by (simp add: heap_inv_def heap_region_def)
    ultimately show ?thesis using full al True by blast
  next
    case False
    then have got: "alloc_inv a' ((ptr, ?t) # live)" "unat ptr + unat ?t < unat (heap_base a) + unat (heap_len a)"
      "\<And>b x. b \<in> set live \<Longrightarrow> \<not> (has_addr b x \<and> has_addr (ptr, ?t) x)" using res by auto
    have "unat (heap_base a) + unat (heap_len a) \<le> 2 ^ 64" using inv(1) by (simp add: alloc_inv_def)
    then have "unat ptr + unat ?t < 2 ^ 64" using got(2) by linarith
    moreover have "heap_inv m a' ((ptr, ?t) # live)" using h got(1) space by (fastforce simp: heap_inv_def heap_region_def)
    moreover have "virtual_start r \<noteq> ptr" if r: "r \<in> set (vm_map m)" "heap_region a' r" and t: "0 < ?t" for r
    proof -
      obtain k where live: "(virtual_start r, k) \<in> set live" "0 < region_len r" "region_len r \<le> unat k"
        using h r space by (auto simp: heap_inv_def heap_region_def)
      have "has_addr (ptr, ?t) (unat ptr)" using t by (simp add: has_addr_def unat_gt_0)
      then show ?thesis using got(3) [OF live(1), of "unat ptr"] live(2,3) by (auto simp: has_addr_def)
    qed
    ultimately show ?thesis using block al False by blast
  qed
qed

lemma malloc_ok:
  assumes h: "heap_ok m p live" and sz: "unat sz < 2 ^ 62"
    and room: "room (sz + 8)" and next0: "unat (heap_next (virtual_allocator p)) < 2 ^ 62" and count: "length live + 1 < 2 ^ 64"
  shows "\<exists>ptr m' p'. malloc room (m, p) sz = Some (ptr, m', p') \<and>
    (ptr = 0 \<and> m' = m \<and> heap_ok m' p' live
       \<and> unat (heap_len (virtual_allocator p)) \<le> unat (heap_next (virtual_allocator p)) + unat sz + 16
     \<or> ptr \<noteq> 0 \<and> heap_ok m' p' ((ptr - 8, sz + 8) # live) \<and> vm_map m' = vm_map m @ [block_region (ptr - 8) (sz + 8)]
       \<and> 8 \<le> unat ptr \<and> (\<forall>r \<in> set (vm_map m). region_disjoint r (block_region (ptr - 8) (sz + 8))))"
proof -
  let ?a = "virtual_allocator p" and ?t = "sz + 8"
  have t: "checked_add sz 8 = Some ?t" "unat ?t = unat sz + 8"
  proof -
    show c: "checked_add sz 8 = Some ?t" using sz by (simp add: checked_add_nat)
    show "unat ?t = unat sz + 8" using checked_add_unat [OF c] by simp
  qed
  let ?l = "\<lparr>layout_size = ?t, layout_align = 8\<rparr>" and ?d = "to_le_bytes ?t @ replicate (unat ?t - 8) 0"
  have l: "from_size_align ?t 8 = Some ?l" using sz t(2) by (intro layout_8) simp
  have pos: "0 < ?t" using t(2) by (simp add: word_less_nat_alt)
  have d: "0 < length ?d" "length ?d \<le> unat ?t" using t(2) by simp_all
  have r64: "unat (heap_next ?a) + unat (layout_align ?l) + unat (layout_size ?l) < 2 ^ 64"
    using sz next0 t(2) by simp
  have l': "from_size_align (layout_size ?l) (layout_align ?l) = Some ?l" using l by simp
  show ?thesis
  proof (rule heap_alloc [OF h l' r64 count])
    fix a' assume al: "alloc ?a ?l = Some (0, a')" and ok: "heap_inv m a' live"
      and len: "unat (heap_len ?a) \<le> unat (heap_next ?a) + unat (layout_align ?l) + unat (layout_size ?l)"
    have "malloc room (m, p) sz = Some (0, m, p\<lparr>virtual_allocator := a'\<rparr>)" using room by (simp add: malloc_def t(1) l al Let_def)
    then show ?thesis using ok len t(2) by auto
  next
    fix ptr a' assume al: "alloc ?a ?l = Some (ptr, a')" "ptr \<noteq> 0" and ok: "heap_inv m a' ((ptr, layout_size ?l) # live)"
      and end64: "unat ptr + unat (layout_size ?l) < 2 ^ 64"
      and free: "0 < layout_size ?l \<Longrightarrow> \<forall>r \<in> set (vm_map m). heap_region a' r \<longrightarrow> virtual_start r \<noteq> ptr"
    have p8: "checked_add ptr 8 = Some (ptr + 8)" using end64 t(2) by (simp add: checked_add_nat)
    then have u: "unat (ptr + 8) = unat ptr + 8" using checked_add_unat by fastforce
    have "(ptr, ?t) \<in> set ((ptr, layout_size ?l) # live)" by simp
    note add = add_block_region [OF ok this _ d block_region_def] 
    have free': "\<forall>r \<in> set (vm_map m). heap_region a' r \<longrightarrow> virtual_start r \<noteq> ptr" using free pos by simp
    have "malloc room (m, p) sz = Some (ptr + 8, m\<lparr>vm_map := vm_map m @ [block_region ptr ?t]\<rparr>, p\<lparr>virtual_allocator := a'\<rparr>)"
      using al room p8 add(2) [OF free'] by (simp add: malloc_def t(1) l Let_def)
    moreover have "ptr + 8 \<noteq> 0" using u by (metis add_is_0 unat_0 zero_neq_numeral)
    ultimately show ?thesis using add(1,3) [OF free'] u by (intro exI [of _ "ptr + 8"]) auto
  qed
qed

section \<open>Freeing\<close>

lemma try_map_hit:
  assumes "vm_inv m" "k < length (vm_map m)" "contains (vm_map m ! k) a"
  shows "try_map m a = Some (Some (vm_map m ! k,
    \<lparr>offset_in_region = unat a - unat (virtual_start (vm_map m ! k)), region_index = k\<rparr>))"
  using map_or_panic_hit [OF assms] by (auto simp: map_or_panic_def bind_eq_Some_conv)

lemma try_map_null: "vm_inv m \<Longrightarrow> try_map m 0 = Some None"
proof -
  assume m: "vm_inv m"
  then have "\<not> contains r 0" if "r \<in> set (vm_map m)" for r
    using that by (auto simp: vm_inv_def region_ok_def contains_def unat_eq_0)
  moreover have "\<forall>r \<in> set (vm_map m). region_ok r" using m by (simp add: vm_inv_def)
  ultimately show ?thesis using find_map_region_cases [of "vm_map m" 0 0] by (auto simp: try_map_def)
qed

text \<open>The block of region \<open>k\<close>, with its size still in front of it.\<close>

definition live_block :: "LittleEndianVirtualMemory \<Rightarrow> block list \<Rightarrow> nat \<Rightarrow> u64 \<Rightarrow> bool" where
  "live_block m live k ptr \<longleftrightarrow> k < length (vm_map m) \<and> 8 \<le> unat ptr \<and> virtual_start (vm_map m ! k) = ptr - 8
     \<and> 8 < region_len (vm_map m ! k) \<and> region_len (vm_map m ! k) \<le> 2 ^ 63 - 8
     \<and> from_le_bytes (take 8 (backing_storage (vm_map m ! k))) = (of_nat (region_len (vm_map m ! k)) :: u64)
     \<and> (ptr - 8, of_nat (region_len (vm_map m ! k))) \<in> set live"

lemma unat_minus_8: "8 \<le> unat (ptr :: u64) \<Longrightarrow> unat (ptr - 8) = unat ptr - 8 \<and> checked_sub ptr 8 = Some (ptr - 8)"
  by (simp add: unat_sub checked_sub_def word_le_nat_alt)

lemma removed_nthE:
  assumes "x \<in> set (take k xs @ drop (Suc k) xs)"
  obtains j where "j < length xs" "j \<noteq> k" "x = xs ! j"
proof (cases "x \<in> set (take k xs)")
  case True
  then obtain j where "j < k" "j < length xs" "x = xs ! j" by (auto simp: in_set_conv_nth)
  then show thesis using that [of j] by simp
next
  case False
  then have "x \<in> set (drop (Suc k) xs)" using assms by simp
  then obtain i where "i < length xs - Suc k" "x = xs ! (Suc k + i)" by (auto simp: in_set_conv_nth)
  then show thesis using that [of "Suc k + i"] by simp
qed

lemma free_ok:
  assumes h: "heap_ok m p live" and b: "live_block m live k ptr"
  shows "\<exists>m' p'. free (m, p) ptr = Some (m', p') \<and> vm_map m' = take k (vm_map m) @ drop (Suc k) (vm_map m)
    \<and> heap_ok m' p' (remove1 (ptr - 8, of_nat (region_len (vm_map m ! k))) live)
    \<and> heap_next (virtual_allocator p') \<le> heap_next (virtual_allocator p)
    \<and> (\<forall>x. vm_byte m' x = (if contains (vm_map m ! k) x then None else vm_byte m x))"
proof -
  let ?r = "vm_map m ! k" and ?a = "virtual_allocator p"
  let ?n = "of_nat (region_len ?r) :: u64"
  have k: "k < length (vm_map m)" and p8: "8 \<le> unat ptr" and start: "virtual_start ?r = ptr - 8"
    and len: "8 < region_len ?r" "region_len ?r \<le> 2 ^ 63 - 8" and hdr: "from_le_bytes (take 8 (backing_storage ?r)) = ?n"
    and mem: "(ptr - 8, ?n) \<in> set live" using b by (simp_all add: live_block_def)
  have inv: "vm_inv m" "alloc_inv ?a live" using h by (simp_all add: heap_inv_def)
  note sub = unat_minus_8 [OF p8]
  have hit: "contains ?r ptr" using sub start len(1) p8 by (simp add: contains_def)
  have n: "unat ?n = region_len ?r" using inv(1) k by (auto simp: vm_inv_def)
  have lay: "from_size_align ?n 8 = Some \<lparr>layout_size = ?n, layout_align = 8\<rparr>" using n len(2) by (intro layout_8) simp
  obtain m' where rm: "remove_region m k = Some m'" "vm_inv m'"
    "\<And>x. vm_byte m' x = (if contains ?r x then None else vm_byte m x)"
    using vm_remove_region_correct [OF inv(1) k] by blast
  have map': "vm_map m' = take k (vm_map m) @ drop (Suc k) (vm_map m)" using rm(1) k by (auto simp: remove_region_def)
  obtain a' where d: "dealloc ?a (ptr - 8) \<lparr>layout_size = ?n, layout_align = 8\<rparr> = Some a'"
    "alloc_inv a' (remove1 (ptr - 8, ?n) live)" "heap_next a' \<le> heap_next ?a"
    using dealloc_frees_block [OF inv(2), of "ptr - 8" "\<lparr>layout_size = ?n, layout_align = 8\<rparr>"] mem by auto
  note space = dealloc_keeps_space [OF d(1)]
  have "free (m, p) ptr = Some (m', p\<lparr>virtual_allocator := a'\<rparr>)"
    using try_map_hit [OF inv(1) k hit] len(1) rm(1) d(1) sub
    by (simp add: free_def Let_def hdr lay region_len_def [symmetric])
  moreover have "heap_ok m' (p\<lparr>virtual_allocator := a'\<rparr>) (remove1 (ptr - 8, ?n) live)"
  proof -
    have "0 < region_len r \<and> (\<exists>n. (virtual_start r, n) \<in> set (remove1 (ptr - 8, ?n) live) \<and> region_len r \<le> unat n)"
      if r: "r \<in> set (vm_map m')" "heap_region ?a r" for r
    proof -
      obtain j where j: "j < length (vm_map m)" "j \<noteq> k" "r = vm_map m ! j"
        using r(1) unfolding map' by (rule removed_nthE)
      then obtain n where live: "(virtual_start r, n) \<in> set live" "0 < region_len r" "region_len r \<le> unat n"
        using h r(2) by (auto simp: heap_inv_def)
      have "region_disjoint ?r r" using vm_inv_nth_disjoint [OF inv(1) k j(1)] j by simp
      then have "virtual_start r \<noteq> ptr - 8" using live(2) len(1) start by (auto simp: region_disjoint_def)
      then have "(virtual_start r, n) \<in> set (remove1 (ptr - 8, ?n) live)" using live(1) by (simp add: in_set_remove1)
      then show ?thesis using live(2,3) by blast
    qed
    then show ?thesis using h rm(2) d(2) space by (auto simp: heap_inv_def heap_region_def)
  qed
  ultimately show ?thesis using map' rm(3) d(3) by fastforce
qed

section \<open>The properties of the heap\<close>

lemma heap_block_address:
  assumes "region_ok r" "virtual_start r = ptr - 8" "8 \<le> unat ptr" "8 + j < region_len r"
  shows "unat (ptr + of_nat j) = unat ptr + j" "contains r (ptr + of_nat j)"
    "unat (ptr + of_nat j) - unat (virtual_start r) = 8 + j"
proof -
  have sub: "unat (ptr - 8) = unat ptr - 8" using unat_minus_8 [OF assms(3)] by simp
  have "unat (virtual_start r) + region_len r \<le> 2 ^ 64" using assms(1) unfolding region_ok_def by blast
  then have e: "unat ptr + j < 2 ^ 64" using assms(3,4) sub unfolding assms(2) by linarith
  then have "unat (of_nat j :: u64) = j" by (simp add: unsigned_of_nat take_bit_nat_eq_self)
  then show u: "unat (ptr + of_nat j) = unat ptr + j" using e unat_add_lem [of ptr "of_nat j"] by simp
  show "contains r (ptr + of_nat j)" "unat (ptr + of_nat j) - unat (virtual_start r) = 8 + j"
    unfolding contains_def assms(2) u sub using assms(3,4) by linarith+
qed

lemma region_bytes:
  assumes "vm_inv m" "k < length (vm_map m)" "virtual_start (vm_map m ! k) = ptr - 8" "8 \<le> unat ptr"
    and "8 + j < region_len (vm_map m ! k)"
  shows "vm_byte m (ptr + of_nat j) = Some (backing_storage (vm_map m ! k) ! (8 + j))"
proof -
  have "region_ok (vm_map m ! k)" using assms(1,2) by (simp add: vm_inv_def)
  note a = heap_block_address [OF this assms(3-5)]
  show ?thesis using vm_byte_hit [OF assms(1,2) a(2)] by (simp add: a(3))
qed

lemma unmapped_apart: "\<forall>r \<in> set (vm_map m). region_disjoint r s \<Longrightarrow> contains s x \<Longrightarrow> vm_byte m x = None"
  using contains_disjoint by (intro vm_byte_miss) blast

text \<open>
  (C13) On a heap whose regions are its live blocks, \<^verbatim>\<open>malloc\<close> either returns the null pointer, because the
  heap has no room, and changes no byte, or returns a new block: its bytes were not mapped and are zero,
  all other bytes stay, and the invariant holds with the block.
\<close>

theorem malloc_correct:
  assumes h: "heap_ok m p live" and sz: "unat sz < 2 ^ 62" and room: "room (sz + 8)"
    and next0: "unat (heap_next (virtual_allocator p)) < 2 ^ 62" and count: "length live + 1 < 2 ^ 64"
  shows "\<exists>ptr m' p'. malloc room (m, p) sz = Some (ptr, m', p') \<and>
    (ptr = 0 \<and> m' = m \<and> heap_ok m' p' live
       \<and> unat (heap_len (virtual_allocator p)) \<le> unat (heap_next (virtual_allocator p)) + unat sz + 16
     \<or> ptr \<noteq> 0 \<and> heap_ok m' p' ((ptr - 8, sz + 8) # live)
       \<and> (\<forall>j < unat sz. vm_byte m (ptr + of_nat j) = None \<and> vm_byte m' (ptr + of_nat j) = Some 0)
       \<and> (\<forall>x b. vm_byte m x = Some b \<longrightarrow> vm_byte m' x = Some b))"
proof -
  obtain ptr m' p' where r: "malloc room (m, p) sz = Some (ptr, m', p')"
    "ptr = 0 \<and> m' = m \<and> heap_ok m' p' live
       \<and> unat (heap_len (virtual_allocator p)) \<le> unat (heap_next (virtual_allocator p)) + unat sz + 16
     \<or> ptr \<noteq> 0 \<and> heap_ok m' p' ((ptr - 8, sz + 8) # live) \<and> vm_map m' = vm_map m @ [block_region (ptr - 8) (sz + 8)]
       \<and> 8 \<le> unat ptr \<and> (\<forall>r \<in> set (vm_map m). region_disjoint r (block_region (ptr - 8) (sz + 8)))"
    using malloc_ok [where room = room, OF assms] by blast
  let ?r = "block_region (ptr - 8) (sz + 8)"
  have t: "unat (sz + 8) = unat sz + 8" using sz unat_add_lem [of sz 8] by simp
  have "\<forall>j < unat sz. vm_byte m (ptr + of_nat j) = None \<and> vm_byte m' (ptr + of_nat j) = Some 0"
    if ok: "heap_ok m' p' ((ptr - 8, sz + 8) # live)" "vm_map m' = vm_map m @ [?r]" "8 \<le> unat ptr"
      "\<forall>r \<in> set (vm_map m). region_disjoint r ?r"
  proof (intro allI impI conjI)
    fix j assume j: "j < unat sz"
    have inv: "vm_inv m'" using ok(1) by (simp add: heap_inv_def)
    have len: "8 + j < region_len ?r" "region_ok ?r" using j t inv ok(2) by (simp_all add: vm_inv_def)
    show "vm_byte m (ptr + of_nat j) = None"
      by (rule unmapped_apart [OF ok(4) heap_block_address(2) [OF len(2) _ ok(3) len(1)]]) simp
    have "vm_byte m' (ptr + of_nat j) = Some (backing_storage ?r ! (8 + j))"
      using region_bytes [OF inv, of "length (vm_map m)" ptr j] ok(2,3) len(1) by simp
    then show "vm_byte m' (ptr + of_nat j) = Some 0" using j t by (simp add: block_region_def nth_append)
  qed
  moreover have "\<forall>x b. vm_byte m x = Some b \<longrightarrow> vm_byte m' x = Some b" if "vm_map m' = vm_map m @ [?r]"
    using that by (simp add: vm_byte_def bytes_of_snoc)
  ultimately show ?thesis using r by blast
qed


text \<open>
  \<^verbatim>\<open>realloc\<close> to a larger size returns a block of the old size: the bytes of the old block are there,
  but the bytes behind them, up to the size that was asked for, are not mapped.
\<close>

theorem realloc_does_not_grow:
  assumes h: "heap_ok m p live" and b: "live_block m live k ptr"
    and size0: "region_len (vm_map m ! k) = 8 + old" "old < unat new_size" "unat new_size < 2 ^ 62"
    and room: "\<forall>n. room n"
    and next0: "unat (heap_next (virtual_allocator p)) < 2 ^ 62" and count: "length live + 1 < 2 ^ 64"
  shows "\<exists>new_ptr m' p'. realloc room (m, p) ptr new_size = Some (new_ptr, m', p') \<and>
    (new_ptr \<noteq> 0 \<longrightarrow>
      (\<forall>j < old. vm_byte m' (new_ptr + of_nat j) = Some (backing_storage (vm_map m ! k) ! (8 + j)))
      \<and> (\<forall>j. old \<le> j \<and> j < unat new_size \<longrightarrow> vm_byte m' (new_ptr + of_nat j) = None))"
proof -
  let ?r = "vm_map m ! k" and ?d = "backing_storage (vm_map m ! k)"
  let ?live = "remove1 (ptr - 8, of_nat (region_len (vm_map m ! k))) live"
  have k: "k < length (vm_map m)" and p8: "8 \<le> unat ptr" and st: "virtual_start ?r = ptr - 8" "8 < region_len ?r"
    using b by (simp_all add: live_block_def)
  have inv: "vm_inv m" using h by (simp add: heap_inv_def)
  have d: "length ?d = 8 + old" using size0(1) by (simp add: region_len_def)
  obtain m1 p1 where f: "free (m, p) ptr = Some (m1, p1)" "heap_ok m1 p1 ?live"
    "heap_next (virtual_allocator p1) \<le> heap_next (virtual_allocator p)" using free_ok [OF h b] by blast
  have next1: "unat (heap_next (virtual_allocator p1)) < 2 ^ 62" using f(3) next0 by (simp add: word_le_nat_alt)
  have count1: "length ?live + 1 < 2 ^ 64" using count length_remove1 [of _ live] by (metis (no_types, lifting) diff_le_self le_less_trans add_le_mono1)
  obtain np m2 p2 where g: "malloc room (m1, p1) new_size = Some (np, m2, p2)" and
    res: "np = 0 \<and> m2 = m1 \<or> np \<noteq> 0 \<and> heap_ok m2 p2 ((np - 8, new_size + 8) # ?live)
      \<and> vm_map m2 = vm_map m1 @ [block_region (np - 8) (new_size + 8)] \<and> 8 \<le> unat np
      \<and> (\<forall>r \<in> set (vm_map m1). region_disjoint r (block_region (np - 8) (new_size + 8)))"
    using malloc_ok [where room = room, OF f(2) size0(3) _ next1 count1] room by blast
  have "contains ?r ptr" using heap_block_address(2) [OF _ st(1) p8, of 0] st(2) inv k by (simp add: vm_inv_def)
  note hit = try_map_hit [OF inv k this]
  show ?thesis
  proof (cases "np = 0")
    case True
    then have "m2 = m1" using res by simp
    moreover have "try_map m1 0 = Some None" using f(2) by (intro try_map_null) (simp add: heap_inv_def)
    ultimately have "realloc room (m, p) ptr new_size = Some (0, m1, p2)"
      using hit f(1) g True room by (simp add: realloc_def Let_def)
    then show ?thesis by blast
  next
    case False
    let ?b = "block_region (np - 8) (new_size + 8)" and ?n = "length (vm_map m1)"
    have m2: "vm_inv m2" "vm_map m2 = vm_map m1 @ [?b]" "8 \<le> unat np" and apart: "\<forall>r \<in> set (vm_map m1). region_disjoint r ?b"
      using res False by (auto simp: heap_inv_def)
    have t: "unat (new_size + 8) = unat new_size + 8" using size0(3) unat_add_lem [of new_size 8] by simp
    have b: "region_ok ?b" "?b = vm_map m2 ! ?n" "?n < length (vm_map m2)" using m2 by (auto simp: vm_inv_def)
    have at: "contains ?b (np + of_nat j)" "unat (np + of_nat j) = unat np + j" if "j < unat new_size" for j
      using heap_block_address [OF b(1) _ m2(3), of j] that t by simp_all
    have "try_map m2 np = Some (Some (?b, \<lparr>offset_in_region = unat np - unat (np - 8), region_index = ?n\<rparr>))"
      using try_map_hit [OF m2(1) b(3), of np] at(1) [of 0] size0(2) m2(2) by simp
    then have r: "realloc room (m, p) ptr new_size = Some (np, m2\<lparr>vm_map := vm_map m1 @ [?b\<lparr>backing_storage := ?d\<rparr>]\<rparr>, p2)"
      using hit f(1) g room m2(2) by (simp add: realloc_def Let_def)
    let ?s = "?b\<lparr>backing_storage := ?d\<rparr>" and ?m3 = "m2\<lparr>vm_map := vm_map m1 @ [?b\<lparr>backing_storage := ?d\<rparr>]\<rparr>"
    have len: "region_len ?s = 8 + old" "virtual_start ?s = np - 8" using d by (simp_all add: region_len_def block_region_def)
    have m3: "vm_inv ?m3"
    proof -
      have "region_ok ?s" using b(1) len size0(2) t by (simp add: region_ok_def)
      moreover have "region_disjoint r ?s" if "r \<in> set (vm_map m1)" for r
        using apart that len size0(2) t by (fastforce simp: region_disjoint_def)
      ultimately show ?thesis using m2(1,2) by (auto simp: vm_inv_def sorted_wrt_append)
    qed
    have "vm_byte ?m3 (np + of_nat j) = Some (?d ! (8 + j))" if "j < old" for j
      using region_bytes [OF m3, of ?n np j] len m2(3) that by simp
    moreover have "vm_byte ?m3 (np + of_nat j) = None" if "old \<le> j" "j < unat new_size" for j
    proof (rule vm_byte_miss)
      have "\<not> contains ?s (np + of_nat j)"
        using at(2) [OF that(2)] that(1) len m2(3) unat_minus_8 [OF m2(3)] by (simp add: contains_def)
      then show "\<forall>r \<in> set (vm_map ?m3). \<not> contains r (np + of_nat j)"
        using apart at(1) [OF that(2)] contains_disjoint by auto
    qed
    ultimately show ?thesis using r by blast
  qed
qed

section \<open>A program with a small heap\<close>

definition demo_process :: "unit ProcessData" where
  "demo_process = ProcessData_new ''/'' Map.empty (alloc_from 0x1000 0x100 True)"

lemma demo_allocator:
  "virtual_allocator demo_process = alloc_from 0x1000 0x100 True"
  "heap_next (virtual_allocator demo_process) = 0" "unat (heap_len (virtual_allocator demo_process)) = 0x100"
  by (simp_all add: demo_process_def ProcessData_new_def alloc_from_def)

lemma demo_heap: "heap_ok vm_new demo_process []"
proof -
  have "alloc_inv (alloc_from 0x1000 0x100 True) []" by (rule alloc_inv_from) simp
  then show ?thesis by (simp add: heap_inv_def demo_allocator vm_new_def vm_inv_def) (simp add: alloc_from_def)
qed

theorem malloc_correct_witness:
  "\<exists>ptr m' p'. malloc (\<lambda>_. True) (vm_new, demo_process) 16 = Some (ptr, m', p') \<and> ptr \<noteq> 0
     \<and> vm_byte m' (ptr + of_nat 3) = Some 0"
  using malloc_correct [OF demo_heap, of 16 "\<lambda>_. True"] by (auto simp: demo_allocator(2,3) dest: spec [of _ 3])


definition block_memory :: LittleEndianVirtualMemory where
  "block_memory = \<lparr>vm_map = [\<lparr>virtual_start = 0x1000, backing_storage = to_le_bytes (24 :: u64) @ replicate 16 7\<rparr>]\<rparr>"

definition block_process :: "unit ProcessData" where
  "block_process = demo_process\<lparr>virtual_allocator := alloc_from 0x1000 0x100 True\<lparr>heap_next := 24, alloc_count := 1\<rparr>\<rparr>"

lemma block_heap: "heap_ok block_memory block_process [(0x1000, 24)]" "live_block block_memory [(0x1000, 24)] 0 0x1008"
proof -
  have "alloc_inv (alloc_from 0x1000 0x100 True\<lparr>heap_next := 24, alloc_count := 1\<rparr>) [(0x1000, 24)]"
    by (auto simp: alloc_inv_def alloc_from_def used_def has_addr_def word_le_nat_alt)
  then show "heap_ok block_memory block_process [(0x1000, 24)]"
    by (simp add: heap_inv_def block_memory_def block_process_def vm_inv_def region_ok_def region_len_def)
      (simp add: alloc_from_def)
  show "live_block block_memory [(0x1000, 24)] 0 0x1008"
    by (simp add: live_block_def block_memory_def region_len_def from_to_le_bytes)
qed

theorem realloc_does_not_grow_witness:
  "\<exists>new_ptr m' p'. realloc (\<lambda>_. True) (block_memory, block_process) 0x1008 32 = Some (new_ptr, m', p')
     \<and> (new_ptr \<noteq> 0 \<longrightarrow> vm_byte m' (new_ptr + of_nat 3) = Some 7 \<and> vm_byte m' (new_ptr + of_nat 16) = None)"
proof -
  have len: "region_len (vm_map block_memory ! 0) = 8 + 16" by (simp add: block_memory_def region_len_def)
  have byte: "backing_storage (vm_map block_memory ! 0) ! (8 + 3) = 7" by (simp add: block_memory_def nth_append)
  have al: "unat (heap_next (virtual_allocator block_process)) < 2 ^ 62" by (simp add: block_process_def alloc_from_def)
  obtain new_ptr m' p' where r: "realloc (\<lambda>_. True) (block_memory, block_process) 0x1008 32 = Some (new_ptr, m', p')"
    and ok: "new_ptr \<noteq> 0 \<longrightarrow>
      (\<forall>j < 16. vm_byte m' (new_ptr + of_nat j) = Some (backing_storage (vm_map block_memory ! 0) ! (8 + j)))
      \<and> (\<forall>j. 16 \<le> j \<and> j < unat (32 :: u64) \<longrightarrow> vm_byte m' (new_ptr + of_nat j) = None)"
    using realloc_does_not_grow [OF block_heap len, of 32 "\<lambda>_. True"] al by auto
  have "new_ptr \<noteq> 0 \<longrightarrow> vm_byte m' (new_ptr + of_nat 3) = Some 7" using ok byte by (auto dest: spec [of _ 3])
  moreover have "new_ptr \<noteq> 0 \<longrightarrow> vm_byte m' (new_ptr + of_nat 16) = None" using ok by (auto dest: spec [of _ 16])
  ultimately show ?thesis using r by blast
qed

end
