(* ===== verification/Process_Fds.thy ===== *)
theory Process_Fds
  imports Process
begin

text \<open>
  The reference counts of open nodes and pipes. A count function \<open>c\<close> says how many descriptors
  refer to a target; \<open>nodes_ok\<close> and \<open>pipes_ok\<close> say that the tables store exactly these counts
  and hold no entry that nothing refers to. The comments of the source (an existing mapping
  means that the node or pipe exists) are consequences, so no \<^verbatim>\<open>unwrap\<close> panics.
\<close>

section \<open>The invariant\<close>

definition node_slot_ok :: "nat \<Rightarrow> 'n ProcessNode option \<Rightarrow> bool" where
  "node_slot_ok k slot = (case slot of
     None \<Rightarrow> k = 0
   | Some n \<Rightarrow> unat (reference_count n) = k \<and> 0 < k)"

definition nodes_ok :: "(FdMapping \<Rightarrow> nat) \<Rightarrow> 'n ProcessNode option list \<Rightarrow> bool" where
  "nodes_ok c nodes \<longleftrightarrow> (\<forall>i. node_slot_ok (c (Regular i)) (lookup_slot nodes i))"

definition pipe_slot_ok :: "nat \<Rightarrow> nat \<Rightarrow> ProcessPipe option \<Rightarrow> bool" where
  "pipe_slot_ok r w slot = (case slot of
     None \<Rightarrow> r = 0 \<and> w = 0
   | Some q \<Rightarrow> unat (readers_count q) = r \<and> unat (writers_count q) = w \<and> 0 < r + w)"

definition pipes_ok :: "(FdMapping \<Rightarrow> nat) \<Rightarrow> pipes \<Rightarrow> bool" where
  "pipes_ok c pipes \<longleftrightarrow> (\<forall>i. pipe_slot_ok (c (PipeReadEnd i)) (c (PipeWriteEnd i)) (lookup_slot pipes i))"

definition fd_refs :: "'n ProcessData \<Rightarrow> FdMapping \<Rightarrow> nat" where
  "fd_refs p = holders (lookup_slot (fd_mappings p))"

text \<open>\<open>others\<close> counts the pipe ends that the other processes hold.\<close>

definition fd_inv :: "(FdMapping \<Rightarrow> nat) \<Rightarrow> pipes \<Rightarrow> 'n ProcessData \<Rightarrow> bool" where
  "fd_inv others pipes p \<longleftrightarrow> nodes_ok (fd_refs p) (open_nodes p) \<and>
     pipes_ok (\<lambda>m. others m + fd_refs p m) pipes \<and> trimmed (fd_mappings p)"

definition dec :: "FdMapping \<Rightarrow> (FdMapping \<Rightarrow> nat) \<Rightarrow> FdMapping \<Rightarrow> nat" where
  "dec m c = c(m := c m - 1)"

definition inc :: "FdMapping \<Rightarrow> (FdMapping \<Rightarrow> nat) \<Rightarrow> FdMapping \<Rightarrow> nat" where
  "inc m c = c(m := c m + 1)"

lemma slot_ok_simps [simp]:
  "node_slot_ok k None \<longleftrightarrow> k = 0"
  "node_slot_ok k (Some n) \<longleftrightarrow> unat (reference_count n) = k \<and> 0 < k"
  "pipe_slot_ok r w None \<longleftrightarrow> r = 0 \<and> w = 0"
  "pipe_slot_ok r w (Some q) \<longleftrightarrow> unat (readers_count q) = r \<and> unat (writers_count q) = w \<and> 0 < r + w"
  by (simp_all add: node_slot_ok_def pipe_slot_ok_def)

lemma nodes_okD:
  assumes "nodes_ok c nodes" "0 < c (Regular i)"
  shows "\<exists>n. lookup_slot nodes i = Some n \<and> unat (reference_count n) = c (Regular i)"
proof -
  have "node_slot_ok (c (Regular i)) (lookup_slot nodes i)" using assms(1) by (simp add: nodes_ok_def)
  with assms(2) show ?thesis by (cases "lookup_slot nodes i") simp_all
qed

lemma pipes_okD:
  assumes "pipes_ok c pipes" "0 < c (PipeReadEnd i) + c (PipeWriteEnd i)"
  shows "\<exists>q. lookup_slot pipes i = Some q \<and> unat (readers_count q) = c (PipeReadEnd i) \<and>
    unat (writers_count q) = c (PipeWriteEnd i)"
proof -
  have "pipe_slot_ok (c (PipeReadEnd i)) (c (PipeWriteEnd i)) (lookup_slot pipes i)"
    using assms(1) by (simp add: pipes_ok_def)
  with assms(2) show ?thesis by (cases "lookup_slot pipes i") simp_all
qed

lemma unwrap_at_Some: "lookup_slot xs i = Some v \<Longrightarrow> unwrap_at xs i = Some v"
  by (simp add: unwrap_at_def lookup_slot_index)

text \<open>Changing one entry and the count that belongs to it.\<close>

lemma nodes_ok_cong: "(\<And>i. c (Regular i) = c' (Regular i)) \<Longrightarrow> nodes_ok c nodes \<Longrightarrow> nodes_ok c' nodes"
  by (simp add: nodes_ok_def)

lemma pipes_ok_cong:
  "(\<And>i. c (PipeReadEnd i) = c' (PipeReadEnd i)) \<Longrightarrow> (\<And>i. c (PipeWriteEnd i) = c' (PipeWriteEnd i)) \<Longrightarrow>
     pipes_ok c pipes \<Longrightarrow> pipes_ok c' pipes"
  by (simp add: pipes_ok_def)

lemma nodes_ok_set:
  assumes "nodes_ok c nodes" "i < length nodes" "unat (reference_count n) = k" "0 < k"
  shows "nodes_ok (c(Regular i := k)) (nodes[i := Some n])"
  using assms by (auto simp: nodes_ok_def lookup_slot_update)

lemma nodes_ok_clear:
  assumes "nodes_ok c nodes" "i < length nodes"
  shows "nodes_ok (c(Regular i := 0)) (nodes[i := None])"
  using assms by (auto simp: nodes_ok_def lookup_slot_update)

lemma nodes_ok_drain [simp]: "nodes_ok c (drain_none nodes) = nodes_ok c nodes"
  by (simp add: nodes_ok_def)

lemma pipes_ok_drain [simp]: "pipes_ok c (drain_none pipes) = pipes_ok c pipes"
  by (simp add: pipes_ok_def)

lemma pipes_ok_set:
  assumes "pipes_ok c pipes" "i < length pipes"
    and "c' = c(PipeReadEnd i := unat (readers_count q), PipeWriteEnd i := unat (writers_count q))"
    and "0 < unat (readers_count q) + unat (writers_count q)"
  shows "pipes_ok c' (pipes[i := Some q])"
  using assms by (auto simp: pipes_ok_def lookup_slot_update)

lemma pipes_ok_clear:
  assumes "pipes_ok c pipes" "i < length pipes"
  shows "pipes_ok (c(PipeReadEnd i := 0, PipeWriteEnd i := 0)) (pipes[i := None])"
  using assms by (auto simp: pipes_ok_def lookup_slot_update)

lemma u64_pred: "(0 :: u64) < x \<Longrightarrow> unat (x - 1) = unat x - 1"
  by (simp add: unat_sub word_le_nat_alt word_less_nat_alt)

lemma gt_one: "x \<noteq> 1 \<Longrightarrow> 0 < unat x \<Longrightarrow> 1 < x" for x :: u64
  by (metis One_nat_def Suc_lessI unat_1 word_less_nat_alt word_unat_eq_iff)

section \<open>Closing a target\<close>

lemma close_node_ok:
  assumes "nodes_ok c (open_nodes p)" "0 < c (Regular i)"
  shows "\<exists>nodes. close_node p i = Some (p\<lparr>open_nodes := nodes\<rparr>) \<and> nodes_ok (dec (Regular i) c) nodes"
proof -
  from nodes_okD [OF assms] obtain n where
    n: "lookup_slot (open_nodes p) i = Some n" "unat (reference_count n) = c (Regular i)" by blast
  then have i: "i < length (open_nodes p)" by (simp add: lookup_slot_eq_Some)
  show ?thesis
  proof (cases "reference_count n = 1")
    case True
    with n have "c (Regular i) = 1" by simp
    with n True nodes_ok_clear [OF assms(1) i] show ?thesis
      by (auto simp: close_node_def unwrap_at_Some dec_def)
  next
    case False
    with n assms(2) have "1 < reference_count n" by (simp add: gt_one)
    moreover from this have "unat (reference_count n - 1) = c (Regular i) - 1" "0 < c (Regular i) - 1"
      using n(2) by (simp_all add: u64_pred word_less_nat_alt)
    ultimately show ?thesis
      using n False nodes_ok_set [OF assms(1) i, of "n\<lparr>reference_count := reference_count n - 1\<rparr>"]
      by (simp add: close_node_def unwrap_at_Some dec_def) blast
  qed
qed

lemma close_read_end_ok:
  assumes ok: "pipes_ok c pipes" and pos: "0 < c (PipeReadEnd i)"
  shows "\<exists>pipes'. close_read_end pipes i = Some pipes' \<and> pipes_ok (dec (PipeReadEnd i) c) pipes'"
proof -
  from pipes_okD [OF ok, of i] pos obtain q where
    q: "lookup_slot pipes i = Some q" "unat (readers_count q) = c (PipeReadEnd i)"
      "unat (writers_count q) = c (PipeWriteEnd i)" by auto
  then have i: "i < length pipes" by (simp add: lookup_slot_eq_Some)
  show ?thesis
  proof (cases "readers_count q = 1 \<and> writers_count q = 0")
    case True
    with q have "dec (PipeReadEnd i) c = c(PipeReadEnd i := 0, PipeWriteEnd i := 0)"
      by (auto simp: dec_def fun_eq_iff)
    with q True pipes_ok_clear [OF ok i] show ?thesis by (auto simp: close_read_end_def unwrap_at_Some)
  next
    case False
    let ?q = "q\<lparr>readers_count := readers_count q - 1\<rparr>"
    have r: "0 < readers_count q" using q(2) pos by (simp add: word_less_nat_alt)
    then have u: "unat (readers_count q - 1) = c (PipeReadEnd i) - 1" using q(2) by (simp add: u64_pred)
    moreover have "0 < unat (readers_count q - 1) + unat (writers_count q)"
      using False r gt_one [of "readers_count q"] u64_pred [OF r] q(2) pos
      by (cases "readers_count q = 1") (auto simp: word_less_nat_alt unat_eq_0 unat_gt_0)
    ultimately have "pipes_ok (dec (PipeReadEnd i) c) (pipes[i := Some ?q])"
      using q(3) by (intro pipes_ok_set [OF ok i]) (auto simp: dec_def fun_eq_iff)
    moreover have "1 \<le> readers_count q" using r by (simp add: word_le_nat_alt word_less_nat_alt)
    ultimately show ?thesis using q(1) False by (auto simp: close_read_end_def unwrap_at_Some)
  qed
qed

lemma close_write_end_ok:
  assumes ok: "pipes_ok c pipes" and pos: "0 < c (PipeWriteEnd i)"
  shows "\<exists>pipes'. close_write_end pipes i = Some pipes' \<and> pipes_ok (dec (PipeWriteEnd i) c) pipes'"
proof -
  from pipes_okD [OF ok, of i] pos obtain q where
    q: "lookup_slot pipes i = Some q" "unat (readers_count q) = c (PipeReadEnd i)"
      "unat (writers_count q) = c (PipeWriteEnd i)" by auto
  then have i: "i < length pipes" by (simp add: lookup_slot_eq_Some)
  show ?thesis
  proof (cases "writers_count q = 1 \<and> readers_count q = 0")
    case True
    with q have "dec (PipeWriteEnd i) c = c(PipeReadEnd i := 0, PipeWriteEnd i := 0)"
      by (auto simp: dec_def fun_eq_iff)
    with q True pipes_ok_clear [OF ok i] show ?thesis by (auto simp: close_write_end_def unwrap_at_Some)
  next
    case False
    let ?q = "q\<lparr>writers_count := writers_count q - 1\<rparr>"
    have r: "0 < writers_count q" using q(3) pos by (simp add: word_less_nat_alt)
    then have u: "unat (writers_count q - 1) = c (PipeWriteEnd i) - 1" using q(3) by (simp add: u64_pred)
    moreover have "0 < unat (readers_count q) + unat (writers_count q - 1)"
      using False r gt_one [of "writers_count q"] u64_pred [OF r] q(3) pos
      by (cases "writers_count q = 1") (auto simp: word_less_nat_alt unat_eq_0 unat_gt_0)
    ultimately have "pipes_ok (dec (PipeWriteEnd i) c) (pipes[i := Some ?q])"
      using q(2) by (intro pipes_ok_set [OF ok i]) (auto simp: dec_def fun_eq_iff)
    moreover have "1 \<le> writers_count q" using r by (simp add: word_le_nat_alt word_less_nat_alt)
    ultimately show ?thesis using q(1) False by (auto simp: close_write_end_def unwrap_at_Some)
  qed
qed

lemma dec_cong:
  "nodes_ok c nodes \<Longrightarrow> (\<And>i. m \<noteq> Regular i) \<Longrightarrow> nodes_ok (dec m c) nodes"
  "pipes_ok c pipes \<Longrightarrow> (\<And>i. m \<noteq> PipeReadEnd i) \<Longrightarrow> (\<And>i. m \<noteq> PipeWriteEnd i) \<Longrightarrow> pipes_ok (dec m c) pipes"
  by (metis dec_def fun_upd_other nodes_ok_cong, metis dec_def fun_upd_other pipes_ok_cong)

lemma close_target_ok:
  assumes "nodes_ok c (open_nodes p)" "pipes_ok d pipes" "0 < c m" "0 < d m"
  shows "\<exists>pipes' nodes. close_target pipes p m = Some (pipes', p\<lparr>open_nodes := nodes\<rparr>) \<and>
    nodes_ok (dec m c) nodes \<and> pipes_ok (dec m d) pipes'"
proof (cases m)
  case (Regular i)
  with close_node_ok [OF assms(1), of i] assms dec_cong(2) [OF assms(2), of m] show ?thesis by auto
next
  case (PipeReadEnd i)
  with close_read_end_ok [OF assms(2), of i] assms dec_cong(1) [OF assms(1), of m]
  show ?thesis by (auto intro!: exI [of _ "open_nodes p"])
next
  case (PipeWriteEnd i)
  with close_write_end_ok [OF assms(2), of i] assms dec_cong(1) [OF assms(1), of m]
  show ?thesis by (auto intro!: exI [of _ "open_nodes p"])
qed (use assms dec_cong(1) [OF assms(1), of m] dec_cong(2) [OF assms(2), of m] in
      \<open>auto intro!: exI [of _ "open_nodes p"]\<close>)

lemma fd_refs_remove:
  "lookup_slot (fd_mappings p) fd = Some m \<Longrightarrow>
     holders (lookup_slot (clear_slot (fd_mappings p) fd)) = dec m (fd_refs p)"
proof
  fix w
  assume "lookup_slot (fd_mappings p) fd = Some m"
  from slots.holders_remove [OF this, of w]
  show "holders (lookup_slot (clear_slot (fd_mappings p) fd)) w = dec m (fd_refs p) w"
    by (cases "w = m") (simp_all add: dec_def fd_refs_def)
qed

lemma dec_add: "0 < c m \<Longrightarrow> dec m (\<lambda>x. o' x + c x) = (\<lambda>x. o' x + dec m c x)"
  by (auto simp: dec_def fun_eq_iff)

lemma fd_refs_pos: "lookup_slot (fd_mappings p) fd = Some m \<Longrightarrow> 0 < fd_refs p m"
  unfolding fd_refs_def by (rule slots.holders_pos)

lemma close_ok:
  assumes inv: "fd_inv others pipes p"
  shows "\<exists>r pipes' nodes fds. close pipes p fd = Some (r, pipes', p\<lparr>fd_mappings := fds, open_nodes := nodes\<rparr>) \<and>
    r = (if lookup_slot (fd_mappings p) fd = None then - 1 else 0) \<and>
    lookup_slot fds = (lookup_slot (fd_mappings p))(fd := None) \<and>
    fd_inv others pipes' (p\<lparr>fd_mappings := fds, open_nodes := nodes\<rparr>) \<and>
    (lookup_slot (fd_mappings p) fd \<noteq> None \<longrightarrow> fds = clear_slot (fd_mappings p) fd)"
proof (cases "lookup_slot (fd_mappings p) fd")
  case None
  have "p\<lparr>fd_mappings := fd_mappings p, open_nodes := open_nodes p\<rparr> = p" by simp
  moreover have "(lookup_slot (fd_mappings p))(fd := None) = lookup_slot (fd_mappings p)"
    using None by (simp add: fun_upd_idem)
  moreover have "close pipes p fd = Some (- 1, pipes, p)" using None by (simp add: close_def)
  ultimately show ?thesis using None inv
    by (intro exI [of _ "- 1"] exI [of _ pipes] exI [of _ "open_nodes p"] exI [of _ "fd_mappings p"]) simp
next
  case (Some m)
  let ?d = "\<lambda>x. others x + fd_refs p x"
  note pos = fd_refs_pos [OF Some]
  have "nodes_ok (fd_refs p) (open_nodes p)" "pipes_ok ?d pipes" using inv by (simp_all add: fd_inv_def)
  from close_target_ok [OF this, of m] pos obtain pipes' nodes where
    c: "close_target pipes p m = Some (pipes', p\<lparr>open_nodes := nodes\<rparr>)"
      "nodes_ok (dec m (fd_refs p)) nodes" "pipes_ok (dec m ?d) pipes'" by auto
  let ?fds = "clear_slot (fd_mappings p) fd" and ?nodes = "drain_none nodes"
  let ?p = "p\<lparr>fd_mappings := ?fds, open_nodes := ?nodes\<rparr>"
  have fd: "fd < length (fd_mappings p)" using Some by (simp add: lookup_slot_eq_Some)
  have "fd_refs ?p = dec m (fd_refs p)" using fd_refs_remove [OF Some] by (simp add: fd_refs_def)
  then have "fd_inv others pipes' ?p"
    using c(2,3) by (simp add: fd_inv_def trimmed_clear_slot dec_add [of "fd_refs p" m, OF pos])
  moreover have "close pipes p fd = Some (0, pipes', ?p)"
    using Some c(1) fd by (simp add: close_def clear_slot_def)
  moreover have "lookup_slot ?fds = (lookup_slot (fd_mappings p))(fd := None)" by (rule lookup_clear_slot)
  ultimately show ?thesis using Some
    by (intro exI [of _ 0] exI [of _ pipes'] exI [of _ ?nodes] exI [of _ ?fds]) simp
qed

text \<open>
  (C23) \<^verbatim>\<open>close\<close>, on a process and a pipe table whose reference counts are exact: it never panics,
  it answers 0 for an open descriptor and -1 otherwise, afterwards exactly that descriptor is
  free, and the counts are exact again, with a node or pipe gone when its last descriptor is.
\<close>

theorem close_correct:
  assumes "fd_inv others pipes p"
  shows "\<exists>r pipes' p'. close pipes p fd = Some (r, pipes', p') \<and> fd_inv others pipes' p' \<and>
    r = (if lookup_slot (fd_mappings p) fd = None then - 1 else 0) \<and>
    lookup_slot (fd_mappings p') = (lookup_slot (fd_mappings p))(fd := None) \<and>
    cwd p' = cwd p \<and> env p' = env p \<and> state p' = state p \<and> pid p' = pid p \<and> parent_pid p' = parent_pid p"
  using close_ok [OF assms, of fd] by fastforce

definition demo_process :: "unit ProcessData" where
  "demo_process = (ProcessData_new ''/'' Map.empty (alloc_from 0x1000 0x1000 True))
     \<lparr>fd_mappings := [Some Stdin, Some Stdout, Some Stderr, Some (PipeReadEnd 0), None, Some (PipeWriteEnd 0)]\<rparr>"

definition demo_pipes :: pipes where
  "demo_pipes = [Some \<lparr>pipe_buf = [1, 2, 3], readers_count = 1, writers_count = 1\<rparr>]"

lemma holders_demo:
  "fd_refs demo_process m = of_bool (m \<in> {Stdin, Stdout, Stderr, PipeReadEnd 0, PipeWriteEnd 0})"
proof -
  have "{i. lookup_slot (fd_mappings demo_process) i = Some m} =
      (if m = Stdin then {0} else if m = Stdout then {1} else if m = Stderr then {2}
       else if m = PipeReadEnd 0 then {3} else if m = PipeWriteEnd 0 then {5} else {})"
    by (auto simp: demo_process_def lookup_slot_def nth_Cons' split: if_splits)
  then show ?thesis by (simp add: fd_refs_def holders_def)
qed

lemma demo_fds:
  "lookup_slot (fd_mappings demo_process) 1 = Some Stdout" "lookup_slot (fd_mappings demo_process) 3 = Some (PipeReadEnd 0)"
  "lookup_slot (fd_mappings demo_process) 4 = None" "lookup_slot (fd_mappings demo_process) 5 = Some (PipeWriteEnd 0)"
  "lookup_slot (fd_mappings demo_process) 0 = Some Stdin" "lookup_slot (fd_mappings demo_process) 2 = Some Stderr"
  "length (fd_mappings demo_process) = 6"
  by (simp_all add: demo_process_def lookup_slot_def)

lemma demo_inv: "fd_inv (\<lambda>_. 0) demo_pipes demo_process"
proof -
  have "lookup_slot demo_pipes i = (if i = 0 then Some \<lparr>pipe_buf = [1, 2, 3], readers_count = 1, writers_count = 1\<rparr> else None)" for i
    by (simp add: demo_pipes_def lookup_slot_def)
  moreover have "open_nodes demo_process = []" by (simp add: demo_process_def ProcessData_new_def)
  moreover have "trimmed (fd_mappings demo_process)" by (simp add: demo_process_def trimmed_def)
  ultimately show ?thesis by (simp add: fd_inv_def nodes_ok_def pipes_ok_def holders_demo lookup_slot_def)
qed

theorem close_correct_witness:
  "\<exists>pipes' p'. close demo_pipes demo_process 5 = Some (0, pipes', p') \<and> fd_inv (\<lambda>_. 0) pipes' p' \<and>
     lookup_slot (fd_mappings p') 5 = None \<and> lookup_slot (fd_mappings p') 3 = Some (PipeReadEnd 0)"
  using close_correct [OF demo_inv, of 5] by (auto simp: demo_fds)

section \<open>Duplicating a descriptor\<close>

lemma checked_inc:
  "unat (x :: u64) = k \<Longrightarrow> k + 1 < 2 ^ 64 \<Longrightarrow> checked_add x 1 = Some (x + 1) \<and> unat (x + 1) = k + 1"
  using checked_add_unat [of x 1] by (simp add: checked_add_eq_Some_iff)

lemma inc_cong:
  "nodes_ok c nodes \<Longrightarrow> (\<And>i. m \<noteq> Regular i) \<Longrightarrow> nodes_ok (inc m c) nodes"
  "pipes_ok c pipes \<Longrightarrow> (\<And>i. m \<noteq> PipeReadEnd i) \<Longrightarrow> (\<And>i. m \<noteq> PipeWriteEnd i) \<Longrightarrow> pipes_ok (inc m c) pipes"
  by (metis inc_def fun_upd_other nodes_ok_cong, metis inc_def fun_upd_other pipes_ok_cong)

lemma dup_target_ok:
  assumes nok: "nodes_ok c (open_nodes p)" and pok: "pipes_ok d pipes" and "0 < c m" "c m \<le> d m"
    and room: "d m + 1 < 2 ^ 64"
  shows "\<exists>pipes' nodes. dup_target pipes p m = Some (pipes', p\<lparr>open_nodes := nodes\<rparr>) \<and>
    nodes_ok (inc m c) nodes \<and> pipes_ok (inc m d) pipes'"
proof (cases m)
  case (Regular i)
  from nodes_okD [OF nok, of i] assms(3) Regular obtain n where
    n: "lookup_slot (open_nodes p) i = Some n" "unat (reference_count n) = c m" by auto
  let ?n = "n\<lparr>reference_count := reference_count n + 1\<rparr>"
  from checked_inc [OF n(2)] room assms(4) have
    k: "checked_add (reference_count n) 1 = Some (reference_count n + 1)" "unat (reference_count n + 1) = c m + 1"
    by simp_all
  from n have "i < length (open_nodes p)" by (simp add: lookup_slot_eq_Some)
  from nodes_ok_set [OF nok this, of ?n "c m + 1"] k(2) Regular
  have "nodes_ok (inc m c) ((open_nodes p)[i := Some ?n])" by (simp add: inc_def)
  moreover have "pipes_ok (inc m d) pipes" using inc_cong(2) [OF pok, of m] Regular by simp
  ultimately show ?thesis using Regular n(1) k(1) by (auto simp: unwrap_at_Some)
next
  case (PipeReadEnd i)
  from pipes_okD [OF pok, of i] assms(3,4) PipeReadEnd obtain q where
    q: "lookup_slot pipes i = Some q" "unat (readers_count q) = d m" "unat (writers_count q) = d (PipeWriteEnd i)"
    by auto
  let ?q = "q\<lparr>readers_count := readers_count q + 1\<rparr>"
  from checked_inc [OF q(2)] room have
    k: "checked_add (readers_count q) 1 = Some (readers_count q + 1)" "unat (readers_count q + 1) = d m + 1" by simp_all
  from q have i: "i < length pipes" by (simp add: lookup_slot_eq_Some)
  have "pipes_ok (inc m d) (pipes[i := Some ?q])"
    using q(3) k(2) PipeReadEnd by (intro pipes_ok_set [OF pok i]) (auto simp: inc_def fun_eq_iff)
  moreover have "nodes_ok (inc m c) (open_nodes p)" using inc_cong(1) [OF nok, of m] PipeReadEnd by simp
  ultimately show ?thesis using PipeReadEnd q(1) k(1)
    by (auto simp: unwrap_at_Some intro!: exI [of _ "open_nodes p"])
next
  case (PipeWriteEnd i)
  from pipes_okD [OF pok, of i] assms(3,4) PipeWriteEnd obtain q where
    q: "lookup_slot pipes i = Some q" "unat (writers_count q) = d m" "unat (readers_count q) = d (PipeReadEnd i)"
    by auto
  let ?q = "q\<lparr>writers_count := writers_count q + 1\<rparr>"
  from checked_inc [OF q(2)] room have
    k: "checked_add (writers_count q) 1 = Some (writers_count q + 1)" "unat (writers_count q + 1) = d m + 1" by simp_all
  from q have i: "i < length pipes" by (simp add: lookup_slot_eq_Some)
  have "pipes_ok (inc m d) (pipes[i := Some ?q])"
    using q(3) k(2) PipeWriteEnd by (intro pipes_ok_set [OF pok i]) (auto simp: inc_def fun_eq_iff)
  moreover have "nodes_ok (inc m c) (open_nodes p)" using inc_cong(1) [OF nok, of m] PipeWriteEnd by simp
  ultimately show ?thesis using PipeWriteEnd q(1) k(1)
    by (auto simp: unwrap_at_Some intro!: exI [of _ "open_nodes p"])
qed (use inc_cong(1) [OF nok, of m] inc_cong(2) [OF pok, of m] in
      \<open>auto intro!: exI [of _ "open_nodes p"]\<close>)

lemma inc_add: "inc m (\<lambda>x. o' x + c x) = (\<lambda>x. o' x + inc m c x)"
  by (auto simp: inc_def fun_eq_iff)

lemma fd_refs_place:
  "holders (lookup_slot (snd (place (fd_mappings p) m))) = inc m (fd_refs p)"
  by (auto simp: fun_eq_iff inc_def fd_refs_def slots.holders_insert)

text \<open>
  \<^verbatim>\<open>dup\<close> of an open descriptor never panics, gives the lowest free descriptor, which refers
  to the same target, leaves every other descriptor alone and keeps the counts exact; \<^verbatim>\<open>dup\<close> of
  a free descriptor answers -1 and changes nothing.
\<close>

theorem dup_correct:
  assumes inv: "fd_inv others pipes p" and room: "\<And>m. others m + fd_refs p m + 1 < 2 ^ 64"
  shows "case lookup_slot (fd_mappings p) oldfd of
      None \<Rightarrow> dup pipes p oldfd = Some (- 1, pipes, p)
    | Some m \<Rightarrow> \<exists>fd pipes' p'. dup pipes p oldfd = Some (of_nat fd, pipes', p') \<and> fd_inv others pipes' p' \<and>
        lookup_slot (fd_mappings p) fd = None \<and> (\<forall>j < fd. lookup_slot (fd_mappings p) j \<noteq> None) \<and>
        lookup_slot (fd_mappings p') = (lookup_slot (fd_mappings p))(fd := Some m)"
proof (cases "lookup_slot (fd_mappings p) oldfd")
  case None
  then show ?thesis by (simp add: dup_def)
next
  case (Some m)
  let ?d = "\<lambda>x. others x + fd_refs p x" and ?fd = "fst (place (fd_mappings p) m)"
  have "nodes_ok (fd_refs p) (open_nodes p)" "pipes_ok ?d pipes" using inv by (simp_all add: fd_inv_def)
  from dup_target_ok [OF this, of m] fd_refs_pos [OF Some] room [of m] obtain pipes' nodes where
    c: "dup_target pipes p m = Some (pipes', p\<lparr>open_nodes := nodes\<rparr>)"
      "nodes_ok (inc m (fd_refs p)) nodes" "pipes_ok (inc m ?d) pipes'" by auto
  let ?p = "p\<lparr>open_nodes := nodes, fd_mappings := snd (place (fd_mappings p) m)\<rparr>"
  have "fd_refs ?p = inc m (fd_refs p)" using fd_refs_place [of p m] by (simp add: fd_refs_def)
  then have "fd_inv others pipes' ?p"
    using c(2,3) inv by (simp add: fd_inv_def inc_add trimmed_place)
  moreover have "dup pipes p oldfd = Some (of_nat ?fd, pipes', ?p)"
    using Some c(1) by (simp add: dup_def split_beta)
  moreover have "lookup_slot (fd_mappings ?p) = (lookup_slot (fd_mappings p))(?fd := Some m)"
    by (simp add: slots.lookup_insert)
  ultimately show ?thesis
    using Some slots.insert_fresh [of "fd_mappings p" m] slots.insert_lowest [of _ "fd_mappings p" m] by auto
qed

theorem dup_correct_witness:
  "\<exists>pipes' p'. dup demo_pipes demo_process 3 = Some (4, pipes', p') \<and> fd_inv (\<lambda>_. 0) pipes' p' \<and>
     lookup_slot (fd_mappings p') 4 = Some (PipeReadEnd 0)"
proof -
  have room: "(\<lambda>_. 0) m + fd_refs demo_process m + 1 < 2 ^ 64" for m by (simp add: holders_demo)
  from dup_correct [OF demo_inv room, of 3] obtain fd pipes' p' where
    d: "dup demo_pipes demo_process 3 = Some (of_nat fd, pipes', p')" "fd_inv (\<lambda>_. 0) pipes' p'"
      "lookup_slot (fd_mappings demo_process) fd = None" "\<forall>j < fd. lookup_slot (fd_mappings demo_process) j \<noteq> None"
      "lookup_slot (fd_mappings p') = (lookup_slot (fd_mappings demo_process))(fd := Some (PipeReadEnd 0))"
    by (auto simp: demo_fds)
  have "\<not> 4 < fd" using d(4) demo_fds(3) by blast
  moreover have "fd \<noteq> 0" "fd \<noteq> 1" "fd \<noteq> 2" "fd \<noteq> 3"
    using d(3) demo_fds by (metis option.distinct(1))+
  ultimately have "fd = 4" by linarith
  with d show ?thesis by auto
qed

text \<open>The descriptor table after \<^verbatim>\<open>close(newfd)\<close>.\<close>

definition closed_fds :: "'n ProcessData \<Rightarrow> nat \<Rightarrow> FdMapping option list" where
  "closed_fds p fd =
     (if lookup_slot (fd_mappings p) fd = None then fd_mappings p else clear_slot (fd_mappings p) fd)"

lemma close_closed_fds:
  "close pipes p fd = Some (r, pipes', p') \<Longrightarrow> fd_mappings p' = closed_fds p fd"
proof -
  have "fd_mappings p1 = fd_mappings p" if "close_target pipes p m = Some (pipes1, p1)" for m pipes1 p1
    using that by (cases m) (auto simp: close_node_def split: bind_splits if_splits)
  then show "close pipes p fd = Some (r, pipes', p') \<Longrightarrow> ?thesis"
    by (auto simp: close_def closed_fds_def clear_slot_def index_set_def split: option.splits bind_splits if_splits)
qed

lemma trimmed_set: "trimmed fds \<Longrightarrow> trimmed (fds[n := Some m])"
  by (cases "fds = []"; cases "n < length fds") (auto simp: trimmed_def last_conv_nth nth_list_update list_update_beyond)

lemma lookup_set_fd:
  assumes "n \<noteq> length fds" "lookup_slot fds n = None"
  shows "lookup_slot ((if length fds < n then resize fds (Suc n) else fds)[n := Some m]) = (lookup_slot fds)(n := Some m)"
    and "trimmed fds \<Longrightarrow> trimmed ((if length fds < n then resize fds (Suc n) else fds)[n := Some m])"
    and "n < length (if length fds < n then resize fds (Suc n) else fds)"
  using assms trimmed_set [of fds n m]
  by (auto simp: fun_eq_iff lookup_slot_def resize_def trimmed_def nth_append nth_list_update last_conv_nth)

text \<open>
  \<^verbatim>\<open>dup2\<close> of an open descriptor onto a different one: unless the target is exactly one past
  the end of the table that \<^verbatim>\<open>close\<close> leaves, it closes the target, makes it refer to the same
  node or pipe, leaves every other descriptor alone, keeps the counts exact and never panics.
\<close>

theorem dup2_correct:
  assumes inv: "fd_inv others pipes p" and room: "\<And>m. others m + fd_refs p m + 1 < 2 ^ 64"
    and old: "lookup_slot (fd_mappings p) oldfd = Some m" "oldfd \<noteq> unat newfd"
    and new: "unat newfd \<noteq> length (closed_fds p (unat newfd))" "unat newfd + 1 < 2 ^ 64"
  shows "\<exists>pipes' p'. dup2 pipes p oldfd newfd = Some (newfd, pipes', p') \<and> fd_inv others pipes' p' \<and>
    lookup_slot (fd_mappings p') = (lookup_slot (fd_mappings p))(unat newfd := Some m)"
proof -
  let ?n = "unat newfd"
  from close_ok [OF inv, of ?n] obtain r pipes1 p1 where
    c: "close pipes p ?n = Some (r, pipes1, p1)" "fd_inv others pipes1 p1"
      "lookup_slot (fd_mappings p1) = (lookup_slot (fd_mappings p))(?n := None)" by fastforce
  let ?d = "\<lambda>x. others x + fd_refs p1 x"
  have m: "lookup_slot (fd_mappings p1) oldfd = Some m" using c(3) old by simp
  have "fd_refs p1 m \<le> fd_refs p m" unfolding fd_refs_def holders_def c(3) by (rule card_mono) auto
  with room [of m] have room1: "?d m + 1 < 2 ^ 64" by linarith
  have "nodes_ok (fd_refs p1) (open_nodes p1)" "pipes_ok ?d pipes1" "trimmed (fd_mappings p1)"
    using c(2) by (simp_all add: fd_inv_def)
  from dup_target_ok [OF this(1,2) fd_refs_pos [OF m] _ room1] obtain pipes' nodes where
    t: "dup_target pipes1 p1 m = Some (pipes', p1\<lparr>open_nodes := nodes\<rparr>)"
      "nodes_ok (inc m (fd_refs p1)) nodes" "pipes_ok (inc m ?d) pipes'" by auto
  let ?f0 = "if length (fd_mappings p1) < ?n then resize (fd_mappings p1) (Suc ?n) else fd_mappings p1"
  let ?fds = "?f0[?n := Some m]" and ?p = "p1\<lparr>open_nodes := nodes, fd_mappings := ?f0[?n := Some m]\<rparr>"
  have free: "lookup_slot (fd_mappings p1) ?n = None" using c(3) by simp
  have ne: "?n \<noteq> length (fd_mappings p1)" using new(1) close_closed_fds [OF c(1)] by simp
  note sf = lookup_set_fd [OF ne free]
  have "fd_refs ?p = inc m (fd_refs p1)"
    using slots.holders_update [OF free, of m] by (auto simp: fd_refs_def fun_eq_iff inc_def sf(1))
  then have "fd_inv others pipes' ?p"
    using t(2,3) sf(2) \<open>trimmed (fd_mappings p1)\<close> by (simp add: fd_inv_def inc_add)
  moreover have "unat (newfd + 1) = Suc ?n" "checked_add newfd 1 = Some (newfd + 1)"
    using checked_inc [of newfd, OF refl new(2)] by simp_all
  then have "dup2 pipes p oldfd newfd = Some (newfd, pipes', ?p)"
    using old(1) c(1) t(1) sf(3) by (simp add: dup2_def split: if_splits)
  moreover have "lookup_slot (fd_mappings ?p) = (lookup_slot (fd_mappings p))(?n := Some m)"
    using sf(1) c(3) by simp
  ultimately show ?thesis by blast
qed

theorem dup2_correct_witness:
  "\<exists>pipes' p'. dup2 demo_pipes demo_process 3 0 = Some (0, pipes', p') \<and> fd_inv (\<lambda>_. 0) pipes' p' \<and>
     lookup_slot (fd_mappings p') 0 = Some (PipeReadEnd 0)"
proof -
  have room: "(\<lambda>_. 0) m + fd_refs demo_process m + 1 < 2 ^ 64" for m by (simp add: holders_demo)
  have "closed_fds demo_process 0 \<noteq> []"
    by (simp add: closed_fds_def demo_process_def clear_slot_def lookup_slot_def drain_none_def)
  with dup2_correct [OF demo_inv room demo_fds(2), of 0] show ?thesis by auto
qed

text \<open>
  \<^verbatim>\<open>dup2\<close> onto the descriptor one past the end of the table panics: the table is only grown
  for \<^verbatim>\<open>newfd > len\<close>, and the assignment that follows is out of range for \<^verbatim>\<open>newfd == len\<close>. The same
  holds when closing the target shortens the table to that length.
\<close>

theorem dup2_at_table_end_panics:
  assumes "lookup_slot (fd_mappings p) oldfd = Some m" and "unat newfd = length (closed_fds p (unat newfd))"
  shows "dup2 pipes p oldfd newfd = None"
proof -
  let ?n = "unat newfd"
  have d: "fd_mappings p2 = fd_mappings p1" if "dup_target pipes1 p1 m = Some (pipes2, p2)" for pipes1 pipes2 p1 p2
    using that by (cases m) (auto split: bind_splits)
  show ?thesis
  proof (cases "close pipes p ?n")
    case (Some res)
    obtain r pipes1 p1 where c: "close pipes p ?n = Some (r, pipes1, p1)" using Some by (cases res) auto
    then have "length (fd_mappings p1) = ?n" using close_closed_fds [OF c] assms(2) by simp
    moreover from this have "length (fd_mappings p2) = ?n" if "dup_target pipes1 p1 m = Some (pipes2, p2)" for pipes2 p2
      using d [OF that] by simp
    ultimately show ?thesis using assms(1) c
      by (cases "dup_target pipes1 p1 m") (auto simp: dup2_def index_set_def)
  qed (use assms(1) in \<open>simp add: dup2_def\<close>)
qed

theorem dup2_at_table_end_panics_witness: "dup2 demo_pipes demo_process 1 6 = None"
proof -
  have "closed_fds demo_process 6 = fd_mappings demo_process" by (simp add: closed_fds_def demo_process_def lookup_slot_def)
  with dup2_at_table_end_panics [OF demo_fds(1), of 6] show ?thesis by (simp add: demo_fds)
qed

end
