(* ===== verification/Process_Pipes.thy ===== *)
theory Process_Pipes
  imports Process_Fds
begin

text \<open>
  Pipes over the life of their descriptors: creation, \<^verbatim>\<open>fork\<close>, the end of a process, and the
  bytes that go through them; and the installation of an opened node.
\<close>

section \<open>New descriptors\<close>

lemma pipes_ok_free: "pipes_ok c pipes \<Longrightarrow> c (PipeReadEnd (length pipes)) = 0 \<and> c (PipeWriteEnd (length pipes)) = 0"
  unfolding pipes_ok_def by (metis less_irrefl lookup_slot_def slot_ok_simps(3))

lemma pipes_ok_snoc:
  assumes "pipes_ok c pipes"
  shows "pipes_ok (inc (PipeWriteEnd (length pipes)) (inc (PipeReadEnd (length pipes)) c))
    (pipes @ [Some \<lparr>pipe_buf = b, readers_count = 1, writers_count = 1\<rparr>])"
  using assms pipes_ok_free [OF assms] by (auto simp: pipes_ok_def lookup_slot_snoc inc_def)

text \<open>
  \<^verbatim>\<open>pipe\<close> makes an empty pipe with one reader and one writer at two new, different
  descriptors, changes no other descriptor and keeps the counts exact.
\<close>

theorem pipe_create_correct:
  assumes inv: "fd_inv others pipes p"
  shows "\<exists>r w pipes' p'. pipe_create pipes p = (r, w, pipes', p') \<and> fd_inv others pipes' p' \<and> r \<noteq> w \<and>
    lookup_slot (fd_mappings p) r = None \<and> lookup_slot (fd_mappings p) w = None \<and>
    lookup_slot (fd_mappings p') = (lookup_slot (fd_mappings p))
      (r := Some (PipeReadEnd (length pipes)), w := Some (PipeWriteEnd (length pipes))) \<and>
    pipes' = pipes @ [Some \<lparr>pipe_buf = [], readers_count = 1, writers_count = 1\<rparr>]"
proof -
  let ?rd = "PipeReadEnd (length pipes)" and ?wr = "PipeWriteEnd (length pipes)"
  let ?f1 = "snd (place (fd_mappings p) ?rd)" and ?r = "fst (place (fd_mappings p) ?rd)"
  let ?f2 = "snd (place ?f1 ?wr)" and ?w = "fst (place ?f1 ?wr)" and ?p = "p\<lparr>fd_mappings := snd (place (snd (place (fd_mappings p) (PipeReadEnd (length pipes)))) (PipeWriteEnd (length pipes)))\<rparr>"
  let ?pipes = "pipes @ [Some \<lparr>pipe_buf = [], readers_count = 1, writers_count = 1\<rparr>]"
  have res: "pipe_create pipes p = (?r, ?w, ?pipes, ?p)" by (simp add: pipe_create_def split_beta Let_def)
  have l1: "lookup_slot ?f1 = (lookup_slot (fd_mappings p))(?r := Some ?rd)" by (rule slots.lookup_insert)
  have l2: "lookup_slot ?f2 = (lookup_slot ?f1)(?w := Some ?wr)" by (rule slots.lookup_insert)
  have fr: "lookup_slot (fd_mappings p) ?r = None" by (rule slots.insert_fresh)
  have fw: "lookup_slot ?f1 ?w = None" by (rule slots.insert_fresh)
  then have ne: "?r \<noteq> ?w" using l1 by (metis fun_upd_same option.distinct(1))
  with fw l1 have fw': "lookup_slot (fd_mappings p) ?w = None" by simp
  have "fd_refs ?p = inc ?wr (inc ?rd (fd_refs p))"
    by (auto simp: fd_refs_def fun_eq_iff inc_def slots.holders_insert)
  moreover have "nodes_ok (inc ?wr (inc ?rd (fd_refs p))) (open_nodes p)"
    using inv by (intro inc_cong(1)) (simp_all add: fd_inv_def)
  moreover have "pipes_ok (\<lambda>x. others x + inc ?wr (inc ?rd (fd_refs p)) x) ?pipes"
    using inv pipes_ok_snoc [of "\<lambda>x. others x + fd_refs p x" pipes "[]"] by (simp add: fd_inv_def inc_add)
  ultimately have "fd_inv others ?pipes ?p" using inv by (simp add: fd_inv_def trimmed_place)
  moreover have "lookup_slot (fd_mappings ?p) = (lookup_slot (fd_mappings p))(?r := Some ?rd, ?w := Some ?wr)"
    using l1 l2 by simp
  ultimately show ?thesis using res ne fr fw' by blast
qed

theorem pipe_create_correct_witness:
  "\<exists>r w pipes' p'. pipe_create demo_pipes demo_process = (r, w, pipes', p') \<and> fd_inv (\<lambda>_. 0) pipes' p' \<and>
     r \<noteq> w \<and> lookup_slot (fd_mappings p') r = Some (PipeReadEnd 1) \<and> lookup_slot (fd_mappings p') w = Some (PipeWriteEnd 1)"
proof -
  have "length demo_pipes = 1" by (simp add: demo_pipes_def)
  with pipe_create_correct [OF demo_inv] show ?thesis by auto
qed

text \<open>
  \<^verbatim>\<open>open\<close> installs the node it found, with its cursor at 0 and one reference, at the lowest
  free descriptor; every other descriptor and node is unchanged and the counts stay exact.
\<close>

theorem install_node_correct:
  assumes inv: "fd_inv others pipes p"
  shows "\<exists>fd i p'. install_node p node fl path = (of_nat fd, p') \<and> fd_inv others pipes p' \<and>
    lookup_slot (fd_mappings p) fd = None \<and> (\<forall>j < fd. lookup_slot (fd_mappings p) j \<noteq> None) \<and>
    lookup_slot (fd_mappings p') = (lookup_slot (fd_mappings p))(fd := Some (Regular i)) \<and>
    lookup_slot (open_nodes p') = (lookup_slot (open_nodes p))
      (i := Some \<lparr>vfs_node = node, cursor = 0, node_flags = fl, node_path = path, reference_count = 1\<rparr>)"
proof -
  let ?n = "\<lparr>vfs_node = node, cursor = 0, node_flags = fl, node_path = path, reference_count = 1\<rparr>"
  let ?i = "fst (place (open_nodes p) ?n)" and ?nodes = "snd (place (open_nodes p) ?n)"
  let ?fd = "fst (place (fd_mappings p) (Regular ?i))" and ?fds = "snd (place (fd_mappings p) (Regular ?i))"
  let ?p = "p\<lparr>open_nodes := ?nodes, fd_mappings := ?fds\<rparr>"
  have ln: "lookup_slot ?nodes = (lookup_slot (open_nodes p))(?i := Some ?n)" by (rule slots.lookup_insert)
  have "node_slot_ok (fd_refs p (Regular ?i)) (lookup_slot (open_nodes p) ?i)"
    using inv by (simp add: fd_inv_def nodes_ok_def)
  then have "fd_refs p (Regular ?i) = 0" by (simp add: slots.insert_fresh)
  then have "nodes_ok (inc (Regular ?i) (fd_refs p)) ?nodes"
    using inv by (auto simp: fd_inv_def nodes_ok_def ln inc_def)
  moreover have "pipes_ok (\<lambda>x. others x + inc (Regular ?i) (fd_refs p) x) pipes"
    using inv inc_cong(2) [of "\<lambda>x. others x + fd_refs p x" pipes "Regular ?i"] by (simp add: fd_inv_def inc_add)
  moreover have "fd_refs ?p = inc (Regular ?i) (fd_refs p)" using fd_refs_place [of p] by (simp add: fd_refs_def)
  ultimately have "fd_inv others pipes ?p" using inv by (simp add: fd_inv_def trimmed_place)
  moreover have "install_node p node fl path = (of_nat ?fd, ?p)" by (simp add: install_node_def split_beta Let_def)
  moreover have "lookup_slot (fd_mappings ?p) = (lookup_slot (fd_mappings p))(?fd := Some (Regular ?i))"
    by (simp add: slots.lookup_insert)
  moreover note slots.insert_fresh [of "fd_mappings p" "Regular ?i"] slots.insert_lowest [of _ "fd_mappings p" "Regular ?i"]
  moreover have "lookup_slot (open_nodes ?p) = (lookup_slot (open_nodes p))(?i := Some ?n)" using ln by simp
  ultimately show ?thesis by blast
qed

theorem install_node_correct_witness:
  "\<exists>fd i p'. install_node demo_process () 1 ''/a'' = (of_nat fd, p') \<and> fd_inv (\<lambda>_. 0) demo_pipes p' \<and>
     lookup_slot (fd_mappings p') fd = Some (Regular i)"
  using install_node_correct [OF demo_inv, of "()" 1 "''/a''"] by auto

section \<open>The end of a process\<close>

fun is_pipe_end :: "FdMapping option \<Rightarrow> bool" where
  "is_pipe_end (Some (PipeReadEnd _)) = True"
| "is_pipe_end (Some (PipeWriteEnd _)) = True"
| "is_pipe_end _ = False"

lemma clear_slot_inside: "trimmed fds \<Longrightarrow> Suc k < length fds \<Longrightarrow> clear_slot fds k = fds[k := None]"
  unfolding clear_slot_def
  by (rule drain_none_id) (auto simp: trimmed_def last_conv_nth nth_list_update)

lemma drop_loop_step:
  "drop_loop (k # fds) pipes p = do {
     slot \<leftarrow> index (fd_mappings p) k;
     (pipes, p) \<leftarrow> (if is_pipe_end slot then do { (r, pipes, p) \<leftarrow> close pipes p k; Some (pipes, p) } else Some (pipes, p));
     drop_loop fds pipes p }"
proof -
  have "(case slot of
        Some (PipeReadEnd _) \<Rightarrow> do { (r, pipes, p) \<leftarrow> close pipes p k; Some (pipes, p) }
      | Some (PipeWriteEnd _) \<Rightarrow> do { (r, pipes, p) \<leftarrow> close pipes p k; Some (pipes, p) }
      | _ \<Rightarrow> Some (pipes, p)) =
    (if is_pipe_end slot then do { (r, pipes, p) \<leftarrow> close pipes p k; Some (pipes, p) } else Some (pipes, p))" for slot
    by (cases slot rule: is_pipe_end.cases) simp_all
  then show ?thesis by simp
qed

lemma drop_loop_ok:
  assumes "fd_inv others pipes p" "length (fd_mappings p) = n" "k \<le> n"
    and "\<And>j. j < k \<Longrightarrow> \<not> is_pipe_end (lookup_slot (fd_mappings p) j)"
  shows "\<exists>pipes' p'. drop_loop [k ..< n] pipes p = Some (pipes', p') \<and> fd_inv others pipes' p' \<and>
    (\<forall>j. \<not> is_pipe_end (lookup_slot (fd_mappings p') j))"
  using assms
proof (induction "n - k" arbitrary: k pipes p)
  case 0
  then have "\<not> is_pipe_end (lookup_slot (fd_mappings p) j)" for j
    by (cases "j < n") (auto simp: lookup_slot_def)
  with 0 show ?case by simp
next
  case (Suc d)
  then have k: "k < n" "[k ..< n] = k # [Suc k ..< n]" by (auto simp: upt_conv_Cons)
  have at: "index (fd_mappings p) k = Some (fd_mappings p ! k)" "lookup_slot (fd_mappings p) k = fd_mappings p ! k"
    using k Suc.prems(2) by (simp_all add: lookup_slot_def)
  show ?case
  proof (cases "is_pipe_end (fd_mappings p ! k)")
    case False
    have "\<not> is_pipe_end (lookup_slot (fd_mappings p) j)" if "j < Suc k" for j
      using Suc.prems(4) [of j] False at(2) that by (cases "j = k") auto
    from Suc.hyps(1) [of "Suc k", OF _ Suc.prems(1,2) _ this] Suc.hyps(2) k False at(1) show ?thesis
      by (simp add: drop_loop_step del: drop_loop.simps)
  next
    case True
    then have open_k: "lookup_slot (fd_mappings p) k \<noteq> None" using at(2) by (cases "fd_mappings p ! k") auto
    from close_ok [OF Suc.prems(1), of k] open_k obtain r pipes1 p1 where
      c: "close pipes p k = Some (r, pipes1, p1)" "fd_inv others pipes1 p1"
        "lookup_slot (fd_mappings p1) = (lookup_slot (fd_mappings p))(k := None)"
        "fd_mappings p1 = clear_slot (fd_mappings p) k" by fastforce
    have np: "\<not> is_pipe_end (lookup_slot (fd_mappings p1) j)" if "j < Suc k" for j
      using Suc.prems(4) [of j] that c(3) by (cases "j = k") auto
    have step: "drop_loop [k ..< n] pipes p = drop_loop [Suc k ..< n] pipes1 p1"
      using k(2) at(1) True c(1) by (simp add: drop_loop_step del: drop_loop.simps)
    show ?thesis
    proof (cases "Suc k = n")
      case True
      have "\<not> is_pipe_end (lookup_slot (fd_mappings p1) j)" for j
        using np [of j] c(3) Suc.prems(2) True by (cases "j < Suc k") (auto simp: lookup_slot_def)
      with step c(2) True show ?thesis by simp
    next
      case False
      then have "length (fd_mappings p1) = n"
        using c(4) clear_slot_inside [of "fd_mappings p" k] Suc.prems(1,2) k(1) by (simp add: fd_inv_def)
      from Suc.hyps(1) [of "Suc k", OF _ c(2) this _ np] Suc.hyps(2) k(1) step show ?thesis by simp
    qed
  qed
qed

lemma drop_process_ok:
  assumes "fd_inv others pipes p"
  shows "\<exists>pipes'. drop_process pipes p = Some pipes' \<and> pipes_ok others pipes'"
proof -
  from drop_loop_ok [OF assms refl, of 0] obtain pipes' p' where
    d: "drop_loop [0 ..< length (fd_mappings p)] pipes p = Some (pipes', p')" "fd_inv others pipes' p'"
      "\<forall>j. \<not> is_pipe_end (lookup_slot (fd_mappings p') j)" by auto
  have none: "fd_refs p' m = 0" if "is_pipe_end (Some m)" for m
  proof -
    have "{j. lookup_slot (fd_mappings p') j = Some m} = {}" using d(3) that by (metis (mono_tags, lifting) Collect_empty_eq)
    then show ?thesis by (simp add: fd_refs_def holders_def)
  qed
  have "pipes_ok (\<lambda>x. others x + fd_refs p' x) pipes'" using d(2) by (simp add: fd_inv_def)
  then have "pipes_ok others pipes'" by (rule pipes_ok_cong [rotated 2]) (simp_all add: none)
  with d(1) show ?thesis by (simp add: drop_process_def)
qed

text \<open>
  Dropping a process never panics, although the loop indexes the descriptor table over the
  range it had at the start while \<^verbatim>\<open>close\<close> shortens it; afterwards the pipe table counts exactly
  the ends held by the other processes, so pipes used by nobody else are gone.
\<close>

theorem drop_process_correct:
  assumes "fd_inv others pipes p"
  shows "\<exists>pipes'. drop_process pipes p = Some pipes' \<and> pipes_ok others pipes'"
  using assms by (rule drop_process_ok)

theorem drop_process_correct_witness:
  "\<exists>pipes'. drop_process demo_pipes demo_process = Some pipes' \<and> pipes_ok (\<lambda>_. 0) pipes'"
  using drop_process_correct [OF demo_inv] .

section \<open>Fork\<close>

lemma holders_Cons:
  "holders (lookup_slot fds) m = length (filter (\<lambda>s. s = Some m) fds)"
proof -
  have "{i. lookup_slot fds i = Some m} = {i. i < length fds \<and> fds ! i = Some m}"
    by (auto simp: lookup_slot_eq_Some)
  then show ?thesis by (simp add: holders_def length_filter_conv_card)
qed

lemma fork_refs_step:
  assumes "is_pipe_end (Some m)"
  shows "fork_refs (Some m # fds) pipes =
    Option.bind (dup_target pipes (p :: unit ProcessData) m) (\<lambda>(pipes', _). fork_refs fds pipes')"
  using assms by (cases m) (auto simp: bind_assoc split: Option.bind_split)

lemma dup_target_pipe:
  assumes "pipes_ok d pipes" and m: "is_pipe_end (Some m)" and "0 < d m" "d m + 1 < 2 ^ 64"
  shows "\<exists>pipes' p'. dup_target pipes (ProcessData_new [] Map.empty (alloc_from 0 0 True) :: unit ProcessData) m =
    Some (pipes', p') \<and> pipes_ok (inc m d) pipes'"
proof -
  let ?c = "\<lambda>x. if x = m then 1 else (0 :: nat)"
  have "nodes_ok ?c []" using m by (auto simp: nodes_ok_def lookup_slot_def)
  with assms dup_target_ok [of ?c "ProcessData_new [] Map.empty (alloc_from 0 0 True) :: unit ProcessData" d pipes m]
  show ?thesis by (auto simp: ProcessData_new_def)
qed

lemma fork_refs_ok:
  assumes "pipes_ok d pipes" "\<And>m. is_pipe_end (Some m) \<Longrightarrow> Some m \<in> set fds \<Longrightarrow> 0 < d m"
    and "\<And>m. d m + length (filter (\<lambda>s. s = Some m) fds) < 2 ^ 64"
  shows "\<exists>pipes'. fork_refs fds pipes = Some pipes' \<and>
    pipes_ok (\<lambda>m. d m + length (filter (\<lambda>s. s = Some m) fds)) pipes'"
  using assms
proof (induction fds arbitrary: pipes d)
  case Nil
  then show ?case by simp
next
  case (Cons slot fds)
  show ?case
  proof (cases "is_pipe_end slot")
    case False
    then have "fork_refs (slot # fds) pipes = fork_refs fds pipes" by (cases slot rule: is_pipe_end.cases) simp_all
    moreover have "\<exists>pipes'. fork_refs fds pipes = Some pipes' \<and>
        pipes_ok (\<lambda>m. d m + length (filter (\<lambda>s. s = Some m) fds)) pipes'"
    proof (rule Cons.IH [OF Cons.prems(1)])
      show "d m + length (filter (\<lambda>s. s = Some m) fds) < 2 ^ 64" for m
        using Cons.prems(3) [of m] by (cases "slot = Some m") simp_all
    qed (use Cons.prems(2) in auto)
    moreover have "pipes_ok (\<lambda>m. d m + length (filter (\<lambda>s. s = Some m) (slot # fds))) pipes'"
      if "pipes_ok (\<lambda>m. d m + length (filter (\<lambda>s. s = Some m) fds)) pipes'" for pipes'
      using that False by (rule_tac pipes_ok_cong [rotated 2, OF that]) auto
    ultimately show ?thesis by auto
  next
    case True
    then obtain m where m: "slot = Some m" by (cases slot) auto
    let ?p = "ProcessData_new [] Map.empty (alloc_from 0 0 True) :: unit ProcessData"
    have dm: "0 < d m" "d m + 1 < 2 ^ 64" using Cons.prems(2,3) [of m] True m by auto
    have "\<exists>pipes1 p1. dup_target pipes ?p m = Some (pipes1, p1) \<and> pipes_ok (inc m d) pipes1"
      using True m by (intro dup_target_pipe [OF Cons.prems(1) _ dm]) simp
    then obtain pipes1 p1 where d1: "dup_target pipes ?p m = Some (pipes1, p1)" "pipes_ok (inc m d) pipes1" by blast
    have "\<exists>pipes'. fork_refs fds pipes1 = Some pipes' \<and>
        pipes_ok (\<lambda>x. inc m d x + length (filter (\<lambda>s. s = Some x) fds)) pipes'"
    proof (rule Cons.IH [OF d1(2)])
      show "0 < inc m d x" if "is_pipe_end (Some x)" "Some x \<in> set fds" for x
        using Cons.prems(2) [of x] that by (auto simp: inc_def)
      show "inc m d x + length (filter (\<lambda>s. s = Some x) fds) < 2 ^ 64" for x
        using Cons.prems(3) [of x] m by (auto simp: inc_def split: if_splits)
    qed
    moreover have "(\<lambda>x. inc m d x + length (filter (\<lambda>s. s = Some x) fds)) =
        (\<lambda>x. d x + length (filter (\<lambda>s. s = Some x) (slot # fds)))"
      using m by (auto simp: inc_def fun_eq_iff)
    ultimately show ?thesis using fork_refs_step [of m fds pipes ?p] True m d1(1) by auto
  qed
qed

text \<open>
  \<^verbatim>\<open>fork\<close> counts the pipe ends of the child once more: afterwards the counts are exact for
  the parent with the child among the other holders, and so they are for the child with the
  parent among them.
\<close>

theorem fork_refs_correct:
  assumes inv: "fd_inv others pipes p" and room: "\<And>m. others m + 2 * fd_refs p m < 2 ^ 64"
  shows "\<exists>pipes'. fork_refs (fd_mappings p) pipes = Some pipes' \<and> fd_inv (\<lambda>m. others m + fd_refs p m) pipes' p"
proof -
  let ?d = "\<lambda>m. others m + fd_refs p m"
  have cnt: "length (filter (\<lambda>s. s = Some m) (fd_mappings p)) = fd_refs p m" for m
    by (simp add: fd_refs_def holders_Cons)
  have pos: "0 < ?d m" if "Some m \<in> set (fd_mappings p)" for m
  proof -
    from that obtain i where "i < length (fd_mappings p)" "fd_mappings p ! i = Some m" by (metis in_set_conv_nth)
    then have "lookup_slot (fd_mappings p) i = Some m" by (simp add: lookup_slot_def)
    from fd_refs_pos [OF this] show ?thesis by simp
  qed
  have "pipes_ok ?d pipes" using inv by (simp add: fd_inv_def)
  from fork_refs_ok [OF this pos, of "fd_mappings p"] room obtain pipes' where
    "fork_refs (fd_mappings p) pipes = Some pipes'" "pipes_ok (\<lambda>m. ?d m + fd_refs p m) pipes'"
    by (auto simp: cnt mult_2 add.assoc)
  then show ?thesis using inv by (auto simp: fd_inv_def)
qed

theorem fork_refs_correct_witness:
  "\<exists>pipes'. fork_refs (fd_mappings demo_process) demo_pipes = Some pipes' \<and>
     fd_inv (fd_refs demo_process) pipes' demo_process"
proof -
  have "(\<lambda>_. 0) m + 2 * fd_refs demo_process m < 2 ^ 64" for m by (simp add: holders_demo)
  from fork_refs_correct [OF demo_inv this] show ?thesis by simp
qed

section \<open>The bytes of a pipe\<close>

definition pipe_bytes :: "pipes \<Rightarrow> nat \<Rightarrow> u8 list" where
  "pipe_bytes pipes i = (case lookup_slot pipes i of Some q \<Rightarrow> pipe_buf q | None \<Rightarrow> [])"

lemma pipe_set:
  assumes "lookup_slot pipes i = Some q"
  shows "lookup_slot (pipes[i := Some q']) i = Some q'" "j \<noteq> i \<Longrightarrow> lookup_slot (pipes[i := v]) j = lookup_slot pipes j"
  using assms by (simp_all add: lookup_slot_def split: if_splits)

text \<open>
  A pipe is a first-in first-out byte stream: when it has a reader and a writer, a write
  accepts the whole buffer; a read of \<open>n > 0\<close> bytes afterwards returns the next \<open>n\<close> bytes of
  what was in the pipe followed by what was written, leaves the rest in the pipe, and no other
  pipe is touched.
\<close>

theorem pipe_fifo:
  assumes q: "lookup_slot pipes i = Some q" "readers_count q \<noteq> 0" and buf: "pipe_buf q @ buf \<noteq> []" and n: "0 < n"
  shows "\<exists>pipes1 pipes2 bytes. write_pipe pipes i buf = Some (of_nat (length buf), pipes1) \<and>
    read_pipe pipes1 p i n = Some (Some (of_nat (length bytes)), bytes, pipes2, p) \<and>
    bytes = take n (pipe_buf q @ buf) \<and> bytes @ pipe_bytes pipes2 i = pipe_bytes pipes i @ buf \<and>
    (\<forall>j. j \<noteq> i \<longrightarrow> lookup_slot pipes2 j = lookup_slot pipes j)"
proof -
  let ?q1 = "q\<lparr>pipe_buf := pipe_buf q @ buf\<rparr>"
  let ?pipes1 = "pipes[i := Some ?q1]"
  let ?q2 = "?q1\<lparr>pipe_buf := drop n (pipe_buf q @ buf)\<rparr>"
  have w: "write_pipe pipes i buf = Some (of_nat (length buf), ?pipes1)"
    using q by (simp add: write_pipe_def unwrap_at_Some)
  have l1: "lookup_slot ?pipes1 i = Some ?q1" using pipe_set(1) [OF q(1)] .
  have "take n (pipe_buf q @ buf) \<noteq> []" using buf n by simp
  then have r: "read_pipe ?pipes1 p i n = Some (Some (of_nat (length (take n (pipe_buf q @ buf)))),
      take n (pipe_buf q @ buf), ?pipes1[i := Some ?q2], p)"
    using l1 buf by (auto simp: read_pipe_def unwrap_at_Some Let_def simp del: take_append drop_append)
  have "pipe_bytes (?pipes1[i := Some ?q2]) i = drop n (pipe_buf q @ buf)"
    using pipe_set(1) [OF l1, of ?q2] by (simp add: pipe_bytes_def del: take_append drop_append)
  then have "take n (pipe_buf q @ buf) @ pipe_bytes (?pipes1[i := Some ?q2]) i = pipe_bytes pipes i @ buf"
    using q(1) by (simp add: pipe_bytes_def del: take_append drop_append)
  moreover have "lookup_slot (?pipes1[i := Some ?q2]) j = lookup_slot pipes j" if "j \<noteq> i" for j
    using pipe_set(2) [OF l1 that] pipe_set(2) [OF q(1) that] by (simp only:)
  ultimately show ?thesis using w r by blast
qed

theorem pipe_fifo_witness:
  "\<exists>pipes1 pipes2. write_pipe demo_pipes 0 [4, 5] = Some (2, pipes1) \<and>
     read_pipe pipes1 demo_process 0 4 = Some (Some 4, [1, 2, 3, 4], pipes2, demo_process) \<and> pipe_bytes pipes2 0 = [5]"
proof -
  have "lookup_slot demo_pipes 0 = Some \<lparr>pipe_buf = [1, 2, 3], readers_count = 1, writers_count = 1\<rparr>"
    by (simp add: demo_pipes_def lookup_slot_def)
  with pipe_fifo [OF this, of "[4, 5]" 4 demo_process] show ?thesis by (auto simp: pipe_bytes_def)
qed

text \<open>
  Reading an empty pipe: at the end of file (no writer left) the read returns 0 bytes;
  while a writer exists the process waits for the pipe and repeats the instruction. Neither
  loses data, and neither panics for the index of an existing pipe.
\<close>

theorem read_empty_pipe:
  assumes "lookup_slot pipes i = Some q" "pipe_buf q = []"
  shows "\<exists>pipes'. read_pipe pipes p i n = Some
      (if writers_count q = 0 then (Some 0, [], pipes', p)
       else (None, [], pipes', p\<lparr>state := WAITING_FOR_READ_PIPE i\<rparr>)) \<and> lookup_slot pipes' = lookup_slot pipes"
proof -
  have "q\<lparr>pipe_buf := []\<rparr> = q" using assms(2) by simp
  then have "pipes[i := Some (q\<lparr>pipe_buf := []\<rparr>)] = pipes" using assms(1) by (simp add: lookup_slot_eq_Some list_update_same_conv)
  then show ?thesis using assms by (simp add: read_pipe_def unwrap_at_Some Let_def)
qed

theorem read_empty_pipe_witness:
  "\<exists>pipes'. read_pipe [Some \<lparr>pipe_buf = [], readers_count = 1, writers_count = 1\<rparr>] demo_process 0 8 =
     Some (None, [], pipes', demo_process\<lparr>state := WAITING_FOR_READ_PIPE 0\<rparr>)"
  using read_empty_pipe [of "[Some \<lparr>pipe_buf = [], readers_count = 1, writers_count = 1\<rparr>]" 0
      "\<lparr>pipe_buf = [], readers_count = 1, writers_count = 1\<rparr>" demo_process 8]
  by (auto simp: lookup_slot_def)

end
