(* ===== verification/Scheduler.thy ===== *)
theory Scheduler
  imports Process_Pipes
begin

text \<open>
  The scheduler of \<^verbatim>\<open>kernel/src/scheduler.rs\<close>. Its global variables other than the task list are
  the record \<open>globals\<close>, which is extended by the state of the devices where the scheduler is run with the
  kernel's own system calls; the task list is a separate argument, since \<^verbatim>\<open>tick\<close> holds its lock while
  a process runs, so that no system call can reach it. A process is its emulator state of type
  \<open>'e\<close> with its \<^verbatim>\<open>ProcessData\<close>. \<open>ptick\<close> stands for \<^verbatim>\<open>Process::tick\<close>: one instruction of the
  emulator, which can change the process and, through its system calls, the globals. Messages
  to the UART are left out. Process numbers are natural numbers.
\<close>

section \<open>State\<close>

record ('e, 'n) Process =
  emu :: 'e
  data :: "'n ProcessData"

type_synonym ('e, 'n) tasks = "('e, 'n) Process option list"

record ('e, 'n) globals =
  NEW_TASK_LIST :: "('e, 'n) tasks"
  NUMBER_OF_TASKS :: nat
  PIPES :: pipes
  SIGNAL_QUEUES :: "ProcessSignal list option list"

type_synonym ('e, 'n, 'z) process_tick =
  "('e, 'n, 'z) globals_scheme \<Rightarrow> ('e, 'n) Process \<Rightarrow> (unit option \<times> ('e, 'n, 'z) globals_scheme \<times> ('e, 'n) Process) option"

section \<open>Tasks\<close>

definition scheduler_init :: "('e, 'n) tasks \<times> ('e, 'n) globals" where
  "scheduler_init = ([], \<lparr>NEW_TASK_LIST = [], NUMBER_OF_TASKS = 0, PIPES = [], SIGNAL_QUEUES = []\<rparr>)"

definition new_task :: "('e, 'n, 'z) globals_scheme \<Rightarrow> ('e, 'n) Process \<Rightarrow> nat \<times> ('e, 'n, 'z) globals_scheme" where
  "new_task g process = (
     let new_pid = NUMBER_OF_TASKS g + 1;
         process = process\<lparr>data := (data process)\<lparr>pid := Some new_pid\<rparr>\<rparr>
     in (new_pid, g\<lparr>NEW_TASK_LIST := NEW_TASK_LIST g @ [Some process],
           SIGNAL_QUEUES := SIGNAL_QUEUES g @ [Some []],
           NUMBER_OF_TASKS := NUMBER_OF_TASKS g + 1\<rparr>))"

text \<open>The new tasks are popped from the end of their list.\<close>

definition move_new_tasks_into_list ::
  "('e, 'n) tasks \<Rightarrow> ('e, 'n, 'z) globals_scheme \<Rightarrow> ('e, 'n) tasks \<times> ('e, 'n, 'z) globals_scheme" where
  "move_new_tasks_into_list l g = (
     let l = l @ rev (NEW_TASK_LIST g)
     in (l, g\<lparr>NEW_TASK_LIST := [], NUMBER_OF_TASKS := length l\<rparr>))"

definition kill_task :: "('e, 'n, 'z) globals_scheme \<Rightarrow> nat \<Rightarrow> ProcessSignal \<Rightarrow> (unit option \<times> ('e, 'n, 'z) globals_scheme) option" where
  "kill_task g target sig =
     (if target = 0 then None
      else case lookup_slot (SIGNAL_QUEUES g) (target - 1) of
        None \<Rightarrow> Some (None, g)
      | Some q \<Rightarrow> Some (Some (), g\<lparr>SIGNAL_QUEUES := (SIGNAL_QUEUES g)[target - 1 := Some (q @ [sig])]\<rparr>))"

section \<open>Waiting for children\<close>

text \<open>A terminated child is reported and becomes ready to be deallocated; its pid is unwrapped.\<close>

definition acknowledge :: "'n ProcessData \<Rightarrow> (WaitInformation \<times> 'n ProcessData) option option" where
  "acknowledge child = (case state child of
     TERMINATED_NORMALLY_CHILD_WAITING_FOR_PARENT_ACKNOWLEDGEMENT exit_code \<Rightarrow> do {
       cpid \<leftarrow> pid child;
       Some (Some (\<lparr>wait_cpid = cpid, wait_action = EXITED exit_code\<rparr>,
         child\<lparr>state := TERMINATED_NORMALLY_WAITING_TO_BE_DEALLOCATED exit_code\<rparr>))
     }
   | TERMINATED_DUE_TO_SIGNAL_CHILD_WAITING_FOR_PARENT_ACKNOWLEDGEMENT sig \<Rightarrow> do {
       cpid \<leftarrow> pid child;
       Some (Some (\<lparr>wait_cpid = cpid, wait_action = TERMINATED_BY_SIGNAL sig\<rparr>,
         child\<lparr>state := TERMINATED_DUE_TO_SIGNAL_WAITING_TO_BE_DEALLOCATED sig\<rparr>))
     }
   | _ \<Rightarrow> Some None)"

text \<open>Both return \<open>waiting_is_invalid\<close>, the state change of the child and the new list.\<close>

definition wait_specific :: "nat \<Rightarrow> nat \<Rightarrow> ('e, 'n) tasks \<Rightarrow> (bool \<times> WaitInformation option \<times> ('e, 'n) tasks) option" where
  "wait_specific our_pid cpid l =
     (if cpid = 0 then None
      else case lookup_slot l (cpid - 1) of
        None \<Rightarrow> Some (True, None, l)
      | Some child \<Rightarrow> do {
          parent \<leftarrow> parent_pid (data child);
          if parent = our_pid then do {
            r \<leftarrow> acknowledge (data child);
            Some (case r of
               None \<Rightarrow> (False, None, l)
             | Some (info, d) \<Rightarrow> (False, Some info, l[cpid - 1 := Some (child\<lparr>data := d\<rparr>)]))
          }
          else Some (True, None, l)
        })"

fun wait_any :: "nat \<Rightarrow> ('e, 'n) tasks \<Rightarrow> (bool \<times> WaitInformation option \<times> ('e, 'n) tasks) option" where
  "wait_any our_pid [] = Some (True, None, [])"
| "wait_any our_pid (None # l) = do {
     (waiting_is_invalid, change, l) \<leftarrow> wait_any our_pid l;
     Some (waiting_is_invalid, change, None # l)
   }"
| "wait_any our_pid (Some proc # l) =
     (if parent_pid (data proc) = Some our_pid then do {
        r \<leftarrow> acknowledge (data proc);
        (case r of
           Some (info, d) \<Rightarrow> Some (False, Some info, Some (proc\<lparr>data := d\<rparr>) # l)
         | None \<Rightarrow> do {
             (_, change, l) \<leftarrow> wait_any our_pid l;
             Some (False, change, Some proc # l)
           })
      }
      else do {
        (waiting_is_invalid, change, l) \<leftarrow> wait_any our_pid l;
        Some (waiting_is_invalid, change, Some proc # l)
      })"

section \<open>One task\<close>

definition set_state :: "('e, 'n) tasks \<Rightarrow> nat \<Rightarrow> ProcessState \<Rightarrow> ('e, 'n) tasks option" where
  "set_state l i s = do {
     p \<leftarrow> unwrap_at l i;
     Some (l[i := Some (p\<lparr>data := (data p)\<lparr>state := s\<rparr>\<rparr>)])
   }"

definition deliver_signals :: "('e, 'n) tasks \<Rightarrow> ('e, 'n, 'z) globals_scheme \<Rightarrow> nat \<Rightarrow> (('e, 'n) tasks \<times> ('e, 'n, 'z) globals_scheme) option" where
  "deliver_signals l g i = do {
     queue \<leftarrow> unwrap_at (SIGNAL_QUEUES g) i;
     p \<leftarrow> unwrap_at l i;
     Some (l[i := Some (p\<lparr>data := foldl recive_signal (data p) queue\<rparr>)],
       g\<lparr>SIGNAL_QUEUES := (SIGNAL_QUEUES g)[i := Some []]\<rparr>)
   }"

definition run_task :: "('e, 'n, 'z) process_tick \<Rightarrow> ('e, 'n) tasks \<Rightarrow> ('e, 'n, 'z) globals_scheme \<Rightarrow> nat \<Rightarrow>
    (('e, 'n) tasks \<times> ('e, 'n, 'z) globals_scheme) option" where
  "run_task ptick l g i = do {
     p \<leftarrow> unwrap_at l i;
     (r, g, p) \<leftarrow> ptick g p;
     let l = l[i := Some p];
     g \<leftarrow> (if r = None then do { (_, g) \<leftarrow> kill_task g (i + 1) \<lparr>signal_type = SIGILL\<rparr>; Some g } else Some g);
     Some (move_new_tasks_into_list l g)
   }"

definition wait_for_child :: "('e, 'n) tasks \<Rightarrow> nat \<Rightarrow> nat option \<Rightarrow> ('e, 'n) tasks option" where
  "wait_for_child l i cpid = do {
     (waiting_is_invalid, change, l) \<leftarrow> (case cpid of
        Some cpid \<Rightarrow> wait_specific (i + 1) cpid l
      | None \<Rightarrow> wait_any (i + 1) l);
     (case change of
        Some info \<Rightarrow> set_state l i (FINISHED_WAITING_FOR_CHILD_PROCESS (Some info))
      | None \<Rightarrow>
          (if waiting_is_invalid then set_state l i (FINISHED_WAITING_FOR_CHILD_PROCESS None) else Some l))
   }"

text \<open>The test of a terminated child for being an orphan, and the state it then enters.\<close>

definition check_orphan :: "('e, 'n) tasks \<Rightarrow> nat \<Rightarrow> ProcessState \<Rightarrow> ('e, 'n) tasks option" where
  "check_orphan l i s = do {
     p \<leftarrow> unwrap_at l i;
     parents_pid \<leftarrow> parent_pid (data p);
     let parent_exists = (lookup_slot l parents_pid \<noteq> None);
     if \<not> parent_exists then set_state l i s else Some l
   }"

text \<open>Overwriting the entry drops the process, which closes its pipe ends.\<close>

definition deallocate :: "('e, 'n) tasks \<Rightarrow> ('e, 'n, 'z) globals_scheme \<Rightarrow> nat \<Rightarrow> (('e, 'n) tasks \<times> ('e, 'n, 'z) globals_scheme) option" where
  "deallocate l g i = do {
     p \<leftarrow> unwrap_at l i;
     pipes \<leftarrow> drop_process (PIPES g) (data p);
     l \<leftarrow> index_set l i None;
     signals \<leftarrow> index_set (SIGNAL_QUEUES g) i None;
     Some (drain_none l, g\<lparr>PIPES := pipes, SIGNAL_QUEUES := drain_none signals\<rparr>)
   }"

definition dispatch :: "('e, 'n, 'z) process_tick \<Rightarrow> ('e, 'n) tasks \<Rightarrow> ('e, 'n, 'z) globals_scheme \<Rightarrow> nat \<Rightarrow>
    (('e, 'n) tasks \<times> ('e, 'n, 'z) globals_scheme) option" where
  "dispatch ptick l g i = do {
     p \<leftarrow> unwrap_at l i;
     (case state (data p) of
        RUNNING \<Rightarrow> run_task ptick l g i
      | RUNNING_NEW_CHILD_JUST_FORKED \<Rightarrow> run_task ptick l g i
      | FINISHED_WAITING_FOR_CHILD_PROCESS _ \<Rightarrow> run_task ptick l g i
      | WAITING_FOR_CHILD_PROCESS cpid \<Rightarrow> do { l \<leftarrow> wait_for_child l i cpid; Some (l, g) }
      | WAITING_FOR_READ_PIPE pipe_index \<Rightarrow> do {
          pipe \<leftarrow> unwrap_at (PIPES g) pipe_index;
          l \<leftarrow> (if pipe_buf pipe \<noteq> [] \<or> writers_count pipe = 0 then set_state l i RUNNING else Some l);
          Some (l, g)
        }
      | TERMINATED_NORMALLY_CHILD_WAITING_FOR_PARENT_ACKNOWLEDGEMENT exit_code \<Rightarrow> do {
          l \<leftarrow> check_orphan l i (TERMINATED_NORMALLY_WAITING_TO_BE_DEALLOCATED exit_code);
          Some (l, g)
        }
      | TERMINATED_DUE_TO_SIGNAL_CHILD_WAITING_FOR_PARENT_ACKNOWLEDGEMENT sig \<Rightarrow> do {
          l \<leftarrow> check_orphan l i (TERMINATED_DUE_TO_SIGNAL_WAITING_TO_BE_DEALLOCATED sig);
          Some (l, g)
        }
      | TERMINATED_NORMALLY_WAITING_TO_BE_DEALLOCATED _ \<Rightarrow> deallocate l g i
      | TERMINATED_DUE_TO_SIGNAL_WAITING_TO_BE_DEALLOCATED _ \<Rightarrow> deallocate l g i)
   }"

definition tick_task :: "('e, 'n, 'z) process_tick \<Rightarrow> ('e, 'n) tasks \<Rightarrow> ('e, 'n, 'z) globals_scheme \<Rightarrow> nat \<Rightarrow>
    (('e, 'n) tasks \<times> ('e, 'n, 'z) globals_scheme) option" where
  "tick_task ptick l g i = do {
     slot \<leftarrow> index l i;
     if slot = None then Some (l, g)
     else do {
       (l, g) \<leftarrow> deliver_signals l g i;
       dispatch ptick l g i
     }
   }"

section \<open>One round\<close>

fun tick_tasks :: "('e, 'n, 'z) process_tick \<Rightarrow> nat list \<Rightarrow> ('e, 'n) tasks \<Rightarrow> ('e, 'n, 'z) globals_scheme \<Rightarrow>
    (('e, 'n) tasks \<times> ('e, 'n, 'z) globals_scheme) option" where
  "tick_tasks ptick [] l g = Some (l, g)"
| "tick_tasks ptick (i # is) l g = do {
     (l, g) \<leftarrow> tick_task ptick l g i;
     tick_tasks ptick is l g
   }"

definition scheduler_tick :: "('e, 'n, 'z) process_tick \<Rightarrow> ('e, 'n) tasks \<Rightarrow> ('e, 'n, 'z) globals_scheme \<Rightarrow>
    (bool \<times> ('e, 'n) tasks \<times> ('e, 'n, 'z) globals_scheme) option" where
  "scheduler_tick ptick l g = do {
     let (l, g) = move_new_tasks_into_list l g;
     (l, g) \<leftarrow> tick_tasks ptick [0 ..< length l] l g;
     Some (length l > 0, l, g)
   }"

section \<open>System calls of the scheduler\<close>

text \<open>\<^verbatim>\<open>fork\<close>; the result is the value of \<^verbatim>\<open>a0\<close>.\<close>

definition fork :: "('e, 'n, 'z) globals_scheme \<Rightarrow> 'e \<Rightarrow> 'n ProcessData \<Rightarrow> (nat \<times> ('e, 'n, 'z) globals_scheme \<times> 'n ProcessData) option" where
  "fork g e p = (case state p of
     RUNNING_NEW_CHILD_JUST_FORKED \<Rightarrow> Some (0, g, p\<lparr>state := RUNNING\<rparr>)
   | _ \<Rightarrow> do {
       pipes \<leftarrow> fork_refs (fd_mappings p) (PIPES g);
       let child = \<lparr>emu = e, data = p\<lparr>parent_pid := pid p, state := RUNNING_NEW_CHILD_JUST_FORKED\<rparr>\<rparr>;
       let (child_pid, g) = new_task (g\<lparr>PIPES := pipes\<rparr>) child;
       Some (child_pid, g, p)
     })"

end
