(* ===== verification/Process_Load.thy ===== *)
theory Process_Load
  imports User_Memory Elf Scheduler
begin

text \<open>
  Loading a program (\<^verbatim>\<open>src/kernel/src/process.rs\<close>): the segments of an ELF file, the arguments and the
  environment are put into the virtual memory of a new process.

  Strings are lists of bytes. The loops store one byte per character of a string, its scalar value cut
  to eight bits. \<open>None\<close> is a panic; an inner \<open>None\<close> is the source's \<^verbatim>\<open>None\<close>. The parameter \<open>room\<close> says
  for which sizes the allocator of the programs' physical memory has room, and \<open>dcd\<close> is the byte order
  of the ELF reader.
\<close>

section \<open>Segments\<close>

definition segment_bytes :: "u8 list \<Rightarrow> u64 \<Rightarrow> u8 list" where
  "segment_bytes segment_data virtual_size =
     take (unat virtual_size) segment_data @ replicate (unat virtual_size - length segment_data) 0"

fun load_elf_into_virtual_memory ::
  "(u64 \<Rightarrow> bool) \<Rightarrow> UniversalProgramHeader list \<Rightarrow> u8 list \<Rightarrow> u64 \<Rightarrow> LittleEndianVirtualMemory
     \<Rightarrow> (u64 option \<times> LittleEndianVirtualMemory) option" where
  "load_elf_into_virtual_memory room [] elf_bytes lower_virt_addr m = Some (Some lower_virt_addr, m)"
| "load_elf_into_virtual_memory room (header # headers) elf_bytes lower_virt_addr m =
     (if segment_type header = KnownEnum Interp then Some (None, m)
      else if segment_type header = KnownEnum Load then do {
        segment_data \<leftarrow> slice elf_bytes (segment_file_offset header) (unat (segment_file_size header));
        assert_that (room (segment_file_size header) \<and> room (segment_virtual_size header));
        let segment = segment_bytes segment_data (segment_virtual_size header);
        segment_end \<leftarrow> checked_add (segment_virtual_address header) (of_nat (length segment));
        let lower_virt_addr = (if segment_end > lower_virt_addr then segment_end else lower_virt_addr);
        (r, m) \<leftarrow> add_region m (segment_virtual_address header) segment;
        (case r of
           None \<Rightarrow> Some (None, m)
         | Some _ \<Rightarrow> load_elf_into_virtual_memory room headers elf_bytes lower_virt_addr m) }
      else load_elf_into_virtual_memory room headers elf_bytes lower_virt_addr m)"

section \<open>Arguments and environment\<close>

definition c_string :: "u8 list \<Rightarrow> u8 list" where
  "c_string s = map ucast (chars s) @ replicate (length s + 1 - length (chars s)) 0"

text \<open>The body that the loops over the arguments and over the environment share.\<close>

definition load_c_string ::
  "(u64 \<Rightarrow> bool) \<Rightarrow> u8 list \<Rightarrow> LittleEndianVirtualMemory \<Rightarrow> BasicAlloc
     \<Rightarrow> (u64 option \<times> LittleEndianVirtualMemory \<times> BasicAlloc) option" where
  "load_c_string room s m va = do {
     let allocated = c_string s;
     assert_that (room (of_nat (length allocated)));
     (case from_size_align (of_nat (length allocated)) 1 of
        None \<Rightarrow> Some (None, m, va)
      | Some l \<Rightarrow> do {
          (ptr, va) \<leftarrow> alloc va l;
          if ptr = 0 then Some (None, m, va)
          else do {
            (r, m) \<leftarrow> add_region m ptr allocated;
            Some (map_option (\<lambda>_. ptr) r, m, va) } }) }"

fun load_args_loop ::
  "(u64 \<Rightarrow> bool) \<Rightarrow> u8 list list \<Rightarrow> nat \<Rightarrow> u8 list \<Rightarrow> LittleEndianVirtualMemory \<Rightarrow> BasicAlloc
     \<Rightarrow> (u8 list option \<times> LittleEndianVirtualMemory \<times> BasicAlloc) option" where
  "load_args_loop room [] i argv m va = Some (Some argv, m, va)"
| "load_args_loop room (arg # args) i argv m va = do {
     (r, m, va) \<leftarrow> load_c_string room arg m va;
     (case r of
        None \<Rightarrow> Some (None, m, va)
      | Some virtual_arg_ptr \<Rightarrow> do {
          argv \<leftarrow> store_loop argv (i * 8) (to_le_bytes virtual_arg_ptr);
          load_args_loop room args (Suc i) argv m va }) }"

definition load_args_into_virtual_memory ::
  "(u64 \<Rightarrow> bool) \<Rightarrow> u8 list list \<Rightarrow> u64 \<Rightarrow> LittleEndianVirtualMemory \<Rightarrow> BasicAlloc
     \<Rightarrow> (u64 option \<times> LittleEndianVirtualMemory \<times> BasicAlloc) option" where
  "load_args_into_virtual_memory room args args_len m va = do {
     argv_len \<leftarrow> checked_mul args_len 8;
     assert_that (room argv_len);
     block_size \<leftarrow> checked_mul argv_len 8;
     (case from_size_align block_size 1 of
        None \<Rightarrow> Some (None, m, va)
      | Some l \<Rightarrow> do {
          (argv_virtual_ptr, va) \<leftarrow> alloc va l;
          if argv_virtual_ptr = 0 then Some (None, m, va)
          else do {
            (r, m, va) \<leftarrow> load_args_loop room args 0 (replicate (unat argv_len) 0) m va;
            (case r of
               None \<Rightarrow> Some (None, m, va)
             | Some argv \<Rightarrow> do {
                 (r, m) \<leftarrow> add_region m argv_virtual_ptr argv;
                 Some (map_option (\<lambda>_. argv_virtual_ptr) r, m, va) }) } }) }"

fun load_env_into_virtual_memory ::
  "(u64 \<Rightarrow> bool) \<Rightarrow> (string \<times> u8 list) list \<Rightarrow> (string \<rightharpoonup> u64) \<Rightarrow> LittleEndianVirtualMemory \<Rightarrow> BasicAlloc
     \<Rightarrow> ((string \<rightharpoonup> u64) option \<times> LittleEndianVirtualMemory \<times> BasicAlloc) option" where
  "load_env_into_virtual_memory room [] map0 m va = Some (Some map0, m, va)"
| "load_env_into_virtual_memory room ((key, val) # vars) map0 m va = do {
     (r, m, va) \<leftarrow> load_c_string room val m va;
     (case r of
        None \<Rightarrow> Some (None, m, va)
      | Some ptr \<Rightarrow> load_env_into_virtual_memory room vars (map0(key \<mapsto> ptr)) m va) }"

section \<open>A new process\<close>

definition PROGRAM_STACK_SIZE :: u64 where
  "PROGRAM_STACK_SIZE = 8 * 1024"

definition program_stack_start :: u64 where
  "program_stack_start = - 1 - PROGRAM_STACK_SIZE + 1"

type_synonym emulator = "LittleEndianVirtualMemory Riscv64Cpu"

text \<open>\<^verbatim>\<open>BasicAlloc::from\<close> for the space between the segments and the stack.\<close>

definition heap_for :: "u64 \<Rightarrow> BasicAlloc option" where
  "heap_for lower_virt_addr = do {
     below \<leftarrow> checked_add PROGRAM_STACK_SIZE lower_virt_addr;
     Some (alloc_from lower_virt_addr (- 1 - below) True) }"

definition from_elf ::
  "(u64 \<Rightarrow> bool) \<Rightarrow> decoder \<Rightarrow> u8 list \<Rightarrow> u8 list list \<Rightarrow> string \<Rightarrow> (string \<times> u8 list) list
     \<Rightarrow> (emulator, 'n) Process option option" where
  "from_elf room dcd elf_bytes args cwd0 env0 = do {
     elf \<leftarrow> from_bytes dcd elf_bytes;
     (case elf of
        None \<Rightarrow> Some None
      | Some elf \<Rightarrow>
          if instruction_set (elf_header elf) \<noteq> RiscV then Some None
          else if elf_type (elf_header elf) \<noteq> EXECUTABLE then Some None
          else do {
            (lower, m) \<leftarrow> load_elf_into_virtual_memory room (program_headers elf) elf_bytes 0 vm_new;
            (case lower of
               None \<Rightarrow> Some None
             | Some lower_virt_addr \<Rightarrow> do {
                 assert_that (room PROGRAM_STACK_SIZE);
                 (r, m) \<leftarrow> add_region m program_stack_start (replicate (unat PROGRAM_STACK_SIZE) 0);
                 (case r of
                    None \<Rightarrow> Some None
                  | Some _ \<Rightarrow> do {
                      va \<leftarrow> heap_for lower_virt_addr;
                      (r, m, va) \<leftarrow> load_args_into_virtual_memory room args (of_nat (length args)) m va;
                      (case r of
                         None \<Rightarrow> Some None
                       | Some argv_virtual_ptr \<Rightarrow> do {
                           (r, m, va) \<leftarrow> load_env_into_virtual_memory room env0 Map.empty m va;
                           (case r of
                              None \<Rightarrow> Some None
                            | Some prog_env \<Rightarrow> do {
                                let emu0 = cpu_from m (program_entry (elf_header elf));
                                emu1 \<leftarrow> write_reg emu0 10 (of_nat (length args));
                                emu2 \<leftarrow> write_reg emu1 11 argv_virtual_ptr;
                                Some (Some \<lparr>emu = emu2, data = ProcessData_new cwd0 prog_env va\<rparr>) }) }) }) }) }) }"

section \<open>Segments in memory\<close>

text \<open>The bytes that a memory holds from an address on.\<close>

definition holds_bytes :: "LittleEndianVirtualMemory \<Rightarrow> u64 \<Rightarrow> u8 list \<Rightarrow> bool" where
  "holds_bytes m a bs \<longleftrightarrow> (\<forall>j < length bs. vm_byte m (a + of_nat j) = Some (bs ! j))"

lemma region_holds:
  assumes "vm_inv m" "r \<in> set (vm_map m)" shows "holds_bytes m (virtual_start r) (backing_storage r)"
  unfolding holds_bytes_def
proof (intro allI impI)
  fix j assume j: "j < length (backing_storage r)"
  obtain k where k: "k < length (vm_map m)" "vm_map m ! k = r" using assms(2) by (auto simp: in_set_conv_nth)
  have ok: "region_ok r" using assms by (simp add: vm_inv_def)
  then have e: "unat (virtual_start r) + j < 2 ^ 64" using j unfolding region_ok_def region_len_def by linarith
  then have "unat (of_nat j :: u64) = j" by (simp add: unsigned_of_nat take_bit_nat_eq_self)
  then have u: "unat (virtual_start r + of_nat j) = unat (virtual_start r) + j"
    using e unat_add_lem [of "virtual_start r" "of_nat j"] by simp
  have "contains (vm_map m ! k) (virtual_start r + of_nat j)"
    unfolding contains_def k(2) u region_len_def using j by linarith
  from vm_byte_hit [OF assms(1) k(1) this] show "vm_byte m (virtual_start r + of_nat j) = Some (backing_storage r ! j)"
    by (simp add: k(2) u)
qed

lemma region_unique:
  assumes "vm_inv m" "r \<in> set (vm_map m)" "s \<in> set (vm_map m)" "contains r x" "contains s x"
  shows "r = s"
proof -
  obtain i j where "i < length (vm_map m)" "vm_map m ! i = r" "j < length (vm_map m)" "vm_map m ! j = s"
    using assms(2,3) by (auto simp: in_set_conv_nth)
  then show ?thesis using vm_inv_contains_unique [OF assms(1), of i j x] assms(4,5) by auto
qed

lemma add_fitting_region:
  assumes "vm_inv m" "R = \<lparr>virtual_start = a, backing_storage = bs\<rparr>" "region_ok R" "\<forall>r \<in> set (vm_map m). region_disjoint r R"
  shows "add_region m a bs = Some (Some (), m\<lparr>vm_map := vm_map m @ [R]\<rparr>)"
proof -
  have "any_overlap (vm_map m) R = Some False" using assms by (subst any_overlap_eq) (auto simp: vm_inv_def)
  then show ?thesis by (simp add: add_region_def assms(2))
qed

definition loads :: "UniversalProgramHeader list \<Rightarrow> UniversalProgramHeader list" where
  "loads hs = filter (\<lambda>h. segment_type h = KnownEnum Load) hs"

definition file_part :: "u8 list \<Rightarrow> UniversalProgramHeader \<Rightarrow> u8 list" where
  "file_part elf_bytes h = take (unat (segment_file_size h)) (drop (unat (segment_file_offset h)) elf_bytes)"

definition segment_region :: "u8 list \<Rightarrow> UniversalProgramHeader \<Rightarrow> VirtRegion" where
  "segment_region elf_bytes h =
     \<lparr>virtual_start = segment_virtual_address h, backing_storage = segment_bytes (file_part elf_bytes h) (segment_virtual_size h)\<rparr>"

definition loadable :: "u8 list \<Rightarrow> UniversalProgramHeader \<Rightarrow> bool" where
  "loadable elf_bytes h \<longleftrightarrow> segment_virtual_address h \<noteq> 0
     \<and> unat (segment_file_offset h) + unat (segment_file_size h) \<le> length elf_bytes
     \<and> unat (segment_file_offset h) + unat (segment_file_size h) < 2 ^ 64
     \<and> unat (segment_virtual_address h) + unat (segment_virtual_size h) < 2 ^ 64"

lemma length_segment_bytes [simp]: "length (segment_bytes bs n) = unat n"
  by (simp add: segment_bytes_def)

lemma segment_region_simps [simp]:
  "virtual_start (segment_region bs h) = segment_virtual_address h"
  "backing_storage (segment_region bs h) = segment_bytes (file_part bs h) (segment_virtual_size h)"
  "region_len (segment_region bs h) = unat (segment_virtual_size h)"
  by (simp_all add: segment_region_def region_len_def)

lemma segment_region_ok: "loadable bs h \<Longrightarrow> region_ok (segment_region bs h)"
  by (simp add: loadable_def region_ok_def)

lemma load_elf_segments:
  assumes "vm_inv m" "\<forall>h \<in> set hs. segment_type h \<noteq> KnownEnum Interp" "\<forall>h \<in> set (loads hs). loadable bs h"
    and "\<forall>n. room n" "sorted_wrt region_disjoint (vm_map m @ map (segment_region bs) (loads hs))"
  shows "\<exists>lower. load_elf_into_virtual_memory room hs bs l0 m
      = Some (Some lower, m\<lparr>vm_map := vm_map m @ map (segment_region bs) (loads hs)\<rparr>)
    \<and> vm_inv (m\<lparr>vm_map := vm_map m @ map (segment_region bs) (loads hs)\<rparr>) \<and> l0 \<le> lower
    \<and> (\<forall>h \<in> set (loads hs). unat (segment_virtual_address h) + unat (segment_virtual_size h) \<le> unat lower)
    \<and> (lower = l0 \<or> (\<exists>h \<in> set (loads hs). unat lower = unat (segment_virtual_address h) + unat (segment_virtual_size h)))"
  using assms
proof (induction hs arbitrary: l0 m)
  case Nil
  then show ?case by (simp add: loads_def)
next
  case (Cons h hs)
  show ?case
  proof (cases "segment_type h = KnownEnum Load")
    case False
    then show ?thesis using Cons by (simp add: loads_def)
  next
    case True
    let ?R = "segment_region bs h" and ?va = "segment_virtual_address h" and ?vs = "segment_virtual_size h"
    let ?m = "m\<lparr>vm_map := vm_map m @ [?R]\<rparr>" and ?e = "segment_virtual_address h + segment_virtual_size h"
    have l: "loads (h # hs) = h # loads hs" using True by (simp add: loads_def)
    have ok: "loadable bs h" using Cons.prems(3) l by simp
    have ca: "checked_add (segment_file_offset h) (of_nat (unat (segment_file_size h)))
        = Some (segment_file_offset h + segment_file_size h)"
      using ok by (simp add: loadable_def checked_add_nat)
    then have "unat (segment_file_offset h + segment_file_size h) = unat (segment_file_offset h) + unat (segment_file_size h)"
      using checked_add_unat by fastforce
    then have sl: "slice bs (segment_file_offset h) (unat (segment_file_size h)) = Some (file_part bs h)"
      using ok ca by (simp add: slice_def loadable_def file_part_def)
    have ce: "checked_add ?va (of_nat (unat ?vs)) = Some ?e" using ok by (simp add: loadable_def checked_add_nat)
    then have ue: "unat ?e = unat ?va + unat ?vs" using checked_add_unat by fastforce
    have apart: "\<forall>r \<in> set (vm_map m). region_disjoint r ?R" using Cons.prems(5) l by (simp add: sorted_wrt_append)
    have add: "add_region m ?va (segment_bytes (file_part bs h) ?vs) = Some (Some (), ?m)"
      using add_fitting_region [OF Cons.prems(1) _ segment_region_ok [OF ok] apart] by (simp add: segment_region_def)
    let ?l = "if ?e > l0 then ?e else l0"
    have "vm_inv ?m" using vm_inv_snoc [OF Cons.prems(1) segment_region_ok [OF ok] apart] .
    moreover have "\<forall>h \<in> set hs. segment_type h \<noteq> KnownEnum Interp" "\<forall>h \<in> set (loads hs). loadable bs h"
      "sorted_wrt region_disjoint (vm_map ?m @ map (segment_region bs) (loads hs))" using Cons.prems(2,3,5) l by simp_all
    ultimately obtain lower where lo: "load_elf_into_virtual_memory room hs bs ?l ?m
          = Some (Some lower, ?m\<lparr>vm_map := vm_map ?m @ map (segment_region bs) (loads hs)\<rparr>)"
        "vm_inv (?m\<lparr>vm_map := vm_map ?m @ map (segment_region bs) (loads hs)\<rparr>)" "?l \<le> lower"
        "\<forall>h \<in> set (loads hs). unat (segment_virtual_address h) + unat (segment_virtual_size h) \<le> unat lower"
        "lower = ?l \<or> (\<exists>h \<in> set (loads hs). unat lower = unat (segment_virtual_address h) + unat (segment_virtual_size h))"
      using Cons.IH [of ?m ?l] Cons.prems(4) by blast
    have "load_elf_into_virtual_memory room (h # hs) bs l0 m
        = Some (Some lower, m\<lparr>vm_map := vm_map m @ map (segment_region bs) (loads (h # hs))\<rparr>)"
      using True Cons.prems(4) lo(1) sl ce add l by (simp add: Let_def)
    moreover have "l0 \<le> lower" "?e \<le> lower" using lo(3) by (simp_all split: if_splits)
    ultimately show ?thesis using lo(2,4,5) l ue by (auto simp: word_le_nat_alt split: if_splits)
  qed
qed

section \<open>Strings in memory\<close>

lemma length_c_string [simp]: "length (c_string s) = length s + 1"
  using length_chars [of s] by (simp add: c_string_def)

lemma c_string_ascii: "ascii s \<Longrightarrow> c_string s = s @ [0]"
  by (simp add: c_string_def chars_ascii o_def ucast_ucast_up)

lemma alloc_unaligned:
  assumes "unat (heap_next a) + unat n < unat (heap_len a)" "unat (alloc_count a) + 1 < 2 ^ 64"
  shows "\<exists>ptr a'. alloc a \<lparr>layout_size = n, layout_align = 1\<rparr> = Some (ptr, a')
    \<and> heap_next a' = heap_next a + n \<and> unat (heap_next a') = unat (heap_next a) + unat n"
proof -
  have "unat (heap_next a) + unat n < 2 ^ 64" using assms(1) unsigned_less [of "heap_len a", where ?'a = nat] by simp
  then have c: "checked_add (heap_next a) n = Some (heap_next a + n)" by (simp add: checked_add_nat)
  then have u: "unat (heap_next a + n) = unat (heap_next a) + unat n" by (rule checked_add_unat)
  have "\<not> heap_len a \<le> heap_next a + n" using u assms(1) by (simp add: word_le_nat_alt)
  moreover have "checked_add (alloc_count a) 1 = Some (alloc_count a + 1)" using assms(2) by (simp add: checked_add_nat)
  moreover have "heap_next a mod 1 = 0" by (metis unat_eq_0 unat_mod_distrib mod_by_1 unsigned_1)
  ultimately show ?thesis using c u by (simp add: alloc_def pad_for_def)
qed

lemma layout_1: "unat n < 2 ^ 63 \<Longrightarrow> from_size_align n 1 = Some \<lparr>layout_size = n, layout_align = 1\<rparr>"
  by (simp add: from_size_align_def word_le_nat_alt)

lemma new_block_apart:
  assumes "alloc_inv a ((ptr, n) # live)" "(q, k) \<in> set live" "0 < unat k" "0 < unat n"
  shows "q \<noteq> ptr"
proof
  assume eq: "q = ptr"
  have "cover (unat ptr) ((ptr, n) # live) \<le> of_bool (used a (unat ptr))"
    using assms(1) unfolding alloc_inv_def by (metis add_leD1)
  moreover have "cover (unat ptr) live = of_bool (has_addr (q, k) (unat ptr)) + cover (unat ptr) (remove1 (q, k) live)"
    by (rule cover_remove1 [OF assms(2)])
  ultimately show False using eq assms(3,4) by (cases "used a (unat ptr)") (simp_all add: has_addr_def)
qed

abbreviation same_space :: "BasicAlloc \<Rightarrow> BasicAlloc \<Rightarrow> bool" where
  "same_space a b \<equiv> heap_base a = heap_base b \<and> heap_len a = heap_len b"

text \<open>Taking a block at the end of the used part of the heap.\<close>

lemma take_block:
  assumes h: "heap_inv m a live" and n: "0 < unat n" "unat n < 2 ^ 62"
    and space: "unat (heap_next a) + unat n + 1 < unat (heap_len a)" and count: "length live + 1 < 2 ^ 64"
  obtains ptr a' where "from_size_align n 1 = Some \<lparr>layout_size = n, layout_align = 1\<rparr>"
    "alloc a \<lparr>layout_size = n, layout_align = 1\<rparr> = Some (ptr, a')" "ptr \<noteq> 0"
    "heap_inv m a' ((ptr, n) # live)" "same_space a' a" "unat (heap_next a') = unat (heap_next a) + unat n"
    "\<forall>r \<in> set (vm_map m). heap_region a' r \<longrightarrow> virtual_start r \<noteq> ptr"
    "\<And>q k. (q, k) \<in> set live \<Longrightarrow> 0 < unat k \<Longrightarrow> q \<noteq> ptr"
proof -
  let ?l = "\<lparr>layout_size = n, layout_align = 1\<rparr>"
  have l: "from_size_align n 1 = Some ?l" using n by (intro layout_1) simp
  have c: "unat (alloc_count a) + 1 < 2 ^ 64" using h count by (simp add: heap_inv_def alloc_inv_def)
  obtain ptr a' where al: "alloc a ?l = Some (ptr, a')" "unat (heap_next a') = unat (heap_next a) + unat n" "heap_next a' = heap_next a + n"
    using alloc_unaligned [OF _ c, of n] space by auto
  have r64: "unat (heap_next a) + unat (layout_align ?l) + unat (layout_size ?l) < 2 ^ 64"
    using space unsigned_less [of "heap_len a", where ?'a = nat] by simp
  have l': "from_size_align (layout_size ?l) (layout_align ?l) = Some ?l" using l by simp
  have pos: "0 < n" using n(1) by (simp add: word_less_nat_alt)
  obtain a2 where a2: "alloc a ?l = Some (ptr, a2)" "ptr \<noteq> 0" "heap_inv m a2 ((ptr, n) # live)"
    "\<forall>r \<in> set (vm_map m). heap_region a2 r \<longrightarrow> virtual_start r \<noteq> ptr"
    by (rule heap_alloc [OF h l' r64 count]) (use space al(1) pos in auto)
  then have eq: "a2 = a'" using al(1) by simp
  have "q \<noteq> ptr" if "(q, k) \<in> set live" "0 < unat k" for q k
    by (rule new_block_apart [of a2, OF _ that n(1)]) (use a2(3) in \<open>simp add: heap_inv_def\<close>)
  then show ?thesis using that [OF l al(1)] al(2) a2 alloc_keeps_space [OF al(1)] eq by blast
qed

abbreviation string_region :: "u64 \<Rightarrow> u8 list \<Rightarrow> VirtRegion" where
  "string_region ptr s \<equiv> \<lparr>virtual_start = ptr, backing_storage = c_string s\<rparr>"

lemma load_c_string_ok:
  assumes h: "heap_inv m a live" and s: "length s < 2 ^ 61" and room: "\<forall>n. room n"
    and space: "unat (heap_next a) + length s + 2 < unat (heap_len a)" and count: "length live + 1 < 2 ^ 64"
  obtains ptr a' where "load_c_string room s m a = Some (Some ptr, m\<lparr>vm_map := vm_map m @ [string_region ptr s]\<rparr>, a')"
    "heap_inv (m\<lparr>vm_map := vm_map m @ [string_region ptr s]\<rparr>) a' ((ptr, of_nat (length s + 1)) # live)"
    "same_space a' a" "unat (heap_next a') = unat (heap_next a) + length s + 1"
    "\<And>q k. (q, k) \<in> set live \<Longrightarrow> 0 < unat k \<Longrightarrow> q \<noteq> ptr"
proof -
  let ?n = "of_nat (length (c_string s)) :: u64"
  have n: "unat ?n = length s + 1" using s by (simp add: unsigned_of_nat take_bit_nat_eq_self del: of_nat_add of_nat_Suc)
  have b: "0 < unat ?n" "unat ?n < 2 ^ 62" "unat (heap_next a) + unat ?n + 1 < unat (heap_len a)" using n s space by simp_all
  obtain ptr a' where t: "from_size_align ?n 1 = Some \<lparr>layout_size = ?n, layout_align = 1\<rparr>"
    "alloc a \<lparr>layout_size = ?n, layout_align = 1\<rparr> = Some (ptr, a')" "ptr \<noteq> 0"
    "heap_inv m a' ((ptr, ?n) # live)" "same_space a' a" "unat (heap_next a') = unat (heap_next a) + unat ?n"
    "\<forall>r \<in> set (vm_map m). heap_region a' r \<longrightarrow> virtual_start r \<noteq> ptr"
    "\<And>q k. (q, k) \<in> set live \<Longrightarrow> 0 < unat k \<Longrightarrow> q \<noteq> ptr"
    using take_block [OF h b count] by blast
  have len: "0 < length (c_string s)" "length (c_string s) \<le> unat ?n" using n by simp_all
  have "(ptr, ?n) \<in> set ((ptr, ?n) # live)" by simp
  note add = add_block_region [OF t(4) this t(7) len refl]
  have "load_c_string room s m a = Some (Some ptr, m\<lparr>vm_map := vm_map m @ [string_region ptr s]\<rparr>, a')"
    unfolding load_c_string_def Let_def t(1) option.case t(2) bind.bind_lunit using room t(3) add(2) by simp
  then show ?thesis using that add(3) t(5,6,8) n by simp
qed

fun load_strings ::
  "(u64 \<Rightarrow> bool) \<Rightarrow> u8 list list \<Rightarrow> LittleEndianVirtualMemory \<Rightarrow> BasicAlloc
     \<Rightarrow> (u64 list option \<times> LittleEndianVirtualMemory \<times> BasicAlloc) option" where
  "load_strings room [] m va = Some (Some [], m, va)"
| "load_strings room (s # ss) m va = do {
     (r, m, va) \<leftarrow> load_c_string room s m va;
     (case r of
        None \<Rightarrow> Some (None, m, va)
      | Some ptr \<Rightarrow> do {
          (rs, m, va) \<leftarrow> load_strings room ss m va;
          Some (map_option (Cons ptr) rs, m, va) }) }"

abbreviation strings_size :: "u8 list list \<Rightarrow> nat" where
  "strings_size ss \<equiv> sum_list (map (\<lambda>s. length s + 1) ss)"

lemma load_strings_ok:
  assumes "heap_inv m a live" "\<forall>s \<in> set ss. length s < 2 ^ 61" "\<forall>n. room n"
    "unat (heap_next a) + strings_size ss + 1 < unat (heap_len a)" "length live + length ss < 2 ^ 64"
  shows "\<exists>ptrs m' a' live'. load_strings room ss m a = Some (Some ptrs, m', a') \<and> length ptrs = length ss
    \<and> vm_map m' = vm_map m @ map2 string_region ptrs ss \<and> heap_inv m' a' live' \<and> set live \<subseteq> set live'
    \<and> length live' = length live + length ss \<and> same_space a' a
    \<and> unat (heap_next a') = unat (heap_next a) + strings_size ss
    \<and> (\<forall>ptr \<in> set ptrs. \<forall>(q, k) \<in> set live. 0 < unat k \<longrightarrow> q \<noteq> ptr)"
  using assms
proof (induction ss arbitrary: m a live)
  case Nil
  then show ?case by auto
next
  case (Cons s ss)
  have b: "length s < 2 ^ 61" "unat (heap_next a) + length s + 2 < unat (heap_len a)" "length live + 1 < 2 ^ 64"
    using Cons.prems(2,4,5) by simp_all
  show ?case
  proof (rule load_c_string_ok [where room = room, OF Cons.prems(1) b(1) Cons.prems(3) b(2,3)])
    fix ptr a1 let ?m1 = "m\<lparr>vm_map := vm_map m @ [string_region ptr s]\<rparr>" and ?live = "(ptr, of_nat (length s + 1)) # live"
    assume one: "load_c_string room s m a = Some (Some ptr, ?m1, a1)" "heap_inv ?m1 a1 ?live"
      and a1: "same_space a1 a" "unat (heap_next a1) = unat (heap_next a) + length s + 1"
      and new: "\<And>q k. (q, k) \<in> set live \<Longrightarrow> 0 < unat k \<Longrightarrow> q \<noteq> ptr"
    have "\<forall>s \<in> set ss. length s < 2 ^ 61" "unat (heap_next a1) + strings_size ss + 1 < unat (heap_len a1)"
      "length ?live + length ss < 2 ^ 64" using Cons.prems(2,4,5) a1 by simp_all
    from Cons.IH [OF one(2) this(1) Cons.prems(3) this(2,3)]
    obtain ptrs m' a' live' where rest: "load_strings room ss ?m1 a1 = Some (Some ptrs, m', a')" "length ptrs = length ss"
      "vm_map m' = vm_map ?m1 @ map2 string_region ptrs ss" "heap_inv m' a' live'" "set ?live \<subseteq> set live'"
      "length live' = length ?live + length ss" "same_space a' a1"
      "unat (heap_next a') = unat (heap_next a1) + strings_size ss"
      "\<forall>ptr \<in> set ptrs. \<forall>(q, k) \<in> set ?live. 0 < unat k \<longrightarrow> q \<noteq> ptr" by blast
    have "load_strings room (s # ss) m a = Some (Some (ptr # ptrs), m', a')" using one(1) rest(1) by simp
    moreover have "\<forall>p \<in> set (ptr # ptrs). \<forall>(q, k) \<in> set live. 0 < unat k \<longrightarrow> q \<noteq> p" using new rest(9) by auto
    moreover have "vm_map m' = vm_map m @ map2 string_region (ptr # ptrs) (s # ss)" using rest(3) by simp
    moreover have "set live \<subseteq> set live'" "length live' = length live + length (s # ss)" "same_space a' a"
      "unat (heap_next a') = unat (heap_next a) + strings_size (s # ss)" "length (ptr # ptrs) = length (s # ss)"
      using rest(2,5,6,7,8) a1 by auto
    ultimately show ?thesis using rest(4) by blast
  qed
qed

lemma load_args_loop_eq:
  "load_strings room ss m va = Some (Some ptrs, m', va') \<Longrightarrow> 8 * (i + length ss) \<le> length argv \<Longrightarrow>
   load_args_loop room ss i argv m va
     = Some (Some (take (8 * i) argv @ concat (map to_le_bytes ptrs) @ drop (8 * (i + length ss)) argv), m', va')"
proof (induction ss arbitrary: m va ptrs i argv)
  case Nil
  then show ?case by simp
next
  case (Cons s ss)
  obtain ptr m1 va1 where one: "load_c_string room s m va = Some (Some ptr, m1, va1)"
    using Cons.prems(1) by (auto simp: bind_eq_Some_conv split: option.splits)
  then obtain rest where rest: "load_strings room ss m1 va1 = Some (Some rest, m', va')" "ptrs = ptr # rest"
    using Cons.prems(1) by (auto simp: bind_eq_Some_conv)
  let ?argv = "take (i * 8) argv @ to_le_bytes ptr @ drop (i * 8 + 8) argv"
  have st: "store_loop argv (i * 8) (to_le_bytes ptr) = Some ?argv"
    using Cons.prems(2) by (subst store_loop_eq) (auto simp flip: length_0_conv)
  have len: "8 * (Suc i + length ss) \<le> length ?argv" using Cons.prems(2) by simp
  have "take (8 * Suc i) ?argv = take (8 * i) argv @ to_le_bytes ptr"
    "drop (8 * (Suc i + length ss)) ?argv = drop (8 * (i + length (s # ss))) argv"
    using Cons.prems(2) by (simp_all add: mult.commute add.commute add.left_commute)
  then show ?case using Cons.IH [OF rest(1) len] one rest(2) st by simp
qed

lemma load_env_eq:
  "load_strings room (map snd vars) m va = Some (Some ptrs, m', va') \<Longrightarrow>
   load_env_into_virtual_memory room vars map0 m va = Some (Some (map0(map fst vars [\<mapsto>] ptrs)), m', va')"
proof (induction vars arbitrary: m va ptrs map0)
  case (Cons v vars)
  obtain key val where v: "v = (key, val)" by fastforce
  obtain ptr m1 va1 where one: "load_c_string room val m va = Some (Some ptr, m1, va1)"
    using Cons.prems v by (auto simp: bind_eq_Some_conv split: option.splits)
  then obtain rest where rest: "load_strings room (map snd vars) m1 va1 = Some (Some rest, m', va')" "ptrs = ptr # rest"
    using Cons.prems v by (auto simp: bind_eq_Some_conv)
  then show ?case using Cons.IH [OF rest(1)] one v by (simp add: fun_upd_def)
qed simp

section \<open>The argument vector\<close>

lemma argv_sizes:
  assumes "k < 2 ^ 50" defines "n \<equiv> of_nat k :: u64"
  shows "checked_mul n 8 = Some (n * 8)" "unat (n * 8) = 8 * k"
    "checked_mul (n * 8) 8 = Some (n * 8 * 8)" "unat (n * 8 * 8) = 64 * k"
proof -
  have u: "unat n = k" using assms by (simp add: unsigned_of_nat take_bit_nat_eq_self)
  show m8: "checked_mul n 8 = Some (n * 8)" using assms(1) u by (simp add: checked_mul_eq_Some_iff)
  then show u8: "unat (n * 8) = 8 * k" using checked_mul_unat [OF m8] u by simp
  show m64: "checked_mul (n * 8) 8 = Some (n * 8 * 8)" using assms(1) u8 by (simp add: checked_mul_eq_Some_iff)
  then show "unat (n * 8 * 8) = 64 * k" using checked_mul_unat [OF m64] u8 by simp
qed

lemma load_args_ok:
  assumes h: "heap_inv m a live" and args: "args \<noteq> []" "length args < 2 ^ 50" "\<forall>s \<in> set args. length s < 2 ^ 61" and room: "\<forall>n. room n"
    and space: "unat (heap_next a) + 64 * length args + strings_size args + 1 < unat (heap_len a)"
    and count: "length live + length args + 1 < 2 ^ 64"
  shows "\<exists>argv ptrs m' a' live'. load_args_into_virtual_memory room args (of_nat (length args)) m a = Some (Some argv, m', a')
    \<and> length ptrs = length args
    \<and> vm_map m' = vm_map m @ map2 string_region ptrs args @ [\<lparr>virtual_start = argv, backing_storage = concat (map to_le_bytes ptrs)\<rparr>]
    \<and> heap_inv m' a' live' \<and> same_space a' a \<and> length live' = length live + length args + 1
    \<and> unat (heap_next a') = unat (heap_next a) + 64 * length args + strings_size args
    \<and> (argv, of_nat (length args) * 8 * 8) \<in> set live'"
proof -
  let ?n = "of_nat (length args) :: u64"
  note m8 = argv_sizes(1) [OF args(2)] and u8 = argv_sizes(2) [OF args(2)]
    and m64 = argv_sizes(3) [OF args(2)] and u64 = argv_sizes(4) [OF args(2)]
  let ?b = "?n * 8 * 8"
  have pos: "0 < length args" using args(1) by simp
  have b: "0 < unat ?b" "unat ?b < 2 ^ 62" "unat (heap_next a) + unat ?b + 1 < unat (heap_len a)" "length live + 1 < 2 ^ 64"
    using u64 pos args(2) space count by simp_all
  show ?thesis
  proof (rule take_block [OF h b])
    fix argv a1
    assume l: "from_size_align ?b 1 = Some \<lparr>layout_size = ?b, layout_align = 1\<rparr>"
      "alloc a \<lparr>layout_size = ?b, layout_align = 1\<rparr> = Some (argv, a1)" and nz: "argv \<noteq> 0"
      and h1: "heap_inv m a1 ((argv, ?b) # live)" and a1: "same_space a1 a" "unat (heap_next a1) = unat (heap_next a) + unat ?b"
      and free: "\<forall>r \<in> set (vm_map m). heap_region a1 r \<longrightarrow> virtual_start r \<noteq> argv"
    have sp: "unat (heap_next a1) + strings_size args + 1 < unat (heap_len a1)" "length ((argv, ?b) # live) + length args < 2 ^ 64"
      using space count a1 u64 by simp_all
    from load_strings_ok [where room = room, OF h1 args(3) room sp]
    obtain ptrs m' a' live' where ls: "load_strings room args m a1 = Some (Some ptrs, m', a')" "length ptrs = length args"
      "vm_map m' = vm_map m @ map2 string_region ptrs args" "heap_inv m' a' live'" "set ((argv, ?b) # live) \<subseteq> set live'"
      "length live' = length ((argv, ?b) # live) + length args" "same_space a' a1"
      "unat (heap_next a') = unat (heap_next a1) + strings_size args"
      "\<forall>ptr \<in> set ptrs. \<forall>(q, k) \<in> set ((argv, ?b) # live). 0 < unat k \<longrightarrow> q \<noteq> ptr" by blast
    let ?v = "concat (map to_le_bytes ptrs)"
    have len: "length ?v = 8 * length args" using ls(2) by (simp add: length_concat o_def sum_list_triv)
    have loop: "load_args_loop room args 0 (replicate (unat (?n * 8)) 0) m a1 = Some (Some ?v, m', a')"
      using load_args_loop_eq [OF ls(1), of 0 "replicate (unat (?n * 8)) 0"] u8 by simp
    have heap: "heap_region a1 r" if "heap_region a' r" for r
      using that ls(7) by (simp add: heap_region_def)
    have free': "\<forall>r \<in> set (vm_map m'). heap_region a' r \<longrightarrow> virtual_start r \<noteq> argv"
      using free ls(3,9) b(1) heap by (auto dest!: set_zip_leftD)
    have v: "0 < length ?v" "length ?v \<le> unat ?b" using len pos u64 by simp_all
    have "(argv, ?b) \<in> set live'" using ls(5) by simp
    note add = add_block_region [OF ls(4) this free' v refl]
    have "load_args_into_virtual_memory room args ?n m a
      = Some (Some argv, m'\<lparr>vm_map := vm_map m' @ [\<lparr>virtual_start = argv, backing_storage = ?v\<rparr>]\<rparr>, a')"
      unfolding load_args_into_virtual_memory_def m8 m64 bind.bind_lunit l(1) option.case using room l(2) nz loop add(2) by simp
    then show ?thesis using add(3) ls(2,3,5,6,7,8) a1 u64 by (intro exI conjI) (assumption | simp)+
  qed
qed

section \<open>The new process\<close>

lemma stack_numbers: "unat PROGRAM_STACK_SIZE = 8192" "unat program_stack_start = 2 ^ 64 - 8192" "program_stack_start \<noteq> 0"
  by (simp_all add: PROGRAM_STACK_SIZE_def program_stack_start_def)

definition stack_region :: VirtRegion where
  "stack_region = \<lparr>virtual_start = program_stack_start, backing_storage = replicate (unat PROGRAM_STACK_SIZE) 0\<rparr>"

lemma stack_region_simps: "virtual_start stack_region = program_stack_start" "region_len stack_region = 8192"
  by (simp_all add: stack_region_def region_len_def stack_numbers)

lemma heap_for_ok:
  assumes "0 < unat lower" "unat lower + 8194 < 2 ^ 64"
  obtains va where "heap_for lower = Some va" "alloc_inv va []" "heap_base va = lower"
    "unat (heap_len va) = 2 ^ 64 - 8193 - unat lower" "heap_next va = 0"
proof -
  have c: "checked_add PROGRAM_STACK_SIZE lower = Some (PROGRAM_STACK_SIZE + lower)"
    using assms(2) by (simp add: checked_add_nat stack_numbers)
  have u: "unat (PROGRAM_STACK_SIZE + lower) = 8192 + unat lower" using checked_add_unat [OF c] stack_numbers by simp
  have len: "unat (- 1 - (PROGRAM_STACK_SIZE + lower)) = 2 ^ 64 - 8193 - unat lower"
  proof -
    have max: "unat (- 1 :: u64) = 2 ^ 64 - 1" by (simp add: unsigned_minus_1_eq_mask mask_eq_exp_minus_1)
    have "PROGRAM_STACK_SIZE + lower \<le> - 1" by simp
    then have "unat (- 1 - (PROGRAM_STACK_SIZE + lower)) = unat (- 1 :: u64) - unat (PROGRAM_STACK_SIZE + lower)"
      by (rule unat_sub)
    then show ?thesis unfolding max u by simp
  qed
  let ?va = "alloc_from lower (- 1 - (PROGRAM_STACK_SIZE + lower)) True"
  have "alloc_inv ?va []" by (rule alloc_inv_from) (use len assms in simp)
  then show ?thesis using that [of ?va] c len by (simp add: heap_for_def alloc_from_def)
qed

definition program_ok :: "u8 list \<Rightarrow> ElfFile \<Rightarrow> u8 list list \<Rightarrow> (string \<times> u8 list) list \<Rightarrow> bool" where
  "program_ok bs elf args env0 \<longleftrightarrow>
     instruction_set (elf_header elf) = RiscV \<and> elf_type (elf_header elf) = EXECUTABLE
     \<and> (\<forall>h \<in> set (program_headers elf). segment_type h \<noteq> KnownEnum Interp)
     \<and> loads (program_headers elf) \<noteq> [] \<and> (\<forall>h \<in> set (loads (program_headers elf)). loadable bs h)
     \<and> sorted_wrt region_disjoint (map (segment_region bs) (loads (program_headers elf)))
     \<and> args \<noteq> [] \<and> length args + length env0 < 2 ^ 50 \<and> (\<forall>s \<in> set (args @ map snd env0). length s < 2 ^ 61)
     \<and> (\<forall>h \<in> set (loads (program_headers elf)).
          unat (segment_virtual_address h) + unat (segment_virtual_size h)
            + 64 * length args + strings_size args + strings_size (map snd env0) + 8194 < 2 ^ 64)"

text \<open>The regions before the arguments: the segments and the stack, around an empty heap.\<close>

lemma program_regions:
  assumes ok: "program_ok bs elf args env0" and room: "\<forall>n. room n"
  defines "rs \<equiv> map (segment_region bs) (loads (program_headers elf))"
  obtains lower va where
    "load_elf_into_virtual_memory room (program_headers elf) bs 0 vm_new = Some (Some lower, \<lparr>vm_map = rs\<rparr>)"
    "add_region \<lparr>vm_map = rs\<rparr> program_stack_start (replicate (unat PROGRAM_STACK_SIZE) 0)
       = Some (Some (), \<lparr>vm_map = rs @ [stack_region]\<rparr>)"
    "heap_for lower = Some va" "heap_inv \<lparr>vm_map = rs @ [stack_region]\<rparr> va []" "heap_next va = 0"
    "64 * length args + strings_size args + strings_size (map snd env0) + 1 < unat (heap_len va)"
proof -
  let ?hs = "program_headers elf" and ?n = "64 * length args + strings_size args + strings_size (map snd env0)"
  have p: "\<forall>h \<in> set ?hs. segment_type h \<noteq> KnownEnum Interp" "\<forall>h \<in> set (loads ?hs). loadable bs h"
    "sorted_wrt region_disjoint rs" "loads ?hs \<noteq> []"
    and sp: "\<And>h. h \<in> set (loads ?hs) \<Longrightarrow> unat (segment_virtual_address h) + unat (segment_virtual_size h) + ?n + 8194 < 2 ^ 64"
    using ok by (auto simp: program_ok_def rs_def add.assoc)
  have new: "vm_inv vm_new" "vm_map vm_new = []" by (simp_all add: vm_new_def vm_inv_def)
  obtain lower where lo: "load_elf_into_virtual_memory room ?hs bs 0 vm_new = Some (Some lower, \<lparr>vm_map = rs\<rparr>)"
      "vm_inv \<lparr>vm_map = rs\<rparr>" "\<forall>h \<in> set (loads ?hs). unat (segment_virtual_address h) + unat (segment_virtual_size h) \<le> unat lower"
      "lower = 0 \<or> (\<exists>h \<in> set (loads ?hs). unat lower = unat (segment_virtual_address h) + unat (segment_virtual_size h))"
    using load_elf_segments [OF new(1) p(1,2) room, of 0] p(3) new(2) by (auto simp: rs_def vm_new_def)
  obtain h where "h \<in> set (loads ?hs)" "0 < unat (segment_virtual_address h)"
    using p(2,4) by (cases "loads ?hs") (auto simp: loadable_def unat_gt_0)
  then have pos: "0 < unat lower" using lo(3) by fastforce
  then obtain g where g: "g \<in> set (loads ?hs)" "unat lower = unat (segment_virtual_address g) + unat (segment_virtual_size g)"
    using lo(4) by auto
  have top: "unat lower + ?n + 8194 < 2 ^ 64" using sp [OF g(1)] g(2) by linarith
  have st: "region_ok stack_region" by (simp add: region_ok_def stack_region_simps stack_numbers)
  have apart: "\<forall>r \<in> set rs. region_disjoint r stack_region"
  proof
    fix r assume "r \<in> set rs"
    then obtain h where "h \<in> set (loads ?hs)" "r = segment_region bs h" by (auto simp: rs_def)
    then show "region_disjoint r stack_region" using sp by (fastforce simp: region_disjoint_def stack_region_simps stack_numbers)
  qed
  obtain va where va: "heap_for lower = Some va" "alloc_inv va []" "heap_base va = lower"
    "unat (heap_len va) = 2 ^ 64 - 8193 - unat lower" "heap_next va = 0"
    using heap_for_ok [OF pos] top by auto
  have "\<not> heap_region va r" if r: "r \<in> set (rs @ [stack_region])" for r
  proof (cases "r = stack_region")
    case True
    then show ?thesis using va(3,4) top by (simp add: heap_region_def stack_region_simps stack_numbers)
  next
    case False
    then obtain h where "h \<in> set (loads ?hs)" "r = segment_region bs h" using r by (auto simp: rs_def)
    then show ?thesis using lo(3) va(3) by (fastforce simp: heap_region_def)
  qed
  moreover have "vm_inv \<lparr>vm_map = rs @ [stack_region]\<rparr>" using vm_inv_snoc [OF lo(2) st] apart by simp
  ultimately have "heap_inv \<lparr>vm_map = rs @ [stack_region]\<rparr> va []" using va(2,3) pos by (auto simp: heap_inv_def)
  moreover have "add_region \<lparr>vm_map = rs\<rparr> program_stack_start (replicate (unat PROGRAM_STACK_SIZE) 0)
       = Some (Some (), \<lparr>vm_map = rs @ [stack_region]\<rparr>)"
    using add_fitting_region [OF lo(2) stack_region_def st] apart by simp
  moreover have "?n + 1 < unat (heap_len va)" using va(4) top by linarith
  ultimately show ?thesis using that lo(1) va(1,5) by blast
qed

text \<open>
  What the memory of a new program holds: each segment (the bytes of the file, then zeros), a stack of zeros
  at the top of the address space, the vector of the addresses of the arguments, and as C strings the
  arguments and the values of the environment variables.
\<close>

definition program_memory ::
  "LittleEndianVirtualMemory \<Rightarrow> u8 list \<Rightarrow> ElfFile \<Rightarrow> u8 list list \<Rightarrow> u8 list list \<Rightarrow> u64 \<Rightarrow> u64 list \<Rightarrow> u64 list \<Rightarrow> bool" where
  "program_memory m bs elf args vals argv ptrs env_ptrs \<longleftrightarrow>
     (\<forall>h \<in> set (loads (program_headers elf)).
        holds_bytes m (segment_virtual_address h) (segment_bytes (file_part bs h) (segment_virtual_size h)))
     \<and> holds_bytes m (- 8192) (replicate 8192 0)
     \<and> length ptrs = length args \<and> holds_bytes m argv (concat (map to_le_bytes ptrs))
     \<and> (\<forall>i < length args. holds_bytes m (ptrs ! i) (c_string (args ! i)))
     \<and> length env_ptrs = length vals \<and> (\<forall>i < length vals. holds_bytes m (env_ptrs ! i) (c_string (vals ! i)))"

lemma zip_region_mem:
  "i < length ss \<Longrightarrow> length ptrs = length ss \<Longrightarrow> string_region (ptrs ! i) (ss ! i) \<in> set (map2 string_region ptrs ss)"
  using nth_mem [of i "map2 string_region ptrs ss"] by simp

lemma program_loaded:
  assumes ok: "program_ok bs elf args env0" and room: "\<forall>n. room n"
  obtains lower m0 ms va argv m1 a1 m2 a2 ptrs env_ptrs live where
    "load_elf_into_virtual_memory room (program_headers elf) bs 0 vm_new = Some (Some lower, m0)"
    "add_region m0 program_stack_start (replicate (unat PROGRAM_STACK_SIZE) 0) = Some (Some (), ms)"
    "heap_for lower = Some va"
    "load_args_into_virtual_memory room args (of_nat (length args)) ms va = Some (Some argv, m1, a1)"
    "load_env_into_virtual_memory room env0 Map.empty m1 a1 = Some (Some (Map.empty(map fst env0 [\<mapsto>] env_ptrs)), m2, a2)"
    "program_memory m2 bs elf args (map snd env0) argv ptrs env_ptrs" "heap_inv m2 a2 live"
proof -
  let ?rs = "map (segment_region bs) (loads (program_headers elf))"
  have w: "args \<noteq> []" "length args < 2 ^ 50" "\<forall>s \<in> set args. length s < 2 ^ 61" "\<forall>s \<in> set (map snd env0). length s < 2 ^ 61"
    "length args + length env0 < 2 ^ 50" using ok by (auto simp: program_ok_def)
  obtain lower va where reg: "load_elf_into_virtual_memory room (program_headers elf) bs 0 vm_new = Some (Some lower, \<lparr>vm_map = ?rs\<rparr>)"
    "add_region \<lparr>vm_map = ?rs\<rparr> program_stack_start (replicate (unat PROGRAM_STACK_SIZE) 0)
       = Some (Some (), \<lparr>vm_map = ?rs @ [stack_region]\<rparr>)"
    "heap_for lower = Some va" "heap_inv \<lparr>vm_map = ?rs @ [stack_region]\<rparr> va []" "heap_next va = 0"
    "64 * length args + strings_size args + strings_size (map snd env0) + 1 < unat (heap_len va)"
    using program_regions [where room = room, OF ok room] by blast
  have sp: "unat (heap_next va) + 64 * length args + strings_size args + 1 < unat (heap_len va)" "length [] + length args + 1 < 2 ^ 64"
    using reg(5,6) w(2) by simp_all
  obtain argv ptrs m1 a1 live1 where ar: "load_args_into_virtual_memory room args (of_nat (length args)) \<lparr>vm_map = ?rs @ [stack_region]\<rparr> va
      = Some (Some argv, m1, a1)" "length ptrs = length args"
    "vm_map m1 = (?rs @ [stack_region]) @ map2 string_region ptrs args @ [\<lparr>virtual_start = argv, backing_storage = concat (map to_le_bytes ptrs)\<rparr>]"
    "heap_inv m1 a1 live1" "same_space a1 va" "length live1 = length args + 1"
    "unat (heap_next a1) = 64 * length args + strings_size args"
    using load_args_ok [where room = room, OF reg(4) w(1-3) room sp] reg(5) by auto
  have sp1: "unat (heap_next a1) + strings_size (map snd env0) + 1 < unat (heap_len a1)" "length live1 + length (map snd env0) < 2 ^ 64"
    using ar(5-7) reg(6) w(5) by simp_all
  obtain env_ptrs m2 a2 live2 where ev: "load_strings room (map snd env0) m1 a1 = Some (Some env_ptrs, m2, a2)"
    "length env_ptrs = length env0" "vm_map m2 = vm_map m1 @ map2 string_region env_ptrs (map snd env0)" "heap_inv m2 a2 live2"
    using load_strings_ok [where room = room, OF ar(4) w(4) room sp1] by auto
  have inv: "vm_inv m2" using ev(4) by (simp add: heap_inv_def)
  have maps: "holds_bytes m2 (virtual_start r) (backing_storage r)"
    if "r \<in> set ?rs \<union> {stack_region} \<union> set (map2 string_region ptrs args)
      \<union> {\<lparr>virtual_start = argv, backing_storage = concat (map to_le_bytes ptrs)\<rparr>} \<union> set (map2 string_region env_ptrs (map snd env0))" for r
    by (rule region_holds [OF inv]) (use that ev(3) ar(3) in auto)
  have "holds_bytes m2 (segment_virtual_address h) (segment_bytes (file_part bs h) (segment_virtual_size h))"
    if "h \<in> set (loads (program_headers elf))" for h using maps [of "segment_region bs h"] that by simp
  moreover have "holds_bytes m2 (- 8192) (replicate 8192 0)"
    using maps [of stack_region] by (simp add: stack_region_def program_stack_start_def PROGRAM_STACK_SIZE_def)
  moreover have "holds_bytes m2 argv (concat (map to_le_bytes ptrs))" using maps [of "\<lparr>virtual_start = argv, backing_storage = _\<rparr>"] by simp
  moreover have "holds_bytes m2 (ptrs ! i) (c_string (args ! i))" if "i < length args" for i
    using maps [of "string_region (ptrs ! i) (args ! i)"] zip_region_mem [OF that ar(2)] by simp
  moreover have "holds_bytes m2 (env_ptrs ! i) (c_string (map snd env0 ! i))" if "i < length (map snd env0)" for i
    using maps [of "string_region (env_ptrs ! i) (map snd env0 ! i)"] zip_region_mem [OF that] ev(2) by simp
  ultimately have "program_memory m2 bs elf args (map snd env0) argv ptrs env_ptrs"
    using ar(2) ev(2) by (simp add: program_memory_def)
  then show ?thesis using that reg(1-3) ar(1) load_env_eq [OF ev(1), of Map.empty] ev(4) by blast
qed


text \<open>
  The argument vector has no terminator: the words behind the pointer of the last argument, where a C
  program expects the null pointer that ends \<^verbatim>\<open>argv\<close>, are not mapped.
\<close>

theorem argv_not_terminated:
  assumes h: "heap_inv m a live" and args: "args \<noteq> []" "length args < 2 ^ 50" "\<forall>s \<in> set args. length s < 2 ^ 61" and room: "\<forall>n. room n"
    and space: "unat (heap_next a) + 64 * length args + strings_size args + 1 < unat (heap_len a)"
    and count: "length live + length args + 1 < 2 ^ 64"
  shows "\<exists>argv m' a'. load_args_into_virtual_memory room args (of_nat (length args)) m a = Some (Some argv, m', a')
    \<and> (\<forall>j. 8 * length args \<le> j \<and> j < 64 * length args \<longrightarrow> vm_byte m' (argv + of_nat j) = None)"
proof -
  let ?b = "of_nat (length args) * 8 * 8 :: u64"
  obtain argv ptrs m' a' live' where l: "load_args_into_virtual_memory room args (of_nat (length args)) m a = Some (Some argv, m', a')"
    and ptrs: "length ptrs = length args" and map': "vm_map m' = vm_map m @ map2 string_region ptrs args
      @ [\<lparr>virtual_start = argv, backing_storage = concat (map to_le_bytes ptrs)\<rparr>]"
    and h': "heap_inv m' a' live'" and live: "(argv, ?b) \<in> set live'"
    using load_args_ok [where room = room, OF assms] by blast
  let ?R = "\<lparr>virtual_start = argv, backing_storage = concat (map to_le_bytes ptrs)\<rparr>"
  have inv: "vm_inv m'" "alloc_inv a' live'" using h' by (simp_all add: heap_inv_def)
  have R: "?R \<in> set (vm_map m')" "region_len ?R = 8 * length args"
    using map' ptrs by (simp_all add: region_len_def length_concat o_def sum_list_triv)
  have b: "unat ?b = 64 * length args" by (rule argv_sizes(4) [OF args(2)])
  have "vm_byte m' (argv + of_nat j) = None" if j: "8 * length args \<le> j" "j < 64 * length args" for j
  proof (rule vm_byte_miss, rule ballI, rule notI)
    fix r assume r: "r \<in> set (vm_map m')" "contains r (argv + of_nat j)"
    have "has_addr (argv, ?b) (unat argv + j)" using j b by (simp add: has_addr_def)
    note range = live_in_heap [OF inv(2) live this]
    have "unat (heap_base a') + unat (heap_len a') \<le> 2 ^ 64" using inv(2) by (simp add: alloc_inv_def)
    then have e: "unat argv + j < 2 ^ 64" using range by linarith
    then have "unat (of_nat j :: u64) = j" by (simp add: unsigned_of_nat take_bit_nat_eq_self)
    then have u: "unat (argv + of_nat j) = unat argv + j" using e unat_add_lem [of argv "of_nat j"] by simp
    have "heap_region a' r" using r(2) range unfolding heap_region_def contains_def u by linarith
    then obtain k where k: "(virtual_start r, k) \<in> set live'" "0 < region_len r" "region_len r \<le> unat k"
      using h' r(1) by (auto simp: heap_inv_def)
    then have "has_addr (virtual_start r, k) (unat argv + j)" using r(2) u by (auto simp: has_addr_def contains_def)
    then have "virtual_start r = argv" using live_apart [OF inv(2) k(1) live] \<open>has_addr (argv, ?b) (unat argv + j)\<close> by blast
    then have "contains r argv" "contains ?R argv" using k(2) R(2) args(1) by (simp_all add: contains_def)
    then have "r = ?R" by (rule region_unique [OF inv(1) r(1) R(1)])
    then show False using r(2) R(2) u j(1) by (simp add: contains_def)
  qed
  then show ?thesis using l by blast
qed

section \<open>A small program\<close>

definition small_segment :: UniversalProgramHeader where
  "small_segment = \<lparr> segment_type = KnownEnum Load, segment_flags = 5, segment_file_offset = 16,
     segment_virtual_address = 0x10000, segment_file_size = 4, segment_virtual_size = 6 \<rparr>"

definition small_file :: "u8 list" where
  "small_file = [0x7f, 0x45, 0x4c, 0x46, 2, 2, 1] @ replicate 9 0
     @ encode BIG (elf_header_fields Width64Bit) (header_values demo_header)
     @ encode BIG (program_header_fields Width64Bit) (segment_values Width64Bit small_segment)"

abbreviation small_elf :: ElfFile where
  "small_elf \<equiv> \<lparr> elf_header = demo_header, program_headers = [small_segment] \<rparr>"

lemma small_file_facts: "from_bytes demo_decode small_file = Some (Some small_elf)" "length small_file = 112"
  by code_simp+

lemma small_program: "program_ok small_file small_elf [[0x6c, 0x73], [0x2d]] [(''PATH'', [0x2f])]"
  by (simp add: program_ok_def demo_header_def small_segment_def loads_def loadable_def small_file_facts(2))


theorem argv_not_terminated_witness:
  "\<exists>argv m' a'. load_args_into_virtual_memory (\<lambda>_. True) [[0x6c, 0x73], [0x2d]] 2 vm_new (alloc_from 0x1000 0x1000 True)
      = Some (Some argv, m', a') \<and> vm_byte m' (argv + 16) = None"
proof -
  have "alloc_inv (alloc_from 0x1000 0x1000 True) []" by (rule alloc_inv_from) simp
  then have "heap_inv vm_new (alloc_from 0x1000 0x1000 True) []"
    by (simp add: heap_inv_def vm_new_def vm_inv_def) (simp add: alloc_from_def)
  from argv_not_terminated [where room = "\<lambda>_. True" and args = "[[0x6c, 0x73], [0x2d]]", OF this] show ?thesis
    by (auto simp: alloc_from_def dest: spec [of _ 16])
qed

end
