(* ===== verification/Keyboard.thy ===== *)
theory Keyboard
  imports Prelude
begin

text \<open>
  The keyboard: keys, scan codes and the US layout (\<^verbatim>\<open>src/kernel/src/hio.rs\<close>) and the PS/2 controller
  (\<^verbatim>\<open>src/kernel/src/ps2_8042.rs\<close>). The two ports of the controller are a parameter, and so is the position
  of the flag in the status byte, which the crate \<^verbatim>\<open>packed_struct\<close> decodes. A loop that waits for the
  hardware may not end; \<open>None\<close> is then its value.
\<close>

section \<open>Keys\<close>

datatype KeyboardPacketType = KeyPressed | KeyReleased

text \<open>The keys of \<^verbatim>\<open>KeyboardKey\<close>, grouped by their kind.\<close>

datatype EditingKey =
    Escape | Delete | UpArrow | DownArrow | LeftArrow | RightArrow | Backspace | Enter | Space | Tab | Insert
    | Home | PageUp | PageDown | End | PrintScreen

datatype FunctionKey =
    F1 | F2 | F3 | F4 | F5 | F6 | F7 | F8 | F9 | F10 | F11 | F12

datatype ModifierKey =
    LeftShift | RightShift | LeftCtrl | RightCtrl | LeftSuper | RightSuper | LeftAlt | RightAlt | CapsLock |
    NumLock | ScrollLock

datatype SystemKey =
    Power | Sleep | Wake | NextTrack | PrevTrack | Stop | Play | Mute | VolUp | VolDown | MediaSelect | EMail
    | Calculator | MyComputer

datatype WWWKey =
    WWWSearch | WWWHome | WWWBack | WWWForward | WWWStop | WWWRefresh | WWWFavorites

datatype KeypadKey =
    Keypad0 | Keypad1 | Keypad2 | Keypad3 | Keypad4 | Keypad5 | Keypad6 | Keypad7 | Keypad8 | Keypad9 |
    KeypadSlash | KeypadStar | KeypadMinus | KeypadPlus | KeypadEnter | KeypadDot

datatype KeyboardKey =
    Unmapped nat nat
  | Editing EditingKey
  | Func FunctionKey
  | Modifier ModifierKey
  | System SystemKey
  | WWW WWWKey
  | Keypad KeypadKey

record KeyboardModifiers =
  left_shift :: bool
  right_shift :: bool
  left_alt :: bool
  right_alt :: bool
  left_ctrl :: bool
  right_ctrl :: bool
  caps_lock :: bool
  num_lock :: bool

record KeyboardPacket =
  packet_key :: KeyboardKey
  packet_modifiers :: KeyboardModifiers
  packet_type :: KeyboardPacketType

definition no_modifiers :: KeyboardModifiers where
  "no_modifiers = \<lparr>left_shift = False, right_shift = False, left_alt = False, right_alt = False,
     left_ctrl = False, right_ctrl = False, caps_lock = False, num_lock = False\<rparr>"

definition any_shift :: "KeyboardModifiers \<Rightarrow> bool" where
  "any_shift m \<longleftrightarrow> left_shift m \<or> right_shift m"

definition any_alt :: "KeyboardModifiers \<Rightarrow> bool" where
  "any_alt m \<longleftrightarrow> left_alt m \<or> right_alt m"

definition any_ctrl :: "KeyboardModifiers \<Rightarrow> bool" where
  "any_ctrl m \<longleftrightarrow> left_ctrl m \<or> right_alt m"

section \<open>Scan codes\<close>

text \<open>The arms of the match, in their order, extended codes included.\<close>

definition scancode_arms :: "(u32 \<times> KeyboardKey option) list" where
  "scancode_arms =
    [(0x01, Some (Editing Escape)), (0x29, Some (Unmapped 0 0)), (0x02, Some (Unmapped 0 1)),
     (0x03, Some (Unmapped 0 2)), (0x04, Some (Unmapped 0 3)), (0x05, Some (Unmapped 0 4)),
     (0x06, Some (Unmapped 0 5)), (0x07, Some (Unmapped 0 6)), (0x08, Some (Unmapped 0 7)),
     (0x09, Some (Unmapped 0 8)), (0x0A, Some (Unmapped 0 9)), (0x0B, Some (Unmapped 0 10)),
     (0x0C, Some (Unmapped 0 11)), (0x0D, Some (Unmapped 0 12)), (0x0E, Some (Editing Backspace)),
     (0x0F, Some (Editing Tab)), (0x10, Some (Unmapped 1 0)), (0x11, Some (Unmapped 1 1)),
     (0x12, Some (Unmapped 1 2)), (0x13, Some (Unmapped 1 3)), (0x14, Some (Unmapped 1 4)),
     (0x15, Some (Unmapped 1 5)), (0x16, Some (Unmapped 1 6)), (0x17, Some (Unmapped 1 7)),
     (0x18, Some (Unmapped 1 8)), (0x19, Some (Unmapped 1 9)), (0x1A, Some (Unmapped 1 10)),
     (0x1B, Some (Unmapped 1 11)), (0x2B, Some (Unmapped 1 12)), (0x1C, Some (Editing Enter)),
     (0x1D, Some (Modifier LeftCtrl)), (0x1E, Some (Unmapped 2 0)), (0x1F, Some (Unmapped 2 1)),
     (0x20, Some (Unmapped 2 2)), (0x21, Some (Unmapped 2 3)), (0x22, Some (Unmapped 2 4)),
     (0x23, Some (Unmapped 2 5)), (0x24, Some (Unmapped 2 6)), (0x25, Some (Unmapped 2 7)),
     (0x26, Some (Unmapped 2 8)), (0x27, Some (Unmapped 2 9)), (0x28, Some (Unmapped 2 10)),
     (0x2A, Some (Modifier LeftShift)), (0x2C, Some (Unmapped 3 0)), (0x2D, Some (Unmapped 3 1)),
     (0x2E, Some (Unmapped 3 2)), (0x2F, Some (Unmapped 3 3)), (0x30, Some (Unmapped 3 4)),
     (0x31, Some (Unmapped 3 5)), (0x32, Some (Unmapped 3 6)), (0x33, Some (Unmapped 3 7)),
     (0x34, Some (Unmapped 3 8)), (0x35, Some (Unmapped 3 9)), (0x36, Some (Modifier RightShift)),
     (0x37, Some (Keypad KeypadStar)), (0x38, Some (Modifier LeftAlt)), (0x39, Some (Editing Space)),
     (0x3A, Some (Modifier CapsLock)), (0x3B, Some (Func F1)), (0x3C, Some (Func F2)), (0x3D, Some (Func F3)),
     (0x3E, Some (Func F4)), (0x3F, Some (Func F5)), (0x40, Some (Func F6)), (0x41, Some (Func F7)),
     (0x42, Some (Func F8)), (0x43, Some (Func F9)), (0x44, Some (Func F10)), (0x45, Some (Modifier NumLock)),
     (0x46, Some (Modifier ScrollLock)), (0x47, Some (Keypad Keypad7)), (0x48, Some (Keypad Keypad8)),
     (0x49, Some (Keypad Keypad9)), (0x4A, Some (Keypad KeypadMinus)), (0x4B, Some (Keypad Keypad4)),
     (0x4C, Some (Keypad Keypad5)), (0x4D, Some (Keypad Keypad6)), (0x4E, Some (Keypad KeypadPlus)),
     (0x4F, Some (Keypad Keypad1)), (0x50, Some (Keypad Keypad2)), (0x51, Some (Keypad Keypad3)),
     (0x52, Some (Keypad Keypad0)), (0x53, Some (Keypad KeypadDot)), (0x54, None), (0x55, None),
     (0x57, Some (Func F11)), (0x58, Some (Func F12)), (0xE02A, Some (Editing PrintScreen)),
     (0xE037, Some (Editing PrintScreen)), (0xE035, Some (Keypad KeypadSlash)),
     (0xE038, Some (Modifier RightAlt)), (0xE047, Some (Editing Home)), (0xE048, Some (Editing UpArrow)),
     (0xE049, Some (Editing PageUp)), (0xE050, Some (Editing DownArrow)), (0xE051, Some (Editing PageDown)),
     (0xE052, Some (Editing Insert)), (0xE053, Some (Editing Delete)), (0xE05B, Some (Modifier LeftSuper)),
     (0xE05C, Some (Modifier RightSuper)), (0xE05E, Some (System Power)), (0xE05F, Some (System Sleep)),
     (0xE063, Some (System Wake)), (0xE019, Some (System NextTrack)), (0xE010, Some (System PrevTrack)),
     (0xE024, Some (System Stop)), (0xE022, Some (System Play)), (0xE020, Some (System Mute)),
     (0xE030, Some (System VolUp)), (0xE02E, Some (System VolDown)), (0xE06D, Some (System MediaSelect)),
     (0xE06C, Some (System EMail)), (0xE021, Some (System Calculator)), (0xE06B, Some (System MyComputer)),
     (0xE065, Some (WWW WWWSearch)), (0xE032, Some (WWW WWWHome)), (0xE06A, Some (WWW WWWBack)),
     (0xE069, Some (WWW WWWForward)), (0xE068, Some (WWW WWWStop)), (0xE067, Some (WWW WWWRefresh)),
     (0xE066, Some (WWW WWWFavorites))]"

definition from_scancode_in_set1 :: "u32 \<Rightarrow> KeyboardKey option" where
  "from_scancode_in_set1 code = (case map_of scancode_arms (code AND 0x7F) of Some r \<Rightarrow> r | None \<Rightarrow> None)"

definition is_scancode_in_set1_pressed :: "u32 \<Rightarrow> bool" where
  "is_scancode_in_set1_pressed code \<longleftrightarrow> code AND 0x80 = 0"

section \<open>The US layout\<close>

text \<open>The character of a key, and the one with shift; for letters caps lock inverts shift.\<close>

definition symbol_keys :: "((nat \<times> nat) \<times> char \<times> char) list" where
  "symbol_keys =
    [((0, 0), (CHR 0x60, CHR ''~'')), ((0, 1), (CHR ''1'', CHR ''!'')), ((0, 2), (CHR ''2'', CHR ''@'')),
     ((0, 3), (CHR ''3'', CHR ''#'')), ((0, 4), (CHR ''4'', CHR ''$'')), ((0, 5), (CHR ''5'', CHR ''%'')),
     ((0, 6), (CHR ''6'', CHR ''^'')), ((0, 7), (CHR ''7'', CHR ''&'')), ((0, 8), (CHR ''8'', CHR ''*'')),
     ((0, 9), (CHR ''9'', CHR ''('')), ((0, 10), (CHR ''0'', CHR '')'')), ((0, 11), (CHR ''-'', CHR ''_'')),
     ((0, 12), (CHR ''='', CHR ''+'')), ((1, 10), (CHR ''['', CHR ''{'')), ((1, 11), (CHR '']'', CHR ''}'')),
     ((1, 12), (CHR 0x5C, CHR ''|'')), ((2, 9), (CHR '';'', CHR '':'')), ((2, 10), (CHR 0x27, CHR 0x22)),
     ((3, 7), (CHR '','', CHR ''<'')), ((3, 8), (CHR ''.'', CHR ''>'')), ((3, 9), (CHR ''/'', CHR ''?''))]"

definition letter_keys :: "((nat \<times> nat) \<times> char \<times> char) list" where
  "letter_keys =
    [((1, 0), (CHR ''q'', CHR ''Q'')), ((1, 1), (CHR ''w'', CHR ''W'')), ((1, 2), (CHR ''e'', CHR ''E'')),
     ((1, 3), (CHR ''r'', CHR ''R'')), ((1, 4), (CHR ''t'', CHR ''T'')), ((1, 5), (CHR ''y'', CHR ''Y'')),
     ((1, 6), (CHR ''u'', CHR ''U'')), ((1, 7), (CHR ''i'', CHR ''I'')), ((1, 8), (CHR ''o'', CHR ''O'')),
     ((1, 9), (CHR ''p'', CHR ''P'')), ((2, 0), (CHR ''a'', CHR ''A'')), ((2, 1), (CHR ''s'', CHR ''S'')),
     ((2, 2), (CHR ''d'', CHR ''D'')), ((2, 3), (CHR ''f'', CHR ''F'')), ((2, 4), (CHR ''g'', CHR ''G'')),
     ((2, 5), (CHR ''h'', CHR ''H'')), ((2, 6), (CHR ''j'', CHR ''J'')), ((2, 7), (CHR ''k'', CHR ''K'')),
     ((2, 8), (CHR ''l'', CHR ''L'')), ((3, 0), (CHR ''z'', CHR ''Z'')), ((3, 1), (CHR ''x'', CHR ''X'')),
     ((3, 2), (CHR ''c'', CHR ''C'')), ((3, 3), (CHR ''v'', CHR ''V'')), ((3, 4), (CHR ''b'', CHR ''B'')),
     ((3, 5), (CHR ''n'', CHR ''N'')), ((3, 6), (CHR ''m'', CHR ''M''))]"

definition parse_key :: "KeyboardKey \<Rightarrow> KeyboardModifiers \<Rightarrow> KeyboardKey + char" where
  "parse_key key modifiers = (case key of
     Unmapped row column \<Rightarrow>
       (case map_of symbol_keys (row, column) of
          Some (plain, shifted) \<Rightarrow> Inr (if any_shift modifiers then shifted else plain)
        | None \<Rightarrow> (case map_of letter_keys (row, column) of
            Some (plain, shifted) \<Rightarrow> Inr (if any_shift modifiers \<noteq> caps_lock modifiers then shifted else plain)
          | None \<Rightarrow> Inl key))
   | Editing Space \<Rightarrow> Inr CHR '' ''
   | Editing Tab \<Rightarrow> Inr CHR 0x09
   | Editing Enter \<Rightarrow> Inr CHR 0x0A
   | _ \<Rightarrow> Inl key)"

section \<open>The controller\<close>

record 'h ps2_ports =
  read_status :: "'h \<Rightarrow> u8 \<times> 'h"
  read_data :: "'h \<Rightarrow> u8 \<times> 'h"
  is_output_buf_full :: "u8 \<Rightarrow> bool"

record 'h PS2Device =
  hardware :: 'h
  active_modifiers :: KeyboardModifiers

definition try_read_byte :: "'h ps2_ports \<Rightarrow> 'h \<Rightarrow> u8 option \<times> 'h" where
  "try_read_byte ports h = (let (status, h) = read_status ports h in
     if \<not> is_output_buf_full ports status then (None, h)
     else let (byte, h) = read_data ports h in (Some byte, h))"

partial_function (option) read_byte :: "'h ps2_ports \<Rightarrow> 'h \<Rightarrow> (u8 \<times> 'h) option" where
  "read_byte ports h = (case try_read_byte ports h of
     (Some byte, h) \<Rightarrow> Some (byte, h)
   | (None, h) \<Rightarrow> read_byte ports h)"

definition read_scancode :: "'h ps2_ports \<Rightarrow> 'h \<Rightarrow> (u32 option \<times> 'h) option" where
  "read_scancode ports h = (case try_read_byte ports h of
     (None, h) \<Rightarrow> Some (None, h)
   | (Some byte, h) \<Rightarrow>
       if byte = 0xE0 then do {
         (byte, h) \<leftarrow> read_byte ports h;
         if byte = 0xF0 then do {
           (byte, h) \<leftarrow> read_byte ports h;
           Some (Some (push_bit 16 0xE0 OR push_bit 8 0xF0 OR ucast byte), h) }
         else Some (Some (push_bit 8 0xE0 OR ucast byte), h) }
       else if byte = 0xF0 then do {
         (byte, h) \<leftarrow> read_byte ports h;
         Some (Some (push_bit 8 0xF0 OR ucast byte), h) }
       else Some (Some (ucast byte), h))"

definition change_modifiers :: "KeyboardKey \<Rightarrow> KeyboardPacketType \<Rightarrow> KeyboardModifiers \<Rightarrow> KeyboardModifiers" where
  "change_modifiers key t m = (
     if key = Modifier LeftShift then m\<lparr>left_shift := t = KeyPressed\<rparr>
     else if key = Modifier RightShift then m\<lparr>right_shift := t = KeyPressed\<rparr>
     else if key = Modifier LeftCtrl then m\<lparr>left_ctrl := t = KeyPressed\<rparr>
     else if key = Modifier RightCtrl then m\<lparr>right_ctrl := t = KeyPressed\<rparr>
     else if key = Modifier LeftAlt then m\<lparr>left_alt := t = KeyPressed\<rparr>
     else if key = Modifier RightAlt then m\<lparr>right_alt := t = KeyPressed\<rparr>
     else if key = Modifier CapsLock \<and> t = KeyPressed then m\<lparr>caps_lock := \<not> caps_lock m\<rparr>
     else m)"

definition packet_for :: "u32 \<Rightarrow> KeyboardModifiers \<Rightarrow> KeyboardPacket option" where
  "packet_for scancode m = do {
     key \<leftarrow> from_scancode_in_set1 scancode;
     let t = (if is_scancode_in_set1_pressed scancode then KeyPressed else KeyReleased);
     Some \<lparr>packet_key = key, packet_modifiers = change_modifiers key t m, packet_type = t\<rparr> }"

definition try_read_packet :: "'h ps2_ports \<Rightarrow> 'h PS2Device \<Rightarrow> (KeyboardPacket option \<times> 'h PS2Device) option" where
  "try_read_packet ports dev = do {
     (scancode, h) \<leftarrow> read_scancode ports (hardware dev);
     let dev = dev\<lparr>hardware := h\<rparr>;
     (case scancode of
        None \<Rightarrow> Some (None, dev)
      | Some scancode \<Rightarrow> (case packet_for scancode (active_modifiers dev) of
          None \<Rightarrow> Some (None, dev)
        | Some packet \<Rightarrow> Some (Some packet, dev\<lparr>active_modifiers := packet_modifiers packet\<rparr>))) }"

partial_function (option) read_packet :: "'h ps2_ports \<Rightarrow> 'h PS2Device \<Rightarrow> (KeyboardPacket \<times> 'h PS2Device) option" where
  "read_packet ports dev = do {
     (packet, dev) \<leftarrow> try_read_packet ports dev;
     (case packet of Some packet \<Rightarrow> Some (packet, dev) | None \<Rightarrow> read_packet ports dev) }"

section \<open>Decoding\<close>

definition seven_bit_key :: "KeyboardKey \<Rightarrow> bool" where
  "seven_bit_key key = (case key of
     Unmapped _ _ \<Rightarrow> True
   | Editing k \<Rightarrow> k = Escape \<or> k = Backspace \<or> k = Tab \<or> k = Enter \<or> k = Space
   | Func _ \<Rightarrow> True
   | Modifier k \<Rightarrow> k \<noteq> RightCtrl \<and> k \<noteq> RightAlt \<and> k \<noteq> LeftSuper \<and> k \<noteq> RightSuper
   | System _ \<Rightarrow> False
   | WWW _ \<Rightarrow> False
   | Keypad k \<Rightarrow> k \<noteq> KeypadSlash \<and> k \<noteq> KeypadEnter)"

lemma scancode_arms_split:
  "list_all (\<lambda>(arm, key). case key of None \<Rightarrow> True | Some key \<Rightarrow> seven_bit_key key = (arm < 0x80)) scancode_arms"
  by code_simp

text \<open>
  (C40) The extended scan codes are never decoded: the code is cut to its low seven bits before the match, so
  no key of an arm above \<^verbatim>\<open>0x7F\<close> (arrows, right alt, print screen, the media keys) is ever the result.
\<close>

theorem extended_keys_unreachable:
  assumes "(arm, Some key) \<in> set scancode_arms" "0x80 \<le> arm"
  shows "from_scancode_in_set1 code \<noteq> Some key"
proof
  assume "from_scancode_in_set1 code = Some key"
  then have m: "(code AND 0x7F, Some key) \<in> set scancode_arms"
    by (auto simp: from_scancode_in_set1_def split: option.splits dest: map_of_SomeD)
  have "unat (code AND 0x7F) \<le> unat (0x7F :: u32)" using word_and_le1 [of code "0x7F"] by (simp only: word_le_nat_alt)
  then have low: "code AND 0x7F < 0x80" by (simp add: word_less_nat_alt)
  have "seven_bit_key key = (a < 0x80)" if "(a, Some key) \<in> set scancode_arms" for a
    using scancode_arms_split that by (auto simp: list_all_iff)
  from this [OF m] this [OF assms(1)] low assms(2) show False by simp
qed

theorem extended_keys_unreachable_witness:
  "from_scancode_in_set1 0xE048 \<noteq> Some (Editing UpArrow)"
proof -
  have "(0xE048, Some (Editing UpArrow)) \<in> set scancode_arms" by (simp add: scancode_arms_def)
  then show ?thesis by (rule extended_keys_unreachable) simp
qed

definition printable :: "char \<Rightarrow> bool" where
  "printable c \<longleftrightarrow> of_char c \<in> {32 ..< 127 :: nat}"

lemma layout_keys_distinct: "distinct (map fst (symbol_keys @ letter_keys))"
  by code_simp

lemma layout_chars:
  "set (map char_of [33 ..< 127 :: nat]) \<subseteq> set (concat (map (\<lambda>(_, plain, shifted). [plain, shifted]) (symbol_keys @ letter_keys)))"
  by code_simp

text \<open>
  The US layout covers the printable characters: each has a key that gives it, alone or with shift.
\<close>

theorem layout_types_printable:
  assumes "printable c"
  shows "\<exists>key shift. parse_key key (no_modifiers\<lparr>left_shift := shift\<rparr>) = Inr c"
proof (cases "c = CHR '' ''")
  case True
  then show ?thesis by (intro exI [of _ "Editing Space"]) (simp add: parse_key_def)
next
  case False
  then have "of_char c \<noteq> (of_char CHR '' '' :: nat)" by (simp only: of_char_eq_iff not_False_eq_True)
  then have "of_char c \<in> {33 ..< 127 :: nat}" using assms by (simp add: printable_def)
  then have "char_of (of_char c :: nat) \<in> set (map char_of [33 ..< 127 :: nat])" by (simp only: set_map set_upt imageI)
  then have "c \<in> set (map char_of [33 ..< 127 :: nat])" by (simp only: char_of_char)
  then have "c \<in> set (concat (map (\<lambda>(_, plain, shifted). [plain, shifted]) (symbol_keys @ letter_keys)))" using layout_chars by (rule rev_subsetD)
  then obtain e0 where e0: "e0 \<in> set (symbol_keys @ letter_keys)" "c \<in> set ((\<lambda>(_, plain, shifted). [plain, shifted]) e0)"
    unfolding set_concat set_map by blast
  obtain rc plain shifted where "e0 = (rc, plain, shifted)" by (cases e0)
  then have e: "(rc, plain, shifted) \<in> set (symbol_keys @ letter_keys)" "c = plain \<or> c = shifted" using e0 by simp_all
  obtain row col where rc: "rc = (row, col)" by fastforce
  have d: "distinct (map fst symbol_keys)" "distinct (map fst letter_keys)" "set (map fst symbol_keys) \<inter> set (map fst letter_keys) = {}"
    using layout_keys_distinct by auto
  have "map_of symbol_keys rc = Some (plain, shifted) \<or> map_of symbol_keys rc = None \<and> map_of letter_keys rc = Some (plain, shifted)"
  proof (cases "(rc, plain, shifted) \<in> set symbol_keys")
    case True
    then show ?thesis using d(1) by simp
  next
    case f: False
    then have l: "(rc, plain, shifted) \<in> set letter_keys" using e(1) by simp
    then have "rc \<notin> fst ` set symbol_keys" using d(3) by force
    then show ?thesis using d(2) l by (simp add: map_of_eq_None_iff)
  qed
  then show ?thesis using e(2) rc
    by (intro exI [of _ "Unmapped row col"] exI [of _ "c \<noteq> plain"]) (auto simp: parse_key_def any_shift_def no_modifiers_def)
qed

theorem layout_types_printable_witness:
  "\<exists>key shift. parse_key key (no_modifiers\<lparr>left_shift := shift\<rparr>) = Inr CHR ''A''"
  by (rule layout_types_printable) (simp add: printable_def)

section \<open>Reading packets\<close>

text \<open>The controller has the given bytes to deliver: its status says so before each of them.\<close>

primrec delivers :: "'h ps2_ports \<Rightarrow> 'h \<Rightarrow> u8 list \<Rightarrow> bool" where
  "delivers ports h [] = True"
| "delivers ports h (b # bs) = (case read_status ports h of (status, h) \<Rightarrow>
     is_output_buf_full ports status \<and> (case read_data ports h of (byte, h) \<Rightarrow> byte = b \<and> delivers ports h bs))"

lemma try_read_byte_delivers:
  assumes "delivers ports h (b # bs)"
  obtains h' where "try_read_byte ports h = (Some b, h')" "delivers ports h' bs"
  using assms by (auto simp: try_read_byte_def split: prod.splits)

lemma read_byte_delivers:
  assumes "delivers ports h (b # bs)"
  obtains h' where "read_byte ports h = Some (b, h')" "delivers ports h' bs"
  using try_read_byte_delivers [OF assms] by (metis (mono_tags, lifting) read_byte.simps case_prod_conv option.simps(5))

definition plain_code :: "u8 \<Rightarrow> bool" where
  "plain_code b \<longleftrightarrow> b \<noteq> 0xE0 \<and> b \<noteq> 0xF0"

lemma try_read_packet_delivers:
  assumes "delivers ports h (b # bs)" "plain_code b"
  obtains h' where "delivers ports h' bs" "try_read_packet ports \<lparr>hardware = h, active_modifiers = m\<rparr>
    = Some (case packet_for (ucast b) m of
        None \<Rightarrow> (None, \<lparr>hardware = h', active_modifiers = m\<rparr>)
      | Some p \<Rightarrow> (Some p, \<lparr>hardware = h', active_modifiers = packet_modifiers p\<rparr>))"
proof -
  obtain h' where h: "try_read_byte ports h = (Some b, h')" "delivers ports h' bs" by (rule try_read_byte_delivers [OF assms(1)])
  then have "read_scancode ports h = Some (Some (ucast b), h')" using assms(2) by (simp add: read_scancode_def plain_code_def)
  then show ?thesis using that [OF h(2)] by (simp add: try_read_packet_def split: option.split)
qed

text \<open>The packets of a sequence of one-byte scan codes: bytes that no key has are skipped.\<close>

fun packets :: "u8 list \<Rightarrow> KeyboardModifiers \<Rightarrow> KeyboardPacket list" where
  "packets [] m = []"
| "packets (b # bs) m = (case packet_for (ucast b) m of
     None \<Rightarrow> packets bs m
   | Some p \<Rightarrow> p # packets bs (packet_modifiers p))"

lemma read_packet_delivers:
  "delivers ports h bs \<Longrightarrow> list_all plain_code bs \<Longrightarrow> packets bs m = p # ps \<Longrightarrow>
   \<exists>h' bs'. read_packet ports \<lparr>hardware = h, active_modifiers = m\<rparr> = Some (p, \<lparr>hardware = h', active_modifiers = packet_modifiers p\<rparr>)
     \<and> delivers ports h' bs' \<and> list_all plain_code bs' \<and> packets bs' (packet_modifiers p) = ps"
proof (induction bs arbitrary: h)
  case (Cons b bs)
  obtain h' where h': "delivers ports h' bs" "try_read_packet ports \<lparr>hardware = h, active_modifiers = m\<rparr>
    = Some (case packet_for (ucast b) m of
        None \<Rightarrow> (None, \<lparr>hardware = h', active_modifiers = m\<rparr>)
      | Some p \<Rightarrow> (Some p, \<lparr>hardware = h', active_modifiers = packet_modifiers p\<rparr>))"
    using try_read_packet_delivers [OF Cons.prems(1)] Cons.prems(2) by auto
  show ?case
  proof (cases "packet_for (ucast b) m")
    case None
    then have "read_packet ports \<lparr>hardware = h, active_modifiers = m\<rparr> = read_packet ports \<lparr>hardware = h', active_modifiers = m\<rparr>"
      using h'(2) by (subst read_packet.simps) simp
    then show ?thesis using Cons.IH [OF h'(1)] Cons.prems(2,3) None by simp
  next
    case (Some q)
    then have "read_packet ports \<lparr>hardware = h, active_modifiers = m\<rparr> = Some (q, \<lparr>hardware = h', active_modifiers = packet_modifiers q\<rparr>)"
      using h'(2) by (subst read_packet.simps) simp
    then show ?thesis using h'(1) Cons.prems(2,3) Some by auto
  qed
qed simp

end
