(* ===== verification/Terminal.thy ===== *)
theory Terminal
  imports Keyboard Utf8
begin

text \<open>
  The terminal (\<^verbatim>\<open>src/kernel/src/terminal.rs\<close>) on the characters of a frame buffer
  (\<^verbatim>\<open>src/kernel/src/char_device.rs\<close>), with the line that is typed on the keyboard.

  A frame buffer is a trait object: its size and its pixels are a parameter, and so is the table of the
  font. A \<^verbatim>\<open>char\<close> is its scalar value. \<open>None\<close> is a panic.
\<close>

section \<open>Characters on a frame buffer\<close>

record Pixel =
  pixel_r :: u8
  pixel_g :: u8
  pixel_b :: u8

record 'b frame_buffer =
  get_width :: "'b \<Rightarrow> u64"
  get_height :: "'b \<Rightarrow> u64"
  set_pixel :: "'b \<Rightarrow> u64 \<Rightarrow> u64 \<Rightarrow> Pixel \<Rightarrow> 'b option"
  FONT_8X16 :: "u8 list"

definition black :: Pixel where
  "black = \<lparr>pixel_r = 0, pixel_g = 0, pixel_b = 0\<rparr>"

definition get_rows :: "'b frame_buffer \<Rightarrow> 'b \<Rightarrow> u64" where
  "get_rows ops fb = get_height ops fb div 16"

definition get_cols :: "'b frame_buffer \<Rightarrow> 'b \<Rightarrow> u64" where
  "get_cols ops fb = get_width ops fb div 8"

primrec draw_line :: "'b frame_buffer \<Rightarrow> nat list \<Rightarrow> u64 \<Rightarrow> u64 \<Rightarrow> u8 \<Rightarrow> Pixel \<Rightarrow> 'b \<Rightarrow> 'b option" where
  "draw_line ops [] x i line color fb = Some fb"
| "draw_line ops (j # js) x i line color fb = do {
     fb \<leftarrow> set_pixel ops fb (x + of_nat j) i (if line AND push_bit (7 - j) 1 \<noteq> 0 then color else black);
     draw_line ops js x i line color fb }"

primrec draw_lines :: "'b frame_buffer \<Rightarrow> nat list \<Rightarrow> u64 \<Rightarrow> u64 \<Rightarrow> u8 \<Rightarrow> Pixel \<Rightarrow> 'b \<Rightarrow> 'b option" where
  "draw_lines ops [] x y c color fb = Some fb"
| "draw_lines ops (i # is) x y c color fb = do {
     line \<leftarrow> index (FONT_8X16 ops) (unat c * 16 + i);
     fb \<leftarrow> draw_line ops [0..<8] x (y + of_nat i) line color fb;
     draw_lines ops is x y c color fb }"

text \<open>The end of the ranges \<^verbatim>\<open>y..y + 16\<close> and \<^verbatim>\<open>x..x + 8\<close> is checked for overflow like the products.\<close>

definition fb_write_char ::
  "'b frame_buffer \<Rightarrow> 'b \<Rightarrow> u64 \<Rightarrow> u64 \<Rightarrow> u32 \<Rightarrow> Pixel \<Rightarrow> (unit option \<times> 'b) option" where
  "fb_write_char ops fb x y c color =
     (if 0x80 \<le> c then Some (None, fb)
      else do {
        x \<leftarrow> checked_mul x 8;
        y \<leftarrow> checked_mul y 16;
        _ \<leftarrow> checked_add y 16;
        _ \<leftarrow> checked_add x 8;
        fb \<leftarrow> draw_lines ops [0..<16] x y (ucast c) color fb;
        Some (Some (), fb) })"

section \<open>The terminal\<close>

record 'b Terminal =
  fb :: 'b
  cursor_x :: u64
  cursor_y :: u64
  cursor_char :: u32
  color :: Pixel
  line_buffer :: "u32 list"

definition terminal_new :: "'b \<Rightarrow> Pixel \<Rightarrow> 'b Terminal" where
  "terminal_new b col = \<lparr>fb = b, cursor_x = 0, cursor_y = 0, cursor_char = 0x20, color = col, line_buffer = []\<rparr>"

definition put_char :: "'b frame_buffer \<Rightarrow> 'b Terminal \<Rightarrow> u64 \<Rightarrow> u64 \<Rightarrow> u32 \<Rightarrow> 'b Terminal option" where
  "put_char ops t x y c = map_option (\<lambda>(_, b). t\<lparr>fb := b\<rparr>) (fb_write_char ops (fb t) x y c (color t))"

primrec clear_row :: "'b frame_buffer \<Rightarrow> nat list \<Rightarrow> 'b Terminal \<Rightarrow> 'b Terminal option" where
  "clear_row ops [] t = Some t"
| "clear_row ops (x # xs) t = do {
     t \<leftarrow> put_char ops t (of_nat x) (cursor_y t) 0x20;
     clear_row ops xs t }"

definition clear_line :: "'b frame_buffer \<Rightarrow> 'b Terminal \<Rightarrow> 'b Terminal option" where
  "clear_line ops t = clear_row ops [0..<unat (get_cols ops (fb t))] t"

primrec clear_pixels :: "'b frame_buffer \<Rightarrow> (nat \<times> nat) list \<Rightarrow> 'b \<Rightarrow> 'b option" where
  "clear_pixels ops [] b = Some b"
| "clear_pixels ops (p # ps) b = do {
     b \<leftarrow> set_pixel ops b (of_nat (snd p)) (of_nat (fst p)) black;
     clear_pixels ops ps b }"

definition terminal_clear :: "'b frame_buffer \<Rightarrow> 'b Terminal \<Rightarrow> 'b Terminal option" where
  "terminal_clear ops t = do {
     b \<leftarrow> clear_pixels ops (List.product [0..<unat (get_height ops (fb t))] [0..<unat (get_width ops (fb t))]) (fb t);
     Some (t\<lparr>fb := b, cursor_x := 0, cursor_y := 0\<rparr>) }"

definition cursor_up :: "'b Terminal \<Rightarrow> 'b Terminal" where
  "cursor_up t = (if cursor_y t = 0 then t else t\<lparr>cursor_y := cursor_y t - 1\<rparr>)"

definition cursor_down :: "'b frame_buffer \<Rightarrow> 'b Terminal \<Rightarrow> 'b Terminal option" where
  "cursor_down ops t = do {
     last_row \<leftarrow> checked_sub (get_rows ops (fb t)) 1;
     Some (if cursor_y t \<ge> last_row then t\<lparr>cursor_y := 0\<rparr> else t\<lparr>cursor_y := cursor_y t + 1\<rparr>) }"

definition cursor_right :: "'b frame_buffer \<Rightarrow> 'b Terminal \<Rightarrow> 'b Terminal option" where
  "cursor_right ops t = do {
     last_col \<leftarrow> checked_sub (get_cols ops (fb t)) 1;
     if cursor_x t \<ge> last_col then do {
       t \<leftarrow> cursor_down ops (t\<lparr>cursor_x := 0\<rparr>);
       clear_line ops t }
     else Some (t\<lparr>cursor_x := cursor_x t + 1\<rparr>) }"

definition cursor_left :: "'b Terminal \<Rightarrow> 'b Terminal" where
  "cursor_left t = (if cursor_x t = 0 then t else t\<lparr>cursor_x := cursor_x t - 1\<rparr>)"

definition update_visual_cursor :: "'b frame_buffer \<Rightarrow> 'b Terminal \<Rightarrow> 'b Terminal option" where
  "update_visual_cursor ops t = put_char ops t (cursor_x t) (cursor_y t) 0x5F"

definition erase_visual_cursor :: "'b frame_buffer \<Rightarrow> 'b Terminal \<Rightarrow> 'b Terminal option" where
  "erase_visual_cursor ops t = put_char ops t (cursor_x t) (cursor_y t) (cursor_char t)"

definition visual :: "'b frame_buffer \<Rightarrow> ('b Terminal \<Rightarrow> 'b Terminal option) \<Rightarrow> 'b Terminal \<Rightarrow> 'b Terminal option" where
  "visual ops move t = do {
     t \<leftarrow> erase_visual_cursor ops t;
     t \<leftarrow> move t;
     update_visual_cursor ops t }"

definition visual_cursor_up :: "'b frame_buffer \<Rightarrow> 'b Terminal \<Rightarrow> 'b Terminal option" where
  "visual_cursor_up ops = visual ops (\<lambda>t. Some (cursor_up t))"

definition visual_cursor_left :: "'b frame_buffer \<Rightarrow> 'b Terminal \<Rightarrow> 'b Terminal option" where
  "visual_cursor_left ops = visual ops (\<lambda>t. Some (cursor_left t))"

definition visual_cursor_right :: "'b frame_buffer \<Rightarrow> 'b Terminal \<Rightarrow> 'b Terminal option" where
  "visual_cursor_right ops = visual ops (cursor_right ops)"

definition visual_cursor_down :: "'b frame_buffer \<Rightarrow> 'b Terminal \<Rightarrow> 'b Terminal option" where
  "visual_cursor_down ops = visual ops (cursor_down ops)"

definition new_line :: "'b frame_buffer \<Rightarrow> 'b Terminal \<Rightarrow> 'b Terminal option" where
  "new_line ops t = do {
     t \<leftarrow> cursor_down ops t;
     t \<leftarrow> clear_line ops t;
     Some (t\<lparr>cursor_x := 0\<rparr>) }"

definition terminal_write_char :: "'b frame_buffer \<Rightarrow> 'b Terminal \<Rightarrow> u32 \<Rightarrow> 'b Terminal option" where
  "terminal_write_char ops t c = do {
     t \<leftarrow> erase_visual_cursor ops t;
     t \<leftarrow> (if c = 0x0A then new_line ops t
       else do {
         t \<leftarrow> put_char ops t (cursor_x t) (cursor_y t) c;
         cursor_right ops t });
     update_visual_cursor ops t }"

primrec write_chars :: "'b frame_buffer \<Rightarrow> u32 list \<Rightarrow> 'b Terminal \<Rightarrow> 'b Terminal option" where
  "write_chars ops [] t = Some t"
| "write_chars ops (c # cs) t = do { t \<leftarrow> terminal_write_char ops t c; write_chars ops cs t }"

definition write_str :: "'b frame_buffer \<Rightarrow> 'b Terminal \<Rightarrow> u8 list \<Rightarrow> 'b Terminal option" where
  "write_str ops t s = write_chars ops (chars s) t"

definition read_char :: "'b Terminal \<Rightarrow> u32 option \<times> 'b Terminal" where
  "read_char t =
     (if 0x0A \<in> set (line_buffer t) then (Some (hd (line_buffer t)), t\<lparr>line_buffer := tl (line_buffer t)\<rparr>)
      else (None, t))"

definition recive_key :: "'b frame_buffer \<Rightarrow> 'b Terminal \<Rightarrow> KeyboardKey \<Rightarrow> KeyboardModifiers \<Rightarrow> 'b Terminal option" where
  "recive_key ops t key modifiers = do {
     t \<leftarrow> erase_visual_cursor ops t;
     if key = Editing Enter then do {
       t \<leftarrow> new_line ops (t\<lparr>line_buffer := line_buffer t @ [0x0A]\<rparr>);
       update_visual_cursor ops t }
     else if key = Editing Backspace then (
       let t = cursor_left t;
           popped = (if line_buffer t = [] then None else Some (last (line_buffer t)));
           t = t\<lparr>line_buffer := butlast (line_buffer t)\<rparr>;
           t = (if popped = Some 0x0A then t\<lparr>line_buffer := line_buffer t @ [0x0A]\<rparr> else t)
       in update_visual_cursor ops t)
     else (case parse_key key modifiers of
         Inl _ \<Rightarrow> Some t
       | Inr c \<Rightarrow> do {
           t \<leftarrow> put_char ops (t\<lparr>line_buffer := line_buffer t @ [of_char c]\<rparr>) (cursor_x t) (cursor_y t) (of_char c);
           t \<leftarrow> cursor_right ops t;
           update_visual_cursor ops t }) }"

section \<open>Standard input\<close>

text \<open>
  The loop of \<^verbatim>\<open>read\<close> on the standard input (\<^verbatim>\<open>src/kernel/src/syscall.rs\<close>): packets from the keyboard go to
  the terminal until a line is complete.
\<close>

partial_function (option) stdin_loop ::
  "'b frame_buffer \<Rightarrow> 'h ps2_ports \<Rightarrow> 'b Terminal \<Rightarrow> 'h PS2Device \<Rightarrow> (u32 \<times> 'b Terminal \<times> 'h PS2Device) option" where
  "stdin_loop ops ports t dev = do {
     (packet, dev) \<leftarrow> read_packet ports dev;
     if packet_type packet = KeyReleased then stdin_loop ops ports t dev
     else do {
       t \<leftarrow> recive_key ops t (packet_key packet) (packet_modifiers packet);
       (case read_char t of
          (Some c, t) \<Rightarrow> Some (c, t, dev)
        | (None, t) \<Rightarrow> stdin_loop ops ports t dev) } }"

definition read_stdin ::
  "'b frame_buffer \<Rightarrow> 'h ps2_ports \<Rightarrow> 'b Terminal \<Rightarrow> 'h PS2Device \<Rightarrow> (u32 \<times> 'b Terminal \<times> 'h PS2Device) option" where
  "read_stdin ops ports t dev = (case read_char t of
     (Some c, t) \<Rightarrow> Some (c, t, dev)
   | (None, t) \<Rightarrow> stdin_loop ops ports t dev)"

section \<open>Drawing inside of the screen\<close>

text \<open>
  What the terminal needs of a frame buffer: pixels inside of its size can be set, which keeps the size,
  and the font has a glyph for each ASCII character.
\<close>

definition frame_buffer_ok :: "'b frame_buffer \<Rightarrow> bool" where
  "frame_buffer_ok ops \<longleftrightarrow> length (FONT_8X16 ops) = 4096 \<and>
     (\<forall>b x y p. x < get_width ops b \<longrightarrow> y < get_height ops b \<longrightarrow>
        (\<exists>b'. set_pixel ops b x y p = Some b' \<and> get_width ops b' = get_width ops b \<and> get_height ops b' = get_height ops b))"

definition same_size :: "'b frame_buffer \<Rightarrow> 'b \<Rightarrow> 'b \<Rightarrow> bool" where
  "same_size ops b b' \<longleftrightarrow> get_width ops b' = get_width ops b \<and> get_height ops b' = get_height ops b"

lemma same_size_rows: "same_size ops b b' \<Longrightarrow> get_rows ops b' = get_rows ops b \<and> get_cols ops b' = get_cols ops b"
  by (simp add: same_size_def get_rows_def get_cols_def)

lemma pixel_inside:
  assumes "unat x + 8 \<le> unat (get_width ops b)" "j < 8"
  shows "x + of_nat j < get_width ops b"
proof -
  have "unat x + j < 2 ^ 64" using assms unsigned_less [of "get_width ops b", where ?'a = nat] by simp
  moreover have "unat (of_nat j :: u64) = j" using assms(2) by (simp add: unsigned_of_nat take_bit_nat_eq_self)
  ultimately have "unat (x + of_nat j) = unat x + j" using unat_add_lem [of x "of_nat j"] by simp
  then show ?thesis using assms by (simp add: word_less_nat_alt)
qed

lemma draw_line_ok:
  "frame_buffer_ok ops \<Longrightarrow> unat x + 8 \<le> unat (get_width ops b) \<Longrightarrow> i < get_height ops b \<Longrightarrow> \<forall>j \<in> set js. j < 8 \<Longrightarrow>
   \<exists>b'. draw_line ops js x i line col b = Some b' \<and> same_size ops b b'"
proof (induction js arbitrary: b)
  case (Cons j js)
  let ?p = "if line AND push_bit (7 - j) 1 \<noteq> 0 then col else black"
  have "x + of_nat j < get_width ops b" using pixel_inside [OF Cons.prems(2)] Cons.prems(4) by simp
  then obtain b1 where b1: "set_pixel ops b (x + of_nat j) i ?p = Some b1" "same_size ops b b1"
    using Cons.prems(1,3) unfolding frame_buffer_ok_def same_size_def by blast
  then show ?case using Cons.IH [of b1] Cons.prems by (auto simp: same_size_def)
qed (simp add: same_size_def)

lemma row_inside:
  assumes "unat y + 16 \<le> unat (get_height ops b)" "i < 16"
  shows "y + of_nat i < get_height ops b"
proof -
  have "unat y + i < 2 ^ 64" using assms unsigned_less [of "get_height ops b", where ?'a = nat] by simp
  moreover have "unat (of_nat i :: u64) = i" using assms(2) by (simp add: unsigned_of_nat take_bit_nat_eq_self)
  ultimately have "unat (y + of_nat i) = unat y + i" using unat_add_lem [of y "of_nat i"] by simp
  then show ?thesis using assms by (simp add: word_less_nat_alt)
qed

lemma draw_lines_ok:
  "frame_buffer_ok ops \<Longrightarrow> unat x + 8 \<le> unat (get_width ops b) \<Longrightarrow> unat y + 16 \<le> unat (get_height ops b) \<Longrightarrow> \<forall>i \<in> set is. i < 16 \<Longrightarrow>
   \<exists>b'. draw_lines ops is x y c col b = Some b' \<and> same_size ops b b'"
proof (induction "is" arbitrary: b)
  case (Cons i "is")
  have "unat c * 16 + i < length (FONT_8X16 ops)"
    using Cons.prems(1,4) unsigned_less [of c, where ?'a = nat] by (simp add: frame_buffer_ok_def)
  then obtain line where l: "index (FONT_8X16 ops) (unat c * 16 + i) = Some line" by simp
  have "y + of_nat i < get_height ops b" using row_inside [OF Cons.prems(3)] Cons.prems(4) by simp
  then obtain b1 where b1: "draw_line ops [0..<8] x (y + of_nat i) line col b = Some b1" "same_size ops b b1"
    using draw_line_ok [OF Cons.prems(1,2), of "y + of_nat i" "[0..<8]"] by auto
  then show ?case using Cons.IH [of b1] Cons.prems l by (auto simp: same_size_def)
qed (simp add: same_size_def)

text \<open>A terminal whose screen has room for its cursor.\<close>

definition on_screen :: "'b frame_buffer \<Rightarrow> 'b Terminal \<Rightarrow> bool" where
  "on_screen ops t \<longleftrightarrow> cursor_x t < get_cols ops (fb t) \<and> cursor_y t < get_rows ops (fb t)"

lemma fb_write_char_ok:
  assumes "frame_buffer_ok ops" "x < get_cols ops b" "y < get_rows ops b"
  shows "\<exists>r b'. fb_write_char ops b x y c col = Some (r, b') \<and> same_size ops b b'"
proof (cases "0x80 \<le> c")
  case True
  then show ?thesis by (simp add: fb_write_char_def same_size_def)
next
  case False
  have div8: "8 * k + 8 \<le> w" if "k < w div 8" for k w :: nat using that by linarith
  have div16: "16 * k + 16 \<le> w" if "k < w div 16" for k w :: nat using that by linarith
  have x: "unat x < unat (get_width ops b) div 8" using assms(2) by (simp add: get_cols_def word_less_nat_alt unat_div)
  have y: "unat y < unat (get_height ops b) div 16" using assms(3) by (simp add: get_rows_def word_less_nat_alt unat_div)
  note w = unsigned_less [of "get_width ops b", where ?'a = nat] and h = unsigned_less [of "get_height ops b", where ?'a = nat]
  have cx: "checked_mul x 8 = Some (x * 8)" using div8 [OF x] w by (simp add: checked_mul_eq_Some_iff)
  have cy: "checked_mul y 16 = Some (y * 16)" using div16 [OF y] h by (simp add: checked_mul_eq_Some_iff)
  have ux: "unat (x * 8) + 8 \<le> unat (get_width ops b)" using checked_mul_unat [OF cx] div8 [OF x] by simp
  have uy: "unat (y * 16) + 16 \<le> unat (get_height ops b)" using checked_mul_unat [OF cy] div16 [OF y] by simp
  have ax: "checked_add (x * 8) 8 = Some (x * 8 + 8)" and ay: "checked_add (y * 16) 16 = Some (y * 16 + 16)"
    using ux uy w h by (simp_all add: checked_add_nat)
  obtain b' where "draw_lines ops [0..<16] (x * 8) (y * 16) (ucast c) col b = Some b'" "same_size ops b b'"
    using draw_lines_ok [OF assms(1) ux uy, of "[0..<16]"] by auto
  then show ?thesis using False cx cy ax ay by (simp add: fb_write_char_def)
qed

lemma put_char_ok:
  assumes "frame_buffer_ok ops" "x < get_cols ops (fb t)" "y < get_rows ops (fb t)"
  obtains b where "put_char ops t x y c = Some (t\<lparr>fb := b\<rparr>)" "same_size ops (fb t) b"
  using fb_write_char_ok [OF assms, of c "color t"] by (auto simp: put_char_def)

lemma clear_row_ok:
  "frame_buffer_ok ops \<Longrightarrow> cursor_y t < get_rows ops (fb t) \<Longrightarrow> \<forall>x \<in> set xs. of_nat x < get_cols ops (fb t) \<Longrightarrow>
   \<exists>b. clear_row ops xs t = Some (t\<lparr>fb := b\<rparr>) \<and> same_size ops (fb t) b"
proof (induction xs arbitrary: t)
  case Nil
  then show ?case by (auto simp: same_size_def intro: exI [of _ "fb t"])
next
  case (Cons x xs)
  have "of_nat x < get_cols ops (fb t)" using Cons.prems(3) by simp
  then obtain b where b: "put_char ops t (of_nat x) (cursor_y t) 0x20 = Some (t\<lparr>fb := b\<rparr>)" "same_size ops (fb t) b"
    by (rule put_char_ok [OF Cons.prems(1) _ Cons.prems(2)])
  then show ?case using Cons.IH [of "t\<lparr>fb := b\<rparr>"] Cons.prems same_size_rows [OF b(2)] by (auto simp: same_size_def)
qed

definition stays :: "'b frame_buffer \<Rightarrow> 'b Terminal \<Rightarrow> 'b Terminal \<Rightarrow> bool" where
  "stays ops t t' \<longleftrightarrow> on_screen ops t' \<and> same_size ops (fb t) (fb t') \<and> line_buffer t' = line_buffer t"

lemma stays_trans: "stays ops t u \<Longrightarrow> stays ops u v \<Longrightarrow> stays ops t v"
  by (simp add: stays_def same_size_def)

lemma stays_on_screen [dest]: "stays ops t u \<Longrightarrow> on_screen ops u"
  by (simp add: stays_def)

lemma stays_redraw: "on_screen ops t \<Longrightarrow> same_size ops (fb t) b \<Longrightarrow> stays ops t (t\<lparr>fb := b\<rparr>)"
  using same_size_rows [of ops "fb t" b] by (simp add: stays_def on_screen_def)

lemma put_at_cursor_ok:
  assumes "frame_buffer_ok ops" "on_screen ops t"
  obtains t' where "put_char ops t (cursor_x t) (cursor_y t) c = Some t'" "stays ops t t'"
  using put_char_ok [OF assms(1), of "cursor_x t" t "cursor_y t" c] assms(2) stays_redraw [OF assms(2)] by (auto simp: on_screen_def)

lemma below_last:
  fixes c n :: u64
  assumes "c < n"
  shows "checked_sub n 1 = Some (n - 1)" "\<not> n - 1 \<le> c \<Longrightarrow> c + 1 < n" "0 < n"
proof -
  have n: "1 \<le> unat n" using assms by (simp add: word_less_nat_alt)
  then have le: "1 \<le> n" by (simp add: word_le_nat_alt)
  have u: "unat (n - 1) = unat n - 1" using le by (simp add: unat_sub)
  show "checked_sub n 1 = Some (n - 1)" using le by (simp add: checked_sub_def)
  show "0 < n" using n by (simp add: word_less_nat_alt)
  assume "\<not> n - 1 \<le> c"
  then have "unat c + 1 < unat n" using u n by (simp add: word_le_nat_alt)
  moreover from this have "unat (c + 1) = unat c + 1" using unsigned_less [of n, where ?'a = nat] unat_add_lem [of c 1] by simp
  ultimately show "c + 1 < n" by (simp add: word_less_nat_alt)
qed

lemma cursor_down_ok:
  assumes "on_screen ops t"
  obtains t' where "cursor_down ops t = Some t'" "stays ops t t'"
proof (cases "get_rows ops (fb t) - 1 \<le> cursor_y t")
  case True
  then show ?thesis using that [of "t\<lparr>cursor_y := 0\<rparr>"] assms below_last [of "cursor_y t" "get_rows ops (fb t)"]
    by (simp add: cursor_down_def stays_def on_screen_def same_size_def)
next
  case False
  then show ?thesis using that [of "t\<lparr>cursor_y := cursor_y t + 1\<rparr>"] assms below_last [of "cursor_y t" "get_rows ops (fb t)"]
    by (simp add: cursor_down_def stays_def on_screen_def same_size_def)
qed

lemma clear_line_ok:
  assumes "frame_buffer_ok ops" "on_screen ops t"
  obtains t' where "clear_line ops t = Some t'" "stays ops t t'"
proof -
  have "of_nat x < get_cols ops (fb t)" if "x < unat (get_cols ops (fb t))" for x
    using that unsigned_less [of "get_cols ops (fb t)", where ?'a = nat]
    by (simp add: word_less_nat_alt unsigned_of_nat take_bit_nat_eq_self)
  then show ?thesis
    using clear_row_ok [OF assms(1), of t "[0..<unat (get_cols ops (fb t))]"] assms(2) stays_redraw [OF assms(2)] that
    by (auto simp: clear_line_def on_screen_def)
qed

lemma to_column_0: "on_screen ops t \<Longrightarrow> stays ops t (t\<lparr>cursor_x := 0\<rparr>)"
  using below_last(3) [of "cursor_x t" "get_cols ops (fb t)"] by (simp add: stays_def on_screen_def same_size_def)

lemma cursor_right_ok:
  assumes "frame_buffer_ok ops" "on_screen ops t"
  obtains t' where "cursor_right ops t = Some t'" "stays ops t t'"
proof (cases "get_cols ops (fb t) - 1 \<le> cursor_x t")
  case True
  note z = to_column_0 [OF assms(2)]
  obtain u where u: "cursor_down ops (t\<lparr>cursor_x := 0\<rparr>) = Some u" "stays ops (t\<lparr>cursor_x := 0\<rparr>) u"
    using z by (auto elim: cursor_down_ok)
  obtain v where "clear_line ops u = Some v" "stays ops u v" using clear_line_ok [OF assms(1)] u(2) by blast
  then show ?thesis using that [of v] True u z stays_trans below_last(1) [of "cursor_x t" "get_cols ops (fb t)"] assms(2)
    by (simp add: cursor_right_def on_screen_def) blast
next
  case False
  then show ?thesis using that [of "t\<lparr>cursor_x := cursor_x t + 1\<rparr>"] assms(2) below_last [of "cursor_x t" "get_cols ops (fb t)"]
    by (simp add: cursor_right_def stays_def on_screen_def same_size_def)
qed

lemma new_line_ok:
  assumes "frame_buffer_ok ops" "on_screen ops t"
  obtains t' where "new_line ops t = Some t'" "stays ops t t'"
proof -
  obtain u where u: "cursor_down ops t = Some u" "stays ops t u" using cursor_down_ok [OF assms(2)] by blast
  obtain v where v: "clear_line ops u = Some v" "stays ops u v" using clear_line_ok [OF assms(1)] u(2) by blast
  have "stays ops v (v\<lparr>cursor_x := 0\<rparr>)" using to_column_0 v(2) by blast
  then show ?thesis using that [of "v\<lparr>cursor_x := 0\<rparr>"] u v stays_trans by (simp add: new_line_def) blast
qed

lemma terminal_write_char_ok:
  assumes "frame_buffer_ok ops" "on_screen ops t"
  obtains t' where "terminal_write_char ops t c = Some t'" "stays ops t t'"
proof -
  obtain u where u: "erase_visual_cursor ops t = Some u" "stays ops t u"
    using put_at_cursor_ok [OF assms] by (auto simp: erase_visual_cursor_def)
  obtain v where v: "(if c = 0x0A then new_line ops u else do {
       t \<leftarrow> put_char ops u (cursor_x u) (cursor_y u) c; cursor_right ops t }) = Some v" "stays ops u v"
  proof (cases "c = 0x0A")
    case True
    then show ?thesis using that new_line_ok [OF assms(1)] u(2) by auto
  next
    case False
    obtain w where w: "put_char ops u (cursor_x u) (cursor_y u) c = Some w" "stays ops u w"
      using put_at_cursor_ok [OF assms(1)] u(2) by blast
    obtain v where "cursor_right ops w = Some v" "stays ops w v" using cursor_right_ok [OF assms(1)] w(2) by blast
    then show ?thesis using that [of v] False w stays_trans by simp blast
  qed
  obtain w where "update_visual_cursor ops v = Some w" "stays ops v w"
    unfolding update_visual_cursor_def by (rule put_at_cursor_ok [OF assms(1) stays_on_screen [OF v(2)]])
  then show ?thesis using that [of w] u v stays_trans by (simp add: terminal_write_char_def) blast
qed

lemma write_chars_ok:
  "frame_buffer_ok ops \<Longrightarrow> on_screen ops t \<Longrightarrow> \<exists>t'. write_chars ops cs t = Some t' \<and> stays ops t t'"
proof (induction cs arbitrary: t)
  case Nil
  then show ?case by (simp add: stays_def same_size_def)
next
  case (Cons c cs)
  obtain u where u: "terminal_write_char ops t c = Some u" "stays ops t u" using terminal_write_char_ok [OF Cons.prems] by blast
  obtain v where "write_chars ops cs u = Some v" "stays ops u v" using Cons.IH [OF Cons.prems(1)] u(2) by blast
  then show ?case using u stays_trans by auto
qed

text \<open>
  (C35) Writing text to the terminal never panics and never draws outside of the screen: for a frame buffer
  whose pixels can be set inside of its size, and a cursor on the screen, every text is written, the cursor
  is on the screen again, and the line that is being typed is not touched.
\<close>

theorem write_str_stays_on_screen:
  assumes "frame_buffer_ok ops" "on_screen ops t"
  shows "\<exists>t'. write_str ops t s = Some t' \<and> on_screen ops t' \<and> line_buffer t' = line_buffer t
    \<and> get_width ops (fb t') = get_width ops (fb t) \<and> get_height ops (fb t') = get_height ops (fb t)"
  using write_chars_ok [OF assms, of "chars s"] by (auto simp: write_str_def stays_def same_size_def)

section \<open>Typing a line\<close>

text \<open>What a packet does to the line: the abstract specification of \<^verbatim>\<open>recive_key\<close>.\<close>

definition edit :: "KeyboardPacket \<Rightarrow> u32 list \<Rightarrow> u32 list" where
  "edit p line = (
     if packet_type p = KeyReleased then line
     else if packet_key p = Editing Enter then line @ [0x0A]
     else if packet_key p = Editing Backspace then (if line \<noteq> [] \<and> last line = 0x0A then line else butlast line)
     else (case parse_key (packet_key p) (packet_modifiers p) of Inr c \<Rightarrow> line @ [of_char c] | Inl _ \<Rightarrow> line))"

definition pressed_enter :: "KeyboardPacket \<Rightarrow> bool" where
  "pressed_enter p \<longleftrightarrow> packet_type p = KeyPressed \<and> packet_key p = Editing Enter"

lemma word_pred_less: "x \<noteq> 0 \<Longrightarrow> x < n \<Longrightarrow> x - 1 < (n :: u64)"
proof -
  assume x: "x \<noteq> 0" "x < n"
  then have "1 \<le> x" using word_gt_0 [of x] by (metis word_le_nat_alt unat_gt_0 unsigned_1 Suc_leI One_nat_def)
  then have "unat (x - 1) = unat x - 1" by (simp add: unat_sub)
  then show "x - 1 < n" using x(2) by (simp add: word_less_nat_alt)
qed

lemma recive_key_edits:
  assumes "frame_buffer_ok ops" "on_screen ops t" "packet_type p = KeyPressed"
  shows "\<exists>t'. recive_key ops t (packet_key p) (packet_modifiers p) = Some t' \<and> on_screen ops t' \<and> line_buffer t' = edit p (line_buffer t)"
proof -
  obtain u where u: "erase_visual_cursor ops t = Some u" "stays ops t u"
    unfolding erase_visual_cursor_def by (rule put_at_cursor_ok [OF assms(1,2)])
  have lb: "line_buffer u = line_buffer t" using u(2) by (simp add: stays_def)
  have draw: "\<exists>w. update_visual_cursor ops v = Some w \<and> stays ops v w" if "on_screen ops v" for v
    using put_at_cursor_ok [OF assms(1) that] unfolding update_visual_cursor_def by blast
  have line: "on_screen ops (v\<lparr>line_buffer := l\<rparr>)" if "on_screen ops v" for v l using that by (simp add: on_screen_def)
  consider (enter) "packet_key p = Editing Enter" | (bksp) "packet_key p = Editing Backspace"
    | (other) "packet_key p \<noteq> Editing Enter" "packet_key p \<noteq> Editing Backspace" by blast
  then show ?thesis
  proof cases
    case enter
    let ?u = "u\<lparr>line_buffer := line_buffer u @ [0x0A]\<rparr>"
    obtain v where v: "new_line ops ?u = Some v" "stays ops ?u v" using new_line_ok [OF assms(1)] line u(2) by blast
    then obtain w where "update_visual_cursor ops v = Some w" "stays ops v w" using draw by blast
    then show ?thesis using enter u v lb assms(3) by (auto simp: recive_key_def edit_def stays_def)
  next
    case bksp
    let ?l = "if line_buffer u \<noteq> [] \<and> last (line_buffer u) = 0x0A then line_buffer u else butlast (line_buffer u)"
    let ?v = "cursor_left u\<lparr>line_buffer := ?l\<rparr>"
    have left: "on_screen ops (cursor_left u)"
      using stays_on_screen [OF u(2)] word_pred_less [of "cursor_x u"] by (auto simp: on_screen_def cursor_left_def)
    then obtain w where w: "update_visual_cursor ops ?v = Some w" "stays ops ?v w" using draw line by blast
    have snoc: "butlast l @ [0x0A] = l" if "l \<noteq> []" "last l = 0x0A" for l :: "u32 list" using that append_butlast_last_id by metis
    have "line_buffer (cursor_left u) = line_buffer u" by (simp add: cursor_left_def)
    then have "recive_key ops t (packet_key p) (packet_modifiers p) = Some w"
      using bksp u w(1) snoc by (auto simp: recive_key_def Let_def split: if_splits)
    then show ?thesis using bksp w lb assms(3) by (auto simp: edit_def stays_def)
  next
    case other
    show ?thesis
    proof (cases "parse_key (packet_key p) (packet_modifiers p)")
      case (Inl k)
      then show ?thesis using other u lb assms(3) by (auto simp: recive_key_def edit_def)
    next
      case (Inr c)
      let ?u = "u\<lparr>line_buffer := line_buffer u @ [of_char c]\<rparr>"
      obtain v where v: "put_char ops ?u (cursor_x ?u) (cursor_y ?u) (of_char c) = Some v" "stays ops ?u v"
        using put_at_cursor_ok [OF assms(1)] line u(2) by blast
      obtain w where w: "cursor_right ops v = Some w" "stays ops v w" using cursor_right_ok [OF assms(1)] v(2) by blast
      then obtain x where "update_visual_cursor ops w = Some x" "stays ops w x" using draw by blast
      then show ?thesis using other Inr u v w lb assms(3) by (auto simp: recive_key_def edit_def stays_def)
    qed
  qed
qed

lemma no_newline_in_layout: "CHR 0x0A \<notin> set (concat (map (\<lambda>(_, plain, shifted). [plain, shifted]) (symbol_keys @ letter_keys)))"
  by code_simp

lemma layout_entry_no_newline:
  assumes "(rc, plain, shifted) \<in> set (symbol_keys @ letter_keys)"
  shows "plain \<noteq> CHR 0x0A \<and> shifted \<noteq> CHR 0x0A"
proof -
  let ?f = "\<lambda>(_ :: nat \<times> nat, plain :: char, shifted :: char). [plain, shifted]"
  have "x \<in> set (concat (map ?f (symbol_keys @ letter_keys)))" if "x \<in> set (?f (rc, plain, shifted))" for x
    unfolding set_concat set_map using assms that by blast
  from this [of plain] this [of shifted] show ?thesis using no_newline_in_layout by auto
qed

lemma parse_key_newline:
  assumes "parse_key key m = Inr c" "key \<noteq> Editing Enter"
  shows "c \<noteq> CHR 0x0A"
proof (cases key)
  case (Unmapped row col)
  show ?thesis
  proof (cases "map_of symbol_keys (row, col)")
    case (Some e)
    obtain plain shifted where e: "e = (plain, shifted)" by fastforce
    then have "((row, col), plain, shifted) \<in> set (symbol_keys @ letter_keys)" using map_of_SomeD [OF Some] by simp
    from layout_entry_no_newline [OF this] show ?thesis using assms(1) Unmapped Some e
      by (simp add: parse_key_def split: if_splits)
  next
    case None
    then obtain plain shifted where e: "map_of letter_keys (row, col) = Some (plain, shifted)"
      using assms(1) Unmapped by (cases "map_of letter_keys (row, col)") (auto simp: parse_key_def)
    then have "((row, col), plain, shifted) \<in> set (symbol_keys @ letter_keys)" using map_of_SomeD [OF e] by simp
    from layout_entry_no_newline [OF this] show ?thesis using assms(1) Unmapped None e
      by (simp add: parse_key_def split: if_splits)
  qed
next
  case (Editing e)
  then show ?thesis using assms by (cases e) (auto simp: parse_key_def)
qed (use assms(1) in \<open>simp_all add: parse_key_def\<close>)

lemma newline_char: "of_char c = (0x0A :: u32) \<Longrightarrow> c = CHR 0x0A"
proof -
  assume c: "of_char c = (0x0A :: u32)"
  have "of_nat (of_char c :: nat) = (0x0A :: u32)" using c by (simp add: of_nat_of_char)
  moreover have "of_char c < (2 ^ 32 :: nat)" using nat_of_char_less_256 [of c] by (rule order_less_trans) simp
  then have "unat (of_nat (of_char c :: nat) :: u32) = of_char c" unfolding unsigned_of_nat by (simp add: take_bit_nat_eq_self)
  ultimately have "of_char c = (of_char CHR 0x0A :: nat)" by simp
  then show "c = CHR 0x0A" by (simp only: of_char_eq_iff)
qed

lemma edit_no_newline:
  assumes "0x0A \<notin> set line" "\<not> pressed_enter p"
  shows "0x0A \<notin> set (edit p line)"
proof (cases "packet_type p = KeyPressed \<and> packet_key p \<noteq> Editing Backspace")
  case True
  then have key: "packet_key p \<noteq> Editing Enter" using assms(2) by (simp add: pressed_enter_def)
  show ?thesis
  proof (cases "parse_key (packet_key p) (packet_modifiers p)")
    case (Inr c)
    have "of_char c \<noteq> (0x0A :: u32)"
      using parse_key_newline [OF Inr key] newline_char by blast
    then show ?thesis using True key Inr assms(1) by (simp add: edit_def)
  qed (use True key assms(1) in \<open>simp add: edit_def\<close>)
next
  case False
  then show ?thesis using assms by (cases "packet_type p") (auto simp: edit_def pressed_enter_def dest: in_set_butlastD)
qed

lemma stdin_loop_line:
  assumes "frame_buffer_ok ops"
  shows "on_screen ops t \<Longrightarrow> 0x0A \<notin> set (line_buffer t) \<Longrightarrow> delivers ports h bs \<Longrightarrow> list_all plain_code bs
   \<Longrightarrow> packets bs m = ps @ e # rest \<Longrightarrow> \<forall>p \<in> set ps. \<not> pressed_enter p \<Longrightarrow> pressed_enter e
   \<Longrightarrow> \<exists>t' h' bs' m'. stdin_loop ops ports t \<lparr>hardware = h, active_modifiers = m\<rparr>
         = Some (hd (fold edit ps (line_buffer t) @ [0x0A]), t', \<lparr>hardware = h', active_modifiers = m'\<rparr>)
       \<and> on_screen ops t' \<and> line_buffer t' = tl (fold edit ps (line_buffer t) @ [0x0A])
       \<and> delivers ports h' bs' \<and> list_all plain_code bs' \<and> packets bs' m' = rest"
proof (induction ps arbitrary: t h bs m)
  case Nil
  then obtain h' bs' where r: "read_packet ports \<lparr>hardware = h, active_modifiers = m\<rparr> = Some (e, \<lparr>hardware = h', active_modifiers = packet_modifiers e\<rparr>)"
    "delivers ports h' bs'" "list_all plain_code bs'" "packets bs' (packet_modifiers e) = rest"
    using read_packet_delivers [of ports h bs m e rest] by auto
  have e: "packet_type e = KeyPressed" "packet_key e = Editing Enter" using Nil by (simp_all add: pressed_enter_def)
  obtain u where u: "recive_key ops t (packet_key e) (packet_modifiers e) = Some u" "on_screen ops u" "line_buffer u = line_buffer t @ [0x0A]"
    using recive_key_edits [OF assms Nil.prems(1) e(1)] e by (auto simp: edit_def)
  have "stdin_loop ops ports t \<lparr>hardware = h, active_modifiers = m\<rparr>
      = Some (hd (line_buffer t @ [0x0A]), u\<lparr>line_buffer := tl (line_buffer t @ [0x0A])\<rparr>, \<lparr>hardware = h', active_modifiers = packet_modifiers e\<rparr>)"
    by (subst stdin_loop.simps) (use r(1) e(1) u in \<open>simp add: read_char_def\<close>)
  then show ?case using r(2-4) u(2) by (auto simp: on_screen_def)
next
  case (Cons p ps)
  then obtain h' bs' where r: "read_packet ports \<lparr>hardware = h, active_modifiers = m\<rparr> = Some (p, \<lparr>hardware = h', active_modifiers = packet_modifiers p\<rparr>)"
    "delivers ports h' bs'" "list_all plain_code bs'" "packets bs' (packet_modifiers p) = ps @ e # rest"
    using read_packet_delivers [of ports h bs m p "ps @ e # rest"] by auto
  have ps: "\<forall>q \<in> set ps. \<not> pressed_enter q" "\<not> pressed_enter p" using Cons.prems(6) by simp_all
  show ?case
  proof (cases "packet_type p")
    case KeyReleased
    then have "stdin_loop ops ports t \<lparr>hardware = h, active_modifiers = m\<rparr>
      = stdin_loop ops ports t \<lparr>hardware = h', active_modifiers = packet_modifiers p\<rparr>"
      by (subst stdin_loop.simps) (use r(1) in simp)
    moreover have "edit p (line_buffer t) = line_buffer t" using KeyReleased by (simp add: edit_def)
    ultimately show ?thesis using Cons.IH [OF Cons.prems(1,2) r(2-4) ps(1) Cons.prems(7)] by simp
  next
    case KeyPressed
    obtain u where u: "recive_key ops t (packet_key p) (packet_modifiers p) = Some u" "on_screen ops u" "line_buffer u = edit p (line_buffer t)"
      using recive_key_edits [OF assms Cons.prems(1) KeyPressed] by blast
    have nn: "0x0A \<notin> set (line_buffer u)" using edit_no_newline [OF Cons.prems(2) ps(2)] u(3) by simp
    have "stdin_loop ops ports t \<lparr>hardware = h, active_modifiers = m\<rparr>
      = stdin_loop ops ports u \<lparr>hardware = h', active_modifiers = packet_modifiers p\<rparr>"
      by (subst stdin_loop.simps) (use r(1) KeyPressed u(1) nn in \<open>simp add: read_char_def\<close>)
    then show ?thesis using Cons.IH [OF u(2) nn r(2-4) ps(1) Cons.prems(7)] u(3) by simp
  qed
qed


text \<open>Reading from the standard input a number of times.\<close>

primrec stdin_reads ::
  "nat \<Rightarrow> 'b frame_buffer \<Rightarrow> 'h ps2_ports \<Rightarrow> 'b Terminal \<Rightarrow> 'h PS2Device \<Rightarrow> (u32 list \<times> 'b Terminal \<times> 'h PS2Device) option" where
  "stdin_reads 0 ops ports t dev = Some ([], t, dev)"
| "stdin_reads (Suc n) ops ports t dev = do {
     (c, t, dev) \<leftarrow> read_stdin ops ports t dev;
     (cs, t, dev) \<leftarrow> stdin_reads n ops ports t dev;
     Some (c # cs, t, dev) }"

lemma stdin_reads_step:
  "read_stdin ops ports t dev = Some (c, u, dev1) \<Longrightarrow> stdin_reads n ops ports u dev1 = Some (cs, v, dev2)
   \<Longrightarrow> stdin_reads (Suc n) ops ports t dev = Some (c # cs, v, dev2)"
  by simp

lemma stdin_reads_buffer:
  "line_buffer t = s @ [0x0A] \<Longrightarrow> stdin_reads (length s + 1) ops ports t dev = Some (s @ [0x0A], t\<lparr>line_buffer := []\<rparr>, dev)"
proof (induction s arbitrary: t)
  case Nil
  then show ?case by (simp add: read_stdin_def read_char_def)
next
  case (Cons c s)
  let ?t = "t\<lparr>line_buffer := s @ [0x0A]\<rparr>"
  have "read_stdin ops ports t dev = Some (c, ?t, dev)" using Cons.prems by (simp add: read_stdin_def read_char_def)
  moreover have "stdin_reads (length s + 1) ops ports ?t dev = Some (s @ [0x0A], ?t\<lparr>line_buffer := []\<rparr>, dev)" by (rule Cons.IH) simp
  ultimately have "stdin_reads (Suc (length s + 1)) ops ports t dev = Some (c # s @ [0x0A], ?t\<lparr>line_buffer := []\<rparr>, dev)"
    by (rule stdin_reads_step)
  then show ?case by (simp del: stdin_reads.simps)
qed

text \<open>
  (C16) The standard input is a line at a time: for any keys typed up to the next Enter, reads return the
  characters of the line as the keys have edited it, shift, caps lock and backspace included, then the
  line feed, and the reads end; after them the line is empty and the keys typed behind Enter are still
  to come.
\<close>

theorem typed_line_is_read:
  assumes "frame_buffer_ok ops" "on_screen ops t" "line_buffer t = []"
    and "delivers ports h bs" "list_all plain_code bs" "packets bs m = ps @ e # rest"
    and "\<forall>p \<in> set ps. \<not> pressed_enter p" "pressed_enter e"
  shows "\<exists>t' h' bs' m'. stdin_reads (length (fold edit ps []) + 1) ops ports t \<lparr>hardware = h, active_modifiers = m\<rparr>
      = Some (fold edit ps [] @ [0x0A], t', \<lparr>hardware = h', active_modifiers = m'\<rparr>)
    \<and> on_screen ops t' \<and> line_buffer t' = [] \<and> delivers ports h' bs' \<and> list_all plain_code bs' \<and> packets bs' m' = rest"
proof -
  have "0x0A \<notin> set (line_buffer t)" using assms(3) by simp
  from stdin_loop_line [OF assms(1,2) this assms(4-8)]
  obtain u h' bs' m' where l: "stdin_loop ops ports t \<lparr>hardware = h, active_modifiers = m\<rparr>
         = Some (hd (fold edit ps [] @ [0x0A]), u, \<lparr>hardware = h', active_modifiers = m'\<rparr>)"
       "on_screen ops u" "line_buffer u = tl (fold edit ps [] @ [0x0A])"
       "delivers ports h' bs'" "list_all plain_code bs'" "packets bs' m' = rest" unfolding assms(3) by blast
  have first: "read_stdin ops ports t \<lparr>hardware = h, active_modifiers = m\<rparr>
     = Some (hd (fold edit ps [] @ [0x0A]), u, \<lparr>hardware = h', active_modifiers = m'\<rparr>)"
    using l(1) assms(3) by (simp add: read_stdin_def read_char_def)
  show ?thesis
  proof (cases "fold edit ps []")
    case Nil
    then show ?thesis using first l(2-6) by auto
  next
    case (Cons c s)
    then have "stdin_reads (length s + 1) ops ports u dev = Some (s @ [0x0A], u\<lparr>line_buffer := []\<rparr>, dev)" for dev
      using l(3) by (intro stdin_reads_buffer) simp
    from stdin_reads_step [OF first this] have "stdin_reads (length (fold edit ps []) + 1) ops ports t \<lparr>hardware = h, active_modifiers = m\<rparr>
      = Some (fold edit ps [] @ [0x0A], u\<lparr>line_buffer := []\<rparr>, \<lparr>hardware = h', active_modifiers = m'\<rparr>)"
      using Cons by (simp del: stdin_reads.simps)
    moreover have "on_screen ops (u\<lparr>line_buffer := []\<rparr>)" using l(2) by (simp add: on_screen_def)
    ultimately show ?thesis using l(4-6) by (intro exI conjI) (assumption | simp)+
  qed
qed

section \<open>A small screen and a keyboard\<close>

definition demo_fb :: "unit frame_buffer" where
  "demo_fb = \<lparr>get_width = \<lambda>_. 16, get_height = \<lambda>_. 32, set_pixel = \<lambda>_ _ _ _. Some (), FONT_8X16 = replicate 4096 0\<rparr>"

definition demo_ports :: "u8 list ps2_ports" where
  "demo_ports = \<lparr>read_status = \<lambda>h. (if h = [] then 0 else 1, h), read_data = \<lambda>h. (hd h, tl h), is_output_buf_full = \<lambda>s. s = 1\<rparr>"

lemma demo_fb_ok: "frame_buffer_ok demo_fb" "on_screen demo_fb (terminal_new () black)"
  by (simp_all add: frame_buffer_ok_def demo_fb_def on_screen_def terminal_new_def get_cols_def get_rows_def)

theorem write_str_stays_on_screen_witness:
  "\<exists>t'. write_str demo_fb (terminal_new () black) [0x48, 0x69, 0x0A, 0x21] = Some t' \<and> on_screen demo_fb t'"
  using write_str_stays_on_screen [OF demo_fb_ok, of "[0x48, 0x69, 0x0A, 0x21]"] by blast

text \<open>Shift and H, then I and Enter.\<close>

definition demo_codes :: "u8 list" where
  "demo_codes = [0x2A, 0x23, 0xA3, 0xAA, 0x17, 0x97, 0x1C]"

lemma demo_codes_facts:
  "list_all plain_code demo_codes" "\<not> list_ex pressed_enter (butlast (packets demo_codes no_modifiers))"
  "packets demo_codes no_modifiers \<noteq> []" "pressed_enter (last (packets demo_codes no_modifiers))"
  "fold edit (butlast (packets demo_codes no_modifiers)) [] = [0x48, 0x69]"
  by code_simp+

lemma demo_delivers: "delivers demo_ports bs bs"
  by (induction bs) (simp_all add: demo_ports_def)

theorem typed_line_is_read_witness:
  "\<exists>t' dev. stdin_reads 3 demo_fb demo_ports (terminal_new () black) \<lparr>hardware = demo_codes, active_modifiers = no_modifiers\<rparr>
     = Some ([0x48, 0x69, 0x0A], t', dev)"
proof -
  let ?ps = "butlast (packets demo_codes no_modifiers)" and ?e = "last (packets demo_codes no_modifiers)"
  have lb: "line_buffer (terminal_new () black) = []" by (simp add: terminal_new_def)
  have ps: "packets demo_codes no_modifiers = ?ps @ ?e # []" using demo_codes_facts(3) by simp
  have ne: "\<forall>p \<in> set ?ps. \<not> pressed_enter p" using demo_codes_facts(2) by (simp add: list_ex_iff)
  from typed_line_is_read [OF demo_fb_ok lb demo_delivers demo_codes_facts(1) ps ne demo_codes_facts(4)]
  show ?thesis unfolding demo_codes_facts(5) by (auto simp: eval_nat_numeral simp del: stdin_reads.simps)
qed

end
