(* ===== verification/Syscall_Files.thy ===== *)
theory Syscall_Files
  imports Process_Load Terminal Vfs
begin

text \<open>
  The system calls on files: \<^verbatim>\<open>write\<close>, \<^verbatim>\<open>read\<close> and \<^verbatim>\<open>open\<close> of \<^verbatim>\<open>src/kernel/src/syscall.rs\<close>, with the folder
  operations of the root file system (\<^verbatim>\<open>src/kernel/src/vfs.rs\<close>) that \<^verbatim>\<open>open\<close> reaches.

  Files and folders of mounted file systems are trait objects: their operations are the fields of
  \<open>devices\<close>, over a state \<open>'w\<close> of the file systems, with the frame buffer and the ports of the
  keyboard. In a result,
  \<open>None\<close> is a panic or undefined behaviour, and an inner \<open>None\<close> the source's \<^verbatim>\<open>None\<close>. Results of type
  \<^verbatim>\<open>i32\<close> are words in two's complement.
\<close>

section \<open>Files, folders and devices\<close>

record ('w, 'f, 'd, 'b, 'h) devices =
  dev_get_size :: "'w \<Rightarrow> 'f \<Rightarrow> u64 option"
  dev_read :: "'w \<Rightarrow> 'f \<Rightarrow> u64 \<Rightarrow> u64 \<Rightarrow> u8 list option option"
  dev_write :: "'w \<Rightarrow> 'f \<Rightarrow> u64 \<Rightarrow> u8 list \<Rightarrow> (u64 option \<times> 'w) option"
  dev_resize :: "'w \<Rightarrow> 'f \<Rightarrow> u64 \<Rightarrow> (unit option \<times> 'w) option"
  dev_children :: "'w \<Rightarrow> 'd \<Rightarrow> ('f, 'd) listing"
  dev_create_file :: "'w \<Rightarrow> 'd \<Rightarrow> string \<Rightarrow> (('f, 'd) Node option \<times> 'w) option"
  dev_unlink :: "'w \<Rightarrow> 'd \<Rightarrow> string \<Rightarrow> (unit option \<times> 'w) option"
  VFS_ROOT :: "('f, 'd) RootFSNode"
  screen :: "'b frame_buffer"
  keyboard_ports :: "'h ps2_ports"

text \<open>
  The state: the file systems, the pipes, the terminal and the keyboard, and the memory and the data of
  the process.
\<close>

record ('w, 'n, 'b, 'h) kernel =
  world :: 'w
  kernel_pipes :: pipes
  TERMINAL :: "'b Terminal"
  KEYBOARD_INPUT :: "'h PS2Device"
  user_memory :: LittleEndianVirtualMemory
  process_data :: "'n ProcessData"

definition node_of :: "('w, 'f, 'd, 'b, 'h) devices \<Rightarrow> 'w \<Rightarrow> string \<Rightarrow> ('f, 'd) Node option option" where
  "node_of dev w path = get_node (dev_children dev w) (VFS_ROOT dev) path"

text \<open>\<^verbatim>\<open>create_empty_child\<close> and \<^verbatim>\<open>unlink_or_delete_empty_child\<close>: a folder of the root file system routes them to its mount point.\<close>

primrec folder_create_empty_child ::
  "('w, 'f, 'd, 'b, 'h) devices \<Rightarrow> 'w \<Rightarrow> ('f, 'd) folder \<Rightarrow> string \<Rightarrow> (('f, 'd) Node option \<times> 'w) option" where
  "folder_create_empty_child dev w (Mounted d) name = dev_create_file dev w d name"
| "folder_create_empty_child dev w (Rootfs n) name = (case mountpoint n of
     Some mnt \<Rightarrow> dev_create_file dev w mnt name
   | None \<Rightarrow> Some (None, w))"

primrec folder_unlink_or_delete_empty_child ::
  "('w, 'f, 'd, 'b, 'h) devices \<Rightarrow> 'w \<Rightarrow> ('f, 'd) folder \<Rightarrow> string \<Rightarrow> (unit option \<times> 'w) option" where
  "folder_unlink_or_delete_empty_child dev w (Mounted d) name = dev_unlink dev w d name"
| "folder_unlink_or_delete_empty_child dev w (Rootfs n) name = (case mountpoint n of
     Some mnt \<Rightarrow> dev_unlink dev w mnt name
   | None \<Rightarrow> Some (None, w))"

section \<open>Writing\<close>

definition O_RDONLY :: u64 where "O_RDONLY = 0b00001"
definition O_WRONLY :: u64 where "O_WRONLY = 0b00010"
definition O_RDWR :: u64 where "O_RDWR = O_RDONLY OR O_WRONLY"
definition O_APPEND :: u64 where "O_APPEND = 0b00100"
definition O_CREAT :: u64 where "O_CREAT = 0b01000"
definition O_TRUNC :: u64 where "O_TRUNC = 0b10000"

definition set_node :: "nat \<Rightarrow> 'n ProcessNode \<Rightarrow> 'n ProcessData \<Rightarrow> 'n ProcessData" where
  "set_node i node p = p\<lparr>open_nodes := (open_nodes p)[i := Some node]\<rparr>"

definition write_file ::
  "('w, 'f, 'd, 'b, 'h) devices \<Rightarrow> ('w, ('f, 'd) Node, 'b, 'h) kernel \<Rightarrow> nat \<Rightarrow> ('f, 'd) Node ProcessNode \<Rightarrow> 'f \<Rightarrow> u8 list
     \<Rightarrow> (u32 \<times> ('w, ('f, 'd) Node, 'b, 'h) kernel) option" where
  "write_file dev k node_index node f buf = do {
     pos \<leftarrow> (if node_flags node AND O_APPEND \<noteq> 0 then dev_get_size dev (world k) f else Some (cursor node));
     let node = node\<lparr>cursor := pos\<rparr>;
     let k = k\<lparr>process_data := set_node node_index node (process_data k)\<rparr>;
     end_pos \<leftarrow> checked_add pos (of_nat (length buf));
     sz \<leftarrow> dev_get_size dev (world k) f;
     (r, w) \<leftarrow> (if end_pos > sz then dev_resize dev (world k) f end_pos else Some (Some (), world k));
     let k = k\<lparr>world := w\<rparr>;
     (case r of
        None \<Rightarrow> Some (- 1, k)
      | Some _ \<Rightarrow> do {
          (r, w) \<leftarrow> dev_write dev (world k) f pos buf;
          let k = k\<lparr>world := w\<rparr>;
          (case r of
             None \<Rightarrow> Some (- 1, k)
           | Some written \<Rightarrow> do {
               pos \<leftarrow> checked_add pos written;
               Some (ucast written, k\<lparr>process_data := set_node node_index (node\<lparr>cursor := pos\<rparr>) (process_data k)\<rparr>) }) }) }"

definition write_fd ::
  "('w, 'f, 'd, 'b, 'h) devices \<Rightarrow> ('w, ('f, 'd) Node, 'b, 'h) kernel \<Rightarrow> nat \<Rightarrow> u64 \<Rightarrow> u64 \<Rightarrow> (u32 \<times> ('w, ('f, 'd) Node, 'b, 'h) kernel) option" where
  "write_fd dev k fd user_buf cnt = do {
     r \<leftarrow> user_slice (user_memory k) user_buf (unat cnt);
     (case r of
        None \<Rightarrow> Some (- 1, k)
      | Some buf \<Rightarrow> (case lookup_slot (fd_mappings (process_data k)) fd of
          None \<Rightarrow> Some (- 1, k)
        | Some (Regular node_index) \<Rightarrow> do {
            node \<leftarrow> unwrap_at (open_nodes (process_data k)) node_index;
            if node_flags node AND O_WRONLY = 0 then Some (- 1, k)
            else (case vfs_node node of
                File f \<Rightarrow> write_file dev k node_index node f buf
              | Folder _ \<Rightarrow> Some (- 1, k)) }
        | Some Stdin \<Rightarrow> Some (- 1, k)
        | Some (PipeReadEnd _) \<Rightarrow> Some (- 1, k)
        | Some (PipeWriteEnd pipe_index) \<Rightarrow> do {
            (res, pipes) \<leftarrow> write_pipe (kernel_pipes k) pipe_index buf;
            Some (res, k\<lparr>kernel_pipes := pipes\<rparr>) }
        | Some _ \<Rightarrow> (case from_utf8 buf of
            None \<Rightarrow> Some (- 1, k)
          | Some str_buf \<Rightarrow> do {
              t \<leftarrow> write_str (screen dev) (TERMINAL k) str_buf;
              Some (ucast cnt, k\<lparr>TERMINAL := t\<rparr>) }))) }"

section \<open>Reading\<close>

text \<open>The loop over the bytes of a file: one byte per read, until the buffer is full or the file ends.\<close>

primrec read_loop :: "('w, 'f, 'd, 'b, 'h) devices \<Rightarrow> 'w \<Rightarrow> 'f \<Rightarrow> u64 \<Rightarrow> nat \<Rightarrow> u64 \<Rightarrow> u8 list option" where
  "read_loop dev w f pos0 0 i = Some []"
| "read_loop dev w f pos0 (Suc n) i = do {
     pos \<leftarrow> checked_add pos0 i;
     sz \<leftarrow> dev_get_size dev w f;
     if pos > sz then Some []
     else do {
       r \<leftarrow> dev_read dev w f pos 1;
       (case r of
          None \<Rightarrow> Some []
        | Some val \<Rightarrow> do {
            b \<leftarrow> index val 0;
            bs \<leftarrow> read_loop dev w f pos0 n (i + 1);
            Some (b # bs) }) } }"

text \<open>The result \<open>None\<close> repeats the instruction. \<open>k\<close> with bytes stored at the start of the buffer:\<close>

definition store_user :: "('w, 'n, 'b, 'h) kernel \<Rightarrow> u64 \<Rightarrow> u8 list \<Rightarrow> ('w, 'n, 'b, 'h) kernel option" where
  "store_user k user_buf bytes =
     (if bytes = [] then Some k
      else map_option (\<lambda>(_, m). k\<lparr>user_memory := m\<rparr>) (user_store (user_memory k) user_buf bytes))"

definition read_fd ::
  "('w, 'f, 'd, 'b, 'h) devices \<Rightarrow> ('w, ('f, 'd) Node, 'b, 'h) kernel \<Rightarrow> nat \<Rightarrow> u64 \<Rightarrow> u64
     \<Rightarrow> (u32 option \<times> ('w, ('f, 'd) Node, 'b, 'h) kernel) option" where
  "read_fd dev k fd user_buf cnt = do {
     r \<leftarrow> user_slice (user_memory k) user_buf (unat cnt);
     (case r of
        None \<Rightarrow> Some (Some (- 1), k)
      | Some _ \<Rightarrow> (case lookup_slot (fd_mappings (process_data k)) fd of
          None \<Rightarrow> Some (Some (- 1), k)
        | Some (Regular node_index) \<Rightarrow> do {
            node \<leftarrow> unwrap_at (open_nodes (process_data k)) node_index;
            if node_flags node AND O_RDONLY = 0 then Some (Some (- 1), k)
            else (case vfs_node node of
                File f \<Rightarrow> do {
                  bytes \<leftarrow> read_loop dev (world k) f (cursor node) (unat cnt) 0;
                  k \<leftarrow> store_user k user_buf bytes;
                  pos \<leftarrow> checked_add (cursor node) (of_nat (length bytes));
                  Some (Some (of_nat (length bytes)),
                    k\<lparr>process_data := set_node node_index (node\<lparr>cursor := pos\<rparr>) (process_data k)\<rparr>) }
              | Folder _ \<Rightarrow> Some (Some (- 1), k)) }
        | Some (PipeWriteEnd _) \<Rightarrow> Some (Some (- 1), k)
        | Some (PipeReadEnd pipe_index) \<Rightarrow> do {
            (res, bytes, pipes, p) \<leftarrow> read_pipe (kernel_pipes k) (process_data k) pipe_index (unat cnt);
            k \<leftarrow> store_user k user_buf bytes;
            Some (res, k\<lparr>kernel_pipes := pipes, process_data := p\<rparr>) }
        | Some Stdin \<Rightarrow> do {
            (c, t, kbd) \<leftarrow> read_stdin (screen dev) (keyboard_ports dev) (TERMINAL k) (KEYBOARD_INPUT k);
            assert_that (0 < unat cnt);
            k \<leftarrow> store_user (k\<lparr>TERMINAL := t, KEYBOARD_INPUT := kbd\<rparr>) user_buf [ucast c];
            Some (Some 1, k) }
        | Some _ \<Rightarrow> Some (Some (- 1), k))) }"

section \<open>Opening\<close>

definition open_existing ::
  "('w, 'f, 'd, 'b, 'h) devices \<Rightarrow> 'w \<Rightarrow> u64 \<Rightarrow> ('f, 'd) Node \<Rightarrow> (('f, 'd) Node option \<times> 'w) option" where
  "open_existing dev w flags node =
     (if flags AND O_TRUNC \<noteq> 0 \<and> flags AND O_WRONLY \<noteq> 0 then
        (case node of
           File f \<Rightarrow> do {
             (r, w) \<leftarrow> dev_resize dev w f 0;
             Some (map_option (\<lambda>_. node) r, w) }
         | Folder _ \<Rightarrow> Some (Some node, w))
      else Some (Some node, w))"

definition find_or_create ::
  "('w, 'f, 'd, 'b, 'h) devices \<Rightarrow> 'w \<Rightarrow> string \<Rightarrow> u64 \<Rightarrow> (('f, 'd) Node option \<times> 'w) option" where
  "find_or_create dev w path flags = (case path_last path of
     Some name \<Rightarrow> do {
       parent_node \<leftarrow> node_of dev w (del_last path);
       (case parent_node of
          Some (Folder parent) \<Rightarrow> do {
            listing \<leftarrow> get_children (dev_children dev w) parent;
            (case find (\<lambda>(child_name, _). child_name = name) listing of
               Some (_, node) \<Rightarrow> open_existing dev w flags node
             | None \<Rightarrow>
                 if flags AND O_CREAT \<noteq> 0 then folder_create_empty_child dev w parent name
                 else Some (None, w)) }
        | _ \<Rightarrow> Some (None, w)) }
   | None \<Rightarrow> do {
       node \<leftarrow> node_of dev w Path_root;
       Some (node, w) })"

definition open_path :: "string \<Rightarrow> string \<Rightarrow> string option" where
  "open_path cwd0 path = canonicalize (case path_from_str path of Some val \<Rightarrow> val | None \<Rightarrow> append_str cwd0 path)"

definition open_file ::
  "('w, 'f, 'd, 'b, 'h) devices \<Rightarrow> ('w, ('f, 'd) Node, 'b, 'h) kernel \<Rightarrow> u64 \<Rightarrow> u64 \<Rightarrow> (u64 \<times> ('w, ('f, 'd) Node, 'b, 'h) kernel) option" where
  "open_file dev k pathname flags = do {
     r \<leftarrow> cstr_user_pointer_to_str (user_memory k) pathname;
     (case r of
        None \<Rightarrow> Some (- 1, k)
      | Some path \<Rightarrow> do {
          path \<leftarrow> open_path (cwd (process_data k)) (text_of path);
          (r, w) \<leftarrow> find_or_create dev (world k) path flags;
          let k = k\<lparr>world := w\<rparr>;
          (case r of
             None \<Rightarrow> Some (- 1, k)
           | Some node \<Rightarrow> (
               let (fd, p) = install_node (process_data k) node flags path in
               Some (fd, k\<lparr>process_data := p\<rparr>))) }) }"

section \<open>Buffers of the program\<close>

lemma user_slice_iff:
  "user_slice m ptr n = Some (Some bs) \<longleftrightarrow> (\<exists>r info. try_map m ptr = Some (Some (r, info))
     \<and> offset_in_region info + n \<le> length (backing_storage r) \<and> bs = take n (drop (offset_in_region info) (backing_storage r)))"
proof (cases "try_map m ptr")
  case (Some hit)
  then show ?thesis by (cases hit) (auto simp: user_slice_def split: if_splits)
qed (simp add: user_slice_def)

lemma user_slice_prefix: "user_slice m ptr n = Some (Some bs) \<Longrightarrow> k \<le> n \<Longrightarrow> user_slice m ptr k = Some (Some (take k bs))"
  unfolding user_slice_iff by (force simp: min_def)

lemma store_slice_fits:
  "user_slice m ptr (length bytes) = Some (Some old) \<Longrightarrow> bytes \<noteq> [] \<Longrightarrow> \<exists>m'. store_slice m ptr bytes = Some m'"
  unfolding user_slice_iff by (auto simp: store_slice_def map_or_panic_def store_loop_eq)

text \<open>Storing a prefix of a buffer that the program has mapped: the prefix is there, and no other byte changes.\<close>

lemma store_user_ok:
  assumes inv: "vm_inv (user_memory k)" and buf: "user_slice (user_memory k) ptr n = Some (Some old)" and len: "length bytes \<le> n"
  obtains m where "store_user k ptr bytes = Some (k\<lparr>user_memory := m\<rparr>)" "vm_inv m"
    "\<And>j. j < length bytes \<Longrightarrow> vm_byte m (ptr + of_nat j) = Some (bytes ! j)"
    "\<And>x. length bytes \<le> unat (x - ptr) \<Longrightarrow> vm_byte m x = vm_byte (user_memory k) x"
proof (cases "bytes = []")
  case True
  then show ?thesis using that [of "user_memory k"] inv by (simp add: store_user_def)
next
  case False
  note fit = user_slice_prefix [OF buf len]
  obtain m where m: "store_slice (user_memory k) ptr bytes = Some m" using store_slice_fits [OF fit False] by blast
  have st: "store_user k ptr bytes = Some (k\<lparr>user_memory := m\<rparr>)" using fit m False by (simp add: store_user_def user_store_def)
  note b = store_slice_bytes [OF inv m False]
  have "load_slice m ptr (length bytes) = Some bytes" by (rule b(3))
  then have "vm_byte m (ptr + of_nat j) = Some (bytes ! j)" if "j < length bytes" for j
    using load_slice_bytes(2) [OF b(1)] that by blast
  moreover have "vm_byte m x = vm_byte (user_memory k) x" if "length bytes \<le> unat (x - ptr)" for x using b(2) [of x] that by simp
  ultimately show ?thesis using that [OF st b(1)] by blast
qed

section \<open>Reading a file\<close>

text \<open>The contract of a file with the given content: its size, and the result of reading one byte.\<close>

definition file_holds :: "('w, 'f, 'd, 'b, 'h) devices \<Rightarrow> 'w \<Rightarrow> 'f \<Rightarrow> u8 list \<Rightarrow> bool" where
  "file_holds dev w f content \<longleftrightarrow> length content < 2 ^ 63 \<and> dev_get_size dev w f = Some (of_nat (length content)) \<and>
     (\<forall>i \<le> length content. dev_read dev w f (of_nat i) 1 = Some (if i < length content then Some [content ! i] else None))"

lemma read_loop_content:
  assumes "file_holds dev w f content"
  shows "i + n < 2 ^ 63 \<Longrightarrow> pos0 < 2 ^ 63 \<Longrightarrow> read_loop dev w f (of_nat pos0) n (of_nat i) = Some (take n (drop (pos0 + i) content))"
proof (induction n arbitrary: i)
  case (Suc n)
  have u: "unat (of_nat k :: u64) = k" if "k < 2 ^ 64" for k :: nat using that by (simp add: unsigned_of_nat take_bit_nat_eq_self)
  have c: "checked_add (of_nat pos0) (of_nat i :: u64) = Some (of_nat (pos0 + i))"
    using Suc.prems u [of pos0] u [of i] by (simp add: checked_add_nat)
  have len: "length content < 2 ^ 63" "dev_get_size dev w f = Some (of_nat (length content))" using assms by (simp_all add: file_holds_def)
  have cmp: "of_nat (pos0 + i) > (of_nat (length content) :: u64) \<longleftrightarrow> pos0 + i > length content"
    using Suc.prems len(1) u [of "pos0 + i"] u [of "length content"] by (simp add: word_less_nat_alt del: of_nat_add)
  consider (beyond) "pos0 + i > length content" | (last) "pos0 + i = length content" | (inside) "pos0 + i < length content" by linarith
  then show ?case
  proof cases
    case beyond
    then show ?thesis using c len(2) cmp by simp
  next
    case last
    then have "dev_read dev w f (of_nat (pos0 + i)) 1 = Some None" using assms by (simp add: file_holds_def del: of_nat_add)
    then show ?thesis using last c len(2) cmp by simp
  next
    case inside
    then have "dev_read dev w f (of_nat (pos0 + i)) 1 = Some (Some [content ! (pos0 + i)])"
      using assms by (simp add: file_holds_def del: of_nat_add)
    moreover have "read_loop dev w f (of_nat pos0) n (of_nat i + 1) = Some (take n (drop (pos0 + Suc i) content))"
      using Suc.IH [of "Suc i"] Suc.prems by (simp add: add.commute)
    moreover have "drop (pos0 + i) content = content ! (pos0 + i) # drop (pos0 + Suc i) content"
      using inside by (simp add: Cons_nth_drop_Suc)
    ultimately show ?thesis using inside c len(2) cmp by simp
  qed
qed simp

text \<open>
  (C14) \<^verbatim>\<open>read\<close> on a file: for a descriptor that is open for reading and a buffer that the program has mapped,
  the bytes of the file from the cursor on, as many as the buffer and the file have, are in the buffer, their
  number is the result, the cursor is behind them, and neither the file nor any other byte of the program
  changes.
\<close>

theorem read_file_correct:
  assumes inv: "vm_inv (user_memory k)" and buf: "user_slice (user_memory k) ptr (unat cnt) = Some (Some old)"
    and fd: "lookup_slot (fd_mappings (process_data k)) fd = Some (Regular i)"
    and node: "unwrap_at (open_nodes (process_data k)) i = Some node" "node_flags node AND O_RDONLY \<noteq> 0" "vfs_node node = File f"
    and content: "file_holds dev (world k) f content" and small: "unat cnt < 2 ^ 31" "unat (cursor node) < 2 ^ 63"
  defines "bytes \<equiv> take (unat cnt) (drop (unat (cursor node)) content)"
  shows "\<exists>m. read_fd dev k fd ptr cnt = Some (Some (of_nat (length bytes)),
      k\<lparr>user_memory := m, process_data := set_node i (node\<lparr>cursor := cursor node + of_nat (length bytes)\<rparr>) (process_data k)\<rparr>)
    \<and> vm_inv m \<and> (\<forall>j < length bytes. vm_byte m (ptr + of_nat j) = Some (bytes ! j))
    \<and> (\<forall>x. length bytes \<le> unat (x - ptr) \<longrightarrow> vm_byte m x = vm_byte (user_memory k) x)"
proof -
  have loop: "read_loop dev (world k) f (cursor node) (unat cnt) 0 = Some bytes"
    using read_loop_content [OF content, of 0 "unat cnt" "unat (cursor node)"] small by (simp add: bytes_def)
  have len: "length bytes \<le> unat cnt" by (simp add: bytes_def)
  obtain m where m: "store_user k ptr bytes = Some (k\<lparr>user_memory := m\<rparr>)" "vm_inv m"
    "\<And>j. j < length bytes \<Longrightarrow> vm_byte m (ptr + of_nat j) = Some (bytes ! j)"
    "\<And>x. length bytes \<le> unat (x - ptr) \<Longrightarrow> vm_byte m x = vm_byte (user_memory k) x"
    by (rule store_user_ok [OF inv buf len]) blast
  have "unat (of_nat (length bytes) :: u64) = length bytes" using len small(1) by (simp add: unsigned_of_nat take_bit_nat_eq_self)
  then have "checked_add (cursor node) (of_nat (length bytes)) = Some (cursor node + of_nat (length bytes))"
    using len small by (simp add: checked_add_nat)
  then have "read_fd dev k fd ptr cnt = Some (Some (of_nat (length bytes)),
      k\<lparr>user_memory := m, process_data := set_node i (node\<lparr>cursor := cursor node + of_nat (length bytes)\<rparr>) (process_data k)\<rparr>)"
    using buf fd node loop m(1) by (simp add: read_fd_def)
  then show ?thesis using m(2-4) by blast
qed

section \<open>Pipes between programs\<close>


section \<open>Opening a file\<close>

lemma unwrap_is_lookup: "unwrap_at xs i = lookup_slot xs i"
  by (auto simp: unwrap_at_def lookup_slot_def index_def)

text \<open>
  \<^verbatim>\<open>open\<close> of a path either returns -1 and leaves the descriptors of the process as they were, when the
  search finds or creates no node, or returns the lowest free descriptor, which now is the node of the
  path, at its start and with the given flags; all other descriptors keep their meaning. It never
  touches the memory of the program or the pipes.
\<close>

theorem open_file_descriptor:
  assumes path: "cstr_user_pointer_to_str (user_memory k) pathname = Some (Some str)"
    "open_path (cwd (process_data k)) (text_of str) = Some path"
    and search: "find_or_create dev (world k) path flags = Some (found, w)"
  shows "\<exists>res k'. open_file dev k pathname flags = Some (res, k')
    \<and> user_memory k' = user_memory k \<and> kernel_pipes k' = kernel_pipes k \<and> world k' = w
    \<and> (case found of
         None \<Rightarrow> res = - 1 \<and> process_data k' = process_data k
       | Some node \<Rightarrow> (\<exists>fd i. res = of_nat fd
           \<and> lookup_slot (fd_mappings (process_data k)) fd = None \<and> (\<forall>j < fd. lookup_slot (fd_mappings (process_data k)) j \<noteq> None)
           \<and> lookup_slot (fd_mappings (process_data k')) = (lookup_slot (fd_mappings (process_data k)))(fd \<mapsto> Regular i)
           \<and> lookup_slot (open_nodes (process_data k)) i = None
           \<and> lookup_slot (open_nodes (process_data k')) = (lookup_slot (open_nodes (process_data k)))(i \<mapsto>
               ProcessNode.make node 0 flags path 1)))"
proof (cases found)
  case None
  then show ?thesis using assms by (simp add: open_file_def)
next
  case (Some node)
  let ?n = "ProcessNode.make node 0 flags path 1"
  obtain i nodes where i: "place (open_nodes (process_data k)) ?n = (i, nodes)" by fastforce
  obtain fd fds where fd: "place (fd_mappings (process_data k)) (Regular i) = (fd, fds)" by fastforce
  have "open_file dev k pathname flags
      = Some (of_nat fd, k\<lparr>world := w, process_data := process_data k\<lparr>open_nodes := nodes, fd_mappings := fds\<rparr>\<rparr>)"
    using assms Some i [unfolded ProcessNode.make_def] fd by (simp add: open_file_def install_node_def ProcessNode.make_def)
  moreover note slots.insert_fresh [of "open_nodes (process_data k)" ?n] slots.lookup_insert [of "open_nodes (process_data k)" ?n]
    slots.insert_fresh [of "fd_mappings (process_data k)" "Regular i"] slots.lookup_insert [of "fd_mappings (process_data k)" "Regular i"]
    slots.insert_lowest [of _ "fd_mappings (process_data k)" "Regular i"]
  ultimately show ?thesis using Some i fd by auto
qed

section \<open>A small file system\<close>

definition demo_devices :: "(u8 list, unit, unit, unit, u8 list) devices" where
  "demo_devices = \<lparr>dev_get_size = \<lambda>w _. Some (of_nat (length w)),
     dev_read = \<lambda>w _ off n. Some (if unat off + unat n \<le> length w then Some (take (unat n) (drop (unat off) w)) else None),
     dev_write = \<lambda>w _ off bs. Some (Some (of_nat (length bs)), take (unat off) w @ bs @ drop (unat off + length bs) w),
     dev_resize = \<lambda>w _ n. Some (Some (), take (unat n) w @ replicate (unat n - length w) 0),
     dev_children = \<lambda>_ _. [(''a'', File ())], dev_create_file = \<lambda>w _ _. Some (None, w), dev_unlink = \<lambda>w _ _. Some (None, w),
     VFS_ROOT = RootFSNode ''/'' [] (Some ()), screen = demo_fb, keyboard_ports = demo_ports\<rparr>"

definition demo_node :: "(unit, unit) Node ProcessNode" where
  "demo_node = ProcessNode.make (File ()) 1 O_RDWR ''/a'' 1"

definition demo_kernel :: "(u8 list, (unit, unit) Node, unit, u8 list) kernel" where
  "demo_kernel = \<lparr>world = [1, 2, 3], kernel_pipes = [Some \<lparr>pipe_buf = [], readers_count = 1, writers_count = 1\<rparr>],
     TERMINAL = terminal_new () black, KEYBOARD_INPUT = \<lparr>hardware = [], active_modifiers = no_modifiers\<rparr>,
     user_memory = \<lparr>vm_map = [\<lparr>virtual_start = 0x1000, backing_storage = [0x2F, 0x61, 0, 0, 0, 0, 0, 0]\<rparr>]\<rparr>,
     process_data = ProcessData_new ''/'' Map.empty (alloc_from 0x2000 0x100 True)
       \<lparr>open_nodes := [Some demo_node], fd_mappings := [Some (Regular 0), Some (PipeWriteEnd 0), Some (PipeReadEnd 0)]\<rparr>\<rparr>"

lemma demo_file_holds: "file_holds demo_devices w () w" if "length w < 2 ^ 63"
proof -
  have "unat (of_nat i :: u64) = i" if "i \<le> length w" for i
    using that \<open>length w < 2 ^ 63\<close> by (simp add: unsigned_of_nat take_bit_nat_eq_self)
  moreover have "take (Suc 0) (drop i w) = [w ! i]" if "i < length w" for i using that by (simp add: take_Suc_conv_app_nth)
  ultimately show ?thesis using that by (simp add: file_holds_def demo_devices_def)
qed

lemma demo_kernel_memory:
  "vm_inv (user_memory demo_kernel)" "user_slice (user_memory demo_kernel) 0x1000 (unat (8 :: u64)) = Some (Some [0x2F, 0x61, 0, 0, 0, 0, 0, 0])"
  "user_slice (user_memory demo_kernel) 0x1000 (unat (2 :: u64)) = Some (Some [0x2F, 0x61])"
  by (simp_all add: demo_kernel_def vm_inv_def region_ok_def region_len_def user_slice_def try_map_def region_try_map_def
      get_virtual_end_inclusive_def checked_sub_def checked_add_nat)

theorem read_file_correct_witness:
  "\<exists>k' m. read_fd demo_devices demo_kernel 0 0x1000 8 = Some (Some 2, k') \<and> user_memory k' = m
     \<and> vm_byte m 0x1000 = Some 2 \<and> vm_byte m 0x1001 = Some 3"
proof -
  have fd: "lookup_slot (fd_mappings (process_data demo_kernel)) 0 = Some (Regular 0)"
    "unwrap_at (open_nodes (process_data demo_kernel)) 0 = Some demo_node"
    by (simp_all add: demo_kernel_def lookup_slot_def unwrap_at_def)
  have node: "node_flags demo_node AND O_RDONLY \<noteq> 0" "vfs_node demo_node = File ()" "cursor demo_node = 1"
    by (simp_all add: demo_node_def ProcessNode.make_def O_RDONLY_def O_RDWR_def O_WRONLY_def)
  have w: "world demo_kernel = [1, 2, 3]" by (simp add: demo_kernel_def)
  have f: "file_holds demo_devices (world demo_kernel) () [1, 2, 3]" using demo_file_holds [of "[1, 2, 3]"] w by simp
  from read_file_correct [OF demo_kernel_memory(1,2) fd node(1,2) f] node(3)
  obtain m where "read_fd demo_devices demo_kernel 0 0x1000 8 = Some (Some 2, demo_kernel\<lparr>user_memory := m,
      process_data := set_node 0 (demo_node\<lparr>cursor := 1 + 2\<rparr>) (process_data demo_kernel)\<rparr>)"
    "\<forall>j < 2. vm_byte m (0x1000 + of_nat j) = Some ([2, 3] ! j)" by auto
  then show ?thesis by (auto dest: spec [of _ 0] spec [of _ 1])
qed


theorem open_file_descriptor_witness:
  "\<exists>res k' fd i. open_file demo_devices demo_kernel 0x1000 O_RDONLY = Some (res, k') \<and> res = of_nat fd
     \<and> lookup_slot (fd_mappings (process_data k')) fd = Some (Regular i)"
proof -
  have str: "cstr_user_pointer_to_str (user_memory demo_kernel) 0x1000 = Some (Some [0x2F, 0x61])"
    by (simp add: demo_kernel_def cstr_user_pointer_to_str_def try_map_def region_try_map_def
        get_virtual_end_inclusive_def checked_sub_def checked_add_nat region_len_def from_utf8_def Let_def)
  have path: "open_path (cwd (process_data demo_kernel)) (text_of [0x2F, 0x61]) = Some ''/a''"
    unfolding demo_kernel_def by code_simp
  have "find_or_create demo_devices (world demo_kernel) ''/a'' O_RDONLY = Some (Some (File ()), world demo_kernel)"
    unfolding demo_kernel_def by code_simp
  from open_file_descriptor [OF str path this] show ?thesis by auto
qed

end
