(* ===== verification/Syscall_Exec.thy ===== *)
theory Syscall_Exec
  imports Syscall_Files "HOL-Library.Char_ord" "HOL-Library.List_Lexorder"
begin

text \<open>
  The system calls that replace the running program: \<^verbatim>\<open>fexecve\<close>, \<^verbatim>\<open>execve\<close> and \<^verbatim>\<open>execvpe\<close> with the module
  \<^verbatim>\<open>exec_internal\<close> of \<^verbatim>\<open>src/kernel/src/syscall.rs\<close>.

  Arguments and values of the environment are lists of bytes, names and paths \<open>string\<close>s (ASCII, as in the
  virtual file system). A \<^verbatim>\<open>BTreeMap\<close> is a map; iterating over it goes through its keys in their order. The
  results \<^verbatim>\<open>Ok(())\<close> and \<^verbatim>\<open>Err(-1)\<close> are \<open>True\<close> and \<open>False\<close>. \<open>None\<close> is a panic, or a read of the kernel
  behind the end of a region, which is undefined behaviour.
\<close>

section \<open>Arguments and environment of the caller\<close>

definition entries :: "(string \<rightharpoonup> 'v) \<Rightarrow> (string \<times> 'v) list" where
  "entries env0 = map (\<lambda>key. (key, the (env0 key))) (sorted_list_of_set (dom env0))"

text \<open>The words of a vector of pointers up to the null pointer.\<close>

function words_until_null :: "u8 list \<Rightarrow> u64 list option" where
  "words_until_null bs =
     (if length bs < 8 then None
      else let word = from_le_bytes (take 8 bs) in
        if word = 0 then Some []
        else map_option (\<lambda>ws. word # ws) (words_until_null (drop 8 bs)))"
  by pat_completeness auto
termination by (relation "measure length") auto

declare words_until_null.simps [simp del]

definition user_pointers :: "LittleEndianVirtualMemory \<Rightarrow> u64 \<Rightarrow> u64 list option option" where
  "user_pointers m ptr = do {
     hit \<leftarrow> try_map m ptr;
     (case hit of
        None \<Rightarrow> Some None
      | Some (r, info) \<Rightarrow> map_option Some (words_until_null (drop (offset_in_region info) (backing_storage r)))) }"

primrec parse_strings :: "LittleEndianVirtualMemory \<Rightarrow> u64 list \<Rightarrow> u8 list list option option" where
  "parse_strings m [] = Some (Some [])"
| "parse_strings m (ptr # ptrs) = do {
     arg \<leftarrow> cstr_user_pointer_to_str m ptr;
     (case arg of
        None \<Rightarrow> Some None
      | Some arg \<Rightarrow> do {
          rest \<leftarrow> parse_strings m ptrs;
          Some (map_option (\<lambda>args. arg # args) rest) }) }"

definition parse_exec_args :: "LittleEndianVirtualMemory \<Rightarrow> u64 \<Rightarrow> u8 list list option option" where
  "parse_exec_args m argv = do {
     args_ref \<leftarrow> user_pointers m argv;
     (case args_ref of None \<Rightarrow> Some None | Some ptrs \<Rightarrow> parse_strings m ptrs) }"

definition split_once :: "'a \<Rightarrow> 'a list \<Rightarrow> ('a list \<times> 'a list) option" where
  "split_once c s = (if c \<in> set s then Some (takeWhile (\<lambda>x. x \<noteq> c) s, tl (dropWhile (\<lambda>x. x \<noteq> c) s)) else None)"

primrec parse_env_strings ::
  "LittleEndianVirtualMemory \<Rightarrow> u64 list \<Rightarrow> (string \<rightharpoonup> u8 list) \<Rightarrow> (string \<rightharpoonup> u8 list) option option" where
  "parse_env_strings m [] parsed_env = Some (Some parsed_env)"
| "parse_env_strings m (ptr # ptrs) parsed_env = do {
     env_str \<leftarrow> cstr_user_pointer_to_str m ptr;
     (case env_str of
        None \<Rightarrow> Some None
      | Some env_str \<Rightarrow> (case split_once 0x3D env_str of
          None \<Rightarrow> Some None
        | Some (name, val) \<Rightarrow> parse_env_strings m ptrs (parsed_env(text_of name \<mapsto> val)))) }"

definition parse_exec_env :: "LittleEndianVirtualMemory \<Rightarrow> u64 \<Rightarrow> (string \<rightharpoonup> u8 list) option option" where
  "parse_exec_env m envp = do {
     envs_ref \<leftarrow> user_pointers m envp;
     (case envs_ref of None \<Rightarrow> Some None | Some ptrs \<Rightarrow> parse_env_strings m ptrs Map.empty) }"

primrec inherit_env ::
  "LittleEndianVirtualMemory \<Rightarrow> (string \<times> u64) list \<Rightarrow> (string \<rightharpoonup> u8 list) \<Rightarrow> (string \<rightharpoonup> u8 list) option option" where
  "inherit_env m [] env0 = Some (Some env0)"
| "inherit_env m (var # vars) env0 = do {
     val \<leftarrow> cstr_user_pointer_to_str m (snd var);
     (case val of
        None \<Rightarrow> Some None
      | Some val \<Rightarrow> inherit_env m vars (env0(fst var \<mapsto> val))) }"

definition parse_argv_and_envp_with_envp_quirk ::
  "LittleEndianVirtualMemory \<Rightarrow> 'n ProcessData \<Rightarrow> u64 \<Rightarrow> u64 \<Rightarrow> (u8 list list \<times> (string \<rightharpoonup> u8 list)) option option" where
  "parse_argv_and_envp_with_envp_quirk m p argv envp = do {
     parsed_args \<leftarrow> parse_exec_args m argv;
     (case parsed_args of
        None \<Rightarrow> Some None
      | Some parsed_args \<Rightarrow> do {
          parsed_env \<leftarrow> (if envp \<noteq> 0 then parse_exec_env m envp else inherit_env m (entries (env p)) Map.empty);
          Some (map_option (\<lambda>parsed_env. (parsed_args, parsed_env)) parsed_env) }) }"

section \<open>Replacing the program\<close>

type_synonym 'n machine = "emulator \<times> 'n ProcessData"

text \<open>The part of \<^verbatim>\<open>exec\<close> behind the checks of an ELF file: past it, a failure ends the process.\<close>

definition exec_elf ::
  "(u64 \<Rightarrow> bool) \<Rightarrow> u8 list \<Rightarrow> ElfFile \<Rightarrow> 'n machine \<Rightarrow> u8 list list \<Rightarrow> (string \<rightharpoonup> u8 list) \<Rightarrow> (bool \<times> 'n machine) option" where
  "exec_elf room file_bytes elf s args envs = (case s of (cpu, p) \<Rightarrow> do {
     let cpu = reset_registers (cpu\<lparr>memory := clear_regions (memory cpu)\<rparr>) (program_entry (elf_header elf));
     (lower, m) \<leftarrow> load_elf_into_virtual_memory room (program_headers elf) file_bytes 0 (memory cpu);
     (case lower of
        None \<Rightarrow> Some (False, cpu\<lparr>memory := m\<rparr>, exit p 0xDED)
      | Some lower_virt_addr \<Rightarrow> do {
          assert_that (room PROGRAM_STACK_SIZE);
          (r, m) \<leftarrow> add_region m program_stack_start (replicate (unat PROGRAM_STACK_SIZE) 0);
          (case r of
             None \<Rightarrow> Some (False, cpu\<lparr>memory := m\<rparr>, exit p 0xDED)
           | Some _ \<Rightarrow> do {
               va \<leftarrow> heap_for lower_virt_addr;
               (r, m, va) \<leftarrow> load_args_into_virtual_memory room args (of_nat (length args)) m va;
               (case r of
                  None \<Rightarrow> Some (False, cpu\<lparr>memory := m\<rparr>, exit (p\<lparr>virtual_allocator := va\<rparr>) 0xDED)
                | Some argv \<Rightarrow> do {
                    (r, m, va) \<leftarrow> load_env_into_virtual_memory room (entries envs) Map.empty m va;
                    let p = p\<lparr>virtual_allocator := va\<rparr>;
                    (case r of
                       None \<Rightarrow> Some (False, cpu\<lparr>memory := m\<rparr>, exit p 0xDED)
                     | Some prog_env \<Rightarrow> do {
                         cpu \<leftarrow> write_reg (cpu\<lparr>memory := m\<rparr>) 10 (of_nat (length args));
                         cpu \<leftarrow> write_reg cpu 11 argv;
                         Some (True, cpu, p\<lparr>env := prog_env\<rparr>) }) }) }) }) })"

definition string_bytes :: "string \<Rightarrow> u8 list" where
  "string_bytes s = map of_char s"

text \<open>The first line of a script: the interpreter and its optional argument.\<close>

definition script_line :: "u8 list \<Rightarrow> (string \<times> string option) option" where
  "script_line file_bytes = do {
     first_line \<leftarrow> from_utf8 (takeWhile (\<lambda>b. b \<noteq> 0x0A) file_bytes);
     let first_line = trim (drop 2 (text_of first_line));
     Some (case split_once CHR '' '' first_line of
         Some (interpreter, opt_arg) \<Rightarrow> (interpreter, Some opt_arg)
       | None \<Rightarrow> (first_line, None)) }"

definition is_script :: "u8 list \<Rightarrow> bool option" where
  "is_script file_bytes = do {
     b0 \<leftarrow> index file_bytes 0;
     if b0 = 0x23 then do { b1 \<leftarrow> index file_bytes 1; Some (b1 = 0x21) } else Some False }"

function exec ::
  "(u64 \<Rightarrow> bool) \<Rightarrow> decoder \<Rightarrow> ('w, 'f, 'd, 'b, 'h) devices \<Rightarrow> 'w \<Rightarrow> 'n machine \<Rightarrow> ('f, 'd) Node \<Rightarrow> string \<Rightarrow> u8 list list
     \<Rightarrow> (string \<rightharpoonup> u8 list) \<Rightarrow> nat \<Rightarrow> (bool \<times> 'n machine) option" where
  "exec room dcd dev w s node path args envs recursion_depth =
     (if recursion_depth > 100 then Some (False, s)
      else (case node of
          Folder _ \<Rightarrow> Some (False, s)
        | File f \<Rightarrow> do {
            file_size \<leftarrow> dev_get_size dev w f;
            r \<leftarrow> dev_read dev w f 0 file_size;
            (case r of
               None \<Rightarrow> Some (False, s)
             | Some file_bytes \<Rightarrow> do {
                 elf \<leftarrow> from_bytes dcd file_bytes;
                 (case elf of
                    Some elf \<Rightarrow>
                      if instruction_set (elf_header elf) \<noteq> RiscV then Some (False, s)
                      else if elf_type (elf_header elf) \<noteq> EXECUTABLE then Some (False, s)
                      else exec_elf room file_bytes elf s args envs
                  | None \<Rightarrow> do {
                      script \<leftarrow> is_script file_bytes;
                      if \<not> script then Some (False, s)
                      else (case script_line file_bytes of
                          None \<Rightarrow> Some (False, s)
                        | Some (interpreter, opt_arg) \<Rightarrow> (case path_from_str interpreter of
                            None \<Rightarrow> Some (False, s)
                          | Some interpreter_path \<Rightarrow> do {
                              found \<leftarrow> node_of dev w interpreter_path;
                              (case found of
                                 None \<Rightarrow> Some (False, s)
                               | Some interpreter_node \<Rightarrow>
                                   exec room dcd dev w s interpreter_node interpreter_path
                                     ([string_bytes interpreter_path]
                                       @ (case opt_arg of Some a \<Rightarrow> [string_bytes a] | None \<Rightarrow> [])
                                       @ [string_bytes path] @ drop 1 args)
                                     envs (recursion_depth + 1)) })) }) }) }))"
  by pat_completeness auto
termination
  by (relation "measure (\<lambda>(_, _, _, _, _, _, _, _, _, depth). 101 - depth)") auto

declare exec.simps [simp del]

section \<open>The system calls\<close>

definition fexecve ::
  "(u64 \<Rightarrow> bool) \<Rightarrow> decoder \<Rightarrow> ('w, 'f, 'd, 'b, 'h) devices \<Rightarrow> 'w \<Rightarrow> ('f, 'd) Node machine \<Rightarrow> nat \<Rightarrow> u64 \<Rightarrow> u64
     \<Rightarrow> (bool \<times> ('f, 'd) Node machine) option" where
  "fexecve room dcd dev w s fd argv envp = (case s of (cpu, p) \<Rightarrow>
     (case lookup_slot (fd_mappings p) fd of
        Some (Regular node_index) \<Rightarrow> do {
          node \<leftarrow> unwrap_at (open_nodes p) node_index;
          if node_flags node AND O_RDONLY = 0 then Some (False, s)
          else do {
            parsed \<leftarrow> parse_argv_and_envp_with_envp_quirk (memory cpu) p argv envp;
            (case parsed of
               None \<Rightarrow> Some (False, s)
             | Some (args, envs) \<Rightarrow> exec room dcd dev w s (vfs_node node) (Process.node_path node) args envs 0) } }
      | _ \<Rightarrow> Some (False, s)))"

definition exec_path ::
  "(u64 \<Rightarrow> bool) \<Rightarrow> decoder \<Rightarrow> ('w, 'f, 'd, 'b, 'h) devices \<Rightarrow> 'w \<Rightarrow> 'n machine \<Rightarrow> ('f, 'd) Node \<Rightarrow> string \<Rightarrow> u64 \<Rightarrow> u64
     \<Rightarrow> (bool \<times> 'n machine) option" where
  "exec_path room dcd dev w s node path argv envp = (case s of (cpu, p) \<Rightarrow> do {
     parsed \<leftarrow> parse_argv_and_envp_with_envp_quirk (memory cpu) p argv envp;
     (case parsed of
        None \<Rightarrow> Some (False, s)
      | Some (args, envs) \<Rightarrow> exec room dcd dev w s node path args envs 0) })"

definition execve ::
  "(u64 \<Rightarrow> bool) \<Rightarrow> decoder \<Rightarrow> ('w, 'f, 'd, 'b, 'h) devices \<Rightarrow> 'w \<Rightarrow> 'n machine \<Rightarrow> u64 \<Rightarrow> u64 \<Rightarrow> u64
     \<Rightarrow> (bool \<times> 'n machine) option" where
  "execve room dcd dev w s pathname argv envp = do {
     r \<leftarrow> cstr_user_pointer_to_str (memory (fst s)) pathname;
     (case r of
        None \<Rightarrow> Some (False, s)
      | Some str \<Rightarrow> (case path_from_str (text_of str) of
          None \<Rightarrow> Some (False, s)
        | Some path \<Rightarrow> do {
            path \<leftarrow> canonicalize path;
            found \<leftarrow> node_of dev w path;
            (case found of
               None \<Rightarrow> Some (False, s)
             | Some node \<Rightarrow> exec_path room dcd dev w s node path argv envp) })) }"

text \<open>The search for a file name in the directories of \<^verbatim>\<open>PATH\<close>.\<close>

primrec path_search ::
  "('w, 'f, 'd, 'b, 'h) devices \<Rightarrow> 'w \<Rightarrow> string \<Rightarrow> string list \<Rightarrow> (string \<times> ('f, 'd) Node) option option" where
  "path_search dev w name [] = Some None"
| "path_search dev w name (dir # dirs) = (case path_from_str dir of
     None \<Rightarrow> path_search dev w name dirs
   | Some path \<Rightarrow> do {
       found \<leftarrow> node_of dev w (append_str path name);
       (case found of
          Some node \<Rightarrow> Some (Some (append_str path name, node))
        | None \<Rightarrow> path_search dev w name dirs) })"

definition execvpe ::
  "(u64 \<Rightarrow> bool) \<Rightarrow> decoder \<Rightarrow> ('w, 'f, 'd, 'b, 'h) devices \<Rightarrow> 'w \<Rightarrow> 'n machine \<Rightarrow> u64 \<Rightarrow> u64 \<Rightarrow> u64
     \<Rightarrow> (bool \<times> 'n machine) option" where
  "execvpe room dcd dev w s pathname argv envp = do {
     r \<leftarrow> cstr_user_pointer_to_str (memory (fst s)) pathname;
     (case r of
        None \<Rightarrow> Some (False, s)
      | Some str \<Rightarrow> do {
          direct \<leftarrow> (case path_from_str (text_of str) of
             Some path \<Rightarrow> map_option (map_option (\<lambda>node. (path, node))) (node_of dev w path)
           | None \<Rightarrow> Some None);
          found \<leftarrow> (case direct of
             Some found \<Rightarrow> Some (Some found)
           | None \<Rightarrow> (case env (snd s) ''PATH'' of
               None \<Rightarrow> Some None
             | Some ptr \<Rightarrow> do {
                 path_value \<leftarrow> cstr_user_pointer_to_str (memory (fst s)) ptr;
                 (case path_value of
                    None \<Rightarrow> Some None
                  | Some path_value \<Rightarrow> path_search dev w (text_of str) (split_on CHR '':'' (text_of path_value))) }));
          (case found of
             None \<Rightarrow> Some (False, s)
           | Some (path, node) \<Rightarrow> do {
               path \<leftarrow> canonicalize path;
               exec_path room dcd dev w s node path argv envp }) }) }"

section \<open>A new program in an old process\<close>

lemma cleared_memory: "clear_regions m = vm_new"
  by (simp add: clear_regions_def vm_new_def)

lemma map_fst_entries: "map fst (entries e) = sorted_list_of_set (dom e)"
  by (simp add: entries_def o_def)



lemma text_of_string_bytes: "text_of (string_bytes s) = s"
proof -
  have "char_of (unat (of_char c :: u8)) = c" for c
  proof -
    have "unat (of_char c :: u8) = of_char c"
      using unsigned_of_nat [where ?'b = 8 and ?'a = nat, of "of_char c"] nat_of_char_less_256 [of c]
      by (simp add: of_nat_of_char take_bit_nat_eq_self)
    then show ?thesis by simp
  qed
  then show ?thesis by (simp add: text_of_def string_bytes_def o_def)
qed

lemma trim_id: "s \<noteq> [] \<Longrightarrow> \<not> is_whitespace (hd s) \<Longrightarrow> \<not> is_whitespace (last s) \<Longrightarrow> trim s = s"
proof -
  assume s: "s \<noteq> []" "\<not> is_whitespace (hd s)" "\<not> is_whitespace (last s)"
  have "dropWhile is_whitespace s = s" using s by (cases s) simp_all
  moreover have "dropWhile is_whitespace (rev s) = rev s" using s by (cases s rule: rev_cases) simp_all
  ultimately show ?thesis by (simp add: trim_def)
qed

lemma split_once_append: "c \<notin> set xs \<Longrightarrow> split_once c (xs @ c # ys) = Some (xs, ys)"
  by (induction xs) (auto simp: split_once_def)

lemma script_line_eq:
  assumes bs: "bs = [0x23, 0x21] @ string_bytes line @ 0x0A # rest" and pr: "\<forall>c \<in> set line. of_char c \<in> {32 ..< 127 :: nat}"
    and ends: "line \<noteq> []" "hd line \<noteq> CHR '' ''" "last line \<noteq> CHR '' ''"
  shows "is_script bs = Some True"
    "script_line bs = Some (case split_once CHR '' '' line of Some (i, a) \<Rightarrow> (i, Some a) | None \<Rightarrow> (line, None))"
proof -
  show "is_script bs = Some True" by (simp add: is_script_def bs)
  have byte: "unat (of_char c :: u8) = of_char c" for c
    using unsigned_of_nat [where ?'b = 8 and ?'a = nat, of "of_char c"] nat_of_char_less_256 [of c]
    by (simp add: of_nat_of_char take_bit_nat_eq_self)
  have b: "b < 0x80 \<and> b \<noteq> 0x0A" if "b \<in> set (string_bytes line)" for b
  proof -
    obtain c where c: "c \<in> set line" "b = of_char c" using \<open>b \<in> set (string_bytes line)\<close> by (auto simp: string_bytes_def)
    have u: "unat b = of_char c" using byte c(2) by simp
    have r: "of_char c \<in> {32 ..< 127 :: nat}" using pr c(1) by blast
    have "b < 0x80" using u r by (simp add: word_less_nat_alt)
    moreover have "b \<noteq> 0x0A"
    proof
      assume "b = 0x0A"
      then show False using u r by simp
    qed
    ultimately show ?thesis by simp
  qed
  have "takeWhile (\<lambda>b. b \<noteq> 0x0A) bs = [0x23, 0x21] @ string_bytes line" using b by (simp add: bs takeWhile_append2)
  moreover have "valid_utf8 ([0x23, 0x21] @ string_bytes line)" using b by (intro valid_utf8_ascii) (simp add: ascii_def)
  moreover have "text_of ([0x23, 0x21] @ string_bytes line) = text_of [0x23, 0x21] @ line"
    using text_of_string_bytes [of line] by (simp add: text_of_def)
  moreover have "trim line = line"
  proof (rule trim_id [OF ends(1)])
    have ws: "\<not> is_whitespace c" if "c \<in> set line" "c \<noteq> CHR '' ''" for c
      using bspec [OF pr that(1)] that(2) by (auto simp: is_whitespace_def)
    show "\<not> is_whitespace (hd line)" "\<not> is_whitespace (last line)" using ws ends by simp_all
  qed
  ultimately show "script_line bs = Some (case split_once CHR '' '' line of Some (i, a) \<Rightarrow> (i, Some a) | None \<Rightarrow> (line, None))"
    by (simp add: script_line_def from_utf8_def text_of_def del: valid_utf8.simps)
qed

text \<open>
  (C36) A script whose interpreter is a program: \<^verbatim>\<open>exec\<close> runs the interpreter with its path, the argument of the
  first line if there is one, the path of the script, and the arguments of the call but for the first.
\<close>

theorem exec_script_runs_interpreter:
  assumes content: "dev_get_size dev w f = Some sz" "dev_read dev w f 0 sz = Some (Some bs)" "from_bytes dcd bs = Some None"
    and script: "bs = [0x23, 0x21] @ string_bytes line @ 0x0A # rest" "\<forall>c \<in> set line. of_char c \<in> {32 ..< 127 :: nat}"
    and line: "line = interpreter \<and> opt = [] \<and> CHR '' '' \<notin> set interpreter
      \<or> line = interpreter @ CHR '' '' # arg \<and> opt = [string_bytes arg] \<and> CHR '' '' \<notin> set interpreter \<and> arg \<noteq> [] \<and> last arg \<noteq> CHR '' ''"
    and found: "path_from_str interpreter = Some ipath" "node_of dev w ipath = Some (Some node)" and depth: "depth \<le> 100"
  shows "exec room dcd dev w s (File f) path args envs depth
    = exec room dcd dev w s node ipath ([string_bytes ipath] @ opt @ [string_bytes path] @ tl args) envs (depth + 1)"
proof -
  have i: "interpreter \<noteq> []" "hd interpreter = CHR ''/''"
    using found(1) by (cases interpreter; simp add: path_from_str_def split: if_splits)+
  have ends: "line \<noteq> []" "hd line \<noteq> CHR '' ''" "last line \<noteq> CHR '' ''" using line i by (auto simp: hd_append last_in_set dest: last_in_set)
  note s = script_line_eq [OF script ends]
  have "script_line bs = Some (interpreter, None) \<and> opt = [] \<or> (\<exists>arg. script_line bs = Some (interpreter, Some arg) \<and> opt = [string_bytes arg])"
    using line
  proof
    assume "line = interpreter \<and> opt = [] \<and> CHR '' '' \<notin> set interpreter"
    then show ?thesis using s(2) by (simp add: split_once_def)
  next
    assume "line = interpreter @ CHR '' '' # arg \<and> opt = [string_bytes arg] \<and> CHR '' '' \<notin> set interpreter \<and> arg \<noteq> [] \<and> last arg \<noteq> CHR '' ''"
    then show ?thesis using s(2) by (simp add: split_once_append)
  qed
  then show ?thesis using content s(1) found depth by (subst exec.simps) (auto simp: drop_Suc)
qed

section \<open>Arguments from memory\<close>

lemma words_until_null_eq:
  "\<forall>p \<in> set ptrs. p \<noteq> 0 \<Longrightarrow> words_until_null (concat (map to_le_bytes ptrs) @ to_le_bytes (0 :: u64) @ rest) = Some ptrs"
proof (induction ptrs)
  case Nil
  show ?case by (subst words_until_null.simps) (simp add: from_to_le_bytes)
next
  case (Cons p ptrs)
  then show ?case by (subst words_until_null.simps) (simp add: from_to_le_bytes)
qed

lemma words_unterminated: "\<forall>p \<in> set ptrs. p \<noteq> 0 \<Longrightarrow> words_until_null (concat (map to_le_bytes (ptrs :: u64 list))) = None"
proof (induction ptrs)
  case Nil
  show ?case by (subst words_until_null.simps) (simp add: from_to_le_bytes)
next
  case (Cons p ptrs)
  then show ?case by (subst words_until_null.simps) (simp add: from_to_le_bytes)
qed

lemma try_map_start:
  assumes "vm_inv m" "r \<in> set (vm_map m)" "0 < region_len r"
  shows "\<exists>k. try_map m (virtual_start r) = Some (Some (r, \<lparr>offset_in_region = 0, region_index = k\<rparr>))"
proof -
  obtain k where k: "k < length (vm_map m)" "vm_map m ! k = r" using assms(2) by (auto simp: in_set_conv_nth)
  have "contains (vm_map m ! k) (virtual_start r)" using assms(3) by (simp add: k(2) contains_def)
  from try_map_hit [OF assms(1) k(1) this] show ?thesis by (simp add: k(2))
qed

text \<open>A string in memory: it starts a region, with its terminator behind it.\<close>

definition string_at :: "LittleEndianVirtualMemory \<Rightarrow> u64 \<Rightarrow> u8 list \<Rightarrow> bool" where
  "string_at m ptr s \<longleftrightarrow> ascii s \<and> 0 \<notin> set s \<and>
     (\<exists>r \<in> set (vm_map m). virtual_start r = ptr \<and> (\<exists>rest. backing_storage r = s @ 0 # rest))"

lemma cstr_string_at:
  assumes "vm_inv m" "string_at m ptr s"
  shows "cstr_user_pointer_to_str m ptr = Some (Some s)"
proof -
  obtain r rest where r: "r \<in> set (vm_map m)" "virtual_start r = ptr" "backing_storage r = s @ 0 # rest" "ascii s" "0 \<notin> set s"
    using assms(2) by (auto simp: string_at_def)
  obtain k where "try_map m ptr = Some (Some (r, \<lparr>offset_in_region = 0, region_index = k\<rparr>))"
    using try_map_start [OF assms(1) r(1)] r(2,3) by (auto simp: region_len_def)
  moreover have "takeWhile (\<lambda>b. b \<noteq> 0) (s @ 0 # rest) = s" using r(5) by (subst takeWhile_append2) auto
  ultimately show ?thesis using r(3,4)
    by (simp add: cstr_user_pointer_to_str_def from_utf8_def valid_utf8_ascii)
qed

lemma parse_strings_eq:
  "vm_inv m \<Longrightarrow> list_all2 (string_at m) ptrs ss \<Longrightarrow> parse_strings m ptrs = Some (Some ss)"
  by (induction ptrs arbitrary: ss) (auto simp: list_all2_Cons1 cstr_string_at)

text \<open>
  \<^verbatim>\<open>execve\<close> reads the arguments that the caller means: for a vector of pointers that ends with the null
  pointer, and whose pointers are ASCII strings of the caller, the parsed arguments are these strings.
\<close>

theorem parse_exec_args_correct:
  assumes inv: "vm_inv m" and vec: "r \<in> set (vm_map m)" "backing_storage r = concat (map to_le_bytes ptrs) @ to_le_bytes (0 :: u64) @ rest"
    and strings: "list_all2 (string_at m) ptrs args"
  shows "parse_exec_args m (virtual_start r) = Some (Some args)"
proof -
  have nz: "\<forall>p \<in> set ptrs. p \<noteq> 0"
  proof
    fix p assume "p \<in> set ptrs"
    then obtain s where "string_at m p s" using strings by (auto simp: list_all2_conv_all_nth in_set_conv_nth)
    then obtain q where "q \<in> set (vm_map m)" "virtual_start q = p" by (auto simp: string_at_def)
    then show "p \<noteq> 0" using inv by (auto simp: vm_inv_def region_ok_def)
  qed
  have "0 < region_len r" by (simp add: region_len_def vec(2))
  then obtain k where "try_map m (virtual_start r) = Some (Some (r, \<lparr>offset_in_region = 0, region_index = k\<rparr>))"
    using try_map_start [OF inv vec(1)] by blast
  then have "user_pointers m (virtual_start r) = Some (Some ptrs)"
    using words_until_null_eq [OF nz, of rest] by (simp add: user_pointers_def vec(2))
  then show ?thesis by (simp add: parse_exec_args_def parse_strings_eq [OF inv strings])
qed

text \<open>
  (C38) A program that passes its own argument vector on to \<^verbatim>\<open>execve\<close> makes the kernel read behind the end
  of a region: the vector that a new process gets has no null pointer at its end.
\<close>

theorem own_argv_is_undefined:
  assumes h: "heap_inv m a live" and args: "args \<noteq> []" "length args < 2 ^ 50" "\<forall>s \<in> set args. length s < 2 ^ 61" and room: "\<forall>n. room n"
    and space: "unat (heap_next a) + 64 * length args + strings_size args + 1 < unat (heap_len a)"
    and count: "length live + length args + 1 < 2 ^ 64"
  shows "\<exists>argv m' a'. load_args_into_virtual_memory room args (of_nat (length args)) m a = Some (Some argv, m', a')
    \<and> parse_exec_args m' argv = None"
proof -
  obtain argv ptrs m' a' live' where l: "load_args_into_virtual_memory room args (of_nat (length args)) m a = Some (Some argv, m', a')"
    and ptrs: "length ptrs = length args" and map': "vm_map m' = vm_map m @ map2 string_region ptrs args
      @ [\<lparr>virtual_start = argv, backing_storage = concat (map to_le_bytes ptrs)\<rparr>]"
    and h': "heap_inv m' a' live'"
    using load_args_ok [where room = room, OF assms] by blast
  let ?R = "\<lparr>virtual_start = argv, backing_storage = concat (map to_le_bytes ptrs)\<rparr>"
  have inv: "vm_inv m'" using h' by (simp add: heap_inv_def)
  have nz: "\<forall>p \<in> set ptrs. p \<noteq> 0"
  proof
    fix p assume "p \<in> set ptrs"
    then obtain i where "i < length args" "p = ptrs ! i" using ptrs by (auto simp: in_set_conv_nth)
    then have "string_region p (args ! i) \<in> set (vm_map m')" using zip_region_mem [OF _ ptrs] map' by auto
    then show "p \<noteq> 0" using inv by (auto simp: vm_inv_def region_ok_def)
  qed
  have "0 < region_len ?R" using args(1) ptrs by (cases ptrs) (simp_all add: region_len_def)
  then obtain k where "try_map m' argv = Some (Some (?R, \<lparr>offset_in_region = 0, region_index = k\<rparr>))"
    using try_map_start [OF inv, of ?R] map' by auto
  then have "parse_exec_args m' argv = None"
    using words_unterminated [OF nz] by (simp add: parse_exec_args_def user_pointers_def)
  then show ?thesis using l by blast
qed

section \<open>Two files\<close>

text \<open>The program \<^verbatim>\<open>/p\<close>, the script \<^verbatim>\<open>/s\<close> that runs it and the script \<^verbatim>\<open>/l\<close> that runs itself.\<close>

definition script_file :: "string \<Rightarrow> u8 list" where
  "script_file interpreter = [0x23, 0x21] @ string_bytes interpreter @ [0x0A, 0x0A, 0x0A, 0x0A]"

definition exec_files :: "nat \<Rightarrow> u8 list" where
  "exec_files n = (if n = 0 then small_file else if n = 1 then script_file ''/p'' else script_file ''/l'')"

definition exec_devices :: "(unit, nat, unit, unit, u8 list) devices" where
  "exec_devices = \<lparr>dev_get_size = \<lambda>_ f. Some (of_nat (length (exec_files f))),
     dev_read = \<lambda>_ f off n. Some (if unat off + unat n \<le> length (exec_files f) then Some (take (unat n) (drop (unat off) (exec_files f))) else None),
     dev_write = \<lambda>w _ _ _. Some (None, w), dev_resize = \<lambda>w _ _. Some (None, w),
     dev_children = \<lambda>_ _. [(''p'', File 0), (''s'', File 1), (''l'', File 2)],
     dev_create_file = \<lambda>w _ _. Some (None, w), dev_unlink = \<lambda>w _ _. Some (None, w),
     VFS_ROOT = RootFSNode ''/'' [] (Some ()), screen = demo_fb, keyboard_ports = demo_ports\<rparr>"

definition exec_machine :: "unit machine" where
  "exec_machine = (cpu_from vm_new 0, ProcessData_new ''/'' Map.empty (alloc_from 0x1000 0x1000 True))"

lemma exec_files_read:
  assumes "length (exec_files f) < 2 ^ 63"
  shows "dev_get_size exec_devices () f = Some (of_nat (length (exec_files f)))"
    "dev_read exec_devices () f 0 (of_nat (length (exec_files f))) = Some (Some (exec_files f))"
  using assms by (simp_all add: exec_devices_def unsigned_of_nat take_bit_nat_eq_self)

lemma exec_nodes:
  "node_of exec_devices () ''/p'' = Some (Some (File 0))" "node_of exec_devices () ''/l'' = Some (Some (File 2))"
  by code_simp+

lemma exec_files_small:
  "length (exec_files 0) < 2 ^ 63" "length (exec_files (Suc 0)) < 2 ^ 63" "length (exec_files 2) < 2 ^ 63"
  by (simp_all add: exec_files_def small_file_facts script_file_def string_bytes_def)

lemma exec_scripts:
  "from_bytes demo_decode (exec_files 1) = Some None" "from_bytes demo_decode (exec_files 2) = Some None"
  "is_script (exec_files 2) = Some True" "script_line (exec_files 2) = Some (''/l'', None)"
  by code_simp+

lemma exec_paths: "path_from_str ''/l'' = Some ''/l''" "path_from_str ''/p'' = Some ''/p''"
  by code_simp+



theorem exec_script_runs_interpreter_witness:
  "exec (\<lambda>_. True) demo_decode exec_devices () exec_machine (File 1) ''/s'' [[0x73], [0x61]] Map.empty 0
    = exec (\<lambda>_. True) demo_decode exec_devices () exec_machine (File 0) ''/p'' [string_bytes ''/p'', string_bytes ''/s'', [0x61]] Map.empty 1"
proof -
  have f: "exec_files 1 = [0x23, 0x21] @ string_bytes ''/p'' @ 0x0A # [0x0A, 0x0A, 0x0A]" by (simp add: exec_files_def script_file_def)
  have l: "\<forall>c \<in> set ''/p''. of_char c \<in> {32 ..< 127 :: nat}" by simp
  have "CHR '' '' \<notin> set ''/p''" by simp
  then have line: "''/p'' = ''/p'' \<and> [] = ([] :: u8 list list) \<and> CHR '' '' \<notin> set ''/p''
    \<or> ''/p'' = ''/p'' @ CHR '' '' # ''x'' \<and> [] = [string_bytes ''x''] \<and> CHR '' '' \<notin> set ''/p'' \<and> ''x'' \<noteq> [] \<and> last ''x'' \<noteq> CHR '' ''"
    by blast
  show ?thesis
    using exec_script_runs_interpreter [where room = "\<lambda>_. True" and s = exec_machine and path = "''/s''" and args = "[[0x73], [0x61]]"
          and envs = Map.empty,
        OF exec_files_read [OF exec_files_small(2)] exec_scripts(1) [unfolded One_nat_def] f [unfolded One_nat_def] l line exec_paths(2) exec_nodes(1) le0]
    by simp
qed

theorem parse_exec_args_correct_witness:
  "parse_exec_args \<lparr>vm_map = [\<lparr>virtual_start = 0x1000, backing_storage = to_le_bytes (0x2000 :: u64) @ to_le_bytes (0 :: u64)\<rparr>,
     \<lparr>virtual_start = 0x2000, backing_storage = [0x6C, 0x73, 0]\<rparr>]\<rparr> 0x1000 = Some (Some [[0x6C, 0x73]])"
proof -
  let ?r = "\<lparr>virtual_start = 0x1000, backing_storage = to_le_bytes (0x2000 :: u64) @ to_le_bytes (0 :: u64)\<rparr>"
  let ?m = "\<lparr>vm_map = [?r, \<lparr>virtual_start = 0x2000, backing_storage = [0x6C, 0x73, 0]\<rparr>]\<rparr>"
  have inv: "vm_inv ?m" by (simp add: vm_inv_def region_ok_def region_len_def region_disjoint_def)
  have r: "?r \<in> set (vm_map ?m)" "backing_storage ?r = concat (map to_le_bytes [0x2000 :: u64]) @ to_le_bytes (0 :: u64) @ []" by simp_all
  have s: "list_all2 (string_at ?m) [0x2000] [[0x6C, 0x73]]" by (simp add: string_at_def ascii_def)
  from parse_exec_args_correct [OF inv r s] show ?thesis by simp
qed

theorem own_argv_is_undefined_witness:
  "\<exists>argv m' a'. load_args_into_virtual_memory (\<lambda>_. True) [[0x6c, 0x73], [0x2d]] 2 vm_new (alloc_from 0x1000 0x1000 True)
      = Some (Some argv, m', a') \<and> parse_exec_args m' argv = None"
proof -
  have "alloc_inv (alloc_from 0x1000 0x1000 True) []" by (rule alloc_inv_from) simp
  then have "heap_inv vm_new (alloc_from 0x1000 0x1000 True) []"
    by (simp add: heap_inv_def vm_new_def vm_inv_def) (simp add: alloc_from_def)
  from own_argv_is_undefined [where room = "\<lambda>_. True" and args = "[[0x6c, 0x73], [0x2d]]", OF this] show ?thesis
    by (auto simp: alloc_from_def)
qed

end
