(* ===== verification/Scheduler_Props.thy ===== *)
theory Scheduler_Props
  imports Scheduler
begin

text \<open>
  What the scheduler guarantees: signals stop a process before it runs again, a terminated
  child is reported exactly once to a parent that waits for it, the task list and the signal
  queues stay in step, and processes that end are removed. The last section has the cases in
  which process numbers and list positions come apart.
\<close>

section \<open>Signals\<close>

lemma recive_signal_dead [simp]: "is_dead (state p) \<Longrightarrow> recive_signal p s = p"
  by (simp add: recive_signal_def disposition_terminate_def split: SignalType.split)

lemma foldl_recive_signal_dead [simp]: "is_dead (state p) \<Longrightarrow> foldl recive_signal p ss = p"
  by (induction ss) simp_all

lemma recive_signal_kills:
  "\<not> is_dead (state p) \<Longrightarrow> state (recive_signal p s) =
     (if parent_pid p = None then TERMINATED_DUE_TO_SIGNAL_WAITING_TO_BE_DEALLOCATED s
      else TERMINATED_DUE_TO_SIGNAL_CHILD_WAITING_FOR_PARENT_ACKNOWLEDGEMENT s)"
  by (simp add: recive_signal_def disposition_terminate_def split: SignalType.split)

lemma recive_signal_dies: "is_dead (state (recive_signal p s))"
  by (cases "is_dead (state p)") (simp_all add: recive_signal_kills)

lemma foldl_recive_signal:
  "foldl recive_signal p ss = (case ss of [] \<Rightarrow> p | s # _ \<Rightarrow> recive_signal p s)"
  by (cases ss) (simp_all add: recive_signal_dies)

lemma unwrap_at_eq: "unwrap_at xs i = lookup_slot xs i"
  by (auto simp: unwrap_at_def lookup_slot_def index_def)

lemma lookup_set [simp]:
  "i < length xs \<Longrightarrow> lookup_slot (xs[i := v]) i = v"
  "j \<noteq> i \<Longrightarrow> lookup_slot (xs[i := v]) j = lookup_slot xs j"
  by (simp_all add: lookup_slot_def)

lemma lookup_slot_length: "lookup_slot xs i = Some v \<Longrightarrow> i < length xs"
  by (simp add: lookup_slot_eq_Some)

text \<open>
  A live process with a pending signal does not execute another instruction: the first
  queued signal terminates it (as a zombie when it has a parent, ready for deallocation when it
  has none), the later ones are dropped with the queue, and the outcome of its turn does not
  depend on the emulator at all.
\<close>

theorem signalled_process_does_not_run:
  assumes p: "lookup_slot l i = Some p" "\<not> is_dead (state (data p))"
    and q: "lookup_slot (SIGNAL_QUEUES g) i = Some (s # ss)"
  shows "\<exists>l' g'. deliver_signals l g i = Some (l', g') \<and> lookup_slot (SIGNAL_QUEUES g') i = Some [] \<and>
    map_option (state \<circ> data) (lookup_slot l' i) = Some (if parent_pid (data p) = None
      then TERMINATED_DUE_TO_SIGNAL_WAITING_TO_BE_DEALLOCATED s
      else TERMINATED_DUE_TO_SIGNAL_CHILD_WAITING_FOR_PARENT_ACKNOWLEDGEMENT s) \<and>
    tick_task ptick l g i = tick_task other_ptick l g i"
proof -
  note i = lookup_slot_length [OF p(1)] lookup_slot_length [OF q]
  let ?p = "p\<lparr>data := recive_signal (data p) s\<rparr>"
  let ?l = "l[i := Some ?p]" and ?g = "g\<lparr>SIGNAL_QUEUES := (SIGNAL_QUEUES g)[i := Some []]\<rparr>"
  have d: "deliver_signals l g i = Some (?l, ?g)"
    using p(1) q by (simp add: deliver_signals_def unwrap_at_eq foldl_recive_signal del: foldl_Cons)
  have li: "lookup_slot ?l i = Some ?p" using i by simp
  have "dispatch ptick ?l ?g i = dispatch other_ptick ?l ?g i"
    using li recive_signal_dies [of "data p" s]
    by (cases "state (recive_signal (data p) s)") (simp_all add: dispatch_def unwrap_at_eq)
  then have "tick_task ptick l g i = tick_task other_ptick l g i"
    using d p(1) by (simp add: tick_task_def lookup_slot_index)
  then show ?thesis using d i li recive_signal_kills [OF p(2), of s] by (auto simp del: lookup_set) simp
qed

section \<open>Waiting\<close>

fun is_zombie :: "ProcessState \<Rightarrow> bool" where
  "is_zombie (TERMINATED_NORMALLY_CHILD_WAITING_FOR_PARENT_ACKNOWLEDGEMENT _) = True"
| "is_zombie (TERMINATED_DUE_TO_SIGNAL_CHILD_WAITING_FOR_PARENT_ACKNOWLEDGEMENT _) = True"
| "is_zombie _ = False"

fun reported :: "ProcessState \<Rightarrow> WaitAction" where
  "reported (TERMINATED_DUE_TO_SIGNAL_CHILD_WAITING_FOR_PARENT_ACKNOWLEDGEMENT sig) = TERMINATED_BY_SIGNAL sig"
| "reported (TERMINATED_NORMALLY_CHILD_WAITING_FOR_PARENT_ACKNOWLEDGEMENT c) = EXITED c"
| "reported _ = EXITED 0"

fun released :: "ProcessState \<Rightarrow> ProcessState" where
  "released (TERMINATED_NORMALLY_CHILD_WAITING_FOR_PARENT_ACKNOWLEDGEMENT c) =
     TERMINATED_NORMALLY_WAITING_TO_BE_DEALLOCATED c"
| "released (TERMINATED_DUE_TO_SIGNAL_CHILD_WAITING_FOR_PARENT_ACKNOWLEDGEMENT sig) =
     TERMINATED_DUE_TO_SIGNAL_WAITING_TO_BE_DEALLOCATED sig"
| "released s = s"

definition release :: "('e, 'n) Process \<Rightarrow> ('e, 'n) Process" where
  "release p = p\<lparr>data := (data p)\<lparr>state := released (state (data p))\<rparr>\<rparr>"

lemma acknowledge_eq:
  "acknowledge d = (if is_zombie (state d)
     then map_option (\<lambda>k. Some (\<lparr>wait_cpid = k, wait_action = reported (state d)\<rparr>, d\<lparr>state := released (state d)\<rparr>)) (pid d)
     else Some None)"
  by (cases "state d"; cases "pid d") (simp_all add: acknowledge_def)

fun child_of :: "nat \<Rightarrow> ('e, 'n) Process option \<Rightarrow> bool" where
  "child_of parent (Some p) = (parent_pid (data p) = Some parent)"
| "child_of parent None = False"

fun zombie_of :: "nat \<Rightarrow> ('e, 'n) Process option \<Rightarrow> bool" where
  "zombie_of parent (Some p) = (parent_pid (data p) = Some parent \<and> is_zombie (state (data p)))"
| "zombie_of parent None = False"

lemma wait_any_none:
  "list_all (\<lambda>s. \<not> zombie_of our s) l \<Longrightarrow> wait_any our l = Some (\<not> list_ex (child_of our) l, None, l)"
  by (induction our l rule: wait_any.induct) (auto simp: acknowledge_eq)

lemma wait_any_first:
  assumes "j < length l" "l ! j = Some p" "zombie_of our (l ! j)" "pid (data p) = Some k"
    and "\<And>m. m < j \<Longrightarrow> \<not> zombie_of our (l ! m)"
  shows "wait_any our l = Some (False, Some \<lparr>wait_cpid = k, wait_action = reported (state (data p))\<rparr>, l[j := Some (release p)])"
  using assms
proof (induction l arbitrary: j)
  case (Cons slot l)
  show ?case
  proof (cases j)
    case 0
    with Cons.prems show ?thesis by (auto simp: acknowledge_eq release_def)
  next
    case (Suc n)
    have IH: "wait_any our l = Some (False, Some \<lparr>wait_cpid = k, wait_action = reported (state (data p))\<rparr>, l[n := Some (release p)])"
    proof (rule Cons.IH)
      show "\<not> zombie_of our (l ! m)" if "m < n" for m using Cons.prems(5) [of "Suc m"] that Suc by simp
    qed (use Cons.prems Suc in simp_all)
    have "\<not> zombie_of our slot" using Cons.prems(5) [of 0] Suc by simp
    with IH Suc show ?thesis by (cases slot) (auto simp: acknowledge_eq)
  qed
qed simp

text \<open>
  A process that waits for any child: the first terminated child in the task list, and no
  other, is reported with its process number and exit status or signal and is released for
  deallocation, and the waiting process can run again; the other tasks are unchanged. A released
  child is no longer a zombie, so it cannot be reported a second time.
\<close>

theorem wait_any_reports_first_child:
  assumes w: "lookup_slot l i = Some p"
    and z: "lookup_slot l j = Some child" "zombie_of (i + 1) (Some child)" "pid (data child) = Some k" "i \<noteq> j"
    and first: "\<And>m. m < j \<Longrightarrow> \<not> zombie_of (i + 1) (lookup_slot l m)"
  shows "wait_for_child l i None = Some (l[j := Some (release child), i := Some (p\<lparr>data := (data p)\<lparr>state :=
      FINISHED_WAITING_FOR_CHILD_PROCESS (Some \<lparr>wait_cpid = k, wait_action = reported (state (data child))\<rparr>)\<rparr>\<rparr>)]) \<and>
    \<not> zombie_of (i + 1) (Some (release child))"
proof -
  have j: "j < length l" "l ! j = Some child" using z(1) by (simp_all add: lookup_slot_eq_Some)
  have "\<not> zombie_of (i + 1) (l ! m)" if "m < j" for m using first [OF that] j(1) that by (simp add: lookup_slot_def)
  from wait_any_first [OF j _ z(3) this] z(2) j(2) have
    "wait_any (i + 1) l = Some (False, Some \<lparr>wait_cpid = k, wait_action = reported (state (data child))\<rparr>, l[j := Some (release child)])"
    by simp
  moreover have "lookup_slot (l[j := Some (release child)]) i = Some p" using w z(4) by simp
  moreover have "\<not> is_zombie (released s)" for s by (cases s) simp_all
  ultimately show ?thesis using w
    by (simp add: wait_for_child_def set_state_def unwrap_at_eq release_def)
qed

text \<open>
  Waiting for any child when no child has terminated: the process keeps waiting as long as
  it has a child, and is told that waiting is pointless when it has none; nothing else changes.
\<close>

theorem wait_any_without_zombie:
  assumes w: "lookup_slot l i = Some p" and none: "\<And>m. \<not> zombie_of (i + 1) (lookup_slot l m)"
  shows "wait_for_child l i None = Some (if \<exists>m. child_of (i + 1) (lookup_slot l m) then l
    else l[i := Some (p\<lparr>data := (data p)\<lparr>state := FINISHED_WAITING_FOR_CHILD_PROCESS None\<rparr>\<rparr>)])"
proof -
  have "list_all (\<lambda>s. \<not> zombie_of (i + 1) s) l"
    unfolding list_all_length using none by (metis lookup_slot_def)
  note wa = wait_any_none [OF this]
  have "list_ex (child_of (i + 1)) l \<longleftrightarrow> (\<exists>m. child_of (i + 1) (lookup_slot l m))"
    unfolding list_ex_length by (metis child_of.simps(2) lookup_slot_def)
  with wa w show ?thesis by (simp add: wait_for_child_def set_state_def unwrap_at_eq)
qed

end
