(* ===== verification/Scheduler_Inv.thy ===== *)
theory Scheduler_Inv
  imports Scheduler_Props
begin

text \<open>
  The invariant of the scheduler between the turns of its tasks: the task list and the signal
  queues have the same live positions, every task has a process number, a terminated child has
  a parent, a process that waits for a pipe holds its read end, and the reference counts of the
  pipes are exact over all processes. The turn of a task that does not execute an instruction
  never panics and keeps it.
\<close>

section \<open>The invariant\<close>

definition slot_refs :: "FdMapping \<Rightarrow> ('e, 'n) Process option \<Rightarrow> nat" where
  "slot_refs m slot = (case slot of Some p \<Rightarrow> fd_refs (data p) m | None \<Rightarrow> 0)"

definition total_refs :: "('e, 'n) tasks \<Rightarrow> FdMapping \<Rightarrow> nat" where
  "total_refs l m = sum_list (map (slot_refs m) l)"

definition tasks_sync :: "('e, 'n) tasks \<Rightarrow> ('e, 'n, 'z) globals_scheme \<Rightarrow> bool" where
  "tasks_sync l g \<longleftrightarrow> NEW_TASK_LIST g = [] \<and> trimmed l \<and> length (SIGNAL_QUEUES g) = length l \<and>
     (\<forall>i. lookup_slot (SIGNAL_QUEUES g) i = None \<longleftrightarrow> lookup_slot l i = None)"

definition waits_ok :: "('e, 'n) tasks \<Rightarrow> 'n ProcessData \<Rightarrow> bool" where
  "waits_ok l p = (case state p of
     WAITING_FOR_CHILD_PROCESS (Some c) \<Rightarrow> c \<noteq> 0 \<and> (\<forall>child. lookup_slot l (c - 1) = Some child \<longrightarrow> parent_pid (data child) \<noteq> None)
   | WAITING_FOR_READ_PIPE k \<Rightarrow> (\<exists>fd. lookup_slot (fd_mappings p) fd = Some (PipeReadEnd k))
   | s \<Rightarrow> is_zombie s \<longrightarrow> parent_pid p \<noteq> None)"

definition task_ok :: "('e, 'n) tasks \<Rightarrow> ('e, 'n) Process \<Rightarrow> bool" where
  "task_ok l p \<longleftrightarrow> pid (data p) \<noteq> None \<and> waits_ok l (data p) \<and>
     nodes_ok (fd_refs (data p)) (open_nodes (data p)) \<and> trimmed (fd_mappings (data p))"

definition sched_ok :: "('e, 'n) tasks \<Rightarrow> ('e, 'n, 'z) globals_scheme \<Rightarrow> bool" where
  "sched_ok l g \<longleftrightarrow> tasks_sync l g \<and> pipes_ok (total_refs l) (PIPES g) \<and>
     (\<forall>i p. lookup_slot l i = Some p \<longrightarrow> task_ok l p)"

lemma slot_refs_simps [simp]: "slot_refs m None = 0" "slot_refs m (Some p) = fd_refs (data p) m"
  by (simp_all add: slot_refs_def)

lemma total_refs_update:
  assumes "i < length l"
  shows "total_refs (l[i := v]) m + slot_refs m (l ! i) = total_refs l m + slot_refs m v"
proof -
  have "total_refs (l[i := v]) m = total_refs l m + slot_refs m v - slot_refs m (l ! i)"
    using assms by (simp add: total_refs_def map_update sum_list_update)
  moreover have "slot_refs m (l ! i) \<le> total_refs l m"
    using assms by (simp add: total_refs_def elem_le_sum_list [of i "map (slot_refs m) l", simplified])
  ultimately show ?thesis by simp
qed

lemma total_refs_drain [simp]: "total_refs (drain_none l) = total_refs l"
proof
  fix m
  from drain_none_prefix [of l] obtain n where "l = drain_none l @ replicate n None" by blast
  then have "total_refs l m = total_refs (drain_none l @ replicate n None) m" by simp
  then show "total_refs (drain_none l) m = total_refs l m" by (simp add: total_refs_def sum_list_replicate)
qed

lemma fd_inv_task:
  assumes "sched_ok l g" "lookup_slot l i = Some p"
  shows "fd_inv (\<lambda>m. total_refs l m - fd_refs (data p) m) (PIPES g) (data p)"
proof -
  have i: "i < length l" "l ! i = Some p" using assms(2) by (simp_all add: lookup_slot_eq_Some)
  have le: "fd_refs (data p) m \<le> total_refs l m" for m
    using total_refs_update [OF i(1), of None m] i(2) by simp
  have "task_ok l p" using assms by (auto simp: sched_ok_def)
  moreover have "pipes_ok (total_refs l) (PIPES g)" using assms by (simp add: sched_ok_def)
  ultimately show ?thesis by (simp add: fd_inv_def task_ok_def le)
qed

section \<open>Changing the state of a task\<close>

text \<open>A change of state keeps the descriptors, the process numbers and the parent of every task.\<close>

definition same_but_state :: "('e, 'n) Process \<Rightarrow> ('e, 'n) Process \<Rightarrow> bool" where
  "same_but_state p q \<longleftrightarrow> (\<exists>s. q = p\<lparr>data := (data p)\<lparr>state := s\<rparr>\<rparr>)"

lemma same_but_stateD:
  assumes "same_but_state p q"
  shows "fd_refs (data q) = fd_refs (data p)" "pid (data q) = pid (data p)" "parent_pid (data q) = parent_pid (data p)"
    "open_nodes (data q) = open_nodes (data p)" "fd_mappings (data q) = fd_mappings (data p)"
  using assms by (auto simp: same_but_state_def fd_refs_def)

lemma waits_ok_set:
  assumes "lookup_slot l i = Some p" "parent_pid (data q) = parent_pid (data p)"
  shows "waits_ok (l[i := Some q]) d \<longleftrightarrow> waits_ok l d"
proof -
  have "i < length l" using assms(1) by (simp add: lookup_slot_eq_Some)
  then have "(\<forall>child. lookup_slot (l[i := Some q]) j = Some child \<longrightarrow> parent_pid (data child) \<noteq> None) \<longleftrightarrow>
      (\<forall>child. lookup_slot l j = Some child \<longrightarrow> parent_pid (data child) \<noteq> None)" for j
    using assms by (cases "j = i") auto
  then show ?thesis by (simp add: waits_ok_def split: ProcessState.split option.split)
qed

lemma sched_ok_set_state:
  assumes ok: "sched_ok l g" and p: "lookup_slot l i = Some p" and q: "same_but_state p q" and w: "waits_ok l (data q)"
  shows "sched_ok (l[i := Some q]) g"
proof -
  have i: "i < length l" "l ! i = Some p" using p by (simp_all add: lookup_slot_eq_Some)
  note same = same_but_stateD [OF q]
  have "total_refs (l[i := Some q]) = total_refs l"
    using total_refs_update [OF i(1), of "Some q"] i(2) same(1) by (auto simp: fun_eq_iff)
  moreover have "task_ok (l[i := Some q]) r" if "lookup_slot (l[i := Some q]) j = Some r" for j r
  proof -
    have "task_ok l p" using ok p by (auto simp: sched_ok_def)
    moreover have "task_ok l r" if "j \<noteq> i" using that \<open>lookup_slot (l[i := Some q]) j = Some r\<close> ok by (auto simp: sched_ok_def)
    ultimately show ?thesis using that i(1) same w waits_ok_set [OF p same(3)]
      by (cases "j = i") (auto simp: task_ok_def)
  qed
  moreover have "lookup_slot (l[i := Some q]) j = None \<longleftrightarrow> lookup_slot l j = None" for j
    using p i(1) by (cases "j = i") auto
  ultimately show ?thesis using ok trimmed_set [of l i q] by (auto simp: sched_ok_def tasks_sync_def)
qed

lemma set_state_ok:
  assumes "sched_ok l g" "lookup_slot l i = Some p" "waits_ok l ((data p)\<lparr>state := s\<rparr>)"
  shows "\<exists>l'. set_state l i s = Some l' \<and> sched_ok l' g"
  using assms sched_ok_set_state [OF assms(1,2), of "p\<lparr>data := (data p)\<lparr>state := s\<rparr>\<rparr>"]
  by (auto simp: set_state_def unwrap_at_eq same_but_state_def)

section \<open>The turn of a task that does not run\<close>

lemma waits_ok_simple:
  "waits_ok l (d\<lparr>state := RUNNING\<rparr>)" "waits_ok l (d\<lparr>state := FINISHED_WAITING_FOR_CHILD_PROCESS info\<rparr>)"
  "waits_ok l (d\<lparr>state := TERMINATED_NORMALLY_WAITING_TO_BE_DEALLOCATED c\<rparr>)"
  "waits_ok l (d\<lparr>state := TERMINATED_DUE_TO_SIGNAL_WAITING_TO_BE_DEALLOCATED sig\<rparr>)"
  by (simp_all add: waits_ok_def)

lemma recive_signal_same: "\<exists>s. recive_signal d sig = d\<lparr>state := s\<rparr>"
proof (cases "is_dead (state d)")
  case True
  then show ?thesis by (intro exI [of _ "state d"]) simp
qed (auto simp: recive_signal_def disposition_terminate_def split: SignalType.split)

lemma waits_ok_signal:
  assumes "waits_ok l d"
  shows "waits_ok l (recive_signal d sig)"
proof (cases "is_dead (state d)")
  case True
  with assms show ?thesis by simp
next
  case False
  moreover obtain s where s: "recive_signal d sig = d\<lparr>state := s\<rparr>" using recive_signal_same by blast
  ultimately show ?thesis using recive_signal_kills [OF False, of sig]
    by (cases "parent_pid d") (simp_all add: waits_ok_def)
qed

lemma deliver_signals_ok:
  assumes ok: "sched_ok l g" and p: "lookup_slot l i = Some p"
  shows "\<exists>l' g' p'. deliver_signals l g i = Some (l', g') \<and> sched_ok l' g' \<and> lookup_slot l' i = Some p' \<and>
    length l' = length l \<and>
    (\<exists>q. lookup_slot (SIGNAL_QUEUES g) i = Some q \<and> data p' = foldl recive_signal (data p) q)"
proof -
  have "lookup_slot (SIGNAL_QUEUES g) i \<noteq> None" using ok p by (auto simp: sched_ok_def tasks_sync_def)
  then obtain q where q: "lookup_slot (SIGNAL_QUEUES g) i = Some q" by auto
  let ?p = "p\<lparr>data := foldl recive_signal (data p) q\<rparr>"
  let ?g = "g\<lparr>SIGNAL_QUEUES := (SIGNAL_QUEUES g)[i := Some []]\<rparr>"
  have "\<exists>s. foldl recive_signal (data p) q = (data p)\<lparr>state := s\<rparr>"
    using recive_signal_same [of "data p"]
    by (cases q) (auto simp: foldl_recive_signal simp del: foldl_Cons intro: exI [of _ "state (data p)"])
  then have same: "same_but_state p ?p" by (auto simp: same_but_state_def)
  have "waits_ok l (data p)" using ok p by (auto simp: sched_ok_def task_ok_def)
  then have "waits_ok l (data ?p)" using waits_ok_signal by (cases q) (simp_all add: foldl_recive_signal del: foldl_Cons)
  from sched_ok_set_state [OF ok p same this] have s: "sched_ok (l[i := Some ?p]) g" .
  have "lookup_slot ((SIGNAL_QUEUES g)[i := Some []]) j = None \<longleftrightarrow> lookup_slot (SIGNAL_QUEUES g) j = None" for j
    using q lookup_slot_length [OF q] by (cases "j = i") auto
  with s have "sched_ok (l[i := Some ?p]) ?g" by (simp add: sched_ok_def tasks_sync_def)
  moreover have "deliver_signals l g i = Some (l[i := Some ?p], ?g)" using p q by (simp add: deliver_signals_def unwrap_at_eq)
  moreover have "lookup_slot (l[i := Some ?p]) i = Some ?p" using lookup_slot_length [OF p] by simp
  ultimately show ?thesis using q
    by (intro exI [of _ "l[i := Some ?p]"] exI [of _ ?g] exI [of _ ?p] conjI exI [of _ q]) simp_all
qed

lemma release_ok:
  assumes "sched_ok l g" "lookup_slot l j = Some p" "is_zombie (state (data p))"
  shows "sched_ok (l[j := Some (release p)]) g"
proof -
  have "waits_ok l (data (release p))"
    using assms(3) by (cases "state (data p)") (simp_all add: release_def waits_ok_def)
  moreover have "same_but_state p (release p)" by (auto simp: same_but_state_def release_def)
  ultimately show ?thesis using sched_ok_set_state [OF assms(1,2)] by blast
qed

text \<open>Waiting changes at most one task, a terminated child that it releases.\<close>

definition released_one :: "('e, 'n) tasks \<Rightarrow> ('e, 'n) tasks \<Rightarrow> bool" where
  "released_one l l' \<longleftrightarrow> l' = l \<or>
     (\<exists>j p. lookup_slot l j = Some p \<and> is_zombie (state (data p)) \<and> l' = l[j := Some (release p)])"

lemma wait_any_result:
  assumes "sched_ok l g"
  shows "\<exists>inv ch l'. wait_any our l = Some (inv, ch, l') \<and> released_one l l'"
proof (cases "\<exists>j. j < length l \<and> zombie_of our (l ! j)")
  case False
  then have "list_all (\<lambda>s. \<not> zombie_of our s) l" by (auto simp: list_all_length)
  from wait_any_none [OF this] show ?thesis by (auto simp: released_one_def)
next
  case True
  define j where "j = (LEAST j. j < length l \<and> zombie_of our (l ! j))"
  have j: "j < length l" "zombie_of our (l ! j)" using LeastI_ex [OF True] by (simp_all add: j_def)
  have "\<not> zombie_of our (l ! m)" if "m < j" for m
    using not_less_Least [of m "\<lambda>j. j < length l \<and> zombie_of our (l ! j)"] that j(1) by (auto simp: j_def)
  moreover obtain p where p: "l ! j = Some p" using j(2) by (cases "l ! j") auto
  moreover have lj: "lookup_slot l j = Some p" using j(1) p by (simp add: lookup_slot_def)
  moreover have "pid (data p) \<noteq> None" using assms lj by (auto simp: sched_ok_def task_ok_def)
  then obtain k where "pid (data p) = Some k" by auto
  ultimately have "wait_any our l = Some (False, Some \<lparr>wait_cpid = k, wait_action = reported (state (data p))\<rparr>, l[j := Some (release p)])"
    using j by (intro wait_any_first) auto
  moreover have "is_zombie (state (data p))" using j(2) p by simp
  ultimately show ?thesis using lj by (auto simp: released_one_def)
qed

lemma wait_specific_result:
  assumes "sched_ok l g" "c \<noteq> 0" "\<forall>child. lookup_slot l (c - 1) = Some child \<longrightarrow> parent_pid (data child) \<noteq> None"
  shows "\<exists>inv ch l'. wait_specific our c l = Some (inv, ch, l') \<and> released_one l l'"
proof (cases "lookup_slot l (c - 1)")
  case None
  with assms show ?thesis by (auto simp: wait_specific_def released_one_def)
next
  case (Some child)
  then obtain parent k where pk: "parent_pid (data child) = Some parent" "pid (data child) = Some k"
    using assms by (fastforce simp: sched_ok_def task_ok_def)
  have "released_one l (l[c - 1 := Some (child\<lparr>data := (data child)\<lparr>state := released (state (data child))\<rparr>\<rparr>)])"
    if "is_zombie (state (data child))"
    using that Some by (auto simp: released_one_def release_def)
  moreover have "released_one l l" by (simp add: released_one_def)
  ultimately show ?thesis using assms(2) Some pk
    by (cases "is_zombie (state (data child))") (auto simp: wait_specific_def acknowledge_eq)
qed

lemma wait_for_child_ok:
  assumes ok: "sched_ok l g" and p: "lookup_slot l i = Some p" "state (data p) = WAITING_FOR_CHILD_PROCESS cpid"
  shows "\<exists>l'. wait_for_child l i cpid = Some l' \<and> sched_ok l' g"
proof -
  have w: "waits_ok l (data p)" using ok p(1) by (auto simp: sched_ok_def task_ok_def)
  have "\<exists>inv ch l'. (case cpid of Some c \<Rightarrow> wait_specific (i + 1) c l | None \<Rightarrow> wait_any (i + 1) l) = Some (inv, ch, l') \<and>
      released_one l l'"
  proof (cases cpid)
    case None
    with wait_any_result [OF ok, of "i + 1"] show ?thesis by (simp only: option.case)
  next
    case (Some c)
    with w p(2) have "c \<noteq> 0" "\<forall>child. lookup_slot l (c - 1) = Some child \<longrightarrow> parent_pid (data child) \<noteq> None"
      by (simp_all add: waits_ok_def)
    from wait_specific_result [OF ok this, of "i + 1"] Some show ?thesis by (simp only: option.case)
  qed
  then obtain inv ch l' where
    r: "(case cpid of Some c \<Rightarrow> wait_specific (i + 1) c l | None \<Rightarrow> wait_any (i + 1) l) = Some (inv, ch, l')"
      "released_one l l'" by blast
  have ok': "sched_ok l' g"
  proof (cases "l' = l")
    case False
    then obtain j q where "lookup_slot l j = Some q" "is_zombie (state (data q))" "l' = l[j := Some (release q)]"
      using r(2) unfolding released_one_def by blast
    with release_ok [OF ok] show ?thesis by simp
  qed (use ok in simp)
  have "lookup_slot l' i \<noteq> None"
  proof (cases "l' = l")
    case False
    then obtain j q where "lookup_slot l j = Some q" "l' = l[j := Some (release q)]" using r(2) unfolding released_one_def by blast
    moreover from this have "j < length l" by (simp add: lookup_slot_eq_Some)
    ultimately show ?thesis using p(1) by (cases "i = j") simp_all
  qed (use p(1) in simp)
  then obtain p' where "lookup_slot l' i = Some p'" by (cases "lookup_slot l' i") simp_all
  note set = set_state_ok [OF ok' this waits_ok_simple(2)]
  have "wait_for_child l i cpid = (case ch of
      Some info \<Rightarrow> set_state l' i (FINISHED_WAITING_FOR_CHILD_PROCESS (Some info))
    | None \<Rightarrow> (if inv then set_state l' i (FINISHED_WAITING_FOR_CHILD_PROCESS None) else Some l'))"
    unfolding wait_for_child_def r(1) by simp
  then show ?thesis
  proof (cases ch)
    case None
    with \<open>wait_for_child l i cpid = _\<close> set [of None] ok' show ?thesis by (cases inv) simp_all
  next
    case (Some info)
    with \<open>wait_for_child l i cpid = _\<close> set [of "Some info"] show ?thesis by simp
  qed
qed

lemma check_orphan_ok:
  assumes ok: "sched_ok l g" and p: "lookup_slot l i = Some p" "is_zombie (state (data p))"
    and "s = TERMINATED_NORMALLY_WAITING_TO_BE_DEALLOCATED c \<or> s = TERMINATED_DUE_TO_SIGNAL_WAITING_TO_BE_DEALLOCATED sig"
  shows "\<exists>l'. check_orphan l i s = Some l' \<and> sched_ok l' g"
proof -
  have "waits_ok l (data p)" using ok p(1) by (auto simp: sched_ok_def task_ok_def)
  then obtain parent where "parent_pid (data p) = Some parent"
    using p(2) by (cases "state (data p)") (auto simp: waits_ok_def)
  moreover have "\<exists>l'. set_state l i s = Some l' \<and> sched_ok l' g"
    using assms(4) set_state_ok [OF ok p(1)] waits_ok_simple(3,4) by blast
  ultimately show ?thesis using ok p(1) by (auto simp: check_orphan_def unwrap_at_eq)
qed

lemma total_refs_clear:
  assumes "lookup_slot l i = Some p"
  shows "total_refs (clear_slot l i) = (\<lambda>m. total_refs l m - fd_refs (data p) m)"
proof
  fix m
  have "i < length l" "l ! i = Some p" using assms by (simp_all add: lookup_slot_eq_Some)
  with total_refs_update [of i l None m] show "total_refs (clear_slot l i) m = total_refs l m - fd_refs (data p) m"
    by (simp add: clear_slot_def)
qed

lemma same_length_trimmed:
  assumes "trimmed xs" "trimmed ys" "\<And>i. lookup_slot xs i = None \<longleftrightarrow> lookup_slot ys i = None"
  shows "length xs = length ys"
proof (rule ccontr)
  have less: False if "length as < length bs" "trimmed bs" "\<And>i. lookup_slot as i = None \<longrightarrow> lookup_slot bs i = None"
    for as :: "'x option list" and bs :: "'y option list"
  proof -
    have "bs \<noteq> []" using that(1) by auto
    then have "lookup_slot bs (length bs - 1) \<noteq> None" using that(2) by (simp add: trimmed_def last_conv_nth lookup_slot_def)
    moreover have "\<not> length bs - 1 < length as" using that(1) by linarith
    then have "lookup_slot as (length bs - 1) = None" by (simp add: lookup_slot_def)
    ultimately show False using that(3) [of "length bs - 1"] by (simp only: simp_thms)
  qed
  assume "length xs \<noteq> length ys"
  then consider "length xs < length ys" | "length ys < length xs" by linarith
  then show False
  proof cases
    case 1
    then show False by (rule less [OF _ assms(2)]) (simp add: assms(3))
  next
    case 2
    then show False by (rule less [OF _ assms(1)]) (simp add: assms(3))
  qed
qed

lemma waits_ok_clear:
  assumes "waits_ok l d"
  shows "waits_ok (clear_slot l i) d"
proof -
  have "\<forall>child. lookup_slot (clear_slot l i) j = Some child \<longrightarrow> parent_pid (data child) \<noteq> None"
    if "\<forall>child. lookup_slot l j = Some child \<longrightarrow> parent_pid (data child) \<noteq> None" for j
    using that by (cases "j = i") (simp_all add: lookup_clear_slot)
  with assms show ?thesis by (auto simp: waits_ok_def split: ProcessState.splits option.splits)
qed

lemma deallocate_ok:
  assumes ok: "sched_ok l g" and p: "lookup_slot l i = Some p"
  shows "\<exists>l' g'. deallocate l g i = Some (l', g') \<and> sched_ok l' g' \<and> l' = clear_slot l i"
proof -
  from drop_process_ok [OF fd_inv_task [OF ok p]] obtain pipes where
    d: "drop_process (PIPES g) (data p) = Some pipes" "pipes_ok (\<lambda>m. total_refs l m - fd_refs (data p) m) pipes" by blast
  let ?l = "clear_slot l i" and ?sq = "clear_slot (SIGNAL_QUEUES g) i"
  let ?g = "g\<lparr>PIPES := pipes, SIGNAL_QUEUES := ?sq\<rparr>"
  have sync: "tasks_sync l g" using ok by (simp add: sched_ok_def)
  have i: "i < length l" "i < length (SIGNAL_QUEUES g)"
    using lookup_slot_length [OF p] sync by (simp_all add: tasks_sync_def)
  have look: "lookup_slot ?sq j = None \<longleftrightarrow> lookup_slot ?l j = None" for j
    using sync by (auto simp: tasks_sync_def lookup_clear_slot)
  then have "length ?sq = length ?l" by (intro same_length_trimmed trimmed_clear_slot)
  then have "tasks_sync ?l ?g" using sync look by (simp add: tasks_sync_def trimmed_clear_slot)
  moreover have "pipes_ok (total_refs ?l) pipes" using d(2) by (simp add: total_refs_clear [OF p])
  moreover have "task_ok ?l q" if "lookup_slot ?l j = Some q" for j q
  proof -
    have "lookup_slot l j = Some q" using that by (auto simp: lookup_clear_slot split: if_splits)
    then have "task_ok l q" using ok by (auto simp: sched_ok_def)
    then show ?thesis using waits_ok_clear by (auto simp: task_ok_def)
  qed
  ultimately have "sched_ok ?l ?g" by (auto simp: sched_ok_def)
  moreover have "deallocate l g i = Some (?l, ?g)"
    using p d(1) i by (simp add: deallocate_def unwrap_at_eq clear_slot_def)
  ultimately show ?thesis by blast
qed

fun runnable :: "ProcessState \<Rightarrow> bool" where
  "runnable RUNNING = True"
| "runnable RUNNING_NEW_CHILD_JUST_FORKED = True"
| "runnable (FINISHED_WAITING_FOR_CHILD_PROCESS _) = True"
| "runnable _ = False"

lemma wait_pipe_ok:
  assumes ok: "sched_ok l g" and p: "lookup_slot l i = Some p" "state (data p) = WAITING_FOR_READ_PIPE k"
  shows "\<exists>q. lookup_slot (PIPES g) k = Some q"
proof -
  have "waits_ok l (data p)" "fd_inv (\<lambda>m. total_refs l m - fd_refs (data p) m) (PIPES g) (data p)"
    using ok p(1) fd_inv_task [OF ok p(1)] by (auto simp: sched_ok_def task_ok_def)
  then obtain fd where "lookup_slot (fd_mappings (data p)) fd = Some (PipeReadEnd k)"
    using p(2) by (auto simp: waits_ok_def)
  from fd_refs_pos [OF this] show ?thesis
    using pipes_okD [of "total_refs l" "PIPES g" k] ok fd_inv_task [OF ok p(1)]
    by (auto simp: fd_inv_def dest!: pipes_okD [of _ _ k])
qed

lemma dispatch_blocked_ok:
  assumes ok: "sched_ok l g" and p: "lookup_slot l i = Some p" "\<not> runnable (state (data p))"
  shows "\<exists>l' g'. dispatch ptick l g i = Some (l', g') \<and> sched_ok l' g'"
proof (cases "state (data p)")
  case (WAITING_FOR_CHILD_PROCESS cpid)
  with wait_for_child_ok [OF ok p(1)] p(1) show ?thesis by (auto simp: dispatch_def unwrap_at_eq)
next
  case (WAITING_FOR_READ_PIPE k)
  obtain q where "lookup_slot (PIPES g) k = Some q" using wait_pipe_ok [OF ok p(1) WAITING_FOR_READ_PIPE] by blast
  with WAITING_FOR_READ_PIPE set_state_ok [OF ok p(1) waits_ok_simple(1)] ok p(1) show ?thesis
    by (auto simp: dispatch_def unwrap_at_eq)
next
  case (TERMINATED_NORMALLY_CHILD_WAITING_FOR_PARENT_ACKNOWLEDGEMENT c)
  with check_orphan_ok [OF ok p(1), of "TERMINATED_NORMALLY_WAITING_TO_BE_DEALLOCATED c" c] p(1) show ?thesis
    by (auto simp: dispatch_def unwrap_at_eq)
next
  case (TERMINATED_DUE_TO_SIGNAL_CHILD_WAITING_FOR_PARENT_ACKNOWLEDGEMENT s)
  with check_orphan_ok [OF ok p(1), of "TERMINATED_DUE_TO_SIGNAL_WAITING_TO_BE_DEALLOCATED s" _ s] p(1) show ?thesis
    by (auto simp: dispatch_def unwrap_at_eq)
next
  case (TERMINATED_NORMALLY_WAITING_TO_BE_DEALLOCATED c)
  with deallocate_ok [OF ok p(1)] p(1) show ?thesis by (auto simp: dispatch_def unwrap_at_eq)
next
  case (TERMINATED_DUE_TO_SIGNAL_WAITING_TO_BE_DEALLOCATED s)
  with deallocate_ok [OF ok p(1)] p(1) show ?thesis by (auto simp: dispatch_def unwrap_at_eq)
qed (use p(2) in simp_all)

lemma length_set_state: "set_state l i s = Some l' \<Longrightarrow> length l' = length l"
  by (auto simp: set_state_def split: bind_splits)

lemma length_wait_any: "wait_any our l = Some (bad, ch, l') \<Longrightarrow> length l' = length l"
proof (induction l arbitrary: bad ch l')
  case (Cons slot l)
  show ?case
  proof (cases slot)
    case None
    with Cons show ?thesis by (auto simp: Option.bind_eq_Some_conv)
  next
    case (Some p)
    with Cons show ?thesis
      by (cases "acknowledge (data p)"; cases "the (acknowledge (data p))")
         (auto simp: Option.bind_eq_Some_conv split: if_splits)
  qed
qed simp

lemma length_wait_specific:
  assumes "wait_specific our c l = Some (bad, ch, l')"
  shows "length l' = length l"
  using assms
  by (cases "lookup_slot l (c - 1)"; cases "acknowledge (data (the (lookup_slot l (c - 1))))";
      cases "the (acknowledge (data (the (lookup_slot l (c - 1)))))")
     (auto simp: wait_specific_def Option.bind_eq_Some_conv split: if_splits)

lemma length_wait_for_child:
  assumes "wait_for_child l i cpid = Some l'"
  shows "length l' = length l"
proof -
  from assms obtain bad ch l1 where
    w: "(case cpid of Some c \<Rightarrow> wait_specific (i + 1) c l | None \<Rightarrow> wait_any (i + 1) l) = Some (bad, ch, l1)"
    unfolding wait_for_child_def by (auto simp only: Option.bind_eq_Some_conv)
  have "length l1 = length l"
    using w length_wait_any [of "i + 1" l bad ch l1] length_wait_specific [of "i + 1" _ l bad ch l1] by (cases cpid) simp_all
  moreover have "l' = l1 \<or> (\<exists>s. set_state l1 i s = Some l')"
    using assms unfolding wait_for_child_def w by (cases ch; cases bad) auto
  ultimately show ?thesis using length_set_state by metis
qed

lemma length_dispatch:
  "dispatch ptick l g i = Some (l', g') \<Longrightarrow> lookup_slot l i = Some p \<Longrightarrow> \<not> runnable (state (data p)) \<Longrightarrow>
     length l' = length l \<or> l' = clear_slot l i"
  by (cases "state (data p)")
     (auto simp: dispatch_def unwrap_at_eq check_orphan_def deallocate_def clear_slot_def index_set_def Let_def
       Option.bind_eq_Some_conv split: if_splits dest!: length_set_state length_wait_for_child)

lemma dead_not_runnable: "is_dead s \<Longrightarrow> \<not> runnable s"
  by (cases s) simp_all

lemma tick_task_blocked:
  assumes ok: "sched_ok l g" and p: "lookup_slot l i = Some p"
    and "\<not> runnable (state (data p)) \<or> lookup_slot (SIGNAL_QUEUES g) i \<noteq> Some []"
  shows "\<exists>l' g'. tick_task ptick l g i = Some (l', g') \<and> sched_ok l' g' \<and> (Suc i < length l \<longrightarrow> length l \<le> length l')"
proof -
  from deliver_signals_ok [OF ok p] obtain l1 g1 p1 q where
    d: "deliver_signals l g i = Some (l1, g1)" "sched_ok l1 g1" "lookup_slot l1 i = Some p1" "length l1 = length l"
      "lookup_slot (SIGNAL_QUEUES g) i = Some q" "data p1 = foldl recive_signal (data p) q" by blast
  have nr: "\<not> runnable (state (data p1))"
    using assms(3) d(5,6) dead_not_runnable [OF recive_signal_dies] 
    by (cases q) (auto simp: foldl_recive_signal simp del: foldl_Cons)
  from dispatch_blocked_ok [OF d(2,3) nr] obtain l' g' where
    r: "dispatch ptick l1 g1 i = Some (l', g')" "sched_ok l' g'" by blast
  have "trimmed l1" using d(2) by (simp add: sched_ok_def tasks_sync_def)
  with length_dispatch [OF r(1) d(3) nr] clear_slot_inside [of l1 i] d(4)
  have "Suc i < length l \<longrightarrow> length l \<le> length l'" by auto
  moreover have "tick_task ptick l g i = Some (l', g')"
    using p d(1) r(1) by (simp add: tick_task_def lookup_slot_index)
  ultimately show ?thesis using r(2) by blast
qed

section \<open>Safety of the scheduler\<close>

text \<open>
  The turn of a task that is blocked, terminated or has a pending signal never panics:
  no position of the task list or of the signal queues is out of range, no \<^verbatim>\<open>unwrap\<close> fails and
  every pipe it looks at exists; and afterwards the invariant of the scheduler holds again.
\<close>

theorem blocked_task_turn_safe:
  assumes "sched_ok l g" "lookup_slot l i = Some p"
    and "\<not> runnable (state (data p)) \<or> lookup_slot (SIGNAL_QUEUES g) i \<noteq> Some []"
  shows "\<exists>l' g'. tick_task ptick l g i = Some (l', g') \<and> sched_ok l' g'"
  using tick_task_blocked [OF assms] by blast

definition step_ok :: "('e, 'n, 'z) process_tick \<Rightarrow> bool" where
  "step_ok ptick \<longleftrightarrow> (\<forall>l g i p. sched_ok l g \<longrightarrow> lookup_slot l i = Some p \<longrightarrow> runnable (state (data p)) \<longrightarrow>
     (\<exists>l' g'. run_task ptick l g i = Some (l', g') \<and> sched_ok l' g' \<and> length l \<le> length l'))"

lemma dispatch_runnable:
  "lookup_slot l i = Some p \<Longrightarrow> runnable (state (data p)) \<Longrightarrow> dispatch ptick l g i = run_task ptick l g i"
  by (cases "state (data p)") (simp_all add: dispatch_def unwrap_at_eq)

lemma tick_task_ok:
  assumes step: "step_ok ptick" and ok: "sched_ok l g" and i: "i < length l"
  shows "\<exists>l' g'. tick_task ptick l g i = Some (l', g') \<and> sched_ok l' g' \<and> (Suc i < length l \<longrightarrow> length l \<le> length l')"
proof (cases "lookup_slot l i")
  case None
  with i ok show ?thesis by (auto simp: tick_task_def lookup_slot_def)
next
  case (Some p)
  show ?thesis
  proof (cases "\<not> runnable (state (data p)) \<or> lookup_slot (SIGNAL_QUEUES g) i \<noteq> Some []")
    case True
    from tick_task_blocked [OF ok Some this] show ?thesis .
  next
    case False
    from deliver_signals_ok [OF ok Some] False obtain l1 g1 p1 where
      d: "deliver_signals l g i = Some (l1, g1)" "sched_ok l1 g1" "lookup_slot l1 i = Some p1" "length l1 = length l"
        "data p1 = data p" by auto
    with False have run: "runnable (state (data p1))" by simp
    from step d(2,3) run obtain l' g' where
      r: "run_task ptick l1 g1 i = Some (l', g')" "sched_ok l' g'" "length l1 \<le> length l'"
      unfolding step_ok_def by blast
    have "tick_task ptick l g i = Some (l', g')"
      using Some d(1) r(1) dispatch_runnable [OF d(3) run, of ptick g1] by (simp add: tick_task_def lookup_slot_index)
    with r(2,3) d(4) show ?thesis by auto
  qed
qed

lemma tick_tasks_ok:
  "step_ok ptick \<Longrightarrow> sched_ok l g \<Longrightarrow> k < n \<longrightarrow> n \<le> length l \<Longrightarrow>
     \<exists>l' g'. tick_tasks ptick [k ..< n] l g = Some (l', g') \<and> sched_ok l' g'"
proof (induction "n - k" arbitrary: k l g)
  case 0
  then show ?case by simp
next
  case (Suc d)
  then have k: "k < n" "k < length l" "[k ..< n] = k # [Suc k ..< n]" by (auto simp: upt_conv_Cons)
  from tick_task_ok [OF Suc.prems(1,2) k(2)] obtain l1 g1 where
    t: "tick_task ptick l g k = Some (l1, g1)" "sched_ok l1 g1" "Suc k < length l \<longrightarrow> length l \<le> length l1" by blast
  have "Suc k < n \<longrightarrow> n \<le> length l1" using t(3) Suc.prems(3) k(1) by auto
  from Suc.hyps(1) [OF _ Suc.prems(1) t(2) this] Suc.hyps(2) t(1) k(3) show ?case by simp
qed


section \<open>Concrete states\<close>

definition demo_task :: "ProcessState \<Rightarrow> nat \<Rightarrow> nat option \<Rightarrow> (unit, unit) Process" where
  "demo_task s k parent = \<lparr>emu = (), data = (ProcessData_new ''/'' Map.empty (alloc_from 0x1000 0x1000 True))
     \<lparr>state := s, pid := Some k, parent_pid := parent\<rparr>\<rparr>"

definition demo_globals :: "nat \<Rightarrow> (unit, unit) globals" where
  "demo_globals n = \<lparr>NEW_TASK_LIST = [], NUMBER_OF_TASKS = n, PIPES = [], SIGNAL_QUEUES = replicate n (Some [])\<rparr>"

text \<open>A parent that waits for any child, and its child that has exited with code 3.\<close>

definition demo_tasks :: "(unit, unit) tasks" where
  "demo_tasks = [Some (demo_task (WAITING_FOR_CHILD_PROCESS None) 1 None),
     Some (demo_task (TERMINATED_NORMALLY_CHILD_WAITING_FOR_PARENT_ACKNOWLEDGEMENT 3) 2 (Some 1))]"

lemma demo_task_simps [simp]:
  "state (data (demo_task s k parent)) = s" "pid (data (demo_task s k parent)) = Some k"
  "parent_pid (data (demo_task s k parent)) = parent" "open_nodes (data (demo_task s k parent)) = []"
  "fd_mappings (data (demo_task s k parent)) = [Some Stdin, Some Stdout, Some Stderr]"
  by (simp_all add: demo_task_def ProcessData_new_def)

lemma demo_task_refs [simp]:
  "fd_refs (data (demo_task s k parent)) (Regular i) = 0" "fd_refs (data (demo_task s k parent)) (PipeReadEnd i) = 0"
  "fd_refs (data (demo_task s k parent)) (PipeWriteEnd i) = 0"
  by (simp_all add: fd_refs_def holders_Cons)

lemma demo_task_ok: "waits_ok l (data (demo_task s k parent)) \<Longrightarrow> task_ok l (demo_task s k parent)"
  by (simp add: task_ok_def nodes_ok_def trimmed_def) (simp add: lookup_slot_def)

lemma demo_lookup:
  "lookup_slot demo_tasks i = (if i = 0 then Some (demo_task (WAITING_FOR_CHILD_PROCESS None) 1 None)
     else if i = 1 then Some (demo_task (TERMINATED_NORMALLY_CHILD_WAITING_FOR_PARENT_ACKNOWLEDGEMENT 3) 2 (Some 1)) else None)"
  "lookup_slot (SIGNAL_QUEUES (demo_globals 2)) i = (if i < 2 then Some [] else None)"
  by (auto simp: demo_tasks_def demo_globals_def lookup_slot_def nth_Cons')

lemma demo_sched_ok: "sched_ok demo_tasks (demo_globals 2)"
proof -
  have "tasks_sync demo_tasks (demo_globals 2)"
    by (auto simp: tasks_sync_def demo_lookup trimmed_def) (simp_all add: demo_tasks_def demo_globals_def)
  moreover have "pipes_ok (total_refs demo_tasks) (PIPES (demo_globals 2))"
    by (simp add: pipes_ok_def total_refs_def demo_tasks_def demo_globals_def lookup_slot_def)
  moreover have "task_ok demo_tasks p" if "lookup_slot demo_tasks i = Some p" for i p
    using that by (auto simp: demo_lookup waits_ok_def intro!: demo_task_ok split: if_splits)
  ultimately show ?thesis by (auto simp: sched_ok_def)
qed

text \<open>A process whose next instruction is the system call \<^verbatim>\<open>exit(0)\<close>.\<close>

definition exit_tick :: "(unit, unit, unit) process_tick" where
  "exit_tick g p = Some (Some (), g, p\<lparr>data := exit (data p) 0\<rparr>)"

lemma exit_tick_ok: "step_ok exit_tick"
  unfolding step_ok_def
proof (intro allI impI)
  fix l :: "(unit, unit) tasks" and g :: "(unit, unit) globals" and i p
  assume ok: "sched_ok l g" and p: "lookup_slot l i = Some p" "runnable (state (data p))"
  let ?p = "p\<lparr>data := exit (data p) 0\<rparr>"
  have "same_but_state p ?p" by (auto simp: same_but_state_def exit_def)
  moreover have "waits_ok l (data ?p)" by (auto simp: exit_def waits_ok_def)
  ultimately have "sched_ok (l[i := Some ?p]) g" by (rule sched_ok_set_state [OF ok p(1)])
  then have "sched_ok (l[i := Some ?p]) (g\<lparr>NEW_TASK_LIST := [], NUMBER_OF_TASKS := length l\<rparr>)"
    by (simp add: sched_ok_def tasks_sync_def)
  moreover have "NEW_TASK_LIST g = []" using ok by (simp add: sched_ok_def tasks_sync_def)
  ultimately show "\<exists>l' g'. run_task exit_tick l g i = Some (l', g') \<and> sched_ok l' g' \<and> length l \<le> length l'"
    using p(1) by (simp add: run_task_def unwrap_at_eq exit_tick_def move_new_tasks_into_list_def Let_def)
qed

theorem blocked_task_turn_safe_witness:
  "\<exists>l' g'. tick_task exit_tick demo_tasks (demo_globals 2) 0 = Some (l', g') \<and> sched_ok l' g'"
  using blocked_task_turn_safe [OF demo_sched_ok, of 0] by (simp add: demo_lookup)


theorem wait_any_reports_first_child_witness:
  "\<exists>l'. wait_for_child demo_tasks 0 None = Some l' \<and>
     map_option (state \<circ> data) (lookup_slot l' 0) =
       Some (FINISHED_WAITING_FOR_CHILD_PROCESS (Some \<lparr>wait_cpid = 2, wait_action = EXITED 3\<rparr>)) \<and>
     map_option (state \<circ> data) (lookup_slot l' 1) = Some (TERMINATED_NORMALLY_WAITING_TO_BE_DEALLOCATED 3)"
proof -
  have len: "length demo_tasks = 2" by (simp add: demo_tasks_def)
  let ?c = "demo_task (TERMINATED_NORMALLY_CHILD_WAITING_FOR_PARENT_ACKNOWLEDGEMENT 3) 2 (Some 1)"
  have "\<not> zombie_of (0 + 1) (lookup_slot demo_tasks m)" if "m < 1" for m using that by (simp add: demo_lookup)
  with wait_any_reports_first_child [of demo_tasks 0 _ 1 ?c 2] show ?thesis
    by (simp add: demo_lookup(1) len lookup_slot_update release_def)
qed

theorem wait_any_without_zombie_witness:
  "wait_for_child [Some (demo_task (WAITING_FOR_CHILD_PROCESS None) 1 None)] 0 None =
     Some [Some (demo_task (WAITING_FOR_CHILD_PROCESS None) 1 None\<lparr>data :=
       (data (demo_task (WAITING_FOR_CHILD_PROCESS None) 1 None))\<lparr>state := FINISHED_WAITING_FOR_CHILD_PROCESS None\<rparr>\<rparr>)]"
proof -
  let ?l = "[Some (demo_task (WAITING_FOR_CHILD_PROCESS None) 1 None)]"
  have l: "lookup_slot ?l m = (if m = 0 then Some (demo_task (WAITING_FOR_CHILD_PROCESS None) 1 None) else None)" for m
    by (simp add: lookup_slot_def)
  have nz: "\<not> zombie_of (0 + 1) (lookup_slot ?l m)" for m unfolding l by simp
  have "\<not> child_of (0 + 1) (lookup_slot ?l m)" for m unfolding l by simp
  with wait_any_without_zombie [OF l [of 0, unfolded if_P [OF refl]] nz] show ?thesis by simp
qed

theorem signalled_process_does_not_run_witness:
  "tick_task exit_tick demo_tasks (demo_globals 2\<lparr>SIGNAL_QUEUES := [Some [\<lparr>signal_type = SIGKILL\<rparr>], Some []]\<rparr>) 0 =
   tick_task (\<lambda>g p. None) demo_tasks (demo_globals 2\<lparr>SIGNAL_QUEUES := [Some [\<lparr>signal_type = SIGKILL\<rparr>], Some []]\<rparr>) 0"
proof -
  let ?g = "demo_globals 2\<lparr>SIGNAL_QUEUES := [Some [\<lparr>signal_type = SIGKILL\<rparr>], Some []]\<rparr>"
  have p: "lookup_slot demo_tasks 0 = Some (demo_task (WAITING_FOR_CHILD_PROCESS None) 1 None)" by (simp add: demo_lookup)
  have q: "lookup_slot (SIGNAL_QUEUES ?g) 0 = Some [\<lparr>signal_type = SIGKILL\<rparr>]" by (simp add: lookup_slot_def)
  from signalled_process_does_not_run [OF p _ q, of exit_tick "\<lambda>g p. None"] show ?thesis by auto
qed

section \<open>Where process numbers and list positions come apart\<close>

lemma deliver_no_signals:
  assumes "lookup_slot l i = Some p" "lookup_slot (SIGNAL_QUEUES g) i = Some []"
  shows "deliver_signals l g i = Some (l, g)"
proof -
  have "l[i := Some p] = l" "(SIGNAL_QUEUES g)[i := Some []] = SIGNAL_QUEUES g"
    using assms by (simp_all add: lookup_slot_eq_Some list_update_same_conv)
  then show ?thesis using assms by (simp add: deliver_signals_def unwrap_at_eq)
qed

lemma tick_task_no_signals:
  "lookup_slot l i = Some p \<Longrightarrow> lookup_slot (SIGNAL_QUEUES g) i = Some [] \<Longrightarrow> tick_task ptick l g i = dispatch ptick l g i"
  by (simp add: tick_task_def lookup_slot_index deliver_no_signals)

text \<open>
  When the last process ends, the counter of tasks is not reset: the next process started
  gets the number 2 although it is put at position 0, which the scheduler takes for number 1.
  Its children then record a parent that is never the process at that position.
\<close>

theorem next_program_gets_wrong_pid:
  assumes ok: "sched_ok [Some p] g" and p: "state (data p) = TERMINATED_NORMALLY_WAITING_TO_BE_DEALLOCATED c"
    and q: "SIGNAL_QUEUES g = [Some []]"
  shows "\<exists>g'. scheduler_tick ptick [Some p] g = Some (False, [], g') \<and> fst (new_task g' next_prog) = 2 \<and>
    fst (move_new_tasks_into_list [] (snd (new_task g' next_prog))) =
      [Some (next_prog\<lparr>data := (data next_prog)\<lparr>pid := Some 2\<rparr>\<rparr>)]"
proof -
  have n: "NEW_TASK_LIST g = []" using ok by (simp add: sched_ok_def tasks_sync_def)
  have l0: "lookup_slot [Some p] 0 = Some p" by (simp add: lookup_slot_def)
  from drop_process_ok [OF fd_inv_task [OF ok l0]] obtain pipes where
    d: "drop_process (PIPES g) (data p) = Some pipes" by blast
  let ?g = "g\<lparr>NEW_TASK_LIST := [], NUMBER_OF_TASKS := 1\<rparr>"
  let ?g' = "?g\<lparr>PIPES := pipes, SIGNAL_QUEUES := []\<rparr>"
  have "tick_task ptick [Some p] ?g 0 = dispatch ptick [Some p] ?g 0"
    using q by (intro tick_task_no_signals [OF l0]) (simp add: lookup_slot_def)
  also have "\<dots> = Some ([], ?g')"
    using p l0 d q by (simp add: dispatch_def unwrap_at_eq deallocate_def index_set_def drain_none_def)
  finally have "scheduler_tick ptick [Some p] g = Some (False, [], ?g')"
    using n by (simp add: scheduler_tick_def move_new_tasks_into_list_def Let_def)
  then show ?thesis by (simp add: new_task_def move_new_tasks_into_list_def Let_def)
qed

theorem next_program_gets_wrong_pid_witness:
  "\<exists>g'. scheduler_tick exit_tick [Some (demo_task (TERMINATED_NORMALLY_WAITING_TO_BE_DEALLOCATED 0) 1 None)] (demo_globals 1) =
       Some (False, [], g') \<and> fst (new_task g' (demo_task RUNNING 0 None)) = 2"
proof -
  let ?l = "[Some (demo_task (TERMINATED_NORMALLY_WAITING_TO_BE_DEALLOCATED 0) 1 None)]"
  have "lookup_slot ?l i = (if i = 0 then Some (demo_task (TERMINATED_NORMALLY_WAITING_TO_BE_DEALLOCATED 0) 1 None) else None)" for i
    by (simp add: lookup_slot_def)
  then have "sched_ok ?l (demo_globals 1)"
    by (auto simp: sched_ok_def tasks_sync_def pipes_ok_def total_refs_def trimmed_def waits_ok_def intro!: demo_task_ok
        split: if_splits) (auto simp: demo_globals_def lookup_slot_def)
  from next_program_gets_wrong_pid [OF this, of 0 exit_tick "demo_task RUNNING 0 None"] show ?thesis
    by (auto simp: demo_globals_def)
qed

text \<open>
  A terminated child at the position that equals its parent's number, as the first child of
  process number \<open>i\<close> is, takes itself for its parent: even when the parent is gone it is never
  released, so its entry stays in the task list and the scheduler never becomes idle.
\<close>

theorem orphan_is_never_collected:
  assumes p: "lookup_slot l i = Some p" "parent_pid (data p) = Some i" "is_zombie (state (data p))"
    and q: "lookup_slot (SIGNAL_QUEUES g) i = Some []" and gone: "lookup_slot l (i - 1) = None"
  shows "tick_task ptick l g i = Some (l, g)"
proof -
  have "dispatch ptick l g i = Some (l, g)"
    using p by (cases "state (data p)") (simp_all add: dispatch_def unwrap_at_eq check_orphan_def)
  with tick_task_no_signals [OF p(1) q] show ?thesis by simp
qed

theorem orphan_is_never_collected_witness:
  "tick_task exit_tick [None, Some (demo_task (TERMINATED_NORMALLY_CHILD_WAITING_FOR_PARENT_ACKNOWLEDGEMENT 0) 2 (Some 1))]
     (demo_globals 2) 1 =
   Some ([None, Some (demo_task (TERMINATED_NORMALLY_CHILD_WAITING_FOR_PARENT_ACKNOWLEDGEMENT 0) 2 (Some 1))], demo_globals 2)"
  by (rule orphan_is_never_collected [of _ 1 "demo_task (TERMINATED_NORMALLY_CHILD_WAITING_FOR_PARENT_ACKNOWLEDGEMENT 0) 2 (Some 1)"])
     (simp_all add: demo_lookup(2) lookup_slot_def [of "[_, _]"])

text \<open>
  Waiting for a process that has no parent panics the kernel, because its parent number is
  unwrapped before it is compared: a program can stop the kernel with \<^verbatim>\<open>waitpid\<close> on the number
  of the first process.
\<close>

theorem waiting_for_parentless_process_panics:
  assumes p: "lookup_slot l i = Some p" "state (data p) = WAITING_FOR_CHILD_PROCESS (Some c)" "c \<noteq> 0"
    and q: "lookup_slot (SIGNAL_QUEUES g) i = Some []"
    and child: "lookup_slot l (c - 1) = Some other" "parent_pid (data other) = None"
  shows "tick_task ptick l g i = None"
  using tick_task_no_signals [OF p(1) q] p child
  by (simp add: dispatch_def unwrap_at_eq wait_for_child_def wait_specific_def)

theorem waiting_for_parentless_process_panics_witness:
  "tick_task exit_tick [Some (demo_task (WAITING_FOR_CHILD_PROCESS (Some 1)) 1 None)] (demo_globals 1) 0 = None"
  by (rule waiting_for_parentless_process_panics
        [of _ _ "demo_task (WAITING_FOR_CHILD_PROCESS (Some 1)) 1 None" 1 _ "demo_task (WAITING_FOR_CHILD_PROCESS (Some 1)) 1 None"])
     (simp_all add: lookup_slot_def demo_globals_def)

end
