(* ===== verification/Riscv_Isa.thy ===== *)
theory Riscv_Isa
  imports Riscv_Compressed
begin

text \<open>
  What the decoder has to compute, written from the encoding tables of the RISC-V manual that
  the source cites (Volume I, chapters 2 and 16), and the proof that it does.

  \<open>isa\<close> is an instruction with its operands; immediates are 32-bit values, sign-extended as
  \<^verbatim>\<open>parse_imm\<close> returns them. \<open>decode\<close> is the emulator's view of a 32-bit word: the
  dispatch at the end of \<^verbatim>\<open>tick\<close> on the opcode, the unpacking and \<^verbatim>\<open>parse_imm\<close>.
  \<open>isa32\<close> and \<open>rvc\<close> are the tables: an immediate is a list that names, from bit 0 upwards, the
  instruction bit each immediate bit is taken from.
\<close>

section \<open>The encoding tables\<close>

datatype isa =
    RInst RiscvOpcode u8 u8 u8 u8 u8 \<comment> \<open>funct3, funct7, rd, rs1, rs2\<close>
  | IInst RiscvOpcode u8 u8 u8 u32 \<comment> \<open>funct3, rd, rs1, immediate\<close>
  | SInst RiscvOpcode u8 u8 u8 u32 \<comment> \<open>funct3, rs1, rs2, immediate\<close>
  | BInst RiscvOpcode u8 u8 u8 u32 \<comment> \<open>funct3, rs1, rs2, immediate\<close>
  | UInst RiscvOpcode u8 u32 \<comment> \<open>rd, immediate\<close>
  | JInst RiscvOpcode u8 u32 \<comment> \<open>rd, immediate\<close>

definition gather :: "nat option list \<Rightarrow> 'a::len word \<Rightarrow> u32" where
  "gather ks w = horner_sum of_bool 2 (map (\<lambda>k. case k of None \<Rightarrow> False | Some i \<Rightarrow> bit w i) ks)"

definition sgather :: "nat option list \<Rightarrow> 'a::len word \<Rightarrow> u32" where
  "sgather ks w = gather (ks @ replicate (32 - length ks) (last ks)) w"

definition zeros :: "nat \<Rightarrow> nat option list" where
  "zeros n = map (\<lambda>_. None) [0 ..< n]"

definition from_to :: "nat \<Rightarrow> nat \<Rightarrow> nat option list" where
  "from_to lo hi = map Some [lo ..< Suc hi]"

definition fld :: "nat \<Rightarrow> nat \<Rightarrow> 'a::len word \<Rightarrow> u8" where
  "fld lo len w = ucast (take_bit len (drop_bit lo w))"

definition isa32 :: "u32 \<Rightarrow> isa option" where
  "isa32 w = map_option (\<lambda>op. case get_type op of
       RType \<Rightarrow> RInst op (fld 12 3 w) (fld 25 7 w) (fld 7 5 w) (fld 15 5 w) (fld 20 5 w)
     | IType \<Rightarrow> IInst op (fld 12 3 w) (fld 7 5 w) (fld 15 5 w) (sgather (from_to 20 31) w)
     | SType \<Rightarrow> SInst op (fld 12 3 w) (fld 15 5 w) (fld 20 5 w) (sgather (from_to 7 11 @ from_to 25 31) w)
     | BType \<Rightarrow> BInst op (fld 12 3 w) (fld 15 5 w) (fld 20 5 w)
         (sgather (zeros 1 @ from_to 8 11 @ from_to 25 30 @ [Some 7, Some 31]) w)
     | UType \<Rightarrow> UInst op (fld 7 5 w) (gather (zeros 12 @ from_to 12 31) w)
     | JType \<Rightarrow> JInst op (fld 7 5 w)
         (sgather (zeros 1 @ from_to 21 30 @ [Some 20] @ from_to 12 19 @ [Some 31]) w))
     (find (\<lambda>op. opcode_discriminant op = fld 0 7 w) all_opcodes)"

text \<open>Registers of the three-bit fields are \<^verbatim>\<open>x8\<close> to \<^verbatim>\<open>x15\<close>.\<close>

definition creg :: "nat \<Rightarrow> u16 \<Rightarrow> u8" where
  "creg lo w = 8 + fld lo 3 w"

definition rvc_q0 :: "u16 \<Rightarrow> isa option" where
  "rvc_q0 w = (let f3 = fld 13 3 w in
     if f3 = 0 then \<comment> \<open>C.ADDI4SPN\<close>
       Some (IInst OPIMM 0 (creg 2 w) 2 (gather (zeros 2 @ [Some 6, Some 5, Some 11, Some 12] @ from_to 7 10) w))
     else if f3 = 2 then \<comment> \<open>C.LW\<close>
       Some (IInst LOAD 2 (creg 2 w) (creg 7 w) (gather (zeros 2 @ [Some 6] @ from_to 10 12 @ [Some 5]) w))
     else if f3 = 3 then \<comment> \<open>C.LD\<close>
       Some (IInst LOAD 3 (creg 2 w) (creg 7 w) (gather (zeros 3 @ from_to 10 12 @ from_to 5 6) w))
     else if f3 = 6 then \<comment> \<open>C.SW\<close>
       Some (SInst STORE 2 (creg 7 w) (creg 2 w) (gather (zeros 2 @ [Some 6] @ from_to 10 12 @ [Some 5]) w))
     else if f3 = 7 then \<comment> \<open>C.SD\<close>
       Some (SInst STORE 3 (creg 7 w) (creg 2 w) (gather (zeros 3 @ from_to 10 12 @ from_to 5 6) w))
     else None)"

definition rvc_q1 :: "u16 \<Rightarrow> isa option" where
  "rvc_q1 w = (let f3 = fld 13 3 w; rd = fld 7 5 w; imm6 = from_to 2 6 @ [Some 12]; r = creg 7 w in
     if f3 = 0 then Some (IInst OPIMM 0 rd rd (sgather imm6 w)) \<comment> \<open>C.ADDI\<close>
     else if f3 = 1 then Some (IInst OPIMM32 0 rd rd (sgather imm6 w)) \<comment> \<open>C.ADDIW\<close>
     else if f3 = 2 then Some (IInst OPIMM 0 rd 0 (sgather imm6 w)) \<comment> \<open>C.LI\<close>
     else if f3 = 3 then
       (if rd = 2 \<comment> \<open>C.ADDI16SP, C.LUI\<close>
        then Some (IInst OPIMM 0 2 2
               (sgather (zeros 4 @ [Some 6, Some 2, Some 5, Some 3, Some 4, Some 12]) w))
        else Some (UInst LUI rd (sgather (zeros 12 @ imm6) w)))
     else if f3 = 4 then
       (if fld 10 2 w = 0 then Some (IInst OPIMM 5 r r (gather imm6 w)) \<comment> \<open>C.SRLI\<close>
        else if fld 10 2 w = 1 then Some (IInst OPIMM 5 r r (gather imm6 w OR 0x400)) \<comment> \<open>C.SRAI\<close>
        else if fld 10 2 w = 2 then Some (IInst OPIMM 7 r r (sgather imm6 w)) \<comment> \<open>C.ANDI\<close>
        else if \<not> bit w 12 then
          (if fld 5 2 w = 0 then Some (RInst OP 0 0x20 r r (creg 2 w)) \<comment> \<open>C.SUB, C.XOR, C.OR, C.AND\<close>
           else if fld 5 2 w = 1 then Some (RInst OP 4 0 r r (creg 2 w))
           else if fld 5 2 w = 2 then Some (RInst OP 6 0 r r (creg 2 w))
           else Some (RInst OP 7 0 r r (creg 2 w)))
        else
          (if fld 5 2 w = 0 then Some (RInst OP32 0 0x20 r r (creg 2 w)) \<comment> \<open>C.SUBW, C.ADDW\<close>
           else if fld 5 2 w = 1 then Some (RInst OP32 0 0 r r (creg 2 w))
           else None))
     else if f3 = 5 then \<comment> \<open>C.J\<close>
       Some (JInst JAL 0 (sgather (zeros 1 @ from_to 3 5 @
         [Some 11, Some 2, Some 7, Some 6, Some 9, Some 10, Some 8, Some 12]) w))
     else \<comment> \<open>C.BEQZ, C.BNEZ\<close>
       Some (BInst BRANCH (if f3 = 6 then 0 else 1) r 0
         (sgather (zeros 1 @ [Some 3, Some 4, Some 10, Some 11, Some 2, Some 5, Some 6, Some 12]) w)))"

definition rvc_q2 :: "u16 \<Rightarrow> isa option" where
  "rvc_q2 w = (let f3 = fld 13 3 w; rd = fld 7 5 w; rs2 = fld 2 5 w in
     if f3 = 0 then Some (IInst OPIMM 1 rd rd (gather (from_to 2 6 @ [Some 12]) w)) \<comment> \<open>C.SLLI\<close>
     else if f3 = 2 then \<comment> \<open>C.LWSP\<close>
       Some (IInst LOAD 2 rd 2 (gather (zeros 2 @ from_to 4 6 @ [Some 12] @ from_to 2 3) w))
     else if f3 = 3 then \<comment> \<open>C.LDSP\<close>
       Some (IInst LOAD 3 rd 2 (gather (zeros 3 @ from_to 5 6 @ [Some 12] @ from_to 2 4) w))
     else if f3 = 4 then
       (if \<not> bit w 12 then
          (if rs2 = 0 then Some (IInst JALR 0 0 rd 0) \<comment> \<open>C.JR, C.MV\<close>
           else Some (RInst OP 0 0 rd rs2 0))
        else if rs2 = 0 then
          (if rd = 0 then Some (IInst SYSTEM 0 0 0 1) \<comment> \<open>C.EBREAK, C.JALR\<close>
           else Some (IInst JALR 0 1 rd 0))
        else Some (RInst OP 0 0 rd rd rs2)) \<comment> \<open>C.ADD\<close>
     else if f3 = 6 then \<comment> \<open>C.SWSP\<close>
       Some (SInst STORE 2 2 rs2 (gather (zeros 2 @ from_to 9 12 @ from_to 7 8) w))
     else if f3 = 7 then \<comment> \<open>C.SDSP\<close>
       Some (SInst STORE 3 2 rs2 (gather (zeros 3 @ from_to 10 12 @ from_to 7 9) w))
     else None)"

definition rvc :: "u16 \<Rightarrow> isa option" where
  "rvc w = (let q = fld 0 2 w in
     if q = 0 then rvc_q0 w else if q = 1 then rvc_q1 w else if q = 2 then rvc_q2 w else None)"

section \<open>The emulator's decoder\<close>

definition decode :: "packed_struct \<Rightarrow> u32 \<Rightarrow> isa option" where
  "decode ps instruction = do {
     opcode \<leftarrow> opcode_from_primitive ps (ucast (instruction AND 0b1111111));
     (case get_type opcode of
       RType \<Rightarrow> map_option (\<lambda>i. RInst (r_opcode i) (r_funct3 i) (r_funct7 i) (r_rd i) (r_rs1 i) (r_rs2 i))
         (unpack_rtype ps instruction)
     | IType \<Rightarrow> map_option (\<lambda>i. IInst (i_opcode i) (i_funct3 i) (i_rd i) (i_rs1 i) (itype_parse_imm i))
         (unpack_itype ps instruction)
     | SType \<Rightarrow> map_option (\<lambda>i. SInst (s_opcode i) (s_funct3 i) (s_rs1 i) (s_rs2 i) (stype_parse_imm i))
         (unpack_stype ps instruction)
     | BType \<Rightarrow> map_option (\<lambda>i. BInst (b_opcode i) (b_funct3 i) (b_rs1 i) (b_rs2 i) (btype_parse_imm i))
         (unpack_btype ps instruction)
     | UType \<Rightarrow> map_option (\<lambda>i. UInst (u_opcode i) (u_rd i) (utype_parse_imm i))
         (unpack_utype ps instruction)
     | JType \<Rightarrow> map_option (\<lambda>i. JInst (j_opcode i) (j_rd i) (jtype_parse_imm i))
         (unpack_jtype ps instruction))
   }"

section \<open>Reading single bits of a table\<close>

lemma bit_gather: "bit (gather ks w) n \<longleftrightarrow>
    n < 32 \<and> n < length ks \<and> (case ks ! n of None \<Rightarrow> False | Some i \<Rightarrow> bit w i)"
  by (auto simp: gather_def bit_horner_sum_bit_iff)

lemma bit_sgather: "ks \<noteq> [] \<Longrightarrow> length ks \<le> 32 \<Longrightarrow> bit (sgather ks w) n \<longleftrightarrow>
    n < 32 \<and> (case ks ! (if n < length ks then n else length ks - 1) of None \<Rightarrow> False | Some i \<Rightarrow> bit w i)"
  by (auto simp: sgather_def bit_gather nth_append last_conv_nth)

lemma bit_fld: "bit (fld lo len w) n \<longleftrightarrow> n < 8 \<and> n < len \<and> bit w (lo + n)"
  by (auto simp: fld_def bit_simps)

lemma length_tables [simp]:
  "length (zeros n) = n" "length (from_to lo hi) = Suc hi - lo" "zeros (Suc 0) = [None]"
  by (simp_all add: zeros_def from_to_def Suc_diff_le)

lemmas table_eval = from_to_def zeros_def upt_conv_Cons bit_gather bit_sgather

lemma trunc_from_simps [simp]:
  "r_opcode (trunc_rtype (rtype_inst op d f3 a b f7)) = op"
  "r_rd (trunc_rtype (rtype_inst op d f3 a b f7)) = take_bit 5 d"
  "r_funct3 (trunc_rtype (rtype_inst op d f3 a b f7)) = take_bit 3 f3"
  "r_rs1 (trunc_rtype (rtype_inst op d f3 a b f7)) = take_bit 5 a"
  "r_rs2 (trunc_rtype (rtype_inst op d f3 a b f7)) = take_bit 5 b"
  "r_funct7 (trunc_rtype (rtype_inst op d f3 a b f7)) = take_bit 7 f7"
  "i_opcode (trunc_itype (itype_from op d f3 a im)) = op"
  "i_rd (trunc_itype (itype_from op d f3 a im)) = take_bit 5 d"
  "i_funct3 (trunc_itype (itype_from op d f3 a im)) = take_bit 3 f3"
  "i_rs1 (trunc_itype (itype_from op d f3 a im)) = take_bit 5 a"
  "s_opcode (trunc_stype (stype_from op f3 a b im)) = op"
  "s_funct3 (trunc_stype (stype_from op f3 a b im)) = take_bit 3 f3"
  "s_rs1 (trunc_stype (stype_from op f3 a b im)) = take_bit 5 a"
  "s_rs2 (trunc_stype (stype_from op f3 a b im)) = take_bit 5 b"
  "b_opcode (trunc_btype (btype_from op f3 a b im)) = op"
  "b_funct3 (trunc_btype (btype_from op f3 a b im)) = take_bit 3 f3"
  "b_rs1 (trunc_btype (btype_from op f3 a b im)) = take_bit 5 a"
  "b_rs2 (trunc_btype (btype_from op f3 a b im)) = take_bit 5 b"
  "u_opcode (trunc_utype (utype_from op d im)) = op"
  "u_rd (trunc_utype (utype_from op d im)) = take_bit 5 d"
  "j_opcode (trunc_jtype (jtype_from op d im)) = op"
  "j_rd (trunc_jtype (jtype_from op d im)) = take_bit 5 d"
  by (simp_all add: trunc_rtype_def rtype_inst_def trunc_itype_def itype_from_def trunc_stype_def
      stype_from_def trunc_btype_def btype_from_def trunc_utype_def utype_from_def trunc_jtype_def jtype_from_def)

section \<open>The 32-bit decoder follows the table\<close>

context packed_struct_crate
begin

lemma get8_fld: "lo \<le> hi \<Longrightarrow> hi < 32 \<Longrightarrow> get8 ps lo hi w = fld lo (Suc hi - lo) w"
  by (rule bit_word_eqI) (auto simp: bit_get8 bit_fld)

lemma low_7_bits: "ucast (w AND 0b1111111) = fld 0 7 w" for w :: u32
  by (rule bit_word_eqI) (auto simp: fld_def bit_simps take_bit_eq_mask mask_eq_exp_minus_1)

lemma opcode_find: "opcode_from_primitive ps x = find (\<lambda>op. opcode_discriminant op = x) all_opcodes"
proof (cases "find (\<lambda>op. opcode_discriminant op = x) all_opcodes")
  case None
  then have "opcode_discriminant op \<noteq> x" for op
    using all_opcodes_complete [of op] by (auto simp: find_None_iff)
  then have "opcode_from_primitive ps x \<noteq> Some op" for op by (simp add: opcode_from_primitive)
  then have "opcode_from_primitive ps x = None" by (cases "opcode_from_primitive ps x") auto
  with None show ?thesis by simp
next
  case (Some op)
  then have "opcode_discriminant op = x" by (auto simp: find_Some_iff)
  with Some show ?thesis by (simp add: opcode_from_primitive)
qed

lemma itype_imm_table:
  "itype_parse_imm \<lparr>i_opcode = op, i_rd = d, i_funct3 = f, i_rs1 = a, i_imm = get16 ps 20 31 w\<rparr> =
     sgather (from_to 20 31) w"
  by (simp add: itype_parse_imm_def u32_eq_iff all_less_32 extend_imm_eq bit_signed_take_bit_u32 bit_get
      table_eval bit_simps)

lemma stype_imm_table:
  "stype_parse_imm \<lparr>s_opcode = op, s_imm_low5 = fld 7 5 w, s_funct3 = f, s_rs1 = a, s_rs2 = b,
      s_imm_hi7 = fld 25 7 w\<rparr> = sgather (from_to 7 11 @ from_to 25 31) w"
  by (simp add: stype_parse_imm_def u32_eq_iff all_less_32 extend_imm_eq bit_signed_take_bit_u32 bit_fld
      table_eval bit_simps)

lemma btype_imm_table:
  "btype_parse_imm \<lparr>b_opcode = op, b_imm_bit11 = fld 7 (Suc 0) w, b_imm_bits_4_1 = fld 8 4 w,
      b_funct3 = f, b_rs1 = a, b_rs2 = b, b_imm_bits_10_5 = fld 25 6 w, b_imm_bit12 = fld 31 (Suc 0) w\<rparr> =
     sgather (zeros 1 @ from_to 8 11 @ from_to 25 30 @ [Some 7, Some 31]) w"
  by (simp add: btype_parse_imm_def u32_eq_iff all_less_32 extend_imm_eq bit_signed_take_bit_u32 bit_fld
      table_eval bit_simps bit_expand del: push_bit_Suc)

lemma utype_imm_table: "push_bit 12 (field_get ps 12 31 w) = gather (zeros 12 @ from_to 12 31) w"
  by (simp add: u32_eq_iff all_less_32 bit_get table_eval bit_simps)

lemma jtype_imm_table:
  "jtype_parse_imm \<lparr>j_opcode = op, j_rd = d, j_imm_bits_19_12 = fld 12 8 w, j_imm_bit11 = fld 20 (Suc 0) w,
      j_imm_bits_10_1 = get16 ps 21 30 w, j_imm_bit20 = fld 31 (Suc 0) w\<rparr> =
     sgather (zeros 1 @ from_to 21 30 @ [Some 20] @ from_to 12 19 @ [Some 31]) w"
  by (simp add: jtype_parse_imm_def u32_eq_iff all_less_32 extend_imm_eq bit_signed_take_bit_u32 bit_fld
      bit_get table_eval bit_simps bit_expand del: push_bit_Suc)

lemma decode_table: "decode ps w = isa32 w"
proof -
  have op: "opcode_from_primitive ps (get8 ps 0 6 w) = opcode_from_primitive ps (ucast (w AND 0b1111111))"
    by (simp add: get8_fld low_7_bits)
  show ?thesis
  proof (cases "opcode_from_primitive ps (ucast (w AND 0b1111111))")
    case None
    then show ?thesis by (simp add: decode_def isa32_def opcode_find low_7_bits)
  next
    case (Some opc)
    then have "find (\<lambda>op. opcode_discriminant op = fld 0 7 w) all_opcodes = Some opc"
      by (simp add: opcode_find low_7_bits)
    with Some op show ?thesis
      by (simp add: decode_def isa32_def unpack_rtype_def unpack_itype_def unpack_stype_def
          unpack_btype_def unpack_utype_def unpack_jtype_def utype_parse_imm_def
          itype_imm_table stype_imm_table btype_imm_table utype_imm_table jtype_imm_table
          get8_fld split: RiscvInstType.split)
  qed
qed

lemma cget_fld [simp]: "lo \<le> hi \<Longrightarrow> hi < 16 \<Longrightarrow> cget ps lo hi w = fld lo (Suc hi - lo) w"
  by (rule bit_word_eqI) (auto simp: cget_def bit_get8 bit_fld bit_simps dest: bit_imp_le_length)

lemma copcode_cases [simp]:
  "copcode_from_primitive ps 0 = Some C0" "copcode_from_primitive ps 1 = Some C1"
  "copcode_from_primitive ps 2 = Some C2" "copcode_from_primitive ps 3 = None"
proof -
  show "copcode_from_primitive ps 3 = None"
  proof (cases "copcode_from_primitive ps 3")
    case (Some c)
    then have "copcode_discriminant c = 3" by (simp add: copcode_from_primitive)
    then show ?thesis by (cases c) simp_all
  qed simp
qed (simp_all add: copcode_from_primitive)

lemma decode_opcode:
  assumes "unpack_itype ps w = Some i \<and> op = i_opcode i \<or> unpack_rtype ps w = Some r \<and> op = r_opcode r \<or>
    unpack_stype ps w = Some s \<and> op = s_opcode s \<or> unpack_btype ps w = Some b \<and> op = b_opcode b \<or>
    unpack_utype ps w = Some u \<and> op = u_opcode u \<or> unpack_jtype ps w = Some j \<and> op = j_opcode j"
  shows "opcode_from_primitive ps (ucast (w AND 0b1111111)) = Some op"
  using assms get8_fld [of 0 6 w]
  by (auto simp: low_7_bits unpack_itype_def unpack_rtype_def unpack_stype_def unpack_btype_def
      unpack_utype_def unpack_jtype_def split: bind_splits)

lemma decode_pack_rtype: "get_type op = RType \<Longrightarrow> decode ps (pack_rtype ps (rtype_inst op d f3 a b f7)) =
    Some (RInst op (take_bit 3 f3) (take_bit 7 f7) (take_bit 5 d) (take_bit 5 a) (take_bit 5 b))"
  using decode_opcode [of "pack_rtype ps (rtype_inst op d f3 a b f7)" undefined op
      "trunc_rtype (rtype_inst op d f3 a b f7)"]
  by (simp add: decode_def unpack_pack_rtype)

lemma decode_pack_itype: "get_type op = IType \<Longrightarrow> decode ps (pack_itype ps (itype_from op d f3 a im)) =
    Some (IInst op (take_bit 3 f3) (take_bit 5 d) (take_bit 5 a) (signed_take_bit 11 im))"
  using decode_opcode [of "pack_itype ps (itype_from op d f3 a im)" "trunc_itype (itype_from op d f3 a im)" op]
  by (simp add: decode_def unpack_pack_itype)

lemma decode_pack_stype: "get_type op = SType \<Longrightarrow> decode ps (pack_stype ps (stype_from op f3 a b im)) =
    Some (SInst op (take_bit 3 f3) (take_bit 5 a) (take_bit 5 b) (signed_take_bit 11 im))"
  using decode_opcode [of "pack_stype ps (stype_from op f3 a b im)" undefined op undefined
      "trunc_stype (stype_from op f3 a b im)"]
  by (simp add: decode_def unpack_pack_stype)

lemma decode_pack_btype: "get_type op = BType \<Longrightarrow> decode ps (pack_btype ps (btype_from op f3 a b im)) =
    Some (BInst op (take_bit 3 f3) (take_bit 5 a) (take_bit 5 b) (signed_take_bit 12 (im AND NOT 1)))"
  using decode_opcode [of "pack_btype ps (btype_from op f3 a b im)" undefined op undefined undefined
      "trunc_btype (btype_from op f3 a b im)"]
  by (simp add: decode_def unpack_pack_btype)

lemma decode_pack_utype: "get_type op = UType \<Longrightarrow> decode ps (pack_utype ps (utype_from op d im)) =
    Some (UInst op (take_bit 5 d) (im AND NOT (mask 12)))"
  using decode_opcode [of "pack_utype ps (utype_from op d im)" undefined op undefined undefined undefined
      "trunc_utype (utype_from op d im)"]
  by (simp add: decode_def unpack_pack_utype)

lemma decode_pack_jtype: "get_type op = JType \<Longrightarrow> decode ps (pack_jtype ps (jtype_from op d im)) =
    Some (JInst op (take_bit 5 d) (signed_take_bit 20 (im AND NOT 1)))"
  using decode_opcode [of "pack_jtype ps (jtype_from op d im)" undefined op undefined undefined undefined undefined
      "trunc_jtype (jtype_from op d im)"]
  by (simp add: decode_def unpack_pack_jtype)

lemmas decode_pack = decode_pack_rtype decode_pack_itype decode_pack_stype decode_pack_btype
  decode_pack_utype decode_pack_jtype

text \<open>A word whose low two bits are not both set is no 32-bit instruction.\<close>

lemma decode_compressed_word:
  assumes "x AND 0b11 \<noteq> (0b11 :: u32)"
  shows "decode ps x = None"
proof (cases "opcode_from_primitive ps (ucast (x AND 0b1111111))")
  case (Some op)
  then have d: "opcode_discriminant op = fld 0 7 x" by (simp add: opcode_from_primitive low_7_bits)
  have "bit (opcode_discriminant op) 0 \<and> bit (opcode_discriminant op) 1" by (cases op) simp_all
  with d have "bit x 0" "bit x 1" by (simp_all add: bit_fld)
  then have "x AND 0b11 = 0b11"
    by (simp add: u32_eq_iff all_less_32 bit_simps)
  with assms show ?thesis by simp
qed (simp add: decode_def)

end

section \<open>Expanding a compressed instruction\<close>

lemma take_fld [simp]: "len \<le> k \<Longrightarrow> take_bit k (fld lo len w) = fld lo len w"
  by (rule bit_word_eqI) (auto simp: bit_simps bit_fld)

lemma unat_fld: "unat (fld lo len w) < 2 ^ len"
proof -
  have "fld lo len w = take_bit len (fld lo len w)" by simp
  then have "unat (fld lo len w) = take_bit len (unat (fld lo len w))"
    by (metis unsigned_take_bit_eq)
  then show ?thesis by (metis take_bit_nat_less_exp)
qed

lemma fld_2_cases: "fld lo 2 w = 0 \<or> fld lo 2 w = 1 \<or> fld lo 2 w = 2 \<or> fld lo 2 w = 3"
proof -
  have "unat (fld lo 2 w) = 0 \<or> unat (fld lo 2 w) = 1 \<or> unat (fld lo 2 w) = 2 \<or> unat (fld lo 2 w) = 3"
    using unat_fld [of lo 2 w] by auto
  then show ?thesis by (simp add: word_unat_eq_iff)
qed

lemma fld_3_cases:
  "fld lo 3 w = 0 \<or> fld lo 3 w = 1 \<or> fld lo 3 w = 2 \<or> fld lo 3 w = 3 \<or>
   fld lo 3 w = 4 \<or> fld lo 3 w = 5 \<or> fld lo 3 w = 6 \<or> fld lo 3 w = 7"
proof -
  have "unat (fld lo 3 w) = 0 \<or> unat (fld lo 3 w) = 1 \<or> unat (fld lo 3 w) = 2 \<or> unat (fld lo 3 w) = 3 \<or>
      unat (fld lo 3 w) = 4 \<or> unat (fld lo 3 w) = 5 \<or> unat (fld lo 3 w) = 6 \<or> unat (fld lo 3 w) = 7"
    using unat_fld [of lo 3 w] by auto
  then show ?thesis by (simp add: word_unat_eq_iff)
qed

lemma take_creg [simp]: "take_bit 5 (creg lo w) = creg lo w"
  using fld_3_cases [of lo w] by (auto simp: creg_def)

lemma parse_creg [simp]: "checked_add (fld lo 3 w) 8 = Some (creg lo w)"
  using fld_3_cases [of lo w] by (auto simp: creg_def checked_add_def)

lemma and_low_bits: "x AND 0b111 = take_bit 3 x" "x AND 0b11 = take_bit 2 x" for x :: u16
  by (simp_all add: take_bit_eq_mask mask_eq_exp_minus_1)

lemma mask_fld:
  "drop_bit 13 w AND 0b111 = ucast (fld 13 3 w)" "drop_bit 10 w AND 0b11 = ucast (fld 10 2 w)"
  "ucast (w AND 0b11) = fld 0 2 w" for w :: u16
  unfolding and_low_bits by (rule bit_word_eqI, auto simp: bit_simps bit_fld)+

lemma gather_fits [simp]: "length ks \<le> 11 \<Longrightarrow> signed_take_bit 11 (gather ks w) = gather ks w"
  by (rule bit_word_eqI) (auto simp: bit_signed_take_bit_u32 bit_gather)

lemma sgather_fits [simp]:
  "ks \<noteq> [] \<Longrightarrow> length ks \<le> Suc k \<Longrightarrow> k < 32 \<Longrightarrow> signed_take_bit k (sgather ks w) = sgather ks w"
  by (rule bit_word_eqI, cases "length ks = Suc k") (auto simp: bit_signed_take_bit_u32 bit_sgather)

lemma sgather_even [simp]:
  assumes "length ks \<le> 31" "ks \<noteq> []"
  shows "sgather (None # ks) w AND - 2 = sgather (None # ks) w"
proof -
  have "sgather (None # ks) w AND NOT 1 = sgather (None # ks) w"
    using assms by (intro bit_word_eqI) (auto simp: bit_sgather bit_simps nth_Cons split: nat.splits)
  then show ?thesis by simp
qed

lemma lui_fits [simp]:
  "sgather (zeros 12 @ from_to 2 6 @ [Some 12]) w AND NOT (mask 12) =
     sgather (zeros 12 @ from_to 2 6 @ [Some 12]) w"
  by (simp add: u32_eq_iff all_less_32 table_eval bit_simps)

lemmas imm_eval = Let_def numeral_2_eq_2 [symmetric] u32_eq_iff all_less_32 table_eval bit_fld bit_simps bit_expand

lemma ciw_imm_table:
  "ciw_parse_imm \<lparr>ciw_opcode = C0, ciw_compressed_rd = d, ciw_imm = fld 5 8 w, ciw_funct3 = 0\<rparr> =
     Some (gather (zeros 2 @ [Some 6, Some 5, Some 11, Some 12] @ from_to 7 10) w)"
  by (simp add: ciw_parse_imm_def imm_eval del: One_nat_def and_one_eq)

lemma cl_imm_table:
  "cl_parse_imm \<lparr>cl_opcode = C0, cl_compressed_rd = d, cl_imm_part1 = fld 5 2 w, cl_compressed_rs1 = a,
      cl_imm_part2 = fld 10 3 w, cl_funct3 = 2\<rparr> =
     Some (gather (zeros 2 @ [Some 6] @ from_to 10 12 @ [Some 5]) w)"
  "cl_parse_imm \<lparr>cl_opcode = C0, cl_compressed_rd = d, cl_imm_part1 = fld 5 2 w, cl_compressed_rs1 = a,
      cl_imm_part2 = fld 10 3 w, cl_funct3 = 3\<rparr> =
     Some (gather (zeros 3 @ from_to 10 12 @ from_to 5 6) w)"
  by (simp_all add: cl_parse_imm_def imm_eval del: One_nat_def and_one_eq)

lemma cs_imm_table:
  "cs_parse_imm \<lparr>cs_opcode = C0, cs_compressed_rs2 = d, cs_imm_part1 = fld 5 2 w, cs_compressed_rs1 = a,
      cs_imm_part2 = fld 10 3 w, cs_funct3 = 6\<rparr> =
     Some (gather (zeros 2 @ [Some 6] @ from_to 10 12 @ [Some 5]) w)"
  "cs_parse_imm \<lparr>cs_opcode = C0, cs_compressed_rs2 = d, cs_imm_part1 = fld 5 2 w, cs_compressed_rs1 = a,
      cs_imm_part2 = fld 10 3 w, cs_funct3 = 7\<rparr> =
     Some (gather (zeros 3 @ from_to 10 12 @ from_to 5 6) w)"
  by (simp_all add: cs_parse_imm_def imm_eval del: One_nat_def and_one_eq)

lemma css_imm_table:
  "css_parse_imm \<lparr>css_opcode = C2, css_rs2 = b, css_imm = fld 7 6 w, css_funct3 = 6\<rparr> =
     Some (gather (zeros 2 @ from_to 9 12 @ from_to 7 8) w)"
  "css_parse_imm \<lparr>css_opcode = C2, css_rs2 = b, css_imm = fld 7 6 w, css_funct3 = 7\<rparr> =
     Some (gather (zeros 3 @ from_to 10 12 @ from_to 7 9) w)"
  by (simp_all add: css_parse_imm_def imm_eval del: One_nat_def and_one_eq)

lemma cj_imm_table:
  "cj_parse_imm \<lparr>cj_opcode = C1, cj_imm_bit5 = fld 2 (Suc 0) w, cj_imm_3_1 = fld 3 3 w,
      cj_imm_bit7 = fld 6 (Suc 0) w, cj_imm_bit6 = fld 7 (Suc 0) w, cj_imm_bit10 = fld 8 (Suc 0) w,
      cj_imm_9_8 = fld 9 2 w, cj_imm_bit4 = fld 11 (Suc 0) w, cj_imm_bit11 = fld 12 (Suc 0) w, cj_funct3 = 5\<rparr> =
     Some (sgather (zeros 1 @ from_to 3 5 @
         [Some 11, Some 2, Some 7, Some 6, Some 9, Some 10, Some 8, Some 12]) w)"
  by (simp add: cj_parse_imm_def imm_eval del: One_nat_def and_one_eq)

lemma ci_imm_table:
  "ci_parse_imm \<lparr>ci_opcode = C2, ci_imm_part1 = fld 2 5 w, ci_rd_rs1 = d, ci_imm_part2 = fld 12 (Suc 0) w,
      ci_funct3 = 0\<rparr> = Some (gather (from_to 2 6 @ [Some 12]) w)"
  "ci_parse_imm \<lparr>ci_opcode = C2, ci_imm_part1 = fld 2 5 w, ci_rd_rs1 = d, ci_imm_part2 = fld 12 (Suc 0) w,
      ci_funct3 = 2\<rparr> = Some (gather (zeros 2 @ from_to 4 6 @ [Some 12] @ from_to 2 3) w)"
  "ci_parse_imm \<lparr>ci_opcode = C2, ci_imm_part1 = fld 2 5 w, ci_rd_rs1 = d, ci_imm_part2 = fld 12 (Suc 0) w,
      ci_funct3 = 3\<rparr> = Some (gather (zeros 3 @ from_to 5 6 @ [Some 12] @ from_to 2 4) w)"
  "f = 0 \<or> f = 1 \<or> f = 2 \<Longrightarrow>
   ci_parse_imm \<lparr>ci_opcode = C1, ci_imm_part1 = fld 2 5 w, ci_rd_rs1 = d, ci_imm_part2 = fld 12 (Suc 0) w,
      ci_funct3 = f\<rparr> = Some (sgather (from_to 2 6 @ [Some 12]) w)"
  "d \<noteq> 2 \<Longrightarrow>
   ci_parse_imm \<lparr>ci_opcode = C1, ci_imm_part1 = fld 2 5 w, ci_rd_rs1 = d, ci_imm_part2 = fld 12 (Suc 0) w,
      ci_funct3 = 3\<rparr> = Some (sgather (zeros 12 @ from_to 2 6 @ [Some 12]) w)"
  "ci_parse_imm \<lparr>ci_opcode = C1, ci_imm_part1 = fld 2 5 w, ci_rd_rs1 = 2, ci_imm_part2 = fld 12 (Suc 0) w,
      ci_funct3 = 3\<rparr> = Some (sgather (zeros 4 @ [Some 6, Some 2, Some 5, Some 3, Some 4, Some 12]) w)"
  by (auto simp: ci_parse_imm_def imm_eval simp del: One_nat_def and_one_eq)

lemma cb_funct2: "fld 10 3 w AND 3 = fld 10 2 w"
proof -
  have "fld 10 3 w AND 3 = take_bit 2 (fld 10 3 w)" by (simp add: take_bit_eq_mask mask_eq_exp_minus_1)
  also have "\<dots> = fld 10 2 w" by (rule bit_word_eqI) (auto simp: bit_simps bit_fld)
  finally show ?thesis .
qed

lemma cb_imm_table:
  "f = 6 \<or> f = 7 \<Longrightarrow>
   cb_parse_imm \<lparr>cb_opcode = C1, cb_imm_part1 = fld 2 5 w, cb_compressed_rd_rs1 = d, cb_imm_part2 = fld 10 3 w,
      cb_funct3 = f\<rparr> =
     Some (sgather (zeros 1 @ [Some 3, Some 4, Some 10, Some 11, Some 2, Some 5, Some 6, Some 12]) w)"
  "fld 10 2 w \<noteq> 2 \<Longrightarrow>
   cb_parse_imm \<lparr>cb_opcode = C1, cb_imm_part1 = fld 2 5 w, cb_compressed_rd_rs1 = d, cb_imm_part2 = fld 10 3 w,
      cb_funct3 = 4\<rparr> = Some (gather (from_to 2 6 @ [Some 12]) w)"
  "fld 10 2 w = 2 \<Longrightarrow>
   cb_parse_imm \<lparr>cb_opcode = C1, cb_imm_part1 = fld 2 5 w, cb_compressed_rd_rs1 = d, cb_imm_part2 = fld 10 3 w,
      cb_funct3 = 4\<rparr> = Some (sgather (from_to 2 6 @ [Some 12]) w)"
proof -
  have sign: "drop_bit 2 (ucast (fld 10 3 w) :: u32) AND 1 = 1 \<longleftrightarrow> bit w 12"
    by (auto simp: u32_eq_iff all_less_32 bit_fld bit_simps bit_expand simp del: One_nat_def and_one_eq)
  show "f = 6 \<or> f = 7 \<Longrightarrow>
   cb_parse_imm \<lparr>cb_opcode = C1, cb_imm_part1 = fld 2 5 w, cb_compressed_rd_rs1 = d, cb_imm_part2 = fld 10 3 w,
      cb_funct3 = f\<rparr> =
     Some (sgather (zeros 1 @ [Some 3, Some 4, Some 10, Some 11, Some 2, Some 5, Some 6, Some 12]) w)"
    by (cases "bit w 12")
      (simp_all add: cb_parse_imm_def sign imm_eval del: One_nat_def and_one_eq)
qed (simp_all add: cb_parse_imm_def cb_parse_funct2_def cb_funct2 imm_eval del: One_nat_def and_one_eq)

lemma srai_fits [simp]:
  "signed_take_bit 11 (gather (from_to 2 6 @ [Some 12]) w OR 1024) = gather (from_to 2 6 @ [Some 12]) w OR 1024"
  by (simp add: u32_eq_iff all_less_32 bit_signed_take_bit_u32 table_eval bit_simps)

lemma funct6_split: "fld 10 6 w = fld 10 2 w OR push_bit 2 (of_bool (bit w 12)) OR push_bit 3 (fld 13 3 w)"
  by (simp add: u8_eq_iff all_less_8 bit_simps bit_fld bit_expand del: One_nat_def)

lemma funct4_split: "fld 12 4 w = of_bool (bit w 12) OR push_bit 1 (fld 13 3 w)"
  by (simp add: u8_eq_iff all_less_8 bit_simps bit_fld bit_expand del: One_nat_def)

context packed_struct_crate
begin

lemmas expand_eval = expand_def get_compressed_instruction_type_def mask_fld Let_def numeral_2_eq_2 [symmetric]

lemma expand_q0:
  assumes "fld 0 2 (ucast x :: u16) = 0" and "x AND 3 \<noteq> 3"
  shows "\<exists>r. expand ps x = Some r \<and> Option.bind r (decode ps) = rvc_q0 (ucast x)"
  using fld_3_cases [of 13 "ucast x :: u16"] assms
  by (elim disjE)
    (simp_all add: expand_eval expand_ciw_def expand_cl_def expand_cs_def unpack_ciw_def unpack_cl_def unpack_cs_def
      ciw_imm_table cl_imm_table cs_imm_table ciw_parse_rd_def cl_parse_rd_def cl_parse_rs1_def
      cs_parse_rs1_def cs_parse_rs2_def decode_pack decode_compressed_word rvc_q0_def)

lemma expand_q2:
  assumes "fld 0 2 (ucast x :: u16) = 2" and "x AND 3 \<noteq> 3"
  shows "\<exists>r. expand ps x = Some r \<and> Option.bind r (decode ps) = rvc_q2 (ucast x)"
  using fld_3_cases [of 13 "ucast x :: u16"] assms
  by (elim disjE)
    (simp_all add: expand_eval expand_ci_def expand_cr_def expand_css_def unpack_ci_def unpack_cr_def unpack_css_def
      ci_imm_table css_imm_table funct4_split decode_pack decode_compressed_word rvc_q2_def)

lemma expand_q1_alu:
  assumes "fld 0 2 (ucast x :: u16) = 1" "fld 13 3 (ucast x :: u16) = 4" and "x AND 3 \<noteq> 3"
  shows "\<exists>r. expand ps x = Some r \<and> Option.bind r (decode ps) = rvc_q1 (ucast x)"
  using fld_2_cases [of 10 "ucast x :: u16"] fld_2_cases [of 5 "ucast x :: u16"] assms
  by (elim disjE)
    (simp_all add: expand_eval expand_cb_def expand_ca_def unpack_cb_def unpack_ca_def cb_imm_table funct6_split
      cb_parse_funct2_def cb_funct2 cb_parse_rd_rs1_def ca_parse_rd_rs1_def ca_parse_rs2_def decode_pack
      decode_compressed_word rvc_q1_def)

lemma expand_q1:
  assumes "fld 0 2 (ucast x :: u16) = 1" and "x AND 3 \<noteq> 3"
  shows "\<exists>r. expand ps x = Some r \<and> Option.bind r (decode ps) = rvc_q1 (ucast x)"
  using fld_3_cases [of 13 "ucast x :: u16"] assms expand_q1_alu [of x]
  by (elim disjE)
    (simp_all add: expand_eval expand_ci_def expand_cb_def expand_cj_def unpack_ci_def unpack_cb_def
      unpack_cj_def ci_imm_table cb_imm_table cj_imm_table cb_parse_rd_rs1_def decode_pack rvc_q1_def)

lemma expand_table:
  assumes "x AND 0b11 \<noteq> 0b11"
  shows "\<exists>r. expand ps x = Some r \<and> Option.bind r (decode ps) = rvc (ucast x)"
proof -
  have "fld 0 2 (ucast x :: u16) \<noteq> 3"
  proof
    assume "fld 0 2 (ucast x :: u16) = 3"
    then have "bit (fld 0 2 (ucast x :: u16)) 0" "bit (fld 0 2 (ucast x :: u16)) 1" by simp_all
    then have "bit x 0" "bit x 1" by (simp_all add: bit_fld bit_simps)
    then have "x AND 0b11 = 0b11" by (simp add: u32_eq_iff all_less_32 bit_simps)
    with assms show False by simp
  qed
  then show ?thesis
    using fld_2_cases [of 0 "ucast x :: u16"] assms expand_q0 [of x] expand_q1 [of x] expand_q2 [of x]
    by (auto simp: rvc_def Let_def)
qed

end





end
