(* ===== verification/Riscv_Machine.thy ===== *)
theory Riscv_Machine
  imports Riscv_Isa Riscv_Cpu
begin

text \<open>
  An abstract RV64IMC machine and the proof that \<^verbatim>\<open>tick\<close> implements it.

  Its registers are a function with \<^verbatim>\<open>x0 = 0\<close>, its arithmetic is integer arithmetic, its
  jumps go straight to their target. \<open>alu\<close> gives the manual's meaning of the
  register-register instructions; the immediate instructions are the same operations on the
  sign-extended immediate. Where the emulator panics, \<open>isa_exec\<close> is \<open>None\<close>.
\<close>

section \<open>Integer meaning of the arithmetic instructions\<close>

abbreviation low_u :: "u64 \<Rightarrow> int" where "low_u a \<equiv> take_bit 32 (uint a)"
abbreviation low_s :: "u64 \<Rightarrow> int" where "low_s a \<equiv> signed_take_bit 31 (uint a)"

definition divide_by :: "int \<Rightarrow> int \<Rightarrow> int option" where
  "divide_by d q = (if d = 0 then None else Some q)"

definition alu_base :: "RiscvOpcode \<Rightarrow> u8 \<Rightarrow> u8 \<Rightarrow> (u64 \<Rightarrow> u64 \<Rightarrow> int) option" where
  "alu_base op f3 f7 = (
     if (op, f3, f7) = (OP, 0, 0) then Some (\<lambda>a b. uint a + uint b)
     else if (op, f3, f7) = (OP, 0, 0x20) then Some (\<lambda>a b. uint a - uint b)
     else if (op, f3, f7) = (OP, 1, 0) then Some (\<lambda>a b. uint a * 2 ^ (unat b mod 64))
     else if (op, f3, f7) = (OP, 2, 0) then Some (\<lambda>a b. of_bool (sint a < sint b))
     else if (op, f3, f7) = (OP, 3, 0) then Some (\<lambda>a b. of_bool (uint a < uint b))
     else if (op, f3, f7) = (OP, 4, 0) then Some (\<lambda>a b. uint a XOR uint b)
     else if (op, f3, f7) = (OP, 5, 0) then Some (\<lambda>a b. uint a div 2 ^ (unat b mod 64))
     else if (op, f3, f7) = (OP, 5, 0x20) then Some (\<lambda>a b. sint a div 2 ^ (unat b mod 64))
     else if (op, f3, f7) = (OP, 6, 0) then Some (\<lambda>a b. uint a OR uint b)
     else if (op, f3, f7) = (OP, 7, 0) then Some (\<lambda>a b. uint a AND uint b)
     else if (op, f3, f7) = (OP32, 0, 0) then Some (\<lambda>a b. signed_take_bit 31 (uint a + uint b))
     else if (op, f3, f7) = (OP32, 0, 0x20) then Some (\<lambda>a b. signed_take_bit 31 (uint a - uint b))
     else if (op, f3, f7) = (OP32, 1, 0) then Some (\<lambda>a b. signed_take_bit 31 (uint a * 2 ^ (unat b mod 32)))
     else if (op, f3, f7) = (OP32, 5, 0) then Some (\<lambda>a b. signed_take_bit 31 (low_u a div 2 ^ (unat b mod 32)))
     else if (op, f3, f7) = (OP32, 5, 0x20) then Some (\<lambda>a b. low_s a div 2 ^ (unat b mod 32))
     else None)"

definition alu_m :: "RiscvOpcode \<Rightarrow> u8 \<Rightarrow> u8 \<Rightarrow> (u64 \<Rightarrow> u64 \<Rightarrow> int option) option" where
  "alu_m op f3 f7 = (
     if f7 \<noteq> 1 then None
     else if (op, f3) = (OP, 0) then Some (\<lambda>a b. Some (uint a * uint b))
     else if (op, f3) = (OP, 1) then Some (\<lambda>a b. Some (sint a * sint b div 2 ^ 64))
     else if (op, f3) = (OP, 2) then Some (\<lambda>a b. Some (sint a * uint b div 2 ^ 64))
     else if (op, f3) = (OP, 3) then Some (\<lambda>a b. Some (uint a * uint b div 2 ^ 64))
     else if (op, f3) = (OP, 4) then Some (\<lambda>a b. divide_by (sint b) (sint a sdiv sint b))
     else if (op, f3) = (OP, 5) then Some (\<lambda>a b. divide_by (uint b) (uint a div uint b))
     else if (op, f3) = (OP, 6) then Some (\<lambda>a b. divide_by (sint b) (sint a smod sint b))
     else if (op, f3) = (OP, 7) then Some (\<lambda>a b. divide_by (uint b) (uint a mod uint b))
     else if (op, f3) = (OP32, 0) then Some (\<lambda>a b. Some (signed_take_bit 31 (uint a * uint b)))
     else if (op, f3) = (OP32, 4) then
       Some (\<lambda>a b. divide_by (low_s b) (signed_take_bit 31 (low_s a sdiv low_s b)))
     else if (op, f3) = (OP32, 5) then
       Some (\<lambda>a b. divide_by (low_u b) (signed_take_bit 31 (low_u a div low_u b)))
     else if (op, f3) = (OP32, 6) then
       Some (\<lambda>a b. divide_by (low_s b) (signed_take_bit 31 (low_s a smod low_s b)))
     else if (op, f3) = (OP32, 7) then
       Some (\<lambda>a b. divide_by (low_u b) (signed_take_bit 31 (low_u a mod low_u b)))
     else None)"

section \<open>The interpreter's arithmetic is the integer arithmetic\<close>

lemma scast_of_int_32: "scast (word_of_int k :: u32) = (word_of_int (signed_take_bit 31 k) :: u64)"
  by (rule bit_word_eqI) (auto simp: bit_simps min_def)

lemma ucast_of_uint: "ucast a = (word_of_int (uint a) :: 'b::len word)" for a :: "'a::len word"
  by (rule bit_word_eqI) (auto simp: bit_simps)

lemma scast_of_sint: "scast a = (word_of_int (sint a) :: 'b::len word)" for a :: "'a::len word"
  by simp

lemma high_half: "ucast (drop_bit 64 (word_of_int k :: u128)) = (word_of_int (k div 2 ^ 64) :: u64)"
proof -
  have "k div 2 ^ 64 = drop_bit 64 k" by (simp add: drop_bit_eq_div)
  moreover have "ucast (drop_bit 64 (word_of_int k :: u128)) = (word_of_int (drop_bit 64 k) :: u64)"
    by (rule bit_word_eqI) (auto simp: bit_simps)
  ultimately show ?thesis by simp
qed

lemma and_63: "unat (b AND 0b111111) = unat b mod 64" for b :: u64
proof -
  have "b AND 0b111111 = take_bit 6 b" by (simp add: take_bit_eq_mask mask_eq_exp_minus_1)
  moreover have "unat (take_bit 6 b) = take_bit 6 (unat b)" by (simp only: unsigned_take_bit_eq)
  ultimately have "unat (b AND 0b111111) = take_bit 6 (unat b)" by (simp only:)
  then show ?thesis by (simp add: take_bit_eq_mod)
qed

lemma and_31: "unat ((ucast b :: u32) AND 0b11111) = unat b mod 32" for b :: u64
proof -
  have "(ucast b :: u32) AND 0b11111 = take_bit 5 (ucast b)" by (simp add: take_bit_eq_mask mask_eq_exp_minus_1)
  moreover have "unat (take_bit 5 (ucast b :: u32)) = take_bit 5 (unat b)"
    by (simp only: unsigned_take_bit_eq unsigned_ucast_eq) simp
  ultimately have "unat ((ucast b :: u32) AND 0b11111) = take_bit 5 (unat b)" by (simp only:)
  then show ?thesis by (simp add: take_bit_eq_mod)
qed

lemma scast_32_arith:
  "scast (ucast a + ucast b :: u32) = (word_of_int (signed_take_bit 31 (uint a + uint b)) :: u64)"
  "scast (ucast a - ucast b :: u32) = (word_of_int (signed_take_bit 31 (uint a - uint b)) :: u64)"
  "scast (ucast a * ucast b :: u32) = (word_of_int (signed_take_bit 31 (uint a * uint b)) :: u64)"
  "scast (push_bit n (ucast a :: u32)) = (word_of_int (signed_take_bit 31 (uint a * 2 ^ n)) :: u64)"
  "scast (drop_bit n (ucast a :: u32)) = (word_of_int (signed_take_bit 31 (low_u a div 2 ^ n)) :: u64)"
  "scast (signed_drop_bit n (ucast a :: u32)) = (word_of_int (low_s a div 2 ^ n) :: u64)"
  for a b :: u64
proof -
  show "scast (drop_bit n (ucast a :: u32)) = (word_of_int (signed_take_bit 31 (low_u a div 2 ^ n)) :: u64)"
    unfolding drop_bit_eq_div [symmetric]
    by (rule bit_word_eqI) (auto simp: bit_simps min_def)
  show "scast (signed_drop_bit n (ucast a :: u32)) = (word_of_int (low_s a div 2 ^ n) :: u64)"
    unfolding drop_bit_eq_div [symmetric] scast_of_sint sint_signed_drop_bit_eq by (simp add: signed_ucast_eq)
qed (simp_all add: scast_of_int_32 [symmetric] push_bit_eq_mult)

lemma word_64_arith:
  "push_bit n a = word_of_int (uint a * 2 ^ n)" "drop_bit n a = word_of_int (uint a div 2 ^ n)"
  "signed_drop_bit n a = word_of_int (sint a div 2 ^ n)"
  "word_of_int (uint a XOR uint b) = a XOR b" "word_of_int (uint a OR uint b) = a OR b"
  "word_of_int (uint a AND uint b) = a AND b" for a b :: u64
proof -
  show "drop_bit n a = word_of_int (uint a div 2 ^ n)"
    unfolding drop_bit_eq_div [symmetric] by (rule bit_word_eqI) (auto simp: bit_simps)
  have "signed_drop_bit n a = word_of_int (sint (signed_drop_bit n a))" by simp
  then show "signed_drop_bit n a = word_of_int (sint a div 2 ^ n)"
    unfolding sint_signed_drop_bit_eq drop_bit_eq_div .
  show "word_of_int (uint a XOR uint b) = a XOR b" "word_of_int (uint a OR uint b) = a OR b"
    "word_of_int (uint a AND uint b) = a AND b"
    by (rule bit_word_eqI, auto simp: bit_simps)+
qed (simp_all add: push_bit_eq_mult)

lemma rtype_base_op_alu:
  "rtype_base_op op f3 f7 = map_option (\<lambda>g a b. Some (word_of_int (g a b))) (alu_base op f3 f7)"
  by (simp add: rtype_base_op_def alu_base_def Let_def and_63 and_31 scast_32_arith word_64_arith
      word_less_def fun_eq_iff)

lemma mul_high:
  "ucast (drop_bit 64 (scast a * scast b :: u128)) = (word_of_int (sint a * sint b div 2 ^ 64) :: u64)"
  "ucast (drop_bit 64 (scast a * ucast b :: u128)) = (word_of_int (sint a * uint b div 2 ^ 64) :: u64)"
  "ucast (drop_bit 64 (ucast a * ucast b :: u128)) = (word_of_int (uint a * uint b div 2 ^ 64) :: u64)"
  for a b :: u64
  by (simp_all only: high_half [symmetric] scast_of_sint ucast_of_uint [where 'b = 128] wi_hom_mult)

lemma low_word: "sint (ucast a :: u32) = low_s a" "uint (ucast a :: u32) = low_u a" for a :: u64
  by (simp_all add: signed_ucast_eq unsigned_ucast_eq)

lemma wrapping_div_int:
  "wrapping_sdiv a b = map_option word_of_int (divide_by (sint b) (sint a sdiv sint b))"
  "wrapping_srem a b = map_option word_of_int (divide_by (sint b) (sint a smod sint b))"
  "wrapping_udiv a b = map_option word_of_int (divide_by (uint b) (uint a div uint b))"
  "wrapping_urem a b = map_option word_of_int (divide_by (uint b) (uint a mod uint b))"
proof -
  have "b = 0 \<longleftrightarrow> sint b = 0" "b = 0 \<longleftrightarrow> uint b = 0"
    using word_eq_iff_signed [of b 0] word_eq_iff_unsigned [of b 0] by simp_all
  then show
    "wrapping_sdiv a b = map_option word_of_int (divide_by (sint b) (sint a sdiv sint b))"
    "wrapping_srem a b = map_option word_of_int (divide_by (sint b) (sint a smod sint b))"
    "wrapping_udiv a b = map_option word_of_int (divide_by (uint b) (uint a div uint b))"
    "wrapping_urem a b = map_option word_of_int (divide_by (uint b) (uint a mod uint b))"
    by (simp_all only: wrapping_sdiv_def wrapping_srem_def wrapping_udiv_def wrapping_urem_def divide_by_def
        word_div_def word_mod_def if_distrib [of "map_option word_of_int"] option.map split: if_split)
qed

lemma sx_divide_by:
  "map_option (\<lambda>k. scast (word_of_int k :: u32)) (divide_by d q) =
     (map_option word_of_int (divide_by d (signed_take_bit 31 q)) :: u64 option)"
  by (simp add: divide_by_def scast_of_int_32)

lemma rtype_m_op_alu:
  "rtype_m_op op f3 f7 = map_option (\<lambda>g a b. map_option word_of_int (g a b)) (alu_m op f3 f7)"
proof (cases "f7 = 1 \<and> (op = OP \<or> op = OP32)")
  case False
  then show ?thesis by (auto simp: rtype_m_op_def alu_m_def Let_def)
next
  case True
  have "f3 = 0 \<or> f3 = 1 \<or> f3 = 2 \<or> f3 = 3 \<or> f3 = 4 \<or> f3 = 5 \<or> f3 = 6 \<or> f3 = 7 \<or>
      f3 \<notin> {0, 1, 2, 3, 4, 5, 6, 7}" by blast
  with True show ?thesis
    by (elim conjE disjE) (simp_all add: rtype_m_op_def alu_m_def mul_high scast_32_arith wrapping_div_int
        low_word option.map_comp o_def sx_divide_by fun_eq_iff)
qed

text \<open>
  (C4) Every register-register instruction the emulator executes computes the integer function
  of the RISC-V manual, modulo \<^verbatim>\<open>2^64\<close>: additions and subtractions, shifts by the low six or
  five bits, signed and unsigned comparisons, the upper half of the signed, unsigned and mixed
  128-bit products, truncating division and remainder, and the sign-extended 32-bit variants.
  Any other combination of opcode, \<^verbatim>\<open>funct3\<close> and \<^verbatim>\<open>funct7\<close> is ignored, and a division whose
  divisor is zero is the only one without a result.
\<close>

theorem alu_correct:
  "rtype_op op f3 f7 = (case alu_base op f3 f7 of
      Some g \<Rightarrow> Some (\<lambda>a b. Some (word_of_int (g a b)))
    | None \<Rightarrow> map_option (\<lambda>g a b. map_option word_of_int (g a b)) (alu_m op f3 f7))"
  by (simp add: rtype_op_def rtype_base_op_alu rtype_m_op_alu split: option.split)

section \<open>The abstract machine\<close>

text \<open>The immediate instructions, as the operation they share with a register instruction.\<close>

definition alu_imm :: "RiscvOpcode \<Rightarrow> u8 \<Rightarrow> u32 \<Rightarrow> (u64 \<Rightarrow> int) option" where
  "alu_imm op f3 imm = (
     let b = scast imm :: u64 in
     if op = OPIMM then
       map_option (\<lambda>g a. g a b) (alu_base OP f3 (if f3 = 5 \<and> imm AND NOT 0x3F \<noteq> 0 then 0x20 else 0))
     else if op = OPIMM32 then
       map_option (\<lambda>g a. g a b) (alu_base OP32 f3 (if f3 = 5 \<and> imm AND NOT 0x1F \<noteq> 0 then 0x20 else 0))
     else None)"

lemma scast_high_bits: "(scast imm :: u64) AND NOT 0x3F \<noteq> 0 \<longleftrightarrow> imm AND NOT 0x3F \<noteq> 0" for imm :: u32
proof -
  have m: "(NOT 0x3F :: 'a::len word) = NOT (mask 6)" by (simp add: mask_eq_exp_minus_1)
  have "(scast imm :: u64) AND NOT (mask 6) = 0 \<longleftrightarrow> imm AND NOT (mask 6) = 0"
  proof
    assume h: "(scast imm :: u64) AND NOT (mask 6) = 0"
    have "\<not> bit (imm AND NOT (mask 6)) n" for n
    proof
      assume b: "bit (imm AND NOT (mask 6)) n"
      then have "bit ((scast imm :: u64) AND NOT (mask 6)) n"
        by (cases "n = 31") (auto simp: bit_simps min_def dest: bit_imp_le_length)
      with h show False by simp
    qed
    then show "imm AND NOT (mask 6) = 0" by (intro bit_word_eqI) simp
  next
    assume h: "imm AND NOT (mask 6) = 0"
    have b: "n < 6" if "bit imm n" for n
      using arg_cong [OF h, of "\<lambda>w. bit w n"] that by (auto simp: bit_simps dest: bit_imp_le_length)
    show "(scast imm :: u64) AND NOT (mask 6) = 0"
      by (rule bit_word_eqI) (auto simp: bit_simps min_def dest: b)
  qed
  then show ?thesis by (simp only: m)
qed

lemma ucast_scast_32: "ucast (scast imm :: u64) = imm" for imm :: u32
  by (simp add: u32_eq_iff all_less_32 bit_simps)

lemma itype_op_opimm:
  "itype_op OPIMM f3 imm = map_option (\<lambda>f a. the (f a (scast imm)))
     (rtype_base_op OP f3 (if f3 = 5 \<and> imm AND NOT 0x3F \<noteq> 0 then 0x20 else 0))"
  using scast_high_bits [of imm]
  by (auto simp: itype_op_def rtype_base_op_def Let_def)

lemma itype_op_opimm32:
  "itype_op OPIMM32 f3 imm = map_option (\<lambda>f a. the (f a (scast imm)))
     (rtype_base_op OP32 f3 (if f3 = 5 \<and> imm AND NOT 0x1F \<noteq> 0 then 0x20 else 0))"
  by (auto simp: itype_op_def rtype_base_op_def Let_def ucast_scast_32)

lemma itype_op_alu: "itype_op op f3 imm = map_option (\<lambda>g a. word_of_int (g a)) (alu_imm op f3 imm)"
  by (cases "op = OPIMM \<or> op = OPIMM32")
    (auto simp: itype_op_opimm itype_op_opimm32 alu_imm_def rtype_base_op_alu option.map_comp o_def,
      simp add: itype_op_def Let_def)

text \<open>
  A state of the abstract machine is a register function \<open>x\<close>, a program counter and a memory.
  \<open>isa_exec ops len i x pc m\<close> executes the instruction \<open>i\<close> of \<open>len\<close> bytes: \<open>None\<close> is a kernel
  panic, the boolean says whether the emulator reports an exception to its caller. \<open>next_pc\<close> and
  \<open>goto\<close> are the two ways to advance: past the end of the address space, and to a target below
  the size of the instruction, the emulator panics.
\<close>

definition set_reg :: "u8 \<Rightarrow> u64 \<Rightarrow> (u8 \<Rightarrow> u64) \<Rightarrow> u8 \<Rightarrow> u64" where
  "set_reg d v x = (if d = 0 then x else x(d := v))"

definition next_pc :: "u64 \<Rightarrow> u64 \<Rightarrow> u64 option" where
  "next_pc len pc = (if pc + len < len then None else Some (pc + len))"

definition goto :: "u64 \<Rightarrow> u64 \<Rightarrow> u64 option" where
  "goto len target = (if target < len then None else Some target)"

definition isa_load :: "'m mem_ops \<Rightarrow> u8 \<Rightarrow> ('m \<Rightarrow> u64 \<Rightarrow> u64 option) option" where
  "isa_load ops f3 = (
     if f3 = 0 then Some (\<lambda>m a. map_option scast (read_u8_ne ops m a))
     else if f3 = 1 then Some (\<lambda>m a. map_option scast (read_u16_ne ops m a))
     else if f3 = 2 then Some (\<lambda>m a. map_option scast (read_u32_ne ops m a))
     else if f3 = 3 then Some (read_u64_ne ops)
     else if f3 = 4 then Some (\<lambda>m a. map_option ucast (read_u8_ne ops m a))
     else if f3 = 5 then Some (\<lambda>m a. map_option ucast (read_u16_ne ops m a))
     else if f3 = 6 then Some (\<lambda>m a. map_option ucast (read_u32_ne ops m a))
     else None)"

definition isa_store :: "'m mem_ops \<Rightarrow> u8 \<Rightarrow> 'm \<Rightarrow> u64 \<Rightarrow> u64 \<Rightarrow> 'm option" where
  "isa_store ops f3 m a v = (
     if f3 = 0 then write_u8_ne ops m a (ucast v)
     else if f3 = 1 then write_u16_ne ops m a (ucast v)
     else if f3 = 2 then write_u32_ne ops m a (ucast v)
     else if f3 = 3 then write_u64_ne ops m a v
     else Some m)"

definition isa_branch :: "u8 \<Rightarrow> u64 \<Rightarrow> u64 \<Rightarrow> bool" where
  "isa_branch f3 a b = (
     if f3 = 0 then uint a = uint b
     else if f3 = 1 then uint a \<noteq> uint b
     else if f3 = 4 then sint a < sint b
     else if f3 = 5 then sint b \<le> sint a
     else if f3 = 6 then uint a < uint b
     else if f3 = 7 then uint b \<le> uint a
     else False)"

type_synonym 'm isa_state = "bool \<times> (u8 \<Rightarrow> u64) \<times> u64 \<times> 'm"

definition exec_R :: "RiscvOpcode \<Rightarrow> u8 \<Rightarrow> u8 \<Rightarrow> u8 \<Rightarrow> u8 \<Rightarrow> u8 \<Rightarrow> (u8 \<Rightarrow> u64) \<Rightarrow> (u8 \<Rightarrow> u64) option" where
  "exec_R op f3 f7 d a b x = (
     case alu_base op f3 f7 of
       Some g \<Rightarrow> Some (set_reg d (word_of_int (g (x a) (x b))) x)
     | None \<Rightarrow> (case alu_m op f3 f7 of
         Some g \<Rightarrow> map_option (\<lambda>v. set_reg d (word_of_int v) x) (g (x a) (x b))
       | None \<Rightarrow> Some x))"

definition exec_I :: "'m mem_ops \<Rightarrow> u64 \<Rightarrow> RiscvOpcode \<Rightarrow> u8 \<Rightarrow> u8 \<Rightarrow> u8 \<Rightarrow> u32 \<Rightarrow>
    (u8 \<Rightarrow> u64) \<Rightarrow> u64 \<Rightarrow> 'm \<Rightarrow> 'm isa_state option" where
  "exec_I ops len op f3 d a im x pc m = (
     case alu_imm op f3 im of
       Some g \<Rightarrow> map_option (\<lambda>pc'. (False, set_reg d (word_of_int (g (x a))) x, pc', m)) (next_pc len pc)
     | None \<Rightarrow> (
       case (if op = LOAD then isa_load ops f3 else None) of
         Some ld \<Rightarrow> do {
           v \<leftarrow> ld m (x a + scast im);
           pc' \<leftarrow> next_pc len pc;
           Some (False, set_reg d v x, pc', m)
         }
       | None \<Rightarrow>
         if op = JALR \<and> f3 = 0 then
           (let target = (x a + scast im) AND NOT 1 in
            if target = pc then map_option (\<lambda>pc'. (True, x, pc', m)) (next_pc len pc)
            else do {
              link \<leftarrow> next_pc len pc;
              pc' \<leftarrow> goto len target;
              Some (False, set_reg d link x, pc', m)
            })
         else map_option (\<lambda>pc'. (False, x, pc', m)) (next_pc len pc)))"

definition isa_exec :: "'m mem_ops \<Rightarrow> u64 \<Rightarrow> isa \<Rightarrow> (u8 \<Rightarrow> u64) \<Rightarrow> u64 \<Rightarrow> 'm \<Rightarrow> 'm isa_state option" where
  "isa_exec ops len i x pc m = (case i of
     RInst op f3 f7 d a b \<Rightarrow> do {
       x' \<leftarrow> exec_R op f3 f7 d a b x;
       pc' \<leftarrow> next_pc len pc;
       Some (False, x', pc', m)
     }
   | IInst op f3 d a im \<Rightarrow> exec_I ops len op f3 d a im x pc m
   | SInst op f3 a b im \<Rightarrow> do {
       m' \<leftarrow> (if op = STORE then isa_store ops f3 m (x a + scast im) (x b) else Some m);
       pc' \<leftarrow> next_pc len pc;
       Some (False, x, pc', m')
     }
   | BInst op f3 a b im \<Rightarrow> do {
       pc' \<leftarrow> (if op = BRANCH \<and> isa_branch f3 (x a) (x b) then goto len (pc + scast im) else next_pc len pc);
       Some (False, x, pc', m)
     }
   | UInst op d im \<Rightarrow> map_option (\<lambda>pc'. (False, if op = LUI then set_reg d (scast im) x
         else if op = AUIPC then set_reg d (scast im + pc) x else x, pc', m)) (next_pc len pc)
   | JInst op d im \<Rightarrow>
       if op = JAL then
         (if pc + scast im = pc then map_option (\<lambda>pc'. (True, x, pc', m)) (next_pc len pc)
          else do {
            link \<leftarrow> next_pc len pc;
            pc' \<leftarrow> goto len (pc + scast im);
            Some (False, set_reg d link x, pc', m)
          })
       else map_option (\<lambda>pc'. (False, x, pc', m)) (next_pc len pc))"

definition is_ecall :: "isa \<Rightarrow> bool" where
  "is_ecall i = (case i of IInst op f3 d a im \<Rightarrow> op = SYSTEM \<and> im = 0 | _ \<Rightarrow> False)"

section \<open>Registers\<close>

definition cpu_wf :: "'m Riscv64Cpu \<Rightarrow> bool" where
  "cpu_wf cpu \<longleftrightarrow> length (registers cpu) = 31"

definition reg :: "'m Riscv64Cpu \<Rightarrow> u8 \<Rightarrow> u64" where
  "reg cpu n = (if n = 0 then 0 else registers cpu ! unat (n - 1))"

lemma reg_index: "n \<noteq> 0 \<Longrightarrow> n < 32 \<Longrightarrow> unat (n - 1) < 31" for n :: u8
  using unat_minus_one [of n] by (simp add: word_less_nat_alt)

lemma read_reg_wf: "cpu_wf cpu \<Longrightarrow> n < 32 \<Longrightarrow> read_reg cpu n = Some (reg cpu n)"
  by (simp add: read_reg_def reg_def cpu_wf_def reg_index)

lemma write_reg_wf:
  assumes "cpu_wf cpu" "n < 32"
  obtains cpu' where "write_reg cpu n v = Some cpu'" "cpu_wf cpu'" "reg cpu' = set_reg n v (reg cpu)"
    "program_counter cpu' = program_counter cpu" "memory cpu' = memory cpu"
proof (cases "n = 0")
  case True
  with assms that [of cpu] show ?thesis by (simp add: write_reg_def set_reg_def)
next
  case False
  have inj: "unat (k - 1) = unat (n - 1) \<longleftrightarrow> k = n" for k :: u8
    by (simp add: word_unat_eq_iff [symmetric])
  let ?cpu = "cpu\<lparr>registers := (registers cpu)[unat (n - 1) := v]\<rparr>"
  have "reg ?cpu = set_reg n v (reg cpu)"
    using False assms reg_index [of n]
    by (auto simp: fun_eq_iff reg_def set_reg_def cpu_wf_def nth_list_update dest: inj [THEN iffD1, OF sym])
  with False assms that [of ?cpu] show ?thesis
    by (simp add: write_reg_def cpu_wf_def reg_index)
qed

section \<open>The execute functions implement the abstract machine\<close>

definition view :: "(unit option \<times> 'm Riscv64Cpu \<times> 'p) option \<Rightarrow> ('m isa_state \<times> 'p) option" where
  "view r = map_option (\<lambda>(ok, cpu, prog).
     ((ok = None, reg cpu, program_counter cpu, memory cpu), prog)) r"

text \<open>The end of \<^verbatim>\<open>tick\<close>: advance the program counter and report an exception.\<close>

definition finish :: "u64 \<Rightarrow> (CpuAction \<times> 'm Riscv64Cpu \<times> 'p) option \<Rightarrow>
    (unit option \<times> 'm Riscv64Cpu \<times> 'p) option" where
  "finish len r = do {
     (action, cpu, prog) \<leftarrow> r;
     cpu \<leftarrow> (if action \<noteq> REPEAT_INSTRUCTION then do {
         pc \<leftarrow> checked_add (program_counter cpu) len;
         Some (cpu\<lparr>program_counter := pc\<rparr>)
       } else Some cpu);
     if action = RAISE_EXCEPTION then Some (None, cpu, prog)
     else Some (Some (), cpu, prog)
   }"

lemma checked_add_next_pc: "checked_add pc len = next_pc len pc"
  by (simp add: checked_add_wrapped next_pc_def)

lemma checked_add_goto: "checked_add (t - len) len = goto len t"
  by (simp add: checked_add_after_sub goto_def)

lemma reg_pc [simp]: "reg (cpu\<lparr>program_counter := p\<rparr>) = reg cpu" "reg (cpu\<lparr>memory := m\<rparr>) = reg cpu"
  by (simp_all add: reg_def fun_eq_iff)

lemma view_finish_NONE: "view (finish len (Some (NONE, cpu, prog))) =
    map_option (\<lambda>pc'. ((False, reg cpu, pc', memory cpu), prog)) (next_pc len (program_counter cpu))"
  by (simp add: view_def finish_def checked_add_next_pc split: bind_split option.split)

lemma view_finish_RAISE: "view (finish len (Some (RAISE_EXCEPTION, cpu, prog))) =
    map_option (\<lambda>pc'. ((True, reg cpu, pc', memory cpu), prog)) (next_pc len (program_counter cpu))"
  by (simp add: view_def finish_def checked_add_next_pc split: bind_split option.split)

lemma view_finish_jump: "view (finish len (Some (NONE, cpu\<lparr>program_counter := t - len\<rparr>, prog))) =
    map_option (\<lambda>pc'. ((False, reg cpu, pc', memory cpu), prog)) (goto len t)"
  by (simp add: view_def finish_def checked_add_goto split: bind_split option.split)

lemma view_None [simp]: "view (finish len None) = None"
  by (simp add: view_def finish_def)

lemma view_finish_bind:
  "view (finish len (Option.bind x f)) = Option.bind x (\<lambda>y. view (finish len (f y)))"
  by (cases x) simp_all

lemma view_finish_map:
  "view (finish len (map_option f x)) = Option.bind x (\<lambda>y. view (finish len (Some (f y))))"
  by (cases x) simp_all

lemma next_pc_goto [simp]: "next_pc len (t - len) = goto len t"
  by (simp add: next_pc_def goto_def)

lemmas step_simps = view_finish_bind view_finish_NONE view_finish_RAISE view_finish_jump read_reg_wf
  map_option_bind bind_map_option bind_Some_map option.map_comp o_def

lemma view_write_reg:
  assumes "cpu_wf cpu" "d < 32"
  shows "view (finish len (map_option (\<lambda>cpu. (NONE, cpu, prog)) (write_reg cpu d v))) =
      map_option (\<lambda>pc'. ((False, set_reg d v (reg cpu), pc', memory cpu), prog)) (next_pc len (program_counter cpu))"
    and "view (finish len (map_option (\<lambda>cpu. (NONE, cpu\<lparr>program_counter := t - len\<rparr>, prog)) (write_reg cpu d v))) =
      map_option (\<lambda>pc'. ((False, set_reg d v (reg cpu), pc', memory cpu), prog)) (goto len t)"
    and "Option.bind (write_reg cpu d v) (\<lambda>c. map_option (\<lambda>pc'. ((False, reg c, pc', memory c), prog)) t') =
      map_option (\<lambda>pc'. ((False, set_reg d v (reg cpu), pc', memory cpu), prog)) t'"
  by (rule write_reg_wf [OF assms, of v]; simp add: view_finish_NONE view_finish_jump)+

lemma rtype_step:
  assumes "cpu_wf cpu" "r_rd i < 32" "r_rs1 i < 32" "r_rs2 i < 32"
  shows "view (finish len (do { cpu \<leftarrow> execute_rtype_inst cpu i; Some (NONE, cpu, prog) })) =
    map_option (\<lambda>s. (s, prog)) (isa_exec ops len
      (RInst (r_opcode i) (r_funct3 i) (r_funct7 i) (r_rd i) (r_rs1 i) (r_rs2 i))
      (reg cpu) (program_counter cpu) (memory cpu))"
  using assms
  by (auto simp: execute_rtype_inst_def rtype_op_def rtype_base_op_alu rtype_m_op_alu isa_exec_def exec_R_def
      view_write_reg step_simps split: option.split)

lemma load_op_isa: "load_op ops op f3 = (if op = LOAD then isa_load ops f3 else None)"
proof -
  have "(sign_extend :: u8 \<Rightarrow> u64) = scast" "(sign_extend :: u16 \<Rightarrow> u64) = scast"
    "(sign_extend :: u32 \<Rightarrow> u64) = scast" by (simp_all add: fun_eq_iff)
  then show ?thesis by (simp add: load_op_def isa_load_def Let_def)
qed

lemma itype_step:
  assumes "cpu_wf cpu" "i_rd i < 32" "i_rs1 i < 32"
    and "\<not> is_ecall (IInst (i_opcode i) (i_funct3 i) (i_rd i) (i_rs1 i) (itype_parse_imm i))"
  shows "view (finish len (execute_itype_inst ops sysc cpu i len prog)) =
    map_option (\<lambda>s. (s, prog)) (isa_exec ops len
      (IInst (i_opcode i) (i_funct3 i) (i_rd i) (i_rs1 i) (itype_parse_imm i))
      (reg cpu) (program_counter cpu) (memory cpu))"
  using assms
  by (auto simp: execute_itype_inst_def itype_op_alu load_op_isa isa_exec_def exec_I_def is_ecall_def Let_def
      checked_add_next_pc add.commute [of "scast _"] view_write_reg step_simps split: option.split)

lemma stype_step:
  assumes "cpu_wf cpu" "s_rs1 i < 32" "s_rs2 i < 32"
  shows "view (finish len (do { cpu \<leftarrow> execute_stype_inst ops cpu i; Some (NONE, cpu, prog) })) =
    map_option (\<lambda>s. (s, prog)) (isa_exec ops len
      (SInst (s_opcode i) (s_funct3 i) (s_rs1 i) (s_rs2 i) (stype_parse_imm i))
      (reg cpu) (program_counter cpu) (memory cpu))"
  using assms
  by (auto simp: execute_stype_inst_def isa_exec_def isa_store_def Let_def view_finish_map step_simps split: option.split)

lemma btype_step:
  assumes "cpu_wf cpu" "b_rs1 i < 32" "b_rs2 i < 32"
  shows "view (finish len (do { cpu \<leftarrow> execute_btype_inst cpu i len; Some (NONE, cpu, prog) })) =
    map_option (\<lambda>s. (s, prog)) (isa_exec ops len
      (BInst (b_opcode i) (b_funct3 i) (b_rs1 i) (b_rs2 i) (btype_parse_imm i))
      (reg cpu) (program_counter cpu) (memory cpu))"
  using assms
  by (auto simp: execute_btype_inst_def btype_op_def isa_exec_def isa_branch_def word_less_def [of "reg _ _"]
      word_le_def [of "reg _ _"] word_eq_iff_unsigned [symmetric] Let_def step_simps split: option.split)

lemma utype_step:
  assumes "cpu_wf cpu" "u_rd i < 32"
  shows "view (finish len (do { cpu \<leftarrow> execute_utype_inst cpu i; Some (NONE, cpu, prog) })) =
    map_option (\<lambda>s. (s, prog)) (isa_exec ops len (UInst (u_opcode i) (u_rd i) (utype_parse_imm i))
      (reg cpu) (program_counter cpu) (memory cpu))"
  using assms
  by (auto simp: execute_utype_inst_def isa_exec_def view_write_reg step_simps split: option.split)

lemma jtype_step:
  assumes "cpu_wf cpu" "j_rd i < 32"
  shows "view (finish len (do { (action, cpu) \<leftarrow> execute_jtype_inst cpu i len; Some (action, cpu, prog) })) =
    map_option (\<lambda>s. (s, prog)) (isa_exec ops len (JInst (j_opcode i) (j_rd i) (jtype_parse_imm i))
      (reg cpu) (program_counter cpu) (memory cpu))"
  using assms
  by (auto simp: execute_jtype_inst_def isa_exec_def Let_def checked_add_next_pc add.commute [of "scast _"]
      view_write_reg step_simps split: option.split)

section \<open>One tick refines one step of the abstract machine\<close>

lemma execute_finish:
  "execute ps ops sysc cpu prog w len =
    (case opcode_from_primitive ps (ucast (w AND 0b1111111)) of
       None \<Rightarrow> Some (None, cpu, prog)
     | Some opcode \<Rightarrow> (case get_type opcode of
         RType \<Rightarrow> (case unpack_rtype ps w of None \<Rightarrow> Some (None, cpu, prog)
           | Some i \<Rightarrow> finish len (do { cpu \<leftarrow> execute_rtype_inst cpu i; Some (NONE, cpu, prog) }))
       | IType \<Rightarrow> (case unpack_itype ps w of None \<Rightarrow> Some (None, cpu, prog)
           | Some i \<Rightarrow> finish len (execute_itype_inst ops sysc cpu i len prog))
       | SType \<Rightarrow> (case unpack_stype ps w of None \<Rightarrow> Some (None, cpu, prog)
           | Some i \<Rightarrow> finish len (do { cpu \<leftarrow> execute_stype_inst ops cpu i; Some (NONE, cpu, prog) }))
       | BType \<Rightarrow> (case unpack_btype ps w of None \<Rightarrow> Some (None, cpu, prog)
           | Some i \<Rightarrow> finish len (do { cpu \<leftarrow> execute_btype_inst cpu i len; Some (NONE, cpu, prog) }))
       | UType \<Rightarrow> (case unpack_utype ps w of None \<Rightarrow> Some (None, cpu, prog)
           | Some i \<Rightarrow> finish len (do { cpu \<leftarrow> execute_utype_inst cpu i; Some (NONE, cpu, prog) }))
       | JType \<Rightarrow> (case unpack_jtype ps w of None \<Rightarrow> Some (None, cpu, prog)
           | Some i \<Rightarrow> finish len (do { (action, cpu) \<leftarrow> execute_jtype_inst cpu i len; Some (action, cpu, prog) }))))"
  by (simp add: execute_def finish_def Let_def split: option.split RiscvInstType.split)

text \<open>The instruction at the program counter, 16 or 32 bits wide, and its size in bytes.\<close>

definition fetch_decode :: "u32 \<Rightarrow> isa option" where
  "fetch_decode w = (if w AND 0b11 = 0b11 then isa32 w else rvc (ucast w))"

definition inst_len :: "u32 \<Rightarrow> u64" where
  "inst_len w = (if w AND 0b11 = 0b11 then 4 else 2)"

lemma fld_5_less: "fld lo 5 w < (32 :: u8)"
  using unat_fld [of lo 5 w] by (simp add: word_less_nat_alt)

context packed_struct_crate
begin

lemma unpack_regs:
  "unpack_rtype ps w = Some r \<Longrightarrow> r_rd r < 32 \<and> r_rs1 r < 32 \<and> r_rs2 r < 32"
  "unpack_itype ps w = Some i \<Longrightarrow> i_rd i < 32 \<and> i_rs1 i < 32"
  "unpack_stype ps w = Some s \<Longrightarrow> s_rs1 s < 32 \<and> s_rs2 s < 32"
  "unpack_btype ps w = Some b \<Longrightarrow> b_rs1 b < 32 \<and> b_rs2 b < 32"
  "unpack_utype ps w = Some u \<Longrightarrow> u_rd u < 32"
  "unpack_jtype ps w = Some j \<Longrightarrow> j_rd j < 32"
  by (auto simp: unpack_rtype_def unpack_itype_def unpack_stype_def unpack_btype_def unpack_utype_def
      unpack_jtype_def get8_fld fld_5_less split: bind_splits)

lemma execute_view:
  assumes "cpu_wf cpu" and "\<And>i. decode ps w = Some i \<Longrightarrow> \<not> is_ecall i"
  shows "view (execute ps ops sysc cpu prog w len) = (case decode ps w of
      None \<Rightarrow> Some ((True, reg cpu, program_counter cpu, memory cpu), prog)
    | Some i \<Rightarrow> map_option (\<lambda>s. (s, prog)) (isa_exec ops len i (reg cpu) (program_counter cpu) (memory cpu)))"
proof (cases "opcode_from_primitive ps (ucast (w AND 0b1111111))")
  case None
  then show ?thesis by (simp add: execute_finish decode_def view_def)
next
  case (Some opc)
  show ?thesis
  proof (cases "get_type opc")
    case RType
    with Some assms show ?thesis
      by (cases "unpack_rtype ps w") (simp_all add: execute_finish decode_def view_def [of "Some _"] rtype_step unpack_regs)
  next
    case IType
    with Some assms show ?thesis
      by (cases "unpack_itype ps w") (simp_all add: execute_finish decode_def view_def [of "Some _"] itype_step unpack_regs)
  next
    case SType
    with Some assms show ?thesis
      by (cases "unpack_stype ps w") (simp_all add: execute_finish decode_def view_def [of "Some _"] stype_step unpack_regs)
  next
    case BType
    with Some assms show ?thesis
      by (cases "unpack_btype ps w") (simp_all add: execute_finish decode_def view_def [of "Some _"] btype_step unpack_regs)
  next
    case UType
    with Some assms show ?thesis
      by (cases "unpack_utype ps w") (simp_all add: execute_finish decode_def view_def [of "Some _"] utype_step unpack_regs)
  next
    case JType
    with Some assms show ?thesis
      by (cases "unpack_jtype ps w") (simp_all add: execute_finish decode_def view_def [of "Some _"] jtype_step unpack_regs)
  qed
qed

lemma tick_execute:
  assumes "read_u32_le ops (memory cpu) (program_counter cpu) = Some w"
  shows "\<exists>w'. tick ps ops sysc cpu prog = (case w' of
      None \<Rightarrow> Some (None, cpu, prog)
    | Some w' \<Rightarrow> execute ps ops sysc cpu prog w' (inst_len w)) \<and>
    Option.bind w' (decode ps) = fetch_decode w"
proof (cases "w AND 0b11 = 0b11")
  case True
  with assms show ?thesis
    by (intro exI [of _ "Some w"]) (simp add: tick_def fetch_decode_def inst_len_def decode_table)
next
  case False
  from expand_table [OF False] obtain r where "expand ps w = Some r" "Option.bind r (decode ps) = rvc (ucast w)"
    by blast
  with False assms show ?thesis
    by (intro exI [of _ r]) (simp add: tick_def fetch_decode_def inst_len_def split: option.split)
qed

lemma tick_view:
  assumes "cpu_wf cpu" "read_u32_le ops (memory cpu) (program_counter cpu) = Some w"
    and "\<And>i. fetch_decode w = Some i \<Longrightarrow> \<not> is_ecall i"
  shows "view (tick ps ops sysc cpu prog) = (case fetch_decode w of
      None \<Rightarrow> Some ((True, reg cpu, program_counter cpu, memory cpu), prog)
    | Some i \<Rightarrow> map_option (\<lambda>s. (s, prog))
        (isa_exec ops (inst_len w) i (reg cpu) (program_counter cpu) (memory cpu)))"
proof -
  from tick_execute [OF assms(2), of sysc prog] obtain r where
    t: "tick ps ops sysc cpu prog = (case r of None \<Rightarrow> Some (None, cpu, prog)
      | Some w' \<Rightarrow> execute ps ops sysc cpu prog w' (inst_len w))"
    and d: "Option.bind r (decode ps) = fetch_decode w" by blast
  show ?thesis
  proof (cases r)
    case None
    with t d show ?thesis by (simp add: view_def flip: d)
  next
    case (Some w')
    with d have "decode ps w' = fetch_decode w" by simp
    with t Some assms(1,3) execute_view [of cpu w' ops sysc prog "inst_len w"] show ?thesis by simp
  qed
qed

lemma tick_sysc:
  assumes "read_u32_le ops (memory cpu) (program_counter cpu) = Some w"
    and "fetch_decode w = Some i" "is_ecall i"
  shows "tick ps ops sysc cpu prog = finish (inst_len w) (sysc cpu prog)"
proof -
  from tick_execute [OF assms(1), of sysc prog] assms(2) obtain w' where
    t: "tick ps ops sysc cpu prog = execute ps ops sysc cpu prog w' (inst_len w)"
    and d: "decode ps w' = Some i" by (auto split: option.splits bind_splits)
  from d assms(3) obtain inst where
    u: "unpack_itype ps w' = Some inst" "i_opcode inst = SYSTEM" "itype_parse_imm inst = 0"
    by (auto simp: decode_def is_ecall_def split: bind_splits RiscvInstType.splits isa.splits)
  then have op: "opcode_from_primitive ps (ucast (w' AND 0b1111111)) = Some SYSTEM"
    using decode_opcode [of w' inst SYSTEM] by simp
  have "itype_op SYSTEM f3 0 = None" "load_op ops SYSTEM f3 = None" for f3
    by (simp_all add: itype_op_def load_op_def Let_def)
  with t op u show ?thesis by (simp add: execute_finish execute_itype_inst_def)
qed

end

lemma view_eq_None [simp]: "view r = None \<longleftrightarrow> r = None"
  by (simp add: view_def)

text \<open>
  (C1) One \<^verbatim>\<open>tick\<close> is one step of the abstract RV64IMC machine: for every codec that meets the
  crate's contract, every memory and every fetched word that is not an \<^verbatim>\<open>ECALL\<close>, the outcome of
  \<^verbatim>\<open>tick\<close> (panic, exception or success, registers, program counter, memory, process data)
  is that of executing the instruction the encoding tables assign to the word. A word
  outside the tables is reported as a failure and changes nothing.
\<close>

theorem tick_refines_isa:
  assumes "packed_struct_crate ps" and "cpu_wf cpu"
    and "read_u32_le ops (memory cpu) (program_counter cpu) = Some w"
    and "\<forall>i. fetch_decode w = Some i \<longrightarrow> \<not> is_ecall i"
  shows "view (tick ps ops sysc cpu prog) = (case fetch_decode w of
      None \<Rightarrow> Some ((True, reg cpu, program_counter cpu, memory cpu), prog)
    | Some i \<Rightarrow> map_option (\<lambda>s. (s, prog))
        (isa_exec ops (inst_len w) i (reg cpu) (program_counter cpu) (memory cpu)))"
  by (rule packed_struct_crate.tick_view [OF assms(1-3)]) (use assms(4) in blast)

definition demo_cpu :: "u8 list \<Rightarrow> LittleEndianVirtualMemory Riscv64Cpu" where
  "demo_cpu code = cpu_from \<lparr>vm_map = [\<lparr>virtual_start = 0x1000, backing_storage = code\<rparr>]\<rparr> 0x1000"

definition no_syscall :: "(LittleEndianVirtualMemory, unit) syscall" where
  "no_syscall cpu prog = Some (NONE, cpu, prog)"

lemma demo_cpu_wf [simp]: "cpu_wf (demo_cpu code)"
  by (simp add: cpu_wf_def demo_cpu_def cpu_from_def)

theorem tick_refines_isa_witness:
  "view (tick lsb0_crate vm_ops no_syscall (demo_cpu [0x13, 0x05, 0xA0, 0x02]) ()) =
     Some ((False, set_reg 10 42 (reg (demo_cpu [0x13, 0x05, 0xA0, 0x02])), 0x1004,
       memory (demo_cpu [0x13, 0x05, 0xA0, 0x02])), ())"
proof -
  let ?cpu = "demo_cpu [0x13, 0x05, 0xA0, 0x02]"
  have f: "read_u32_le vm_ops (memory ?cpu) (program_counter ?cpu) = Some 0x02A00513" by code_simp
  have d: "fetch_decode 0x02A00513 = Some (IInst OPIMM 0 10 0 42)" by code_simp
  have "isa_exec vm_ops (inst_len 0x02A00513) (IInst OPIMM 0 10 0 42) (reg ?cpu) (program_counter ?cpu) (memory ?cpu) =
      Some (False, set_reg 10 42 (reg ?cpu), 0x1004, memory ?cpu)"
    by (simp add: isa_exec_def exec_I_def alu_imm_def alu_base_def inst_len_def next_pc_def demo_cpu_def cpu_from_def
        reg_def)
  with d show ?thesis
    using tick_refines_isa [OF lsb0.packed_struct_crate_axioms demo_cpu_wf f, of no_syscall "()"]
    by (simp add: is_ecall_def)
qed

text \<open>
  An \<^verbatim>\<open>ECALL\<close> hands the state to the system call handler and acts on what it returns:
  \<^verbatim>\<open>REPEAT_INSTRUCTION\<close> leaves the program counter where the handler left it,
  \<^verbatim>\<open>NONE\<close> moves past the instruction, \<^verbatim>\<open>RAISE_EXCEPTION\<close> also does but reports a failure;
  moving past the end of the address space panics.
\<close>

theorem tick_ecall:
  assumes "packed_struct_crate ps"
    and "read_u32_le ops (memory cpu) (program_counter cpu) = Some w"
    and "fetch_decode w = Some i" "is_ecall i"
    and "sysc cpu prog = Some (action, cpu', prog')"
  shows "tick ps ops sysc cpu prog =
    (if action = REPEAT_INSTRUCTION then Some (Some (), cpu', prog')
     else map_option (\<lambda>pc. (if action = NONE then Some () else None, cpu'\<lparr>program_counter := pc\<rparr>, prog'))
       (next_pc (inst_len w) (program_counter cpu')))"
  using packed_struct_crate.tick_sysc [OF assms(1-4), of sysc prog] assms(5)
  by (cases action; cases "next_pc (inst_len w) (program_counter cpu')")
    (simp_all add: finish_def checked_add_next_pc)

theorem tick_ecall_witness:
  "tick lsb0_crate vm_ops no_syscall (demo_cpu [0x73, 0, 0, 0]) () =
     Some (Some (), (demo_cpu [0x73, 0, 0, 0])\<lparr>program_counter := 0x1004\<rparr>, ())"
proof -
  have f: "read_u32_le vm_ops (memory (demo_cpu [0x73, 0, 0, 0])) (program_counter (demo_cpu [0x73, 0, 0, 0])) =
      Some 0x73" by code_simp
  have d: "fetch_decode 0x73 = Some (IInst SYSTEM 0 0 0 0)" by code_simp
  have "next_pc (inst_len 0x73) (program_counter (demo_cpu [0x73, 0, 0, 0])) = Some 0x1004" by code_simp
  then show ?thesis
    using tick_ecall [OF lsb0.packed_struct_crate_axioms f d, of no_syscall "()"]
    by (simp add: is_ecall_def no_syscall_def)
qed

section \<open>The register file keeps its size\<close>

lemma write_reg_length: "write_reg cpu n v = Some cpu' \<Longrightarrow> cpu_wf cpu' \<longleftrightarrow> cpu_wf cpu"
  by (auto simp: write_reg_def cpu_wf_def index_set_eq_Some_iff split: if_splits bind_splits)

lemma cpu_wf_update [simp]:
  "cpu_wf (cpu\<lparr>program_counter := p\<rparr>) = cpu_wf cpu" "cpu_wf (cpu\<lparr>memory := m\<rparr>) = cpu_wf cpu"
  by (simp_all add: cpu_wf_def)

lemma execute_inst_wf:
  "execute_rtype_inst cpu r = Some cpu' \<Longrightarrow> cpu_wf cpu \<Longrightarrow> cpu_wf cpu'"
  "execute_stype_inst ops cpu s = Some cpu' \<Longrightarrow> cpu_wf cpu \<Longrightarrow> cpu_wf cpu'"
  "execute_btype_inst cpu b len = Some cpu' \<Longrightarrow> cpu_wf cpu \<Longrightarrow> cpu_wf cpu'"
  "execute_utype_inst cpu u = Some cpu' \<Longrightarrow> cpu_wf cpu \<Longrightarrow> cpu_wf cpu'"
  "execute_jtype_inst cpu j len = Some (a, cpu') \<Longrightarrow> cpu_wf cpu \<Longrightarrow> cpu_wf cpu'"
  by (auto simp: execute_rtype_inst_def execute_stype_inst_def execute_btype_inst_def execute_utype_inst_def
      execute_jtype_inst_def Let_def write_reg_length split: option.splits bind_splits if_splits)

lemma execute_itype_wf:
  assumes "execute_itype_inst ops sysc cpu i len prog = Some (a, cpu', prog')" "cpu_wf cpu"
    and "\<And>a cpu' prog'. sysc cpu prog = Some (a, cpu', prog') \<Longrightarrow> cpu_wf cpu'"
  shows "cpu_wf cpu'"
  using assms
  by (auto simp: execute_itype_inst_def Let_def write_reg_length split: option.splits bind_splits if_splits)

lemma finish_wf:
  "finish len r = Some (ok, cpu', prog') \<Longrightarrow> (\<And>a c p. r = Some (a, c, p) \<Longrightarrow> cpu_wf c) \<Longrightarrow> cpu_wf cpu'"
  by (auto simp: finish_def split: bind_splits if_splits)

lemma execute_wf:
  assumes "execute ps ops sysc cpu prog w len = Some (ok, cpu', prog')" "cpu_wf cpu"
    and "\<And>a cpu' prog'. sysc cpu prog = Some (a, cpu', prog') \<Longrightarrow> cpu_wf cpu'"
  shows "cpu_wf cpu'"
  using assms unfolding execute_finish
  by (auto split: option.splits RiscvInstType.splits elim!: finish_wf
      dest: execute_inst_wf execute_itype_wf split: bind_splits)

text \<open>
  \<^verbatim>\<open>tick\<close> keeps the register file at 31 entries, whatever the instruction, provided the
  system call handler does: with the range of the register fields, no register access of a
  later \<^verbatim>\<open>tick\<close> can be out of bounds.
\<close>

theorem tick_preserves_registers:
  assumes "tick ps ops sysc cpu prog = Some (ok, cpu', prog')" "cpu_wf cpu"
    and "\<forall>a c p. sysc cpu prog = Some (a, c, p) \<longrightarrow> cpu_wf c"
  shows "cpu_wf cpu'"
  using assms
  by (auto simp: tick_def Let_def dest!: execute_wf split: bind_splits if_splits option.splits)

end
