(* ===== verification/Riscv_Safety.thy ===== *)
theory Riscv_Safety
  imports Riscv_Machine
begin

text \<open>
  What an emulated program can and cannot do to the kernel: consequences of the refinement of
  \<open>Riscv_Machine\<close> for the memory of \<open>Virtmem\<close>, and the inputs on which \<^verbatim>\<open>tick\<close> panics.
\<close>

section \<open>Loads after stores\<close>

text \<open>The unsigned load of the width a store writes: SB/LBU, SH/LHU, SW/LWU, SD/LD.\<close>

definition load_of_store :: "u8 \<Rightarrow> u8" where
  "load_of_store f3 = (if f3 = 3 then 3 else f3 + 4)"

definition store_width :: "u8 \<Rightarrow> nat" where
  "store_width f3 = (if f3 = 0 then 8 else if f3 = 1 then 16 else if f3 = 2 then 32 else 64)"

lemma ucast_truncate:
  "(ucast (ucast (v :: u64) :: u8) :: u64) = take_bit 8 v"
  "(ucast (ucast (v :: u64) :: u16) :: u64) = take_bit 16 v"
  "(ucast (ucast (v :: u64) :: u32) :: u64) = take_bit 32 v" "take_bit 64 v = v"
  by (rule bit_word_eqI, auto simp: bit_simps)+

lemma isa_load_after_store:
  assumes "vm_inv m" "isa_store vm_ops f3 m a v = Some m'" "f3 \<le> 3"
  shows "\<exists>ld. isa_load vm_ops (load_of_store f3) = Some ld \<and> vm_inv m' \<and>
    ld m' a = Some (take_bit (store_width f3) v)"
proof -
  have "unat f3 \<le> 3" using assms(3) by (simp add: word_le_nat_alt)
  then have "unat f3 = 0 \<or> unat f3 = 1 \<or> unat f3 = 2 \<or> unat f3 = 3" by linarith
  then have cases: "f3 = 0 \<or> f3 = 1 \<or> f3 = 2 \<or> f3 = 3" by (simp add: word_unat_eq_iff)
  have b: "vm_byte m a \<noteq> None" if "write_u8_ne vm_ops m a w = Some m'" for w
    using vm.write_u8_unmapped [OF assms(1)] that by fastforce
  from cases assms b show ?thesis
    using vm.write_u8 [OF assms(1), of a "ucast v"] vm.read_u8 [of m' a]
      vm.write_u16 [OF assms(1), of a "ucast v" m'] vm.write_u32 [OF assms(1), of a "ucast v" m']
      vm.write_u64 [OF assms(1), of a v m']
    by (elim disjE) (auto simp: isa_store_def isa_load_def load_of_store_def store_width_def ucast_truncate)
qed

text \<open>
  A value stored by an emulated \<^verbatim>\<open>SB\<close>, \<^verbatim>\<open>SH\<close>, \<^verbatim>\<open>SW\<close> or \<^verbatim>\<open>SD\<close> is read back by the load
  of the same width from the same base register and offset: the load succeeds, its destination
  receives the low bits of the stored register, and no other register changes.
\<close>

theorem store_then_load:
  assumes "vm_inv (memory cpu)" "cpu_wf cpu"
    and "execute_stype_inst vm_ops cpu s = Some cpu'" "s_opcode s = STORE" "s_funct3 s \<le> 3"
    and "s_rs1 s < 32" "s_rs2 s < 32"
    and "i_opcode i = LOAD" "i_funct3 i = load_of_store (s_funct3 s)" "i_rs1 i = s_rs1 s" "i_rd i < 32"
    and "itype_parse_imm i = stype_parse_imm s"
  shows "\<exists>cpu''. execute_itype_inst vm_ops sysc cpu' i len prog = Some (NONE, cpu'', prog) \<and>
    reg cpu'' = set_reg (i_rd i) (take_bit (store_width (s_funct3 s)) (reg cpu (s_rs2 s))) (reg cpu) \<and>
    vm_inv (memory cpu'')"
proof -
  let ?a = "reg cpu (s_rs1 s) + scast (stype_parse_imm s)"
  have "unat (s_funct3 s) \<le> 3" using assms(5) by (simp add: word_le_nat_alt)
  then have "unat (s_funct3 s) = 0 \<or> unat (s_funct3 s) = 1 \<or> unat (s_funct3 s) = 2 \<or> unat (s_funct3 s) = 3"
    by linarith
  then have "s_funct3 s = 0 \<or> s_funct3 s = 1 \<or> s_funct3 s = 2 \<or> s_funct3 s = 3" by (simp add: word_unat_eq_iff)
  with assms(2-7) obtain m' where m': "isa_store vm_ops (s_funct3 s) (memory cpu) ?a (reg cpu (s_rs2 s)) = Some m'"
    and c': "cpu' = cpu\<lparr>memory := m'\<rparr>"
    by (auto simp: execute_stype_inst_def isa_store_def Let_def read_reg_wf split: bind_splits)
  from isa_load_after_store [OF assms(1) m' assms(5)] obtain ld where
    ld: "isa_load vm_ops (load_of_store (s_funct3 s)) = Some ld" "vm_inv m'"
      "ld m' ?a = Some (take_bit (store_width (s_funct3 s)) (reg cpu (s_rs2 s)))" by blast
  have wf': "cpu_wf cpu'" using assms(2) c' by simp
  obtain cpu'' where w: "write_reg cpu' (i_rd i) (take_bit (store_width (s_funct3 s)) (reg cpu (s_rs2 s))) = Some cpu''"
    "reg cpu'' = set_reg (i_rd i) (take_bit (store_width (s_funct3 s)) (reg cpu (s_rs2 s))) (reg cpu')"
    "memory cpu'' = memory cpu'"
    using write_reg_wf [OF wf' assms(11)] by metis
  have "itype_op LOAD f3 im = None" for f3 im by (simp add: itype_op_def Let_def)
  with assms ld w c' wf' show ?thesis
    by (simp add: execute_itype_inst_def load_op_isa read_reg_wf)
qed

theorem store_then_load_witness:
  "\<exists>cpu''. execute_itype_inst vm_ops no_syscall
      ((demo_cpu (replicate 8 0))\<lparr>registers := (replicate 31 0)[0 := 0x1000, 1 := 0x1122],
        memory := \<lparr>vm_map = [\<lparr>virtual_start = 0x1000, backing_storage = [0, 0, 0x22, 0x11, 0, 0, 0, 0]\<rparr>]\<rparr>\<rparr>)
      (itype_from LOAD 3 5 1 2) 4 () = Some (NONE, cpu'', ()) \<and>
    reg cpu'' = set_reg 3 0x1122
      (reg ((demo_cpu (replicate 8 0))\<lparr>registers := (replicate 31 0)[0 := 0x1000, 1 := 0x1122]\<rparr>)) \<and>
    vm_inv (memory cpu'')"
proof -
  let ?cpu = "(demo_cpu (replicate 8 0))\<lparr>registers := (replicate 31 0)[0 := 0x1000, 1 := 0x1122]\<rparr>"
  let ?cpu' = "?cpu\<lparr>memory := \<lparr>vm_map = [\<lparr>virtual_start = 0x1000, backing_storage = [0, 0, 0x22, 0x11, 0, 0, 0, 0]\<rparr>]\<rparr>\<rparr>"
  have "vm_inv (memory ?cpu)"
    by (simp add: demo_cpu_def cpu_from_def vm_inv_def region_ok_def region_len_def)
  moreover have "cpu_wf ?cpu" by (simp add: cpu_wf_def)
  moreover have "execute_stype_inst vm_ops ?cpu (stype_from STORE 1 1 2 2) = Some ?cpu'" by code_simp
  moreover have "itype_parse_imm (itype_from LOAD 3 5 1 2) = stype_parse_imm (stype_from STORE 1 1 2 2)" by code_simp
  moreover have "load_of_store 1 = 5" by code_simp
  moreover have "take_bit (store_width 1) (reg ?cpu 2) = 0x1122" by code_simp
  ultimately show ?thesis
    using store_then_load [of ?cpu "stype_from STORE 1 1 2 2" ?cpu' "itype_from LOAD 3 5 1 2" no_syscall 4 "()"]
    by (simp add: stype_from_def itype_from_def)
qed

section \<open>Programs that stop the kernel\<close>

text \<open>
  A division or remainder (\<^verbatim>\<open>DIV\<close>, \<^verbatim>\<open>DIVU\<close>, \<^verbatim>\<open>REM\<close>, \<^verbatim>\<open>REMU\<close> and the 32-bit
  \<^verbatim>\<open>DIVW\<close>, \<^verbatim>\<open>DIVUW\<close>, \<^verbatim>\<open>REMW\<close>, \<^verbatim>\<open>REMUW\<close>) whose divisor is zero panics the kernel:
  \<^verbatim>\<open>wrapping_div\<close> does not accept it, where the manual defines a result.
\<close>

theorem division_by_zero_panics:
  assumes "packed_struct_crate ps" "cpu_wf cpu"
    and "read_u32_le ops (memory cpu) (program_counter cpu) = Some w"
    and "fetch_decode w = Some (RInst op f3 1 d a b)" "f3 \<in> {4, 5, 6, 7}"
    and "op = OP \<and> reg cpu b = 0 \<or> op = OP32 \<and> ucast (reg cpu b) = (0 :: u32)"
  shows "tick ps ops sysc cpu prog = None"
proof -
  have "low_s v = 0 \<and> low_u v = 0" if "ucast v = (0 :: u32)" for v :: u64
    using that low_word [of v] by (metis signed_0 unsigned_0)
  then have "isa_exec ops (inst_len w) (RInst op f3 1 d a b) (reg cpu) (program_counter cpu) (memory cpu) = None"
    using assms(5,6)
    by (auto simp: isa_exec_def exec_R_def alu_base_def alu_m_def divide_by_def)
  with assms packed_struct_crate.tick_view [OF assms(1-3), of sysc prog] show ?thesis
    by (simp add: is_ecall_def)
qed

theorem division_by_zero_panics_witness:
  "tick lsb0_crate vm_ops no_syscall (demo_cpu [0x33, 0x45, 0x05, 0x02]) () = None"
proof -
  have f: "read_u32_le vm_ops (memory (demo_cpu [0x33, 0x45, 0x05, 0x02]))
      (program_counter (demo_cpu [0x33, 0x45, 0x05, 0x02])) = Some 0x02054533" by code_simp
  have d: "fetch_decode 0x02054533 = Some (RInst OP 4 1 10 10 0)" by code_simp
  show ?thesis
    by (rule division_by_zero_panics [OF lsb0.packed_struct_crate_axioms demo_cpu_wf f d]) (simp_all add: reg_def)
qed

text \<open>
  A jump, call or return whose target lies below the size of the jump instruction, such
  as a call through a null function pointer, panics the kernel: the target is stored minus the
  instruction size and the increment at the end of \<^verbatim>\<open>tick\<close> overflows.
\<close>

theorem jump_to_low_address_panics:
  assumes "packed_struct_crate ps" "cpu_wf cpu"
    and "read_u32_le ops (memory cpu) (program_counter cpu) = Some w"
    and "fetch_decode w = Some (IInst JALR 0 d a im)"
    and "(reg cpu a + scast im) AND NOT 1 < inst_len w" "inst_len w \<le> program_counter cpu"
  shows "tick ps ops sysc cpu prog = None"
proof -
  have "(reg cpu a + scast im) AND NOT 1 \<noteq> program_counter cpu" using assms(5,6) by auto
  then have "isa_exec ops (inst_len w) (IInst JALR 0 d a im) (reg cpu) (program_counter cpu) (memory cpu) = None"
    using assms(5)
    by (auto simp: isa_exec_def exec_I_def alu_imm_def goto_def Let_def split: bind_split)
  with assms packed_struct_crate.tick_view [OF assms(1-3), of sysc prog] show ?thesis
    by (simp add: is_ecall_def)
qed

theorem jump_to_low_address_panics_witness:
  "tick lsb0_crate vm_ops no_syscall (demo_cpu [0xE7, 0x00, 0x05, 0x00]) () = None"
proof -
  have f: "read_u32_le vm_ops (memory (demo_cpu [0xE7, 0x00, 0x05, 0x00]))
      (program_counter (demo_cpu [0xE7, 0x00, 0x05, 0x00])) = Some 0x000500E7" by code_simp
  have d: "fetch_decode 0x000500E7 = Some (IInst JALR 0 1 10 0)" by code_simp
  have "(reg (demo_cpu [0xE7, 0x00, 0x05, 0x00]) 10 + scast (0 :: u32)) AND NOT 1 < inst_len 0x000500E7"
    "inst_len 0x000500E7 \<le> program_counter (demo_cpu [0xE7, 0x00, 0x05, 0x00])" by code_simp+
  with jump_to_low_address_panics [OF lsb0.packed_struct_crate_axioms demo_cpu_wf f d, of no_syscall "()"]
  show ?thesis by simp
qed

text \<open>
  \<^verbatim>\<open>tick\<close> always fetches four bytes: a program counter in the last three bytes of its
  region panics the kernel, also when the two bytes there are a complete compressed
  instruction.
\<close>

theorem fetch_at_region_end_panics:
  assumes "vm_inv (memory cpu)" "r \<in> set (vm_map (memory cpu))" "contains r (program_counter cpu)"
    and "unat (virtual_start r) + region_len r < unat (program_counter cpu) + 4"
  shows "tick ps vm_ops sysc cpu prog = None"
proof -
  from assms(1) have ok: "\<forall>r \<in> set (vm_map (memory cpu)). region_ok r" by (simp add: vm_inv_def)
  let ?pc = "program_counter cpu"
  from find_map_region_cases [OF ok, of ?pc 0] assms(2,3) obtain k where
    k: "k < length (vm_map (memory cpu))" "contains (vm_map (memory cpu) ! k) ?pc"
    and hit: "find_map_region 0 (vm_map (memory cpu)) ?pc = Some (Some (vm_map (memory cpu) ! k,
      \<lparr>offset_in_region = unat ?pc - unat (virtual_start (vm_map (memory cpu) ! k)), region_index = k\<rparr>))"
    by auto
  from assms(2) obtain j where j: "j < length (vm_map (memory cpu))" "vm_map (memory cpu) ! j = r"
    by (auto simp: in_set_conv_nth)
  with k assms vm_inv_contains_unique [of "memory cpu" k j ?pc] have "vm_map (memory cpu) ! k = r" by auto
  with hit assms(3,4) have "load_slice (memory cpu) ?pc 4 = None"
    by (simp add: load_slice_def map_or_panic_def try_map_def region_len_def contains_def)
  then show ?thesis by (simp add: tick_def vm_ops_def vm_read_u32_le_def)
qed

theorem fetch_at_region_end_panics_witness:
  "tick lsb0_crate vm_ops no_syscall (demo_cpu [0x01, 0x00]) () = None"
  by (rule fetch_at_region_end_panics [where r = "\<lparr>virtual_start = 0x1000, backing_storage = [0x01, 0x00]\<rparr>"])
    (simp_all add: demo_cpu_def cpu_from_def vm_inv_def region_ok_def region_len_def contains_def)

theorem tick_preserves_registers_witness:
  "\<exists>ok cpu'. tick lsb0_crate vm_ops no_syscall (demo_cpu [0x13, 0x05, 0xA0, 0x02]) () = Some (ok, cpu', ()) \<and>
     cpu_wf cpu'"
proof -
  obtain ok cpu' where t: "tick lsb0_crate vm_ops no_syscall (demo_cpu [0x13, 0x05, 0xA0, 0x02]) () = Some (ok, cpu', ())"
  proof -
    have "tick lsb0_crate vm_ops no_syscall (demo_cpu [0x13, 0x05, 0xA0, 0x02]) () \<noteq> None" by code_simp
    then show ?thesis using that by auto
  qed
  have "cpu_wf cpu'"
    by (rule tick_preserves_registers [OF t demo_cpu_wf]) (simp add: no_syscall_def)
  with t show ?thesis by blast
qed

end
