(* ===== verification/Syscall.thy ===== *)
theory Syscall
  imports Syscall_Exec Scheduler_Inv Riscv_Safety
begin

text \<open>
  The system call interface: \<^verbatim>\<open>syscall_entry_point\<close> of \<^verbatim>\<open>src/kernel/src/syscall.rs\<close>, which the emulator
  calls for an \<^verbatim>\<open>ECALL\<close>, \<^verbatim>\<open>Process::tick\<close> of \<^verbatim>\<open>src/kernel/src/process.rs\<close>, and the other side of the
  interface, the system call numbers and the wrappers of the C library in \<^verbatim>\<open>src/rlibc/src/sys.rs\<close>.

  \<open>system\<close> extends the globals of the scheduler by the state of the file systems, the terminal and the
  keyboard, so that the scheduler's turn can be run with this handler. The message about an unknown
  number goes to the UART and is left out.
\<close>

section \<open>System call numbers\<close>

datatype (plugins only: code) SyscallNumber =
    Exit | Read | Write | Open | Close | LSeek | Malloc | Free | Realloc | Getcwd | Getenv | Fchdir | Dup | Dup2
  | Fork | Waitpid | Fexecve | Execve | Execvpe | Pipe | MaxValue

text \<open>The numbers in the order of the \<^verbatim>\<open>enum\<close>; the cast to \<^verbatim>\<open>usize\<close> and the \<^verbatim>\<open>transmute\<close> back.\<close>

definition syscall_numbers :: "SyscallNumber list" where
  "syscall_numbers = [Exit, Read, Write, Open, Close, LSeek, Malloc, Free, Realloc, Getcwd, Getenv, Fchdir, Dup, Dup2,
     Fork, Waitpid, Fexecve, Execve, Execvpe, Pipe, MaxValue]"

primrec discriminant :: "SyscallNumber \<Rightarrow> u64" where
  "discriminant Exit = 0" | "discriminant Read = 1" | "discriminant Write = 2" | "discriminant Open = 3"
| "discriminant Close = 4" | "discriminant LSeek = 5" | "discriminant Malloc = 6" | "discriminant Free = 7"
| "discriminant Realloc = 8" | "discriminant Getcwd = 9" | "discriminant Getenv = 10" | "discriminant Fchdir = 11"
| "discriminant Dup = 12" | "discriminant Dup2 = 13" | "discriminant Fork = 14" | "discriminant Waitpid = 15"
| "discriminant Fexecve = 16" | "discriminant Execve = 17" | "discriminant Execvpe = 18" | "discriminant Pipe = 19"
| "discriminant MaxValue = 20"

definition try_from :: "u64 \<Rightarrow> SyscallNumber option" where
  "try_from value0 = (if value0 \<ge> discriminant MaxValue then None else Some (syscall_numbers ! unat value0))"

section \<open>The state of the kernel\<close>

record ('e, 'n, 'w, 'b, 'h) system = "('e, 'n) globals" +
  device_world :: 'w
  system_terminal :: "'b Terminal"
  system_keyboard :: "'h PS2Device"

text \<open>What a system call on files sees of the system and the process, and its way back.\<close>

definition kernel_view ::
  "('e, 'n, 'w, 'b, 'h) system \<Rightarrow> emulator \<Rightarrow> 'n ProcessData \<Rightarrow> ('w, 'n, 'b, 'h) kernel" where
  "kernel_view g cpu p = \<lparr>world = device_world g, kernel_pipes = PIPES g, TERMINAL = system_terminal g,
     KEYBOARD_INPUT = system_keyboard g, user_memory = memory cpu, process_data = p\<rparr>"

definition kernel_back ::
  "('e, 'n, 'w, 'b, 'h) system \<Rightarrow> emulator \<Rightarrow> ('w, 'n, 'b, 'h) kernel \<Rightarrow> emulator \<times> ('e, 'n, 'w, 'b, 'h) system \<times> 'n ProcessData" where
  "kernel_back g cpu k = (cpu\<lparr>memory := user_memory k\<rparr>,
     g\<lparr>PIPES := kernel_pipes k, device_world := world k, system_terminal := TERMINAL k, system_keyboard := KEYBOARD_INPUT k\<rparr>,
     process_data k)"

text \<open>\<^verbatim>\<open>return_value\<close> and the step to the next instruction.\<close>

definition return_value :: "u64 \<Rightarrow> emulator \<times> 'g \<Rightarrow> (CpuAction \<times> emulator \<times> 'g) option" where
  "return_value val s = do { cpu \<leftarrow> write_reg (fst s) 10 val; Some (NONE, cpu, snd s) }"

definition return_or_repeat :: "u64 option \<Rightarrow> emulator \<times> 'g \<Rightarrow> (CpuAction \<times> emulator \<times> 'g) option" where
  "return_or_repeat val s = (case val of Some val \<Rightarrow> return_value val s | None \<Rightarrow> Some (REPEAT_INSTRUCTION, s))"

definition exec_return :: "bool \<Rightarrow> emulator \<times> 'g \<Rightarrow> (CpuAction \<times> emulator \<times> 'g) option" where
  "exec_return res s = (if res then Some (REPEAT_INSTRUCTION, s) else return_value (- 1) s)"

section \<open>The entry point\<close>

text \<open>The arms of the \<^verbatim>\<open>match\<close>: \<open>a1\<close>, \<open>a2\<close> and \<open>a3\<close> are the arguments.\<close>

definition run_syscall ::
  "(u64 \<Rightarrow> bool) \<Rightarrow> decoder \<Rightarrow> ('w, 'f, 'd, 'b, 'h) devices \<Rightarrow> SyscallNumber \<Rightarrow> u64 \<Rightarrow> u64 \<Rightarrow> u64
     \<Rightarrow> emulator \<Rightarrow> (emulator, ('f, 'd) Node, 'w, 'b, 'h) system \<Rightarrow> ('f, 'd) Node ProcessData
     \<Rightarrow> (CpuAction \<times> emulator \<times> (emulator, ('f, 'd) Node, 'w, 'b, 'h) system \<times> ('f, 'd) Node ProcessData) option" where
  "run_syscall room dcd dev syscall_number a1 a2 a3 cpu g p = (case syscall_number of
     Exit \<Rightarrow> Some (NONE, cpu, g, exit p a1)
   | Read \<Rightarrow> do {
       (val, k) \<leftarrow> read_fd dev (kernel_view g cpu p) (unat a1) a2 a3;
       return_or_repeat (map_option scast val) (kernel_back g cpu k) }
   | Write \<Rightarrow> do {
       (val, k) \<leftarrow> write_fd dev (kernel_view g cpu p) (unat a1) a2 a3;
       return_value (scast val) (kernel_back g cpu k) }
   | Open \<Rightarrow> do {
       (val, k) \<leftarrow> open_file dev (kernel_view g cpu p) a1 a2;
       return_value val (kernel_back g cpu k) }
   | Close \<Rightarrow> do {
       (val, pipes, p) \<leftarrow> close (PIPES g) p (unat a1);
       return_value val (cpu, g\<lparr>PIPES := pipes\<rparr>, p) }
   | Malloc \<Rightarrow> do {
       (val, m, p) \<leftarrow> malloc room (memory cpu, p) a1;
       return_value val (cpu\<lparr>memory := m\<rparr>, g, p) }
   | Free \<Rightarrow> do {
       (m, p) \<leftarrow> free (memory cpu, p) a1;
       Some (NONE, cpu\<lparr>memory := m\<rparr>, g, p) }
   | LSeek \<Rightarrow> do {
       (val, p) \<leftarrow> lseek (\<lambda>node. case node of File f \<Rightarrow> map_option Some (dev_get_size dev (device_world g) f)
         | Folder _ \<Rightarrow> Some None) p (unat a1) a2 a3;
       return_value val (cpu, g, p) }
   | Realloc \<Rightarrow> do {
       (val, m, p) \<leftarrow> realloc room (memory cpu, p) a1 a2;
       return_value val (cpu\<lparr>memory := m\<rparr>, g, p) }
   | Getcwd \<Rightarrow> do {
       (val, m, p) \<leftarrow> getcwd (memory cpu, p) a1 a2;
       return_value val (cpu\<lparr>memory := m\<rparr>, g, p) }
   | Getenv \<Rightarrow> do {
       val \<leftarrow> getenv (memory cpu, p) a1;
       return_value val (cpu, g, p) }
   | Fchdir \<Rightarrow> do {
       (val, p) \<leftarrow> fchdir p (unat a1);
       return_value val (cpu, g, p) }
   | Dup \<Rightarrow> do {
       (val, pipes, p) \<leftarrow> dup (PIPES g) p (unat a1);
       return_value val (cpu, g\<lparr>PIPES := pipes\<rparr>, p) }
   | Dup2 \<Rightarrow> do {
       (val, pipes, p) \<leftarrow> dup2 (PIPES g) p (unat a1) a2;
       return_value val (cpu, g\<lparr>PIPES := pipes\<rparr>, p) }
   | Fork \<Rightarrow> do {
       (val, g, p) \<leftarrow> fork g cpu p;
       return_value (of_nat val) (cpu, g, p) }
   | Waitpid \<Rightarrow> do {
       (val, m, p) \<leftarrow> waitpid (memory cpu, p) a1 a2;
       return_or_repeat val (cpu\<lparr>memory := m\<rparr>, g, p) }
   | Fexecve \<Rightarrow> do {
       (res, cpu, p) \<leftarrow> fexecve room dcd dev (device_world g) (cpu, p) (unat a1) a2 a3;
       exec_return res (cpu, g, p) }
   | Execve \<Rightarrow> do {
       (res, cpu, p) \<leftarrow> execve room dcd dev (device_world g) (cpu, p) a1 a2 a3;
       exec_return res (cpu, g, p) }
   | Execvpe \<Rightarrow> do {
       (res, cpu, p) \<leftarrow> execvpe room dcd dev (device_world g) (cpu, p) a1 a2 a3;
       exec_return res (cpu, g, p) }
   | Pipe \<Rightarrow> do {
       (val, pipes, m, p) \<leftarrow> pipe (PIPES g) (memory cpu, p) a1;
       return_value val (cpu\<lparr>memory := m\<rparr>, g\<lparr>PIPES := pipes\<rparr>, p) }
   | MaxValue \<Rightarrow> Some (NONE, cpu, g, p))"

definition syscall_entry_point ::
  "(u64 \<Rightarrow> bool) \<Rightarrow> decoder \<Rightarrow> ('w, 'f, 'd, 'b, 'h) devices
     \<Rightarrow> (LittleEndianVirtualMemory, (emulator, ('f, 'd) Node, 'w, 'b, 'h) system \<times> ('f, 'd) Node ProcessData) syscall" where
  "syscall_entry_point room dcd dev cpu s = do {
     syscall_number \<leftarrow> read_reg cpu 17;
     (case try_from syscall_number of
        None \<Rightarrow> Some (NONE, cpu, s)
      | Some syscall_number \<Rightarrow> do {
          argument_1 \<leftarrow> read_reg cpu 10;
          argument_2 \<leftarrow> read_reg cpu 11;
          argument_3 \<leftarrow> read_reg cpu 12;
          run_syscall room dcd dev syscall_number argument_1 argument_2 argument_3 cpu (fst s) (snd s) }) }"

definition Process_tick ::
  "packed_struct \<Rightarrow> (u64 \<Rightarrow> bool) \<Rightarrow> decoder \<Rightarrow> ('w, 'f, 'd, 'b, 'h) devices \<Rightarrow> (emulator, ('f, 'd) Node, 'w, 'b, 'h) system
     \<Rightarrow> (emulator, ('f, 'd) Node) Process
     \<Rightarrow> (unit option \<times> (emulator, ('f, 'd) Node, 'w, 'b, 'h) system \<times> (emulator, ('f, 'd) Node) Process) option" where
  "Process_tick ps room dcd dev g process = do {
     (r, cpu, g, p) \<leftarrow> tick ps vm_ops (syscall_entry_point room dcd dev) (emu process) (g, data process);
     Some (r, g, \<lparr>emu = cpu, data = p\<rparr>) }"

section \<open>The wrappers of the C library\<close>

text \<open>
  The inline assembly of the wrappers loads the argument registers and the number, executes \<^verbatim>\<open>ECALL\<close> and
  reads the result register. \<open>sysc\<close> is the handler; the value \<open>None\<close> means that the instruction is to
  be executed again. A \<^verbatim>\<open>c_int\<close> is sign-extended to a register and cut off a register.
\<close>

definition load_syscall_argument_1 :: "emulator \<Rightarrow> u64 \<Rightarrow> emulator option" where
  "load_syscall_argument_1 cpu val = write_reg cpu 10 val"

definition load_syscall_argument_2 :: "emulator \<Rightarrow> u64 \<Rightarrow> emulator option" where
  "load_syscall_argument_2 cpu val = write_reg cpu 11 val"

definition load_syscall_argument_3 :: "emulator \<Rightarrow> u64 \<Rightarrow> emulator option" where
  "load_syscall_argument_3 cpu val = write_reg cpu 12 val"

definition read_syscall_return :: "emulator \<Rightarrow> u64 option" where
  "read_syscall_return cpu = read_reg cpu 10"

type_synonym 's handler = "(LittleEndianVirtualMemory, 's) syscall"

definition do_syscall ::
  "'s handler \<Rightarrow> SyscallNumber \<Rightarrow> emulator \<times> 's \<Rightarrow> (u64 option \<times> emulator \<times> 's) option" where
  "do_syscall sysc number s = do {
     cpu \<leftarrow> write_reg (fst s) 17 (discriminant number);
     (action, cpu, s) \<leftarrow> sysc cpu (snd s);
     if action = NONE then do { val \<leftarrow> read_syscall_return cpu; Some (Some val, cpu, s) }
     else Some (None, cpu, s) }"

definition syscall_1 ::
  "'s handler \<Rightarrow> SyscallNumber \<Rightarrow> u64 \<Rightarrow> emulator \<times> 's \<Rightarrow> (u64 option \<times> emulator \<times> 's) option" where
  "syscall_1 sysc number x1 s = do {
     cpu \<leftarrow> load_syscall_argument_1 (fst s) x1;
     do_syscall sysc number (cpu, snd s) }"

definition syscall_2 ::
  "'s handler \<Rightarrow> SyscallNumber \<Rightarrow> u64 \<Rightarrow> u64 \<Rightarrow> emulator \<times> 's \<Rightarrow> (u64 option \<times> emulator \<times> 's) option" where
  "syscall_2 sysc number x1 x2 s = do {
     cpu \<leftarrow> load_syscall_argument_1 (fst s) x1;
     cpu \<leftarrow> load_syscall_argument_2 cpu x2;
     do_syscall sysc number (cpu, snd s) }"

definition syscall_3 ::
  "'s handler \<Rightarrow> SyscallNumber \<Rightarrow> u64 \<Rightarrow> u64 \<Rightarrow> u64 \<Rightarrow> emulator \<times> 's \<Rightarrow> (u64 option \<times> emulator \<times> 's) option" where
  "syscall_3 sysc number x1 x2 x3 s = do {
     cpu \<leftarrow> load_syscall_argument_1 (fst s) x1;
     cpu \<leftarrow> load_syscall_argument_2 cpu x2;
     cpu \<leftarrow> load_syscall_argument_3 cpu x3;
     do_syscall sysc number (cpu, snd s) }"

definition as_c_int :: "(u64 option \<times> emulator \<times> 's) option \<Rightarrow> (u32 option \<times> emulator \<times> 's) option" where
  "as_c_int r = map_option (\<lambda>(val, s). (map_option ucast val, s)) r"

definition c_open :: "'s handler \<Rightarrow> u64 \<Rightarrow> u32 \<Rightarrow> emulator \<times> 's \<Rightarrow> (u32 option \<times> emulator \<times> 's) option" where
  "c_open sysc pathname flags s = as_c_int (syscall_2 sysc Open pathname (scast flags) s)"

definition c_close :: "'s handler \<Rightarrow> u32 \<Rightarrow> emulator \<times> 's \<Rightarrow> (u32 option \<times> emulator \<times> 's) option" where
  "c_close sysc fd s = as_c_int (syscall_1 sysc Close (scast fd) s)"

definition c_write :: "'s handler \<Rightarrow> u32 \<Rightarrow> u64 \<Rightarrow> u64 \<Rightarrow> emulator \<times> 's \<Rightarrow> (u64 option \<times> emulator \<times> 's) option" where
  "c_write sysc fd buf cnt s = syscall_3 sysc Write (scast fd) buf cnt s"

definition c_read :: "'s handler \<Rightarrow> u32 \<Rightarrow> u64 \<Rightarrow> u64 \<Rightarrow> emulator \<times> 's \<Rightarrow> (u64 option \<times> emulator \<times> 's) option" where
  "c_read sysc fd buf cnt s = syscall_3 sysc Read (scast fd) buf cnt s"

definition c_lseek :: "'s handler \<Rightarrow> u32 \<Rightarrow> u64 \<Rightarrow> u32 \<Rightarrow> emulator \<times> 's \<Rightarrow> (u64 option \<times> emulator \<times> 's) option" where
  "c_lseek sysc fd offset whence s = syscall_3 sysc LSeek (scast fd) offset (scast whence) s"

definition c_malloc :: "'s handler \<Rightarrow> u64 \<Rightarrow> emulator \<times> 's \<Rightarrow> (u64 option \<times> emulator \<times> 's) option" where
  "c_malloc sysc sz s = syscall_1 sysc Malloc sz s"

definition c_free :: "'s handler \<Rightarrow> u64 \<Rightarrow> emulator \<times> 's \<Rightarrow> (u64 option \<times> emulator \<times> 's) option" where
  "c_free sysc ptr s = syscall_1 sysc Free ptr s"

text \<open>\<^verbatim>\<open>realloc\<close> loads the new size as the third argument.\<close>

definition c_realloc :: "'s handler \<Rightarrow> u64 \<Rightarrow> u64 \<Rightarrow> emulator \<times> 's \<Rightarrow> (u64 option \<times> emulator \<times> 's) option" where
  "c_realloc sysc ptr new_size s = do {
     cpu \<leftarrow> load_syscall_argument_1 (fst s) ptr;
     cpu \<leftarrow> load_syscall_argument_3 cpu new_size;
     do_syscall sysc Realloc (cpu, snd s) }"

definition c_getcwd :: "'s handler \<Rightarrow> u64 \<Rightarrow> u64 \<Rightarrow> emulator \<times> 's \<Rightarrow> (u64 option \<times> emulator \<times> 's) option" where
  "c_getcwd sysc buf sz s = syscall_2 sysc Getcwd buf sz s"

definition c_getenv :: "'s handler \<Rightarrow> u64 \<Rightarrow> emulator \<times> 's \<Rightarrow> (u64 option \<times> emulator \<times> 's) option" where
  "c_getenv sysc name s = syscall_1 sysc Getenv name s"

definition c_fchdir :: "'s handler \<Rightarrow> u32 \<Rightarrow> emulator \<times> 's \<Rightarrow> (u32 option \<times> emulator \<times> 's) option" where
  "c_fchdir sysc fd s = as_c_int (syscall_1 sysc Fchdir (scast fd) s)"

text \<open>\<^verbatim>\<open>chdir\<close>; its calls never repeat the instruction.\<close>

definition c_chdir :: "'s handler \<Rightarrow> u64 \<Rightarrow> emulator \<times> 's \<Rightarrow> (u32 \<times> emulator \<times> 's) option" where
  "c_chdir sysc path s = do {
     (fd, s) \<leftarrow> c_open sysc path (ucast O_RDONLY) s;
     fd \<leftarrow> fd;
     if fd <s 0 then Some (- 1, s)
     else do {
       (r, s) \<leftarrow> c_fchdir sysc fd s;
       r \<leftarrow> r;
       (_, s) \<leftarrow> c_close sysc fd s;
       Some (if r <s 0 then - 1 else 0, s) } }"

definition c_dup :: "'s handler \<Rightarrow> u32 \<Rightarrow> emulator \<times> 's \<Rightarrow> (u32 option \<times> emulator \<times> 's) option" where
  "c_dup sysc oldfd s = as_c_int (syscall_1 sysc Dup (scast oldfd) s)"

definition c_dup2 :: "'s handler \<Rightarrow> u32 \<Rightarrow> u32 \<Rightarrow> emulator \<times> 's \<Rightarrow> (u32 option \<times> emulator \<times> 's) option" where
  "c_dup2 sysc oldfd newfd s = as_c_int (syscall_2 sysc Dup2 (scast oldfd) (scast newfd) s)"

definition c_fork :: "'s handler \<Rightarrow> emulator \<times> 's \<Rightarrow> (u32 option \<times> emulator \<times> 's) option" where
  "c_fork sysc s = as_c_int (do_syscall sysc Fork s)"

definition c_waitpid :: "'s handler \<Rightarrow> u32 \<Rightarrow> u64 \<Rightarrow> u32 \<Rightarrow> emulator \<times> 's \<Rightarrow> (u32 option \<times> emulator \<times> 's) option" where
  "c_waitpid sysc child wstatus options s = as_c_int (syscall_3 sysc Waitpid (scast child) wstatus (scast options) s)"

definition c_fexecve :: "'s handler \<Rightarrow> u32 \<Rightarrow> u64 \<Rightarrow> u64 \<Rightarrow> emulator \<times> 's \<Rightarrow> (u32 option \<times> emulator \<times> 's) option" where
  "c_fexecve sysc fd argv envp s = as_c_int (syscall_3 sysc Fexecve (scast fd) argv envp s)"

definition c_execve :: "'s handler \<Rightarrow> u64 \<Rightarrow> u64 \<Rightarrow> u64 \<Rightarrow> emulator \<times> 's \<Rightarrow> (u32 option \<times> emulator \<times> 's) option" where
  "c_execve sysc pathname argv envp s = as_c_int (syscall_3 sysc Execve pathname argv envp s)"

definition c_execvpe :: "'s handler \<Rightarrow> u64 \<Rightarrow> u64 \<Rightarrow> u64 \<Rightarrow> emulator \<times> 's \<Rightarrow> (u32 option \<times> emulator \<times> 's) option" where
  "c_execvpe sysc name argv envp s = as_c_int (syscall_3 sysc Execvpe name argv envp s)"

definition c_pipe :: "'s handler \<Rightarrow> u64 \<Rightarrow> emulator \<times> 's \<Rightarrow> (u32 option \<times> emulator \<times> 's) option" where
  "c_pipe sysc fds s = as_c_int (syscall_1 sysc Pipe fds s)"

text \<open>\<^verbatim>\<open>exit\<close> up to the endless loop behind the system call.\<close>

definition c_exit :: "'s handler \<Rightarrow> u32 \<Rightarrow> emulator \<times> 's \<Rightarrow> (u64 option \<times> emulator \<times> 's) option" where
  "c_exit sysc code s = syscall_1 sysc Exit (scast code) s"

definition read_argc :: "emulator \<Rightarrow> u32 option" where
  "read_argc cpu = map_option ucast (read_reg cpu 10)"

definition read_argv :: "emulator \<Rightarrow> u64 option" where
  "read_argv cpu = read_reg cpu 11"

section \<open>Registers\<close>

lemma regs [simp]:
  assumes "cpu_wf cpu"
  shows "read_reg cpu 10 = Some (registers cpu ! 9)" "read_reg cpu 11 = Some (registers cpu ! 10)"
    "read_reg cpu 12 = Some (registers cpu ! 11)" "read_reg cpu 17 = Some (registers cpu ! 16)"
    "write_reg cpu 10 v = Some (cpu\<lparr>registers := (registers cpu)[9 := v]\<rparr>)"
    "write_reg cpu 11 v = Some (cpu\<lparr>registers := (registers cpu)[10 := v]\<rparr>)"
    "write_reg cpu 12 v = Some (cpu\<lparr>registers := (registers cpu)[11 := v]\<rparr>)"
    "write_reg cpu 17 v = Some (cpu\<lparr>registers := (registers cpu)[16 := v]\<rparr>)"
  using assms by (simp_all add: cpu_wf_def read_reg_def write_reg_def index_def index_set_def)

lemma cpu_wf_registers [simp]: "cpu_wf (cpu\<lparr>registers := (registers cpu)[i := v]\<rparr>) = cpu_wf cpu"
  by (simp add: cpu_wf_def)

lemma exec_elf_wf:
  assumes "exec_elf room bs elf s args envs = Some (ok, cpu', p')"
  shows "cpu_wf cpu'"
  using assms
  by (cases s) (auto simp: exec_elf_def reset_registers_def Let_def assert_that_def write_reg_length [symmetric] cpu_wf_def bind_eq_Some_conv
     dest!: write_reg_length split: option.splits prod.splits if_splits)

text \<open>What holds of every result that is not a panic.\<close>

definition yields :: "('a \<Rightarrow> bool) \<Rightarrow> 'a option \<Rightarrow> bool" where
  "yields Q r = (case r of Some x \<Rightarrow> Q x | None \<Rightarrow> True)"

lemma yields_simps [simp]: "yields Q None" "yields Q (Some x) = Q x"
  by (simp_all add: yields_def)

lemma yieldsD: "yields Q r \<Longrightarrow> r = Some x \<Longrightarrow> Q x"
  by simp

lemma yields_bind: "(\<And>x. m = Some x \<Longrightarrow> yields Q (f x)) \<Longrightarrow> yields Q (m \<bind> f)"
  by (cases m) simp_all

lemma yields_split:
  "(\<And>x. v = Some x \<Longrightarrow> yields Q (f x)) \<Longrightarrow> (v = None \<Longrightarrow> yields Q n) \<Longrightarrow> yields Q (case v of None \<Rightarrow> n | Some x \<Rightarrow> f x)"
  "(b \<Longrightarrow> yields Q r) \<Longrightarrow> (\<not> b \<Longrightarrow> yields Q r') \<Longrightarrow> yields Q (if b then r else r')"
  "(\<And>x y. z = (x, y) \<Longrightarrow> yields Q (h x y)) \<Longrightarrow> yields Q (case z of (x, y) \<Rightarrow> h x y)"
  "(\<And>x. node = File x \<Longrightarrow> yields Q (f1 x)) \<Longrightarrow> (\<And>x. node = Folder x \<Longrightarrow> yields Q (f2 x))
     \<Longrightarrow> yields Q (case node of File x \<Rightarrow> f1 x | Folder x \<Rightarrow> f2 x)"
  by (auto split: option.split prod.split Node.split)

definition result_wf :: "'a \<times> emulator \<times> 's \<Rightarrow> bool" where
  "result_wf r = cpu_wf (fst (snd r))"

lemma result_wf_simp [simp]: "result_wf (x, cpu, s) = cpu_wf cpu" "result_wf (x, s) = cpu_wf (fst s)"
  by (simp_all add: result_wf_def)

lemma exec_wf:
  assumes "cpu_wf (fst s)"
  shows "yields result_wf (exec room dcd dev w s node path args envs depth)"
proof (induction "101 - depth" arbitrary: node path args depth)
  case 0
  then show ?case using assms by (subst exec.simps) simp
next
  case (Suc n)
  then have n: "n = 101 - (depth + 1)" by linarith
  have elf: "yields result_wf (exec_elf room bs elf s args envs)" for bs elf
    using exec_elf_wf [of room bs elf s args envs] by (cases "exec_elf room bs elf s args envs") auto
  show ?case
    by (subst exec.simps, intro yields_bind yields_split elf Suc.hyps(1) [OF n]) (simp_all add: assms)
qed

lemma exec_path_wf:
  assumes "cpu_wf (fst s)"
  shows "yields result_wf (exec_path room dcd dev w s node path argv envp)"
  unfolding exec_path_def by (intro yields_bind yields_split) (use assms exec_wf in auto)

lemma exec_calls_wf:
  assumes "cpu_wf (fst s)"
  shows "yields result_wf (fexecve room dcd dev w s fd argv envp)" "yields result_wf (execve room dcd dev w s name argv envp)"
    "yields result_wf (execvpe room dcd dev w s name argv envp)"
proof -
  show "yields result_wf (fexecve room dcd dev w s fd argv envp)"
    using assms exec_wf [of s] unfolding fexecve_def
    by (auto split: prod.split option.split FdMapping.split intro!: yields_bind)
  show "yields result_wf (execve room dcd dev w s name argv envp)"
    unfolding execve_def by (intro yields_bind yields_split exec_path_wf assms) (simp_all add: assms)
  show "yields result_wf (execvpe room dcd dev w s name argv envp)"
    unfolding execvpe_def by (intro yields_bind yields_split exec_path_wf assms) (simp_all add: assms)
qed

lemma return_wf:
  assumes "cpu_wf (fst s)"
  shows "yields result_wf (return_value val s)" "yields result_wf (return_or_repeat v s)" "yields result_wf (exec_return ok s)"
  using assms by (auto simp: return_value_def return_or_repeat_def exec_return_def split: option.split)

lemma run_syscall_wf:
  assumes "cpu_wf cpu"
  shows "yields result_wf (run_syscall room dcd dev number a1 a2 a3 cpu g p)"
proof -
  have "cpu_wf (fst (kernel_back g cpu k))" for k using assms by (simp add: kernel_back_def)
  note r = return_wf [OF this] return_wf
  have s: "cpu_wf (fst (cpu, p))" using assms by simp
  show ?thesis
    by (cases number)
      (use assms in \<open>auto simp: run_syscall_def split_beta intro!: yields_bind r dest: yieldsD [OF exec_calls_wf(1) [OF s]]
         yieldsD [OF exec_calls_wf(2) [OF s]] yieldsD [OF exec_calls_wf(3) [OF s]]\<close>)
qed


section \<open>A system call in the turn of a process\<close>

text \<open>The next instruction of a process is a system call with number \<open>number\<close>, and \<open>pc\<close> is the one behind it.\<close>

definition at_syscall :: "SyscallNumber \<Rightarrow> u64 \<Rightarrow> emulator \<Rightarrow> bool" where
  "at_syscall number pc cpu \<longleftrightarrow> cpu_wf cpu \<and> try_from (registers cpu ! 16) = Some number \<and>
     (\<exists>w i. read_u32_le vm_ops (memory cpu) (program_counter cpu) = Some w \<and> fetch_decode w = Some i \<and> is_ecall i
        \<and> next_pc (inst_len w) (program_counter cpu) = Some pc)"

abbreviation syscall_of ::
  "(u64 \<Rightarrow> bool) \<Rightarrow> decoder \<Rightarrow> ('w, 'f, 'd, 'b, 'h) devices \<Rightarrow> SyscallNumber
     \<Rightarrow> (emulator, ('f, 'd) Node, 'w, 'b, 'h) system \<Rightarrow> (emulator, ('f, 'd) Node) Process
     \<Rightarrow> (CpuAction \<times> emulator \<times> (emulator, ('f, 'd) Node, 'w, 'b, 'h) system \<times> ('f, 'd) Node ProcessData) option" where
  "syscall_of room dcd dev number g process \<equiv>
     run_syscall room dcd dev number (registers (emu process) ! 9) (registers (emu process) ! 10) (registers (emu process) ! 11)
       (emu process) g (data process)"

lemma Process_tick_syscall:
  assumes ps: "packed_struct_crate ps" and at: "at_syscall number pc (emu process)"
  shows "syscall_of room dcd dev number g process = Some (NONE, cpu', g', p') \<Longrightarrow> program_counter cpu' = program_counter (emu process)
      \<Longrightarrow> Process_tick ps room dcd dev g process = Some (Some (), g', \<lparr>emu = cpu'\<lparr>program_counter := pc\<rparr>, data = p'\<rparr>)"
    and "syscall_of room dcd dev number g process = Some (REPEAT_INSTRUCTION, cpu', g', p')
      \<Longrightarrow> Process_tick ps room dcd dev g process = Some (Some (), g', \<lparr>emu = cpu', data = p'\<rparr>)"
proof -
  obtain w i where w: "read_u32_le vm_ops (memory (emu process)) (program_counter (emu process)) = Some w"
      "fetch_decode w = Some i" "is_ecall i" "next_pc (inst_len w) (program_counter (emu process)) = Some pc"
    and wf: "cpu_wf (emu process)" "try_from (registers (emu process) ! 16) = Some number"
    using at by (auto simp: at_syscall_def)
  have "syscall_entry_point room dcd dev (emu process) (g, data process) = syscall_of room dcd dev number g process"
    using wf by (simp add: syscall_entry_point_def)
  note t = packed_struct_crate.tick_sysc [OF ps w(1-3), of "syscall_entry_point room dcd dev" "(g, data process)", unfolded this]
  show "Process_tick ps room dcd dev g process = Some (Some (), g', \<lparr>emu = cpu'\<lparr>program_counter := pc\<rparr>, data = p'\<rparr>)"
    if "syscall_of room dcd dev number g process = Some (NONE, cpu', g', p')" "program_counter cpu' = program_counter (emu process)"
    using t that w(4) by (simp add: Process_tick_def finish_def checked_add_next_pc)
  show "Process_tick ps room dcd dev g process = Some (Some (), g', \<lparr>emu = cpu', data = p'\<rparr>)"
    if "syscall_of room dcd dev number g process = Some (REPEAT_INSTRUCTION, cpu', g', p')"
    using t that by (simp add: Process_tick_def finish_def)
qed

lemma run_task_tick:
  assumes "lookup_slot l i = Some p" "ptick g p = Some (Some (), g', p')"
  shows "run_task ptick l g i = Some (l[i := Some p'] @ rev (NEW_TASK_LIST g'),
    g'\<lparr>NEW_TASK_LIST := [], NUMBER_OF_TASKS := length l + length (NEW_TASK_LIST g')\<rparr>)"
  using assms by (simp add: run_task_def unwrap_at_eq move_new_tasks_into_list_def Let_def)

section \<open>Fork returns twice\<close>

definition forked :: "nat \<Rightarrow> (emulator, 'n) Process \<Rightarrow> (emulator, 'n) Process" where
  "forked child_pid parent = \<lparr>emu = emu parent, data = (data parent)\<lparr>parent_pid := pid (data parent),
     state := RUNNING_NEW_CHILD_JUST_FORKED, pid := Some child_pid\<rparr>\<rparr>"

text \<open>A process behind a system call that returned \<open>val\<close>.\<close>

definition returned :: "u64 \<Rightarrow> u64 \<Rightarrow> (emulator, 'n) Process \<Rightarrow> (emulator, 'n) Process" where
  "returned val pc p = p\<lparr>emu := (emu p)\<lparr>registers := (registers (emu p))[9 := val], program_counter := pc\<rparr>\<rparr>"

lemma data_returned [simp]: "data (returned val pc p) = data p"
  by (simp add: returned_def)

lemma fork_parent:
  assumes "packed_struct_crate ps" "at_syscall Fork pc (emu parent)" "state (data parent) = RUNNING"
    and refs: "fork_refs (fd_mappings (data parent)) (PIPES g) = Some pipes" and fresh: "NEW_TASK_LIST g = []" "NUMBER_OF_TASKS g = n"
  shows "Process_tick ps room dcd dev g parent = Some (Some (),
    g\<lparr>PIPES := pipes, NEW_TASK_LIST := [Some (forked (Suc n) parent)], SIGNAL_QUEUES := SIGNAL_QUEUES g @ [Some []], NUMBER_OF_TASKS := Suc n\<rparr>,
    returned (of_nat (Suc n)) pc parent)"
proof -
  have "cpu_wf (emu parent)" using assms(2) by (simp add: at_syscall_def)
  then have "syscall_of room dcd dev Fork g parent = Some (NONE, (emu parent)\<lparr>registers := (registers (emu parent))[9 := of_nat (Suc n)]\<rparr>,
      g\<lparr>PIPES := pipes, NEW_TASK_LIST := [Some (forked (Suc n) parent)], SIGNAL_QUEUES := SIGNAL_QUEUES g @ [Some []], NUMBER_OF_TASKS := Suc n\<rparr>,
      data parent)"
    using assms(3) refs fresh
    by (simp add: run_syscall_def fork_def new_task_def forked_def return_value_def Let_def del: of_nat_Suc)
  from Process_tick_syscall(1) [OF assms(1,2) this] show ?thesis
    by (cases parent) (simp add: returned_def del: of_nat_Suc)
qed

lemma fork_child:
  assumes "packed_struct_crate ps" "at_syscall Fork pc (emu child)" "state (data child) = RUNNING_NEW_CHILD_JUST_FORKED"
  shows "Process_tick ps room dcd dev g child = Some (Some (), g, returned 0 pc (child\<lparr>data := (data child)\<lparr>state := RUNNING\<rparr>\<rparr>))"
proof -
  have "cpu_wf (emu child)" using assms(2) by (simp add: at_syscall_def)
  then have "syscall_of room dcd dev Fork g child = Some (NONE, (emu child)\<lparr>registers := (registers (emu child))[9 := 0]\<rparr>,
      g, (data child)\<lparr>state := RUNNING\<rparr>)"
    using assms(3) by (simp add: run_syscall_def fork_def return_value_def)
  from Process_tick_syscall(1) [OF assms(1,2) this] show ?thesis by (cases child) (simp add: returned_def)
qed

lemma lookup_snoc: "lookup_slot (l @ [slot]) j = (if j = length l then slot else lookup_slot l j)"
  by (auto simp: lookup_slot_def nth_append)

lemma waits_ok_snoc:
  assumes "waits_ok l d" and "parent_pid (data child) \<noteq> None"
  shows "waits_ok (l @ [Some child]) d"
proof -
  have "\<forall>q. lookup_slot (l @ [Some child]) j = Some q \<longrightarrow> parent_pid (data q) \<noteq> None"
    if "\<forall>q. lookup_slot l j = Some q \<longrightarrow> parent_pid (data q) \<noteq> None" for j
    using that assms(2) by (simp add: lookup_snoc)
  then show ?thesis using assms(1) by (auto simp: waits_ok_def split: ProcessState.splits option.splits)
qed

lemma sched_ok_emu:
  assumes ok: "sched_ok l g" and p: "lookup_slot l i = Some p" and q: "data q = data p"
  shows "sched_ok (l[i := Some q]) g"
proof -
  have i: "i < length l" "l ! i = Some p" using p by (simp_all add: lookup_slot_eq_Some)
  have refs: "total_refs (l[i := Some q]) = total_refs l"
    using total_refs_update [OF i(1), of "Some q"] i(2) q by (auto simp: fun_eq_iff)
  have look: "lookup_slot (l[i := Some q]) j = (if j = i then Some q else lookup_slot l j)" for j using i by simp
  have "l \<noteq> []" using i by auto
  then have "trimmed (l[i := Some q])" using ok by (simp add: sched_ok_def tasks_sync_def trimmed_def last_list_update)
  moreover have "task_ok (l[i := Some q]) r" if "lookup_slot (l[i := Some q]) j = Some r" for j r
  proof -
    have "\<exists>r0. lookup_slot l j = Some r0 \<and> data r = data r0"
      using that p q unfolding look by (cases "j = i") auto
    then obtain r0 where "lookup_slot l j = Some r0" "data r = data r0" by blast
    then show ?thesis using ok waits_ok_set [OF p, of q] q by (auto simp: sched_ok_def task_ok_def)
  qed
  ultimately show ?thesis using ok p by (auto simp: sched_ok_def tasks_sync_def look refs)
qed

lemma sched_ok_new_child:
  assumes ok: "sched_ok l g" and p: "lookup_slot l i = Some p"
    and pipes: "pipes_ok (\<lambda>m. total_refs l m + fd_refs (data p) m) pipes"
  shows "sched_ok (l @ [Some (forked (Suc n) p)])
    (g\<lparr>PIPES := pipes, NEW_TASK_LIST := [], SIGNAL_QUEUES := SIGNAL_QUEUES g @ [Some []], NUMBER_OF_TASKS := k\<rparr>)"
proof -
  let ?c = "forked (Suc n) p"
  have t: "task_ok l p" using ok p by (simp add: sched_ok_def)
  have refs: "total_refs (l @ [Some ?c]) = (\<lambda>m. total_refs l m + fd_refs (data p) m)"
    by (simp add: total_refs_def forked_def fd_refs_def fun_eq_iff)
  have parent: "parent_pid (data ?c) \<noteq> None" using t by (simp add: forked_def task_ok_def)
  have "task_ok l ?c" using t by (simp add: forked_def task_ok_def waits_ok_def fd_refs_def)
  then have "task_ok (l @ [Some ?c]) r" if "lookup_slot (l @ [Some ?c]) j = Some r" for j r
    using that ok parent by (auto simp: lookup_snoc sched_ok_def task_ok_def waits_ok_snoc split: if_splits)
  moreover have "tasks_sync (l @ [Some ?c]) (g\<lparr>PIPES := pipes, NEW_TASK_LIST := [], SIGNAL_QUEUES := SIGNAL_QUEUES g @ [Some []], NUMBER_OF_TASKS := k\<rparr>)"
    using ok by (auto simp: sched_ok_def tasks_sync_def lookup_snoc trimmed_def)
  ultimately show ?thesis using pipes by (simp add: sched_ok_def refs)
qed

text \<open>
  (C5) \<^verbatim>\<open>fork\<close> returns twice. The turn of a running process at the system call \<^verbatim>\<open>fork\<close> never panics, appends a
  task to the list and moves on with the process number of the new task in \<^verbatim>\<open>a0\<close>. The new task has the
  same registers, memory, descriptors and open files and the process as its parent; its own first turn
  executes the same system call again, returns 0 and creates nothing. The scheduler's invariant, with
  the counts of the pipe ends, holds after both turns.
\<close>

theorem fork_returns_twice:
  assumes ps: "packed_struct_crate ps"
    and ok: "sched_ok l g" "NUMBER_OF_TASKS g = length l" "lookup_slot l i = Some parent"
    and at: "at_syscall Fork pc (emu parent)" "state (data parent) = RUNNING"
    and room: "\<forall>m. total_refs l m + fd_refs (data parent) m < 2 ^ 64"
  shows "\<exists>g1 g2. let child = forked (Suc (length l)) parent;
      l1 = l[i := Some (returned (of_nat (Suc (length l))) pc parent)] @ [Some child];
      l2 = l1[length l := Some (returned 0 pc (child\<lparr>data := (data child)\<lparr>state := RUNNING\<rparr>\<rparr>))] in
    run_task (Process_tick ps mem dcd dev) l g i = Some (l1, g1) \<and> sched_ok l1 g1
    \<and> run_task (Process_tick ps mem dcd dev) l1 g1 (length l) = Some (l2, g2) \<and> sched_ok l2 g2"
proof -
  let ?child = "forked (Suc (length l)) parent" and ?p = "returned (of_nat (Suc (length l))) pc parent"
  let ?c = "returned 0 pc (?child\<lparr>data := (data ?child)\<lparr>state := RUNNING\<rparr>\<rparr>)"
  let ?l0 = "l[i := Some ?p]"
  have i: "i < length l" "l ! i = Some parent" using ok(3) by (simp_all add: lookup_slot_eq_Some)
  have le: "fd_refs (data parent) m \<le> total_refs l m" for m using total_refs_update [OF i(1), of None m] i(2) by simp
  have room': "total_refs l m - fd_refs (data parent) m + 2 * fd_refs (data parent) m < 2 ^ 64" for m
    using spec [OF room, of m] le [of m] by linarith
  have same: "data ?p = data parent" by simp
  obtain pipes where refs: "fork_refs (fd_mappings (data parent)) (PIPES g) = Some pipes"
    and f: "fd_inv (\<lambda>m. total_refs l m - fd_refs (data parent) m + fd_refs (data parent) m) pipes (data parent)"
    using fork_refs_correct [OF fd_inv_task [OF ok(1,3)] room'] by blast
  have refs_p: "total_refs ?l0 = total_refs l"
    using total_refs_update [OF i(1), of "Some ?p"] i(2) same by (simp add: fun_eq_iff)
  have pipes: "pipes_ok (\<lambda>m. total_refs ?l0 m + fd_refs (data parent) m) pipes"
    using f le refs_p by (simp add: fd_inv_def)
  note okp = sched_ok_emu [OF ok(1,3) same]
  have fresh: "NEW_TASK_LIST g = []" using ok(1) by (simp add: sched_ok_def tasks_sync_def)
  define g1 where "g1 = g\<lparr>PIPES := pipes, NEW_TASK_LIST := [], SIGNAL_QUEUES := SIGNAL_QUEUES g @ [Some []], NUMBER_OF_TASKS := Suc (length l)\<rparr>"
  have r1: "run_task (Process_tick ps mem dcd dev) l g i = Some (?l0 @ [Some ?child], g1)"
    using run_task_tick [where ptick = "Process_tick ps mem dcd dev", OF ok(3) fork_parent [OF ps at refs fresh ok(2)]] by (simp add: g1_def del: of_nat_Suc)
  have at': "lookup_slot ?l0 i = Some ?p" using i by simp
  have s0: "sched_ok (?l0 @ [Some (forked (Suc (length l)) ?p)]) g1"
    unfolding g1_def by (rule sched_ok_new_child [OF okp at']) (use pipes same in simp)
  have "lookup_slot (?l0 @ [Some (forked (Suc (length l)) ?p)]) (length l) = Some (forked (Suc (length l)) ?p)"
    by (simp add: lookup_snoc)
  from sched_ok_emu [OF s0 this, of ?child] have s1: "sched_ok (?l0 @ [Some ?child]) g1"
    by (simp add: forked_def list_update_append)
  have lc: "lookup_slot (?l0 @ [Some ?child]) (length l) = Some ?child" by (simp add: lookup_snoc)
  have "Process_tick ps mem dcd dev g1 ?child = Some (Some (), g1, ?c)"
    by (rule fork_child [OF ps]) (use at in \<open>simp_all add: forked_def\<close>)
  note r2 = run_task_tick [where ptick = "Process_tick ps mem dcd dev", OF lc this]
  let ?r = "?child\<lparr>data := (data ?child)\<lparr>state := RUNNING\<rparr>\<rparr>" and ?l1 = "?l0 @ [Some ?child]"
  have "same_but_state ?child ?r" by (auto simp: same_but_state_def)
  then have "sched_ok (?l1[length l := Some ?r]) g1" by (rule sched_ok_set_state [OF s1 lc]) (simp add: waits_ok_simple)
  from sched_ok_emu [OF this, of "length l" ?r ?c] have s2: "sched_ok (?l1[length l := Some ?c]) g1"
    by (simp add: returned_def lookup_snoc)
  have "run_task (Process_tick ps mem dcd dev) ?l1 g1 (length l) = Some (?l1[length l := Some ?c], g1)"
    using r2 by (simp add: g1_def)
  then show ?thesis unfolding Let_def using r1 s1 s2 by blast
qed

section \<open>Waiting for a child\<close>

lemma wait_turn_blocks:
  assumes "packed_struct_crate ps" "at_syscall Waitpid pc (emu p)" "state (data p) = RUNNING"
    and "registers (emu p) ! 9 = child" "0 <s child"
  shows "Process_tick ps room dcd dev g p = Some (Some (), g, p\<lparr>data := (data p)\<lparr>state := WAITING_FOR_CHILD_PROCESS (Some (unat child))\<rparr>\<rparr>)"
proof -
  have "child \<noteq> - 1" using assms(5) by (auto simp: word_sless_alt)
  then have "syscall_of room dcd dev Waitpid g p
      = Some (REPEAT_INSTRUCTION, emu p, g, (data p)\<lparr>state := WAITING_FOR_CHILD_PROCESS (Some (unat child))\<rparr>)"
    using assms(3-5) by (simp add: run_syscall_def waitpid_def return_or_repeat_def)
  from Process_tick_syscall(2) [OF assms(1,2) this] show ?thesis by (cases p) simp
qed

lemma wait_turn_returns:
  assumes "packed_struct_crate ps" "at_syscall Waitpid pc (emu p)"
    and st: "state (data p) = FINISHED_WAITING_FOR_CHILD_PROCESS (Some info)"
    and buf: "vm_inv (memory (emu p))" "user_slice (memory (emu p)) (registers (emu p) ! 10) 8 = Some (Some old)"
  obtains m where
    "Process_tick ps room dcd dev g p = Some (Some (), g,
       returned (of_nat (wait_cpid info)) pc (p\<lparr>emu := (emu p)\<lparr>memory := m\<rparr>, data := (data p)\<lparr>state := RUNNING\<rparr>\<rparr>))"
    "load_slice m (registers (emu p) ! 10) 8 = Some (to_le_bytes (wait_status (wait_action info)))"
    "\<And>x. 8 \<le> unat (x - registers (emu p) ! 10) \<Longrightarrow> vm_byte m x = vm_byte (memory (emu p)) x"
proof -
  let ?ptr = "registers (emu p) ! 10" and ?bytes = "to_le_bytes (wait_status (wait_action info))"
  have len: "length ?bytes = 8" by simp
  then have ne: "?bytes \<noteq> []" by (metis list.size(3) zero_neq_numeral)
  obtain m where m: "store_slice (memory (emu p)) ?ptr ?bytes = Some m"
    using store_slice_fits [of _ ?ptr ?bytes] buf(2) len ne by auto
  have u: "user_store (memory (emu p)) ?ptr ?bytes = Some (Some (), m)" using buf(2) m len by (simp add: user_store_def)
  note b = store_slice_bytes [OF buf(1) m ne]
  have "cpu_wf ((emu p)\<lparr>memory := m\<rparr>)" using assms(2) by (simp add: at_syscall_def)
  then have "syscall_of room dcd dev Waitpid g p = Some (NONE,
      (emu p)\<lparr>memory := m, registers := (registers (emu p))[9 := of_nat (wait_cpid info)]\<rparr>, g, (data p)\<lparr>state := RUNNING\<rparr>)"
    using st u by (simp add: run_syscall_def waitpid_def return_or_repeat_def return_value_def Let_def)
  from Process_tick_syscall(1) [OF assms(1,2) this] show ?thesis
    using that [of m] b(2,3) len by (cases p) (auto simp: returned_def)
qed


section \<open>Calls of the C library\<close>

lemma try_from_discriminant: "number \<noteq> MaxValue \<Longrightarrow> try_from (discriminant number) = Some number"
  by (cases number) (simp_all add: try_from_def syscall_numbers_def word_le_nat_alt)

lemma try_from_Some:
  assumes "try_from v = Some number"
  shows "discriminant number = v" "number \<noteq> MaxValue"
proof -
  have v: "unat v < 20" "number = syscall_numbers ! unat v"
    using assms by (auto simp: try_from_def word_le_nat_alt split: if_splits)
  have "\<forall>k < 20. discriminant (syscall_numbers ! k) = of_nat k \<and> syscall_numbers ! k \<noteq> MaxValue"
    by (simp add: syscall_numbers_def All_less_Suc eval_nat_numeral)
  then show "discriminant number = v" "number \<noteq> MaxValue" using v by simp_all
qed

text \<open>
  The numbers of the C library and those of the kernel agree: \<^verbatim>\<open>try_from\<close> decodes exactly the values of
  the \<^verbatim>\<open>enum\<close> below \<^verbatim>\<open>MaxValue\<close>, each to the number it is the value of.
\<close>

theorem syscall_numbers_round_trip:
  "try_from v = Some number \<longleftrightarrow> number \<noteq> MaxValue \<and> v = discriminant number"
  using try_from_discriminant try_from_Some by metis

lemma syscall_returns:
  assumes "cpu_wf cpu" "number \<noteq> MaxValue" "cpu_wf cpu'"
    and "run_syscall room dcd dev number (registers cpu ! 9) (registers cpu ! 10) (registers cpu ! 11)
      (cpu\<lparr>registers := (registers cpu)[16 := discriminant number]\<rparr>) g p = return_value val (cpu', s')"
  shows "do_syscall (syscall_entry_point room dcd dev) number (cpu, g, p)
    = Some (Some val, cpu'\<lparr>registers := (registers cpu')[9 := val]\<rparr>, s')"
proof -
  have "length (registers cpu) = 31" "length (registers cpu') = 31" using assms(1,3) by (simp_all add: cpu_wf_def)
  then show ?thesis
    using assms by (simp add: do_syscall_def syscall_entry_point_def try_from_discriminant return_value_def read_syscall_return_def)
qed

lemma trimmed_lookup_eq:
  assumes "trimmed xs" "trimmed ys" "lookup_slot xs = lookup_slot ys"
  shows "xs = ys"
proof (rule nth_equalityI)
  show len: "length xs = length ys" using same_length_trimmed [OF assms(1,2)] assms(3) by simp
  show "xs ! i = ys ! i" if "i < length xs" for i
    using fun_cong [OF assms(3), of i] that len by (simp add: lookup_slot_def)
qed

lemma place_clear:
  assumes "trimmed xs" "place xs v = (i, ys)"
  shows "drain_none (ys[i := None]) = xs"
proof -
  have "lookup_slot (clear_slot ys i) = lookup_slot xs" using slots.insert_then_remove [of xs v] assms(2) by simp
  then show ?thesis using trimmed_lookup_eq [OF trimmed_clear_slot assms(1)] by (simp add: clear_slot_def)
qed

lemma scast_c_int: "sint (x :: u32) = int n \<Longrightarrow> scast x = (of_nat n :: u64)"
  by (simp add: scast_eq)

lemma c_int_fd:
  assumes "fd < 2 ^ 31"
  shows "scast (ucast (of_nat fd :: u64) :: u32) = (of_nat fd :: u64)" "\<not> (ucast (of_nat fd :: u64) :: u32) <s 0"
    "unat (of_nat fd :: u64) = fd"
proof -
  have u: "ucast (of_nat fd :: u64) = (of_nat fd :: u32)" using assms by (simp add: unsigned_of_nat take_bit_nat_eq_self)
  have s: "sint (of_nat fd :: u32) = int fd" using assms by (simp add: signed_of_nat signed_take_bit_int_eq_self)
  show "scast (ucast (of_nat fd :: u64) :: u32) = (of_nat fd :: u64)" unfolding u by (rule scast_c_int [OF s])
  show "\<not> (ucast (of_nat fd :: u64) :: u32) <s 0" unfolding u by (simp add: word_sless_alt s)
  show "unat (of_nat fd :: u64) = fd" using assms by (simp add: unsigned_of_nat take_bit_nat_eq_self)
qed

lemma kernel_back_view:
  "kernel_back g cpu (kernel_view g cpu p) = (cpu, g, p)"
  "kernel_back g cpu ((kernel_view g cpu p)\<lparr>world := w, process_data := p'\<rparr>) = (cpu, g\<lparr>device_world := w\<rparr>, p')"
  by (simp_all add: kernel_back_def kernel_view_def)

lemma syscall_1_returns:
  assumes wf: "cpu_wf cpu" "number \<noteq> MaxValue"
    and run: "\<And>rs a2 a3. run_syscall room dcd dev number x1 a2 a3 (cpu\<lparr>registers := rs\<rparr>) g p = return_value val (cpu\<lparr>registers := rs\<rparr>, s')"
  obtains rs where "length rs = 31"
    "syscall_1 (syscall_entry_point room dcd dev) number x1 (cpu, g, p) = Some (Some val, cpu\<lparr>registers := rs\<rparr>, s')"
proof -
  have len: "length (registers cpu) = 31" using wf by (simp add: cpu_wf_def)
  let ?c = "cpu\<lparr>registers := (registers cpu)[9 := x1]\<rparr>"
  let ?d = "cpu\<lparr>registers := (registers cpu)[9 := x1, 16 := discriminant number]\<rparr>"
  have "do_syscall (syscall_entry_point room dcd dev) number (?c, g, p) = Some (Some val, ?d\<lparr>registers := (registers ?d)[9 := val]\<rparr>, s')"
    by (intro syscall_returns) (use wf len run in \<open>simp_all add: cpu_wf_def\<close>)
  then show ?thesis using that [of "(registers cpu)[9 := x1, 16 := discriminant number, 9 := val]"] wf len
    by (simp add: syscall_1_def load_syscall_argument_1_def)
qed

lemma syscall_2_returns:
  assumes wf: "cpu_wf cpu" "number \<noteq> MaxValue"
    and run: "\<And>rs a3. run_syscall room dcd dev number x1 x2 a3 (cpu\<lparr>registers := rs\<rparr>) g p = return_value val (cpu\<lparr>registers := rs\<rparr>, s')"
  obtains rs where "length rs = 31"
    "syscall_2 (syscall_entry_point room dcd dev) number x1 x2 (cpu, g, p) = Some (Some val, cpu\<lparr>registers := rs\<rparr>, s')"
proof -
  have len: "length (registers cpu) = 31" using wf by (simp add: cpu_wf_def)
  let ?c = "cpu\<lparr>registers := (registers cpu)[9 := x1, 10 := x2]\<rparr>"
  let ?d = "cpu\<lparr>registers := (registers cpu)[9 := x1, 10 := x2, 16 := discriminant number]\<rparr>"
  have "do_syscall (syscall_entry_point room dcd dev) number (?c, g, p) = Some (Some val, ?d\<lparr>registers := (registers ?d)[9 := val]\<rparr>, s')"
    by (intro syscall_returns) (use wf len run in \<open>simp_all add: cpu_wf_def\<close>)
  moreover have "cpu_wf (cpu\<lparr>registers := (registers cpu)[9 := x1]\<rparr>)" using wf by simp
  ultimately show ?thesis using that [of "(registers cpu)[9 := x1, 10 := x2, 16 := discriminant number, 9 := val]"] wf len
    by (simp add: syscall_2_def load_syscall_argument_1_def load_syscall_argument_2_def)
qed

text \<open>
  (C24) \<^verbatim>\<open>chdir\<close> of the C library, its three system calls together: when the path can be opened, the call returns
  0, the canonical path is the new working directory, and the descriptor that was opened on the way
  is gone again: descriptors, open files, pipes and memory are what they were.
\<close>

theorem c_chdir_correct:
  assumes wf: "cpu_wf cpu" and path: "cstr_user_pointer_to_str (memory cpu) ptr = Some (Some str)"
      "open_path (cwd p) (text_of str) = Some path" "find_or_create dev (device_world g) path O_RDONLY = Some (Some node, w)"
    and tables: "trimmed (fd_mappings p)" "trimmed (open_nodes p)" "length (fd_mappings p) < 2 ^ 31"
  shows "\<exists>rs. length rs = 31 \<and> c_chdir (syscall_entry_point room dcd dev) ptr (cpu, g, p)
    = Some (0, cpu\<lparr>registers := rs\<rparr>, g\<lparr>device_world := w\<rparr>, p\<lparr>cwd := path\<rparr>)"
proof -
  let ?S = "syscall_entry_point room dcd dev" and ?n = "\<lparr>vfs_node = node, cursor = 0, node_flags = O_RDONLY, node_path = path, reference_count = 1\<rparr>"
  obtain i nodes where i: "place (open_nodes p) ?n = (i, nodes)" by fastforce
  obtain fd fds where fd: "place (fd_mappings p) (Regular i) = (fd, fds)" by fastforce
  let ?p = "p\<lparr>open_nodes := nodes, fd_mappings := fds\<rparr>" and ?g = "g\<lparr>device_world := w\<rparr>"
  have fl: "scast (ucast O_RDONLY :: u32) = O_RDONLY" by (simp add: O_RDONLY_def)
  have "\<not> length (fd_mappings p) < fd" using slots.insert_lowest [of "length (fd_mappings p)" "fd_mappings p" "Regular i"] fd
    by (auto simp: lookup_slot_def)
  then have small: "fd < 2 ^ 31" using tables(3) by simp
  have at: "lookup_slot fds fd = Some (Regular i)" "lookup_slot nodes i = Some ?n"
    using slots.lookup_insert [of "fd_mappings p" "Regular i"] slots.lookup_insert [of "open_nodes p" ?n] i fd by simp_all
  note c = c_int_fd [OF small]
  have view: "kernel_view g (cpu\<lparr>registers := rs\<rparr>) p = kernel_view g cpu p" for rs by (simp add: kernel_view_def)
  have "open_file dev (kernel_view g cpu p) ptr O_RDONLY
      = Some (of_nat fd, (kernel_view g cpu p)\<lparr>world := w, process_data := ?p\<rparr>)"
    using path i fd by (simp add: open_file_def install_node_def kernel_view_def)
  then have "run_syscall room dcd dev Open ptr O_RDONLY a3 (cpu\<lparr>registers := rs\<rparr>) g p = return_value (of_nat fd) (cpu\<lparr>registers := rs\<rparr>, ?g, ?p)" for rs a3
    by (simp add: run_syscall_def kernel_back_def kernel_view_def)
  then obtain r1 where len1: "length r1 = 31" and s1: "syscall_2 ?S Open ptr O_RDONLY (cpu, g, p) = Some (Some (of_nat fd), cpu\<lparr>registers := r1\<rparr>, ?g, ?p)"
    using syscall_2_returns [OF wf, of Open room dcd dev ptr O_RDONLY g p "of_nat fd" "(?g, ?p)"] by blast
  have wf1: "cpu_wf (cpu\<lparr>registers := r1\<rparr>)" using len1 by (simp add: cpu_wf_def)
  have "run_syscall room dcd dev Fchdir (of_nat fd) a2 a3 (cpu\<lparr>registers := rs\<rparr>) ?g ?p
      = return_value 0 (cpu\<lparr>registers := rs\<rparr>, ?g, ?p\<lparr>cwd := path\<rparr>)" for rs a2 a3
    using at c(3) by (simp add: run_syscall_def fchdir_def unwrap_at_eq)
  then obtain r2 where len2: "length r2 = 31" and s2: "syscall_1 ?S Fchdir (of_nat fd) (cpu\<lparr>registers := r1\<rparr>, ?g, ?p) = Some (Some 0, cpu\<lparr>registers := r2\<rparr>, ?g, ?p\<lparr>cwd := path\<rparr>)"
    using syscall_1_returns [OF wf1, of Fchdir room dcd dev "of_nat fd" ?g ?p 0 "(?g, ?p\<lparr>cwd := path\<rparr>)", simplified] by blast
  have wf2: "cpu_wf (cpu\<lparr>registers := r2\<rparr>)" using len2 by (simp add: cpu_wf_def)
  have "close (PIPES g) (?p\<lparr>cwd := path\<rparr>) fd = Some (0, PIPES g, p\<lparr>cwd := path\<rparr>)"
    using at place_clear [OF tables(1) fd] place_clear [OF tables(2) i]
    by (simp add: close_def close_node_def unwrap_at_eq index_set_def lookup_slot_length)
  then have "run_syscall room dcd dev Close (of_nat fd) a2 a3 (cpu\<lparr>registers := rs\<rparr>) ?g (?p\<lparr>cwd := path\<rparr>)
      = return_value 0 (cpu\<lparr>registers := rs\<rparr>, ?g, p\<lparr>cwd := path\<rparr>)" for rs a2 a3
    using c(3) by (simp add: run_syscall_def)
  then obtain r3 where len3: "length r3 = 31" and s3: "syscall_1 ?S Close (of_nat fd) (cpu\<lparr>registers := r2\<rparr>, ?g, ?p\<lparr>cwd := path\<rparr>) = Some (Some 0, cpu\<lparr>registers := r3\<rparr>, ?g, p\<lparr>cwd := path\<rparr>)"
    using syscall_1_returns [OF wf2, of Close room dcd dev "of_nat fd" ?g "?p\<lparr>cwd := path\<rparr>" 0 "(?g, p\<lparr>cwd := path\<rparr>)", simplified] by blast
  have "c_chdir ?S ptr (cpu, g, p) = Some (0, cpu\<lparr>registers := r3\<rparr>, ?g, p\<lparr>cwd := path\<rparr>)"
    using s1 s2 s3 c(1,2) by (simp add: c_chdir_def c_open_def c_fchdir_def c_close_def as_c_int_def fl)
  with len3 show ?thesis by blast
qed

text \<open>
  \<^verbatim>\<open>realloc\<close> of the C library loads the new size into the register of the third argument, but the kernel
  reads it from the register of the second: the size that counts is whatever the caller has left
  there, and the parameter of the function has no influence on the result.
\<close>

theorem c_realloc_ignores_size:
  assumes wf: "cpu_wf cpu" and run: "realloc room (memory cpu, p) ptr (registers cpu ! 10) = Some (val, m, p')"
  shows "c_realloc (syscall_entry_point room dcd dev) ptr new_size (cpu, g, p)
    = Some (Some val, cpu\<lparr>memory := m, registers := (registers cpu)[9 := ptr, 11 := new_size, 16 := 8, 9 := val]\<rparr>, g, p')"
proof -
  let ?c = "cpu\<lparr>registers := (registers cpu)[9 := ptr, 11 := new_size]\<rparr>"
  let ?d = "cpu\<lparr>registers := (registers cpu)[9 := ptr, 11 := new_size, 16 := discriminant Realloc], memory := m\<rparr>"
  have len: "length (registers cpu) = 31" using wf by (simp add: cpu_wf_def)
  then have "do_syscall (syscall_entry_point room dcd dev) Realloc (?c, g, p) = Some (Some val, ?d\<lparr>registers := (registers ?d)[9 := val]\<rparr>, g, p')"
    by (intro syscall_returns) (use run in \<open>simp_all add: run_syscall_def cpu_wf_def\<close>)
  moreover have "cpu_wf (cpu\<lparr>registers := (registers cpu)[9 := ptr]\<rparr>)" using wf by simp
  ultimately show ?thesis
    using wf by (cases cpu) (simp add: c_realloc_def load_syscall_argument_1_def load_syscall_argument_3_def)
qed

section \<open>A process at a system call\<close>

text \<open>The instruction \<^verbatim>\<open>ECALL\<close>, the string \<^verbatim>\<open>/a\<close> and twelve bytes more.\<close>

definition call_cpu :: "u64 \<Rightarrow> u64 \<Rightarrow> u64 \<Rightarrow> emulator" where
  "call_cpu number a0 a1 = (demo_cpu ([0x73, 0, 0, 0, 0x2F, 0x61, 0, 0] @ replicate 8 0))
     \<lparr>registers := (replicate 31 0)[16 := number, 9 := a0, 10 := a1]\<rparr>"

definition call_task :: "emulator \<Rightarrow> ProcessState \<Rightarrow> nat \<Rightarrow> nat option \<Rightarrow> (emulator, (unit, unit) Node) Process" where
  "call_task cpu s k parent = \<lparr>emu = cpu, data = (ProcessData_new ''/'' Map.empty (alloc_from 0x2000 0x100 True))
     \<lparr>state := s, pid := Some k, parent_pid := parent, fd_mappings := []\<rparr>\<rparr>"

definition call_system :: "nat \<Rightarrow> (emulator, (unit, unit) Node, u8 list, unit, u8 list) system" where
  "call_system n = \<lparr>NEW_TASK_LIST = [], NUMBER_OF_TASKS = n, PIPES = [], SIGNAL_QUEUES = replicate n (Some []),
     device_world = [1, 2, 3], system_terminal = terminal_new () black, system_keyboard = \<lparr>hardware = [], active_modifiers = no_modifiers\<rparr>\<rparr>"

lemma call_cpu_facts:
  "cpu_wf (call_cpu number a0 a1)" "registers (call_cpu number a0 a1) = (replicate 31 0)[16 := number, 9 := a0, 10 := a1]"
  "memory (call_cpu number a0 a1) = memory (call_cpu 0 0 0)" "program_counter (call_cpu number a0 a1) = 0x1000"
  by (simp_all add: call_cpu_def cpu_wf_def demo_cpu_def cpu_from_def)

lemma call_memory:
  "read_u32_le vm_ops (memory (call_cpu 0 0 0)) 0x1000 = Some 0x73" "vm_inv (memory (call_cpu 0 0 0))"
  "user_slice (memory (call_cpu 0 0 0)) 0x1008 8 = Some (Some (replicate 8 0))"
  "cstr_user_pointer_to_str (memory (call_cpu 0 0 0)) 0x1004 = Some (Some [0x2F, 0x61])"
  subgoal by code_simp
  subgoal by (simp add: call_cpu_def demo_cpu_def cpu_from_def vm_inv_def region_ok_def region_len_def)
  subgoal by code_simp
  subgoal by code_simp
  done

lemma at_call:
  assumes "number \<noteq> MaxValue"
  shows "at_syscall number 0x1004 (call_cpu (discriminant number) a0 a1)"
proof -
  have f: "fetch_decode 0x73 = Some (IInst SYSTEM 0 0 0 0)" "next_pc (inst_len 0x73) 0x1000 = Some 0x1004" by code_simp+
  have e: "is_ecall (IInst SYSTEM 0 0 0 0)" by (simp add: is_ecall_def)
  have "read_u32_le vm_ops (memory (call_cpu (discriminant number) a0 a1)) (program_counter (call_cpu (discriminant number) a0 a1)) = Some 0x73"
    "next_pc (inst_len 0x73) (program_counter (call_cpu (discriminant number) a0 a1)) = Some 0x1004"
    unfolding call_cpu_facts(3) [of "discriminant number"] call_cpu_facts(4) by (rule call_memory(1), rule f(2))
  moreover have "try_from (registers (call_cpu (discriminant number) a0 a1) ! 16) = Some number"
    using try_from_discriminant [OF assms] by (simp add: call_cpu_facts(2))
  ultimately show ?thesis unfolding at_syscall_def using f(1) e call_cpu_facts(1) by (intro conjI exI) assumption+
qed

lemma call_task_simps [simp]:
  "emu (call_task cpu s k parent) = cpu" "state (data (call_task cpu s k parent)) = s" "pid (data (call_task cpu s k parent)) = Some k"
  "parent_pid (data (call_task cpu s k parent)) = parent" "fd_mappings (data (call_task cpu s k parent)) = []"
  "open_nodes (data (call_task cpu s k parent)) = []" "fd_refs (data (call_task cpu s k parent)) m = 0"
  by (simp_all add: call_task_def ProcessData_new_def fd_refs_def holders_def lookup_slot_def)

lemma call_sched_ok: "sched_ok [Some (call_task cpu RUNNING 1 None)] (call_system 1)"
proof -
  let ?l = "[Some (call_task cpu RUNNING 1 None)]"
  have look: "lookup_slot [Some v] i = (if i = 0 then Some v else None)" for v :: 'x and i by (simp add: lookup_slot_def)
  have "tasks_sync ?l (call_system 1)" by (simp add: tasks_sync_def call_system_def trimmed_def look)
  moreover have "pipes_ok (total_refs ?l) (PIPES (call_system 1))"
    by (simp add: pipes_ok_def total_refs_def call_system_def lookup_slot_def)
  moreover have "task_ok ?l (call_task cpu RUNNING 1 None)"
    by (simp add: task_ok_def waits_ok_def nodes_ok_def trimmed_def) (simp add: lookup_slot_def)
  ultimately show ?thesis by (auto simp: sched_ok_def look)
qed

theorem fork_returns_twice_witness:
  "\<exists>l1 g1 l2 g2. run_task (Process_tick lsb0_crate (\<lambda>_. True) demo_decode demo_devices)
       [Some (call_task (call_cpu 14 0 0) RUNNING 1 None)] (call_system 1) 0 = Some (l1, g1)
     \<and> map_option (\<lambda>p. registers (emu p) ! 9) (lookup_slot l1 0) = Some 2
     \<and> run_task (Process_tick lsb0_crate (\<lambda>_. True) demo_decode demo_devices) l1 g1 1 = Some (l2, g2)
     \<and> map_option (\<lambda>p. registers (emu p) ! 9) (lookup_slot l2 1) = Some 0"
proof -
  have n: "NUMBER_OF_TASKS (call_system 1) = length [Some (call_task (call_cpu 14 0 0) RUNNING 1 None)]" by (simp add: call_system_def)
  have p: "lookup_slot [Some (call_task (call_cpu 14 0 0) RUNNING 1 None)] 0 = Some (call_task (call_cpu 14 0 0) RUNNING 1 None)"
    by (simp add: lookup_slot_def)
  have at: "at_syscall Fork 0x1004 (emu (call_task (call_cpu 14 0 0) RUNNING 1 None))" using at_call [of Fork 0 0] by simp
  have room: "\<forall>m. total_refs [Some (call_task (call_cpu 14 0 0) RUNNING 1 None)] m
      + fd_refs (data (call_task (call_cpu 14 0 0) RUNNING 1 None)) m < 2 ^ 64" by (simp add: total_refs_def)
  have st: "state (data (call_task (call_cpu 14 0 0) RUNNING 1 None)) = RUNNING" by simp
  from fork_returns_twice [OF lsb0.packed_struct_crate_axioms call_sched_ok n p at st room,
      where mem = "\<lambda>_. True" and dcd = demo_decode and dev = demo_devices]
  show ?thesis unfolding Let_def
    by (elim exE conjE) (auto simp: lookup_slot_def returned_def forked_def call_cpu_facts(2))
qed



theorem c_chdir_correct_witness:
  "\<exists>rs. length rs = 31 \<and> c_chdir (syscall_entry_point (\<lambda>_. True) demo_decode demo_devices) 0x1004
      (call_cpu 0 0 0, call_system 1, data (call_task (call_cpu 0 0 0) RUNNING 1 None))
    = Some (0, (call_cpu 0 0 0)\<lparr>registers := rs\<rparr>, (call_system 1)\<lparr>device_world := [1, 2, 3]\<rparr>,
        (data (call_task (call_cpu 0 0 0) RUNNING 1 None))\<lparr>cwd := ''/a''\<rparr>)"
proof -
  let ?p = "data (call_task (call_cpu 0 0 0) RUNNING 1 None)"
  have "cwd ?p = ''/''" by (simp add: call_task_def ProcessData_new_def)
  moreover have "open_path ''/'' (text_of [0x2F, 0x61]) = Some ''/a''" by code_simp
  ultimately have path: "open_path (cwd ?p) (text_of [0x2F, 0x61]) = Some ''/a''" by simp
  have "find_or_create demo_devices [1, 2, 3] ''/a'' O_RDONLY = Some (Some (File ()), [1, 2, 3])" by code_simp
  then have found: "find_or_create demo_devices (device_world (call_system 1)) ''/a'' O_RDONLY = Some (Some (File ()), [1, 2, 3])"
    by (simp add: call_system_def)
  show ?thesis
    by (rule c_chdir_correct [OF call_cpu_facts(1) call_memory(4) path found]) (simp_all add: trimmed_def)
qed

theorem c_realloc_ignores_size_witness:
  "c_realloc (syscall_entry_point (\<lambda>_. True) demo_decode demo_devices) 0x5000 0x100 (call_cpu 0 0 0, call_system 1, data (call_task (call_cpu 0 0 0) RUNNING 1 None))
    = Some (Some 0, (call_cpu 0 0 0)\<lparr>memory := memory (call_cpu 0 0 0),
        registers := (registers (call_cpu 0 0 0))[9 := 0x5000, 11 := 0x100, 16 := 8, 9 := 0]\<rparr>, call_system 1, data (call_task (call_cpu 0 0 0) RUNNING 1 None))"
proof -
  have "try_map (memory (call_cpu 0 0 0)) 0x5000 = Some None" by code_simp
  then have "realloc (\<lambda>_. True) (memory (call_cpu 0 0 0), data (call_task (call_cpu 0 0 0) RUNNING 1 None)) 0x5000 (registers (call_cpu 0 0 0) ! 10) = Some (0, memory (call_cpu 0 0 0), data (call_task (call_cpu 0 0 0) RUNNING 1 None))"
    by (simp add: realloc_def)
  from c_realloc_ignores_size [OF call_cpu_facts(1) this] show ?thesis .
qed

end
