(* ===== verification/Spec2Isabelle.thy ===== *)
theory Spec2Isabelle
  imports Printf Elf Ext2_Dir Syscall
begin

text \<open>
  Verification of ron, an operating system kernel in Rust that runs user programs in an emulator,
  and of rlibc, the C library those programs are linked with.

  \<^bold>\<open>The program and its parts.\<close> The kernel (\<^verbatim>\<open>src/kernel/src\<close>) keeps a list of tasks. In every
  round the scheduler (\<^verbatim>\<open>scheduler.rs\<close>) gives each task a turn: it delivers signals, resumes
  processes that wait for a child or a pipe, releases processes that have ended, and lets a running
  process execute one instruction in the RISC-V emulator (\<^verbatim>\<open>emulator.rs\<close>). The emulator reads and
  writes the regions of the process (\<^verbatim>\<open>virtmem.rs\<close>), whose storage and addresses come from the
  allocator (\<^verbatim>\<open>allocator.rs\<close>), and calls the system call handler (\<^verbatim>\<open>syscall.rs\<close>) on ECALL. The
  handler works on the data of the process (\<^verbatim>\<open>process.rs\<close>): file descriptors, pipes, its state.
  Files are found by path (\<^verbatim>\<open>vfs.rs\<close>) in an ext2 file system (\<^verbatim>\<open>ext2.rs\<close>) on a partition of a disk
  (\<^verbatim>\<open>partitions.rs\<close>), and a program is an ELF file (\<^verbatim>\<open>elf.rs\<close>). The programs call the C library (\<^verbatim>\<open>src/rlibc/src\<close>), which has its own memory, string and formatting
  functions and turns the rest into system calls.

  \<^bold>\<open>Conventions.\<close> Machine integers are words of their width. The kernel is built with the debug
  profile and \<^verbatim>\<open>panic = "abort"\<close>: what may panic (overflow, index, unwrap, division by zero) is in
  the option monad, \<open>None\<close> being the panic, so a theorem that a result is \<open>Some\<close> says that the
  kernel survives. rlibc is built with the release profile, where arithmetic wraps around; there
  \<open>None\<close> is also an access outside the mapped memory. State is passed explicitly, as records with
  the source's fields. \<^verbatim>\<open>Fallible\<close> has the shape of a method that changes a state and returns an
  \<^verbatim>\<open>Option\<close>: a panic, or the returned option with the state at the return, as \<^verbatim>\<open>?\<close> keeps what was
  changed before it. \<^verbatim>\<open>Prelude\<close> has the panic monad, checked arithmetic, the tables of optional
  entries the kernel uses as identifiers, and little-endian encodings.

  \<^bold>\<open>Emulator\<close> (\<^verbatim>\<open>emulator.rs\<close>). \<^verbatim>\<open>Riscv_Formats\<close>: opcodes, the six 32-bit formats, their packing,
  unpacking and immediates; the crate \<^verbatim>\<open>packed_struct\<close> is a parameter with its documented bit-field
  laws as a locale, interpreted on the bit operations. \<^verbatim>\<open>Riscv_Compressed\<close>: the nine compressed
  formats and the expansion inside \<^verbatim>\<open>tick\<close>. \<^verbatim>\<open>Riscv_Cpu\<close>: registers, the execution of every
  instruction, \<^verbatim>\<open>tick\<close>; memory and system call handler are arguments. \<^verbatim>\<open>Riscv_Isa\<close> has the encoding
  tables of the RISC-V manual and shows that decoding and expansion agree with them on every word.
  \<^verbatim>\<open>Riscv_Machine\<close> has an abstract RV64IMC machine on integers and shows that \<^verbatim>\<open>tick\<close> refines it,
  instruction by instruction, and what an ECALL does. \<^verbatim>\<open>Riscv_Safety\<close> has what a program can do to
  the kernel: the panics on division by zero, on jumps to low addresses and on fetches at the end of
  a region, and the agreement of stores and loads.

  \<^bold>\<open>Memory\<close> (\<^verbatim>\<open>virtmem.rs\<close>, \<^verbatim>\<open>allocator.rs\<close>). \<^verbatim>\<open>Virtmem\<close>: regions, lookup, addition, removal and the
  accesses of all widths; they refine a partial map from addresses to bytes, and the trait
  \<^verbatim>\<open>EmulatorMemory\<close> is a locale interpreted on them. \<^verbatim>\<open>Allocator\<close>: \<^verbatim>\<open>BasicAlloc\<close> with its stash of
  blocks freed out of order; allocation gives aligned, disjoint blocks inside the heap and fails only
  without room, freeing in any order keeps the invariant.

  \<^bold>\<open>Processes\<close> (\<^verbatim>\<open>process.rs\<close>, \<^verbatim>\<open>syscall.rs\<close>). \<^verbatim>\<open>Slots\<close> is the contract of an identifier table as a
  locale. \<^verbatim>\<open>Process\<close>: the process data, exit, signals, \<^verbatim>\<open>close\<close>, \<^verbatim>\<open>dup\<close>, \<^verbatim>\<open>dup2\<close>, \<^verbatim>\<open>pipe\<close>, \<^verbatim>\<open>lseek\<close>,
  the pipe arms of \<^verbatim>\<open>read\<close> and \<^verbatim>\<open>write\<close>, the drop of a process. \<^verbatim>\<open>Process_Fds\<close> and
  \<^verbatim>\<open>Process_Pipes\<close>: the reference counts of nodes and pipe ends are exact, every operation keeps them
  so and none panics on them; a pipe is a queue of bytes. \<^verbatim>\<open>User_Memory\<close>: pointers of the program,
  \<^verbatim>\<open>malloc\<close>, \<^verbatim>\<open>free\<close> and \<^verbatim>\<open>realloc\<close> on its heap, \<^verbatim>\<open>getcwd\<close>, \<^verbatim>\<open>getenv\<close>, \<^verbatim>\<open>waitpid\<close> and \<^verbatim>\<open>pipe\<close> with their stores;
  the invariant of the heap ties the regions of the program to the live blocks of its allocator.
  \<^verbatim>\<open>Process_Load\<close>: segments, stack, arguments and environment of a new program, \<^verbatim>\<open>from_elf\<close>; the memory
  that results is described exactly. \<^verbatim>\<open>Utf8\<close>: what the kernel uses of \<^verbatim>\<open>str\<close>.

  \<^bold>\<open>System calls\<close> (\<^verbatim>\<open>syscall.rs\<close>, \<^verbatim>\<open>src/rlibc/src/sys.rs\<close>). \<^verbatim>\<open>Syscall_Files\<close>: \<^verbatim>\<open>read\<close>, \<^verbatim>\<open>write\<close> and \<^verbatim>\<open>open\<close>; the
  mounted file systems, the frame buffer and the ports of the keyboard are a record of parameters, and
  their state is the type of the world. \<^verbatim>\<open>Syscall_Exec\<close>: arguments and environment of the caller, the
  search in \<^verbatim>\<open>PATH\<close>, \<^verbatim>\<open>exec\<close> of ELF files and of interpreter scripts, which calls itself at most a hundred
  times. \<^verbatim>\<open>Syscall\<close>: the numbers, the entry point with every arm, \<^verbatim>\<open>Process::tick\<close>, and the wrappers of the
  C library, whose inline assembly is modelled by the registers that it loads. Here the parts meet: the
  globals of the scheduler are extended by the devices, the handler is the one the emulator is run
  with, and \<^verbatim>\<open>Process::tick\<close> is the one the scheduler is run with. The theorems follow a call from the
  library through the emulator, the handler and the scheduler: \<^verbatim>\<open>fork\<close> returns twice, \<^verbatim>\<open>waitpid\<close> collects a
  child, \<^verbatim>\<open>chdir\<close> leaves no descriptor behind, \<^verbatim>\<open>exec\<close> replaces the program.

  \<^bold>\<open>Keyboard and terminal\<close>. \<^verbatim>\<open>Keyboard\<close> (\<^verbatim>\<open>ps2_8042.rs\<close>, \<^verbatim>\<open>hio.rs\<close>): bytes of the controller, scan codes, packets,
  modifiers and the layout. \<^verbatim>\<open>Terminal\<close> (\<^verbatim>\<open>terminal.rs\<close>, \<^verbatim>\<open>char_device.rs\<close>): the cursor, the drawing of
  characters on a frame buffer, line editing and the standard input: a program reads the line that
  was typed and edited, and the terminal draws inside of its screen.

  \<^bold>\<open>Files and programs\<close>. \<^verbatim>\<open>Vfs\<close> (\<^verbatim>\<open>vfs.rs\<close>): paths and their canonical form, the search for the node
  of a path, which walks the components of the path one folder at a time, and the tree of folders
  that file systems are mounted over; the folders of a mounted file system are a parameter.
  \<^verbatim>\<open>Partitions\<close> (\<^verbatim>\<open>partitions.rs\<close>, \<^verbatim>\<open>devfs.rs\<close>): the entry of the partition table and the file of a
  partition. The contract of a file with contents is the locale \<open>stored_file\<close>; a partition of such
  a file is such a file, its contents a section of the disk, and writes stay inside of it.
  \<^verbatim>\<open>Elf\<close> (\<^verbatim>\<open>elf.rs\<close>): identification, file header and program headers in both widths and byte orders;
  the field decoder of \<^verbatim>\<open>packed_struct\<close> is a parameter. What an ELF writer lays out is read back.

  \<^bold>\<open>ext2\<close> (\<^verbatim>\<open>ext2.rs\<close>). \<^verbatim>\<open>Ext2_Format\<close>: the structures on the disk, their packing and round trips.
  \<^verbatim>\<open>Ext2_Fs\<close>: \<^verbatim>\<open>Ext2FS\<close> with superblocks, group descriptors, bitmaps and the inode table, on a backing
  file that is a parameter. \<^verbatim>\<open>Ext2_Blocks\<close> has the locale \<open>ext2_env\<close> (a stored file and the field
  codec), the state of a mounted file system and its geometry; \<^verbatim>\<open>Ext2_Alloc\<close> shows what allocating and
  releasing a block and writing an inode change and what they keep, and interprets the locale on a
  RAM disk and on a partition of one. \<^verbatim>\<open>Ext2_Inode\<close>: the pointer tree of an inode, reading, writing,
  growing and shrinking, and the files. \<^verbatim>\<open>Ext2_Files\<close> describes the tree as a list of blocks and a file
  by its contents; \<^verbatim>\<open>Ext2_Io\<close> shows what reading and writing do to them, and where a write goes that
  does not start at a block boundary; \<^verbatim>\<open>Ext2_Resize\<close> how many blocks are added and removed, and the block
  that a growing file lacks. \<^verbatim>\<open>Ext2_Dir\<close>: directories as chains of entries, listing, unlinking and
  creating children. Group geometry is that of block sizes 1024 and 2048, where the code finds the
  descriptor table; larger blocks are the subject of one lemma.

  \<^bold>\<open>Scheduler\<close> (\<^verbatim>\<open>scheduler.rs\<close>). \<^verbatim>\<open>Scheduler\<close>: the global tables, a whole round, every process state,
  \<^verbatim>\<open>fork\<close>; one instruction is a parameter, its contract \<open>step_ok\<close>; \<^verbatim>\<open>Syscall\<close> has \<^verbatim>\<open>Process::tick\<close>.
  \<^verbatim>\<open>Scheduler_Props\<close> and \<^verbatim>\<open>Scheduler_Inv\<close>: a signalled process does not run, waiting for children, the
  invariant over all processes, a round that never panics, and the cases where the numbering of
  processes goes wrong.

  \<^bold>\<open>C library\<close> (\<^verbatim>\<open>src/rlibc/src\<close>). \<^verbatim>\<open>Rlibc_Mem\<close> (\<^verbatim>\<open>mem.rs\<close>) and \<^verbatim>\<open>Rlibc_Str\<close> (\<^verbatim>\<open>cstr.rs\<close>): the
  memory and string functions with their word-wide loops against byte-wise descriptions.
  \<^verbatim>\<open>Printf_Spec\<close> (\<^verbatim>\<open>specifier_parsing.rs\<close>): the parsers of conversion specifications; they satisfy one
  contract, a locale interpreted on both, and the printf parser reads back every specification.
  \<^verbatim>\<open>Printf\<close> (\<^verbatim>\<open>lib.rs\<close>): \<^verbatim>\<open>vfprintf\<close> writes the text of its format string; the system call
  \<^verbatim>\<open>write\<close> is a parameter.

  \<^bold>\<open>Fuel and bounds.\<close> Loops over ranges and lists are structural recursion; no definition has a fuel
  argument. The loop over directory entries and the search through the block groups are functions with
  a measure: an entry that does not advance panics, and a group number does not wrap. The search for the null pointer at the end of \<^verbatim>\<open>argv\<close> ends at
  the end of its region, where the code goes on reading memory that is not the program's. The unbounded
  loops, \<^verbatim>\<open>strlen\<close>, the digit loop of \<^verbatim>\<open>printf\<close> and the loops that wait for the keyboard, are partial
  functions in the option monad, and their lemmas state that they return.

  \<^bold>\<open>Not modelled\<close>: \<^verbatim>\<open>vfscanf\<close> beyond its parser and the stream functions of \<^verbatim>\<open>lib.rs\<close>, which only
  buffer calls that are modelled; the initialisation of the keyboard controller; the ATA driver, the VGA
  registers, the frame buffers of EFI and VGA and the UART, which are input and output with devices;
  the boot code, the interactive shell of \<^verbatim>\<open>main.rs\<close> and the lock and lazy-initialisation wrappers.
\<close>

end
